(* ===== verification/Prelude.thy ===== *)
theory Prelude
  imports Main "HOL-Library.Word" "HOL-Library.While_Combinator"
begin

text \<open>
  Shared vocabulary of the development: the fault values that stand for the ways the C++ code
  stops (a failed \<open>ASSERT\<close>, undefined behaviour, a call of \<open>Egg::error\<close>, a thrown C++
  exception), the result type that carries them, and generic lemmas on lists, options and words
  that several components use.  The collection \<open>result_simps\<close> holds the equations that drive
  a result through its continuation.
\<close>

unbundle bit_operations_syntax

named_theorems result_simps \<open>equations that evaluate results of fallible code\<close>

section \<open>Faults and results\<close>

text \<open>
  \<open>AssertionFailed\<close> is a false \<open>ASSERT\<close> (\<open>Util.h\<close> defines it as \<open>assert\<close>);
  \<open>Undefined\<close> is an operation whose behaviour C++ leaves undefined (a division by zero, a
  shift by a negative amount, an access outside a vector); \<open>FatalError\<close> is a call of
  \<open>Egg::error\<close>, which exits the process; \<open>Thrown\<close> is a C++ exception with its message;
  \<open>OutOfFuel\<close> stands for a loop or a recursion of the model that did not return within its fuel.
\<close>

datatype fault = AssertionFailed | Undefined | FatalError string | Thrown string | OutOfFuel

type_synonym 'a result = "fault + 'a"

definition bind_result :: "'a result \<Rightarrow> ('a \<Rightarrow> 'b result) \<Rightarrow> 'b result" where
  "bind_result r k = (case r of Inl e \<Rightarrow> Inl e | Inr x \<Rightarrow> k x)"

lemma bind_result_simps [simp, result_simps]:
  "bind_result (Inl e) k = Inl e"
  "bind_result (Inr x) k = k x"
  by (simp_all add: bind_result_def)

lemma bind_result_eq_Inr [result_simps]:
  "bind_result r k = Inr y \<longleftrightarrow> (\<exists>x. r = Inr x \<and> k x = Inr y)"
  by (cases r) auto

lemma bind_result_cong [fundef_cong]:
  "r = r' \<Longrightarrow> (\<And>x. r' = Inr x \<Longrightarrow> k x = k' x) \<Longrightarrow> bind_result r k = bind_result r' k'"
  by (cases r') (auto simp: bind_result_def)

definition assert_that :: "bool \<Rightarrow> 'a result \<Rightarrow> 'a result" where
  "assert_that b r = (if b then r else Inl AssertionFailed)"

lemma assert_that_simps [simp, result_simps]:
  "assert_that True r = r"
  "assert_that False r = Inl AssertionFailed"
  by (simp_all add: assert_that_def)

text \<open>\<open>outcome F P r\<close>: a fault is one of \<open>F\<close>, a value satisfies \<open>P\<close>.\<close>

definition outcome :: "(fault \<Rightarrow> bool) \<Rightarrow> ('a \<Rightarrow> bool) \<Rightarrow> 'a result \<Rightarrow> bool" where
  "outcome F P r = (case r of Inl f \<Rightarrow> F f | Inr x \<Rightarrow> P x)"

lemma outcome_simps [simp]: "outcome F P (Inl f) = F f" "outcome F P (Inr x) = P x"
  by (simp_all add: outcome_def)

lemma outcome_bind:
  "outcome F P r \<Longrightarrow> (\<And>x. r = Inr x \<Longrightarrow> P x \<Longrightarrow> outcome F Q (k x)) \<Longrightarrow> outcome F Q (bind_result r k)"
  by (cases r) auto

lemma outcome_mono: "outcome F P r \<Longrightarrow> (\<And>x. P x \<Longrightarrow> Q x) \<Longrightarrow> outcome F Q r"
  by (cases r) auto

section \<open>Lists\<close>

lemma takeWhile_all_iff: "takeWhile P xs = xs \<longleftrightarrow> (\<forall>x\<in>set xs. P x)"
  by (induction xs) auto

lemma nth_append_Cons_mid: "n = length xs \<Longrightarrow> (xs @ y # ys) ! n = y"
  by (simp add: nth_append)

section \<open>Loops of fallible code\<close>

text \<open>\<open>while_result b c s\<close> is \<open>while (b) c;\<close> from the state \<open>s\<close>: a fault of the body ends it, and
  a loop that never ends is \<open>OutOfFuel\<close>.\<close>

definition while_result :: "('s \<Rightarrow> bool) \<Rightarrow> ('s \<Rightarrow> 's result) \<Rightarrow> 's \<Rightarrow> 's result" where
  "while_result b c s =
     (case while_option (case_sum (\<lambda>e. False) b) (\<lambda>r. bind_result r c) (Inr s) of
        None \<Rightarrow> Inl OutOfFuel
      | Some r \<Rightarrow> r)"

lemma while_result_fault:
  "while_option (case_sum (\<lambda>e. False) b) (\<lambda>r. bind_result r c) (Inl e) = Some (Inl e)"
  by (subst while_option_unfold) simp

lemma while_result_unfold:
  "while_result b c s = (if b s then bind_result (c s) (while_result b c) else Inr s)"
proof (cases "b s \<and> isl (c s)")
  case True
  then obtain e where "c s = Inl e"
    by (cases "c s") auto
  with True show ?thesis
    unfolding while_result_def by (subst while_option_unfold) (simp add: while_result_fault)
next
  case False
  then show ?thesis
    unfolding while_result_def by (subst while_option_unfold) (cases "c s", auto simp: while_result_def)
qed

text \<open>A loop with an invariant and a measure ends, or faults as its body does.\<close>

lemma while_result_total:
  assumes "wf r" "I s"
    and step: "\<And>s. I s \<Longrightarrow> b s \<Longrightarrow> outcome E (\<lambda>s'. I s' \<and> (s', s) \<in> r) (c s)"
  shows "outcome E (\<lambda>s'. I s' \<and> \<not> b s') (while_result b c s)"
  using assms(1,2)
proof (induction s rule: wf_induct_rule)
  case (less s)
  show ?case
  proof (cases "b s")
    case True
    show ?thesis
      using step [OF less.prems True] True less.IH
      by (subst while_result_unfold) (cases "c s", auto)
  qed (use less.prems in \<open>subst while_result_unfold, simp\<close>)
qed

end
