(* ===== verification/SmallIntegers.thy ===== *)
theory SmallIntegers
  imports Prelude "HOL-Library.Signed_Division"
begin

text \<open>
  Tagged small integers (\<open>SmallInteger.h\<close>, \<open>SmallInteger.cpp\<close>, \<open>Object.h\<close>) and the arithmetic
  primitives and underprimitives of \<open>Evaluator.cpp\<close> that work on them.  An object pointer is a
  64-bit word; a small integer carries its value in the upper 63 bits and a set lowest bit.  A
  native integer (\<open>intptr_t\<close>) is an \<open>int\<close>: the lemmas of this theory show that on tagged
  operands no intermediate value of the primitives leaves the 64-bit range, so the C++ arithmetic
  is exact.
\<close>

section \<open>Tagging\<close>

type_synonym oop = "64 word"

definition INTPTR_MIN :: int where "INTPTR_MIN = - 9223372036854775808"
definition INTPTR_MAX :: int where "INTPTR_MAX = 9223372036854775807"

definition SMALLINT_MIN :: int where "SMALLINT_MIN = INTPTR_MIN div 2"
definition SMALLINT_MAX :: int where "SMALLINT_MAX = INTPTR_MAX div 2"

definition smi_range :: "int \<Rightarrow> bool" where
  "smi_range i \<longleftrightarrow> SMALLINT_MIN \<le> i \<and> i \<le> SMALLINT_MAX"

definition isSmallInteger :: "oop \<Rightarrow> bool" where
  "isSmallInteger w \<longleftrightarrow> w AND 1 \<noteq> 0"

definition smi_tag :: "int \<Rightarrow> oop" where
  "smi_tag i = push_bit 1 (word_of_int i) OR 1"

definition smi_untag :: "oop \<Rightarrow> int" where
  "smi_untag w = sint (signed_drop_bit 1 w)"

text \<open>\<open>SmallInteger::from\<close> and \<open>asNative\<close> assert their preconditions.\<close>

definition smi_from :: "int \<Rightarrow> oop result" where
  "smi_from i = assert_that (SMALLINT_MIN \<le> i \<and> i \<le> SMALLINT_MAX) (Inr (smi_tag i))"

definition asNative :: "oop \<Rightarrow> int result" where
  "asNative w = assert_that (isSmallInteger w) (Inr (smi_untag w))"

definition smallpointerFrom :: "oop \<Rightarrow> oop result" where
  "smallpointerFrom p = assert_that (p AND 1 = 0) (Inr (p OR 1))"

definition asObject :: "oop \<Rightarrow> oop" where
  "asObject w = w AND NOT 1"

lemmas smi_limits = SMALLINT_MIN_def SMALLINT_MAX_def INTPTR_MIN_def INTPTR_MAX_def

lemma smi_range_eq: "smi_range i \<longleftrightarrow> - (2 ^ 62) \<le> i \<and> i < 2 ^ 62"
  by (auto simp: smi_range_def smi_limits)

lemma isSmallInteger_bit: "isSmallInteger w \<longleftrightarrow> bit w 0"
  by (simp add: isSmallInteger_def and_one_eq bit_0 even_iff_mod_2_eq_zero odd_iff_mod_2_eq_one)

lemma smi_tag_arith: "smi_tag i = word_of_int (2 * i + 1)"
proof -
  have "push_bit 1 (word_of_int i :: oop) OR 1 = push_bit 1 (word_of_int i) + 1"
    by (rule disjunctive_add [symmetric])
      (simp add: bit_1_iff bit_push_bit_iff del: push_bit_Suc push_bit_numeral One_nat_def)
  then show ?thesis
    by (simp add: smi_tag_def)
qed

lemma isSmallInteger_tag [simp]: "isSmallInteger (smi_tag i)"
  by (simp add: isSmallInteger_bit smi_tag_def bit_or_iff bit_1_iff)

lemma sint_smi_tag: "smi_range i \<Longrightarrow> sint (smi_tag i) = 2 * i + 1"
  unfolding smi_tag_arith sint_sbintrunc'
  by (simp add: smi_range_eq signed_take_bit_int_eq_self)

lemma smi_untag_tag [simp]: "smi_range i \<Longrightarrow> smi_untag (smi_tag i) = i"
  by (simp add: smi_untag_def sint_signed_drop_bit_eq sint_smi_tag drop_bit_eq_div)

lemma smi_range_untag: "smi_range (smi_untag w)"
proof -
  have "- (2 ^ 63) \<le> sint w" "sint w < 2 ^ 63"
    using sint_greater_eq [of w] sint_less [of w] by simp_all
  then show ?thesis
    by (auto simp: smi_range_eq smi_untag_def sint_signed_drop_bit_eq drop_bit_eq_div)
qed

lemma smi_tag_untag:
  assumes "isSmallInteger w"
  shows "smi_tag (smi_untag w) = w"
proof -
  have "odd (sint w)"
    using assms by (simp add: isSmallInteger_bit bit_sint_iff flip: bit_0)
  then have "2 * (sint w div 2) + 1 = sint w"
    by presburger
  then show ?thesis
    by (simp add: smi_tag_arith smi_untag_def sint_signed_drop_bit_eq drop_bit_eq_div)
qed

lemma smi_tag_inject: "smi_range i \<Longrightarrow> smi_range j \<Longrightarrow> smi_tag i = smi_tag j \<longleftrightarrow> i = j"
  by (metis smi_untag_tag)

lemma smi_from_tag [simp, result_simps]: "smi_range i \<Longrightarrow> smi_from i = Inr (smi_tag i)"
  by (simp add: smi_from_def smi_range_def)

lemma smi_from_out [simp, result_simps]: "\<not> smi_range i \<Longrightarrow> smi_from i = Inl AssertionFailed"
  by (auto simp: smi_from_def smi_range_def assert_that_def)

lemma asNative_tag [simp, result_simps]: "smi_range i \<Longrightarrow> asNative (smi_tag i) = Inr i"
  by (simp add: asNative_def)

lemma asNative_pointer [simp, result_simps]: "\<not> isSmallInteger w \<Longrightarrow> asNative w = Inl AssertionFailed"
  by (simp add: asNative_def)

section \<open>Native arithmetic\<close>

text \<open>
  C++ operators on \<open>intptr_t\<close>.  Addition, subtraction and division are undefined where the exact
  result does not fit; the left shift keeps the low 64 bits; both shifts are undefined for an
  amount outside \<open>0..63\<close>.
\<close>

definition intptr_range :: "int \<Rightarrow> bool" where
  "intptr_range i = (INTPTR_MIN \<le> i \<and> i \<le> INTPTR_MAX)"

definition c_exact :: "int \<Rightarrow> int result" where
  "c_exact i = (if intptr_range i then Inr i else Inl Undefined)"

definition c_div :: "int \<Rightarrow> int \<Rightarrow> int result" where
  "c_div a b = (if b = 0 then Inl Undefined else c_exact (a sdiv b))"

definition c_mod :: "int \<Rightarrow> int \<Rightarrow> int result" where
  "c_mod a b = (if b = 0 \<or> \<not> intptr_range (a sdiv b) then Inl Undefined else Inr (a smod b))"

definition c_shl :: "int \<Rightarrow> int \<Rightarrow> int result" where
  "c_shl a n = (if n < 0 \<or> 64 \<le> n then Inl Undefined else Inr (signed_take_bit 63 (push_bit (nat n) a)))"

definition c_shr :: "int \<Rightarrow> int \<Rightarrow> int result" where
  "c_shr a n = (if n < 0 \<or> 64 \<le> n then Inl Undefined else Inr (drop_bit (nat n) a))"

text \<open>\<open>mul_overflow_iptr\<close>: \<open>None\<close> is overflow, \<open>Some\<close> the exact product.\<close>

definition mul_overflow_iptr :: "int \<Rightarrow> int \<Rightarrow> int option" where
  "mul_overflow_iptr a b = (if intptr_range (a * b) then Some (a * b) else None)"

section \<open>Primitives of SmallInteger methods\<close>

text \<open>
  A primitive answers an object or falls back to the Smalltalk code that follows it
  (\<open>failPrimitive\<close>).  The receiver \<open>self\<close> and the first argument \<open>arg\<close> are object pointers;
  \<open>true\<close>, \<open>false\<close> and \<open>nil\<close> objects are parameters.
\<close>

datatype prim_answer = Answer oop | FallBack

definition newIntObject :: "int \<Rightarrow> prim_answer result" where
  "newIntObject i = bind_result (smi_from i) (\<lambda>w. Inr (Answer w))"

definition boolObject :: "oop \<Rightarrow> oop \<Rightarrow> bool \<Rightarrow> prim_answer result" where
  "boolObject t f b = Inr (Answer (if b then t else f))"

definition primitiveSMIBitAnd :: "oop \<Rightarrow> oop \<Rightarrow> prim_answer result" where
  "primitiveSMIBitAnd self arg =
     (if \<not> isSmallInteger arg then Inr FallBack
      else bind_result (asNative self) (\<lambda>a. bind_result (asNative arg) (\<lambda>b. newIntObject (a AND b))))"

definition primitiveSMIBitOr :: "oop \<Rightarrow> oop \<Rightarrow> prim_answer result" where
  "primitiveSMIBitOr self arg =
     (if \<not> isSmallInteger arg then Inr FallBack
      else bind_result (asNative self) (\<lambda>a. bind_result (asNative arg) (\<lambda>b. newIntObject (a OR b))))"

definition primitiveSMIBitXor :: "oop \<Rightarrow> oop \<Rightarrow> prim_answer result" where
  "primitiveSMIBitXor self arg =
     (if \<not> isSmallInteger arg then Inr FallBack
      else bind_result (asNative self) (\<lambda>a. bind_result (asNative arg) (\<lambda>b. newIntObject (a XOR b))))"

definition primitiveSMIBitShift :: "oop \<Rightarrow> oop \<Rightarrow> prim_answer result" where
  "primitiveSMIBitShift self arg =
     bind_result (asNative self) (\<lambda>a. bind_result (asNative arg) (\<lambda>n.
       if 0 < n then
         (if 63 \<le> n \<or> (a \<noteq> 0 \<and> (drop_bit (nat n) SMALLINT_MAX < a \<or> a < drop_bit (nat n) SMALLINT_MIN))
          then Inr FallBack
          else bind_result (c_shl a n) newIntObject)
       else
         (let rshift = - n in
            if 63 \<le> rshift then newIntObject (if a < 0 then -1 else 0)
            else bind_result (c_shr a rshift) newIntObject)))"

definition primitiveSMIEqual :: "oop \<Rightarrow> oop \<Rightarrow> oop \<Rightarrow> oop \<Rightarrow> prim_answer result" where
  "primitiveSMIEqual t f self arg =
     (if isSmallInteger arg
      then bind_result (asNative self) (\<lambda>a. bind_result (asNative arg) (\<lambda>b. boolObject t f (a = b)))
      else Inr FallBack)"

definition primitiveSMIGreaterEqualThan :: "oop \<Rightarrow> oop \<Rightarrow> oop \<Rightarrow> oop \<Rightarrow> prim_answer result" where
  "primitiveSMIGreaterEqualThan t f self arg =
     (if isSmallInteger arg
      then bind_result (asNative self) (\<lambda>a. bind_result (asNative arg) (\<lambda>b. boolObject t f (b \<le> a)))
      else Inr FallBack)"

definition primitiveSMIGreaterThan :: "oop \<Rightarrow> oop \<Rightarrow> oop \<Rightarrow> oop \<Rightarrow> prim_answer result" where
  "primitiveSMIGreaterThan t f self arg =
     (if isSmallInteger arg
      then bind_result (asNative self) (\<lambda>a. bind_result (asNative arg) (\<lambda>b. boolObject t f (b < a)))
      else Inr FallBack)"

definition primitiveSMINotEqual :: "oop \<Rightarrow> oop \<Rightarrow> oop \<Rightarrow> oop \<Rightarrow> prim_answer result" where
  "primitiveSMINotEqual t f self arg =
     (if isSmallInteger arg
      then bind_result (asNative self) (\<lambda>a. bind_result (asNative arg) (\<lambda>b. boolObject t f (a \<noteq> b)))
      else Inr FallBack)"

definition primitiveSMIIntDiv :: "oop \<Rightarrow> oop \<Rightarrow> prim_answer result" where
  "primitiveSMIIntDiv self arg =
     bind_result (asNative self) (\<lambda>a. bind_result (asNative arg) (\<lambda>b.
       bind_result (c_div a b) (\<lambda>q. bind_result (c_mod a b) (\<lambda>r.
         newIntObject (if r \<noteq> 0 \<and> (a XOR b) < 0 then q - 1 else q)))))"

definition primitiveSMIIntQuot :: "oop \<Rightarrow> oop \<Rightarrow> prim_answer result" where
  "primitiveSMIIntQuot self arg =
     bind_result (asNative self) (\<lambda>a. bind_result (asNative arg) (\<lambda>b.
       bind_result (c_mod a b) (\<lambda>r.
         newIntObject (if r \<noteq> 0 \<and> (a XOR b) < 0 then r + b else r))))"

definition primitiveSMIMinus :: "oop \<Rightarrow> oop \<Rightarrow> prim_answer result" where
  "primitiveSMIMinus self arg =
     (if \<not> isSmallInteger arg then Inr FallBack
      else bind_result (asNative self) (\<lambda>a. bind_result (asNative arg) (\<lambda>b.
        bind_result (c_exact (a - b)) (\<lambda>result.
          if result < SMALLINT_MIN \<or> SMALLINT_MAX < result then Inr FallBack
          else newIntObject result))))"

definition primitiveSMIPlus :: "oop \<Rightarrow> oop \<Rightarrow> prim_answer result" where
  "primitiveSMIPlus self arg =
     (if \<not> isSmallInteger arg then Inr FallBack
      else bind_result (asNative self) (\<lambda>a. bind_result (asNative arg) (\<lambda>b.
        bind_result (c_exact (a + b)) (\<lambda>result.
          if result < SMALLINT_MIN \<or> SMALLINT_MAX < result then Inr FallBack
          else newIntObject result))))"

definition primitiveSMITimes :: "oop \<Rightarrow> oop \<Rightarrow> prim_answer result" where
  "primitiveSMITimes self arg =
     (if \<not> isSmallInteger arg then Inr FallBack
      else bind_result (asNative self) (\<lambda>a. bind_result (asNative arg) (\<lambda>b.
        case mul_overflow_iptr a b of
          None \<Rightarrow> Inr FallBack
        | Some result \<Rightarrow>
            if result < SMALLINT_MIN \<or> SMALLINT_MAX < result then Inr FallBack
            else newIntObject result)))"

section \<open>Ranges and exactness of the native arithmetic\<close>

lemma newIntObject_simps [simp, result_simps]:
  "smi_range i \<Longrightarrow> newIntObject i = Inr (Answer (smi_tag i))"
  "\<not> smi_range i \<Longrightarrow> newIntObject i = Inl AssertionFailed"
  by (simp_all add: newIntObject_def)

lemma smi_arith_fits:
  assumes "smi_range a" "smi_range b"
  shows "intptr_range (a + b)" "intptr_range (a - b)"
  using assms by (auto simp: smi_range_def intptr_range_def smi_limits)

lemma smi_range_not: "\<not> smi_range i \<longleftrightarrow> i < SMALLINT_MIN \<or> SMALLINT_MAX < i"
  by (auto simp: smi_range_def)

lemma smi_range_bits:
  assumes "smi_range a" "smi_range b"
  shows "smi_range (a AND b)" "smi_range (a OR b)" "smi_range (a XOR b)"
proof -
  have self: "smi_range i \<longleftrightarrow> signed_take_bit 62 i = i" for i
    by (auto simp: smi_range_eq signed_take_bit_int_eq_self_iff)
  have ab: "a = signed_take_bit 62 a" "b = signed_take_bit 62 b"
    using assms by (simp_all add: self)
  show "smi_range (a AND b)" unfolding self
    by (subst (1 2) ab, subst (1 2) ab(2), rule bit_eqI) (auto simp: bit_simps min_def)
  show "smi_range (a OR b)" unfolding self
    by (subst (1 2) ab, subst (1 2) ab(2), rule bit_eqI) (auto simp: bit_simps min_def)
  show "smi_range (a XOR b)" unfolding self
    by (subst (1 2) ab, subst (1 2) ab(2), rule bit_eqI) (auto simp: bit_simps min_def)
qed

lemma int_div_less_iff:
  fixes a k m :: int
  assumes "0 < k"
  shows "m div k < a \<longleftrightarrow> m < a * k"
proof (cases "m div k < a")
  case True
  then have "k * (m div k + 1) \<le> k * a"
    using assms by (intro mult_left_mono) auto
  moreover have "m < k * (m div k) + k"
    using assms pos_mod_bound [of k m] mult_div_mod_eq [of k m] by linarith
  ultimately show ?thesis
    using True by (simp add: algebra_simps)
next
  case False
  then have "k * a \<le> k * (m div k)"
    using assms by (intro mult_left_mono) auto
  moreover have "k * (m div k) \<le> m"
    using assms pos_mod_sign [of k m] mult_div_mod_eq [of k m] by linarith
  ultimately show ?thesis
    using False by (simp add: algebra_simps)
qed

lemma int_less_div_dvd_iff:
  fixes a k m :: int
  assumes "0 < k" "k dvd m"
  shows "a < m div k \<longleftrightarrow> a * k < m"
  using assms by auto

lemma shift_left_guard:
  assumes "0 < n" "n < 63"
  shows "(drop_bit (nat n) SMALLINT_MAX < a \<or> a < drop_bit (nat n) SMALLINT_MIN) \<longleftrightarrow> \<not> smi_range (a * 2 ^ nat n)"
proof -
  have "(2::int) ^ nat n dvd 2 ^ 62"
    using assms by (intro le_imp_power_dvd) auto
  then have "(2::int) ^ nat n dvd SMALLINT_MIN"
    by (simp add: smi_limits)
  then show ?thesis
    by (simp add: drop_bit_eq_div smi_range_not int_div_less_iff int_less_div_dvd_iff disj_commute)
qed

lemma c_shl_exact:
  assumes "0 \<le> n" "n < 64" "smi_range (a * 2 ^ nat n)"
  shows "c_shl a n = Inr (a * 2 ^ nat n)"
  using assms by (simp add: c_shl_def push_bit_eq_mult smi_range_eq signed_take_bit_int_eq_self)

lemma floored_quotient:
  assumes "(b::int) \<noteq> 0"
  shows "(if a smod b \<noteq> 0 \<and> (a XOR b) < 0 then a sdiv b - 1 else a sdiv b) = a div b"
  using assms
  by (auto simp: signed_divide_int_def signed_modulo_int_def sgn_if abs_if zdiv_zminus1_eq_if zdiv_zminus2_eq_if
      zmod_zminus1_eq_if zmod_zminus2_eq_if mod_eq_0_iff_dvd)

lemma floored_remainder:
  assumes "(b::int) \<noteq> 0"
  shows "(if a smod b \<noteq> 0 \<and> (a XOR b) < 0 then a smod b + b else a smod b) = a mod b"
proof -
  have "a smod b = a - b * (a sdiv b)"
    by (simp add: minus_mult_sdiv_eq_smod)
  then show ?thesis
    using floored_quotient [OF assms, of a]
    by (auto simp: algebra_simps minus_div_mult_eq_mod [symmetric] split: if_splits)
qed

lemma sdiv_fits:
  assumes "smi_range a"
  shows "intptr_range (a sdiv b)"
proof -
  have "\<bar>a sdiv b\<bar> \<le> \<bar>a\<bar>"
    using sdiv_int_range [of a b] by auto
  with assms show ?thesis
    by (auto simp: smi_range_eq intptr_range_def smi_limits)
qed

lemma smi_range_mod:
  assumes "smi_range b" "b \<noteq> 0"
  shows "smi_range (a mod b)"
proof (cases "0 < b")
  case True
  then show ?thesis
    using assms pos_mod_bound [OF True, of a] pos_mod_sign [OF True, of a] by (simp add: smi_range_eq)
next
  case False
  then have "b < 0" using assms by simp
  then show ?thesis
    using assms neg_mod_bound [OF \<open>b < 0\<close>, of a] neg_mod_sign [OF \<open>b < 0\<close>, of a] by (simp add: smi_range_eq)
qed

lemma smi_range_div_pos:
  assumes "0 < b" "- (2 ^ 62) * b \<le> a" "a < 2 ^ 62 * b"
  shows "smi_range (a div b)"
  using assms int_div_less_iff [OF assms(1), of a "2 ^ 62"] int_div_less_iff [OF assms(1), of a "- (2 ^ 62)"]
  by (simp add: smi_range_eq)

lemma smi_range_div:
  assumes "smi_range a" "\<not> (a = SMALLINT_MIN \<and> b = -1)"
  shows "smi_range (a div b)"
proof -
  consider "b = 0" | "0 < b" | "b = -1" | "b < -1" by linarith
  then show ?thesis
  proof cases
    case 2
    with assms(1) show ?thesis
      by (intro smi_range_div_pos) (auto simp: smi_range_eq)
  next
    case 4
    with assms(1) have "smi_range ((- a) div (- b))"
      by (intro smi_range_div_pos) (auto simp: smi_range_eq)
    then show ?thesis by simp
  qed (use assms in \<open>auto simp: smi_range_def smi_limits\<close>)
qed

lemma c_exact_simps [simp]:
  "intptr_range i \<Longrightarrow> c_exact i = Inr i"
  "\<not> intptr_range i \<Longrightarrow> c_exact i = Inl Undefined"
  by (simp_all add: c_exact_def)

section \<open>The contract of an arithmetic primitive\<close>

locale exact_primitive =
  fixes prim :: "oop \<Rightarrow> oop \<Rightarrow> prim_answer result"
    and exact :: "int \<Rightarrow> int \<Rightarrow> int"
  assumes prim_pointer: "\<not> isSmallInteger w \<Longrightarrow> prim v w = Inr FallBack"
    and prim_tagged: "smi_range a \<Longrightarrow> smi_range b \<Longrightarrow>
      prim (smi_tag a) (smi_tag b) =
        Inr (if smi_range (exact a b) then Answer (smi_tag (exact a b)) else FallBack)"
begin

lemma on_tagged:
  assumes "isSmallInteger v" "isSmallInteger w"
  shows "prim v w = Inr (if smi_range (exact (smi_untag v) (smi_untag w))
      then Answer (smi_tag (exact (smi_untag v) (smi_untag w))) else FallBack)"
  using assms prim_tagged [of "smi_untag v" "smi_untag w"] by (simp add: smi_range_untag smi_tag_untag)

lemma never_faults:
  assumes "isSmallInteger v"
  shows "\<exists>r. prim v w = Inr r"
proof (cases "isSmallInteger w")
  case True
  then show ?thesis
    using assms on_tagged by simp
qed (simp add: prim_pointer)

lemma answer_exact:
  assumes "isSmallInteger v" "prim v w = Inr (Answer x)"
  shows "isSmallInteger w" "isSmallInteger x" "smi_untag x = exact (smi_untag v) (smi_untag w)"
proof -
  show w: "isSmallInteger w"
    using assms prim_pointer by fastforce
  with assms show "isSmallInteger x" "smi_untag x = exact (smi_untag v) (smi_untag w)"
    using on_tagged [of v w] by (auto split: if_splits)
qed

lemma falls_back_iff:
  assumes "isSmallInteger v" "isSmallInteger w"
  shows "prim v w = Inr FallBack \<longleftrightarrow> \<not> smi_range (exact (smi_untag v) (smi_untag w))"
  using assms on_tagged by simp

end

interpretation smi_plus: exact_primitive primitiveSMIPlus "(+)"
  by unfold_locales (simp_all add: primitiveSMIPlus_def smi_arith_fits flip: smi_range_not)

interpretation smi_minus: exact_primitive primitiveSMIMinus "(-)"
  by unfold_locales (simp_all add: primitiveSMIMinus_def smi_arith_fits flip: smi_range_not)

lemma smi_range_intptr: "smi_range i \<Longrightarrow> intptr_range i"
  by (auto simp: smi_range_def intptr_range_def smi_limits)

interpretation smi_times: exact_primitive primitiveSMITimes "(*)"
  by unfold_locales (auto simp: primitiveSMITimes_def mul_overflow_iptr_def smi_range_intptr simp flip: smi_range_not)

interpretation smi_and: exact_primitive primitiveSMIBitAnd "(AND)"
  by unfold_locales (auto simp: primitiveSMIBitAnd_def smi_range_bits)

interpretation smi_or: exact_primitive primitiveSMIBitOr "(OR)"
  by unfold_locales (auto simp: primitiveSMIBitOr_def smi_range_bits)

interpretation smi_xor: exact_primitive primitiveSMIBitXor "(XOR)"
  by unfold_locales (auto simp: primitiveSMIBitXor_def smi_range_bits)

section \<open>Shift and division primitives\<close>

lemma shift_right_long:
  assumes "smi_range a" "63 \<le> k"
  shows "a div 2 ^ k = (if a < 0 then -1 else 0)"
proof -
  have "(2::int) ^ 62 \<le> 2 ^ k"
    using assms(2) by (intro power_increasing) auto
  then have "- (2 ^ k) \<le> a" "a < 2 ^ k"
    using assms(1) by (auto simp: smi_range_eq)
  then show ?thesis
    by (auto simp: div_pos_pos_trivial intro: int_div_pos_eq [where r = "a + 2 ^ k"])
qed

lemma smi_range_shift_right: "smi_range a \<Longrightarrow> smi_range (a div 2 ^ k)"
  by (rule smi_range_div) (auto simp: smi_range_div dest: arg_cong [where f = "\<lambda>x. x < (0::int)"])

lemma bitshift_long: "smi_range n \<Longrightarrow> 63 \<le> - n \<Longrightarrow> smi_range a \<Longrightarrow> a div 2 ^ nat (- n) = (if a < 0 then -1 else 0)"
  by (rule shift_right_long) auto

lemma smi_range_small: "smi_range 0" "smi_range (- 1)" "smi_range 1"
  by (simp_all add: smi_range_eq)

text \<open>
  C18: On a small-integer receiver the primitives \<open>+\<close>, \<open>-\<close> and \<open>*\<close> never fail an assertion and never
  overflow natively: they fall back for an argument that is a pointer, and otherwise answer the
  exact sum, difference or product when it is a small integer and fall back when it is not.
\<close>

theorem smi_arithmetic_exact:
  assumes "isSmallInteger self"
  shows "\<forall>(prim, exact) \<in> {(primitiveSMIPlus, (+)), (primitiveSMIMinus, (-)), (primitiveSMITimes, (*))}.
    prim self arg =
      (if \<not> isSmallInteger arg then Inr FallBack
       else let r = exact (smi_untag self) (smi_untag arg)
            in Inr (if smi_range r then Answer (smi_tag r) else FallBack))"
  using assms smi_plus.on_tagged smi_minus.on_tagged smi_times.on_tagged
    smi_plus.prim_pointer smi_minus.prim_pointer smi_times.prim_pointer
  by (auto simp: Let_def)

lemma smi_arithmetic_exact_witness:
  "isSmallInteger (smi_tag SMALLINT_MAX) \<and>
   primitiveSMIPlus (smi_tag SMALLINT_MAX) (smi_tag 1) = Inr FallBack \<and>
   primitiveSMIMinus (smi_tag SMALLINT_MAX) (smi_tag 1) = Inr (Answer (smi_tag 4611686018427387902))"
  using smi_arithmetic_exact [of "smi_tag SMALLINT_MAX" "smi_tag 1"]
  by (simp add: smi_range_eq smi_limits Let_def)

text \<open>
  The shift primitive answers the receiver times a power of two when that is a small integer
  and the amount is below 63, falls back for every other positive amount, and is the floored
  division by a power of two for an amount of zero or less, however large.
\<close>

theorem primitiveSMIBitShift_spec:
  assumes "smi_range a" "smi_range n"
  shows "primitiveSMIBitShift (smi_tag a) (smi_tag n) =
     Inr (if 0 < n
          then (if n < 63 \<and> smi_range (a * 2 ^ nat n)
                then Answer (smi_tag (a * 2 ^ nat n)) else FallBack)
          else Answer (smi_tag (a div 2 ^ nat (- n))))"
proof (cases "0 < n")
  case True
  then show ?thesis
    using assms shift_left_guard [of n a]
    by (cases "a = 0") (auto simp: primitiveSMIBitShift_def c_shl_exact smi_range_small)
next
  case False
  then show ?thesis
    using assms
    by (auto simp: primitiveSMIBitShift_def c_shr_def drop_bit_eq_div smi_range_shift_right bitshift_long smi_range_small Let_def)
qed

lemma primitiveSMIBitShift_spec_witness:
  "primitiveSMIBitShift (smi_tag (-5)) (smi_tag 59) = Inr (Answer (smi_tag (- 5 * 2 ^ 59))) \<and>
   primitiveSMIBitShift (smi_tag (-5)) (smi_tag 60) = Inr FallBack \<and>
   primitiveSMIBitShift (smi_tag (-5)) (smi_tag (-1)) = Inr (Answer (smi_tag (-3)))"
  using primitiveSMIBitShift_spec [of "-5" 59] primitiveSMIBitShift_spec [of "-5" 60]
    primitiveSMIBitShift_spec [of "-5" "-1"]
  by (simp add: smi_range_eq)

lemma primitiveSMIIntDiv_spec:
  assumes "smi_range a" "smi_range b"
  shows "primitiveSMIIntDiv (smi_tag a) (smi_tag b) =
     (if b = 0 then Inl Undefined
      else if smi_range (a div b) then Inr (Answer (smi_tag (a div b)))
      else Inl AssertionFailed)"
proof (cases "b = 0")
  case False
  have "primitiveSMIIntDiv (smi_tag a) (smi_tag b) = newIntObject (a div b)"
    using assms False floored_quotient [of b a]
    by (simp add: primitiveSMIIntDiv_def c_div_def c_mod_def sdiv_fits del: newIntObject_simps)
  then show ?thesis
    using False by auto
qed (use assms in \<open>simp add: primitiveSMIIntDiv_def c_div_def\<close>)

lemma primitiveSMIIntQuot_spec:
  assumes "smi_range a" "smi_range b"
  shows "primitiveSMIIntQuot (smi_tag a) (smi_tag b) =
     (if b = 0 then Inl Undefined else Inr (Answer (smi_tag (a mod b))))"
  using assms floored_remainder [of b a]
  by (auto simp: primitiveSMIIntQuot_def c_mod_def sdiv_fits smi_range_mod simp del: newIntObject_simps(2))

text \<open>
  The primitives \<open>//\<close> and \<open>\\\<close> on small integers are the floored quotient and the floored
  remainder; a zero divisor is undefined behaviour (no check precedes the C++ division), and the
  one quotient that is no small integer, the least one divided by \<open>-1\<close>, fails the assertion of
  \<open>SmallInteger::from\<close>.
\<close>

theorem smi_floored_division:
  assumes "smi_range a" "smi_range b"
  shows "primitiveSMIIntDiv (smi_tag a) (smi_tag b) =
     (if b = 0 then Inl Undefined
      else if a = SMALLINT_MIN \<and> b = -1 then Inl AssertionFailed
      else Inr (Answer (smi_tag (a div b))))
   \<and> primitiveSMIIntQuot (smi_tag a) (smi_tag b) =
     (if b = 0 then Inl Undefined else Inr (Answer (smi_tag (a mod b))))"
  using primitiveSMIIntDiv_spec [OF assms] primitiveSMIIntQuot_spec [OF assms] smi_range_div [OF assms(1), of b]
  by (auto simp: smi_range_eq smi_limits)

lemma smi_floored_division_witness:
  "primitiveSMIIntDiv (smi_tag (-7)) (smi_tag 2) = Inr (Answer (smi_tag (-4))) \<and>
   primitiveSMIIntQuot (smi_tag (-7)) (smi_tag 2) = Inr (Answer (smi_tag 1)) \<and>
   primitiveSMIIntDiv (smi_tag SMALLINT_MIN) (smi_tag (-1)) = Inl AssertionFailed"
  using smi_floored_division [of "-7" 2] smi_floored_division [of SMALLINT_MIN "-1"]
  by (simp add: smi_range_eq smi_limits)

end
