(* ===== verification/Underprimitives.thy ===== *)
theory Underprimitives
  imports SmallIntegers
begin

text \<open>
  The underprimitives of \<open>Evaluator.cpp\<close> that work on small integers, the prime table
  of \<open>primitivePrimeFor\<close> and the hash generator \<open>Runtime::nextHash\<close>.  An underprimitive has no
  fall-back code: it answers an object directly, \<open>nil\<close> where the result does not fit.  None of
  them checks the class of its operands, so a pointer operand is a failed assertion.
\<close>

section \<open>Underprimitives on small integers\<close>

definition new_int :: "int \<Rightarrow> oop result" where
  "new_int i = smi_from i"

definition with_operands :: "oop \<Rightarrow> oop \<Rightarrow> (int \<Rightarrow> int \<Rightarrow> 'a result) \<Rightarrow> 'a result" where
  "with_operands receiver arg k = bind_result (asNative receiver) (\<lambda>a. bind_result (asNative arg) (k a))"

definition underprimitiveSMIBitAnd :: "oop \<Rightarrow> oop \<Rightarrow> oop result" where
  "underprimitiveSMIBitAnd receiver arg = with_operands receiver arg (\<lambda>a b. new_int (a AND b))"

definition underprimitiveSMIBitOr :: "oop \<Rightarrow> oop \<Rightarrow> oop result" where
  "underprimitiveSMIBitOr receiver arg = with_operands receiver arg (\<lambda>a b. new_int (a OR b))"

text \<open>
  \<open>underprimitiveBitShiftLeft\<close> and \<open>underprimitiveSMIBitShiftLeft\<close> have the same body.
\<close>

definition underprimitiveSMIBitShiftLeft :: "oop \<Rightarrow> oop \<Rightarrow> oop \<Rightarrow> oop result" where
  "underprimitiveSMIBitShiftLeft nil receiver arg = with_operands receiver arg (\<lambda>a n.
     if 63 \<le> n \<or> a \<noteq> 0 \<and> 0 < n \<and>
        (drop_bit (nat n) SMALLINT_MAX < a \<or> a < drop_bit (nat n) SMALLINT_MIN)
     then Inr nil
     else bind_result (c_shl a n) new_int)"

definition underprimitiveBitShiftLeft :: "oop \<Rightarrow> oop \<Rightarrow> oop \<Rightarrow> oop result" where
  "underprimitiveBitShiftLeft nil receiver arg = with_operands receiver arg (\<lambda>value shift.
     if 63 \<le> shift \<or> value \<noteq> 0 \<and> 0 < shift \<and>
        (drop_bit (nat shift) SMALLINT_MAX < value \<or> value < drop_bit (nat shift) SMALLINT_MIN)
     then Inr nil
     else bind_result (c_shl value shift) new_int)"

definition underprimitiveSMIBitShiftRight :: "oop \<Rightarrow> oop \<Rightarrow> oop result" where
  "underprimitiveSMIBitShiftRight receiver arg = with_operands receiver arg (\<lambda>a n.
     if 63 \<le> n then new_int (if a < 0 then -1 else 0)
     else bind_result (c_shr a n) new_int)"

definition bool_oop :: "oop \<Rightarrow> oop \<Rightarrow> bool \<Rightarrow> oop" where
  "bool_oop t f b = (if b then t else f)"

definition underprimitiveSMIEquals :: "oop \<Rightarrow> oop \<Rightarrow> oop \<Rightarrow> oop \<Rightarrow> oop result" where
  "underprimitiveSMIEquals t f receiver arg = with_operands receiver arg (\<lambda>a b. Inr (bool_oop t f (a = b)))"

definition underprimitiveSMIGreaterEqualThan :: "oop \<Rightarrow> oop \<Rightarrow> oop \<Rightarrow> oop \<Rightarrow> oop result" where
  "underprimitiveSMIGreaterEqualThan t f receiver arg =
     with_operands receiver arg (\<lambda>a b. Inr (bool_oop t f (b \<le> a)))"

definition underprimitiveSMIGreaterThan :: "oop \<Rightarrow> oop \<Rightarrow> oop \<Rightarrow> oop \<Rightarrow> oop result" where
  "underprimitiveSMIGreaterThan t f receiver arg =
     with_operands receiver arg (\<lambda>a b. Inr (bool_oop t f (b < a)))"

definition underprimitiveSMILowerEqualThan :: "oop \<Rightarrow> oop \<Rightarrow> oop \<Rightarrow> oop \<Rightarrow> oop result" where
  "underprimitiveSMILowerEqualThan t f receiver arg =
     with_operands receiver arg (\<lambda>a b. Inr (bool_oop t f (a \<le> b)))"

definition underprimitiveSMILowerThan :: "oop \<Rightarrow> oop \<Rightarrow> oop \<Rightarrow> oop \<Rightarrow> oop result" where
  "underprimitiveSMILowerThan t f receiver arg =
     with_operands receiver arg (\<lambda>a b. Inr (bool_oop t f (a < b)))"

definition underprimitiveSMIMinus :: "oop \<Rightarrow> oop \<Rightarrow> oop \<Rightarrow> oop result" where
  "underprimitiveSMIMinus nil receiver arg = with_operands receiver arg (\<lambda>a b.
     bind_result (c_exact (a - b)) (\<lambda>result.
       if result < SMALLINT_MIN \<or> SMALLINT_MAX < result then Inr nil else new_int result))"

definition underprimitiveSMIPlus :: "oop \<Rightarrow> oop \<Rightarrow> oop \<Rightarrow> oop result" where
  "underprimitiveSMIPlus nil receiver arg = with_operands receiver arg (\<lambda>a b.
     bind_result (c_exact (a + b)) (\<lambda>result.
       if result < SMALLINT_MIN \<or> SMALLINT_MAX < result then Inr nil else new_int result))"

definition underprimitiveSMIQuotientTowardZero :: "oop \<Rightarrow> oop \<Rightarrow> oop result" where
  "underprimitiveSMIQuotientTowardZero receiver arg =
     with_operands receiver arg (\<lambda>a b. bind_result (c_div a b) new_int)"

definition underprimitiveSMIRemainderTowardZero :: "oop \<Rightarrow> oop \<Rightarrow> oop result" where
  "underprimitiveSMIRemainderTowardZero receiver arg =
     with_operands receiver arg (\<lambda>a b. bind_result (c_mod a b) new_int)"

definition underprimitiveSMITimes :: "oop \<Rightarrow> oop \<Rightarrow> oop \<Rightarrow> oop result" where
  "underprimitiveSMITimes nil receiver arg = with_operands receiver arg (\<lambda>a b.
     case mul_overflow_iptr a b of
       None \<Rightarrow> Inr nil
     | Some result \<Rightarrow>
         if result < SMALLINT_MIN \<or> SMALLINT_MAX < result then Inr nil else new_int result)"

text \<open>The bytes of the native integer in memory order (little endian); offset below zero is read
  outside the integer.\<close>

definition underprimitiveSmallIntegerByteAt :: "oop \<Rightarrow> oop \<Rightarrow> oop result" where
  "underprimitiveSmallIntegerByteAt receiver arg = with_operands receiver arg (\<lambda>integer index.
     let offset = index - 1 in
       if 7 < offset then new_int 0
       else if offset < 0 then Inl Undefined
       else new_int (take_bit 8 (drop_bit (8 * nat offset) integer)))"

text \<open>The argument is converted to unsigned, so the test \<open>anInteger < 0\<close> of the source never holds;
  \<open>std::countl_zero\<close> counts from the top bit of the 64.\<close>

definition countl_zero :: "oop \<Rightarrow> nat" where
  "countl_zero w = length (takeWhile (\<lambda>i. \<not> bit w i) (rev [0..<64]))"

definition underprimitiveLeadingZeroBitCount_word :: "oop \<Rightarrow> int" where
  "underprimitiveLeadingZeroBitCount_word w = (if w < 0 then 0 else int (countl_zero w))"

definition underprimitiveLeadingZeroBitCount :: "oop \<Rightarrow> oop result" where
  "underprimitiveLeadingZeroBitCount receiver = bind_result (asNative receiver) (\<lambda>a.
     new_int (underprimitiveLeadingZeroBitCount_word (word_of_int a)))"

definition underprimitiveIsSmallInteger :: "oop \<Rightarrow> oop \<Rightarrow> oop \<Rightarrow> oop result" where
  "underprimitiveIsSmallInteger t f receiver = Inr (bool_oop t f (isSmallInteger receiver))"

definition underprimitiveIdentityEquals :: "oop \<Rightarrow> oop \<Rightarrow> oop \<Rightarrow> oop \<Rightarrow> oop result" where
  "underprimitiveIdentityEquals t f receiver arg = Inr (bool_oop t f (receiver = arg))"

lemma new_int_simps [simp, result_simps]:
  "smi_range i \<Longrightarrow> new_int i = Inr (smi_tag i)"
  "\<not> smi_range i \<Longrightarrow> new_int i = Inl AssertionFailed"
  by (simp_all add: new_int_def)

lemma with_operands_tag [simp, result_simps]:
  "smi_range a \<Longrightarrow> smi_range b \<Longrightarrow> with_operands (smi_tag a) (smi_tag b) k = k a b"
  by (simp add: with_operands_def)

section \<open>The contract of a checked underprimitive\<close>

text \<open>
  An underprimitive that answers \<open>nil\<close> on overflow agrees with the primitive of the same operation:
  it answers exactly where the primitive does, and \<open>nil\<close> where the primitive falls back.
\<close>

locale checked_underprimitive = exact_primitive prim exact
  for prim :: "oop \<Rightarrow> oop \<Rightarrow> prim_answer result" and exact :: "int \<Rightarrow> int \<Rightarrow> int" +
  fixes under :: "oop \<Rightarrow> oop \<Rightarrow> oop \<Rightarrow> oop result"
  assumes under_tagged: "smi_range a \<Longrightarrow> smi_range b \<Longrightarrow>
      under nil (smi_tag a) (smi_tag b) = Inr (if smi_range (exact a b) then smi_tag (exact a b) else nil)"
begin

lemma agrees_with_primitive:
  assumes "smi_range a" "smi_range b"
  shows "under nil (smi_tag a) (smi_tag b) =
    bind_result (prim (smi_tag a) (smi_tag b)) (\<lambda>r. Inr (case r of Answer x \<Rightarrow> x | FallBack \<Rightarrow> nil))"
  using assms by (simp add: prim_tagged under_tagged)

end

interpretation under_plus: checked_underprimitive primitiveSMIPlus "(+)" underprimitiveSMIPlus
  by unfold_locales (simp add: underprimitiveSMIPlus_def smi_arith_fits flip: smi_range_not)

interpretation under_minus: checked_underprimitive primitiveSMIMinus "(-)" underprimitiveSMIMinus
  by unfold_locales (simp add: underprimitiveSMIMinus_def smi_arith_fits flip: smi_range_not)

interpretation under_times: checked_underprimitive primitiveSMITimes "(*)" underprimitiveSMITimes
  by unfold_locales (auto simp: underprimitiveSMITimes_def mul_overflow_iptr_def smi_range_intptr simp flip: smi_range_not)

lemma underprimitiveSMIBitShiftLeft_spec:
  assumes "smi_range a" "smi_range n"
  shows "underprimitiveSMIBitShiftLeft nil (smi_tag a) (smi_tag n) =
    (if n < 0 then Inl Undefined
     else if n < 63 \<and> smi_range (a * 2 ^ nat n) then Inr (smi_tag (a * 2 ^ nat n)) else Inr nil)"
proof -
  consider "n < 0" | "n = 0" | "0 < n" by linarith
  then show ?thesis
  proof cases
    case 1
    then show ?thesis
      using assms by (simp add: underprimitiveSMIBitShiftLeft_def c_shl_def)
  next
    case 2
    then show ?thesis
      using assms c_shl_exact [of 0 a] by (simp add: underprimitiveSMIBitShiftLeft_def)
  next
    case 3
    then show ?thesis
      using assms shift_left_guard [of n a]
      by (cases "a = 0") (auto simp: underprimitiveSMIBitShiftLeft_def c_shl_exact smi_range_small)
  qed
qed

lemma underprimitiveSMIBitShiftRight_spec:
  assumes "smi_range a" "smi_range n"
  shows "underprimitiveSMIBitShiftRight (smi_tag a) (smi_tag n) =
    (if n < 0 then Inl Undefined else Inr (smi_tag (a div 2 ^ nat n)))"
proof (cases "63 \<le> n")
  case True
  then show ?thesis
    using assms shift_right_long [of a "nat n"] by (auto simp: underprimitiveSMIBitShiftRight_def smi_range_small)
next
  case False
  then show ?thesis
    using assms
    by (auto simp: underprimitiveSMIBitShiftRight_def c_shr_def drop_bit_eq_div smi_range_shift_right)
qed

text \<open>
  Quotient and remainder toward zero recompose the dividend; the only quotient of small integers
  that is not a small integer is the least one divided by \<open>-1\<close>, a failed assertion.
\<close>

lemma smi_range_sdiv:
  assumes "smi_range a" "\<not> (a = SMALLINT_MIN \<and> b = -1)"
  shows "smi_range (a sdiv b)"
proof (cases "b = -1 \<or> b = 0 \<or> b = 1")
  case True
  with assms show ?thesis
    by (auto simp: signed_divide_int_def smi_range_def smi_limits sgn_if)
next
  case False
  then have b: "2 \<le> \<bar>b\<bar>" by linarith
  then have "\<bar>a\<bar> div \<bar>b\<bar> \<le> \<bar>a\<bar> div 2"
    by (intro zdiv_mono2) auto
  moreover have "0 \<le> \<bar>a\<bar> div \<bar>b\<bar>"
    using b by (simp add: pos_imp_zdiv_nonneg_iff)
  ultimately show ?thesis
    using assms(1) by (auto simp: signed_divide_int_def smi_range_eq sgn_if abs_if)
qed

lemma abs_smod: "\<bar>(a::int) smod b\<bar> = \<bar>a\<bar> mod \<bar>b\<bar>"
proof (cases "b = 0")
  case False
  then have "0 \<le> \<bar>a\<bar> mod \<bar>b\<bar>"
    by (intro pos_mod_sign) simp
  then show ?thesis
    by (cases "a = 0") (simp_all add: signed_modulo_int_def abs_mult abs_sgn_eq)
qed (simp add: signed_modulo_int_def abs_mult abs_sgn_eq)

lemma smi_range_smod:
  assumes "smi_range a"
  shows "smi_range (a smod b)"
proof (cases "a < 0 \<and> \<bar>a\<bar> mod \<bar>b\<bar> = 2 ^ 62")
  case True
  then show ?thesis
    using abs_smod [of a b] assms by (auto simp: signed_modulo_int_def smi_range_eq)
next
  case False
  have "\<bar>a\<bar> mod \<bar>b\<bar> \<le> \<bar>a\<bar>"
    by (cases "b = 0") (simp_all add: zmod_le_nonneg_dividend)
  then show ?thesis
    using False abs_smod [of a b] assms by (auto simp: smi_range_eq)
qed

lemma underprimitive_division_spec:
  assumes "smi_range a" "smi_range b" "b \<noteq> 0" "\<not> (a = SMALLINT_MIN \<and> b = -1)"
  shows "\<exists>q r. underprimitiveSMIQuotientTowardZero (smi_tag a) (smi_tag b) = Inr (smi_tag q) \<and>
      underprimitiveSMIRemainderTowardZero (smi_tag a) (smi_tag b) = Inr (smi_tag r) \<and>
      smi_range q \<and> smi_range r \<and> q * b + r = a \<and> \<bar>r\<bar> < \<bar>b\<bar> \<and> (r = 0 \<or> sgn r = sgn a)"
proof -
  have "\<bar>a smod b\<bar> < \<bar>b\<bar>"
    using assms(3) by (simp add: abs_smod)
  moreover have "a smod b = 0 \<or> sgn (a smod b) = sgn a"
    using assms(3) pos_mod_sign [of "\<bar>b\<bar>" "\<bar>a\<bar>"]
    by (auto simp: signed_modulo_int_def sgn_mult sgn_1_pos order_less_le)
  ultimately show ?thesis
    using assms smi_range_sdiv [of a b] smi_range_smod [of a b] sdiv_mult_smod_eq [of a b]
    by (auto simp: underprimitiveSMIQuotientTowardZero_def underprimitiveSMIRemainderTowardZero_def
        c_div_def c_mod_def sdiv_fits)
qed

lemma underprimitiveSMIQuotient_faults:
  assumes "smi_range a"
  shows "underprimitiveSMIQuotientTowardZero (smi_tag a) (smi_tag 0) = Inl Undefined"
    "underprimitiveSMIQuotientTowardZero (smi_tag SMALLINT_MIN) (smi_tag (-1)) = Inl AssertionFailed"
  using assms
  by (simp_all add: underprimitiveSMIQuotientTowardZero_def c_div_def c_exact_def intptr_range_def
      smi_range_def smi_limits signed_divide_int_def)

section \<open>Bytes of a small integer\<close>

lemma underprimitiveSmallIntegerByteAt_spec:
  assumes "smi_range a" "smi_range i"
  shows "underprimitiveSmallIntegerByteAt (smi_tag a) (smi_tag i) =
    (if i < 1 then Inl Undefined
     else if 8 < i then Inr (smi_tag 0)
     else Inr (smi_tag (take_bit 8 (a div 2 ^ (8 * nat (i - 1))))))"
proof -
  have "smi_range (take_bit 8 x)" for x
    using take_bit_nonnegative [of 8 x] take_bit_int_less_exp [of 8 x]
    by (auto simp: smi_range_eq intro: order_trans [of _ 0])
  with assms show ?thesis
    by (auto simp: underprimitiveSmallIntegerByteAt_def smi_range_small drop_bit_eq_div)
qed

section \<open>Primes for hash tables\<close>

definition prime_table :: "int list" where
  "prime_table = [
        2, 3, 5, 7, 11, 13, 17, 19, 23, 29, 31, 37, 41, 43, 47, 53, 59, 61, 67, 71,
        73, 79, 83, 89, 97, 101, 103, 107, 109, 113, 127, 131,
        137, 139, 149, 151, 157, 163, 167, 173, 179, 181, 191, 193,
        197, 199, 211, 223, 227, 229, 233, 239, 241, 251, 269, 359,
        479, 641, 857, 1151, 1549, 2069, 2237, 2423, 2617, 2797, 2999, 3167,
        3359, 3539, 3727, 3911, 4441, 4787, 5119, 5471, 5801, 6143, 6521, 6827,
        7177, 7517, 7853, 8783, 9601, 10243, 10867, 11549, 12239, 12919, 13679, 14293,
        15013, 15731, 17569, 19051, 20443, 21767, 23159, 24611, 25847, 27397, 28571, 30047,
        31397, 35771, 38201, 40841, 43973, 46633, 48989, 51631, 54371, 57349, 60139, 62969,
        70589, 76091, 80347, 85843, 90697, 95791, 101051, 106261, 111143, 115777, 120691, 126311,
        140863, 150523, 160969, 170557, 181243, 190717, 201653, 211891, 221251, 232591, 242873, 251443,
        282089, 300869, 321949, 341227, 362353, 383681, 401411, 422927, 443231, 464951, 482033, 504011,
        562621, 605779, 647659, 681607, 723623, 763307, 808261, 844709, 886163, 926623, 967229, 1014617,
        1121987, 1201469, 1268789, 1345651, 1429531, 1492177, 1577839, 1651547, 1722601, 1800377, 1878623, 1942141,
        2028401, 2242727, 2399581, 2559173, 2686813, 2836357, 3005579, 3144971, 3283993, 3460133, 3582923, 3757093,
        3903769, 4061261, 4455361, 4783837, 5068529, 5418079, 5680243, 6000023, 6292981, 6611497, 6884641, 7211599,
        7514189, 7798313, 8077189, 9031853, 9612721, 10226107, 10745291, 11338417, 11939203, 12567671, 13212697, 13816333,
        14337529, 14938571, 15595673, 16147291, 17851577, 18993941, 20180239, 21228533, 22375079, 23450491, 24635579, 25683871,
        26850101, 27921689, 29090911, 30153841, 31292507, 32467307, 35817611, 37983761, 40234253, 42457253, 44750177, 46957969,
        49175831, 51442639, 53726417, 55954637, 58126987, 60365939, 62666977, 64826669, 71582779, 76039231, 80534381, 84995153,
        89500331, 93956777, 98470819, 102879613, 107400389, 111856841, 116365721, 120819287, 125246581, 129732203, 143163379, 152076289,
        161031319, 169981667, 179000669, 187913573, 196826447, 205826729, 214748357, 223713691, 232679021, 241591901, 250504801, 259470131,
        285162679, 301939921, 318717121, 335494331, 352271573, 369148753, 385926017, 402603193, 419480419, 436157621, 453034849, 469712051,
        486589307, 503366497, 520043707, 570475349, 603929813, 637584271, 671138659, 704693081, 738247541, 771801929, 805356457, 838910803,
        872365267, 905919671, 939574117, 973128521, 1006682977, 1040137411, 1073741833]"

definition primitivePrimeFor_int :: "int \<Rightarrow> prim_answer result" where
  "primitivePrimeFor_int anInteger =
     (case find (\<lambda>prime. anInteger \<le> prime) prime_table of
        Some prime \<Rightarrow> newIntObject prime
      | None \<Rightarrow> Inr FallBack)"

definition primitivePrimeFor :: "oop \<Rightarrow> prim_answer result" where
  "primitivePrimeFor firstArgument = bind_result (asNative firstArgument) primitivePrimeFor_int"

lemma find_sorted_least:
  assumes "sorted xs" "find (\<lambda>x. n \<le> x) xs = Some p"
  shows "p \<in> set xs \<and> n \<le> p \<and> (\<forall>q\<in>set xs. n \<le> q \<longrightarrow> p \<le> (q :: 'a :: linorder))"
  using assms by (induction xs) (auto split: if_splits)

lemma find_none_greater:
  "find (\<lambda>x. n \<le> x) xs = None \<longleftrightarrow> (\<forall>q\<in>set xs. q < (n :: 'a :: linorder))"
  by (induction xs) auto

fun ascending :: "int list \<Rightarrow> bool" where
  "ascending (x # y # zs) = (if x \<le> y then ascending (y # zs) else False)"
| "ascending xs = True"

lemma ascending_sorted: "ascending xs \<Longrightarrow> sorted xs"
  by (induction xs rule: ascending.induct) (auto split: if_splits)

lemma prime_table_sorted: "sorted prime_table"
  by (rule ascending_sorted) (simp add: prime_table_def)

lemma prime_table_bounds_all: "list_all (\<lambda>p. 2 \<le> p \<and> p \<le> 1073741833) prime_table"
  by code_simp

lemma prime_table_bounds: "p \<in> set prime_table \<Longrightarrow> 2 \<le> p \<and> p \<le> 1073741833"
  using prime_table_bounds_all by (simp add: list_all_iff)

lemma prime_table_max: "1073741833 \<in> set prime_table"
  unfolding prime_table_def by simp

text \<open>
  \<open>primitivePrimeFor\<close> answers the least entry of its table that is not below the argument, for
  every argument up to the largest entry, and falls back above it; the table is searched in
  ascending order, so the first hit is the least.
\<close>

theorem primitivePrimeFor_spec:
  assumes "smi_range n"
  shows "if n \<le> 1073741833
    then \<exists>p. primitivePrimeFor (smi_tag n) = Inr (Answer (smi_tag p)) \<and> p \<in> set prime_table \<and>
           n \<le> p \<and> (\<forall>q\<in>set prime_table. n \<le> q \<longrightarrow> p \<le> q)
    else primitivePrimeFor (smi_tag n) = Inr FallBack"
proof (cases "find (\<lambda>prime. n \<le> prime) prime_table")
  case None
  then have "1073741833 < n"
    using prime_table_max find_none_greater [of n prime_table] by blast
  then show ?thesis
    using None assms by (simp add: primitivePrimeFor_def primitivePrimeFor_int_def)
next
  case (Some p)
  then have p: "p \<in> set prime_table \<and> n \<le> p \<and> (\<forall>q\<in>set prime_table. n \<le> q \<longrightarrow> p \<le> q)"
    using find_sorted_least [OF prime_table_sorted] by blast
  then have "2 \<le> p" "p \<le> 1073741833"
    using prime_table_bounds by auto
  with p Some assms show ?thesis
    by (auto simp: primitivePrimeFor_def primitivePrimeFor_int_def smi_range_eq)
qed

lemma primitivePrimeFor_spec_witness:
  "\<exists>p. primitivePrimeFor (smi_tag 1000) = Inr (Answer (smi_tag p)) \<and> p \<in> set prime_table \<and>
     1000 \<le> p \<and> (\<forall>q\<in>set prime_table. 1000 \<le> q \<longrightarrow> p \<le> q)"
  using primitivePrimeFor_spec [of 1000] by (simp add: smi_range_eq)

section \<open>Identity hashes\<close>

text \<open>\<open>Runtime::nextHash\<close>: a 16-bit linear feedback shift register, seeded with 1.\<close>

definition nextHash :: "16 word \<Rightarrow> 16 word" where
  "nextHash lastHash =
     (let shifted = drop_bit 1 lastHash in
        if lastHash AND 1 = 0 then shifted else shifted XOR 0xB9C8)"

text \<open>Each step can be undone: the top bit tells whether the constant was mixed in.\<close>

definition previousHash :: "16 word \<Rightarrow> 16 word" where
  "previousHash h =
     (if bit h 15 then push_bit 1 (h XOR 0xB9C8) OR 1 else push_bit 1 h)"

lemma nextHash_cases:
  "nextHash h = (if even h then drop_bit 1 h else drop_bit 1 h XOR 0xB9C8)"
  by (simp add: nextHash_def and_one_eq even_iff_mod_2_eq_zero)

lemma nextHash_top_bit: "bit (nextHash h) 15 \<longleftrightarrow> odd h"
  by (simp add: nextHash_cases bit_xor_iff bit_drop_bit_eq) (simp add: bit_iff_odd_drop_bit)

lemma previousHash_nextHash: "previousHash (nextHash h) = h"
proof -
  have "push_bit 1 (drop_bit 1 h) OR of_bool (odd h) = h"
  proof (rule bit_word_eqI)
    fix n
    show "bit (push_bit 1 (drop_bit 1 h) OR of_bool (odd h)) n \<longleftrightarrow> bit h n" if "n < LENGTH(16)"
      using that by (cases n) (auto simp: bit_or_iff bit_push_bit_iff bit_drop_bit_eq bit_of_bool_iff bit_0 even_or_iff
        simp del: push_bit_Suc push_bit_numeral)
  qed
  moreover have "(drop_bit 1 h XOR 0xB9C8) XOR 0xB9C8 = drop_bit 1 h"
    by (simp only: xor.assoc xor_self_eq xor.right_neutral)
  ultimately show ?thesis
    unfolding previousHash_def nextHash_top_bit
    by (cases "even h") (simp_all only: nextHash_cases if_True if_False not_True_eq_False not_False_eq_True
      of_bool_eq or.right_neutral)
qed

lemma nextHash_inject: "nextHash g = nextHash h \<longleftrightarrow> g = h"
  by (metis previousHash_nextHash)

lemma nextHash_zero: "nextHash 0 = 0"
  by (simp add: nextHash_def)

lemma nextHash_funpow_inject: "(nextHash ^^ n) g = (nextHash ^^ n) h \<longleftrightarrow> g = h"
  by (induction n) (simp_all add: nextHash_inject)

text \<open>
  C19: The hash generator never reaches its fixed point 0 from the seed 1, however many hashes are
  drawn, and it is a permutation: two generators that ever agree after the same number of draws
  started equal.
\<close>

theorem nextHash_never_zero:
  "(nextHash ^^ n) 1 \<noteq> 0 \<and> ((nextHash ^^ n) g = (nextHash ^^ n) h) = (g = h)"
proof -
  have "(nextHash ^^ n) 0 = 0"
    by (induction n) (simp_all add: nextHash_zero)
  then show ?thesis
    using nextHash_funpow_inject [of n 1 0] nextHash_funpow_inject [of n g h] by simp
qed

end
