(* ===== verification/EggString.thy ===== *)
theory EggString
  imports Prelude
begin

text \<open>
  The string type of the compiler (\<open>Utils/egg_string.h\<close>): a sequence of 32-bit code points that
  converts from and to UTF-8 bytes, and the classification of code points that the scanner uses.
\<close>

section \<open>UTF-8\<close>

type_synonym code_point = "32 word"
type_synonym egg_string = "code_point list"
type_synonym byte = "8 word"

text \<open>The payload of a lead byte and the length of the sequence it announces.  A byte that is no
  lead byte stands for itself.\<close>

definition utf8_lead :: "byte \<Rightarrow> code_point \<times> nat" where
  "utf8_lead first =
     (if first AND 0x80 = 0 then (ucast first, 1)
      else if first AND 0xE0 = 0xC0 then (ucast (first AND 0x1F), 2)
      else if first AND 0xF0 = 0xE0 then (ucast (first AND 0x0F), 3)
      else if first AND 0xF8 = 0xF0 then (ucast (first AND 0x07), 4)
      else (ucast first, 1))"

fun utf8_continue :: "nat \<Rightarrow> code_point \<Rightarrow> byte list \<Rightarrow> code_point" where
  "utf8_continue (Suc n) cp (b # bs) = utf8_continue n (push_bit 6 cp OR ucast (b AND 0x3F)) bs"
| "utf8_continue _ cp _ = cp"

function fromUtf8 :: "byte list \<Rightarrow> egg_string" where
  "fromUtf8 [] = []"
| "fromUtf8 (first # rest) =
     (let (cp, bytes) = utf8_lead first
      in utf8_continue (bytes - 1) cp rest # fromUtf8 (drop (bytes - 1) rest))"
  by pat_completeness auto
termination by (relation "measure length") auto

definition utf8_encode :: "code_point \<Rightarrow> byte list" where
  "utf8_encode cp =
     (if cp < 0x80 then [ucast cp]
      else if cp < 0x800 then
        [ucast (0xC0 OR drop_bit 6 cp), ucast (0x80 OR cp AND 0x3F)]
      else if cp < 0x10000 then
        [ucast (0xE0 OR drop_bit 12 cp), ucast (0x80 OR drop_bit 6 cp AND 0x3F),
         ucast (0x80 OR cp AND 0x3F)]
      else if cp < 0x110000 then
        [ucast (0xF0 OR drop_bit 18 cp), ucast (0x80 OR drop_bit 12 cp AND 0x3F),
         ucast (0x80 OR drop_bit 6 cp AND 0x3F), ucast (0x80 OR cp AND 0x3F)]
      else [])"

definition toUtf8 :: "egg_string \<Rightarrow> byte list" where
  "toUtf8 s = concat (map utf8_encode s)"

definition isLatin1 :: "egg_string \<Rightarrow> bool" where
  "isLatin1 s = list_all (\<lambda>cp. \<not> cp > 0xFF) s"

definition toBytes :: "egg_string \<Rightarrow> byte list" where
  "toBytes s = map ucast s"

text \<open>String literals of the source are ASCII, where the conversion is one code point a byte.\<close>

definition ascii :: "string \<Rightarrow> egg_string" where
  "ascii s = map of_char s"

section \<open>Classification of code points\<close>

definition in_range :: "code_point \<Rightarrow> code_point \<Rightarrow> code_point \<Rightarrow> bool" where
  "in_range lo hi ch \<longleftrightarrow> lo \<le> ch \<and> ch \<le> hi"

definition isLetter :: "code_point \<Rightarrow> bool" where
  "isLetter ch =
     (if ch < 128 then in_range 0x41 0x5A ch \<or> in_range 0x61 0x7A ch
      else list_ex (\<lambda>(lo, hi). in_range lo hi ch)
        [(0x00C0, 0x024F), (0x0370, 0x03FF), (0x0400, 0x04FF), (0x0530, 0x08FF), (0x0900, 0x109F),
         (0x10A0, 0x1FFF), (0x4E00, 0x9FFF), (0xAC00, 0xD7AF), (0x1E00, 0x1EFF), (0x2C00, 0x2DFF),
         (0xA000, 0xA4CF), (0xFB00, 0xFDFF), (0x10000, 0x1007F), (0x10080, 0x100FF),
         (0x10300, 0x1034F), (0x10400, 0x1044F), (0x20000, 0x2A6DF)])"

definition isDigit :: "code_point \<Rightarrow> bool" where
  "isDigit ch =
     (if ch < 128 then in_range 0x30 0x39 ch
      else list_ex (\<lambda>(lo, hi). in_range lo hi ch)
        [(0x0660, 0x0669), (0x06F0, 0x06F9), (0x0966, 0x096F), (0x09E6, 0x09EF), (0x0A66, 0x0A6F),
         (0x0AE6, 0x0AEF), (0x0B66, 0x0B6F), (0x0BE6, 0x0BEF), (0x0C66, 0x0C6F), (0x0CE6, 0x0CEF),
         (0x0D66, 0x0D6F), (0x0E50, 0x0E59), (0x0ED0, 0x0ED9), (0x0F20, 0x0F29), (0x1040, 0x1049),
         (0xFF10, 0xFF19)])"

definition isUppercase :: "code_point \<Rightarrow> bool" where
  "isUppercase ch =
     (if ch < 128 then in_range 0x41 0x5A ch
      else in_range 0x00C0 0x00D6 ch \<or> in_range 0x00D8 0x00DE ch
        \<or> in_range 0x0100 0x017E ch \<and> ch mod 2 = 0
        \<or> in_range 0x01A0 0x01AF ch \<and> ch mod 2 = 0
        \<or> in_range 0x0391 0x03A1 ch \<or> in_range 0x03A3 0x03A9 ch \<or> in_range 0x0410 0x042F ch)"

section \<open>Decoding inverts encoding\<close>

lemma list_all_below:
  assumes "list_all P (map of_nat [0..<k])" "k < 2 ^ 32" "(x :: 32 word) < of_nat k"
  shows "P x"
proof -
  have "unat x < k"
    using assms by (simp add: word_less_nat_alt unat_of_nat take_bit_nat_eq_self)
  then have "x \<in> set (map of_nat [0..<k])"
    by (auto intro!: image_eqI [where x = "unat x"])
  then show ?thesis
    using assms(1) by (simp only: list_all_iff)
qed

lemma lead_1_all: "list_all (\<lambda>x. utf8_lead (ucast x) = (x, 1)) (map of_nat [0..<128])"
  by code_simp
lemma lead_2_all: "list_all (\<lambda>x. utf8_lead (ucast (0xC0 OR x)) = (x, 2)) (map of_nat [0..<32])"
  by code_simp
lemma lead_3_all: "list_all (\<lambda>x. utf8_lead (ucast (0xE0 OR x)) = (x, 3)) (map of_nat [0..<16])"
  by code_simp
lemma lead_4_all: "list_all (\<lambda>x. utf8_lead (ucast (0xF0 OR x)) = (x, 4)) (map of_nat [0..<8])"
  by code_simp
lemma continue_all:
  "list_all (\<lambda>x. ucast ((ucast (0x80 OR x) :: byte) AND 0x3F) = (x :: code_point)) (map of_nat [0..<64])"
  by code_simp

lemma utf8_lead_encoded:
  "x < 128 \<Longrightarrow> utf8_lead (ucast x) = (x, 1)"
  "x < 32 \<Longrightarrow> utf8_lead (ucast (0xC0 OR x)) = (x, 2)"
  "x < 16 \<Longrightarrow> utf8_lead (ucast (0xE0 OR x)) = (x, 3)"
  "x < 8 \<Longrightarrow> utf8_lead (ucast (0xF0 OR x)) = (x, 4)"
  using list_all_below [OF lead_1_all, of x] list_all_below [OF lead_2_all, of x]
    list_all_below [OF lead_3_all, of x] list_all_below [OF lead_4_all, of x]
  by simp_all

lemma and_3F: "cp AND 0x3F = take_bit 6 (cp :: code_point)"
  by (simp add: take_bit_eq_mask mask_eq_exp_minus_1)

lemma utf8_continue_byte:
  "ucast ((ucast (0x80 OR x AND 0x3F) :: byte) AND 0x3F) = (x AND 0x3F :: code_point)"
proof -
  have "x AND 0x3F < 64"
    using take_bit_nat_less_exp [of 6 "unat x"] by (simp add: and_3F word_less_nat_alt unsigned_take_bit_eq)
  then show ?thesis
    using list_all_below [OF continue_all, of "x AND 0x3F"] by simp
qed

lemma push_drop_3F: "push_bit 6 (drop_bit 6 cp) OR cp AND 0x3F = (cp :: code_point)"
  unfolding and_3F by (rule bit_word_eqI) (auto simp: bit_simps)

lemma drop_bit_below:
  assumes "(cp :: code_point) < of_nat (m * 2 ^ n)" "m * 2 ^ n < 2 ^ 32"
  shows "drop_bit n cp < of_nat m"
proof -
  have "unat cp < m * 2 ^ n"
    using assms by (simp add: word_less_nat_alt unat_of_nat take_bit_nat_eq_self del: of_nat_mult)
  then have "unat (drop_bit n cp) < m"
    by (simp only: unat_drop_bit_eq drop_bit_eq_div [of n "unat cp"] less_mult_imp_div_less)
  moreover have "m < 2 ^ 32"
    by (rule le_less_trans [OF _ assms(2)]) simp
  ultimately show ?thesis
    by (simp add: word_less_nat_alt unat_of_nat take_bit_nat_eq_self)
qed

text \<open>One encoded code point: a lead byte that announces the rest, whose payloads recompose it.\<close>

definition encodes :: "byte list \<Rightarrow> code_point \<Rightarrow> bool" where
  "encodes bs cp \<longleftrightarrow> bs \<noteq> [] \<and> snd (utf8_lead (hd bs)) = length bs \<and>
     (\<forall>rest. utf8_continue (length bs - 1) (fst (utf8_lead (hd bs))) (tl bs @ rest) = cp)"

lemma push_drop_3F_deeper: "push_bit 6 (drop_bit (n + 6) cp) OR (drop_bit n cp) AND 0x3F = drop_bit n (cp :: code_point)"
  using push_drop_3F [of "drop_bit n cp"] by (simp add: add.commute)

lemma utf8_encode_encodes:
  assumes "cp < 0x110000"
  shows "encodes (utf8_encode cp) cp"
proof -
  note simps = encodes_def utf8_encode_def utf8_lead_encoded utf8_continue_byte push_drop_3F
    push_drop_3F_deeper [of 6, simplified] push_drop_3F_deeper [of 12, simplified]
  consider "cp < 0x80" | "\<not> cp < 0x80" "cp < 0x800" | "\<not> cp < 0x800" "cp < 0x10000" | "\<not> cp < 0x10000"
    by blast
  then show ?thesis
  proof cases
    case 1
    then show ?thesis by (simp add: simps)
  next
    case 2
    then have "drop_bit 6 cp < 32"
      using drop_bit_below [of cp 32 6] by simp
    with 2 show ?thesis
      by (simp add: simps)
  next
    case 3
    then have "drop_bit 12 cp < 16"
      using drop_bit_below [of cp 16 12] by simp
    moreover have "\<not> cp < 0x80"
      using 3 by (auto simp: word_less_nat_alt)
    ultimately show ?thesis
      using 3 by (simp add: simps)
  next
    case 4
    then have "drop_bit 18 cp < 8"
      using assms drop_bit_below [of cp 8 18] by (simp add: word_less_nat_alt)
    moreover have "\<not> cp < 0x80" "\<not> cp < 0x800"
      using 4 by (auto simp: word_less_nat_alt)
    ultimately show ?thesis
      using 4 assms by (simp add: simps)
  qed
qed

lemma fromUtf8_encodes: "encodes bs cp \<Longrightarrow> fromUtf8 (bs @ rest) = cp # fromUtf8 rest"
  by (cases bs) (auto simp: encodes_def Let_def split: prod.splits)

lemma fromUtf8_toUtf8: "\<forall>cp\<in>set s. cp < 0x110000 \<Longrightarrow> fromUtf8 (toUtf8 s) = s"
  by (induction s) (simp_all add: toUtf8_def fromUtf8_encodes [OF utf8_encode_encodes])

text \<open>
  C22: Writing a string as UTF-8 and reading it back gives the same code points, for every string of
  Unicode code points (below \<open>0x110000\<close>); \<open>toUtf8\<close> drops a code point above.
\<close>

theorem utf8_round_trip:
  assumes "\<forall>cp\<in>set s. cp < 0x110000"
  shows "fromUtf8 (toUtf8 s) = s \<and> fromUtf8 (toUtf8 (s @ [0x110000])) = s"
  using fromUtf8_toUtf8 [OF assms] by (simp add: toUtf8_def utf8_encode_def)

lemma utf8_round_trip_witness:
  "fromUtf8 (toUtf8 [0x61, 0xE9, 0x20AC, 0x1F600]) = [0x61, 0xE9, 0x20AC, 0x1F600] \<and>
   length (toUtf8 [0x61, 0xE9, 0x20AC, 0x1F600]) = 10"
  using utf8_round_trip [of "[0x61, 0xE9, 0x20AC, 0x1F600]"]
  by (simp add: toUtf8_def utf8_encode_def)

lemma unat_of_char: "unat (of_char c :: code_point) = of_char c"
proof -
  have "(of_char c :: nat) < 2 ^ 32"
    by (rule less_trans [OF nat_of_char_less_256]) simp
  then have "unat (word_of_nat (of_char c) :: code_point) = of_char c"
    by (simp add: unat_of_nat take_bit_nat_eq_self)
  then show ?thesis
    by (simp only: of_nat_of_char)
qed

lemma ascii_inject [simp]: "ascii s = ascii t \<longleftrightarrow> s = t"
proof -
  have "inj (of_char :: char \<Rightarrow> code_point)"
    by (rule injI) (metis unat_of_char of_char_eq_iff)
  then show ?thesis
    by (auto simp: ascii_def dest: map_injective)
qed

end
