(* ===== verification/Literals.thy ===== *)
theory Literals
  imports SmallIntegers EggString
begin

text \<open>
  Typed literals of the compiler (\<open>LiteralValue.h\<close>): the tagged union with its equality, the parser
  of integer digits and the printer of large integers, and the literal pool of a compiled method
  (\<open>SCompiledMethod::indexOf\<close>).
\<close>

section \<open>Literal values\<close>

record block_info =
  bi_id :: int
  bi_argCount :: int
  bi_tempCount :: int
  bi_envCount :: int
  bi_capturesSelf :: bool
  bi_capturesHome :: bool

type_synonym double = "64 word"

datatype literal_value =
    LNone
  | LInteger int
  | LLargeInteger "byte list" bool
  | LFloat double
  | LString egg_string
  | LSymbol egg_string
  | LCharacter code_point
  | LArray "literal_value list"
  | LByteArray "byte list"
  | LBoolean bool
  | LNil
  | LBlock block_info

text \<open>Equality of IEEE 754 doubles given by their bits: a NaN differs from everything, the two zeros
  are equal.\<close>

definition double_isNaN :: "double \<Rightarrow> bool" where
  "double_isNaN w \<longleftrightarrow> 0x7FF0000000000000 < w AND 0x7FFFFFFFFFFFFFFF"

definition double_eq :: "double \<Rightarrow> double \<Rightarrow> bool" where
  "double_eq a b \<longleftrightarrow> \<not> double_isNaN a \<and> \<not> double_isNaN b \<and>
     (a = b \<or> a AND 0x7FFFFFFFFFFFFFFF = 0 \<and> b AND 0x7FFFFFFFFFFFFFFF = 0)"

fun lit_eq :: "literal_value \<Rightarrow> literal_value \<Rightarrow> bool" where
  "lit_eq LNone l = (case l of LNone \<Rightarrow> True | _ \<Rightarrow> False)"
| "lit_eq (LInteger a) l = (case l of LInteger b \<Rightarrow> a = b | _ \<Rightarrow> False)"
| "lit_eq (LFloat a) l = (case l of LFloat b \<Rightarrow> double_eq a b | _ \<Rightarrow> False)"
| "lit_eq (LString a) l = (case l of LString b \<Rightarrow> a = b | _ \<Rightarrow> False)"
| "lit_eq (LSymbol a) l = (case l of LSymbol b \<Rightarrow> a = b | _ \<Rightarrow> False)"
| "lit_eq (LCharacter a) l = (case l of LCharacter b \<Rightarrow> a = b | _ \<Rightarrow> False)"
| "lit_eq (LBoolean a) l = (case l of LBoolean b \<Rightarrow> a = b | _ \<Rightarrow> False)"
| "lit_eq LNil l = (case l of LNil \<Rightarrow> True | _ \<Rightarrow> False)"
| "lit_eq (LArray xs) l = (case l of LArray ys \<Rightarrow> list_all2 lit_eq xs ys | _ \<Rightarrow> False)"
| "lit_eq (LByteArray a) l = (case l of LByteArray b \<Rightarrow> a = b | _ \<Rightarrow> False)"
| "lit_eq (LBlock a) l = (case l of LBlock b \<Rightarrow> bi_id a = bi_id b | _ \<Rightarrow> False)"
| "lit_eq (LLargeInteger a s) l = (case l of LLargeInteger b t \<Rightarrow> a = b \<and> s = t | _ \<Rightarrow> False)"

section \<open>Integers from digits\<close>

definition digit_value :: "char \<Rightarrow> nat result" where
  "digit_value c =
     (let n = of_char c :: nat in
        if 48 \<le> n \<and> n \<le> 57 then Inr (n - 48)
        else if 97 \<le> n \<and> n \<le> 122 then Inr (n - 97 + 10)
        else if 65 \<le> n \<and> n \<le> 90 then Inr (n - 65 + 10)
        else Inl AssertionFailed)"

text \<open>The inner loop over the bytes: multiply by the base, add the carry.\<close>

fun scale_bytes :: "nat \<Rightarrow> nat \<Rightarrow> byte list \<Rightarrow> byte list \<times> nat" where
  "scale_bytes base carry [] = ([], carry)"
| "scale_bytes base carry (b # bs) =
     (let prod = unat b * base + carry;
          (bs', carry') = scale_bytes base (prod div 256) bs
      in (of_nat (prod mod 256) # bs', carry'))"

fun carry_bytes :: "nat \<Rightarrow> byte list" where
  "carry_bytes carry = (if 0 < carry then of_nat (carry mod 256) # carry_bytes (carry div 256) else [])"

declare carry_bytes.simps [simp del]

definition push_digit :: "nat \<Rightarrow> byte list \<Rightarrow> nat \<Rightarrow> byte list" where
  "push_digit base bytes d = (let (bs, carry) = scale_bytes base d bytes in bs @ carry_bytes carry)"

fun scan_digits :: "nat \<Rightarrow> byte list \<Rightarrow> string \<Rightarrow> byte list result" where
  "scan_digits base bytes [] = Inr bytes"
| "scan_digits base bytes (c # cs) =
     bind_result (digit_value c) (\<lambda>d.
       assert_that (d < base) (scan_digits base (push_digit base bytes d) cs))"

text \<open>Drop high zero bytes but one; the list is reversed so that its head is the last byte.\<close>

fun pop_zeros :: "byte list \<Rightarrow> byte list" where
  "pop_zeros (b # c # bs) = (if b = 0 then pop_zeros (c # bs) else b # c # bs)"
| "pop_zeros bs = bs"

definition trim_bytes :: "byte list \<Rightarrow> byte list" where
  "trim_bytes bs = rev (pop_zeros (rev bs))"

definition le_value :: "byte list \<Rightarrow> nat" where
  "le_value bs = foldr (\<lambda>b u. u * 256 + unat b) bs 0"

definition finish_digits :: "bool \<Rightarrow> byte list \<Rightarrow> literal_value" where
  "finish_digits negative bytes0 =
     (let bytes = trim_bytes bytes0;
          u = le_value bytes;
          limit = (if negative then nat SMALLINT_MAX + 1 else nat SMALLINT_MAX)
      in if length bytes \<le> 8 \<and> u \<le> limit then LInteger (if negative then - int u else int u)
         else LLargeInteger (if length bytes mod 2 \<noteq> 0 then bytes @ [0] else bytes) negative)"

definition fromIntegerDigits :: "nat \<Rightarrow> string \<Rightarrow> bool \<Rightarrow> literal_value result" where
  "fromIntegerDigits base digits negative =
     assert_that (2 \<le> base \<and> base \<le> 36)
       (bind_result (scan_digits base [0] digits) (\<lambda>bytes. Inr (finish_digits negative bytes)))"

text \<open>\<open>printLargeIntegerString\<close> walks the bytes from the highest, skipping leading zeros.\<close>

definition hex_digit :: "nat \<Rightarrow> char" where
  "hex_digit n = ''0123456789ABCDEF'' ! n"

fun print_bytes :: "bool \<Rightarrow> byte list \<Rightarrow> string" where
  "print_bytes started [] = (if started then '''' else ''0'')"
| "print_bytes started (b # bs) =
     (if \<not> started \<and> b = 0 then print_bytes started bs
      else (if started \<or> 16 \<le> unat b then [hex_digit (unat b div 16)] else [])
           @ [hex_digit (unat b mod 16)] @ print_bytes True bs)"

definition printLargeIntegerString :: "literal_value \<Rightarrow> string result" where
  "printLargeIntegerString lit =
     (case lit of
        LLargeInteger bytes negative \<Rightarrow>
          Inr ((if negative then ''-16r'' else ''16r'') @ print_bytes False (rev bytes))
      | _ \<Rightarrow> Inl AssertionFailed)"

section \<open>Literal pools\<close>

text \<open>\<open>SCompiledMethod::indexOf\<close>: the 1-based position of the first equal literal, 0 if none.\<close>

fun index_from :: "nat \<Rightarrow> literal_value \<Rightarrow> literal_value list \<Rightarrow> nat" where
  "index_from i lit [] = 0"
| "index_from i lit (l # ls) = (if lit_eq l lit then i + 1 else index_from (i + 1) lit ls)"

definition indexOf :: "literal_value list \<Rightarrow> literal_value \<Rightarrow> nat" where
  "indexOf literals lit = index_from 0 lit literals"

definition addUnique :: "literal_value list \<Rightarrow> literal_value \<Rightarrow> literal_value list" where
  "addUnique lits lv = (if list_ex (\<lambda>existing. lit_eq existing lv) lits then lits else lits @ [lv])"

section \<open>The digit parser computes the value of the digits\<close>

lemma le_value_simps [simp]:
  "le_value [] = 0"
  "le_value (b # bs) = unat b + 256 * le_value bs"
  by (simp_all add: le_value_def)

lemma le_value_append: "le_value (xs @ ys) = le_value xs + 256 ^ length xs * le_value ys"
  by (induction xs) (simp_all add: algebra_simps)

lemma unat_byte: "unat (b :: byte) < 256"
  using unsigned_less [of b] by (simp add: nat_less_numeral_power_cancel_iff)

lemma le_value_less: "le_value bs < 256 ^ length bs"
proof (induction bs)
  case (Cons b bs)
  have "unat b < 256"
    by (rule unat_byte)
  with Cons show ?case by simp
qed simp

lemma low_byte_unique:
  assumes "(x :: nat) < 256" "y < 256" "x + 256 * u = y + 256 * v"
  shows "x = y \<and> u = v"
  using assms mod_mult_self2 [of x 256 u] mod_mult_self2 [of y 256 v] by simp

lemma le_value_inject: "length xs = length ys \<Longrightarrow> le_value xs = le_value ys \<Longrightarrow> xs = ys"
proof (induction xs ys rule: list_induct2)
  case (Cons x xs y ys)
  then show ?case
    using low_byte_unique [OF unat_byte [of x] unat_byte [of y]] by (auto simp: unsigned_word_eqI)
qed simp

lemma unat_of_nat_byte [simp]: "unat (of_nat n :: byte) = n mod 256"
  by (simp add: unat_of_nat)

lemma scale_step:
  fixes v c p l b x :: nat
  assumes "v + p * c = l * b + x div 256"
  shows "x mod 256 + 256 * v + 256 * p * c = 256 * (l * b) + x"
proof -
  have "x mod 256 + 256 * v + 256 * p * c = x mod 256 + 256 * (v + p * c)"
    by (simp add: algebra_simps)
  also have "\<dots> = 256 * (l * b) + (x mod 256 + 256 * (x div 256))"
    by (simp add: assms distrib_left)
  finally show ?thesis by simp
qed

lemma scale_bytes_value:
  "scale_bytes base carry bs = (bs', carry') \<Longrightarrow>
     length bs' = length bs \<and> le_value bs' + 256 ^ length bs * carry' = le_value bs * base + carry"
proof (induction base carry bs arbitrary: bs' carry' rule: scale_bytes.induct)
  case (2 base carry b bs)
  obtain cs c where cs: "scale_bytes base ((unat b * base + carry) div 256) bs = (cs, c)"
    by fastforce
  have "bs' = of_nat ((unat b * base + carry) mod 256) # cs" "carry' = c"
    using 2(2) cs by (auto simp: Let_def)
  moreover have "length cs = length bs \<and>
      le_value cs + 256 ^ length bs * c = le_value bs * base + (unat b * base + carry) div 256"
    using 2(1) [OF refl cs] by simp
  ultimately show ?case
    using scale_step [of "le_value cs" "256 ^ length bs" c "le_value bs" base "unat b * base + carry"]
    by (simp add: algebra_simps)
qed simp

lemma le_value_carry [simp]: "le_value (carry_bytes n) = n"
  by (induction n rule: carry_bytes.induct) (subst carry_bytes.simps, simp)

lemma push_digit_value [simp]: "le_value (push_digit base bs d) = le_value bs * base + d"
  using scale_bytes_value [of base d bs]
  by (auto simp: push_digit_def Let_def le_value_append split: prod.splits)

definition valid_digit :: "nat \<Rightarrow> char \<Rightarrow> bool" where
  "valid_digit base c = (case digit_value c of Inr d \<Rightarrow> d < base | Inl _ \<Rightarrow> False)"

definition digits_value :: "nat \<Rightarrow> string \<Rightarrow> nat" where
  "digits_value base ds = foldl (\<lambda>n c. n * base + projr (digit_value c)) 0 ds"

lemma scan_digits_value:
  assumes "list_all (valid_digit base) ds"
  shows "\<exists>bs'. scan_digits base bs ds = Inr bs' \<and>
    le_value bs' = foldl (\<lambda>n c. n * base + projr (digit_value c)) (le_value bs) ds"
  using assms
proof (induction ds arbitrary: bs)
  case (Cons c cs)
  then obtain d where d: "digit_value c = Inr d" "d < base"
    by (auto simp: valid_digit_def split: sum.splits)
  then show ?case
    using Cons.IH [of "push_digit base bs d"] Cons.prems by (simp add: d)
qed simp

lemma le_value_pop_zeros: "le_value (rev (pop_zeros bs)) = le_value (rev bs)"
  by (induction bs rule: pop_zeros.induct) (simp_all add: le_value_append)

lemma pop_zeros_hd: "tl (pop_zeros bs) \<noteq> [] \<Longrightarrow> hd (pop_zeros bs) \<noteq> 0"
  by (induction bs rule: pop_zeros.induct) (auto split: if_splits)

lemma le_value_trim [simp]: "le_value (trim_bytes bs) = le_value bs"
  by (simp add: trim_bytes_def le_value_pop_zeros)

lemma trim_bytes_lower: "256 ^ (length (trim_bytes bs) - 1) \<le> le_value bs \<or> length (trim_bytes bs) \<le> 1"
proof (cases "tl (pop_zeros (rev bs))")
  case Nil
  then have "length (pop_zeros (rev bs)) \<le> 1"
    by (cases "pop_zeros (rev bs)") simp_all
  then show ?thesis by (simp add: trim_bytes_def)
next
  case (Cons c cs)
  then obtain b where b: "pop_zeros (rev bs) = b # c # cs"
    by (cases "pop_zeros (rev bs)") simp_all
  then have "b \<noteq> 0"
    using pop_zeros_hd [of "rev bs"] by simp
  then have "1 \<le> unat b"
    by (simp add: Suc_le_eq unat_gt_0)
  then have "256 ^ length (c # cs) * 1 \<le> 256 ^ length (c # cs) * unat b"
    by (intro mult_left_mono) simp_all
  also have "\<dots> \<le> le_value (rev (c # cs) @ [b])"
    by (simp only: le_value_append length_rev le_value_simps) simp
  also have "\<dots> = le_value bs"
    using le_value_trim [of bs] b by (simp add: trim_bytes_def del: le_value_trim)
  finally show ?thesis
    by (simp add: trim_bytes_def b)
qed

lemma trim_bytes_short:
  assumes "le_value bs < 256 ^ n" "0 < n"
  shows "length (trim_bytes bs) \<le> n"
proof (rule ccontr)
  assume "\<not> length (trim_bytes bs) \<le> n"
  then have "(256::nat) ^ n \<le> 256 ^ (length (trim_bytes bs) - 1)" "1 < length (trim_bytes bs)"
    using assms(2) by (auto intro: power_increasing)
  then show False
    using trim_bytes_lower [of bs] assms(1) by linarith
qed

text \<open>The number a literal denotes, where it is an integer.\<close>

fun integer_value :: "literal_value \<Rightarrow> int" where
  "integer_value (LInteger i) = i"
| "integer_value (LLargeInteger bs negative) = (if negative then - int (le_value bs) else int (le_value bs))"
| "integer_value _ = 0"

fun is_small_literal :: "literal_value \<Rightarrow> bool" where
  "is_small_literal (LInteger i) = True"
| "is_small_literal _ = False"

lemma finish_digits_value:
  "integer_value (finish_digits negative bs) = (if negative then - int (le_value bs) else int (le_value bs))"
  by (auto simp: finish_digits_def Let_def le_value_append)

lemma finish_digits_small_iff:
  "is_small_literal (finish_digits negative bs) \<longleftrightarrow>
     smi_range (if negative then - int (le_value bs) else int (le_value bs))"
proof -
  have "length (trim_bytes bs) \<le> 8" if "le_value bs \<le> (if negative then nat SMALLINT_MAX + 1 else nat SMALLINT_MAX)"
    using that by (intro trim_bytes_short) (auto simp: smi_limits split: if_splits)
  then show ?thesis
    by (auto simp: finish_digits_def Let_def smi_range_def smi_limits split: if_splits)
qed

lemma finish_digits_even:
  "finish_digits negative bs = LLargeInteger large s \<Longrightarrow> even (length large) \<and> s = negative"
  by (auto simp: finish_digits_def Let_def odd_iff_mod_2_eq_one [symmetric] split: if_splits)

lemma trim_bytes_unique:
  assumes "le_value xs = le_value ys" "xs \<noteq> []" "ys \<noteq> []"
  shows "trim_bytes xs = trim_bytes ys"
proof -
  have ne: "0 < length (trim_bytes zs)" if "zs \<noteq> []" for zs
  proof -
    have "pop_zeros us \<noteq> []" if "us \<noteq> []" for us
      using that by (induction us rule: pop_zeros.induct) auto
    with that show ?thesis by (simp add: trim_bytes_def)
  qed
  have le: "length (trim_bytes us) \<le> length (trim_bytes vs)" if "le_value us = le_value vs" "vs \<noteq> []" for us vs
    using trim_bytes_short [of us "length (trim_bytes vs)"] le_value_less [of "trim_bytes vs"] that ne [of vs] by simp
  have "length (trim_bytes xs) = length (trim_bytes ys)"
    using assms by (intro le_antisym le) simp_all
  then show ?thesis
    using assms(1) by (intro le_value_inject) simp_all
qed

lemma finish_digits_cong:
  "le_value xs = le_value ys \<Longrightarrow> xs \<noteq> [] \<Longrightarrow> ys \<noteq> [] \<Longrightarrow> finish_digits negative xs = finish_digits negative ys"
  using trim_bytes_unique [of xs ys] by (simp add: finish_digits_def)

lemma push_digit_nonempty: "bs \<noteq> [] \<Longrightarrow> push_digit base bs d \<noteq> []"
  using scale_bytes_value [of base d bs] by (auto simp: push_digit_def split: prod.splits)

lemma scan_digits_nonempty: "scan_digits base bs ds = Inr bs' \<Longrightarrow> bs \<noteq> [] \<Longrightarrow> bs' \<noteq> []"
proof (induction ds arbitrary: bs)
  case (Cons c ds)
  then obtain d where "scan_digits base (push_digit base bs d) ds = Inr bs'"
    by (auto simp: bind_result_eq_Inr assert_that_def split: if_splits)
  then show ?case
    using Cons push_digit_nonempty by blast
qed simp

lemma fromIntegerDigits_finish:
  assumes "2 \<le> base" "base \<le> 36" "list_all (valid_digit base) ds" "bs \<noteq> []" "le_value bs = digits_value base ds"
  shows "fromIntegerDigits base ds negative = Inr (finish_digits negative bs)"
proof -
  obtain bs' where "scan_digits base [0] ds = Inr bs'" "le_value bs' = digits_value base ds"
    using scan_digits_value [OF assms(3), of "[0]"] by (auto simp: digits_value_def)
  moreover from this have "bs' \<noteq> []"
    using scan_digits_nonempty by blast
  ultimately show ?thesis
    using assms by (simp add: fromIntegerDigits_def) (metis finish_digits_cong)
qed

lemma hex_digit_value: "n < 16 \<Longrightarrow> digit_value (hex_digit n) = Inr n"
proof -
  have "list_all (\<lambda>n. digit_value (hex_digit n) = Inr n) [0..<16]"
    by code_simp
  then show "n < 16 \<Longrightarrow> digit_value (hex_digit n) = Inr n"
    by (simp add: list_all_iff)
qed

lemma hex_digit_valid: "n < 16 \<Longrightarrow> valid_digit 16 (hex_digit n)"
  by (simp add: valid_digit_def hex_digit_value)

lemma byte_nibbles: "unat (b :: byte) div 16 < 16" "unat (b :: byte) mod 16 < 16"
  using unat_byte [of b] by auto

lemma print_bytes_valid: "list_all (valid_digit 16) (print_bytes started bs)"
  by (induction started bs rule: print_bytes.induct)
    (auto simp: hex_digit_valid byte_nibbles intro: hex_digit_valid [of 0, unfolded hex_digit_def, simplified])

lemma print_bytes_value:
  "started \<or> n = 0 \<Longrightarrow>
     foldl (\<lambda>n c. n * 16 + projr (digit_value c)) n (print_bytes started bs) = n * 256 ^ length bs + le_value (rev bs)"
proof (induction started bs arbitrary: n rule: print_bytes.induct)
  case (1 started)
  then show ?case using hex_digit_value [of 0] by (auto simp: hex_digit_def)
next
  case (2 started b bs)
  have nibbles: "unat b mod 16 * p + 16 * (unat b div 16 * p) = unat b * p" for p
    using mod_mult_div_eq [of "unat b" 16] by (metis add_mult_distrib mult.assoc)
  from 2 show ?case
    by (auto simp: le_value_append hex_digit_value byte_nibbles nibbles algebra_simps)
qed

lemma digits_value_print [simp]: "digits_value 16 (print_bytes False (rev bs)) = le_value bs"
  using print_bytes_value [of False 0 "rev bs"] by (simp add: digits_value_def)

lemma fromIntegerDigits_spec:
  fixes negative :: bool
  assumes "2 \<le> base" "base \<le> 36" "list_all (valid_digit base) digits"
  defines "value \<equiv> (if negative then - int (digits_value base digits) else int (digits_value base digits))"
  shows "\<exists>lit. fromIntegerDigits base digits negative = Inr lit \<and> integer_value lit = value \<and>
    (if smi_range value then lit = LInteger value
     else \<exists>bytes. lit = LLargeInteger bytes negative \<and> even (length bytes))"
proof -
  obtain bs where bs: "scan_digits base [0] digits = Inr bs" "le_value bs = digits_value base digits"
    using scan_digits_value [OF assms(3), of "[0]"] by (auto simp: digits_value_def)
  define lit where "lit = finish_digits negative bs"
  have "integer_value lit = value" and "is_small_literal lit \<longleftrightarrow> smi_range value"
    using finish_digits_value [of negative bs] finish_digits_small_iff [of negative bs]
    by (simp_all add: lit_def bs value_def)
  moreover have "\<forall>large s. lit = LLargeInteger large s \<longrightarrow> even (length large) \<and> s = negative"
    using finish_digits_even [of negative bs] by (simp add: lit_def)
  moreover have "(\<exists>i. lit = LInteger i) \<or> (\<exists>large s. lit = LLargeInteger large s)"
    by (auto simp: lit_def finish_digits_def Let_def)
  moreover have "fromIntegerDigits base digits negative = Inr lit"
    using assms bs by (simp add: fromIntegerDigits_def lit_def)
  ultimately show ?thesis
    by auto
qed

text \<open>
  C20: For digits that are valid in a base between 2 and 36, \<open>fromIntegerDigits\<close> succeeds with a
  literal that denotes exactly the signed value of the digits; the literal is a small integer
  exactly when that value is in the small-integer range, and otherwise a large integer with an
  even number of bytes and the given sign.
\<close>

theorem fromIntegerDigits_value:
  fixes negative :: bool
  assumes "2 \<le> base" "base \<le> 36" "list_all (valid_digit base) digits"
  defines "value \<equiv> (if negative then - int (digits_value base digits) else int (digits_value base digits))"
  shows "\<exists>lit. fromIntegerDigits base digits negative = Inr lit \<and> integer_value lit = value \<and>
    (if smi_range value then lit = LInteger value
     else \<exists>bytes. lit = LLargeInteger bytes negative \<and> even (length bytes))"
  unfolding value_def by (rule fromIntegerDigits_spec [OF assms(1-3)])

lemma fromIntegerDigits_value_witness:
  "fromIntegerDigits 16 ''3FFFFFFFFFFFFFFF'' False = Inr (LInteger 4611686018427387903) \<and>
   (\<exists>bytes. fromIntegerDigits 16 ''4000000000000000'' False = Inr (LLargeInteger bytes False))"
proof -
  have "list_all (valid_digit 16) ''3FFFFFFFFFFFFFFF''" "list_all (valid_digit 16) ''4000000000000000''"
    "digits_value 16 ''3FFFFFFFFFFFFFFF'' = 4611686018427387903"
    "digits_value 16 ''4000000000000000'' = 4611686018427387904"
    by (simp_all add: valid_digit_def digits_value_def digit_value_def)
  then show ?thesis
    using fromIntegerDigits_value [of 16 "''3FFFFFFFFFFFFFFF''" False]
      fromIntegerDigits_value [of 16 "''4000000000000000''" False]
    by (auto simp: smi_range_eq)
qed

text \<open>
  C21: A large integer that the digit parser made is printed as a radix-16 literal whose digits, read
  back in base 16 with the same sign, give the identical literal.
\<close>

theorem large_integer_print_parse:
  assumes "fromIntegerDigits base digits negative = Inr (LLargeInteger bytes sign)"
    and "2 \<le> base" "base \<le> 36" "list_all (valid_digit base) digits"
  shows "\<exists>hex. printLargeIntegerString (LLargeInteger bytes sign) = Inr ((if sign then ''-16r'' else ''16r'') @ hex) \<and>
    fromIntegerDigits 16 hex sign = Inr (LLargeInteger bytes sign)"
proof -
  obtain bs where bs: "bs \<noteq> []" "le_value bs = digits_value base digits"
    using scan_digits_value [OF assms(4), of "[0]"] scan_digits_nonempty [of base "[0]" digits]
    by (force simp: digits_value_def)
  then have fin: "finish_digits negative bs = LLargeInteger bytes sign"
    using fromIntegerDigits_finish [OF assms(2-4) bs] assms(1) by simp
  have sign: "sign = negative"
    using finish_digits_even [OF fin] by simp
  then have "le_value bytes = le_value bs"
    using finish_digits_value [of negative bs] by (simp add: fin split: if_splits)
  then have "fromIntegerDigits 16 (print_bytes False (rev bytes)) sign = Inr (finish_digits negative bs)"
    unfolding sign using bs
    by (intro fromIntegerDigits_finish) (simp_all add: print_bytes_valid)
  then show ?thesis
    by (simp add: printLargeIntegerString_def fin)
qed

lemma large_literal_example:
  "list_all (valid_digit 36) ''NONSMALLINTEGER''"
  "\<exists>bytes. fromIntegerDigits 36 ''NONSMALLINTEGER'' True = Inr (LLargeInteger bytes True)"
proof -
  show valid: "list_all (valid_digit 36) ''NONSMALLINTEGER''"
    by (simp add: valid_digit_def digit_value_def)
  have "2 ^ 62 < digits_value 36 ''NONSMALLINTEGER''"
    by (simp add: digits_value_def digit_value_def)
  then have "\<not> smi_range (- int (digits_value 36 ''NONSMALLINTEGER''))"
    by (simp add: smi_range_eq)
  then show "\<exists>bytes. fromIntegerDigits 36 ''NONSMALLINTEGER'' True = Inr (LLargeInteger bytes True)"
    using fromIntegerDigits_spec [OF _ _ valid, of True] by auto
qed

lemma large_integer_print_parse_witness:
  "\<exists>bytes hex. fromIntegerDigits 36 ''NONSMALLINTEGER'' True = Inr (LLargeInteger bytes True) \<and>
     printLargeIntegerString (LLargeInteger bytes True) = Inr (''-16r'' @ hex) \<and>
     fromIntegerDigits 16 hex True = Inr (LLargeInteger bytes True)"
  using large_literal_example large_integer_print_parse [of 36 "''NONSMALLINTEGER''" True _ True]
  by auto

end
