(* ===== verification/CompiledMethod.thy ===== *)
theory CompiledMethod
  imports Literals
begin

text \<open>
  The packed format words of compiled methods and blocks.  The compiler writes a method's format
  through \<open>SCompiledMethod\<close> (\<open>SCompiledMethod.h\<close>, \<open>SCompiledMethod.cpp\<close>) and a block's in
  \<open>transferBlock_\<close>; the runtime reads both back from a tagged slot with masks of its own
  (\<open>Runtime.h\<close>, \<open>KnownConstants.h\<close>).  The properties show that the two sides agree.
\<close>

section \<open>Bit fields of the method format\<close>

definition getBits :: "32 word \<Rightarrow> nat \<Rightarrow> 32 word \<Rightarrow> 32 word" where
  "getBits format shift m = drop_bit shift format AND m"

definition setBits :: "32 word \<Rightarrow> nat \<Rightarrow> 32 word \<Rightarrow> 32 word \<Rightarrow> 32 word" where
  "setBits format shift m value =
     (format AND NOT (push_bit shift m)) OR push_bit shift (value AND m)"

definition setFlag :: "32 word \<Rightarrow> 32 word \<Rightarrow> bool \<Rightarrow> 32 word" where
  "setFlag format flag value = (if value then format OR flag else format AND NOT flag)"

definition argumentCount :: "32 word \<Rightarrow> 32 word" where "argumentCount f = getBits f 0 0x3F"
definition argumentCount_put :: "32 word \<Rightarrow> 32 word \<Rightarrow> 32 word" where "argumentCount_put f n = setBits f 0 0x3F n"
definition blockCount :: "32 word \<Rightarrow> 32 word" where "blockCount f = getBits f 6 0x7F"
definition blockCount_put :: "32 word \<Rightarrow> 32 word \<Rightarrow> 32 word" where "blockCount_put f n = setBits f 6 0x7F n"
definition tempCount :: "32 word \<Rightarrow> 32 word" where "tempCount f = getBits f 13 0xFF"
definition tempCount_put :: "32 word \<Rightarrow> 32 word \<Rightarrow> 32 word" where "tempCount_put f n = setBits f 13 0xFF n"
definition environmentCount :: "32 word \<Rightarrow> 32 word" where "environmentCount f = getBits f 25 0x3F"
definition environmentCount_put :: "32 word \<Rightarrow> 32 word \<Rightarrow> 32 word" where "environmentCount_put f n = setBits f 25 0x3F n"

definition CapturesSelf :: "32 word" where "CapturesSelf = 0x200000"
definition HasEnvironment :: "32 word" where "HasEnvironment = 0x400000"
definition HasFrame :: "32 word" where "HasFrame = 0x800000"
definition Debuggable :: "32 word" where "Debuggable = 0x1000000"

definition capturesSelf :: "32 word \<Rightarrow> bool" where "capturesSelf f \<longleftrightarrow> f AND CapturesSelf \<noteq> 0"
definition capturesSelf_put :: "32 word \<Rightarrow> bool \<Rightarrow> 32 word" where "capturesSelf_put f b = setFlag f CapturesSelf b"
definition hasEnvironment :: "32 word \<Rightarrow> bool" where "hasEnvironment f \<longleftrightarrow> f AND HasEnvironment \<noteq> 0"
definition hasEnvironment_put :: "32 word \<Rightarrow> bool \<Rightarrow> 32 word" where "hasEnvironment_put f b = setFlag f HasEnvironment b"
definition hasFrame :: "32 word \<Rightarrow> bool" where "hasFrame f \<longleftrightarrow> f AND HasFrame \<noteq> 0"
definition hasFrame_put :: "32 word \<Rightarrow> bool \<Rightarrow> 32 word" where "hasFrame_put f b = setFlag f HasFrame b"
definition isDebuggable :: "32 word \<Rightarrow> bool" where "isDebuggable f \<longleftrightarrow> f AND Debuggable \<noteq> 0"
definition beDebuggable :: "32 word \<Rightarrow> 32 word" where "beDebuggable f = f OR Debuggable"

text \<open>The format \<open>SMethodNode::buildMethod\<close> gives a method; the counts are what the compiler and
  the scope of the method hold.\<close>

record method_shape =
  ms_blockCount :: "32 word"
  ms_stackSize :: "32 word"
  ms_argumentCount :: "32 word"
  ms_environmentSize :: "32 word"
  ms_capturesSelf :: bool
  ms_needsEnvironment :: bool
  ms_needsFrame :: bool

definition method_format :: "method_shape \<Rightarrow> 32 word" where
  "method_format s =
     (let f = blockCount_put 0 (ms_blockCount s);
          f = tempCount_put f (ms_stackSize s);
          f = argumentCount_put f (ms_argumentCount s);
          f = environmentCount_put f (ms_environmentSize s);
          f = capturesSelf_put f (ms_capturesSelf s);
          f = hasEnvironment_put f (ms_needsEnvironment s)
      in hasFrame_put f (ms_needsFrame s))"

section \<open>Readers of the runtime\<close>

text \<open>The format slot holds a small integer; \<open>newInteger_\<close> tags the zero-extended word.\<close>

definition format_slot :: "32 word \<Rightarrow> oop result" where
  "format_slot f = smi_from (uint f)"

definition methodFlags :: "oop \<Rightarrow> int result" where
  "methodFlags slot = asNative slot"

definition methodArgumentCount :: "oop \<Rightarrow> int result" where
  "methodArgumentCount slot = bind_result (methodFlags slot) (\<lambda>f. Inr (f AND 0x3F))"

definition methodTempCount :: "oop \<Rightarrow> int result" where
  "methodTempCount slot = bind_result (methodFlags slot) (\<lambda>f. Inr (drop_bit 13 (f AND 0x1FE000)))"

definition methodIsExtension :: "oop \<Rightarrow> bool result" where
  "methodIsExtension slot = bind_result (methodFlags slot) (\<lambda>f. Inr (f AND 0x80000000 \<noteq> 0))"

definition methodEnvironmentSize :: "oop \<Rightarrow> int result" where
  "methodEnvironmentSize slot = bind_result (methodFlags slot) (\<lambda>f. Inr (drop_bit 25 f AND 0x3F))"

definition methodNeedsEnviornment :: "oop \<Rightarrow> int result" where
  "methodNeedsEnviornment slot = bind_result (methodFlags slot) (\<lambda>f. Inr (f AND 0x400000))"

definition blockFlags :: "oop \<Rightarrow> int result" where
  "blockFlags slot = asNative slot"

definition blockArgumentCount :: "oop \<Rightarrow> int result" where
  "blockArgumentCount slot = bind_result (blockFlags slot) (\<lambda>f. Inr (f AND 0x3F))"

definition blockTempCount :: "oop \<Rightarrow> int result" where
  "blockTempCount slot = bind_result (blockFlags slot) (\<lambda>f. Inr (drop_bit 6 (f AND 0x3FC0)))"

definition blockNumber :: "oop \<Rightarrow> int result" where
  "blockNumber slot = bind_result (blockFlags slot) (\<lambda>f. Inr (drop_bit 14 (f AND 0x3FC000)))"

definition blockCapturesHome :: "oop \<Rightarrow> bool result" where
  "blockCapturesHome slot = bind_result (blockFlags slot) (\<lambda>f. Inr (f AND 0x800000 \<noteq> 0))"

definition blockCapturesSelf :: "oop \<Rightarrow> bool result" where
  "blockCapturesSelf slot = bind_result (blockFlags slot) (\<lambda>f. Inr (f AND 0x400000 \<noteq> 0))"

definition blockEnvironmentCount :: "oop \<Rightarrow> int result" where
  "blockEnvironmentCount slot = bind_result (blockFlags slot) (\<lambda>f. Inr (drop_bit 24 f AND 0x7F))"

text \<open>\<open>transferBlock_\<close> of the bootstrapper and of the source loader: the same expression.\<close>

definition block_format :: "block_info \<Rightarrow> 32 word" where
  "block_format info =
     word_of_int (bi_argCount info AND 0x3F)
     OR push_bit 6 (word_of_int (bi_tempCount info AND 0xFF))
     OR push_bit 14 (word_of_int (bi_id info AND 0xFF))
     OR (if bi_capturesSelf info then 0x400000 else 0)
     OR (if bi_capturesHome info then 0x800000 else 0)
     OR push_bit 24 (word_of_int (bi_envCount info AND 0x7F))"

section \<open>The laws of a packed field\<close>

text \<open>
  A field is a range of bits; reading after writing gives the value cut to the width of the field,
  and a write of another field outside the range is not seen.
\<close>

locale bit_field =
  fixes get :: "32 word \<Rightarrow> 32 word" and put :: "32 word \<Rightarrow> 32 word \<Rightarrow> 32 word"
    and shift width :: nat
  assumes get_bit: "bit (get f) n \<longleftrightarrow> n < width \<and> bit f (shift + n)"
    and put_bit: "bit (put f v) n \<longleftrightarrow>
      (if shift \<le> n \<and> n < shift + width then n < 32 \<and> bit v (n - shift) else bit f n)"
    and fits: "shift + width \<le> 32"
begin

lemma get_put: "get (put f v) = take_bit width v"
  using fits by (intro bit_word_eqI) (auto simp: get_bit put_bit bit_simps)

lemma put_put: "put (put f u) v = put f v"
  by (intro bit_word_eqI) (auto simp: put_bit)

lemma put_get: "put f (get f) = f"
  by (intro bit_word_eqI) (auto simp: put_bit get_bit dest: bit_imp_le_length)

end

lemma mask_numerals:
  "(0x3F :: 32 word) = mask 6" "(0x7F :: 32 word) = mask 7" "(0xFF :: 32 word) = mask 8"
  by (simp_all add: mask_eq_exp_minus_1)

lemma bit_32_length: "bit (w :: 32 word) n \<Longrightarrow> n < 32"
  using bit_imp_le_length [of w n] by simp

interpretation argCount: bit_field argumentCount argumentCount_put 0 6
  by unfold_locales
    (auto simp: argumentCount_def argumentCount_put_def getBits_def setBits_def mask_numerals bit_simps
      simp del: mask_numeral dest: bit_32_length)

interpretation blkCount: bit_field blockCount blockCount_put 6 7
  by unfold_locales
    (auto simp: blockCount_def blockCount_put_def getBits_def setBits_def mask_numerals bit_simps ac_simps
      simp del: mask_numeral dest: bit_32_length)

interpretation tmpCount: bit_field tempCount tempCount_put 13 8
  by unfold_locales
    (auto simp: tempCount_def tempCount_put_def getBits_def setBits_def mask_numerals bit_simps ac_simps
      simp del: mask_numeral dest: bit_32_length)

interpretation envCount: bit_field environmentCount environmentCount_put 25 6
  by unfold_locales
    (auto simp: environmentCount_def environmentCount_put_def getBits_def setBits_def mask_numerals bit_simps ac_simps
      simp del: mask_numeral dest: bit_32_length)

locale flag_bit =
  fixes get :: "32 word \<Rightarrow> bool" and put :: "32 word \<Rightarrow> bool \<Rightarrow> 32 word" and position :: nat
  assumes get_bit: "get f \<longleftrightarrow> bit f position"
    and put_bit: "bit (put f b) n \<longleftrightarrow> (if n = position then b else bit f n)"
begin

lemma get_put: "get (put f b) = b"
  by (simp add: get_bit put_bit)

lemma put_get: "put f (get f) = f"
  by (intro bit_word_eqI) (auto simp: put_bit get_bit)

end

lemma and_power_bit: "(f :: 32 word) AND 2 ^ k \<noteq> 0 \<longleftrightarrow> bit f k"
  by (simp add: and_exp_eq_0_iff_not_bit)

lemma setFlag_bit: "k < 32 \<Longrightarrow> bit (setFlag f (2 ^ k) b) n \<longleftrightarrow> (if n = k then b else bit f n)"
  by (auto simp: setFlag_def bit_simps dest: bit_32_length)

lemma flag_positions:
  "CapturesSelf = 2 ^ 21" "HasEnvironment = 2 ^ 22" "HasFrame = 2 ^ 23" "Debuggable = 2 ^ 24"
  by (simp_all add: CapturesSelf_def HasEnvironment_def HasFrame_def Debuggable_def)

interpretation selfFlag: flag_bit capturesSelf capturesSelf_put 21
  by unfold_locales
    (simp_all add: capturesSelf_def capturesSelf_put_def flag_positions and_power_bit setFlag_bit del: power_numeral)

interpretation envFlag: flag_bit hasEnvironment hasEnvironment_put 22
  by unfold_locales
    (simp_all add: hasEnvironment_def hasEnvironment_put_def flag_positions and_power_bit setFlag_bit del: power_numeral)

interpretation frameFlag: flag_bit hasFrame hasFrame_put 23
  by unfold_locales
    (simp_all add: hasFrame_def hasFrame_put_def flag_positions and_power_bit setFlag_bit del: power_numeral)

lemma readers_on_format:
  assumes "format_slot f = Inr w"
  shows "methodFlags w = Inr (uint f)" "blockFlags w = Inr (uint f)"
  using assms by (auto simp: format_slot_def methodFlags_def blockFlags_def smi_from_def assert_that_def smi_range_def split: if_splits)

lemma format_slot_total: "format_slot f = Inr (smi_tag (uint f))"
proof -
  have "smi_range (uint f)"
    using uint_lt2p [of f] uint_ge_0 [of f] by (auto simp: smi_range_eq intro: order_trans [of _ 0])
  then show ?thesis by (simp add: format_slot_def)
qed

lemma int_mask_numerals:
  "(0x3F :: int) = mask 6" "(0x7F :: int) = mask 7" "(0x1FE000 :: int) = push_bit 13 (mask 8)"
  "(0x3FC0 :: int) = push_bit 6 (mask 8)" "(0x3FC000 :: int) = push_bit 14 (mask 8)" "(0xFF :: int) = mask 8"
  by (simp_all add: mask_eq_exp_minus_1)

lemma reader_fields:
  "uint f AND 0x3F = uint (argumentCount f)"
  "drop_bit 13 (uint f) AND 0xFF = uint (tempCount f)"
  "drop_bit 25 (uint f) AND 0x3F = uint (environmentCount f)"
  unfolding int_mask_numerals
  by (auto intro!: bit_eqI simp: bit_simps argCount.get_bit tmpCount.get_bit envCount.get_bit ac_simps simp del: mask_numeral push_bit_numeral dest: bit_32_length)

lemma reader_flags:
  fixes f :: "32 word"
  shows "uint f AND 0x400000 \<noteq> 0 \<longleftrightarrow> bit f 22"
  "uint f AND 0x800000 \<noteq> 0 \<longleftrightarrow> bit f 23"
  "uint f AND 0x80000000 \<noteq> 0 \<longleftrightarrow> bit f 31"
  using and_exp_eq_0_iff_not_bit [of "uint f" 22] and_exp_eq_0_iff_not_bit [of "uint f" 23]
    and_exp_eq_0_iff_not_bit [of "uint f" 31]
  by (simp_all add: bit_uint_iff)

lemmas format_put_bits =
  argCount.put_bit blkCount.put_bit tmpCount.put_bit envCount.put_bit
  selfFlag.put_bit envFlag.put_bit frameFlag.put_bit

lemma method_format_fields:
  "argumentCount (method_format s) = take_bit 6 (ms_argumentCount s)"
  "blockCount (method_format s) = take_bit 7 (ms_blockCount s)"
  "tempCount (method_format s) = take_bit 8 (ms_stackSize s)"
  "environmentCount (method_format s) = take_bit 6 (ms_environmentSize s)"
  "bit (method_format s) 22 \<longleftrightarrow> ms_needsEnvironment s"
  "\<not> bit (method_format s) 31"
  by (auto intro!: bit_word_eqI simp: method_format_def Let_def bit_simps argCount.get_bit blkCount.get_bit
      tmpCount.get_bit envCount.get_bit format_put_bits)

text \<open>
  C23: The counts and flags that \<open>buildMethod\<close> packs into a method's format are what the runtime's
  readers find in its tagged slot, each cut to the width of its field: 6 bits of arguments, 8 of
  temporaries, 6 of environment slots; the environment flag is read back and a compiled method is
  never taken for an extension.
\<close>

theorem method_format_read_back:
  "\<exists>slot. format_slot (method_format s) = Inr slot \<and>
     methodArgumentCount slot = Inr (uint (take_bit 6 (ms_argumentCount s))) \<and>
     methodTempCount slot = Inr (uint (take_bit 8 (ms_stackSize s))) \<and>
     methodEnvironmentSize slot = Inr (uint (take_bit 6 (ms_environmentSize s))) \<and>
     bind_result (methodNeedsEnviornment slot) (\<lambda>f. Inr (f \<noteq> 0)) = Inr (ms_needsEnvironment s) \<and>
     methodIsExtension slot = Inr False"
proof -
  have f: "format_slot (method_format s) = Inr (smi_tag (uint (method_format s)))"
    by (rule format_slot_total)
  show ?thesis
    using readers_on_format(1) [OF f]
    by (auto simp: f methodArgumentCount_def methodTempCount_def methodEnvironmentSize_def
        methodNeedsEnviornment_def methodIsExtension_def reader_fields reader_flags method_format_fields)
qed

lemma block_format_fields:
  fixes info :: block_info
  defines "f \<equiv> uint (block_format info)"
  shows "f AND 0x3F = take_bit 6 (bi_argCount info)"
    "drop_bit 6 f AND 0xFF = take_bit 8 (bi_tempCount info)"
    "drop_bit 14 f AND 0xFF = take_bit 8 (bi_id info)"
    "drop_bit 24 f AND 0x7F = take_bit 7 (bi_envCount info)"
    "f AND 0x400000 \<noteq> 0 \<longleftrightarrow> bi_capturesSelf info"
    "f AND 0x800000 \<noteq> 0 \<longleftrightarrow> bi_capturesHome info"
proof -
  have flags: "(0x400000 :: 32 word) = 2 ^ 22" "(0x800000 :: 32 word) = 2 ^ 23" by simp_all
  note bits = block_format_def int_mask_numerals flags
  show "f AND 0x3F = take_bit 6 (bi_argCount info)"
    "drop_bit 6 f AND 0xFF = take_bit 8 (bi_tempCount info)"
    "drop_bit 14 f AND 0xFF = take_bit 8 (bi_id info)"
    "drop_bit 24 f AND 0x7F = take_bit 7 (bi_envCount info)"
    unfolding f_def bits
    by (auto intro!: bit_eqI simp: bit_simps ac_simps simp del: mask_numeral push_bit_numeral power_numeral)
  show "f AND 0x400000 \<noteq> 0 \<longleftrightarrow> bi_capturesSelf info" "f AND 0x800000 \<noteq> 0 \<longleftrightarrow> bi_capturesHome info"
    unfolding f_def reader_flags unfolding bits
    by (auto simp: bit_simps simp del: mask_numeral push_bit_numeral power_numeral)
qed

text \<open>
  C24: The format that \<open>transferBlock_\<close> gives a compiled block reads back as the block's argument
  count (6 bits), temporary count and number (8 bits each), environment count (7 bits) and its two
  capture flags.
\<close>

theorem block_format_read_back:
  "\<exists>slot. format_slot (block_format info) = Inr slot \<and>
     blockArgumentCount slot = Inr (take_bit 6 (bi_argCount info)) \<and>
     blockTempCount slot = Inr (take_bit 8 (bi_tempCount info)) \<and>
     blockNumber slot = Inr (take_bit 8 (bi_id info)) \<and>
     blockEnvironmentCount slot = Inr (take_bit 7 (bi_envCount info)) \<and>
     blockCapturesSelf slot = Inr (bi_capturesSelf info) \<and>
     blockCapturesHome slot = Inr (bi_capturesHome info)"
proof -
  have f: "format_slot (block_format info) = Inr (smi_tag (uint (block_format info)))"
    by (rule format_slot_total)
  show ?thesis
    using readers_on_format(2) [OF f] block_format_fields [of info]
    by (simp add: f blockArgumentCount_def blockTempCount_def blockNumber_def blockEnvironmentCount_def
        blockCapturesSelf_def blockCapturesHome_def)
qed

end
