(* ===== verification/Ast.thy ===== *)
theory Ast
  imports Literals
begin

text \<open>
  The parse tree of a method (\<open>Compiler/AST\<close>) as the backend sees it, after the scopes have
  resolved and positioned the variables: identifiers carry their binding, blocks the part of their
  scope that the encoder reads.  A node of the tree is never null, so the tests of the source
  against null children have no counterpart.
\<close>

section \<open>Bindings and scopes\<close>

text \<open>Where a local lives (\<open>LocalEnvironment\<close> and its subclasses); an array environment holds the
  index of the environment in the closure, negative for the current one.\<close>

datatype local_environment = StackEnvironment | ArgumentEnvironment | InlinedArgEnvironment | ArrayEnvironment int

fun isStack :: "local_environment \<Rightarrow> bool" where
  "isStack (ArrayEnvironment i) = False"
| "isStack _ = True"

fun isInlinedArgument :: "local_environment \<Rightarrow> bool" where
  "isInlinedArgument InlinedArgEnvironment = True"
| "isInlinedArgument _ = False"

fun captureType :: "local_environment \<Rightarrow> int" where
  "captureType StackEnvironment = 0"
| "captureType ArgumentEnvironment = 1"
| "captureType InlinedArgEnvironment = 4"
| "captureType (ArrayEnvironment i) = 3"

datatype binding =
    NilBinding
  | TrueBinding
  | FalseBinding
  | SelfBinding
  | SuperBinding
  | ArgumentBinding egg_string int local_environment
  | TemporaryBinding egg_string int local_environment
  | DynamicBinding egg_string
  | NestedDynamicBinding "egg_string list"

text \<open>\<open>NestedDynamicBinding::buildCompositeName\<close>\<close>

fun buildCompositeName :: "egg_string list \<Rightarrow> egg_string" where
  "buildCompositeName [] = []"
| "buildCompositeName [n] = n"
| "buildCompositeName (n # ns) = n @ ascii ''.'' @ buildCompositeName ns"

fun binding_name :: "binding \<Rightarrow> egg_string" where
  "binding_name NilBinding = ascii ''nil''"
| "binding_name TrueBinding = ascii ''true''"
| "binding_name FalseBinding = ascii ''false''"
| "binding_name SelfBinding = ascii ''self''"
| "binding_name SuperBinding = ascii ''super''"
| "binding_name (ArgumentBinding n i e) = n"
| "binding_name (TemporaryBinding n i e) = n"
| "binding_name (DynamicBinding n) = n"
| "binding_name (NestedDynamicBinding ns) = buildCompositeName ns"

text \<open>\<open>literal()\<close>: what a binding adds to the literal pool.  The nested binding inherits it from
  the dynamic one.\<close>

fun binding_literal :: "binding \<Rightarrow> literal_value option" where
  "binding_literal (DynamicBinding n) = Some (LSymbol n)"
| "binding_literal (NestedDynamicBinding ns) = Some (LSymbol (buildCompositeName ns))"
| "binding_literal _ = None"

text \<open>The text before and after the first dot (\<open>DynamicBinding::named_\<close>).\<close>

definition dynamic_named :: "egg_string \<Rightarrow> binding" where
  "dynamic_named name =
     (let dot = of_char CHR ''.'';
          first = takeWhile (\<lambda>c. c \<noteq> dot) name
      in if first = name then DynamicBinding name
         else NestedDynamicBinding [first, drop (length first + 1) name])"

text \<open>What the encoder reads of a block's scope: the flag for self, for each captured environment
  whether it is the parent's or its index in the closure (none for the current one), for each
  captured argument the capture type and index of its binding in the parent, and the sizes that go
  into the block's metadata.\<close>

datatype captured_environment = ParentEnvironment | EnvironmentAt "int option"

record block_scope =
  bs_capturesSelf :: bool
  bs_environments :: "captured_environment list"
  bs_arguments :: "(int \<times> int) option list"
  bs_stackSize :: int
  bs_envSize :: int
  bs_capturesHome :: bool

section \<open>Parse nodes\<close>

type_synonym ident_node = "egg_string \<times> binding option"

datatype node =
    IdentifierNode ident_node
  | LiteralNode literal_value
  | MessageNode bool node egg_string "node list"
  | CascadeNode node "(egg_string \<times> node list) list"
  | AssignmentNode "ident_node list" node
  | ReturnNode node
  | BlockNode bool int block_scope "ident_node list" "node list"
  | BraceNode "binding option" "node list"

datatype pragma_type = NoPragma | PrimitivePragma | FFIPragma | SymbolicPragma

record method_node =
  mn_selector :: egg_string
  mn_pragma :: "(pragma_type \<times> egg_string) option"
  mn_arguments :: "ident_node list"
  mn_statements :: "node list"

fun pragma_isUsed :: "(pragma_type \<times> egg_string) option \<Rightarrow> bool" where
  "pragma_isUsed (Some (t, n)) = (t \<noteq> NoPragma)"
| "pragma_isUsed None = False"

text \<open>\<open>SBraceNode::expanded\<close>: \<open>(Array new: n) at: 1 put: e1; ...; yourself\<close>.  The expansion is
  made once and kept (\<open>asSMessageNode\<close>), so a brace that the semantic pass visited has the binding of
  its identifier \<open>Array\<close>.\<close>

fun brace_messages :: "nat \<Rightarrow> node list \<Rightarrow> (egg_string \<times> node list) list" where
  "brace_messages i [] = [(ascii ''yourself'', [])]"
| "brace_messages i (elem # elements) =
     (ascii ''at:put:'', [LiteralNode (LInteger (int i + 1)), elem]) # brace_messages (i + 1) elements"

definition brace_expanded :: "binding option \<Rightarrow> node list \<Rightarrow> node" where
  "brace_expanded array elements =
     CascadeNode
       (MessageNode False (IdentifierNode (ascii ''Array'', array)) (ascii ''new:'')
         [LiteralNode (LInteger (int (length elements)))])
       (brace_messages 0 elements)"

section \<open>The literals of a method\<close>

text \<open>What the visit of \<open>SMethodNode::literals\<close> adds for one node, in the order of \<open>nodesDo_\<close>: the
  node itself before its parts.\<close>

definition pooled_literal :: "literal_value \<Rightarrow> literal_value list" where
  "pooled_literal lv =
     (case lv of
        LNone \<Rightarrow> []
      | LInteger i \<Rightarrow> (if -16384 \<le> i \<and> i \<le> 16383 then [] else [lv])
      | _ \<Rightarrow> [lv])"

definition pooled_selector :: "egg_string \<Rightarrow> literal_value list" where
  "pooled_selector s = (if s = [] then [] else [LSymbol s])"

definition pooled_identifier :: "ident_node \<Rightarrow> literal_value list" where
  "pooled_identifier ident =
     (case snd ident of
        None \<Rightarrow> []
      | Some b \<Rightarrow> (case binding_literal b of None \<Rightarrow> [] | Some lv \<Rightarrow> [lv]))"

definition block_literal :: "int \<Rightarrow> block_scope \<Rightarrow> ident_node list \<Rightarrow> literal_value" where
  "block_literal index scope args =
     LBlock \<lparr>bi_id = index, bi_argCount = int (length args), bi_tempCount = bs_stackSize scope,
       bi_envCount = bs_envSize scope, bi_capturesSelf = bs_capturesSelf scope,
       bi_capturesHome = bs_capturesHome scope\<rparr>"

text \<open>A cascade message is a message node whose receiver is the cascade's.\<close>

fun node_literals :: "node \<Rightarrow> literal_value list"
where
  "node_literals (IdentifierNode ident) = pooled_identifier ident"
| "node_literals (LiteralNode lv) = pooled_literal lv"
| "node_literals (MessageNode inlined receiver selector args) =
     pooled_selector selector @ node_literals receiver @ concat (map node_literals args)"
| "node_literals (CascadeNode receiver messages) =
     node_literals receiver @
     concat (map (\<lambda>(s, args). pooled_selector s @ node_literals receiver @ concat (map node_literals args)) messages)"
| "node_literals (AssignmentNode assignees expression) =
     concat (map pooled_identifier assignees) @ node_literals expression"
| "node_literals (ReturnNode expression) = node_literals expression"
| "node_literals (BlockNode inlined index scope args statements) =
     (if inlined then [] else [block_literal index scope args]) @ concat (map node_literals statements)"
| "node_literals (BraceNode array elements) =
     map (\<lambda>s. LSymbol (ascii s)) [''Array'', ''new:'', ''at:put:'', ''yourself''] @ concat (map node_literals elements)"

definition pragma_literals :: "(pragma_type \<times> egg_string) option \<Rightarrow> literal_value list" where
  "pragma_literals p =
     (case p of Some (t, name) \<Rightarrow> (if t \<noteq> NoPragma \<and> name \<noteq> [] then [LSymbol name] else []) | None \<Rightarrow> [])"

definition method_literals :: "method_node \<Rightarrow> literal_value list" where
  "method_literals m =
     foldl addUnique [] (pragma_literals (mn_pragma m) @ concat (map node_literals (mn_statements m)))"

end
