(* ===== verification/SExpressions.thy ===== *)
theory SExpressions
  imports SmallIntegers EggString
begin

text \<open>
  The tree that the evaluator works on (\<open>Evaluator/SExpression.h\<close> and its subclasses): the result
  of decoding treecode.  Literals, selectors and compiled blocks are object pointers.
\<close>

datatype sbinding =
    SNilBinding
  | STrueBinding
  | SFalseBinding
  | SSelfBinding
  | SSuperBinding
  | SArgumentBinding int int
  | STemporaryBinding int int
  | SDynamicBinding oop
  | SNestedDynamicBinding oop

text \<open>
  \<open>SBlock\<close> has its compiled code (none for an inlined block), its index in the literal pool, the
  bytes that say what the closure captures, the frame indices of inlined arguments, and its
  statements.  An assignee is null where the decoded expression is no identifier.
\<close>

datatype sexpr =
    SIdentifier sbinding
  | SLiteral int oop
  | SMessage sexpr oop "sexpr list" bool
  | SCascade sexpr "(oop \<times> sexpr list) list"
  | SAssignment "sbinding option list" sexpr
  | SReturn bool sexpr
  | SBlock "oop option" int "byte list" "byte list" "sexpr list"

record smethod =
  sm_pragma :: "oop option"
  sm_statements :: "sexpr list"

fun isReturn :: "sexpr \<Rightarrow> bool" where
  "isReturn (SReturn l e) = True"
| "isReturn _ = False"

fun isBlock :: "sexpr \<Rightarrow> bool" where
  "isBlock (SBlock c i cv ia ss) = True"
| "isBlock _ = False"

fun as_identifier :: "sexpr \<Rightarrow> sbinding option" where
  "as_identifier (SIdentifier b) = Some b"
| "as_identifier _ = None"

end
