(* ===== verification/Treecode.thy ===== *)
theory Treecode
  imports Ast SExpressions
begin

text \<open>
  The treecode of a method: the encoder of the compiler (\<open>TreecodeEncoder.cpp\<close>), which indexes into
  the literal pool of the compiled method, and the decoder of the evaluator (\<open>TreecodeDecoder.h\<close>),
  which reads literals from the slots of the method object.  An output stream is the list of bytes
  it appends; an input stream is the list of bytes left.
\<close>

section \<open>Encoder\<close>

text \<open>Run the writers in order and append what they write; the first fault stops the encoder.\<close>

fun put_all :: "byte list result list \<Rightarrow> byte list result" where
  "put_all [] = Inr []"
| "put_all (r # rs) = bind_result r (\<lambda>xs. bind_result (put_all rs) (\<lambda>ys. Inr (xs @ ys)))"

definition nextPut :: "int \<Rightarrow> byte list" where
  "nextPut b = [word_of_int b]"

definition nextBigIntegerPut :: "int \<Rightarrow> byte list" where
  "nextBigIntegerPut value =
     nextPut 0x80 @ concat (map (\<lambda>i. nextPut (drop_bit (i * 8) value AND 0xFF)) [7, 6, 5, 4, 3, 2, 1, 0])"

definition nextIntegerPut :: "int \<Rightarrow> byte list" where
  "nextIntegerPut value =
     (if 127 < value \<or> value < -127 then nextBigIntegerPut value
      else nextPut (if 0 \<le> value then value else value + 0x100))"

definition nextPutAll :: "byte list \<Rightarrow> byte list" where
  "nextPutAll bytes = nextIntegerPut (int (length bytes)) @ bytes"

definition nextBooleanPut :: "bool \<Rightarrow> byte list" where
  "nextBooleanPut b = nextPut (if b then 1 else 0)"

definition nextSymbolPut :: "literal_value list \<Rightarrow> egg_string \<Rightarrow> byte list result" where
  "nextSymbolPut literals symbol =
     (let index = indexOf literals (LSymbol symbol)
      in assert_that (index \<noteq> 0) (Inr (nextIntegerPut (int index))))"

definition nextLiteralPut :: "literal_value list \<Rightarrow> egg_string \<Rightarrow> byte list result" where
  "nextLiteralPut literals literal =
     (let index = indexOf literals (LString literal)
      in assert_that (index \<noteq> 0) (Inr (nextIntegerPut (int index))))"

definition encodedEnvironment :: "local_environment \<Rightarrow> int" where
  "encodedEnvironment environment =
     (if isStack environment then (if isInlinedArgument environment then -1 else -2)
      else case environment of ArrayEnvironment i \<Rightarrow> (if i < 0 then 0 else i) | _ \<Rightarrow> 0)"

definition encodeDynamicVar :: "literal_value list \<Rightarrow> egg_string \<Rightarrow> byte list result" where
  "encodeDynamicVar literals name = put_all [Inr (nextPut 14), nextSymbolPut literals name]"

definition encodeNestedDynamicVar :: "literal_value list \<Rightarrow> egg_string \<Rightarrow> byte list result" where
  "encodeNestedDynamicVar literals name = put_all [Inr (nextPut 15), nextLiteralPut literals name]"

definition encodeArgument_env :: "int \<Rightarrow> local_environment \<Rightarrow> byte list" where
  "encodeArgument_env index environment =
     nextPut 4 @ nextIntegerPut index @ nextIntegerPut (encodedEnvironment environment)"

definition encodeTemporary_env :: "int \<Rightarrow> local_environment \<Rightarrow> byte list" where
  "encodeTemporary_env index environment =
     nextPut 5 @ nextIntegerPut index @ nextIntegerPut (encodedEnvironment environment)"

text \<open>\<open>encodeUsing_\<close> of the binding classes.\<close>

fun encodeUsing :: "literal_value list \<Rightarrow> binding \<Rightarrow> byte list result" where
  "encodeUsing literals NilBinding = Inr (nextPut 1)"
| "encodeUsing literals TrueBinding = Inr (nextPut 2)"
| "encodeUsing literals FalseBinding = Inr (nextPut 3)"
| "encodeUsing literals SelfBinding = Inr (nextPut 6)"
| "encodeUsing literals SuperBinding = Inr (nextPut 7)"
| "encodeUsing literals (ArgumentBinding name index env) = Inr (encodeArgument_env index env)"
| "encodeUsing literals (TemporaryBinding name index env) = Inr (encodeTemporary_env index env)"
| "encodeUsing literals (DynamicBinding name) = encodeDynamicVar literals name"
| "encodeUsing literals (NestedDynamicBinding names) = encodeNestedDynamicVar literals (buildCompositeName names)"

definition visitIdentifier :: "literal_value list \<Rightarrow> ident_node \<Rightarrow> byte list result" where
  "visitIdentifier literals ident = put_all [Inr (nextPut 103),
     (case snd ident of
        Some b \<Rightarrow> encodeUsing literals b
      | None \<Rightarrow>
          (let name = fst ident in
             if name = ascii ''self'' then Inr (nextPut 6)
             else if name = ascii ''super'' then Inr (nextPut 7)
             else if name = ascii ''nil'' then Inr (nextPut 1)
             else if name = ascii ''true'' then Inr (nextPut 2)
             else if name = ascii ''false'' then Inr (nextPut 3)
             else encodeDynamicVar literals name))]"

text \<open>The member \<open>intVal\<close> of the union, whatever the tag; the constructor clears it first.\<close>

fun intVal :: "literal_value \<Rightarrow> int" where
  "intVal (LInteger i) = i"
| "intVal (LFloat w) = sint w"
| "intVal (LCharacter c) = uint c"
| "intVal (LBoolean b) = (if b then 1 else 0)"
| "intVal (LLargeInteger bs s) = (if s then 1 else 0)"
| "intVal _ = 0"

definition visitLiteral :: "literal_value list \<Rightarrow> literal_value \<Rightarrow> byte list" where
  "visitLiteral literals lv =
     (let index = indexOf literals lv
      in nextPut 104 @ nextIntegerPut (int index) @
         (if index = 0 then nextIntegerPut (intVal lv) else []))"

fun local_index :: "binding option \<Rightarrow> int option" where
  "local_index (Some (ArgumentBinding n i e)) = Some i"
| "local_index (Some (TemporaryBinding n i e)) = Some i"
| "local_index _ = None"

definition inlined_arg_indices :: "ident_node list \<Rightarrow> byte list" where
  "inlined_arg_indices args = map word_of_int (List.map_filter (\<lambda>a. local_index (snd a)) args)"

fun captured_environment_bytes :: "captured_environment \<Rightarrow> byte list" where
  "captured_environment_bytes ParentEnvironment = [2]"
| "captured_environment_bytes (EnvironmentAt (Some i)) = [3, word_of_int i]"
| "captured_environment_bytes (EnvironmentAt None) = []"

fun captured_argument_bytes :: "(int \<times> int) option \<Rightarrow> byte list" where
  "captured_argument_bytes (Some (ct, i)) = [word_of_int ct, word_of_int i]"
| "captured_argument_bytes None = []"

definition encodeClosureElements :: "block_scope \<Rightarrow> byte list" where
  "encodeClosureElements scope =
     (if bs_capturesSelf scope then [0] else []) @
     concat (map captured_environment_bytes (bs_environments scope)) @
     concat (map captured_argument_bytes (bs_arguments scope))"

fun is_block_literal :: "int \<Rightarrow> literal_value \<Rightarrow> bool" where
  "is_block_literal blockId (LBlock info) = (bi_id info = blockId)"
| "is_block_literal blockId _ = False"

fun block_index_from :: "nat \<Rightarrow> int \<Rightarrow> literal_value list \<Rightarrow> nat result" where
  "block_index_from i blockId [] = Inl (Thrown ''TreecodeEncoder: block not found in method pool'')"
| "block_index_from i blockId (l # ls) =
     (if is_block_literal blockId l then Inr (i + 1) else block_index_from (i + 1) blockId ls)"

definition compiledBlockIndexOf :: "literal_value list \<Rightarrow> int \<Rightarrow> nat result" where
  "compiledBlockIndexOf literals blockId = block_index_from 0 blockId literals"

text \<open>A brace weighs more than the cascade it expands to; the weight drives the termination of the
  visit.\<close>

fun node_weight :: "node \<Rightarrow> nat" where
  "node_weight (IdentifierNode ident) = 1"
| "node_weight (LiteralNode lv) = 1"
| "node_weight (MessageNode inlined receiver selector args) =
     1 + node_weight receiver + sum_list (map node_weight args)"
| "node_weight (CascadeNode receiver messages) =
     1 + node_weight receiver + sum_list (map (\<lambda>(s, args). sum_list (map node_weight args)) messages)"
| "node_weight (AssignmentNode assignees expression) = 1 + node_weight expression"
| "node_weight (ReturnNode expression) = 1 + node_weight expression"
| "node_weight (BlockNode inlined index scope args statements) = 1 + sum_list (map node_weight statements)"
| "node_weight (BraceNode array elements) = 5 + sum_list (map (\<lambda>e. 1 + node_weight e) elements)"

lemma weight_member: "x \<in> set xs \<Longrightarrow> node_weight x \<le> sum_list (map node_weight xs)"
  by (induction xs) auto

lemma weight_message_member:
  "(s, args) \<in> set ms \<Longrightarrow> x \<in> set args \<Longrightarrow>
     node_weight x \<le> sum_list (map (\<lambda>(s, args). sum_list (map node_weight args)) ms)"
  by (induction ms) (auto dest: weight_member intro: trans_le_add1 trans_le_add2)

lemma brace_messages_weight:
  "sum_list (map (\<lambda>(s, args). sum_list (map node_weight args)) (brace_messages i es)) =
     sum_list (map (\<lambda>e. 1 + node_weight e) es)"
  by (induction i es rule: brace_messages.induct) simp_all

lemma brace_expanded_weight: "node_weight (brace_expanded array elements) < node_weight (BraceNode array elements)"
  by (simp add: brace_expanded_def brace_messages_weight)

text \<open>The visit of a node; \<open>is_method\<close> tells whether the real script of the script being visited is
  the method (inlined blocks belong to the script around them).\<close>

function (sequential) visit :: "literal_value list \<Rightarrow> bool \<Rightarrow> node \<Rightarrow> byte list result" where
  "visit literals is_method (IdentifierNode ident) = visitIdentifier literals ident"
| "visit literals is_method (LiteralNode lv) = Inr (visitLiteral literals lv)"
| "visit literals is_method (MessageNode inlined receiver selector args) =
     put_all ([Inr (nextPut 105), Inr (nextBooleanPut inlined), nextSymbolPut literals selector,
       visit literals is_method receiver, Inr (nextIntegerPut (int (length args)))]
       @ map (visit literals is_method) args)"
| "visit literals is_method (CascadeNode receiver messages) =
     put_all ([Inr (nextPut 106), visit literals is_method receiver,
       Inr (nextIntegerPut (int (length messages)))]
       @ map (\<lambda>(selector, args). put_all ([nextSymbolPut literals selector,
             Inr (nextIntegerPut (int (length args)))] @ map (visit literals is_method) args)) messages)"
| "visit literals is_method (AssignmentNode assignees expression) =
     put_all ([Inr (nextPut 108), Inr (nextIntegerPut (int (length assignees)))]
       @ map (visitIdentifier literals) assignees @ [visit literals is_method expression])"
| "visit literals is_method (ReturnNode expression) =
     put_all [Inr (nextPut 109), Inr (nextBooleanPut is_method), visit literals is_method expression]"
| "visit literals is_method (BlockNode inlined index scope args statements) =
     put_all ([Inr (nextPut 102), Inr (nextBooleanPut inlined),
       (if inlined then Inr (nextPutAll (inlined_arg_indices args))
        else bind_result (compiledBlockIndexOf literals index) (\<lambda>i.
          Inr (nextPut (int i) @ nextPutAll (encodeClosureElements scope)))),
       Inr (nextIntegerPut (int (length statements)))]
       @ map (visit literals (inlined \<and> is_method)) statements)"
| "visit literals is_method (BraceNode array elements) = visit literals is_method (brace_expanded array elements)"
  by pat_completeness auto
termination
  by (relation "measure (\<lambda>(l, m, n). node_weight n)")
    (auto simp: brace_expanded_weight le_imp_less_Suc trans_le_add2 weight_member weight_message_member
      simp del: node_weight.simps(8) intro: le_imp_less_Suc trans_le_add2 weight_member weight_message_member)

definition visitMethod :: "literal_value list \<Rightarrow> method_node \<Rightarrow> byte list result" where
  "visitMethod literals m =
     put_all ([Inr (nextPut 101),
       (if pragma_isUsed (mn_pragma m) then
          put_all [Inr (nextPut 110),
            (case mn_pragma m of
               Some (t, name) \<Rightarrow> (if name \<noteq> [] then nextSymbolPut literals name else Inr (nextPut 0))
             | None \<Rightarrow> Inr [])]
        else Inr []),
       Inr (nextIntegerPut (int (length (mn_statements m))))]
       @ map (visit literals True) (mn_statements m))"

text \<open>\<open>encodeMethod\<close> with the pool that \<open>buildMethod\<close> gives the compiled method.\<close>

definition encodeMethod :: "method_node \<Rightarrow> byte list result" where
  "encodeMethod m = visitMethod (method_literals m) m"

section \<open>Decoder\<close>

text \<open>
  A decoder takes the bytes that are left and gives a value and the bytes after it.  Reading past
  the end leaves the byte of the source uninitialised.  The slots are those of the compiled method:
  six named ones, then the literals; the slot number is a 32-bit unsigned.
\<close>

definition method_inst_size :: int where "method_inst_size = 6"

definition literalAt :: "oop list \<Rightarrow> int \<Rightarrow> oop result" where
  "literalAt slots index =
     (let i = (method_inst_size + index - 1) mod 2 ^ 32
      in assert_that (i < int (length slots)) (Inr (slots ! nat i)))"

fun nextByte :: "byte list \<Rightarrow> (byte \<times> byte list) result" where
  "nextByte [] = Inl Undefined"
| "nextByte (b # bs) = Inr (b, bs)"

definition nextBoolean :: "byte list \<Rightarrow> (bool \<times> byte list) result" where
  "nextBoolean bs = bind_result (nextByte bs) (\<lambda>(b, bs). Inr (b = 1, bs))"

fun nextBytes :: "nat \<Rightarrow> byte list \<Rightarrow> (byte list \<times> byte list) result" where
  "nextBytes 0 bs = Inr ([], bs)"
| "nextBytes (Suc n) bs = bind_result (nextByte bs) (\<lambda>(b, bs).
     bind_result (nextBytes n bs) (\<lambda>(elements, bs). Inr (b # elements, bs)))"

text \<open>Eight bytes, the first the most significant, as a signed 64-bit integer.\<close>

definition big_endian :: "byte list \<Rightarrow> int" where
  "big_endian bytes = sint (foldl (\<lambda>w b. push_bit 8 w OR ucast b) (0 :: 64 word) bytes)"

definition nextInteger :: "byte list \<Rightarrow> (int \<times> byte list) result" where
  "nextInteger bs = bind_result (nextByte bs) (\<lambda>(value, bs).
     if value = 128 then bind_result (nextBytes 8 bs) (\<lambda>(bytes, bs). Inr (big_endian bytes, bs))
     else Inr (if value \<le> 127 then uint value else uint value - 256, bs))"

definition nextArray :: "byte list \<Rightarrow> (byte list \<times> byte list) result" where
  "nextArray bs = bind_result (nextInteger bs) (\<lambda>(count, bs). nextBytes (nat count) bs)"

definition nextEnvironment :: "byte list \<Rightarrow> (int \<times> byte list) result" where
  "nextEnvironment bs = bind_result (nextInteger bs) (\<lambda>(value, bs). Inr (if value \<noteq> -2 then value else -2, bs))"

definition nextSymbol :: "oop list \<Rightarrow> byte list \<Rightarrow> (oop \<times> byte list) result" where
  "nextSymbol slots bs = bind_result (nextInteger bs) (\<lambda>(index, bs).
     bind_result (literalAt slots index) (\<lambda>s. Inr (s, bs)))"

definition nextSymbolOrNil :: "oop \<Rightarrow> oop list \<Rightarrow> byte list \<Rightarrow> (oop \<times> byte list) result" where
  "nextSymbolOrNil nil slots bs = bind_result (nextInteger bs) (\<lambda>(index, bs).
     if index \<noteq> 0 then bind_result (literalAt slots index) (\<lambda>s. Inr (s, bs)) else Inr (nil, bs))"

definition nextLiteralInteger :: "byte list \<Rightarrow> (oop \<times> byte list) result" where
  "nextLiteralInteger bs = bind_result (nextInteger bs) (\<lambda>(value, bs).
     bind_result (smi_from value) (\<lambda>w. Inr (w, bs)))"

definition decodeBinding :: "oop list \<Rightarrow> int \<Rightarrow> byte list \<Rightarrow> (sbinding \<times> byte list) result" where
  "decodeBinding slots ident bs =
     (if ident = 1 then Inr (SNilBinding, bs)
      else if ident = 2 then Inr (STrueBinding, bs)
      else if ident = 3 then Inr (SFalseBinding, bs)
      else if ident = 6 then Inr (SSelfBinding, bs)
      else if ident = 7 then Inr (SSuperBinding, bs)
      else if ident = 4 then bind_result (nextInteger bs) (\<lambda>(index, bs).
        bind_result (nextEnvironment bs) (\<lambda>(env, bs). Inr (SArgumentBinding index env, bs)))
      else if ident = 5 then bind_result (nextInteger bs) (\<lambda>(index, bs).
        bind_result (nextEnvironment bs) (\<lambda>(env, bs). Inr (STemporaryBinding index env, bs)))
      else if ident = 14 then bind_result (nextSymbol slots bs) (\<lambda>(s, bs). Inr (SDynamicBinding s, bs))
      else if ident = 15 then bind_result (nextSymbol slots bs) (\<lambda>(s, bs). Inr (SNestedDynamicBinding s, bs))
      else Inl AssertionFailed)"

definition decodeIdentifier :: "oop list \<Rightarrow> byte list \<Rightarrow> (sexpr \<times> byte list) result" where
  "decodeIdentifier slots bs = bind_result (nextInteger bs) (\<lambda>(ident, bs).
     bind_result (decodeBinding slots ident bs) (\<lambda>(b, bs). Inr (SIdentifier b, bs)))"

definition decodeLiteral :: "oop list \<Rightarrow> byte list \<Rightarrow> (sexpr \<times> byte list) result" where
  "decodeLiteral slots bs = bind_result (nextInteger bs) (\<lambda>(index, bs).
     if index = 0 then bind_result (nextLiteralInteger bs) (\<lambda>(v, bs). Inr (SLiteral index v, bs))
     else bind_result (literalAt slots index) (\<lambda>v. Inr (SLiteral index v, bs)))"

text \<open>
  The expressions decode each other recursively.  The first argument bounds the depth of the
  recursion: every level reads at least the byte of its type, so the number of bytes left plus one
  is enough (\<open>decode_method\<close> starts with that).
\<close>

fun nextExpression :: "nat \<Rightarrow> oop list \<Rightarrow> byte list \<Rightarrow> (sexpr \<times> byte list) result"
and nextExpressions :: "nat \<Rightarrow> nat \<Rightarrow> oop list \<Rightarrow> byte list \<Rightarrow> (sexpr list \<times> byte list) result"
and nextCascadeMessages :: "nat \<Rightarrow> nat \<Rightarrow> oop list \<Rightarrow> byte list \<Rightarrow> ((oop \<times> sexpr list) list \<times> byte list) result"
where
  "nextExpression 0 slots bs = Inl Undefined"
| "nextExpression (Suc fuel) slots bs = bind_result (nextByte bs) (\<lambda>(ident, bs).
     if ident = 108 then \<comment> \<open>decodeAssignment\<close>
       bind_result (nextInteger bs) (\<lambda>(count, bs).
       bind_result (nextExpressions fuel (nat count) slots bs) (\<lambda>(assignees, bs).
       bind_result (nextExpression fuel slots bs) (\<lambda>(expression, bs).
         Inr (SAssignment (map as_identifier assignees) expression, bs))))
     else if ident = 102 then \<comment> \<open>decodeBlock\<close>
       bind_result (nextBoolean bs) (\<lambda>(inlined, bs).
       bind_result
         (if inlined then bind_result (nextArray bs) (\<lambda>(args, bs). Inr ((None, 0, [], args), bs))
          else bind_result (nextInteger bs) (\<lambda>(index, bs).
            bind_result (literalAt slots index) (\<lambda>block.
            bind_result (nextArray bs) (\<lambda>(captured, bs). Inr ((Some block, index, captured, []), bs)))))
         (\<lambda>((code, index, captured, args), bs).
       bind_result (nextInteger bs) (\<lambda>(count, bs).
       bind_result (nextExpressions fuel (nat count) slots bs) (\<lambda>(statements, bs).
         Inr (SBlock code index captured args statements, bs)))))
     else if ident = 106 then \<comment> \<open>decodeCascade\<close>
       bind_result (nextExpression fuel slots bs) (\<lambda>(receiver, bs).
       bind_result (nextInteger bs) (\<lambda>(count, bs).
       bind_result (nextCascadeMessages fuel (nat count) slots bs) (\<lambda>(messages, bs).
         Inr (SCascade receiver messages, bs))))
     else if ident = 104 then decodeLiteral slots bs
     else if ident = 103 then decodeIdentifier slots bs
     else if ident = 105 then \<comment> \<open>decodeMessage\<close>
       bind_result (nextBoolean bs) (\<lambda>(inlined, bs).
       bind_result (nextSymbol slots bs) (\<lambda>(selector, bs).
       bind_result (nextExpression fuel slots bs) (\<lambda>(receiver, bs).
       bind_result (nextInteger bs) (\<lambda>(count, bs).
       bind_result (nextExpressions fuel (nat count) slots bs) (\<lambda>(arguments, bs).
         Inr (SMessage receiver selector arguments inlined, bs))))))
     else if ident = 109 then \<comment> \<open>decodeReturn\<close>
       bind_result (nextBoolean bs) (\<lambda>(local, bs).
       bind_result (nextExpression fuel slots bs) (\<lambda>(expression, bs).
         Inr (SReturn local expression, bs)))
     else Inl AssertionFailed)"
| "nextExpressions fuel 0 slots bs = Inr ([], bs)"
| "nextExpressions fuel (Suc n) slots bs =
     bind_result (nextExpression fuel slots bs) (\<lambda>(e, bs).
     bind_result (nextExpressions fuel n slots bs) (\<lambda>(es, bs). Inr (e # es, bs)))"
| "nextCascadeMessages fuel 0 slots bs = Inr ([], bs)"
| "nextCascadeMessages fuel (Suc n) slots bs =
     bind_result (nextSymbol slots bs) (\<lambda>(selector, bs).
     bind_result (nextInteger bs) (\<lambda>(count, bs).
     bind_result (nextExpressions fuel (nat count) slots bs) (\<lambda>(arguments, bs).
     bind_result (nextCascadeMessages fuel n slots bs) (\<lambda>(ms, bs). Inr ((selector, arguments) # ms, bs)))))"

definition decodeMethod :: "oop \<Rightarrow> oop list \<Rightarrow> byte list \<Rightarrow> smethod result" where
  "decodeMethod nil slots bytes = bind_result (nextByte bytes) (\<lambda>(type, bs).
     if type \<noteq> 101 then Inl (FatalError ''method treecode expected'')
     else bind_result
       (case bs of
          b # bs' \<Rightarrow>
            (if b = 110 then bind_result (nextSymbolOrNil nil slots bs') (\<lambda>(p, bs). Inr (Some p, bs))
             else Inr (None, bs))
        | [] \<Rightarrow> Inr (None, bs))
       (\<lambda>(pragma, bs). bind_result (nextInteger bs) (\<lambda>(count, bs).
         bind_result (nextExpressions (length bs + 1) (nat count) slots bs) (\<lambda>(statements, bs).
           Inr \<lparr>sm_pragma = pragma, sm_statements = statements\<rparr>))))"

end
