(* ===== verification/TreecodeRoundTrip.thy ===== *)
theory TreecodeRoundTrip
  imports Treecode
begin

text \<open>
  Decoding inverts encoding: what the evaluator decodes from the treecode of a method is the tree
  the encoder visited, with bindings, selectors, literals and compiled blocks replaced by the
  objects in the slots of the method.  The literals of a method, as collected by
  \<open>SMethodNode::literals\<close>, are all the encoder looks up, except the name of a nested dynamic
  variable.
\<close>

section \<open>Bytes\<close>

lemma put_all_eq_Inr: "put_all rs = Inr bs \<longleftrightarrow> (\<exists>bss. rs = map Inr bss \<and> bs = concat bss)"
  by (induction rs arbitrary: bs) (auto simp: bind_result_eq_Inr map_eq_Cons_conv Cons_eq_map_conv)

lemma nextBytes_append: "n = length xs \<Longrightarrow> nextBytes n (xs @ ys) = Inr (xs, ys)"
  by (induction xs arbitrary: n) auto

definition int64_range :: "int \<Rightarrow> bool" where
  "int64_range v \<longleftrightarrow> - (2 ^ 63) \<le> v \<and> v < 2 ^ 63"

lemma and_FF: "(x :: int) AND 0xFF = take_bit 8 x"
  by (simp add: take_bit_eq_mask mask_eq_exp_minus_1)

lemma byte_of_take: "i \<le> 7 \<Longrightarrow> take_bit 8 (drop_bit (i * 8) (take_bit 64 v)) = take_bit 8 (drop_bit (i * 8) (v :: int))"
  by (rule bit_eqI) (auto simp: bit_simps)

lemma shift_in_byte:
  "push_bit 8 (word_of_int (drop_bit (i * 8 + 8) u) :: 64 word)
     OR ucast (word_of_int (take_bit 8 (drop_bit (i * 8) u)) :: byte) = word_of_int (drop_bit (i * 8) u)"
proof (rule bit_word_eqI)
  fix n assume "n < LENGTH(64)"
  have "i * 8 + 8 + (n - 8) = i * 8 + n" if "8 \<le> n"
    using that by simp
  then show "bit (push_bit 8 (word_of_int (drop_bit (i * 8 + 8) u) :: 64 word)
     OR ucast (word_of_int (take_bit 8 (drop_bit (i * 8) u)) :: byte)) n \<longleftrightarrow> bit (word_of_int (drop_bit (i * 8) u) :: 64 word) n"
    using \<open>n < LENGTH(64)\<close>
    by (cases "n < 8") (auto simp: bit_or_iff bit_push_bit_iff bit_word_of_int_iff bit_drop_bit_eq bit_take_bit_iff bit_unsigned_iff
      simp del: push_bit_numeral)
qed

lemma big_endian_put:
  assumes "int64_range v"
  shows "big_endian (map (\<lambda>i. word_of_int (drop_bit (i * 8) v AND 0xFF)) [7, 6, 5, 4, 3, 2, 1, 0]) = v"
proof -
  define u where "u = take_bit 64 v"
  have "drop_bit (7 * 8 + 8) u = 0"
    by (simp add: u_def drop_bit_take_bit)
  then have "foldl (\<lambda>w b. push_bit 8 w OR ucast b) (0 :: 64 word)
      (map (\<lambda>i. word_of_int (take_bit 8 (drop_bit (i * 8) u)) :: byte) [7, 6, 5, 4, 3, 2, 1, 0]) = word_of_int u"
    using shift_in_byte [of 7 u] shift_in_byte [of 6 u] shift_in_byte [of 5 u] shift_in_byte [of 4 u]
      shift_in_byte [of 3 u] shift_in_byte [of 2 u] shift_in_byte [of 1 u] shift_in_byte [of 0 u]
    by (simp del: push_bit_numeral)
  moreover have "(word_of_int u :: 64 word) = word_of_int v"
    by (rule bit_word_eqI) (simp add: u_def bit_simps)
  moreover have "map (\<lambda>i. word_of_int (drop_bit (i * 8) v AND 0xFF) :: byte) [7, 6, 5, 4, 3, 2, 1, 0] =
      map (\<lambda>i. word_of_int (take_bit 8 (drop_bit (i * 8) u))) [7, 6, 5, 4, 3, 2, 1, 0]"
  proof (rule map_cong [OF refl])
    fix i :: nat assume "i \<in> set [7, 6, 5, 4, 3, 2, 1, 0]"
    then have "i \<le> 7" by auto
    then show "(word_of_int (drop_bit (i * 8) v AND 0xFF) :: byte) = word_of_int (take_bit 8 (drop_bit (i * 8) u))"
      by (simp only: and_FF u_def byte_of_take)
  qed
  ultimately have "big_endian (map (\<lambda>i. word_of_int (drop_bit (i * 8) v AND 0xFF)) [7, 6, 5, 4, 3, 2, 1, 0]) =
      sint (word_of_int v :: 64 word)"
    by (simp only: big_endian_def)
  then show ?thesis
    using assms by (simp add: int64_range_def sint_sbintrunc' signed_take_bit_int_eq_self)
qed

lemma nextInteger_put [simp]:
  assumes "int64_range v"
  shows "nextInteger (nextIntegerPut v @ rest) = Inr (v, rest)"
proof (cases "127 < v \<or> v < -127")
  case True
  have bytes: "concat (map (\<lambda>i. nextPut (drop_bit (i * 8) v AND 0xFF)) [7, 6, 5, 4, 3, 2, 1, 0]) =
      map (\<lambda>i. word_of_int (drop_bit (i * 8) v AND 0xFF)) [7, 6, 5, 4, 3, 2, 1, 0]"
    by (simp add: nextPut_def)
  have "nextIntegerPut v = 0x80 # map (\<lambda>i. word_of_int (drop_bit (i * 8) v AND 0xFF)) [7, 6, 5, 4, 3, 2, 1, 0]"
    using True unfolding nextIntegerPut_def nextBigIntegerPut_def bytes by (simp add: nextPut_def)
  then show ?thesis
    using big_endian_put [OF assms] nextBytes_append [of 8 "map (\<lambda>i. word_of_int (drop_bit (i * 8) v AND 0xFF)) [7, 6, 5, 4, 3, 2, 1, 0]" rest]
    by (simp only: nextInteger_def append.simps nextByte.simps bind_result_simps prod.case) simp
next
  case False
  define b where "b = (if 0 \<le> v then v else v + 256)"
  have b: "0 \<le> b" "b < 256" "b \<noteq> 128"
    using False by (auto simp: b_def)
  have u: "uint (word_of_int b :: byte) = b"
    using b by (simp add: uint_word_of_int take_bit_int_eq_self)
  then have "(word_of_int b :: byte) \<noteq> 128" "(word_of_int b :: byte) \<le> 127 \<longleftrightarrow> b \<le> 127"
    using b by (auto simp: word_le_def)
  with u False show ?thesis
    by (auto simp: nextIntegerPut_def nextPut_def nextInteger_def b_def)
qed

section \<open>Decoders that consume exactly what a writer put\<close>

definition decodes :: "(byte list \<Rightarrow> ('a \<times> byte list) result) \<Rightarrow> byte list \<Rightarrow> 'a \<Rightarrow> bool" where
  "decodes d bytes x \<longleftrightarrow> (\<forall>rest. d (bytes @ rest) = Inr (x, rest))"

lemma decodes_at: "decodes d bytes x \<Longrightarrow> d (bytes @ rest) = Inr (x, rest)"
  by (simp add: decodes_def)

lemma decodes_integer: "int64_range v \<Longrightarrow> decodes nextInteger (nextIntegerPut v) v"
  by (simp add: decodes_def)

lemma nextByte_put [simp]: "nextByte (nextPut b @ rest) = Inr (word_of_int b, rest)"
  by (simp add: nextPut_def)

lemma nextBoolean_put [simp]: "nextBoolean (nextBooleanPut b @ rest) = Inr (b, rest)"
  by (simp add: nextBoolean_def nextBooleanPut_def)

lemma nextArray_put [simp]:
  "int64_range (int (length bytes)) \<Longrightarrow> nextArray (nextPutAll bytes @ rest) = Inr (bytes, rest)"
  by (simp add: nextArray_def nextPutAll_def nextBytes_append)

lemma nextEnvironment_put [simp]:
  "int64_range v \<Longrightarrow> nextEnvironment (nextIntegerPut v @ rest) = Inr (v, rest)"
  by (simp add: nextEnvironment_def)

lemma decodes_expressions:
  "list_all2 (decodes (nextExpression fuel slots)) bss es \<Longrightarrow>
     nextExpressions fuel (length bss) slots (concat bss @ rest) = Inr (es, rest)"
  by (induction rule: list_all2_induct) (simp_all add: decodes_at)

section \<open>Literal pools\<close>

lemma index_from_bounds:
  "index_from i l ls \<noteq> 0 \<Longrightarrow> \<exists>k < length ls. index_from i l ls = i + k + 1 \<and> lit_eq (ls ! k) l"
proof (induction ls arbitrary: i)
  case (Cons x xs)
  show ?case
  proof (cases "lit_eq x l")
    case False
    then obtain k where "k < length xs" "index_from (i + 1) l xs = i + 1 + k + 1" "lit_eq (xs ! k) l"
      using Cons by fastforce
    then show ?thesis
      using False by (intro exI [of _ "Suc k"]) simp
  qed auto
qed simp

lemma index_from_eq_0: "index_from i l ls = 0 \<longleftrightarrow> (\<forall>x\<in>set ls. \<not> lit_eq x l)"
  by (induction ls arbitrary: i) auto

lemma indexOf_bounds:
  "indexOf ls l \<noteq> 0 \<Longrightarrow> \<exists>k < length ls. indexOf ls l = k + 1 \<and> lit_eq (ls ! k) l"
  using index_from_bounds [of 0 l ls] by (simp add: indexOf_def)

lemma block_index_from_bounds:
  "block_index_from i n ls = Inr j \<Longrightarrow> \<exists>k < length ls. j = i + k + 1 \<and> is_block_literal n (ls ! k)"
proof (induction ls arbitrary: i)
  case (Cons x xs)
  show ?case
  proof (cases "is_block_literal n x")
    case False
    then obtain k where "k < length xs" "j = i + 1 + k + 1" "is_block_literal n (xs ! k)"
      using Cons by fastforce
    then show ?thesis
      using False by (intro exI [of _ "Suc k"]) simp
  qed (use Cons in auto)
qed simp

lemma lit_eq_symbol [simp]: "lit_eq l (LSymbol s) \<longleftrightarrow> l = LSymbol s"
  by (cases l) auto

lemma lit_eq_string [simp]: "lit_eq l (LString s) \<longleftrightarrow> l = LString s"
  by (cases l) auto

lemma lit_eq_integer [simp]: "lit_eq l (LInteger s) \<longleftrightarrow> l = LInteger s"
  by (cases l) auto

text \<open>The slots of the method object a pool is transferred to: six named ones, then the literals.\<close>

definition transferred :: "(literal_value \<Rightarrow> oop) \<Rightarrow> literal_value list \<Rightarrow> oop list \<Rightarrow> bool" where
  "transferred obj literals slots \<longleftrightarrow>
     length slots = 6 + length literals \<and> length slots < 2 ^ 31 \<and>
     (\<forall>k < length literals. slots ! (6 + k) = obj (literals ! k))"

lemma transferred_at:
  assumes "transferred obj literals slots" "k < length literals"
  shows "literalAt slots (1 + int k) = Inr (obj (literals ! k))"
proof -
  have "(method_inst_size + (1 + int k) - 1) mod 2 ^ 32 = 6 + int k"
    using assms by (simp add: method_inst_size_def transferred_def)
  moreover have "nat (6 + int k) = 6 + k" by simp
  ultimately show ?thesis
    using assms by (simp add: literalAt_def transferred_def)
qed

lemma transferred_int64: "transferred obj literals slots \<Longrightarrow> k < length literals \<Longrightarrow> int64_range (1 + int k)"
  by (simp add: transferred_def int64_range_def)

lemma decodes_symbol:
  assumes "transferred obj literals slots" "nextSymbolPut literals s = Inr bs"
  shows "decodes (nextSymbol slots) bs (obj (LSymbol s))"
proof -
  obtain k where k: "k < length literals" "indexOf literals (LSymbol s) = k + 1" "literals ! k = LSymbol s"
    using assms(2) indexOf_bounds [of literals "LSymbol s"] by (auto simp: nextSymbolPut_def Let_def assert_that_def split: if_splits)
  then have "bs = nextIntegerPut (1 + int k)"
    using assms(2) by (simp add: nextSymbolPut_def)
  then show ?thesis
    using transferred_at [OF assms(1) k(1)] transferred_int64 [OF assms(1) k(1)] k
    by (simp add: decodes_def nextSymbol_def)
qed

lemma decodes_nested_name:
  assumes "transferred obj literals slots" "nextLiteralPut literals s = Inr bs"
  shows "decodes (nextSymbol slots) bs (obj (LString s))"
proof -
  obtain k where k: "k < length literals" "indexOf literals (LString s) = k + 1" "literals ! k = LString s"
    using assms(2) indexOf_bounds [of literals "LString s"] by (auto simp: nextLiteralPut_def Let_def assert_that_def split: if_splits)
  then have "bs = nextIntegerPut (1 + int k)"
    using assms(2) by (simp add: nextLiteralPut_def)
  then show ?thesis
    using transferred_at [OF assms(1) k(1)] transferred_int64 [OF assms(1) k(1)] k
    by (simp add: decodes_def nextSymbol_def)
qed

section \<open>What the decoder makes of a node\<close>

fun tr_binding :: "(literal_value \<Rightarrow> oop) \<Rightarrow> binding \<Rightarrow> sbinding" where
  "tr_binding obj NilBinding = SNilBinding"
| "tr_binding obj TrueBinding = STrueBinding"
| "tr_binding obj FalseBinding = SFalseBinding"
| "tr_binding obj SelfBinding = SSelfBinding"
| "tr_binding obj SuperBinding = SSuperBinding"
| "tr_binding obj (ArgumentBinding n i e) = SArgumentBinding i (encodedEnvironment e)"
| "tr_binding obj (TemporaryBinding n i e) = STemporaryBinding i (encodedEnvironment e)"
| "tr_binding obj (DynamicBinding n) = SDynamicBinding (obj (LSymbol n))"
| "tr_binding obj (NestedDynamicBinding ns) = SNestedDynamicBinding (obj (LString (buildCompositeName ns)))"

text \<open>An identifier without a binding stands for the pseudo variable of its name, or a dynamic one.\<close>

definition effective_binding :: "ident_node \<Rightarrow> binding" where
  "effective_binding ident =
     (case snd ident of
        Some b \<Rightarrow> b
      | None \<Rightarrow>
          (let name = fst ident in
             if name = ascii ''self'' then SelfBinding
             else if name = ascii ''super'' then SuperBinding
             else if name = ascii ''nil'' then NilBinding
             else if name = ascii ''true'' then TrueBinding
             else if name = ascii ''false'' then FalseBinding
             else DynamicBinding name))"

definition tr_ident :: "(literal_value \<Rightarrow> oop) \<Rightarrow> ident_node \<Rightarrow> sbinding" where
  "tr_ident obj ident = tr_binding obj (effective_binding ident)"

definition tr_literal :: "(literal_value \<Rightarrow> oop) \<Rightarrow> literal_value list \<Rightarrow> literal_value \<Rightarrow> sexpr" where
  "tr_literal obj literals lv =
     (let i = indexOf literals lv
      in if i = 0 then SLiteral 0 (smi_tag (intVal lv)) else SLiteral (int i) (obj (literals ! (i - 1))))"

function (sequential) translate :: "(literal_value \<Rightarrow> oop) \<Rightarrow> literal_value list \<Rightarrow> bool \<Rightarrow> node \<Rightarrow> sexpr" where
  "translate obj literals is_method (IdentifierNode ident) = SIdentifier (tr_ident obj ident)"
| "translate obj literals is_method (LiteralNode lv) = tr_literal obj literals lv"
| "translate obj literals is_method (MessageNode inlined receiver selector args) =
     SMessage (translate obj literals is_method receiver) (obj (LSymbol selector))
       (map (translate obj literals is_method) args) inlined"
| "translate obj literals is_method (CascadeNode receiver messages) =
     SCascade (translate obj literals is_method receiver)
       (map (\<lambda>(selector, args). (obj (LSymbol selector), map (translate obj literals is_method) args)) messages)"
| "translate obj literals is_method (AssignmentNode assignees expression) =
     SAssignment (map (\<lambda>a. Some (tr_ident obj a)) assignees) (translate obj literals is_method expression)"
| "translate obj literals is_method (ReturnNode expression) =
     SReturn is_method (translate obj literals is_method expression)"
| "translate obj literals is_method (BlockNode inlined index scope args statements) =
     (let stmts = map (translate obj literals (inlined \<and> is_method)) statements;
          i = projr (compiledBlockIndexOf literals index)
      in if inlined then SBlock None 0 [] (inlined_arg_indices args) stmts
         else SBlock (Some (obj (literals ! (i - 1)))) (int i) (encodeClosureElements scope) [] stmts)"
| "translate obj literals is_method (BraceNode array elements) =
     translate obj literals is_method (brace_expanded array elements)"
  by pat_completeness auto
termination
  by (relation "measure (\<lambda>(f, l, m, n). node_weight n)")
    (auto simp: brace_expanded_weight simp del: node_weight.simps(8)
      intro: le_imp_less_Suc trans_le_add2 weight_member weight_message_member)

text \<open>
  Bounds under which the numbers fit their encodings: 64-bit integers, and a byte for the position
  of a compiled block in the pool that reads back as itself only up to 127.
\<close>

fun wf_binding :: "binding \<Rightarrow> bool" where
  "wf_binding (ArgumentBinding n i e) \<longleftrightarrow> int64_range i \<and> int64_range (encodedEnvironment e)"
| "wf_binding (TemporaryBinding n i e) \<longleftrightarrow> int64_range i \<and> int64_range (encodedEnvironment e)"
| "wf_binding _ \<longleftrightarrow> True"

definition wf_ident :: "ident_node \<Rightarrow> bool" where
  "wf_ident ident \<longleftrightarrow> wf_binding (effective_binding ident)"

definition countable_list :: "'a list \<Rightarrow> bool" where
  "countable_list xs \<longleftrightarrow> length xs < 2 ^ 62"

definition wf_literal :: "literal_value list \<Rightarrow> literal_value \<Rightarrow> bool" where
  "wf_literal literals lv \<longleftrightarrow> indexOf literals lv = 0 \<longrightarrow> smi_range (intVal lv)"

fun wf_node :: "literal_value list \<Rightarrow> node \<Rightarrow> bool" where
  "wf_node literals (IdentifierNode ident) \<longleftrightarrow> wf_ident ident"
| "wf_node literals (LiteralNode lv) \<longleftrightarrow> wf_literal literals lv"
| "wf_node literals (MessageNode inlined receiver selector args) \<longleftrightarrow>
     wf_node literals receiver \<and> countable_list args \<and> list_all (wf_node literals) args"
| "wf_node literals (CascadeNode receiver messages) \<longleftrightarrow>
     wf_node literals receiver \<and> countable_list messages \<and>
     list_all (\<lambda>(s, args). countable_list args \<and> list_all (wf_node literals) args) messages"
| "wf_node literals (AssignmentNode assignees expression) \<longleftrightarrow>
     countable_list assignees \<and> list_all wf_ident assignees \<and> wf_node literals expression"
| "wf_node literals (ReturnNode expression) \<longleftrightarrow> wf_node literals expression"
| "wf_node literals (BlockNode inlined index scope args statements) \<longleftrightarrow>
     countable_list statements \<and> list_all (wf_node literals) statements \<and> countable_list args \<and>
     countable_list (encodeClosureElements scope) \<and>
     (\<not> inlined \<longrightarrow> (\<forall>i. compiledBlockIndexOf literals index = Inr i \<longrightarrow> i \<le> 127))"
| "wf_node literals (BraceNode array elements) \<longleftrightarrow>
     wf_ident (ascii ''Array'', array) \<and> length elements < 2 ^ 61 \<and> list_all (wf_node literals) elements"

lemma countable_int64: "countable_list xs \<Longrightarrow> int64_range (int (length xs))"
  by (simp add: countable_list_def int64_range_def)

lemma length_brace_messages [simp]: "length (brace_messages i es) = length es + 1"
  by (induction i es rule: brace_messages.induct) simp_all

lemma wf_brace_messages:
  "list_all (wf_node literals) es \<Longrightarrow> i + length es < 2 ^ 61 \<Longrightarrow>
     list_all (\<lambda>(s, args). countable_list args \<and> list_all (wf_node literals) args) (brace_messages i es)"
  by (induction i es rule: brace_messages.induct)
    (simp_all add: countable_list_def wf_literal_def smi_range_eq)

lemma wf_brace_expanded:
  "wf_node literals (BraceNode array elements) \<Longrightarrow> wf_node literals (brace_expanded array elements)"
  using wf_brace_messages [of literals elements 0]
  by (simp add: brace_expanded_def countable_list_def wf_literal_def smi_range_eq
      wf_ident_def effective_binding_def)

lemma decodes_identifier:
  assumes "transferred obj literals slots" "visitIdentifier literals ident = Inr bs" "wf_ident ident"
  shows "decodes (nextExpression (Suc fuel) slots) bs (SIdentifier (tr_ident obj ident))"
proof -
  have "\<exists>cs. bs = nextPut 103 @ cs \<and> encodeUsing literals (effective_binding ident) = Inr cs"
    using assms(2) by (auto simp: visitIdentifier_def effective_binding_def Let_def bind_result_eq_Inr split: option.splits if_splits)
  then obtain cs where cs: "bs = nextPut 103 @ cs" "encodeUsing literals (effective_binding ident) = Inr cs"
    by blast
  have small: "int64_range 1" "int64_range 2" by (simp_all add: int64_range_def)
  have one: "nextInteger (nextPut b @ rest) = Inr (b, rest)" if "0 \<le> b" "b < 128" for b rest
    using nextInteger_put [of b rest] that by (simp add: nextIntegerPut_def int64_range_def)
  have "decodes (decodeIdentifier slots) cs (SIdentifier (tr_ident obj ident))"
  proof (cases "effective_binding ident")
    case (DynamicBinding n)
    then obtain ds where "cs = nextPut 14 @ ds" "nextSymbolPut literals n = Inr ds"
      using cs(2) by (auto simp: encodeDynamicVar_def bind_result_eq_Inr)
    then show ?thesis
      using decodes_symbol [OF assms(1), of n ds] DynamicBinding
      by (simp add: decodes_def decodeIdentifier_def one decodeBinding_def tr_ident_def)
  next
    case (NestedDynamicBinding ns)
    then obtain ds where "cs = nextPut 15 @ ds" "nextLiteralPut literals (buildCompositeName ns) = Inr ds"
      using cs(2) by (auto simp: encodeNestedDynamicVar_def bind_result_eq_Inr)
    then show ?thesis
      using decodes_nested_name [OF assms(1), of "buildCompositeName ns" ds] NestedDynamicBinding
      by (simp add: decodes_def decodeIdentifier_def one decodeBinding_def tr_ident_def)
  qed (use cs(2) assms(3) in \<open>auto simp: decodes_def decodeIdentifier_def one decodeBinding_def tr_ident_def
      encodeArgument_env_def encodeTemporary_env_def wf_ident_def\<close>)
  then show ?thesis
    by (simp add: cs decodes_def)
qed

lemma decodes_literal:
  assumes "transferred obj literals slots" "wf_literal literals lv"
  shows "decodes (nextExpression (Suc fuel) slots) (visitLiteral literals lv) (tr_literal obj literals lv)"
proof (cases "indexOf literals lv = 0")
  case True
  then have "smi_range (intVal lv)" "int64_range (intVal lv)" "int64_range 0"
    using assms(2) by (auto simp: wf_literal_def smi_range_eq int64_range_def)
  then show ?thesis
    using True by (simp add: visitLiteral_def tr_literal_def decodes_def decodeLiteral_def nextLiteralInteger_def)
next
  case False
  then obtain k where k: "k < length literals" "indexOf literals lv = k + 1"
    using indexOf_bounds by blast
  then show ?thesis
    using transferred_at [OF assms(1) k(1)] transferred_int64 [OF assms(1) k(1)]
    by (simp add: visitLiteral_def tr_literal_def decodes_def decodeLiteral_def)
qed

section \<open>The round trip\<close>

lemma visit_list_decodes:
  assumes "map (visit literals m) ns = map Inr bss"
    and "\<And>n bs. n \<in> set ns \<Longrightarrow> bs \<in> set bss \<Longrightarrow> visit literals m n = Inr bs \<Longrightarrow>
      decodes (nextExpression fuel slots) bs (f n)"
  shows "list_all2 (decodes (nextExpression fuel slots)) bss (map f ns)"
  using assms by (induction ns arbitrary: bss) (auto simp: Cons_eq_map_conv map_eq_Cons_conv)

lemma length_member_concat: "b \<in> set bss \<Longrightarrow> length b \<le> length (concat bss)"
  by (induction bss) auto

lemma length_put [simp]: "length (nextPut b) = 1" "length (nextBooleanPut c) = 1"
  by (simp_all add: nextPut_def nextBooleanPut_def)

lemma nextIntegerPut_nonempty [simp]: "nextIntegerPut v \<noteq> []"
  by (simp add: nextIntegerPut_def nextBigIntegerPut_def nextPut_def)

lemma decodes_identifiers:
  assumes "transferred obj literals slots" "map (visitIdentifier literals) assignees = map Inr bss"
    "list_all wf_ident assignees"
  shows "list_all2 (decodes (nextExpression (Suc fuel) slots)) bss (map (\<lambda>a. SIdentifier (tr_ident obj a)) assignees)"
  using assms(2,3) decodes_identifier [OF assms(1)]
  by (induction assignees arbitrary: bss) (auto simp: Cons_eq_map_conv map_eq_Cons_conv)

definition message_bytes :: "literal_value list \<Rightarrow> bool \<Rightarrow> egg_string \<times> node list \<Rightarrow> byte list result" where
  "message_bytes literals m = (\<lambda>(selector, args). put_all ([nextSymbolPut literals selector,
     Inr (nextIntegerPut (int (length args)))] @ map (visit literals m) args))"

lemma decodes_cascade_messages:
  assumes "transferred obj literals slots"
    and "map (message_bytes literals m) messages = map Inr bss"
    and "\<And>s args a bs. (s, args) \<in> set messages \<Longrightarrow> a \<in> set args \<Longrightarrow> visit literals m a = Inr bs \<Longrightarrow>
      length bs \<le> length (concat bss) \<Longrightarrow> decodes (nextExpression fuel slots) bs (f a)"
    and "list_all (\<lambda>(s, args). countable_list args \<and> list_all (wf_node literals) args) messages"
  shows "nextCascadeMessages fuel (length messages) slots (concat bss @ rest) =
    Inr (map (\<lambda>(s, args). (obj (LSymbol s), map f args)) messages, rest)"
  using assms(2-4)
proof (induction messages arbitrary: bss)
  case (Cons msg messages)
  obtain s args where msg: "msg = (s, args)" by fastforce
  obtain bs bss' where bss: "bss = bs # bss'" "message_bytes literals m (s, args) = Inr bs"
    "map (message_bytes literals m) messages = map Inr bss'"
    using Cons.prems(1) msg by (auto simp: Cons_eq_map_conv map_eq_Cons_conv)
  obtain sb abs where bs: "bs = sb @ nextIntegerPut (int (length args)) @ concat abs"
    "nextSymbolPut literals s = Inr sb" "map (visit literals m) args = map Inr abs"
    using bss(2) by (auto simp: message_bytes_def put_all_eq_Inr bind_result_eq_Inr)
  have "list_all2 (decodes (nextExpression fuel slots)) abs (map f args)"
  proof (rule visit_list_decodes [OF bs(3)])
    fix a b assume "a \<in> set args" "b \<in> set abs" "visit literals m a = Inr b"
    then show "decodes (nextExpression fuel slots) b (f a)"
      using Cons.prems(2) [of s args a b] length_member_concat [of b abs] by (simp add: msg bss bs)
  qed
  then have args: "nextExpressions fuel (length args) slots (concat abs @ r) = Inr (map f args, r)" for r
    using decodes_expressions list_all2_lengthD by (metis length_map)
  have "nextCascadeMessages fuel (length messages) slots (concat bss' @ rest) =
      Inr (map (\<lambda>(s, args). (obj (LSymbol s), map f args)) messages, rest)"
  proof (rule Cons.IH [OF bss(3)])
    fix s' args' a b
    assume "(s', args') \<in> set messages" "a \<in> set args'" "visit literals m a = Inr b" "length b \<le> length (concat bss')"
    then show "decodes (nextExpression fuel slots) b (f a)"
      using Cons.prems(2) [of s' args' a b] by (simp add: bss)
  qed (use Cons.prems(3) in simp)
  then show ?case
    using Cons.prems(3) args decodes_at [OF decodes_symbol [OF assms(1) bs(2)]]
    by (simp add: msg bss bs countable_int64)
qed simp

lemma visit_cascade_bytes:
  "visit literals m (CascadeNode receiver messages) =
     put_all ([Inr (nextPut 106), visit literals m receiver, Inr (nextIntegerPut (int (length messages)))]
       @ map (message_bytes literals m) messages)"
  by (simp add: message_bytes_def)

lemma node_bytes [simp]:
  "(word_of_int 105 :: byte) = 105" "(word_of_int 106 :: byte) = 106" "(word_of_int 108 :: byte) = 108"
  "(word_of_int 109 :: byte) = 109" "(word_of_int 102 :: byte) = 102"
  by simp_all

lemma decodes_visit:
  "transferred obj literals slots \<Longrightarrow> visit literals m n = Inr bs \<Longrightarrow> wf_node literals n \<Longrightarrow> length bs \<le> fuel \<Longrightarrow>
    decodes (nextExpression fuel slots) bs (translate obj literals m n)"
proof (induction literals m n arbitrary: bs fuel rule: visit.induct)
  case (1 literals m ident)
  then obtain f where "fuel = Suc f"
    by (cases fuel) (auto simp: visitIdentifier_def bind_result_eq_Inr nextPut_def)
  with 1 show ?case
    using decodes_identifier [of obj literals slots ident bs f] by (simp del: nextExpression.simps)
next
  case (2 literals m lv)
  then obtain f where "fuel = Suc f"
    by (cases fuel) (auto simp: visitLiteral_def Let_def nextPut_def)
  with 2 show ?case
    using decodes_literal [of obj literals slots lv f] by (auto simp del: nextExpression.simps)
next
  case (3 literals m inlined receiver selector args)
  obtain sb rb abs where bs: "bs = nextPut 105 @ nextBooleanPut inlined @ sb @ rb @ nextIntegerPut (int (length args)) @ concat abs"
    "nextSymbolPut literals selector = Inr sb" "visit literals m receiver = Inr rb" "map (visit literals m) args = map Inr abs"
    using 3(4) by (auto simp: put_all_eq_Inr bind_result_eq_Inr)
  obtain f where f: "fuel = Suc f" "length rb \<le> f" "length (concat abs) \<le> f"
    using 3(6) bs(1) by (cases fuel) auto
  have r: "decodes (nextExpression f slots) rb (translate obj literals m receiver)"
    using 3(1) [OF 3(3) bs(3)] 3(5) f by simp
  have "list_all2 (decodes (nextExpression f slots)) abs (map (translate obj literals m) args)"
  proof (rule visit_list_decodes [OF bs(4)])
    fix a b assume "a \<in> set args" "b \<in> set abs" "visit literals m a = Inr b"
    then show "decodes (nextExpression f slots) b (translate obj literals m a)"
      using 3(2) [of a b f] 3(3,5) f length_member_concat [of b abs] by (auto simp: list_all_iff)
  qed
  then have args: "nextExpressions f (length args) slots (concat abs @ rest) = Inr (map (translate obj literals m) args, rest)" for rest
    using decodes_expressions list_all2_lengthD by (metis length_map)
  show ?case
    using 3(5) args decodes_at [OF r] decodes_at [OF decodes_symbol [OF 3(3) bs(2)]]
    by (simp add: decodes_def bs f countable_int64)
next
  case (4 literals m receiver messages)
  obtain rb mbs where bs: "bs = nextPut 106 @ rb @ nextIntegerPut (int (length messages)) @ concat mbs"
    "visit literals m receiver = Inr rb" "map (message_bytes literals m) messages = map Inr mbs"
    using 4(4) unfolding visit_cascade_bytes by (auto simp: put_all_eq_Inr bind_result_eq_Inr)
  obtain f where f: "fuel = Suc f" "length rb \<le> f" "length (concat mbs) \<le> f"
    using 4(6) bs(1) by (cases fuel) auto
  have r: "decodes (nextExpression f slots) rb (translate obj literals m receiver)"
    using 4(1) [OF 4(3) bs(2)] 4(5) f by simp
  have "nextCascadeMessages f (length messages) slots (concat mbs @ rest) =
      Inr (map (\<lambda>(s, args). (obj (LSymbol s), map (translate obj literals m) args)) messages, rest)" for rest
  proof (rule decodes_cascade_messages [OF 4(3) bs(3)])
    fix s args a b
    assume "(s, args) \<in> set messages" "a \<in> set args" "visit literals m a = Inr b" "length b \<le> length (concat mbs)"
    then show "decodes (nextExpression f slots) b (translate obj literals m a)"
      using 4(2) [of "(s, args)" s args a b f] 4(3,5) f by (fastforce simp: list_all_iff)
  qed (use 4(5) in simp)
  then show ?case
    using 4(5) decodes_at [OF r] by (simp add: decodes_def bs f countable_int64)
next
  case (5 literals m assignees expression)
  obtain abs eb where bs: "bs = nextPut 108 @ nextIntegerPut (int (length assignees)) @ concat abs @ eb"
    "map (visitIdentifier literals) assignees = map Inr abs" "visit literals m expression = Inr eb"
    using 5(3) by (auto simp: put_all_eq_Inr bind_result_eq_Inr map_eq_append_conv append_eq_map_conv)
  obtain f where f: "fuel = Suc f" "length eb \<le> f" "f \<noteq> 0"
    using 5(5) bs(1) by (cases fuel; cases "fuel - 1") auto
  have e: "decodes (nextExpression f slots) eb (translate obj literals m expression)"
    using 5(1) [OF 5(2) bs(3)] 5(4) f by simp
  have "list_all2 (decodes (nextExpression f slots)) abs (map (\<lambda>a. SIdentifier (tr_ident obj a)) assignees)"
    using decodes_identifiers [OF 5(2) bs(2), of "f - 1"] 5(4) f(3) by simp
  then have "nextExpressions f (length assignees) slots (concat abs @ rest) =
      Inr (map (\<lambda>a. SIdentifier (tr_ident obj a)) assignees, rest)" for rest
    using decodes_expressions list_all2_lengthD by (metis length_map)
  then show ?case
    using 5(4) decodes_at [OF e] by (simp add: decodes_def bs f(1) countable_int64 comp_def)
next
  case (6 literals m expression)
  obtain eb where bs: "bs = nextPut 109 @ nextBooleanPut m @ eb" "visit literals m expression = Inr eb"
    using 6(3) by (auto simp: put_all_eq_Inr bind_result_eq_Inr)
  obtain f where f: "fuel = Suc f" "length eb \<le> f"
    using 6(5) bs(1) by (cases fuel) auto
  show ?case
    using 6(1) [OF 6(2) bs(2)] 6(4) f by (simp add: decodes_def bs)
next
  case (7 literals m inlined index scope args statements)
  obtain sbs where sbs: "map (visit literals (inlined \<and> m)) statements = map Inr sbs"
    using 7(3) by (auto simp: put_all_eq_Inr bind_result_eq_Inr)
  obtain hb where bs: "bs = nextPut 102 @ nextBooleanPut inlined @ hb @ nextIntegerPut (int (length statements)) @ concat sbs"
    "(if inlined then Inr (nextPutAll (inlined_arg_indices args))
      else bind_result (compiledBlockIndexOf literals index) (\<lambda>i.
        Inr (nextPut (int i) @ nextPutAll (encodeClosureElements scope)))) = Inr hb"
    using 7(3) sbs by (auto simp: put_all_eq_Inr bind_result_eq_Inr) 
  obtain f where f: "fuel = Suc f" "length (concat sbs) \<le> f"
    using 7(5) bs(1) by (cases fuel) auto
  have "list_all2 (decodes (nextExpression f slots)) sbs (map (translate obj literals (inlined \<and> m)) statements)"
  proof (rule visit_list_decodes [OF sbs])
    fix a b assume "a \<in> set statements" "b \<in> set sbs" "visit literals (inlined \<and> m) a = Inr b"
    then show "decodes (nextExpression f slots) b (translate obj literals (inlined \<and> m) a)"
      using 7(1) [of a b f] 7(2,4) f length_member_concat [of b sbs] by (auto simp: list_all_iff)
  qed
  then have stmts: "nextExpressions f (length statements) slots (concat sbs @ rest) =
      Inr (map (translate obj literals (inlined \<and> m)) statements, rest)" for rest
    using decodes_expressions list_all2_lengthD by (metis length_map)
  show ?case
  proof (cases inlined)
    case True
    have "length (inlined_arg_indices args) \<le> length args"
      by (simp add: inlined_arg_indices_def List.map_filter_def)
    then have "int64_range (int (length (inlined_arg_indices args)))"
      using 7(4) by (simp add: countable_list_def int64_range_def)
    then show ?thesis
      using True 7(4) stmts bs(2) by (auto simp: decodes_def bs(1) f(1) countable_int64 Let_def)
  next
    case False
    obtain i where i: "compiledBlockIndexOf literals index = Inr i" "hb = nextPut (int i) @ nextPutAll (encodeClosureElements scope)"
      using bs(2) False by (auto simp: bind_result_eq_Inr)
    obtain k where k: "k < length literals" "i = k + 1"
      using block_index_from_bounds [of 0 index literals i] i(1) by (auto simp: compiledBlockIndexOf_def)
    have "i \<le> 127"
      using 7(4) False i(1) by simp
    then have "nextInteger (nextPut (int i) @ rest) = Inr (int i, rest)" for rest
      using nextInteger_put [of "int i" rest] by (simp add: nextIntegerPut_def int64_range_def)
    then show ?thesis
      using False 7(4) stmts transferred_at [OF 7(2) k(1)] i k
      by (simp add: decodes_def bs(1) f(1) countable_int64 Let_def)
  qed
next
  case (8 literals m array elements)
  then show ?case
    using wf_brace_expanded by simp
qed

definition tr_pragma :: "oop \<Rightarrow> (literal_value \<Rightarrow> oop) \<Rightarrow> (pragma_type \<times> egg_string) option \<Rightarrow> oop option" where
  "tr_pragma nil obj p =
     (if pragma_isUsed p then Some (case p of Some (t, name) \<Rightarrow> (if name = [] then nil else obj (LSymbol name)) | None \<Rightarrow> nil)
      else None)"

definition wf_method :: "method_node \<Rightarrow> bool" where
  "wf_method m \<longleftrightarrow>
     (pragma_isUsed (mn_pragma m) \<or> length (mn_statements m) \<noteq> 110) \<and>
     countable_list (mn_statements m) \<and> list_all (wf_node (method_literals m)) (mn_statements m)"

lemma hd_nextIntegerPut:
  "0 \<le> v \<Longrightarrow> hd (nextIntegerPut v) = 110 \<longleftrightarrow> v = 110"
proof (cases "127 < v")
  case False
  assume "0 \<le> v"
  with False have "uint (word_of_int v :: byte) = v"
    by (simp add: uint_word_of_int take_bit_int_eq_self)
  then show ?thesis
    using False \<open>0 \<le> v\<close> by (auto simp: nextIntegerPut_def nextPut_def word_eq_iff_unsigned)
qed (simp add: nextIntegerPut_def nextBigIntegerPut_def nextPut_def)

lemma visit_method_bytes:
  assumes "visitMethod literals m = Inr bytes"
  shows "\<exists>ps sbs. bytes = [101] @ ps @ nextIntegerPut (int (length (mn_statements m))) @ concat sbs \<and>
    map (visit literals True) (mn_statements m) = map Inr sbs \<and>
    (if pragma_isUsed (mn_pragma m) then \<exists>t name xs. mn_pragma m = Some (t, name) \<and> ps = 110 # xs \<and>
       (if name = [] then xs = [0] else nextSymbolPut literals name = Inr xs)
     else ps = [])"
proof -
  obtain ps where ps: "(if pragma_isUsed (mn_pragma m) then
          put_all [Inr (nextPut 110),
            (case mn_pragma m of
               Some (t, name) \<Rightarrow> (if name \<noteq> [] then nextSymbolPut literals name else Inr (nextPut 0))
             | None \<Rightarrow> Inr [])]
        else Inr []) = Inr ps"
    using assms by (auto simp: visitMethod_def bind_result_eq_Inr)
  obtain sbs where "map (visit literals True) (mn_statements m) = map Inr sbs"
      "bytes = [101] @ ps @ nextIntegerPut (int (length (mn_statements m))) @ concat sbs"
    using assms unfolding visitMethod_def ps by (auto simp: bind_result_eq_Inr put_all_eq_Inr nextPut_def)
  moreover have "if pragma_isUsed (mn_pragma m) then \<exists>t name xs. mn_pragma m = Some (t, name) \<and> ps = 110 # xs \<and>
       (if name = [] then xs = [0] else nextSymbolPut literals name = Inr xs)
     else ps = []"
    using ps by (auto simp: bind_result_eq_Inr nextPut_def split: option.splits if_splits)
  ultimately show ?thesis by blast
qed

lemma decode_visit_method:
  assumes "transferred obj literals slots" "visitMethod literals m = Inr bytes"
    and wf: "pragma_isUsed (mn_pragma m) \<or> length (mn_statements m) \<noteq> 110"
      "countable_list (mn_statements m)" "list_all (wf_node literals) (mn_statements m)"
  shows "decodeMethod nil slots bytes =
    Inr \<lparr>sm_pragma = tr_pragma nil obj (mn_pragma m),
         sm_statements = map (translate obj literals True) (mn_statements m)\<rparr>"
proof -
  obtain ps sbs where b: "bytes = [101] @ ps @ nextIntegerPut (int (length (mn_statements m))) @ concat sbs"
    "map (visit literals True) (mn_statements m) = map Inr sbs"
    "if pragma_isUsed (mn_pragma m) then \<exists>t name xs. mn_pragma m = Some (t, name) \<and> ps = 110 # xs \<and>
       (if name = [] then xs = [0] else nextSymbolPut literals name = Inr xs)
     else ps = []"
    using visit_method_bytes [OF assms(2)] by blast
  have stmts: "nextExpressions (length (concat sbs) + 1) (length (mn_statements m)) slots (concat sbs) =
      Inr (map (translate obj literals True) (mn_statements m), [])"
  proof -
    have "list_all2 (decodes (nextExpression (length (concat sbs) + 1) slots)) sbs (map (translate obj literals True) (mn_statements m))"
    proof (rule visit_list_decodes [OF b(2)])
      fix n bs assume "n \<in> set (mn_statements m)" "bs \<in> set sbs" "visit literals True n = Inr bs"
      then show "decodes (nextExpression (length (concat sbs) + 1) slots) bs (translate obj literals True n)"
        using decodes_visit [OF assms(1)] wf(3) length_member_concat [of bs sbs] by (simp add: list_all_iff)
    qed
    then show ?thesis
      using decodes_expressions [of "length (concat sbs) + 1" slots sbs _ "[]"] list_all2_lengthD by fastforce
  qed
  have count: "nextInteger (nextIntegerPut (int (length (mn_statements m))) @ concat sbs) =
      Inr (int (length (mn_statements m)), concat sbs)"
    using wf(2) by (simp add: countable_int64)
  obtain c cs where c: "nextIntegerPut (int (length (mn_statements m))) = c # cs"
    by (cases "nextIntegerPut (int (length (mn_statements m)))") auto
  show ?thesis
  proof (cases "pragma_isUsed (mn_pragma m)")
    case True
    then obtain t name xs where p: "mn_pragma m = Some (t, name)" "ps = 110 # xs"
      "if name = [] then xs = [0] else nextSymbolPut literals name = Inr xs"
      using b(3) by auto
    have "nextSymbolOrNil nil slots (xs @ rest) = Inr (if name = [] then nil else obj (LSymbol name), rest)" for rest
    proof (cases "name = []")
      case True
      then show ?thesis
        using p(3) nextInteger_put [of 0 rest] by (simp add: nextSymbolOrNil_def nextIntegerPut_def nextPut_def int64_range_def)
    next
      case False
      then have sym: "nextSymbolPut literals name = Inr xs" using p(3) by simp
      then obtain k where k: "k < length literals" "indexOf literals (LSymbol name) = k + 1" "literals ! k = LSymbol name"
        using indexOf_bounds [of literals "LSymbol name"] by (auto simp: nextSymbolPut_def Let_def assert_that_def split: if_splits)
      then show ?thesis
        using sym False transferred_at [OF assms(1) k(1)] transferred_int64 [OF assms(1) k(1)]
        by (auto simp: nextSymbolPut_def nextSymbolOrNil_def)
    qed
    then show ?thesis
      using True stmts count by (simp add: b(1) p decodeMethod_def tr_pragma_def)
  next
    case False
    then have "c \<noteq> 110"
      using wf(1) hd_nextIntegerPut [of "int (length (mn_statements m))"] c by auto
    then show ?thesis
      using False b(3) stmts count by (simp add: b(1) c decodeMethod_def tr_pragma_def)
  qed
qed

section \<open>The pool of a method has what its encoder looks up\<close>

fun ident_covered :: "literal_value list \<Rightarrow> binding \<Rightarrow> bool" where
  "ident_covered literals (DynamicBinding n) \<longleftrightarrow> LSymbol n \<in> set literals"
| "ident_covered literals (NestedDynamicBinding ns) \<longleftrightarrow> LString (buildCompositeName ns) \<in> set literals"
| "ident_covered literals _ \<longleftrightarrow> True"

fun covered :: "literal_value list \<Rightarrow> node \<Rightarrow> bool" where
  "covered literals (IdentifierNode ident) \<longleftrightarrow> ident_covered literals (effective_binding ident)"
| "covered literals (LiteralNode lv) \<longleftrightarrow> True"
| "covered literals (MessageNode inlined receiver selector args) \<longleftrightarrow>
     LSymbol selector \<in> set literals \<and> covered literals receiver \<and> list_all (covered literals) args"
| "covered literals (CascadeNode receiver messages) \<longleftrightarrow>
     covered literals receiver \<and>
     list_all (\<lambda>(s, args). LSymbol s \<in> set literals \<and> list_all (covered literals) args) messages"
| "covered literals (AssignmentNode assignees expression) \<longleftrightarrow>
     list_all (\<lambda>a. ident_covered literals (effective_binding a)) assignees \<and> covered literals expression"
| "covered literals (ReturnNode expression) \<longleftrightarrow> covered literals expression"
| "covered literals (BlockNode inlined index scope args statements) \<longleftrightarrow>
     (inlined \<or> list_ex (is_block_literal index) literals) \<and> list_all (covered literals) statements"
| "covered literals (BraceNode array elements) \<longleftrightarrow>
     ident_covered literals (effective_binding (ascii ''Array'', array)) \<and>
     list_all (\<lambda>s. LSymbol (ascii s) \<in> set literals) [''Array'', ''new:'', ''at:put:'', ''yourself''] \<and>
     list_all (covered literals) elements"

lemma symbol_put: "LSymbol s \<in> set literals \<Longrightarrow> \<exists>bs. nextSymbolPut literals s = Inr bs"
  using index_from_eq_0 [of 0 "LSymbol s" literals] by (auto simp: nextSymbolPut_def indexOf_def Let_def)

lemma literal_put: "LString s \<in> set literals \<Longrightarrow> \<exists>bs. nextLiteralPut literals s = Inr bs"
  using index_from_eq_0 [of 0 "LString s" literals] by (auto simp: nextLiteralPut_def indexOf_def Let_def)

lemma block_index_total: "list_ex (is_block_literal index) ls \<Longrightarrow> \<exists>i. block_index_from k index ls = Inr i"
  by (induction ls arbitrary: k) auto

lemma put_all_total: "list_all (\<lambda>r. \<exists>bs. r = Inr bs) rs \<Longrightarrow> \<exists>bs. put_all rs = Inr bs"
  by (induction rs) (auto simp: bind_result_eq_Inr)

lemma visitIdentifier_eq:
  "visitIdentifier literals ident = put_all [Inr (nextPut 103), encodeUsing literals (effective_binding ident)]"
  by (auto simp: visitIdentifier_def effective_binding_def Let_def split: option.splits)

lemma visitIdentifier_total:
  assumes "ident_covered literals (effective_binding ident)"
  shows "\<exists>bs. visitIdentifier literals ident = Inr bs"
  unfolding visitIdentifier_eq
  using assms symbol_put literal_put
  by (intro put_all_total; cases "effective_binding ident")
    (auto intro!: put_all_total simp: encodeDynamicVar_def encodeNestedDynamicVar_def simp del: put_all.simps)

lemma covered_brace_messages:
  "LSymbol (ascii ''at:put:'') \<in> set literals \<Longrightarrow> LSymbol (ascii ''yourself'') \<in> set literals \<Longrightarrow>
   list_all (covered literals) es \<Longrightarrow>
   list_all (\<lambda>(s, args). LSymbol s \<in> set literals \<and> list_all (covered literals) args) (brace_messages i es)"
  by (induction i es rule: brace_messages.induct) simp_all

lemma effective_Array: "effective_binding (ascii ''Array'', None) = DynamicBinding (ascii ''Array'')"
  by (simp add: effective_binding_def)

lemma put_all_map_total:
  assumes "list_all (\<lambda>r. \<exists>bs. r = Inr bs) rs" "\<And>x. x \<in> set xs \<Longrightarrow> \<exists>bs. f x = Inr bs"
  shows "\<exists>bs. put_all (rs @ map f xs) = Inr bs"
  by (rule put_all_total) (use assms in \<open>auto simp: list_all_iff\<close>)

lemma visit_total: "covered literals n \<Longrightarrow> \<exists>bs. visit literals m n = Inr bs"
proof (induction literals m n rule: visit.induct)
  case (1 literals m ident)
  then show ?case by (simp add: visitIdentifier_total)
next
  case (3 literals m inlined receiver selector args)
  show ?case unfolding visit.simps
    by (rule put_all_map_total) (use 3 in \<open>simp_all add: symbol_put list_all_iff\<close>)
next
  case (4 literals m receiver messages)
  show ?case unfolding visit.simps
  proof (rule put_all_map_total)
    fix msg assume msg: "msg \<in> set messages"
    obtain s args where sa: "msg = (s, args)" by fastforce
    have "\<exists>bs. put_all ([nextSymbolPut literals s, Inr (nextIntegerPut (int (length args)))]
        @ map (visit literals m) args) = Inr bs"
      by (rule put_all_map_total) (use 4 msg sa in \<open>fastforce simp: symbol_put list_all_iff\<close>)+
    then show "\<exists>bs. (\<lambda>(selector, args). put_all ([nextSymbolPut literals selector,
             Inr (nextIntegerPut (int (length args)))] @ map (visit literals m) args)) msg = Inr bs"
      by (simp add: sa)
  qed (use 4 in simp)
next
  case (5 literals m assignees expression)
  have "\<exists>bs. put_all (([Inr (nextPut 108), Inr (nextIntegerPut (int (length assignees)))]
       @ map (visitIdentifier literals) assignees) @ [visit literals m expression]) = Inr bs"
    by (rule put_all_total) (use 5 visitIdentifier_total in \<open>auto simp: list_all_iff\<close>)
  then show ?case by simp
next
  case (6 literals m expression)
  show ?case unfolding visit.simps
    by (rule put_all_total) (use 6 in simp)
next
  case (7 literals m inlined index scope args statements)
  show ?case unfolding visit.simps
    by (rule put_all_map_total)
      (use 7 block_index_total [of index literals 0] in \<open>auto simp: list_all_iff compiledBlockIndexOf_def\<close>)
next
  case (8 literals m array elements)
  then show ?case
    by (simp add: brace_expanded_def covered_brace_messages effective_Array)
qed simp

text \<open>\<open>addUnique\<close> keeps what is there, and a symbol or a block, once offered, is there.\<close>

lemma addUnique_fold_mono: "set acc \<subseteq> set (foldl addUnique acc ls)"
proof (induction ls arbitrary: acc)
  case (Cons l ls)
  have "set acc \<subseteq> set (addUnique acc l)"
    by (auto simp: addUnique_def)
  then show ?case
    using Cons [of "addUnique acc l"] by simp
qed simp

lemma addUnique_fold_member:
  "l \<in> set ls \<Longrightarrow> \<exists>x \<in> set (foldl addUnique acc ls). x = l \<or> lit_eq x l"
proof (induction ls arbitrary: acc)
  case (Cons k ls)
  have "\<exists>x \<in> set (addUnique acc k). x = k \<or> lit_eq x k"
    by (auto simp: addUnique_def list_ex_iff)
  then show ?case
    using Cons addUnique_fold_mono [of "addUnique acc k" ls] by (cases "l = k") (auto simp: subset_iff)
qed simp

text \<open>What the semantic pass and the parser guarantee: every identifier has a binding, which is not
  a nested dynamic variable, and no selector is empty.\<close>

fun resolved_binding :: "binding option \<Rightarrow> bool" where
  "resolved_binding None = False"
| "resolved_binding (Some (NestedDynamicBinding ns)) = False"
| "resolved_binding (Some b) = True"

text \<open>The binding of the identifier \<open>Array\<close> in the expansion of a brace.\<close>

fun array_binding :: "binding option \<Rightarrow> bool" where
  "array_binding (Some (NestedDynamicBinding ns)) = False"
| "array_binding (Some (DynamicBinding n)) = (n = ascii ''Array'')"
| "array_binding _ = True"

fun resolved :: "node \<Rightarrow> bool" where
  "resolved (IdentifierNode ident) \<longleftrightarrow> resolved_binding (snd ident)"
| "resolved (LiteralNode lv) \<longleftrightarrow> True"
| "resolved (MessageNode inlined receiver selector args) \<longleftrightarrow>
     selector \<noteq> [] \<and> resolved receiver \<and> list_all resolved args"
| "resolved (CascadeNode receiver messages) \<longleftrightarrow>
     resolved receiver \<and> list_all (\<lambda>(s, args). s \<noteq> [] \<and> list_all resolved args) messages"
| "resolved (AssignmentNode assignees expression) \<longleftrightarrow>
     list_all (\<lambda>a. resolved_binding (snd a)) assignees \<and> resolved expression"
| "resolved (ReturnNode expression) \<longleftrightarrow> resolved expression"
| "resolved (BlockNode inlined index scope args statements) \<longleftrightarrow> list_all resolved statements"
| "resolved (BraceNode array elements) \<longleftrightarrow> array_binding array \<and> list_all resolved elements"

text \<open>The literals offered for a node are in the pool, up to the equality of literals.\<close>

definition offered :: "literal_value list \<Rightarrow> literal_value list \<Rightarrow> bool" where
  "offered ls literals \<longleftrightarrow> (\<forall>l\<in>set ls. \<exists>x\<in>set literals. x = l \<or> lit_eq x l)"

lemma offered_append [simp]: "offered (xs @ ys) literals \<longleftrightarrow> offered xs literals \<and> offered ys literals"
  by (auto simp: offered_def)

lemma offered_Nil [simp]: "offered [] literals"
  by (simp add: offered_def)

lemma offered_Cons: "offered (x # xs) literals \<longleftrightarrow> offered [x] literals \<and> offered xs literals"
  by (simp add: offered_def)

lemma offered_concat: "offered (concat xss) literals \<longleftrightarrow> (\<forall>xs\<in>set xss. offered xs literals)"
  by (auto simp: offered_def)

lemma offered_symbol [simp]: "offered [LSymbol s] literals \<longleftrightarrow> LSymbol s \<in> set literals"
  by (auto simp: offered_def)

lemma offered_symbol_Cons [simp]:
  "offered (LSymbol s # xs) literals \<longleftrightarrow> LSymbol s \<in> set literals \<and> offered xs literals"
  by (subst offered_Cons) simp

lemma offered_block: "offered [block_literal index scope args] literals \<Longrightarrow> list_ex (is_block_literal index) literals"
proof -
  assume "offered [block_literal index scope args] literals"
  then obtain x where x: "x \<in> set literals" "x = block_literal index scope args \<or> lit_eq x (block_literal index scope args)"
    by (auto simp: offered_def)
  have "is_block_literal index x"
    using x(2) by (cases x) (auto simp: block_literal_def)
  with x(1) show ?thesis by (auto simp: list_ex_iff)
qed

lemma covered_ident:
  "resolved_binding (snd ident) \<Longrightarrow> offered (pooled_identifier ident) literals \<Longrightarrow>
     ident_covered literals (effective_binding ident)"
  by (cases "snd ident" rule: resolved_binding.cases)
    (simp_all add: pooled_identifier_def effective_binding_def)

lemma covered_array:
  "array_binding array \<Longrightarrow> LSymbol (ascii ''Array'') \<in> set literals \<Longrightarrow>
     ident_covered literals (effective_binding (ascii ''Array'', array))"
  by (cases array rule: array_binding.cases) (simp_all add: effective_Array, simp_all add: effective_binding_def)

lemma covered_if_offered:
  "resolved n \<Longrightarrow> offered (node_literals n) literals \<Longrightarrow> covered literals n"
proof (induction n rule: node_literals.induct)
  case (1 ident)
  then show ?case by (simp add: covered_ident)
next
  case (3 inlined receiver selector args)
  then show ?case by (auto simp: pooled_selector_def offered_concat list_all_iff)
next
  case (4 receiver messages)
  have "LSymbol s \<in> set literals \<and> list_all (covered literals) args" if "(s, args) \<in> set messages" for s args
    using 4 that by (force simp: pooled_selector_def offered_concat list_all_iff)
  with 4 show ?case by (auto simp: list_all_iff)
next
  case (5 assignees expression)
  then show ?case by (auto simp: offered_concat list_all_iff covered_ident)
next
  case (7 inlined index scope args statements)
  then show ?case
    by (cases inlined) (auto simp: offered_concat list_all_iff dest: offered_block
        simp del: append.simps)
next
  case (8 array elements)
  then show ?case
    by (auto simp: offered_concat list_all_iff covered_array)
qed simp_all

lemma method_literals_offered:
  "l \<in> set (pragma_literals (mn_pragma m) @ concat (map node_literals (mn_statements m))) \<Longrightarrow> offered [l] (method_literals m)"
  using addUnique_fold_member [of l _ "[]"] by (auto simp: offered_def method_literals_def simp del: foldl_append)

lemma method_covered:
  assumes "list_all resolved (mn_statements m)"
  shows "list_all (covered (method_literals m)) (mn_statements m)"
proof -
  have "offered (node_literals n) (method_literals m)" if "n \<in> set (mn_statements m)" for n
    using that method_literals_offered [of _ m] by (fastforce simp: offered_def)
  then show ?thesis
    using assms covered_if_offered by (auto simp: list_all_iff)
qed

lemma encodeMethod_total:
  assumes "list_all resolved (mn_statements m)"
  shows "\<exists>bytes. encodeMethod m = Inr bytes"
proof -
  have p: "\<exists>bs. (if pragma_isUsed (mn_pragma m) then put_all [Inr (nextPut 110),
            (case mn_pragma m of
               Some (t, name) \<Rightarrow> (if name \<noteq> [] then nextSymbolPut (method_literals m) name else Inr (nextPut 0))
             | None \<Rightarrow> Inr [])]
        else Inr []) = Inr bs"
  proof (cases "mn_pragma m")
    case (Some p)
    obtain t name where tn: "p = (t, name)" by fastforce
    have "LSymbol name \<in> set (method_literals m)" if "name \<noteq> []" "t \<noteq> NoPragma"
      using method_literals_offered [of "LSymbol name" m] that by (simp add: pragma_literals_def Some tn)
    then show ?thesis
      using symbol_put [of name "method_literals m"] by (auto simp: Some tn bind_result_eq_Inr)
  qed simp
  show ?thesis
    unfolding encodeMethod_def visitMethod_def
    by (rule put_all_map_total) (use p method_covered [OF assms] visit_total in \<open>auto simp: list_all_iff\<close>)
qed

section \<open>Properties\<close>

text \<open>
  C3: The treecode of a method whose identifiers are bound (none to a nested dynamic variable) and
  whose numbers fit their encodings is produced without a fault, and the evaluator decodes it, from
  the slots the literal pool was transferred to, into exactly the tree the compiler had, pragma
  included.
\<close>

theorem treecode_round_trip:
  assumes "list_all resolved (mn_statements m)" "wf_method m" "transferred obj (method_literals m) slots"
  shows "\<exists>bytes. encodeMethod m = Inr bytes \<and>
    decodeMethod nil slots bytes =
      Inr \<lparr>sm_pragma = tr_pragma nil obj (mn_pragma m),
           sm_statements = map (translate obj (method_literals m) True) (mn_statements m)\<rparr>"
  using encodeMethod_total [OF assms(1)] assms(2) decode_visit_method [OF assms(3)]
  unfolding encodeMethod_def wf_method_def by blast

definition sample_method :: method_node where
  "sample_method =
     \<lparr>mn_selector = ascii ''foo'', mn_pragma = None, mn_arguments = [],
      mn_statements =
        [ReturnNode (MessageNode False (IdentifierNode (ascii ''self'', Some SelfBinding)) (ascii ''+'')
          [LiteralNode (LInteger (-300))])]\<rparr>"

lemma treecode_round_trip_witness:
  "\<exists>bytes. encodeMethod sample_method = Inr bytes \<and>
     decodeMethod 0 (replicate 7 2) bytes =
       Inr \<lparr>sm_pragma = None, sm_statements =
         [SReturn True (SMessage (SIdentifier SSelfBinding) 2 [SLiteral 0 (smi_tag (-300))] False)]\<rparr>"
proof -
  have lits: "method_literals sample_method = [LSymbol (ascii ''+'')]"
    by (simp add: sample_method_def method_literals_def pragma_literals_def pooled_selector_def
        pooled_identifier_def pooled_literal_def addUnique_def) (simp add: ascii_def)
  have "list_all resolved (mn_statements sample_method)"
    by (simp add: sample_method_def) (simp add: ascii_def)
  moreover have "wf_method sample_method"
    unfolding wf_method_def lits
    by (simp add: sample_method_def countable_list_def wf_ident_def effective_binding_def
        wf_literal_def smi_range_eq)
  moreover have "transferred (\<lambda>l. 2) (method_literals sample_method) (replicate 7 2)"
    by (simp add: transferred_def lits)
  ultimately show ?thesis
    using treecode_round_trip [of sample_method "\<lambda>l. 2" "replicate 7 2" 0]
    unfolding lits
    by (simp add: sample_method_def tr_pragma_def tr_ident_def effective_binding_def tr_literal_def indexOf_def
        ascii_def)
qed

text \<open>
  A nested dynamic variable (\<open>A.B\<close>) cannot be encoded: the pool holds its name as a symbol,
  the encoder looks for a string, and the assertion on the index fails.
\<close>

theorem nested_variable_assertion:
  "encodeMethod \<lparr>mn_selector = selector, mn_pragma = None, mn_arguments = args,
     mn_statements = [ReturnNode (IdentifierNode (name, Some (NestedDynamicBinding names)))]\<rparr>
   = Inl AssertionFailed"
  by (simp add: encodeMethod_def visitMethod_def method_literals_def pragma_literals_def pooled_identifier_def
      addUnique_def visitIdentifier_def encodeNestedDynamicVar_def nextLiteralPut_def indexOf_def)

text \<open>
  C25: A method without a pragma and with exactly 110 statements is misread: its statement count is
  the byte of the pragma marker, so the decoder never gives back a method without a pragma.
\<close>

theorem pragma_marker_confusion:
  assumes "encodeMethod m = Inr bytes" "\<not> pragma_isUsed (mn_pragma m)" "length (mn_statements m) = 110"
  shows "\<nexists>d. decodeMethod nil slots bytes = Inr d \<and> sm_pragma d = None"
proof -
  obtain rest where "bytes = [101] @ nextIntegerPut 110 @ rest"
    using visit_method_bytes [OF assms(1) [unfolded encodeMethod_def]] assms(2,3) by auto
  then have "bytes = 101 # 110 # rest"
    by (simp add: nextIntegerPut_def nextPut_def)
  then show ?thesis
    by (auto simp: decodeMethod_def bind_result_eq_Inr)
qed

definition long_method :: method_node where
  "long_method = \<lparr>mn_selector = ascii ''foo'', mn_pragma = None, mn_arguments = [],
     mn_statements = replicate 110 (IdentifierNode (ascii ''self'', Some SelfBinding))\<rparr>"

lemma pragma_marker_confusion_witness:
  "\<exists>bytes. encodeMethod long_method = Inr bytes \<and>
     \<not> (\<exists>d. decodeMethod 0 (replicate 6 2) bytes = Inr d \<and> sm_pragma d = None)"
proof -
  have "list_all resolved (mn_statements long_method)"
    by (simp add: long_method_def list_all_iff)
  then obtain bytes where "encodeMethod long_method = Inr bytes"
    using encodeMethod_total by blast
  then show ?thesis
    using pragma_marker_confusion [of long_method bytes 0 "replicate 6 2"] by (simp add: long_method_def)
qed

lemma uint_byte: "0 \<le> x \<Longrightarrow> x < 256 \<Longrightarrow> uint (word_of_int x :: byte) = x"
  by (simp add: uint_word_of_int)

text \<open>
  The position of a compiled block in the pool is written as one raw byte and read back as an
  integer of the variable-length format: a position from 129 to 255 comes back 256 too small, and
  up to 250 the slot computed from it lies outside the method, so the decoder's assertion fails.
\<close>

theorem block_position_misread:
  assumes "128 < i" "i < 256" "length slots < 2 ^ 31"
  shows "nextInteger (nextPut i @ rest) = Inr (i - 256, rest) \<and>
    (i \<le> 250 \<longrightarrow> literalAt slots (i - 256) = Inl AssertionFailed)"
proof -
  have u: "uint (word_of_int i :: byte) = i"
    using assms uint_byte by simp
  then have "(word_of_int i :: byte) \<noteq> 128" "\<not> (word_of_int i :: byte) \<le> 127"
    using assms by (auto simp: word_le_def word_eq_iff_unsigned)
  then have "nextInteger (nextPut i @ rest) = Inr (i - 256, rest)"
    using u by (simp add: nextInteger_def)
  moreover have "literalAt slots (i - 256) = Inl AssertionFailed" if "i \<le> 250"
  proof -
    have "(method_inst_size + (i - 256) - 1) mod 2 ^ 32 = 2 ^ 32 + (i - 251)"
    proof -
      have "(method_inst_size + (i - 256) - 1) mod 2 ^ 32 = (2 ^ 32 + (i - 251)) mod 2 ^ 32"
        by (simp only: mod_add_self1) (simp add: method_inst_size_def)
      then show ?thesis
        using assms that by (simp add: mod_pos_pos_trivial del: mod_add_self1)
    qed
    then show ?thesis using assms by (simp add: literalAt_def)
  qed
  ultimately show ?thesis by blast
qed

lemma block_position_misread_witness:
  "nextInteger (nextPut 200 @ [0]) = Inr (-56, [0]) \<and> literalAt (replicate 300 0) (-56) = Inl AssertionFailed"
  using block_position_misread [of 200 "replicate 300 0" "[0]"] by simp

end
