(* ===== verification/Linearizer.thy ===== *)
theory Linearizer
  imports SExpressions CompiledMethod
begin

text \<open>
  The linearizer (\<open>SExpressionLinearizer.cpp\<close>) turns the tree of a method or block into the list of
  operations the evaluator runs, inlining the control-flow messages the compiler marked.  The state
  of the linearizer is explicit; jumps are emitted with a target of 0 and patched.  Where the source
  casts an argument to a block without a test, indexes an argument that is not there, or takes the
  first inlined argument of a block that has none, the model is undefined behaviour.
\<close>

section \<open>Operations\<close>

text \<open>
  A dispatch has the selector, the number of arguments and whether the receiver of the message is
  \<open>super\<close>.  Identifiers, literals and blocks of the tree are operations themselves.
\<close>

datatype op =
    OpIdentifier sbinding
  | OpLiteral oop
  | OpBlock "oop option" "byte list"
  | OpAssign "sbinding option list"
  | OpJump nat
  | OpJumpTrue nat
  | OpJumpFalse nat
  | OpDispatchMessage oop nat bool
  | OpDropToS nat
  | OpLoadRfromFrame int
  | OpLoadRfromStack nat
  | OpLoadRwithNil
  | OpLoadRwithSelf
  | OpStoreRintoFrame int
  | OpPrimitive oop
  | OpPopR
  | OpPushR
  | OpReturn
  | OpNonLocalReturn

section \<open>State\<close>

text \<open>
  What \<open>runtime_\<close> gives the linearizer: the symbols it compares selectors with, \<open>nil\<close>, the small
  integer 1, and access to the runtime for the characters of a selector, the temporaries of a
  compiled block and the primitives by name.
\<close>

record lin_env =
  le_nil :: oop
  le_one :: oop
  le_plus :: oop
  le_greaterThan :: oop
  le_equalsEquals :: oop
  le_not :: oop
  le_ifTrue :: oop
  le_ifFalse :: oop
  le_ifTrueIfFalse :: oop
  le_ifFalseIfTrue :: oop
  le_ifNil :: oop
  le_ifNotNil :: oop
  le_ifNilIfNotNil :: oop
  le_ifNotNilIfNil :: oop
  le_repeat :: oop
  le_whileTrue :: oop
  le_whileFalse :: oop
  le_whileTrueColon :: oop
  le_whileFalseColon :: oop
  le_timesRepeat :: oop
  le_toDo :: oop
  le_toByDo :: oop
  le_andNot :: oop
  le_orNot :: oop
  le_selectorString :: "oop \<Rightarrow> string"
  le_blockTemps :: "oop \<Rightarrow> int"
  le_primitives :: "oop \<Rightarrow> oop option"

text \<open>\<open>codes\<close> collects the executable codes put into compiled blocks, in order.\<close>

record linearizer =
  operations :: "op list"
  stackTop :: int
  inBlock :: bool
  codes :: "(oop \<times> op list) list"

definition emit :: "op \<Rightarrow> linearizer \<Rightarrow> linearizer" where
  "emit x s = s\<lparr>operations := operations s @ [x]\<rparr>"

definition currentPC :: "linearizer \<Rightarrow> nat" where
  "currentPC s = length (operations s)"

text \<open>A branch is known by its position, where it is patched.\<close>

definition branchIf :: "bool \<Rightarrow> linearizer \<Rightarrow> linearizer" where
  "branchIf b s = emit (if b then OpJumpTrue 0 else OpJumpFalse 0) s"

definition jump :: "linearizer \<Rightarrow> linearizer" where
  "jump s = emit (OpJump 0) s"

definition jumpTo :: "nat \<Rightarrow> linearizer \<Rightarrow> linearizer" where
  "jumpTo t s = emit (OpJump t) s"

fun with_target :: "nat \<Rightarrow> op \<Rightarrow> op" where
  "with_target t (OpJump u) = OpJump t"
| "with_target t (OpJumpTrue u) = OpJumpTrue t"
| "with_target t (OpJumpFalse u) = OpJumpFalse t"
| "with_target t x = x"

definition set_target :: "nat \<Rightarrow> nat \<Rightarrow> linearizer \<Rightarrow> linearizer" where
  "set_target branch t s = s\<lparr>operations := (operations s)[branch := with_target t (operations s ! branch)]\<rparr>"

definition branchTargetOf :: "nat \<Rightarrow> linearizer \<Rightarrow> linearizer" where
  "branchTargetOf branch s = set_target branch (currentPC s) s"

definition pushR :: "linearizer \<Rightarrow> linearizer" where
  "pushR s = (emit OpPushR s)\<lparr>stackTop := stackTop s + 1\<rparr>"

definition popR :: "linearizer \<Rightarrow> linearizer" where
  "popR s = (emit OpPopR s)\<lparr>stackTop := stackTop s - 1\<rparr>"

definition dropToS :: "nat \<Rightarrow> linearizer \<Rightarrow> linearizer" where
  "dropToS n s = (emit (OpDropToS n) s)\<lparr>stackTop := stackTop s - int n\<rparr>"

text \<open>\<open>_dropsArguments\<close> is true from the constructor on and never cleared.\<close>

definition dispatch :: "oop \<Rightarrow> nat \<Rightarrow> bool \<Rightarrow> linearizer \<Rightarrow> linearizer" where
  "dispatch selector n super s = emit (OpDispatchMessage selector n super) s"

definition dropMessageArgs :: "nat \<Rightarrow> linearizer \<Rightarrow> linearizer" where
  "dropMessageArgs n s = (if n = 0 then s else dropToS (n + 1) s)"

definition dropCascadeMessageArgs :: "nat \<Rightarrow> linearizer \<Rightarrow> linearizer" where
  "dropCascadeMessageArgs n s = (if n = 0 then s else dropToS n s)"

text \<open>\<open>visitMessage\<close> on a message that the linearizer makes of a load and a literal or load.\<close>

definition send_made :: "op \<Rightarrow> oop \<Rightarrow> op \<Rightarrow> linearizer \<Rightarrow> linearizer" where
  "send_made receiver selector arg s =
     (let s = pushR (emit receiver s);
          s = pushR (emit arg s);
          s = emit (OpLoadRfromStack 1) s
      in dropMessageArgs 1 (dispatch selector 1 False s))"

fun isSuper :: "sexpr \<Rightarrow> bool" where
  "isSuper (SIdentifier SSuperBinding) = True"
| "isSuper _ = False"

section \<open>Selectors of inlined messages\<close>

definition starts_with :: "string \<Rightarrow> string \<Rightarrow> bool" where
  "starts_with p s = (take (length p) s = p)"

text \<open>The forms of inlined messages, told apart by selector in the order of
  \<open>visitInlinedMessage\<close>.\<close>

datatype inline_form =
    If bool | IfNil bool | IfNilIfNotNil bool | IfTrueIfFalse bool
  | UnitaryWhile bool | BinaryWhile bool | Repeat | ToDo | ToByDo | TimesRepeat
  | AndNot | OrNot | Or | And

definition inline_form_of :: "lin_env \<Rightarrow> oop \<Rightarrow> inline_form option" where
  "inline_form_of env s =
     (if s = le_ifTrue env then Some (If True)
      else if s = le_ifFalse env then Some (If False)
      else if s = le_ifNil env then Some (IfNil True)
      else if s = le_ifNotNil env then Some (IfNil False)
      else if s = le_ifNilIfNotNil env then Some (IfNilIfNotNil True)
      else if s = le_ifNotNilIfNil env then Some (IfNilIfNotNil False)
      else if s = le_ifTrueIfFalse env then Some (IfTrueIfFalse True)
      else if s = le_ifFalseIfTrue env then Some (IfTrueIfFalse False)
      else if s = le_whileTrue env then Some (UnitaryWhile True)
      else if s = le_whileFalse env then Some (UnitaryWhile False)
      else if s = le_whileTrueColon env then Some (BinaryWhile True)
      else if s = le_whileFalseColon env then Some (BinaryWhile False)
      else if s = le_repeat env then Some Repeat
      else if s = le_toDo env then Some ToDo
      else if s = le_toByDo env then Some ToByDo
      else if s = le_timesRepeat env then Some TimesRepeat
      else if s = le_andNot env then Some AndNot
      else if s = le_orNot env then Some OrNot
      else if starts_with ''or:'' (le_selectorString env s) then Some Or
      else if starts_with ''and:'' (le_selectorString env s) then Some And
      else None)"

fun inlinedArgs :: "sexpr \<Rightarrow> byte list" where
  "inlinedArgs (SBlock c i cv ia ss) = ia"
| "inlinedArgs _ = []"

definition storeRintoFrameAt :: "int \<Rightarrow> linearizer \<Rightarrow> linearizer" where
  "storeRintoFrameAt i s = emit (OpStoreRintoFrame i) s"

fun set_targets :: "nat list \<Rightarrow> linearizer \<Rightarrow> linearizer" where
  "set_targets [] s = s"
| "set_targets (b # bs) s = set_targets bs (branchTargetOf b s)"

section \<open>Inlined messages\<close>

text \<open>
  The parts of an inlined message as its inlining uses them: whether the part is a block, the frame
  indices of its inlined arguments, the visit of the part itself and the visit of its statements,
  which is undefined for a part that is no block and is cast to one.
\<close>

record part =
  p_block :: bool
  p_inlinedArgs :: "byte list"
  p_visit :: "linearizer \<Rightarrow> linearizer result"
  p_statements :: "linearizer \<Rightarrow> linearizer result"

definition store_inlined_arg :: "part \<Rightarrow> linearizer \<Rightarrow> linearizer" where
  "store_inlined_arg p s =
     (case p_inlinedArgs p of [i] \<Rightarrow> storeRintoFrameAt (uint i) s | _ \<Rightarrow> s)"

definition p_body :: "part \<Rightarrow> linearizer \<Rightarrow> linearizer result" where
  "p_body p = (if p_block p then p_statements p else p_visit p)"

definition part_at :: "part list \<Rightarrow> nat \<Rightarrow> part result" where
  "part_at ps i = (if i < length ps then Inr (ps ! i) else Inl Undefined)"

definition inline_if :: "part \<Rightarrow> part list \<Rightarrow> bool \<Rightarrow> linearizer \<Rightarrow> linearizer result" where
  "inline_if receiver args b s =
     bind_result (p_visit receiver s) (\<lambda>s.
     bind_result (part_at args 0) (\<lambda>script.
     let branch = currentPC s
     in bind_result (p_statements script (branchIf (\<not> b) s)) (\<lambda>s.
        let end = currentPC s;
            s = branchTargetOf branch (jump s)
        in Inr (branchTargetOf end (emit OpLoadRwithNil s)))))"

text \<open>The comparison with \<open>nil\<close> that both nil tests make of the object on top of the stack.\<close>

definition compare_with_nil :: "lin_env \<Rightarrow> linearizer \<Rightarrow> linearizer" where
  "compare_with_nil env s =
     send_made (OpLoadRfromStack 0) (le_equalsEquals env) (OpLiteral (le_nil env)) (pushR s)"

definition inline_ifNil :: "lin_env \<Rightarrow> part \<Rightarrow> part list \<Rightarrow> bool \<Rightarrow> linearizer \<Rightarrow> linearizer result" where
  "inline_ifNil env receiver args b s =
     bind_result (p_visit receiver s) (\<lambda>s.
     bind_result (part_at args 0) (\<lambda>arg.
     let s = compare_with_nil env (store_inlined_arg arg s);
         branch = currentPC s
     in bind_result (p_body arg (branchIf (\<not> b) s)) (\<lambda>s.
        let s = dropToS 1 s;
            end = currentPC s;
            s = branchTargetOf branch (jump s)
        in Inr (branchTargetOf end (popR s)))))"

definition inline_ifNilIfNotNil ::
    "lin_env \<Rightarrow> part \<Rightarrow> part list \<Rightarrow> bool \<Rightarrow> linearizer \<Rightarrow> linearizer result" where
  "inline_ifNilIfNotNil env receiver args b s =
     bind_result (p_visit receiver s) (\<lambda>s.
     bind_result (part_at args 0) (\<lambda>arg0.
     bind_result (part_at args 1) (\<lambda>arg1.
     let s = compare_with_nil env (store_inlined_arg (if b then arg1 else arg0) s);
         branch = currentPC s
     in bind_result (p_body arg0 (branchIf (\<not> b) s)) (\<lambda>s.
        let end = currentPC s;
            s = branchTargetOf branch (jump s)
        in bind_result (p_body arg1 s) (\<lambda>s.
           Inr (dropToS 1 (branchTargetOf end s)))))))"

definition inline_ifTrueIfFalse :: "part \<Rightarrow> part list \<Rightarrow> bool \<Rightarrow> linearizer \<Rightarrow> linearizer result" where
  "inline_ifTrueIfFalse receiver args b s =
     bind_result (p_visit receiver s) (\<lambda>s.
     bind_result (part_at args 0) (\<lambda>first.
     bind_result (part_at args 1) (\<lambda>second.
     let branch = currentPC s
     in bind_result (p_statements first (branchIf (\<not> b) s)) (\<lambda>s.
        let end = currentPC s;
            s = branchTargetOf branch (jump s)
        in bind_result (p_statements second s) (\<lambda>s.
           Inr (branchTargetOf end s))))))"

definition inline_unitaryWhile :: "part \<Rightarrow> bool \<Rightarrow> linearizer \<Rightarrow> linearizer result" where
  "inline_unitaryWhile receiver b s =
     (let start = currentPC s
      in bind_result (p_statements receiver s) (\<lambda>s.
         let branch = currentPC s
         in Inr (set_target branch start (branchIf b s))))"

definition inline_binaryWhile :: "part \<Rightarrow> part list \<Rightarrow> bool \<Rightarrow> linearizer \<Rightarrow> linearizer result" where
  "inline_binaryWhile receiver args b s =
     (let start = currentPC s
      in bind_result (p_statements receiver s) (\<lambda>s.
         bind_result (part_at args 0) (\<lambda>arg.
         let end = currentPC s
         in bind_result (p_statements arg (branchIf (\<not> b) s)) (\<lambda>s.
            Inr (branchTargetOf end (jumpTo start s))))))"

definition inlineRepeat :: "part \<Rightarrow> linearizer \<Rightarrow> linearizer result" where
  "inlineRepeat receiver s =
     (let start = currentPC s
      in bind_result (p_statements receiver s) (\<lambda>s. Inr (jumpTo start s)))"

text \<open>
  The loop that both counted iterations compile to, from the comparison of the index with the limit
  (the frame slot that is on top of the stack) to the jump back.
\<close>

definition counted_loop :: "lin_env \<Rightarrow> int \<Rightarrow> part \<Rightarrow> linearizer \<Rightarrow> linearizer result" where
  "counted_loop env index body s =
     (let limit = OpLoadRfromFrame (stackTop s);
          start = currentPC s;
          s = send_made (OpLoadRfromFrame index) (le_greaterThan env) limit s;
          end = currentPC s
      in bind_result (p_statements body (branchIf True s)) (\<lambda>s.
         let s = send_made (OpLoadRfromFrame index) (le_plus env) (OpLiteral (le_one env)) s;
             s = jumpTo start (storeRintoFrameAt index s)
         in Inr (branchTargetOf end s)))"

definition inlineToDo :: "lin_env \<Rightarrow> part \<Rightarrow> part list \<Rightarrow> linearizer \<Rightarrow> linearizer result" where
  "inlineToDo env receiver args s =
     bind_result (p_visit receiver s) (\<lambda>s.
     bind_result (part_at args 0) (\<lambda>limit.
     bind_result (part_at args 1) (\<lambda>block.
     (case p_inlinedArgs block of
        [] \<Rightarrow> Inl Undefined
      | i # _ \<Rightarrow>
          bind_result (p_visit limit (storeRintoFrameAt (uint i) s)) (\<lambda>s.
          bind_result (counted_loop env (uint i) block (pushR s)) (\<lambda>s.
          Inr (dropToS 1 s)))))))"

definition inlineTimesRepeat :: "lin_env \<Rightarrow> part \<Rightarrow> part list \<Rightarrow> linearizer \<Rightarrow> linearizer result" where
  "inlineTimesRepeat env receiver args s =
     (let s = pushR (emit (OpLiteral (le_one env)) s);
          index = stackTop s
      in bind_result (p_visit receiver s) (\<lambda>s.
         bind_result (part_at args 0) (\<lambda>block.
         bind_result (counted_loop env index block (pushR s)) (\<lambda>s.
         Inr (dropToS 2 s)))))"

definition inlineNot :: "lin_env \<Rightarrow> bool \<Rightarrow> part \<Rightarrow> part list \<Rightarrow> linearizer \<Rightarrow> linearizer result" where
  "inlineNot env b receiver args s =
     bind_result (p_visit receiver s) (\<lambda>s.
     bind_result (part_at args 0) (\<lambda>arg.
     let branch = currentPC s
     in bind_result (p_statements arg (branchIf b s)) (\<lambda>s.
        Inr (branchTargetOf branch (dispatch (le_not env) 0 False s)))))"

fun visitChain :: "bool \<Rightarrow> part list \<Rightarrow> nat list \<Rightarrow> linearizer \<Rightarrow> (nat list \<times> linearizer) result" where
  "visitChain b [] branches s = Inr (branches, s)"
| "visitChain b (p # ps) branches s =
     bind_result (p_statements p (branchIf b s)) (visitChain b ps (branches @ [currentPC s]))"

definition inlineChain :: "bool \<Rightarrow> part \<Rightarrow> part list \<Rightarrow> linearizer \<Rightarrow> linearizer result" where
  "inlineChain b receiver args s =
     bind_result (p_visit receiver s) (\<lambda>s.
     bind_result (visitChain b args [] s) (\<lambda>(branches, s). Inr (set_targets branches s)))"

definition visitInlinedMessage ::
    "lin_env \<Rightarrow> part \<Rightarrow> oop \<Rightarrow> part list \<Rightarrow> linearizer \<Rightarrow> linearizer result" where
  "visitInlinedMessage env receiver selector args s =
     (case inline_form_of env selector of
        None \<Rightarrow> Inl AssertionFailed
      | Some (If b) \<Rightarrow> inline_if receiver args b s
      | Some (IfNil b) \<Rightarrow> inline_ifNil env receiver args b s
      | Some (IfNilIfNotNil b) \<Rightarrow> inline_ifNilIfNotNil env receiver args b s
      | Some (IfTrueIfFalse b) \<Rightarrow> inline_ifTrueIfFalse receiver args b s
      | Some (UnitaryWhile b) \<Rightarrow> inline_unitaryWhile receiver b s
      | Some (BinaryWhile b) \<Rightarrow> inline_binaryWhile receiver args b s
      | Some Repeat \<Rightarrow> inlineRepeat receiver s
      | Some ToDo \<Rightarrow> inlineToDo env receiver args s
      | Some ToByDo \<Rightarrow> Inl (FatalError ''not yet implemented'')
      | Some TimesRepeat \<Rightarrow> inlineTimesRepeat env receiver args s
      | Some AndNot \<Rightarrow> inlineNot env False receiver args s
      | Some OrNot \<Rightarrow> inlineNot env True receiver args s
      | Some Or \<Rightarrow> inlineChain True receiver args s
      | Some And \<Rightarrow> inlineChain False receiver args s)"

section \<open>The visits\<close>

text \<open>The end of a block: \<open>nil\<close> is the value of a block without statements.\<close>

definition end_block :: "sexpr list \<Rightarrow> linearizer \<Rightarrow> linearizer" where
  "end_block ss s =
     (if ss = [] then emit OpReturn (emit OpLoadRwithNil s)
      else if \<not> isReturn (last ss) then emit OpReturn s else s)"

definition enter_block :: "lin_env \<Rightarrow> oop option \<Rightarrow> linearizer \<Rightarrow> linearizer" where
  "enter_block env code s =
     s\<lparr>stackTop := (case code of None \<Rightarrow> stackTop s | Some c \<Rightarrow> le_blockTemps env c),
       inBlock := True, operations := []\<rparr>"

definition leave_block :: "oop option \<Rightarrow> linearizer \<Rightarrow> linearizer \<Rightarrow> linearizer" where
  "leave_block code prev s =
     prev\<lparr>codes := codes s @ (case code of None \<Rightarrow> [] | Some c \<Rightarrow> [(c, operations s)])\<rparr>"

fun visit :: "lin_env \<Rightarrow> sexpr \<Rightarrow> linearizer \<Rightarrow> linearizer result"
and visitStatements :: "lin_env \<Rightarrow> sexpr list \<Rightarrow> linearizer \<Rightarrow> linearizer result"
and visitArguments :: "lin_env \<Rightarrow> sexpr list \<Rightarrow> linearizer \<Rightarrow> linearizer result"
and visitCascadeMessages :: "lin_env \<Rightarrow> bool \<Rightarrow> (oop \<times> sexpr list) list \<Rightarrow> linearizer \<Rightarrow> linearizer result"
and visitBody :: "lin_env \<Rightarrow> sexpr \<Rightarrow> linearizer \<Rightarrow> linearizer result"
where
  "visit env (SIdentifier b) s = Inr (emit (OpIdentifier b) s)"
| "visit env (SLiteral i v) s = Inr (emit (OpLiteral v) s)"
| "visit env (SAssignment assignees e) s =
     bind_result (visit env e s) (\<lambda>s. Inr (emit (OpAssign assignees) s))"
| "visit env (SReturn local e) s =
     bind_result (visit env e s) (\<lambda>s.
       Inr (emit (if local \<and> \<not> inBlock s then OpReturn else OpNonLocalReturn) s))"
| "visit env (SCascade receiver messages) s =
     bind_result (visit env receiver s) (\<lambda>s.
     bind_result (visitCascadeMessages env (isSuper receiver) messages (pushR s)) (\<lambda>s.
     Inr (dropToS 1 s)))"
| "visit env (SBlock code index captured args ss) s =
     (let s = emit (OpBlock code captured) s
      in bind_result (visitStatements env ss (enter_block env code s)) (\<lambda>t.
         Inr (leave_block code s (end_block ss t))))"
| "visit env (SMessage receiver selector args inlined) s =
     (if inlined then
        visitInlinedMessage env
          \<lparr>p_block = isBlock receiver, p_inlinedArgs = inlinedArgs receiver,
           p_visit = visit env receiver, p_statements = visitBody env receiver\<rparr>
          selector
          (map (\<lambda>a. \<lparr>p_block = isBlock a, p_inlinedArgs = inlinedArgs a,
                       p_visit = visit env a, p_statements = visitBody env a\<rparr>) args) s
      else
        bind_result (visit env receiver s) (\<lambda>s.
        bind_result (visitArguments env args (if args = [] then s else pushR s)) (\<lambda>s.
        Inr (dropMessageArgs (length args)
          (dispatch selector (length args) (isSuper receiver)
            (if args = [] then s else emit (OpLoadRfromStack (length args)) s))))))"
| "visitStatements env [] s = Inr s"
| "visitStatements env (e # es) s = bind_result (visit env e s) (visitStatements env es)"
| "visitArguments env [] s = Inr s"
| "visitArguments env (e # es) s = bind_result (visit env e s) (\<lambda>s. visitArguments env es (pushR s))"
| "visitCascadeMessages env super [] s = Inr s"
| "visitCascadeMessages env super ((selector, args) # ms) s =
     bind_result (visitArguments env args s) (\<lambda>s.
       visitCascadeMessages env super ms
         (dropCascadeMessageArgs (length args)
           (dispatch selector (length args) super (emit (OpLoadRfromStack (length args)) s))))"
| "visitBody env (SBlock c i cv ia ss) s = visitStatements env ss s"
| "visitBody env (SIdentifier _) s = Inl Undefined"
| "visitBody env (SLiteral _ _) s = Inl Undefined"
| "visitBody env (SAssignment _ _) s = Inl Undefined"
| "visitBody env (SReturn _ _) s = Inl Undefined"
| "visitBody env (SCascade _ _) s = Inl Undefined"
| "visitBody env (SMessage _ _ _ _) s = Inl Undefined"

definition part_of :: "lin_env \<Rightarrow> sexpr \<Rightarrow> part" where
  "part_of env e =
     \<lparr>p_block = isBlock e, p_inlinedArgs = inlinedArgs e, p_visit = visit env e,
      p_statements = visitBody env e\<rparr>"

text \<open>\<open>visitMethod\<close>: the primitive of a pragma and a return, then the statements; \<open>self\<close> is returned
  at the end.  The primitive of a foreign call is looked up under its own name, which is the
  argument.\<close>

definition linearize_method :: "lin_env \<Rightarrow> int \<Rightarrow> smethod \<Rightarrow> oop \<Rightarrow> linearizer result" where
  "linearize_method env temps m primitive_name =
     (let s = \<lparr>operations = [], stackTop = 0, inBlock = False, codes = []\<rparr>;
          s = (if sm_pragma m \<noteq> None then
                 (case le_primitives env primitive_name of
                    None \<Rightarrow> s
                  | Some p \<Rightarrow> emit OpReturn (emit (OpPrimitive p) s))
               else s);
          s = s\<lparr>stackTop := temps\<rparr>
      in bind_result (visitStatements env (sm_statements m) s) (\<lambda>s.
         Inr (if sm_statements m = [] \<or> \<not> isReturn (last (sm_statements m))
              then emit OpReturn (emit OpLoadRwithSelf s) else s)))"

end
