(* ===== verification/Machine.thy ===== *)
theory Machine
  imports Linearizer
begin

text \<open>
  The evaluator's operations (\<open>Evaluator.cpp\<close>) on one activation: the program counter, the register
  \<open>R\<close> and the slots of the frame, temporaries first and operands after them, as they lie below the
  frame pointer (\<open>EvaluationContext\<close> relates this list to the stack).  What lies outside the
  activation is a world of any type, reached through a record of the operations of the runtime that
  the evaluator calls: a send is the whole execution of the message, up to the return to this
  activation.
\<close>

section \<open>The runtime as an activation sees it\<close>

record 'w runtime =
  rt_nil :: oop
  rt_true :: oop
  rt_false :: oop
  rt_self :: oop
  rt_argument :: "int \<Rightarrow> 'w \<Rightarrow> oop result"
  rt_environment :: "'w \<Rightarrow> oop"
  rt_environmentAt :: "int \<Rightarrow> int \<Rightarrow> 'w \<Rightarrow> oop result"
  rt_environmentAtPut :: "int \<Rightarrow> int \<Rightarrow> oop \<Rightarrow> 'w \<Rightarrow> 'w result"
  rt_dynamicValue :: "bool \<Rightarrow> oop \<Rightarrow> 'w \<Rightarrow> oop result"
  rt_dynamicAssign :: "bool \<Rightarrow> oop \<Rightarrow> oop \<Rightarrow> 'w \<Rightarrow> 'w result"
  rt_environmentValue :: "int \<Rightarrow> 'w \<Rightarrow> oop result"
  rt_newClosure :: "oop option \<Rightarrow> oop list \<Rightarrow> 'w \<Rightarrow> (oop \<times> 'w) result"
  rt_send :: "oop \<Rightarrow> bool \<Rightarrow> oop \<Rightarrow> oop list \<Rightarrow> 'w \<Rightarrow> (oop \<times> 'w) result"
  rt_primitive :: "oop \<Rightarrow> oop \<Rightarrow> 'w \<Rightarrow> (oop \<times> bool \<times> 'w) result"

section \<open>The slots of a frame\<close>

text \<open>Slot 1 is the first temporary.  An access below it or past the operands is outside the frame.\<close>

definition frame_at :: "int \<Rightarrow> oop list \<Rightarrow> oop result" where
  "frame_at i f = (if 1 \<le> i \<and> nat i \<le> length f then Inr (f ! (nat i - 1)) else Inl Undefined)"

definition frame_at_put :: "int \<Rightarrow> oop \<Rightarrow> oop list \<Rightarrow> oop list result" where
  "frame_at_put i v f = (if 1 \<le> i \<and> nat i \<le> length f then Inr (f[nat i - 1 := v]) else Inl Undefined)"

text \<open>\<open>operandAt_\<close> counts from the top of the stack, from 0.\<close>

definition frame_operand_at :: "nat \<Rightarrow> oop list \<Rightarrow> oop result" where
  "frame_operand_at n f = (if n < length f then Inr (f ! (length f - 1 - n)) else Inl Undefined)"

definition frame_drop :: "nat \<Rightarrow> oop list \<Rightarrow> oop list result" where
  "frame_drop n f = (if n \<le> length f then Inr (take (length f - n) f) else Inl Undefined)"

definition frame_operands :: "nat \<Rightarrow> oop list \<Rightarrow> oop list result" where
  "frame_operands n f = (if n \<le> length f then Inr (drop (length f - n) f) else Inl Undefined)"

section \<open>Bindings\<close>

text \<open>
  \<open>valueWithin_\<close> and \<open>assign_within_\<close>.  Environment -2 is the stack and -1 holds the inlined
  arguments, which are stack temporaries too.  Assigning to a binding that is not a temporary or
  dynamic is the error of the superclass.
\<close>

fun valueWithin :: "'w runtime \<Rightarrow> sbinding \<Rightarrow> oop list \<Rightarrow> 'w \<Rightarrow> oop result" where
  "valueWithin rt SNilBinding f w = Inr (rt_nil rt)"
| "valueWithin rt STrueBinding f w = Inr (rt_true rt)"
| "valueWithin rt SFalseBinding f w = Inr (rt_false rt)"
| "valueWithin rt SSelfBinding f w = Inr (rt_self rt)"
| "valueWithin rt SSuperBinding f w = Inr (rt_self rt)"
| "valueWithin rt (SArgumentBinding i e) f w =
     (if e = -2 then rt_argument rt i w
      else if e = -1 then frame_at i f
      else rt_environmentAt rt e i w)"
| "valueWithin rt (STemporaryBinding i e) f w =
     (if e = -2 \<or> e = -1 then frame_at i f else rt_environmentAt rt e i w)"
| "valueWithin rt (SDynamicBinding name) f w = rt_dynamicValue rt False name w"
| "valueWithin rt (SNestedDynamicBinding name) f w = rt_dynamicValue rt True name w"

definition subclassResponsibility :: fault where
  "subclassResponsibility = FatalError ''Subclass must implement this method.''"

fun assign_within :: "'w runtime \<Rightarrow> sbinding \<Rightarrow> oop \<Rightarrow> oop list \<Rightarrow> 'w \<Rightarrow> (oop list \<times> 'w) result" where
  "assign_within rt (STemporaryBinding i e) v f w =
     (if e = -2 \<or> e = -1 then bind_result (frame_at_put i v f) (\<lambda>f. Inr (f, w))
      else bind_result (rt_environmentAtPut rt e i v w) (\<lambda>w. Inr (f, w)))"
| "assign_within rt (SDynamicBinding name) v f w =
     bind_result (rt_dynamicAssign rt False name v w) (\<lambda>w. Inr (f, w))"
| "assign_within rt (SNestedDynamicBinding name) v f w =
     bind_result (rt_dynamicAssign rt True name v w) (\<lambda>w. Inr (f, w))"
| "assign_within rt _ v f w = Inl subclassResponsibility"

text \<open>\<open>visitOpAssign\<close> stores \<open>R\<close> into every assignee, in order; a null assignee is dereferenced.\<close>

fun assign_all :: "'w runtime \<Rightarrow> sbinding option list \<Rightarrow> oop \<Rightarrow> oop list \<Rightarrow> 'w \<Rightarrow> (oop list \<times> 'w) result" where
  "assign_all rt [] v f w = Inr (f, w)"
| "assign_all rt (None # bs) v f w = Inl Undefined"
| "assign_all rt (Some b # bs) v f w =
     bind_result (assign_within rt b v f w) (\<lambda>(f, w). assign_all rt bs v f w)"

text \<open>
  \<open>captureClosure_\<close> reads the captured bytes: 0 captures \<open>self\<close>, 1 an argument, 2 the environment,
  3 a value of the environment and 4 an inlined argument, a slot of this frame; other bytes capture
  nothing but take a slot, which stays \<open>nil\<close>.
\<close>

fun captured_values :: "'w runtime \<Rightarrow> byte list \<Rightarrow> oop list \<Rightarrow> 'w \<Rightarrow> oop list result" where
  "captured_values rt [] f w = Inr []"
| "captured_values rt (c # cs) f w =
     (if c = 0 then bind_result (captured_values rt cs f w) (\<lambda>vs. Inr (rt_self rt # vs))
      else if c = 2 then bind_result (captured_values rt cs f w) (\<lambda>vs. Inr (rt_environment rt w # vs))
      else if c = 1 \<or> c = 3 \<or> c = 4 then
        (case cs of
           [] \<Rightarrow> Inl Undefined
         | j # cs' \<Rightarrow>
             bind_result (if c = 1 then rt_argument rt (uint j) w
                          else if c = 3 then rt_environmentValue rt (uint j) w
                          else frame_at (uint j) f) (\<lambda>v.
             bind_result (captured_values rt cs' f w) (\<lambda>vs. Inr (v # vs))))
      else bind_result (captured_values rt cs f w) (\<lambda>vs. Inr (rt_nil rt # vs)))"

definition captureClosure ::
    "'w runtime \<Rightarrow> oop option \<Rightarrow> byte list \<Rightarrow> oop list \<Rightarrow> 'w \<Rightarrow> (oop \<times> 'w) result" where
  "captureClosure rt code captured f w =
     bind_result (captured_values rt captured f w) (\<lambda>vs. rt_newClosure rt code vs w)"

section \<open>Steps\<close>

text \<open>
  An activation runs, has returned to its sender, has started a non-local return with its value, or
  has come to the end of the operations, where \<open>evaluate\<close> returns.
\<close>

datatype 'w mstate =
    Running nat oop "oop list" 'w
  | Returned oop "oop list" 'w
  | NonLocal oop "oop list" 'w
  | Finished oop "oop list" 'w

text \<open>One operation; \<open>pc\<close> is already past it.  A failing primitive skips the return after it.\<close>

fun perform :: "'w runtime \<Rightarrow> op \<Rightarrow> nat \<Rightarrow> oop \<Rightarrow> oop list \<Rightarrow> 'w \<Rightarrow> 'w mstate result" where
  "perform rt (OpIdentifier b) pc r f w =
     bind_result (valueWithin rt b f w) (\<lambda>v. Inr (Running pc v f w))"
| "perform rt (OpLiteral v) pc r f w = Inr (Running pc v f w)"
| "perform rt (OpBlock code captured) pc r f w =
     bind_result (captureClosure rt code captured f w) (\<lambda>(v, w). Inr (Running pc v f w))"
| "perform rt (OpAssign assignees) pc r f w =
     bind_result (assign_all rt assignees r f w) (\<lambda>(f, w). Inr (Running pc r f w))"
| "perform rt (OpJump t) pc r f w = Inr (Running t r f w)"
| "perform rt (OpJumpTrue t) pc r f w = Inr (Running (if r = rt_true rt then t else pc) r f w)"
| "perform rt (OpJumpFalse t) pc r f w = Inr (Running (if r = rt_false rt then t else pc) r f w)"
| "perform rt (OpDispatchMessage selector n super) pc r f w =
     bind_result (frame_operands n f) (\<lambda>args.
     bind_result (rt_send rt selector super r args w) (\<lambda>(v, w). Inr (Running pc v f w)))"
| "perform rt (OpDropToS n) pc r f w = bind_result (frame_drop n f) (\<lambda>f. Inr (Running pc r f w))"
| "perform rt (OpLoadRfromFrame i) pc r f w =
     bind_result (frame_at i f) (\<lambda>v. Inr (Running pc v f w))"
| "perform rt (OpLoadRfromStack n) pc r f w =
     bind_result (frame_operand_at n f) (\<lambda>v. Inr (Running pc v f w))"
| "perform rt OpLoadRwithNil pc r f w = Inr (Running pc (rt_nil rt) f w)"
| "perform rt OpLoadRwithSelf pc r f w = Inr (Running pc (rt_self rt) f w)"
| "perform rt (OpStoreRintoFrame i) pc r f w =
     bind_result (frame_at_put i r f) (\<lambda>f. Inr (Running pc r f w))"
| "perform rt (OpPrimitive p) pc r f w =
     bind_result (rt_primitive rt p r w) (\<lambda>(v, failed, w). Inr (Running (if failed then pc + 1 else pc) v f w))"
| "perform rt OpPopR pc r f w =
     bind_result (frame_operand_at 0 f) (\<lambda>v.
     bind_result (frame_drop 1 f) (\<lambda>f. Inr (Running pc v f w)))"
| "perform rt OpPushR pc r f w = Inr (Running pc r (f @ [r]) w)"
| "perform rt OpReturn pc r f w = Inr (Returned r f w)"
| "perform rt OpNonLocalReturn pc r f w = Inr (NonLocal r f w)"

fun step :: "'w runtime \<Rightarrow> op list \<Rightarrow> 'w mstate \<Rightarrow> 'w mstate result" where
  "step rt ops (Running pc r f w) =
     (if pc < length ops then perform rt (ops ! pc) (pc + 1) r f w else Inr (Finished r f w))"
| "step rt ops st = Inr st"

text \<open>\<open>evaluate\<close> steps until the activation ends.\<close>

inductive runs :: "'w runtime \<Rightarrow> op list \<Rightarrow> 'w mstate \<Rightarrow> 'w mstate \<Rightarrow> bool" where
  runs_refl [intro, simp]: "runs rt ops st st"
| runs_step: "step rt ops st = Inr st' \<Longrightarrow> runs rt ops st' st'' \<Longrightarrow> runs rt ops st st''"

lemma runs_trans: "runs rt ops a b \<Longrightarrow> runs rt ops b c \<Longrightarrow> runs rt ops a c"
  by (induction rule: runs.induct) (auto intro: runs_step)

fun run :: "nat \<Rightarrow> 'w runtime \<Rightarrow> op list \<Rightarrow> 'w mstate \<Rightarrow> 'w mstate result" where
  "run 0 rt ops st = Inr st"
| "run (Suc n) rt ops st = bind_result (step rt ops st) (run n rt ops)"

lemma run_runs: "run n rt ops st = Inr st' \<Longrightarrow> runs rt ops st st'"
  by (induction n arbitrary: st) (auto simp: bind_result_eq_Inr intro: runs_step)

section \<open>What a tree means\<close>

text \<open>
  The meaning of a tree without a stack of operands: an expression takes the value left in \<open>R\<close> by
  what came before (a statement list without statements keeps it), the temporaries and the world,
  and is done with a value, leaves the activation with a local or non-local return, gets stuck, or
  runs out of the fuel that bounds its loops.
\<close>

datatype ('a, 'w) outcome =
    Done 'a "oop list" 'w
  | Left bool oop "oop list" 'w
  | Stuck fault
  | OutOfFuel

fun bind_outcome ::
    "('a, 'w) outcome \<Rightarrow> ('a \<Rightarrow> oop list \<Rightarrow> 'w \<Rightarrow> ('b, 'w) outcome) \<Rightarrow> ('b, 'w) outcome" where
  "bind_outcome (Done v t w) k = k v t w"
| "bind_outcome (Left l v t w) k = Left l v t w"
| "bind_outcome (Stuck e) k = Stuck e"
| "bind_outcome OutOfFuel k = OutOfFuel"

type_synonym 'w meaning = "oop \<Rightarrow> oop list \<Rightarrow> 'w \<Rightarrow> (oop, 'w) outcome"

definition of_result :: "'a result \<Rightarrow> ('a \<Rightarrow> ('b, 'w) outcome) \<Rightarrow> ('b, 'w) outcome" where
  "of_result r k = (case r of Inl e \<Rightarrow> Stuck e | Inr v \<Rightarrow> k v)"

lemma of_result_simps [simp]: "of_result (Inl e) k = Stuck e" "of_result (Inr v) k = k v"
  by (simp_all add: of_result_def)

definition m_send :: "'w runtime \<Rightarrow> oop \<Rightarrow> bool \<Rightarrow> oop list \<Rightarrow> 'w meaning" where
  "m_send rt selector super args r t w =
     of_result (rt_send rt selector super r args w) (\<lambda>(v, w). Done v t w)"

definition m_store :: "int \<Rightarrow> 'w meaning" where
  "m_store i r t w = of_result (frame_at_put i r t) (\<lambda>t. Done r t w)"

definition jumps :: "'w runtime \<Rightarrow> bool \<Rightarrow> oop \<Rightarrow> bool" where
  "jumps rt b r = (r = (if b then rt_true rt else rt_false rt))"

record 'w meant =
  m_block :: bool
  m_inlinedArgs :: "byte list"
  m_visit :: "'w meaning"
  m_statements :: "'w meaning"

definition m_body :: "'w meant \<Rightarrow> 'w meaning" where
  "m_body p = (if m_block p then m_statements p else m_visit p)"

definition m_store_inlined_arg :: "'w meant \<Rightarrow> 'w meaning" where
  "m_store_inlined_arg p r t w =
     (case m_inlinedArgs p of [i] \<Rightarrow> m_store (uint i) r t w | _ \<Rightarrow> Done r t w)"

definition meant_at :: "'w meant list \<Rightarrow> nat \<Rightarrow> ('w meant \<Rightarrow> ('a, 'w) outcome) \<Rightarrow> ('a, 'w) outcome" where
  "meant_at ps i k = (if i < length ps then k (ps ! i) else Stuck Undefined)"

text \<open>\<open>ifTrue:\<close> and \<open>ifFalse:\<close> answer \<open>nil\<close> when the test fails.\<close>

definition m_if :: "'w runtime \<Rightarrow> 'w meant \<Rightarrow> 'w meant list \<Rightarrow> bool \<Rightarrow> 'w meaning" where
  "m_if rt receiver args b r t w =
     bind_outcome (m_visit receiver r t w) (\<lambda>r t w.
     meant_at args 0 (\<lambda>script.
     if jumps rt (\<not> b) r then Done (rt_nil rt) t w else m_statements script r t w))"

text \<open>\<open>ifNil:\<close> and \<open>ifNotNil:\<close> answer the receiver when the test fails.\<close>

definition m_ifNil :: "'w runtime \<Rightarrow> lin_env \<Rightarrow> 'w meant \<Rightarrow> 'w meant list \<Rightarrow> bool \<Rightarrow> 'w meaning" where
  "m_ifNil rt env receiver args b r t w =
     bind_outcome (m_visit receiver r t w) (\<lambda>r t w.
     meant_at args 0 (\<lambda>arg.
     bind_outcome (m_store_inlined_arg arg r t w) (\<lambda>r t w.
     bind_outcome (m_send rt (le_equalsEquals env) False [le_nil env] r t w) (\<lambda>c t w.
     if jumps rt (\<not> b) c then Done r t w else m_body arg c t w))))"

definition m_ifNilIfNotNil :: "'w runtime \<Rightarrow> lin_env \<Rightarrow> 'w meant \<Rightarrow> 'w meant list \<Rightarrow> bool \<Rightarrow> 'w meaning" where
  "m_ifNilIfNotNil rt env receiver args b r t w =
     bind_outcome (m_visit receiver r t w) (\<lambda>r t w.
     meant_at args 0 (\<lambda>arg0.
     meant_at args 1 (\<lambda>arg1.
     bind_outcome (m_store_inlined_arg (if b then arg1 else arg0) r t w) (\<lambda>r t w.
     bind_outcome (m_send rt (le_equalsEquals env) False [le_nil env] r t w) (\<lambda>c t w.
     if jumps rt (\<not> b) c then m_body arg1 c t w else m_body arg0 c t w)))))"

definition m_ifTrueIfFalse :: "'w runtime \<Rightarrow> 'w meant \<Rightarrow> 'w meant list \<Rightarrow> bool \<Rightarrow> 'w meaning" where
  "m_ifTrueIfFalse rt receiver args b r t w =
     bind_outcome (m_visit receiver r t w) (\<lambda>r t w.
     meant_at args 0 (\<lambda>first.
     meant_at args 1 (\<lambda>second.
     if jumps rt (\<not> b) r then m_statements second r t w else m_statements first r t w)))"

fun m_unitaryWhile :: "'w runtime \<Rightarrow> 'w meaning \<Rightarrow> bool \<Rightarrow> nat \<Rightarrow> 'w meaning" where
  "m_unitaryWhile rt body b 0 r t w = OutOfFuel"
| "m_unitaryWhile rt body b (Suc n) r t w =
     bind_outcome (body r t w) (\<lambda>r t w.
     if jumps rt b r then m_unitaryWhile rt body b n r t w else Done r t w)"

fun m_binaryWhile :: "'w runtime \<Rightarrow> 'w meaning \<Rightarrow> 'w meaning \<Rightarrow> bool \<Rightarrow> nat \<Rightarrow> 'w meaning" where
  "m_binaryWhile rt test body b 0 r t w = OutOfFuel"
| "m_binaryWhile rt test body b (Suc n) r t w =
     bind_outcome (test r t w) (\<lambda>r t w.
     if jumps rt (\<not> b) r then Done r t w
     else bind_outcome (body r t w) (m_binaryWhile rt test body b n))"

fun m_repeat :: "'w meaning \<Rightarrow> nat \<Rightarrow> 'w meaning" where
  "m_repeat body 0 r t w = OutOfFuel"
| "m_repeat body (Suc n) r t w = bind_outcome (body r t w) (m_repeat body n)"

text \<open>
  The index of \<open>to:do:\<close> lives in a temporary; the counter of \<open>timesRepeat:\<close> is out of reach of the
  program.  Both loops end with the result of the last comparison as their value.
\<close>

fun m_toDo :: "'w runtime \<Rightarrow> lin_env \<Rightarrow> int \<Rightarrow> oop \<Rightarrow> 'w meaning \<Rightarrow> nat \<Rightarrow> oop list \<Rightarrow> 'w \<Rightarrow> (oop, 'w) outcome" where
  "m_toDo rt env index limit body 0 t w = OutOfFuel"
| "m_toDo rt env index limit body (Suc n) t w =
     of_result (frame_at index t) (\<lambda>i.
     bind_outcome (m_send rt (le_greaterThan env) False [limit] i t w) (\<lambda>c t w.
     if jumps rt True c then Done c t w
     else bind_outcome (body c t w) (\<lambda>r t w.
          of_result (frame_at index t) (\<lambda>i.
          bind_outcome (m_send rt (le_plus env) False [le_one env] i t w) (\<lambda>i t w.
          bind_outcome (m_store index i t w) (\<lambda>r. m_toDo rt env index limit body n))))))"

fun m_timesRepeat :: "'w runtime \<Rightarrow> lin_env \<Rightarrow> oop \<Rightarrow> 'w meaning \<Rightarrow> nat \<Rightarrow> oop \<Rightarrow> oop list \<Rightarrow> 'w \<Rightarrow> (oop, 'w) outcome" where
  "m_timesRepeat rt env limit body 0 i t w = OutOfFuel"
| "m_timesRepeat rt env limit body (Suc n) i t w =
     bind_outcome (m_send rt (le_greaterThan env) False [limit] i t w) (\<lambda>c t w.
     if jumps rt True c then Done c t w
     else bind_outcome (body c t w) (\<lambda>r t w.
          bind_outcome (m_send rt (le_plus env) False [le_one env] i t w) (\<lambda>i t w.
          m_timesRepeat rt env limit body n i t w)))"

text \<open>\<open>andNot:\<close> and \<open>orNot:\<close> negate the argument when it is needed.\<close>

definition m_not :: "'w runtime \<Rightarrow> lin_env \<Rightarrow> bool \<Rightarrow> 'w meant \<Rightarrow> 'w meant list \<Rightarrow> 'w meaning" where
  "m_not rt env b receiver args r t w =
     bind_outcome (m_visit receiver r t w) (\<lambda>r t w.
     meant_at args 0 (\<lambda>arg.
     if jumps rt b r then Done r t w
     else bind_outcome (m_statements arg r t w) (m_send rt (le_not env) False [])))"

fun m_chain :: "'w runtime \<Rightarrow> bool \<Rightarrow> 'w meant list \<Rightarrow> 'w meaning" where
  "m_chain rt b [] r t w = Done r t w"
| "m_chain rt b (p # ps) r t w =
     (if jumps rt b r then Done r t w
      else bind_outcome (m_statements p r t w) (m_chain rt b ps))"

definition m_inlined ::
    "'w runtime \<Rightarrow> lin_env \<Rightarrow> nat \<Rightarrow> 'w meant \<Rightarrow> oop \<Rightarrow> 'w meant list \<Rightarrow> 'w meaning" where
  "m_inlined rt env n receiver selector args r t w =
     (case inline_form_of env selector of
        None \<Rightarrow> Stuck AssertionFailed
      | Some (If b) \<Rightarrow> m_if rt receiver args b r t w
      | Some (IfNil b) \<Rightarrow> m_ifNil rt env receiver args b r t w
      | Some (IfNilIfNotNil b) \<Rightarrow> m_ifNilIfNotNil rt env receiver args b r t w
      | Some (IfTrueIfFalse b) \<Rightarrow> m_ifTrueIfFalse rt receiver args b r t w
      | Some (UnitaryWhile b) \<Rightarrow> m_unitaryWhile rt (m_statements receiver) b n r t w
      | Some (BinaryWhile b) \<Rightarrow>
          meant_at args 0 (\<lambda>arg. m_binaryWhile rt (m_statements receiver) (m_statements arg) b n r t w)
      | Some Repeat \<Rightarrow> m_repeat (m_statements receiver) n r t w
      | Some ToDo \<Rightarrow>
          bind_outcome (m_visit receiver r t w) (\<lambda>r t w.
          meant_at args 0 (\<lambda>limit.
          meant_at args 1 (\<lambda>block.
          (case m_inlinedArgs block of
             [] \<Rightarrow> Stuck Undefined
           | i # _ \<Rightarrow>
               bind_outcome (m_store (uint i) r t w) (\<lambda>r t w.
               bind_outcome (m_visit limit r t w) (\<lambda>l t w.
               m_toDo rt env (uint i) l (m_statements block) n t w))))))
      | Some ToByDo \<Rightarrow> Stuck (FatalError ''not yet implemented'')
      | Some TimesRepeat \<Rightarrow>
          bind_outcome (m_visit receiver (le_one env) t w) (\<lambda>l t w.
          meant_at args 0 (\<lambda>block.
          m_timesRepeat rt env l (m_statements block) n (le_one env) t w))
      | Some AndNot \<Rightarrow> m_not rt env False receiver args r t w
      | Some OrNot \<Rightarrow> m_not rt env True receiver args r t w
      | Some Or \<Rightarrow> bind_outcome (m_visit receiver r t w) (m_chain rt True args)
      | Some And \<Rightarrow> bind_outcome (m_visit receiver r t w) (m_chain rt False args))"

definition m_skip :: "'w meaning" where
  "m_skip r t w = Done r t w"

definition m_then :: "'w meaning \<Rightarrow> 'w meaning \<Rightarrow> 'w meaning" where
  "m_then d k r t w = bind_outcome (d r t w) k"

definition m_identifier :: "'w runtime \<Rightarrow> sbinding \<Rightarrow> 'w meaning" where
  "m_identifier rt b r t w = of_result (valueWithin rt b t w) (\<lambda>v. Done v t w)"

definition m_literal :: "oop \<Rightarrow> 'w meaning" where
  "m_literal v r t w = Done v t w"

definition m_assign :: "'w runtime \<Rightarrow> sbinding option list \<Rightarrow> 'w meaning" where
  "m_assign rt assignees r t w =
     of_result (assign_all rt assignees r t w) (\<lambda>(t, w). Done r t w)"

definition m_return :: "bool \<Rightarrow> 'w meaning" where
  "m_return l r t w = Left l r t w"

definition m_closure :: "'w runtime \<Rightarrow> oop option \<Rightarrow> byte list \<Rightarrow> 'w meaning" where
  "m_closure rt code captured r t w =
     of_result (captureClosure rt code captured t w) (\<lambda>(v, w). Done v t w)"

type_synonym 'w meanings = "oop \<Rightarrow> oop list \<Rightarrow> 'w \<Rightarrow> (oop list, 'w) outcome"

definition m_nil :: "'w meanings" where
  "m_nil r t w = Done [] t w"

definition m_cons :: "'w meaning \<Rightarrow> 'w meanings \<Rightarrow> 'w meanings" where
  "m_cons d ds r t w =
     bind_outcome (d r t w) (\<lambda>v t w. bind_outcome (ds v t w) (\<lambda>vs. Done (v # vs)))"

definition m_message :: "'w runtime \<Rightarrow> oop \<Rightarrow> bool \<Rightarrow> 'w meaning \<Rightarrow> 'w meanings \<Rightarrow> 'w meaning" where
  "m_message rt selector super d ds r t w =
     bind_outcome (d r t w) (\<lambda>v t w.
     bind_outcome (ds v t w) (\<lambda>vs. m_send rt selector super vs v))"

definition m_cascade :: "'w meaning \<Rightarrow> (oop \<Rightarrow> 'w meaning) \<Rightarrow> 'w meaning" where
  "m_cascade d k r t w = bind_outcome (d r t w) (\<lambda>v. k v v)"

definition m_cascaded ::
    "'w runtime \<Rightarrow> oop \<Rightarrow> bool \<Rightarrow> 'w meanings \<Rightarrow> (oop \<Rightarrow> 'w meaning) \<Rightarrow> oop \<Rightarrow> 'w meaning" where
  "m_cascaded rt selector super ds k v r t w =
     bind_outcome (ds r t w) (\<lambda>vs t w.
     bind_outcome (m_send rt selector super vs v t w) (k v))"

definition m_stuck :: "'w meaning" where
  "m_stuck r t w = Stuck Undefined"

fun eval :: "'w runtime \<Rightarrow> lin_env \<Rightarrow> nat \<Rightarrow> bool \<Rightarrow> sexpr \<Rightarrow> 'w meaning"
and evalStatements :: "'w runtime \<Rightarrow> lin_env \<Rightarrow> nat \<Rightarrow> bool \<Rightarrow> sexpr list \<Rightarrow> 'w meaning"
and evalArguments :: "'w runtime \<Rightarrow> lin_env \<Rightarrow> nat \<Rightarrow> bool \<Rightarrow> sexpr list \<Rightarrow> 'w meanings"
and evalCascade ::
  "'w runtime \<Rightarrow> lin_env \<Rightarrow> nat \<Rightarrow> bool \<Rightarrow> bool \<Rightarrow> (oop \<times> sexpr list) list \<Rightarrow> oop \<Rightarrow> 'w meaning"
and evalBody :: "'w runtime \<Rightarrow> lin_env \<Rightarrow> nat \<Rightarrow> bool \<Rightarrow> sexpr \<Rightarrow> 'w meaning"
where
  "eval rt env n inB (SIdentifier b) = m_identifier rt b"
| "eval rt env n inB (SLiteral i v) = m_literal v"
| "eval rt env n inB (SAssignment assignees e) =
     m_then (eval rt env n inB e) (m_assign rt assignees)"
| "eval rt env n inB (SReturn local e) =
     m_then (eval rt env n inB e) (m_return (local \<and> \<not> inB))"
| "eval rt env n inB (SCascade receiver messages) =
     m_cascade (eval rt env n inB receiver) (evalCascade rt env n inB (isSuper receiver) messages)"
| "eval rt env n inB (SBlock code index captured args ss) = m_closure rt code captured"
| "eval rt env n inB (SMessage receiver selector args inlined) =
     (if inlined then
        m_inlined rt env n
          \<lparr>m_block = isBlock receiver, m_inlinedArgs = inlinedArgs receiver,
           m_visit = eval rt env n inB receiver, m_statements = evalBody rt env n inB receiver\<rparr>
          selector
          (map (\<lambda>a. \<lparr>m_block = isBlock a, m_inlinedArgs = inlinedArgs a,
                       m_visit = eval rt env n inB a, m_statements = evalBody rt env n inB a\<rparr>) args)
      else
        m_message rt selector (isSuper receiver) (eval rt env n inB receiver)
          (evalArguments rt env n inB args))"
| "evalStatements rt env n inB [] = m_skip"
| "evalStatements rt env n inB (e # es) =
     m_then (eval rt env n inB e) (evalStatements rt env n inB es)"
| "evalArguments rt env n inB [] = m_nil"
| "evalArguments rt env n inB (e # es) =
     m_cons (eval rt env n inB e) (evalArguments rt env n inB es)"
| "evalCascade rt env n inB super [] = (\<lambda>v. m_skip)"
| "evalCascade rt env n inB super ((selector, args) # ms) =
     m_cascaded rt selector super (evalArguments rt env n inB args) (evalCascade rt env n inB super ms)"
| "evalBody rt env n inB (SBlock c i cv ia ss) = evalStatements rt env n inB ss"
| "evalBody rt env n inB (SIdentifier _) = m_stuck"
| "evalBody rt env n inB (SLiteral _ _) = m_stuck"
| "evalBody rt env n inB (SAssignment _ _) = m_stuck"
| "evalBody rt env n inB (SReturn _ _) = m_stuck"
| "evalBody rt env n inB (SCascade _ _) = m_stuck"
| "evalBody rt env n inB (SMessage _ _ _ _) = m_stuck"

definition meant_of :: "'w runtime \<Rightarrow> lin_env \<Rightarrow> nat \<Rightarrow> bool \<Rightarrow> sexpr \<Rightarrow> 'w meant" where
  "meant_of rt env n inB e =
     \<lparr>m_block = isBlock e, m_inlinedArgs = inlinedArgs e, m_visit = eval rt env n inB e,
      m_statements = evalBody rt env n inB e\<rparr>"

text \<open>The meaning of a method: its statements, then a return of \<open>self\<close>; of a block: its statements,
  then a return of the last value, \<open>nil\<close> when there are none.\<close>

definition eval_method :: "'w runtime \<Rightarrow> lin_env \<Rightarrow> nat \<Rightarrow> sexpr list \<Rightarrow> 'w meaning" where
  "eval_method rt env n ss r t w =
     bind_outcome (evalStatements rt env n False ss r t w) (\<lambda>r t w. Left True (rt_self rt) t w)"

definition eval_block :: "'w runtime \<Rightarrow> lin_env \<Rightarrow> nat \<Rightarrow> sexpr list \<Rightarrow> 'w meaning" where
  "eval_block rt env n ss r t w =
     (if ss = [] then Left True (rt_nil rt) t w
      else bind_outcome (evalStatements rt env n True ss r t w) (\<lambda>r t w. Left True r t w))"

end
