(* ===== verification/LinearizerCorrect.thy ===== *)
theory LinearizerCorrect
  imports Machine
begin

section \<open>What linearizing keeps\<close>

abbreviation pc_of :: "linearizer \<Rightarrow> nat" where
  "pc_of s \<equiv> length (operations s)"

definition keeps :: "nat \<Rightarrow> linearizer \<Rightarrow> linearizer \<Rightarrow> bool" where
  "keeps a s s' \<longleftrightarrow> pc_of s \<le> pc_of s' \<and>
     (\<forall>i. a \<le> i \<and> i < pc_of s \<longrightarrow> operations s' ! i = operations s ! i)"

named_theorems lin_simps \<open>what the emitting operations do to the state of the linearizer\<close>

lemma emit_simps [lin_simps, simp]:
  "operations (emit x s) = operations s @ [x]" "stackTop (emit x s) = stackTop s"
  "inBlock (emit x s) = inBlock s" "codes (emit x s) = codes s"
  by (simp_all add: emit_def)

lemma pushR_simps [lin_simps, simp]:
  "operations (pushR s) = operations s @ [OpPushR]" "stackTop (pushR s) = stackTop s + 1"
  "inBlock (pushR s) = inBlock s" "codes (pushR s) = codes s"
  by (simp_all add: pushR_def)

lemma popR_simps [lin_simps, simp]:
  "operations (popR s) = operations s @ [OpPopR]" "stackTop (popR s) = stackTop s - 1"
  "inBlock (popR s) = inBlock s" "codes (popR s) = codes s"
  by (simp_all add: popR_def)

lemma dropToS_simps [lin_simps, simp]:
  "operations (dropToS n s) = operations s @ [OpDropToS n]"
  "stackTop (dropToS n s) = stackTop s - int n" "inBlock (dropToS n s) = inBlock s"
  "codes (dropToS n s) = codes s"
  by (simp_all add: dropToS_def)

lemma jump_simps [lin_simps, simp]:
  "branchIf b s = emit (if b then OpJumpTrue 0 else OpJumpFalse 0) s"
  "jump s = emit (OpJump 0) s" "jumpTo n s = emit (OpJump n) s" "currentPC s = pc_of s"
  "dispatch sel n super s = emit (OpDispatchMessage sel n super) s"
  "storeRintoFrameAt i s = emit (OpStoreRintoFrame i) s"
  by (simp_all add: branchIf_def jump_def jumpTo_def currentPC_def dispatch_def storeRintoFrameAt_def)

lemma set_target_simps [lin_simps, simp]:
  "pc_of (set_target b t s) = pc_of s" "stackTop (set_target b t s) = stackTop s"
  "inBlock (set_target b t s) = inBlock s" "codes (set_target b t s) = codes s"
  by (simp_all add: set_target_def)

lemma branchTargetOf_simps [simp]: "branchTargetOf b s = set_target b (pc_of s) s"
  by (simp add: branchTargetOf_def)

lemma set_target_nth:
  "i < pc_of s \<Longrightarrow>
   operations (set_target b t s) ! i = (if i = b then with_target t (operations s ! i) else operations s ! i)"
  by (auto simp: set_target_def nth_list_update)

lemma keeps_refl [simp]: "keeps a s s"
  by (simp add: keeps_def)

lemma keeps_append:
  "keeps a s t \<Longrightarrow> operations u = operations t @ xs \<Longrightarrow> keeps a s u"
  by (auto simp: keeps_def nth_append)

lemma keeps_emit [simp]: "keeps a s t \<Longrightarrow> keeps a s (emit x t)"
  by (rule keeps_append) auto

lemma keeps_pushR [simp]: "keeps a s t \<Longrightarrow> keeps a s (pushR t)"
  by (rule keeps_append) auto

lemma keeps_popR [simp]: "keeps a s t \<Longrightarrow> keeps a s (popR t)"
  by (rule keeps_append) auto

lemma keeps_dropToS [simp]: "keeps a s t \<Longrightarrow> keeps a s (dropToS n t)"
  by (rule keeps_append) auto

lemma keeps_set_target [simp]:
  "keeps a s t \<Longrightarrow> b < a \<or> pc_of s \<le> b \<Longrightarrow> keeps a s (set_target b x t)"
  by (auto simp: keeps_def set_target_nth)

lemma keeps_trans: "keeps a s t \<Longrightarrow> keeps a' t u \<Longrightarrow> a' \<le> a \<Longrightarrow> keeps a s u"
  unfolding keeps_def by (metis (no_types, lifting) le_trans less_le_trans)

lemma keeps_le: "keeps a s t \<Longrightarrow> pc_of s \<le> pc_of t"
  by (simp add: keeps_def)

lemma keeps_nth: "keeps a s t \<Longrightarrow> a \<le> i \<Longrightarrow> i < pc_of s \<Longrightarrow> operations t ! i = operations s ! i"
  by (simp add: keeps_def)

definition growing :: "bool \<Rightarrow> (linearizer \<Rightarrow> linearizer result) \<Rightarrow> bool" where
  "growing c f \<longleftrightarrow> (\<forall>s s'. f s = Inr s' \<longrightarrow>
     keeps 0 s s' \<and> inBlock s' = inBlock s \<and> (c \<longrightarrow> stackTop s' = stackTop s))"

lemma growingI:
  "(\<And>s s'. f s = Inr s' \<Longrightarrow> keeps 0 s s' \<and> inBlock s' = inBlock s \<and> (c \<longrightarrow> stackTop s' = stackTop s)) \<Longrightarrow>
   growing c f"
  by (simp add: growing_def)

lemma growingD:
  assumes "growing c f" "f s = Inr s'"
  shows "keeps 0 s s'" "inBlock s' = inBlock s" "c \<Longrightarrow> stackTop s' = stackTop s"
  using assms by (auto simp: growing_def)

definition agrees :: "op list \<Rightarrow> nat \<Rightarrow> linearizer \<Rightarrow> bool" where
  "agrees ops a s \<longleftrightarrow> pc_of s \<le> length ops \<and> (\<forall>i. a \<le> i \<and> i < pc_of s \<longrightarrow> ops ! i = operations s ! i)"

lemma agrees_append:
  "operations t = operations s @ [x] \<Longrightarrow> a \<le> pc_of s \<Longrightarrow>
   agrees ops a t \<longleftrightarrow> agrees ops a s \<and> pc_of s < length ops \<and> ops ! pc_of s = x"
  unfolding agrees_def
  apply (rule iffI)
   apply (auto simp: nth_append)[1]
  apply (auto simp: nth_append)
  by (metis le_antisym not_less_eq_eq not_less)

lemma agrees_emits:
  assumes "a \<le> pc_of s"
  shows "agrees ops a (emit x s) \<longleftrightarrow> agrees ops a s \<and> pc_of s < length ops \<and> ops ! pc_of s = x"
    "agrees ops a (pushR s) \<longleftrightarrow> agrees ops a s \<and> pc_of s < length ops \<and> ops ! pc_of s = OpPushR"
    "agrees ops a (popR s) \<longleftrightarrow> agrees ops a s \<and> pc_of s < length ops \<and> ops ! pc_of s = OpPopR"
    "agrees ops a (dropToS n s) \<longleftrightarrow> agrees ops a s \<and> pc_of s < length ops \<and> ops ! pc_of s = OpDropToS n"
  using assms by (intro agrees_append; simp)+

lemma agrees_keeps: "agrees ops a u \<Longrightarrow> keeps a' s u \<Longrightarrow> a \<le> a' \<Longrightarrow> agrees ops a' s"
  by (auto simp: agrees_def keeps_def)

lemma agrees_nth: "agrees ops a s \<Longrightarrow> a \<le> i \<Longrightarrow> i < pc_of s \<Longrightarrow> ops ! i = operations s ! i"
  by (simp add: agrees_def)

lemma agrees_length: "agrees ops a s \<Longrightarrow> pc_of s \<le> length ops"
  by (simp add: agrees_def)

section \<open>Reaching an outcome\<close>

definition left_state :: "bool \<Rightarrow> oop \<Rightarrow> oop list \<Rightarrow> 'w \<Rightarrow> 'w mstate" where
  "left_state l v f w = (if l then Returned v f w else NonLocal v f w)"

definition reach ::
    "'w runtime \<Rightarrow> op list \<Rightarrow> 'w mstate \<Rightarrow> ('a, 'w) outcome \<Rightarrow>
     ('a \<Rightarrow> oop list \<Rightarrow> 'w \<Rightarrow> 'w mstate \<Rightarrow> bool) \<Rightarrow> bool" where
  "reach rt ops st out Q \<longleftrightarrow>
     (case out of
        Done v t w \<Rightarrow> \<exists>st'. runs rt ops st st' \<and> Q v t w st'
      | Left l v t w \<Rightarrow>
          \<exists>f. runs rt ops st (left_state l v (t @ f) w)
      | _ \<Rightarrow> True)"

lemma reach_Done: "Q v t w st \<Longrightarrow> reach rt ops st (Done v t w) Q"
  by (auto simp: reach_def)

lemma reach_stuck [simp]: "reach rt ops st (Stuck e) Q" "reach rt ops st OutOfFuel Q"
  by (auto simp: reach_def)

lemma reach_runs: "runs rt ops st st' \<Longrightarrow> reach rt ops st' out Q \<Longrightarrow> reach rt ops st out Q"
  by (cases out) (auto simp: reach_def intro: runs_trans split: outcome.splits)

lemma reach_bind:
  assumes "reach rt ops st out Q"
    "\<And>v t w st'. out = Done v t w \<Longrightarrow> Q v t w st' \<Longrightarrow> reach rt ops st' (k v t w) Q'"
  shows "reach rt ops st (bind_outcome out k) Q'"
  using assms by (cases out) (auto simp: reach_def[of _ _ _ "Done _ _ _"] reach_def[of _ _ _ "Left _ _ _ _"] intro: reach_runs)

lemma reach_op:
  "pc < length ops \<Longrightarrow> ops ! pc = x \<Longrightarrow> perform rt x (Suc pc) r f w = Inr st' \<Longrightarrow>
   reach rt ops st' out Q \<Longrightarrow> reach rt ops (Running pc r f w) out Q"
  by (rule reach_runs) (auto intro: runs_step)

lemma reach_of_result:
  "(\<And>x. r = Inr x \<Longrightarrow> reach rt ops st (k x) Q) \<Longrightarrow> reach rt ops st (of_result r k) Q"
  by (cases r) auto

lemma reach_meant_at:
  "(i < length ps \<Longrightarrow> reach rt ops st (k (ps ! i)) Q) \<Longrightarrow> reach rt ops st (meant_at ps i k) Q"
  by (auto simp: meant_at_def)

definition lands :: "nat \<Rightarrow> nat \<Rightarrow> oop list \<Rightarrow> oop \<Rightarrow> oop list \<Rightarrow> 'w \<Rightarrow> 'w mstate \<Rightarrow> bool" where
  "lands n pc os v t w st \<longleftrightarrow> length t = n \<and> st = Running pc v (t @ os) w"

definition simulates ::
    "'w runtime \<Rightarrow> op list \<Rightarrow> nat \<Rightarrow> bool \<Rightarrow> bool \<Rightarrow> (linearizer \<Rightarrow> linearizer result) \<Rightarrow> 'w meaning \<Rightarrow> bool" where
  "simulates rt ops n c inB f d \<longleftrightarrow>
     (\<forall>s s' os r t w. f s = Inr s' \<longrightarrow> agrees ops (pc_of s) s' \<longrightarrow>
        (c \<longrightarrow> stackTop s = int (n + length os)) \<longrightarrow> inBlock s = inB \<longrightarrow> length t = n \<longrightarrow>
        reach rt ops (Running (pc_of s) r (t @ os) w) (d r t w) (lands n (pc_of s') os))"

lemma simulatesI:
  "(\<And>s s' os r t w. f s = Inr s' \<Longrightarrow> agrees ops (pc_of s) s' \<Longrightarrow>
      (c \<Longrightarrow> stackTop s = int (n + length os)) \<Longrightarrow> inBlock s = inB \<Longrightarrow> length t = n \<Longrightarrow>
      reach rt ops (Running (pc_of s) r (t @ os) w) (d r t w) (lands n (pc_of s') os)) \<Longrightarrow>
   simulates rt ops n c inB f d"
  by (simp add: simulates_def)

lemma simulatesD:
  "simulates rt ops n c inB f d \<Longrightarrow> f s = Inr s' \<Longrightarrow> agrees ops (pc_of s) s' \<Longrightarrow>
   (c \<Longrightarrow> stackTop s = int (n + length os)) \<Longrightarrow> inBlock s = inB \<Longrightarrow> length t = n \<Longrightarrow>
   reach rt ops (Running (pc_of s) r (t @ os) w) (d r t w) (lands n (pc_of s') os)"
  by (simp add: simulates_def)

section \<open>Frames with operands\<close>

lemma frame_at_append [simp]: "frame_at i t = Inr v \<Longrightarrow> frame_at i (t @ os) = Inr v"
  by (auto simp: frame_at_def nth_append split: if_splits)

lemma frame_at_put_append [simp]:
  "frame_at_put i v t = Inr t' \<Longrightarrow> frame_at_put i v (t @ os) = Inr (t' @ os)"
  by (auto simp: frame_at_put_def list_update_append split: if_splits)

lemma frame_at_put_length: "frame_at_put i v t = Inr t' \<Longrightarrow> length t' = length t"
  by (auto simp: frame_at_put_def split: if_splits)

lemma frame_operands_append [simp]: "frame_operands (length vs) (f @ vs) = Inr vs"
  by (simp add: frame_operands_def)

lemma frame_drop_append [simp]: "n = length vs \<Longrightarrow> frame_drop n (f @ vs) = Inr f"
  by (simp add: frame_drop_def)

lemma frame_operand_at_append [simp]:
  "n = length vs \<Longrightarrow> frame_operand_at n (f @ v # vs) = Inr v"
  by (simp add: frame_operand_at_def nth_append)

lemma valueWithin_append:
  "valueWithin rt b t w = Inr v \<Longrightarrow> valueWithin rt b (t @ os) w = Inr v"
  by (cases b) (auto split: if_splits)

lemma assign_within_append:
  "assign_within rt b v t w = Inr (t', w') \<Longrightarrow>
   assign_within rt b v (t @ os) w = Inr (t' @ os, w') \<and> length t' = length t"
  by (cases b) (auto simp: bind_result_eq_Inr dest: frame_at_put_length split: if_splits)

lemma assign_all_append:
  "assign_all rt bs v t w = Inr (t', w') \<Longrightarrow>
   assign_all rt bs v (t @ os) w = Inr (t' @ os, w') \<and> length t' = length t"
proof (induction rt bs v t w rule: assign_all.induct)
  case (3 rt b bs v f w)
  then obtain f1 w1 where "assign_within rt b v f w = Inr (f1, w1)" "assign_all rt bs v f1 w1 = Inr (t', w')"
    by (auto simp: bind_result_eq_Inr)
  with 3 assign_within_append[of rt b v f w f1 w1 os] show ?case by auto
qed auto

lemma captured_values_append:
  "captured_values rt cs t w = Inr vs \<Longrightarrow> captured_values rt cs (t @ os) w = Inr vs"
proof (induction rt cs t w arbitrary: vs rule: captured_values.induct)
  case (2 rt c cs f w)
  then show ?case
    by (cases cs) (auto simp: bind_result_eq_Inr split: if_splits)
qed simp

lemma captureClosure_append:
  "captureClosure rt code cs t w = Inr p \<Longrightarrow> captureClosure rt code cs (t @ os) w = Inr p"
  by (auto simp: captureClosure_def bind_result_eq_Inr captured_values_append)

section \<open>Messages the linearizer makes\<close>

lemma send_made_eq:
  "send_made receiver selector arg s =
     dropToS 2 (emit (OpDispatchMessage selector 1 False) (emit (OpLoadRfromStack 1)
       (pushR (emit arg (pushR (emit receiver s))))))"
  by (simp add: send_made_def dropMessageArgs_def Let_def numeral_2_eq_2)

lemma send_made_simps [simp]:
  "pc_of (send_made receiver selector arg s) = pc_of s + 7"
  "stackTop (send_made receiver selector arg s) = stackTop s"
  "inBlock (send_made receiver selector arg s) = inBlock s"
  by (simp_all add: send_made_eq)

lemma keeps_send_made [simp]: "keeps a s t \<Longrightarrow> keeps a s (send_made receiver selector arg t)"
  by (simp add: send_made_eq)

lemma lands_intro: "length t = n \<Longrightarrow> pc = pc' \<Longrightarrow> f = t @ os \<Longrightarrow> lands n pc os v t w (Running pc' v f w)"
  by (simp add: lands_def)

lemma reach_send:
  assumes "pc < length ops" "ops ! pc = OpDispatchMessage selector (length args) super"
    and "\<And>v w'. reach rt ops (Running (Suc pc) v (f @ args) w') (Done v t w') Q"
  shows "reach rt ops (Running pc r (f @ args) w) (m_send rt selector super args r t w) Q"
  unfolding m_send_def
proof (rule reach_of_result)
  fix p assume *: "rt_send rt selector super r args w = Inr p"
  obtain v w' where p: "p = (v, w')" by (cases p)
  show "reach rt ops (Running pc r (f @ args) w) (case p of (v, w) \<Rightarrow> Done v t w) Q"
    unfolding p prod.case
    by (rule reach_op[OF assms(1,2) _ assms(3)]) (simp add: * p)
qed

lemma reach_send_made:
  assumes ag: "agrees ops (pc_of s) (send_made receiver selector arg s)"
    and recv: "\<And>w pc r. perform rt receiver pc r (t @ os) w = Inr (Running pc rv (t @ os) w)"
    and arg: "\<And>w pc r. perform rt arg pc r (t @ os @ [rv]) w = Inr (Running pc av (t @ os @ [rv]) w)"
    and len: "length t = n"
  shows "reach rt ops (Running (pc_of s) r (t @ os) w)
           (m_send rt selector False [av] rv t w) (lands n (pc_of s + 7) os)"
proof -
  let ?p = "pc_of s"
  have code: "ops ! ?p = receiver" "ops ! Suc ?p = OpPushR" "ops ! Suc (Suc ?p) = arg"
    "ops ! Suc (Suc (Suc ?p)) = OpPushR" "ops ! Suc (Suc (Suc (Suc ?p))) = OpLoadRfromStack 1"
    "ops ! Suc (Suc (Suc (Suc (Suc ?p)))) = OpDispatchMessage selector 1 False"
    "ops ! Suc (Suc (Suc (Suc (Suc (Suc ?p))))) = OpDropToS 2" "?p + 6 < length ops"
    using ag by (simp_all add: send_made_eq agrees_emits)
  show ?thesis
    unfolding m_send_def
  proof (rule reach_of_result)
    fix p assume *: "rt_send rt selector False rv [av] w = Inr p"
    obtain v w' where p: "p = (v, w')" by (cases p)
    have "frame_operand_at 1 (t @ os @ [rv, av]) = Inr rv"
      using frame_operand_at_append[of 1 "[av]" "t @ os" rv] by simp
    moreover have "frame_operands 1 (t @ os @ [rv, av]) = Inr [av]"
      using frame_operands_append[of "[av]" "t @ os @ [rv]"] by simp
    moreover have "frame_drop 2 (t @ os @ [rv, av]) = Inr (t @ os)"
      using frame_drop_append[of 2 "[rv, av]" "t @ os"] by simp
    ultimately have "run (Suc (Suc (Suc (Suc (Suc (Suc (Suc 0))))))) rt ops (Running ?p r (t @ os) w) =
        Inr (Running (?p + 7) v (t @ os) w')"
      using code by (simp add: recv arg * p)
    from run_runs[OF this] show "reach rt ops (Running ?p r (t @ os) w)
        (case p of (v, w) \<Rightarrow> Done v t w) (lands n (?p + 7) os)"
      by (auto simp: p len intro!: reach_runs[OF _ reach_Done] lands_intro)
  qed
qed

section \<open>Every visit appends\<close>

definition growing_part :: "bool \<Rightarrow> part \<Rightarrow> bool" where
  "growing_part c p \<longleftrightarrow> growing c (p_visit p) \<and> growing c (p_statements p)"

lemma keeps_via: "keeps 0 t u \<Longrightarrow> keeps a s t \<Longrightarrow> keeps a s u"
  by (rule keeps_trans) auto

lemma keeps_past: "keeps 0 (emit x t) u \<Longrightarrow> keeps a s t \<Longrightarrow> keeps a s u"
  by (rule keeps_trans[of _ _ "emit x t"]) auto

lemma growing_part_visit: "growing_part c p \<Longrightarrow> growing c (p_visit p)"
  and growing_part_statements: "growing_part c p \<Longrightarrow> growing c (p_statements p)"
  by (simp_all add: growing_part_def)

lemma growing_body: "growing_part c p \<Longrightarrow> growing c (p_body p)"
  by (auto simp: growing_part_def p_body_def growing_def)

lemmas growing_part_rules = growing_part_visit growing_part_statements growing_body

lemma part_at_Inr [simp]: "part_at ps i = Inr p \<longleftrightarrow> i < length ps \<and> p = ps ! i"
  by (auto simp: part_at_def)

lemma store_inlined_arg_simps [simp]:
  "stackTop (store_inlined_arg p s) = stackTop s" "inBlock (store_inlined_arg p s) = inBlock s"
  "keeps a t s \<Longrightarrow> keeps a t (store_inlined_arg p s)"
  by (auto simp: store_inlined_arg_def split: list.splits)

lemma compare_with_nil_simps [simp]:
  "pc_of (compare_with_nil env s) = pc_of s + 8"
  "stackTop (compare_with_nil env s) = stackTop s + 1" "inBlock (compare_with_nil env s) = inBlock s"
  "keeps a t s \<Longrightarrow> keeps a t (compare_with_nil env s)"
  by (simp_all add: compare_with_nil_def)

lemma args_nth:
  "Suc 0 < length args \<Longrightarrow> \<forall>p\<in>set args. P p \<Longrightarrow> P (args ! 0) \<and> P (args ! 1)"
  by (metis One_nat_def Suc_lessD nth_mem)

section \<open>The shape of inlined code\<close>

lemma inline_ifE:
  assumes "inline_if receiver args b s = Inr s'"
  obtains s1 s2 where "p_visit receiver s = Inr s1" "args \<noteq> []"
    "p_statements (args ! 0) (branchIf (\<not> b) s1) = Inr s2"
    "s' = branchTargetOf (pc_of s2) (emit OpLoadRwithNil (branchTargetOf (pc_of s1) (jump s2)))"
  using assms by (auto simp: inline_if_def bind_result_eq_Inr Let_def)

lemma inline_ifNilE:
  assumes "inline_ifNil env receiver args b s = Inr s'"
  obtains s1 s2 u where "p_visit receiver s = Inr s1" "args \<noteq> []"
    "u = compare_with_nil env (store_inlined_arg (args ! 0) s1)"
    "p_body (args ! 0) (branchIf (\<not> b) u) = Inr s2"
    "s' = branchTargetOf (pc_of s2 + 1) (popR (branchTargetOf (pc_of u) (jump (dropToS 1 s2))))"
  using assms by (auto simp: inline_ifNil_def bind_result_eq_Inr Let_def)

lemma inline_ifNilIfNotNilE:
  assumes "inline_ifNilIfNotNil env receiver args b s = Inr s'"
  obtains s1 s2 s3 u where "p_visit receiver s = Inr s1" "Suc 0 < length args"
    "u = compare_with_nil env (store_inlined_arg (if b then args ! 1 else args ! 0) s1)"
    "p_body (args ! 0) (branchIf (\<not> b) u) = Inr s2"
    "p_body (args ! 1) (branchTargetOf (pc_of u) (jump s2)) = Inr s3"
    "s' = dropToS 1 (branchTargetOf (pc_of s2) s3)"
proof -
  from assms obtain s1 s2 s3 where 1: "p_visit receiver s = Inr s1" "Suc 0 < length args"
      "p_body (args ! 0) (branchIf (\<not> b)
         (compare_with_nil env (store_inlined_arg (if b then args ! 1 else args ! 0) s1))) = Inr s2"
    and 2: "p_body (args ! 1) (branchTargetOf
         (pc_of (compare_with_nil env (store_inlined_arg (if b then args ! 1 else args ! 0) s1))) (jump s2)) = Inr s3"
      "s' = dropToS 1 (branchTargetOf (pc_of s2) s3)"
    unfolding inline_ifNilIfNotNil_def bind_result_eq_Inr Let_def part_at_Inr currentPC_def
    by (elim exE conjE) (simp only: One_nat_def sum.inject)
  show thesis by (rule that[OF 1(1,2) refl 1(3) 2])
qed

lemma inline_ifTrueIfFalseE:
  assumes "inline_ifTrueIfFalse receiver args b s = Inr s'"
  obtains s1 s2 s3 where "p_visit receiver s = Inr s1" "Suc 0 < length args"
    "p_statements (args ! 0) (branchIf (\<not> b) s1) = Inr s2"
    "p_statements (args ! 1) (branchTargetOf (pc_of s1) (jump s2)) = Inr s3"
    "s' = branchTargetOf (pc_of s2) s3"
  using assms by (auto simp: inline_ifTrueIfFalse_def bind_result_eq_Inr Let_def)

lemma inline_unitaryWhileE:
  assumes "inline_unitaryWhile receiver b s = Inr s'"
  obtains s1 where "p_statements receiver s = Inr s1"
    "s' = set_target (pc_of s1) (pc_of s) (branchIf b s1)"
  using assms by (auto simp: inline_unitaryWhile_def bind_result_eq_Inr Let_def)

lemma inline_binaryWhileE:
  assumes "inline_binaryWhile receiver args b s = Inr s'"
  obtains s1 s2 where "p_statements receiver s = Inr s1" "args \<noteq> []"
    "p_statements (args ! 0) (branchIf (\<not> b) s1) = Inr s2"
    "s' = branchTargetOf (pc_of s1) (jumpTo (pc_of s) s2)"
  using assms by (auto simp: inline_binaryWhile_def bind_result_eq_Inr Let_def)

lemma inlineRepeatE:
  assumes "inlineRepeat receiver s = Inr s'"
  obtains s1 where "p_statements receiver s = Inr s1" "s' = jumpTo (pc_of s) s1"
  using assms by (auto simp: inlineRepeat_def bind_result_eq_Inr Let_def)

lemma counted_loopE:
  assumes "counted_loop env index body s = Inr s'"
  obtains s1 u where
    "u = send_made (OpLoadRfromFrame index) (le_greaterThan env) (OpLoadRfromFrame (stackTop s)) s"
    "p_statements body (branchIf True u) = Inr s1"
    "s' = branchTargetOf (pc_of u) (jumpTo (pc_of s) (storeRintoFrameAt index
       (send_made (OpLoadRfromFrame index) (le_plus env) (OpLiteral (le_one env)) s1)))"
  using assms by (auto simp: counted_loop_def bind_result_eq_Inr Let_def)

lemma inlineToDoE:
  assumes "inlineToDo env receiver args s = Inr s'"
  obtains s1 s2 s3 i ia where "p_visit receiver s = Inr s1" "Suc 0 < length args"
    "p_inlinedArgs (args ! 1) = i # ia"
    "p_visit (args ! 0) (storeRintoFrameAt (uint i) s1) = Inr s2"
    "counted_loop env (uint i) (args ! 1) (pushR s2) = Inr s3" "s' = dropToS 1 s3"
proof (cases "p_inlinedArgs (args ! 1)")
  case Nil
  with assms show thesis by (auto simp: inlineToDo_def bind_result_eq_Inr)
next
  case (Cons i ia)
  with assms that show thesis by (auto simp: inlineToDo_def bind_result_eq_Inr)
qed

lemma inlineTimesRepeatE:
  assumes "inlineTimesRepeat env receiver args s = Inr s'"
  obtains s1 s3 where "p_visit receiver (pushR (emit (OpLiteral (le_one env)) s)) = Inr s1"
    "args \<noteq> []" "counted_loop env (stackTop s + 1) (args ! 0) (pushR s1) = Inr s3"
    "s' = dropToS 2 s3"
  using assms by (auto simp: inlineTimesRepeat_def bind_result_eq_Inr Let_def)

lemma inlineNotE:
  assumes "inlineNot env b receiver args s = Inr s'"
  obtains s1 s2 where "p_visit receiver s = Inr s1" "args \<noteq> []"
    "p_statements (args ! 0) (branchIf b s1) = Inr s2"
    "s' = branchTargetOf (pc_of s1) (dispatch (le_not env) 0 False s2)"
  using assms by (auto simp: inlineNot_def bind_result_eq_Inr Let_def)

lemma inlineChainE:
  assumes "inlineChain b receiver args s = Inr s'"
  obtains s1 s2 bs where "p_visit receiver s = Inr s1" "visitChain b args [] s1 = Inr (bs, s2)"
    "s' = set_targets bs s2"
  using assms by (auto simp: inlineChain_def bind_result_eq_Inr)

section \<open>Every inlined message appends\<close>

lemma growing_if:
  assumes "growing_part c receiver" "\<forall>p\<in>set args. growing_part c p"
  shows "growing c (inline_if receiver args b)"
proof (rule growingI)
  fix s s' assume "inline_if receiver args b s = Inr s'"
  then obtain s1 s2 where 1: "p_visit receiver s = Inr s1" "args \<noteq> []"
      "p_statements (args ! 0) (branchIf (\<not> b) s1) = Inr s2"
    and s': "s' = branchTargetOf (pc_of s2) (emit OpLoadRwithNil (branchTargetOf (pc_of s1) (jump s2)))"
    by (elim inline_ifE)
  note g1 = growingD[OF growing_part_visit[OF assms(1)] 1(1)]
  have "growing_part c (args ! 0)" using 1(2) assms(2) by simp
  note g2 = growingD[OF growing_part_statements[OF this] 1(3)]
  have "keeps 0 s s2" using keeps_past[OF g2(1)[simplified] g1(1)] .
  then show "keeps 0 s s' \<and> inBlock s' = inBlock s \<and> (c \<longrightarrow> stackTop s' = stackTop s)"
    using g1 g2 keeps_le[OF g1(1)] keeps_le[OF g2(1)] by (simp add: s')
qed


lemmas raw_emits = jump_simps branchTargetOf_simps

lemma growing_ifNil:
  assumes "growing_part c receiver" "\<forall>p\<in>set args. growing_part c p" "\<not> c"
  shows "growing c (inline_ifNil env receiver args b)"
proof (rule growingI)
  fix s s' assume "inline_ifNil env receiver args b s = Inr s'"
  then obtain s1 s2 u where 1: "p_visit receiver s = Inr s1" "args \<noteq> []"
      "u = compare_with_nil env (store_inlined_arg (args ! 0) s1)"
      "p_body (args ! 0) (branchIf (\<not> b) u) = Inr s2"
    and s': "s' = branchTargetOf (pc_of s2 + 1) (popR (branchTargetOf (pc_of u) (jump (dropToS 1 s2))))"
    by (elim inline_ifNilE)
  note g1 = growingD[OF growing_part_visit[OF assms(1)] 1(1)]
  have "growing_part c (args ! 0)" using 1(2) assms(2) by simp
  note g2 = growingD[OF growing_body[OF this] 1(4)]
  have "keeps 0 s u" using g1(1) by (simp add: 1)
  from keeps_past[OF g2(1)[simplified] this] keeps_le[OF this]
  show "keeps 0 s s' \<and> inBlock s' = inBlock s \<and> (c \<longrightarrow> stackTop s' = stackTop s)"
    using g1 g2 keeps_le[OF g2(1)] assms(3) by (simp add: s' 1)
qed

lemma growing_ifNilIfNotNil:
  assumes "growing_part c receiver" "\<forall>p\<in>set args. growing_part c p"
  shows "growing c (inline_ifNilIfNotNil env receiver args b)"
proof (rule growingI)
  fix s s' assume "inline_ifNilIfNotNil env receiver args b s = Inr s'"
  then obtain s1 s2 s3 u where 1: "p_visit receiver s = Inr s1" "Suc 0 < length args"
      "u = compare_with_nil env (store_inlined_arg (if b then args ! 1 else args ! 0) s1)"
      "p_body (args ! 0) (branchIf (\<not> b) u) = Inr s2"
      "p_body (args ! 1) (branchTargetOf (pc_of u) (jump s2)) = Inr s3"
    and s': "s' = dropToS 1 (branchTargetOf (pc_of s2) s3)"
    by (elim inline_ifNilIfNotNilE)
  note g1 = growingD[OF growing_part_visit[OF assms(1)] 1(1)]
  have "growing_part c (args ! 0)" "growing_part c (args ! 1)" using args_nth[OF 1(2) assms(2)] by auto
  note g2 = growingD[OF growing_body[OF this(1)] 1(4)] and g3 = growingD[OF growing_body[OF this(2)] 1(5)]
  have k: "keeps 0 s u" using g1(1) by (simp add: 1)
  note k2 = keeps_past[OF g2(1)[simplified] k]
  have "keeps 0 s s3" by (rule keeps_via[OF g3(1)]) (use k2 keeps_le[OF k] in simp)
  then show "keeps 0 s s' \<and> inBlock s' = inBlock s \<and> (c \<longrightarrow> stackTop s' = stackTop s)"
    using g1 g2 g3 keeps_le[OF k] keeps_le[OF k2] keeps_le[OF g3(1)] by (simp add: s' 1)
qed

lemma growing_ifTrueIfFalse:
  assumes "growing_part c receiver" "\<forall>p\<in>set args. growing_part c p"
  shows "growing c (inline_ifTrueIfFalse receiver args b)"
proof (rule growingI)
  fix s s' assume "inline_ifTrueIfFalse receiver args b s = Inr s'"
  then obtain s1 s2 s3 where 1: "p_visit receiver s = Inr s1" "Suc 0 < length args"
      "p_statements (args ! 0) (branchIf (\<not> b) s1) = Inr s2"
      "p_statements (args ! 1) (branchTargetOf (pc_of s1) (jump s2)) = Inr s3"
    and s': "s' = branchTargetOf (pc_of s2) s3"
    by (elim inline_ifTrueIfFalseE)
  note g1 = growingD[OF growing_part_visit[OF assms(1)] 1(1)]
  have "growing_part c (args ! 0)" "growing_part c (args ! 1)" using args_nth[OF 1(2) assms(2)] by auto
  note g2 = growingD[OF growing_part_statements[OF this(1)] 1(3)]
    and g3 = growingD[OF growing_part_statements[OF this(2)] 1(4)]
  note k2 = keeps_past[OF g2(1)[simplified] g1(1)]
  have "keeps 0 s s3" by (rule keeps_via[OF g3(1)]) (use k2 keeps_le[OF g1(1)] in simp)
  then show "keeps 0 s s' \<and> inBlock s' = inBlock s \<and> (c \<longrightarrow> stackTop s' = stackTop s)"
    using g1 g2 g3 keeps_le[OF k2] by (simp add: s')
qed

lemma growing_unitaryWhile:
  assumes "growing_part c receiver"
  shows "growing c (inline_unitaryWhile receiver b)"
proof (rule growingI)
  fix s s' assume "inline_unitaryWhile receiver b s = Inr s'"
  then obtain s1 where 1: "p_statements receiver s = Inr s1"
    and s': "s' = set_target (pc_of s1) (pc_of s) (branchIf b s1)"
    by (elim inline_unitaryWhileE)
  note g1 = growingD[OF growing_part_statements[OF assms(1)] 1(1)]
  then show "keeps 0 s s' \<and> inBlock s' = inBlock s \<and> (c \<longrightarrow> stackTop s' = stackTop s)"
    using keeps_le[OF g1(1)] by (simp add: s')
qed

lemma growing_binaryWhile:
  assumes "growing_part c receiver" "\<forall>p\<in>set args. growing_part c p"
  shows "growing c (inline_binaryWhile receiver args b)"
proof (rule growingI)
  fix s s' assume "inline_binaryWhile receiver args b s = Inr s'"
  then obtain s1 s2 where 1: "p_statements receiver s = Inr s1" "args \<noteq> []"
      "p_statements (args ! 0) (branchIf (\<not> b) s1) = Inr s2"
    and s': "s' = branchTargetOf (pc_of s1) (jumpTo (pc_of s) s2)"
    by (elim inline_binaryWhileE)
  note g1 = growingD[OF growing_part_statements[OF assms(1)] 1(1)]
  have "growing_part c (args ! 0)" using 1(2) assms(2) by simp
  note g2 = growingD[OF growing_part_statements[OF this] 1(3)]
  have "keeps 0 s s2" using keeps_past[OF g2(1)[simplified] g1(1)] .
  then show "keeps 0 s s' \<and> inBlock s' = inBlock s \<and> (c \<longrightarrow> stackTop s' = stackTop s)"
    using g1 g2 keeps_le[OF g1(1)] keeps_le[OF g2(1)] by (simp add: s')
qed

lemma growing_repeat:
  assumes "growing_part c receiver"
  shows "growing c (inlineRepeat receiver)"
  using growingD[OF growing_part_statements[OF assms]]
  by (intro growingI) (auto simp: inlineRepeat_def bind_result_eq_Inr Let_def)

lemma growing_counted_loop:
  assumes "growing_part c body"
  shows "growing c (counted_loop env index body)"
proof (rule growingI)
  fix s s' assume "counted_loop env index body s = Inr s'"
  then obtain s1 u where 1:
      "u = send_made (OpLoadRfromFrame index) (le_greaterThan env) (OpLoadRfromFrame (stackTop s)) s"
      "p_statements body (branchIf True u) = Inr s1"
    and s': "s' = branchTargetOf (pc_of u) (jumpTo (pc_of s) (storeRintoFrameAt index
        (send_made (OpLoadRfromFrame index) (le_plus env) (OpLiteral (le_one env)) s1)))"
    by (elim counted_loopE)
  note g1 = growingD[OF growing_part_statements[OF assms(1)] 1(2)]
  have "keeps 0 s s1" by (rule keeps_via[OF g1(1)]) (simp add: 1)
  then show "keeps 0 s s' \<and> inBlock s' = inBlock s \<and> (c \<longrightarrow> stackTop s' = stackTop s)"
    using g1 by (simp add: s' 1)
qed

lemma growing_toDo:
  assumes "growing_part c receiver" "\<forall>p\<in>set args. growing_part c p"
  shows "growing c (inlineToDo env receiver args)"
proof (rule growingI)
  fix s s' assume "inlineToDo env receiver args s = Inr s'"
  then obtain s1 s2 s3 i where 1: "p_visit receiver s = Inr s1" "Suc 0 < length args"
      "p_visit (args ! 0) (storeRintoFrameAt (uint (i::byte)) s1) = Inr s2"
      "counted_loop env (uint i) (args ! 1) (pushR s2) = Inr s3"
    and s': "s' = dropToS 1 s3"
    by (elim inlineToDoE)
  note g1 = growingD[OF growing_part_visit[OF assms(1)] 1(1)]
  have "growing_part c (args ! 0)" "growing_part c (args ! 1)" using args_nth[OF 1(2) assms(2)] by auto
  note g2 = growingD[OF growing_part_visit[OF this(1)] 1(3)]
    and g3 = growingD[OF growing_counted_loop[OF this(2)] 1(4)]
  note k2 = keeps_past[OF g2(1)[simplified] g1(1)]
  have "keeps 0 s s3" by (rule keeps_via[OF g3(1)]) (use k2 in simp)
  then show "keeps 0 s s' \<and> inBlock s' = inBlock s \<and> (c \<longrightarrow> stackTop s' = stackTop s)"
    using g1 g2 g3 by (simp add: s')
qed

lemma growing_timesRepeat:
  assumes "growing_part c receiver" "\<forall>p\<in>set args. growing_part c p"
  shows "growing c (inlineTimesRepeat env receiver args)"
proof (rule growingI)
  fix s s' assume "inlineTimesRepeat env receiver args s = Inr s'"
  then obtain s1 s3 where 1: "p_visit receiver (pushR (emit (OpLiteral (le_one env)) s)) = Inr s1"
      "args \<noteq> []" "counted_loop env (stackTop s + 1) (args ! 0) (pushR s1) = Inr s3"
    and s': "s' = dropToS 2 s3"
    by (elim inlineTimesRepeatE)
  note g1 = growingD[OF growing_part_visit[OF assms(1)] 1(1)]
  have "growing_part c (args ! 0)" using 1(2) assms(2) by simp
  note g3 = growingD[OF growing_counted_loop[OF this] 1(3)]
  have k2: "keeps 0 s s1" by (rule keeps_via[OF g1(1)]) simp
  have "keeps 0 s s3" by (rule keeps_via[OF g3(1)]) (use k2 in simp)
  then show "keeps 0 s s' \<and> inBlock s' = inBlock s \<and> (c \<longrightarrow> stackTop s' = stackTop s)"
    using g1 g3 by (simp add: s')
qed

lemma growing_not:
  assumes "growing_part c receiver" "\<forall>p\<in>set args. growing_part c p"
  shows "growing c (inlineNot env b receiver args)"
proof (rule growingI)
  fix s s' assume "inlineNot env b receiver args s = Inr s'"
  then obtain s1 s2 where 1: "p_visit receiver s = Inr s1" "args \<noteq> []"
      "p_statements (args ! 0) (branchIf b s1) = Inr s2"
    and s': "s' = branchTargetOf (pc_of s1) (dispatch (le_not env) 0 False s2)"
    by (elim inlineNotE)
  note g1 = growingD[OF growing_part_visit[OF assms(1)] 1(1)]
  have "growing_part c (args ! 0)" using 1(2) assms(2) by simp
  note g2 = growingD[OF growing_part_statements[OF this] 1(3)]
  have "keeps 0 s s2" using keeps_past[OF g2(1)[simplified] g1(1)] .
  then show "keeps 0 s s' \<and> inBlock s' = inBlock s \<and> (c \<longrightarrow> stackTop s' = stackTop s)"
    using g1 g2 keeps_le[OF g1(1)] by (simp add: s')
qed

lemma keeps_set_targets [simp]:
  "keeps a s t \<Longrightarrow> \<forall>b\<in>set bs. b < a \<or> pc_of s \<le> b \<Longrightarrow> keeps a s (set_targets bs t)"
  by (induction bs arbitrary: t) auto

lemma set_targets_simps [simp]:
  "pc_of (set_targets bs s) = pc_of s" "stackTop (set_targets bs s) = stackTop s"
  "inBlock (set_targets bs s) = inBlock s"
  by (induction bs arbitrary: s) auto

lemma visitChain_grows:
  "visitChain b ps bs s = Inr (bs', s') \<Longrightarrow> \<forall>p\<in>set ps. growing_part c p \<Longrightarrow>
   keeps 0 s s' \<and> inBlock s' = inBlock s \<and> (c \<longrightarrow> stackTop s' = stackTop s) \<and>
   (\<exists>cs. bs' = bs @ cs \<and> (\<forall>x\<in>set cs. pc_of s \<le> x))"
proof (induction b ps bs s arbitrary: bs' s' rule: visitChain.induct)
  case (2 b p ps bs s)
  then obtain s1 where 1: "p_statements p (branchIf b s) = Inr s1"
      "visitChain b ps (bs @ [currentPC s]) s1 = Inr (bs', s')"
    by (auto simp: bind_result_eq_Inr simp del: raw_emits)
  from "2.prems"(2) have "growing_part c p" by simp
  note g1 = growingD[OF growing_part_statements[OF this] 1(1)]
  note g2 = "2.IH"[OF 1] 
  have k: "keeps 0 s s1" by (rule keeps_via[OF g1(1)]) simp
  have "keeps 0 s s'" by (rule keeps_via[OF _ k]) (use g2 "2.prems"(2) in simp)
  with g1 g2 "2.prems"(2) keeps_le[OF k] show ?case by (auto dest!: order_trans[OF keeps_le[OF k]])
qed simp

lemma growing_chain:
  assumes "growing_part c receiver" "\<forall>p\<in>set args. growing_part c p"
  shows "growing c (inlineChain b receiver args)"
proof (rule growingI)
  fix s s' assume "inlineChain b receiver args s = Inr s'"
  then obtain s1 s2 bs where 1: "p_visit receiver s = Inr s1" "visitChain b args [] s1 = Inr (bs, s2)"
    and s': "s' = set_targets bs s2"
    by (elim inlineChainE)
  note g1 = growingD[OF growing_part_visit[OF assms(1)] 1(1)]
  note g2 = visitChain_grows[OF 1(2) assms(2)]
  have "keeps 0 s s2" using g1 g2 by (auto intro: keeps_via)
  with g1 g2 keeps_le[OF g1(1)] show "keeps 0 s s' \<and> inBlock s' = inBlock s \<and> (c \<longrightarrow> stackTop s' = stackTop s)"
    by (auto simp: s' intro!: keeps_set_targets)
qed

section \<open>Balanced trees\<close>

text \<open>
  The linearizer counts one operand too few after an inlined \<open>ifNil:\<close> or \<open>ifNotNil:\<close>, because both
  the drop of one branch and the pop of the other are counted.  The count matters to the loops that
  keep their limit or counter in an operand slot.  With \<open>c\<close> the tree has no inlined nil test of this
  kind; without it, it has no counted loop.  Blocks that are not inlined are code of their own.
\<close>

fun form_balanced :: "bool \<Rightarrow> inline_form option \<Rightarrow> bool" where
  "form_balanced c (Some (IfNil b)) = (\<not> c)"
| "form_balanced c (Some ToDo) = c"
| "form_balanced c (Some TimesRepeat) = c"
| "form_balanced c _ = True"

fun balanced :: "lin_env \<Rightarrow> bool \<Rightarrow> sexpr \<Rightarrow> bool"
and balancedBody :: "lin_env \<Rightarrow> bool \<Rightarrow> sexpr \<Rightarrow> bool"
where
  "balanced env c (SIdentifier b) = True"
| "balanced env c (SLiteral i v) = True"
| "balanced env c (SAssignment assignees e) = balanced env c e"
| "balanced env c (SReturn l e) = balanced env c e"
| "balanced env c (SCascade receiver ms) =
     (balanced env c receiver \<and> (\<forall>m\<in>set ms. \<forall>a\<in>set (snd m). balanced env c a))"
| "balanced env c (SBlock code i cv ia ss) = True"
| "balanced env c (SMessage receiver selector args inlined) =
     (balanced env c receiver \<and> (\<forall>a\<in>set args. balanced env c a) \<and>
      (inlined \<longrightarrow> form_balanced c (inline_form_of env selector) \<and>
         balancedBody env c receiver \<and> (\<forall>a\<in>set args. balancedBody env c a)))"
| "balancedBody env c (SBlock code i cv ia ss) = (\<forall>e\<in>set ss. balanced env c e)"
| "balancedBody env c (SIdentifier _) = True"
| "balancedBody env c (SLiteral _ _) = True"
| "balancedBody env c (SAssignment _ _) = True"
| "balancedBody env c (SReturn _ _) = True"
| "balancedBody env c (SCascade _ _) = True"
| "balancedBody env c (SMessage _ _ _ _) = True"

lemma growing_inlined:
  assumes "growing_part c receiver" "\<forall>p\<in>set args. growing_part c p"
    "form_balanced c (inline_form_of env selector)"
  shows "growing c (visitInlinedMessage env receiver selector args)"
proof (rule growingI)
  fix s s' assume *: "visitInlinedMessage env receiver selector args s = Inr s'"
  show "keeps 0 s s' \<and> inBlock s' = inBlock s \<and> (c \<longrightarrow> stackTop s' = stackTop s)"
    using * assms(3)
    by (auto simp: visitInlinedMessage_def split: option.splits inline_form.splits
        dest: growingD[OF growing_if[OF assms(1,2)]]
          growingD[OF growing_ifNil[OF assms(1,2)]]
          growingD[OF growing_ifNilIfNotNil[OF assms(1,2)]]
          growingD[OF growing_ifTrueIfFalse[OF assms(1,2)]]
          growingD[OF growing_unitaryWhile[OF assms(1)]]
          growingD[OF growing_binaryWhile[OF assms(1,2)]]
          growingD[OF growing_repeat[OF assms(1)]]
          growingD[OF growing_toDo[OF assms(1,2)]]
          growingD[OF growing_timesRepeat[OF assms(1,2)]]
          growingD[OF growing_not[OF assms(1,2)]]
          growingD[OF growing_chain[OF assms(1,2)]])
qed

definition grew :: "bool \<Rightarrow> int \<Rightarrow> linearizer \<Rightarrow> linearizer \<Rightarrow> bool" where
  "grew c k s s' \<longleftrightarrow> keeps 0 s s' \<and> inBlock s' = inBlock s \<and> (c \<longrightarrow> stackTop s' = stackTop s + k)"

lemma growing_grew: "growing c f \<longleftrightarrow> (\<forall>s s'. f s = Inr s' \<longrightarrow> grew c 0 s s')"
  by (simp add: growing_def grew_def)

lemma grew_trans: "grew c k s t \<Longrightarrow> grew c l t u \<Longrightarrow> grew c (k + l) s u"
  by (auto simp: grew_def intro: keeps_via)

lemma grew_emits [simp]:
  "grew c k s t \<Longrightarrow> grew c k s (emit x t)"
  "grew c (k - 1) s t \<Longrightarrow> grew c k s (pushR t)"
  "grew c (k + int n) s t \<Longrightarrow> grew c k s (dropToS n t)"
  by (auto simp: grew_def)

lemma grew_refl [simp]: "grew c 0 s s"
  by (simp add: grew_def)

lemma grew_at: "grew c k s t \<Longrightarrow> k = l \<Longrightarrow> grew c l s t"
  by simp

lemma visit_grows:
  "balanced env c e \<Longrightarrow> visit env e s = Inr s' \<Longrightarrow> grew c 0 s s'"
  "\<forall>e\<in>set es. balanced env c e \<Longrightarrow> visitStatements env es s = Inr s' \<Longrightarrow> grew c 0 s s'"
  "\<forall>e\<in>set as. balanced env c e \<Longrightarrow> visitArguments env as s = Inr s' \<Longrightarrow> grew c (int (length as)) s s'"
  "\<forall>m\<in>set ms. \<forall>a\<in>set (snd m). balanced env c a \<Longrightarrow>
   visitCascadeMessages env super ms s = Inr s' \<Longrightarrow> grew c 0 s s'"
  "balancedBody env c b \<Longrightarrow> visitBody env b s = Inr s' \<Longrightarrow> grew c 0 s s'"
proof (induction env e s and env es s and env as s and env super ms s and env b s
    arbitrary: s' and s' and s' and s' and s'
    rule: visit_visitStatements_visitArguments_visitCascadeMessages_visitBody.induct)
  case (6 env code index captured args ss s)
  then show ?case by (auto simp: bind_result_eq_Inr leave_block_def grew_def Let_def keeps_def nth_append)
next
  case (7 env receiver selector args inlined s)
  show ?case
  proof (cases inlined)
    case True
    have g: "growing_part c (part_of env receiver)" "\<forall>p\<in>set (map (part_of env) args). growing_part c p"
      using 7 True by (auto simp: growing_part_def growing_grew part_of_def)
    from True "7.prems" have f: "form_balanced c (inline_form_of env selector)"
      and v: "visitInlinedMessage env (part_of env receiver) selector (map (part_of env) args) s = Inr s'"
      by (simp_all add: part_of_def[abs_def])
    show ?thesis using growingD[OF growing_inlined[OF g f] v] by (simp add: grew_def)
  next
    case False
    with "7.prems" obtain s1 s2 where 1: "visit env receiver s = Inr s1"
        "visitArguments env args (if args = [] then s1 else pushR s1) = Inr s2"
      and s': "s' = dropMessageArgs (length args) (dispatch selector (length args) (isSuper receiver)
            (if args = [] then s2 else emit (OpLoadRfromStack (length args)) s2))"
      by (auto simp: bind_result_eq_Inr)
    have a: "grew c 0 s s1" using 7 False 1 by simp
    have b: "grew c (int (length args)) (if args = [] then s1 else pushR s1) s2"
      using 7 False 1 by simp
    show ?thesis
    proof (cases args)
      case Nil
      with b have "grew c 0 s1 s2" by simp
      from grew_trans[OF a this] Nil show ?thesis by (simp add: s' dropMessageArgs_def)
    next
      case (Cons x xs)
      have "grew c 1 s (pushR s1)" using a by simp
      from grew_trans[OF this b[simplified Cons, simplified]] Cons show ?thesis
        by (simp add: s' dropMessageArgs_def add.commute)
    qed
  qed
next
  case (13 env super selector args ms s)
  then obtain s1 where 1: "visitArguments env args s = Inr s1"
      "visitCascadeMessages env super ms (dropCascadeMessageArgs (length args)
        (dispatch selector (length args) super (emit (OpLoadRfromStack (length args)) s1))) = Inr s'"
    by (auto simp: bind_result_eq_Inr)
  have "grew c (int (length args)) s s1" using 13 1 by simp
  then have a: "grew c 0 s (dropCascadeMessageArgs (length args)
        (dispatch selector (length args) super (emit (OpLoadRfromStack (length args)) s1)))"
    by (cases "args = []") (auto simp: dropCascadeMessageArgs_def)
  show ?case using grew_trans[OF a "13.IH"(2)[OF 1(1) _ 1(2)]] "13.prems"(1) by simp
next
  case (5 env receiver messages s)
  then obtain s1 s2 where 1: "visit env receiver s = Inr s1"
      "visitCascadeMessages env (isSuper receiver) messages (pushR s1) = Inr s2" "s' = dropToS 1 s2"
    by (auto simp: bind_result_eq_Inr)
  have "grew c 1 s (pushR s1)" using 5 1 by simp
  from grew_trans[OF this, of 0 s2] show ?case using 5 1 by simp
next
  case (11 env e es s)
  then obtain s1 where 1: "visit env e s = Inr s1" "visitArguments env es (pushR s1) = Inr s'"
    by (auto simp: bind_result_eq_Inr)
  have "grew c 1 s (pushR s1)" using 11 1 by simp
  from grew_trans[OF this, of "int (length es)" s'] show ?case using 11 1 by (simp add: add.commute)
qed (auto simp: bind_result_eq_Inr intro: grew_trans[of _ 0 _ _ 0, simplified])

end
