(* ===== verification/InlinedMessages.thy ===== *)
theory InlinedMessages
  imports LinearizerCorrect
begin

text \<open>
  Each inlined message of the linearizer runs as it means: the operations that a form emits take the
  machine from the position before them to the position after them, with the value, temporaries and
  world that \<open>Machine\<close> gives the form, when the parts it is made of do.
\<close>

section \<open>Inlined messages run as they mean\<close>

definition simulates_part ::
    "'w runtime \<Rightarrow> op list \<Rightarrow> nat \<Rightarrow> bool \<Rightarrow> bool \<Rightarrow> part \<Rightarrow> 'w meant \<Rightarrow> bool" where
  "simulates_part rt ops n c inB p q \<longleftrightarrow>
     growing_part c p \<and> p_block p = m_block q \<and> p_inlinedArgs p = m_inlinedArgs q \<and>
     simulates rt ops n c inB (p_visit p) (m_visit q) \<and>
     simulates rt ops n c inB (p_statements p) (m_statements q)"

lemma simulates_partD:
  assumes "simulates_part rt ops n c inB p q"
  shows "growing_part c p" "p_inlinedArgs p = m_inlinedArgs q"
    "simulates rt ops n c inB (p_visit p) (m_visit q)"
    "simulates rt ops n c inB (p_statements p) (m_statements q)"
    "simulates rt ops n c inB (p_body p) (m_body q)"
  using assms by (auto simp: simulates_part_def p_body_def m_body_def simulates_def)

abbreviation simulates_parts ::
    "'w runtime \<Rightarrow> op list \<Rightarrow> nat \<Rightarrow> bool \<Rightarrow> bool \<Rightarrow> part list \<Rightarrow> 'w meant list \<Rightarrow> bool" where
  "simulates_parts rt ops n c inB \<equiv> list_all2 (simulates_part rt ops n c inB)"

lemma simulates_parts_growing:
  "simulates_parts rt ops n c inB ps qs \<Longrightarrow> \<forall>p\<in>set ps. growing_part c p"
  by (induction rule: list_all2_induct) (auto simp: simulates_part_def)

definition branch_op :: "bool \<Rightarrow> nat \<Rightarrow> op" where
  "branch_op b t = (if b then OpJumpTrue t else OpJumpFalse t)"

lemma branch_op_simps [simp]:
  "branchIf b s = emit (branch_op b 0) s" "with_target t (branch_op b u) = branch_op b t"
  "(if b then OpJumpTrue t else OpJumpFalse t) = branch_op b t"
  by (cases b; simp add: branch_op_def)+

lemma branch_op_not [simp]:
  "(if b then OpJumpFalse t else OpJumpTrue t) = branch_op (\<not> b) t"
  by (cases b) (simp_all only: if_True if_False branch_op_def simp_thms)

lemma perform_branch [simp]:
  "perform rt (branch_op b t) pc r f w = Inr (Running (if jumps rt b r then t else pc) r f w)"
  by (cases b) (simp_all add: branch_op_def jumps_def del: branch_op_simps(3) branch_op_not)

lemma reach_branch:
  assumes "pc < length ops" "ops ! pc = branch_op b t"
    "jumps rt b r \<Longrightarrow> reach rt ops (Running t r f w) out Q"
    "\<not> jumps rt b r \<Longrightarrow> reach rt ops (Running (Suc pc) r f w) out' Q"
  shows "reach rt ops (Running pc r f w) (if jumps rt b r then out else out') Q"
  by (rule reach_op[OF assms(1,2) perform_branch]) (use assms(3,4) in simp)

lemma reach_if_same: "(b \<Longrightarrow> reach rt ops st x Q) \<Longrightarrow> (\<not> b \<Longrightarrow> reach rt ops st y Q) \<Longrightarrow> reach rt ops st (if b then x else y) Q"
  by simp

text \<open>Going on with operations after an outcome is reached.\<close>

lemma reach_then:
  assumes "reach rt ops st out Q" "\<And>v t w st'. Q v t w st' \<Longrightarrow> reach rt ops st' (Done v t w) Q'"
  shows "reach rt ops st out Q'"
  using reach_bind[OF assms(1), of Done Q'] assms(2) by (cases out) auto

lemma reach_lands_bind:
  assumes "reach rt ops st out (lands n pc os)"
    "\<And>v t w. length t = n \<Longrightarrow> reach rt ops (Running pc v (t @ os) w) (k v t w) Q"
  shows "reach rt ops st (bind_outcome out k) Q"
  by (rule reach_bind[OF assms(1)]) (use assms(2) in \<open>auto simp: lands_def\<close>)

lemma reach_lands_then:
  assumes "reach rt ops st out (lands n pc os)"
    "\<And>v t w. length t = n \<Longrightarrow> reach rt ops (Running pc v (t @ os) w) (Done v t w) Q"
  shows "reach rt ops st out Q"
  by (rule reach_then[OF assms(1)]) (use assms(2) in \<open>auto simp: lands_def\<close>)

text \<open>An operation that leaves the machine where it is wanted.\<close>

lemma reach_last_op:
  assumes "pc < length ops" "ops ! pc = x" "perform rt x (Suc pc) r f w = Inr (Running pc' v (t @ os) w')" "length t = n"
  shows "reach rt ops (Running pc r f w) (Done v t w') (lands n pc' os)"
  by (rule reach_op[OF assms(1-3)], rule reach_Done) (simp add: lands_def assms(4))

lemma emitted:
  assumes "keeps 0 (emit x s) t"
  shows "operations t ! pc_of s = x" "pc_of s < pc_of t"
  using keeps_nth[OF assms, of "pc_of s"] keeps_le[OF assms] by auto

lemma keeps_mono: "keeps 0 s t \<Longrightarrow> keeps a s t"
  by (simp add: keeps_def)

lemma simulatesD_emit:
  assumes "simulates rt ops n c inB f d" "f (emit x u) = Inr s'" "agrees ops (Suc (pc_of u)) s'"
    "c \<Longrightarrow> stackTop u = int (n + length os)" "inBlock u = inB" "length t = n"
  shows "reach rt ops (Running (Suc (pc_of u)) r (t @ os) w) (d r t w) (lands n (pc_of s') os)"
  using simulatesD[OF assms(1,2), of os t r w] assms(3-) by simp

lemma simulates_if:
  fixes rt :: "'w runtime"
  assumes r: "simulates_part rt ops n c inB receiver mr"
    and a: "simulates_parts rt ops n c inB args ms"
  shows "simulates rt ops n c inB (inline_if receiver args b) (m_if rt mr ms b)"
proof (rule simulatesI)
  fix s s' and os t :: "oop list" and r0 and w :: 'w
  assume *: "inline_if receiver args b s = Inr s'" and ag: "agrees ops (pc_of s) s'"
    and top: "c \<Longrightarrow> stackTop s = int (n + length os)" and inB: "inBlock s = inB" and len: "length t = n"
  from * obtain s1 s2 where 1: "p_visit receiver s = Inr s1" "args \<noteq> []"
      "p_statements (args ! 0) (branchIf (\<not> b) s1) = Inr s2"
    and s': "s' = branchTargetOf (pc_of s2) (emit OpLoadRwithNil (branchTargetOf (pc_of s1) (jump s2)))"
    by (elim inline_ifE)
  from a 1(2) have p: "simulates_part rt ops n c inB (args ! 0) (ms ! 0)"
    by (auto simp: list_all2_conv_all_nth)
  note g1 = growingD[OF growing_part_visit[OF simulates_partD(1)[OF r]] 1(1)]
  note g2 = growingD[OF growing_part_statements[OF simulates_partD(1)[OF p]] 1(3)]
  note le = keeps_le[OF g1(1)] emitted[OF g2(1)[simplified]]
  have k1: "keeps a s1 s2" for a using keeps_past[OF g2(1)[simplified]] by simp
  have ag1: "agrees ops (pc_of s) s1"
    by (rule agrees_keeps[OF ag, of "pc_of s"]) (use k1 le in \<open>simp_all add: s'\<close>)
  have ag2: "agrees ops (Suc (pc_of s1)) s2"
    by (rule agrees_keeps[OF ag, of "Suc (pc_of s1)"]) (use le in \<open>simp_all add: s'\<close>)
  have code: "ops ! pc_of s1 = branch_op (\<not> b) (Suc (pc_of s2))" "ops ! pc_of s2 = OpJump (pc_of s2 + 2)"
     "ops ! (Suc (pc_of s2)) = OpLoadRwithNil" "Suc (pc_of s2) < length ops"
    using agrees_nth[OF ag] agrees_length[OF ag] le
    by (simp_all add: s' set_target_nth nth_append)
  show "reach rt ops (Running (pc_of s) r0 (t @ os) w) (m_if rt mr ms b r0 t w) (lands n (pc_of s') os)"
    unfolding m_if_def
  proof (rule reach_lands_bind[OF simulatesD[OF simulates_partD(3)[OF r] 1(1) ag1 top inB len]],
      assumption, rule reach_meant_at, rule reach_branch)
    fix v and t :: "oop list" and w :: 'w assume len: "length t = n"
    show "reach rt ops (Running (Suc (pc_of s2)) v (t @ os) w) (Done (rt_nil rt) t w) (lands n (pc_of s') os)"
      by (rule reach_last_op) (use code len in \<open>auto simp: s'\<close>)
    show "reach rt ops (Running (Suc (pc_of s1)) v (t @ os) w) (m_statements (ms ! 0) v t w) (lands n (pc_of s') os)"
      by (rule reach_lands_then[OF simulatesD_emit[OF simulates_partD(4)[OF p] 1(3)[simplified] ag2]])
         (use code le g1 top inB len in \<open>auto simp: s' intro!: reach_last_op[where x="OpJump _"]\<close>)
  qed (use code le in auto)
qed


lemma reach_compare_with_nil:
  assumes ag: "agrees ops (pc_of s) (compare_with_nil env s)" and len: "length t = n"
  shows "reach rt ops (Running (pc_of s) r (t @ os) w)
    (m_send rt (le_equalsEquals env) False [le_nil env] r t w) (lands n (pc_of s + 8) (os @ [r]))"
proof (rule reach_op[where x=OpPushR])
  have ag': "agrees ops (pc_of (pushR s))
      (send_made (OpLoadRfromStack 0) (le_equalsEquals env) (OpLiteral (le_nil env)) (pushR s))"
    by (rule agrees_keeps[OF ag]) (auto simp: compare_with_nil_def)
  have k: "keeps 0 (pushR s) (compare_with_nil env s)" by (simp add: compare_with_nil_def)
  show "pc_of s < length ops" "ops ! pc_of s = OpPushR"
    using agrees_nth[OF ag, of "pc_of s"] agrees_length[OF ag] keeps_nth[OF k, of "pc_of s"] by auto
  show "perform rt OpPushR (Suc (pc_of s)) r (t @ os) w = Inr (Running (pc_of (pushR s)) r (t @ os @ [r]) w)"
    by simp
  have "frame_operand_at 0 (t @ os @ [r]) = Inr r"
    using frame_operand_at_append[of 0 "[]" "t @ os" r] by simp
  then show "reach rt ops (Running (pc_of (pushR s)) r (t @ os @ [r]) w)
     (m_send rt (le_equalsEquals env) False [le_nil env] r t w) (lands n (pc_of s + 8) (os @ [r]))"
    using reach_send_made[OF ag', where os="os @ [r]" and rv=r and av="le_nil env" and t=t and n=n and r=r and w=w and rt=rt]
      len by (simp add: add.commute)
qed

lemma reach_store:
  assumes "agrees ops (pc_of s) (storeRintoFrameAt i s)" "length t = n"
  shows "reach rt ops (Running (pc_of s) r (t @ os) w) (m_store i r t w) (lands n (Suc (pc_of s)) os)"
  unfolding m_store_def
  by (rule reach_of_result, rule reach_last_op[where x="OpStoreRintoFrame i"])
     (use assms in \<open>auto simp: agrees_emits dest: frame_at_put_length\<close>)

lemma reach_store_inlined_arg:
  assumes "agrees ops (pc_of s) (store_inlined_arg p s)" "length t = n" "p_inlinedArgs p = m_inlinedArgs q"
  shows "reach rt ops (Running (pc_of s) r (t @ os) w) (m_store_inlined_arg q r t w)
    (lands n (pc_of (store_inlined_arg p s)) os)"
proof (cases "\<exists>i. m_inlinedArgs q = [i]")
  case True
  then obtain i where i: "m_inlinedArgs q = [i]" by blast
  with assms have "agrees ops (pc_of s) (storeRintoFrameAt (uint i) s)"
    by (simp add: store_inlined_arg_def)
  from reach_store[OF this assms(2)] show ?thesis
    by (simp add: m_store_inlined_arg_def store_inlined_arg_def assms(3) i)
next
  case False
  then have "m_store_inlined_arg q r t w = Done r t w" "store_inlined_arg p s = s"
    by (auto simp: m_store_inlined_arg_def store_inlined_arg_def assms(3) split: list.splits)
  then show ?thesis by (auto intro: reach_Done simp: lands_def assms(2))
qed

lemma simulates_ifNil:
  fixes rt :: "'w runtime"
  assumes r: "simulates_part rt ops n c inB receiver mr"
    and a: "simulates_parts rt ops n c inB args ms" and nc: "\<not> c"
  shows "simulates rt ops n c inB (inline_ifNil env receiver args b) (m_ifNil rt env mr ms b)"
proof (rule simulatesI)
  fix s s' and os t :: "oop list" and r0 and w :: 'w
  assume *: "inline_ifNil env receiver args b s = Inr s'" and ag: "agrees ops (pc_of s) s'"
    and top: "c \<Longrightarrow> stackTop s = int (n + length os)" and inB: "inBlock s = inB" and len: "length t = n"
  from * obtain s1 s2 u where 1: "p_visit receiver s = Inr s1" "args \<noteq> []"
      "u = compare_with_nil env (store_inlined_arg (args ! 0) s1)"
      "p_body (args ! 0) (branchIf (\<not> b) u) = Inr s2"
    and s': "s' = branchTargetOf (pc_of s2 + 1) (popR (branchTargetOf (pc_of u) (jump (dropToS 1 s2))))"
    by (elim inline_ifNilE)
  let ?v = "store_inlined_arg (args ! 0) s1"
  from a 1(2) have p: "simulates_part rt ops n c inB (args ! 0) (ms ! 0)"
    by (auto simp: list_all2_conv_all_nth)
  note g1 = growingD[OF growing_part_visit[OF simulates_partD(1)[OF r]] 1(1)]
  note g2 = growingD[OF growing_body[OF simulates_partD(1)[OF p]] 1(4)]
  have kv: "keeps a s1 ?v" for a by simp
  have ku: "keeps a ?v u" for a by (simp add: 1(3))
  have le: "pc_of s \<le> pc_of s1" "pc_of s1 \<le> pc_of ?v" "pc_of ?v \<le> pc_of u" "pc_of u < pc_of s2"
    using keeps_le[OF g1(1)] keeps_le[OF kv] keeps_le[OF ku] emitted[OF g2(1)[simplified]] by auto
  have k2: "keeps a u s2" for a using keeps_past[OF g2(1)[simplified]] by simp
  have k': "keeps a u s'" if "a \<le> pc_of u" for a using k2 le that by (simp add: s')
  have kv': "keeps a ?v s'" if "a \<le> pc_of ?v" for a using keeps_trans[OF ku k'[of a]] le that by simp
  have k1': "keeps a s1 s'" if "a \<le> pc_of s1" for a using keeps_trans[OF kv kv'[of a]] le that by simp
  have ag1: "agrees ops (pc_of s) s1" by (rule agrees_keeps[OF ag k1']) (use le in auto)
  have agv: "agrees ops (pc_of s1) ?v" by (rule agrees_keeps[OF ag kv']) (use le in auto)
  have agu: "agrees ops (pc_of ?v) (compare_with_nil env ?v)"
    by (rule agrees_keeps[OF ag]) (use k'[of "pc_of ?v"] le in \<open>auto simp: 1(3)\<close>)
  have cmp: "reach rt ops (Running (pc_of ?v) r (t @ os) w)
      (m_send rt (le_equalsEquals env) False [le_nil env] r t w) (lands n (pc_of u) (os @ [r]))"
    if "length t = n" for r t w
    using reach_compare_with_nil[OF agu that] by (simp add: 1(3))
  have ag2: "agrees ops (Suc (pc_of u)) s2"
    by (rule agrees_keeps[OF ag, of "Suc (pc_of u)"]) (use le in \<open>simp_all add: s'\<close>)
  have code: "ops ! pc_of u = branch_op (\<not> b) (pc_of s2 + 2)" "ops ! pc_of s2 = OpDropToS 1"
     "ops ! Suc (pc_of s2) = OpJump (pc_of s2 + 3)" "ops ! Suc (Suc (pc_of s2)) = OpPopR"
     "Suc (Suc (pc_of s2)) < length ops"
    using agrees_nth[OF ag] agrees_length[OF ag] le emitted[OF g2(1)[simplified]]
    by (simp_all add: s' set_target_nth nth_append)
  show "reach rt ops (Running (pc_of s) r0 (t @ os) w) (m_ifNil rt env mr ms b r0 t w) (lands n (pc_of s') os)"
    unfolding m_ifNil_def
  proof (rule reach_lands_bind[OF simulatesD[OF simulates_partD(3)[OF r] 1(1) ag1 top inB len]],
      assumption, rule reach_meant_at,
      rule reach_lands_bind[OF reach_store_inlined_arg[OF agv _ simulates_partD(2)[OF p]]], assumption,
      rule reach_lands_bind[OF cmp], assumption, rule reach_branch)
    fix x v and t :: "oop list" and w :: 'w assume len: "length t = n"
    have drop: "frame_drop (Suc 0) (t @ os @ [x]) = Inr (t @ os)"
      using frame_drop_append[of "Suc 0" "[x]" "t @ os"] by simp
    have last: "frame_operand_at 0 (t @ os @ [x]) = Inr x"
      using frame_operand_at_append[of 0 "[]" "t @ os" x] by simp
    show "reach rt ops (Running (pc_of s2 + 2) v (t @ os @ [x]) w) (Done x t w) (lands n (pc_of s') os)"
      by (rule reach_last_op[where x=OpPopR]) (use code len drop last in \<open>auto simp: s'\<close>)
    show "reach rt ops (Running (Suc (pc_of u)) v (t @ os @ [x]) w) (m_body (ms ! 0) v t w) (lands n (pc_of s') os)"
    proof (rule reach_lands_then[OF simulatesD_emit[OF simulates_partD(5)[OF p] 1(4)[simplified] ag2]])
      fix v and t :: "oop list" and w :: 'w assume len: "length t = n"
      have drop: "frame_drop (Suc 0) (t @ os @ [x]) = Inr (t @ os)"
        using frame_drop_append[of "Suc 0" "[x]" "t @ os"] by simp
      show "reach rt ops (Running (pc_of s2) v (t @ os @ [x]) w) (Done v t w) (lands n (pc_of s') os)"
        apply (rule reach_op[where x="OpDropToS 1"])
        using code drop apply auto[3]
        by (rule reach_last_op[where x="OpJump (pc_of s2 + 3)"]) (use code len in \<open>auto simp: s'\<close>)
    qed (use nc g1 inB len in \<open>auto simp: 1(3)\<close>)
  qed (use code le in \<open>auto simp: 1(3)\<close>)
qed


lemma list_all2_nth2:
  "list_all2 P xs ys \<Longrightarrow> Suc 0 < length xs \<Longrightarrow> P (xs ! 0) (ys ! 0) \<and> P (xs ! 1) (ys ! 1)"
  by (metis One_nat_def Suc_lessD list_all2_conv_all_nth)

lemma simulates_ifNilIfNotNil:
  fixes rt :: "'w runtime"
  assumes r: "simulates_part rt ops n c inB receiver mr"
    and a: "simulates_parts rt ops n c inB args ms"
  shows "simulates rt ops n c inB (inline_ifNilIfNotNil env receiver args b) (m_ifNilIfNotNil rt env mr ms b)"
proof (rule simulatesI)
  fix s s' and os t :: "oop list" and r0 and w :: 'w
  assume *: "inline_ifNilIfNotNil env receiver args b s = Inr s'" and ag: "agrees ops (pc_of s) s'"
    and top: "c \<Longrightarrow> stackTop s = int (n + length os)" and inB: "inBlock s = inB" and len: "length t = n"
  from * obtain s1 s2 s3 u where 1: "p_visit receiver s = Inr s1" "Suc 0 < length args"
      "u = compare_with_nil env (store_inlined_arg (if b then args ! 1 else args ! 0) s1)"
      "p_body (args ! 0) (branchIf (\<not> b) u) = Inr s2"
      "p_body (args ! 1) (branchTargetOf (pc_of u) (jump s2)) = Inr s3"
    and s': "s' = dropToS 1 (branchTargetOf (pc_of s2) s3)"
    by (elim inline_ifNilIfNotNilE)
  let ?a = "if b then args ! 1 else args ! 0" and ?m = "if b then ms ! 1 else ms ! 0"
  let ?v = "store_inlined_arg ?a s1"
  from a 1(2) have p: "simulates_part rt ops n c inB (args ! 0) (ms ! 0)"
      "simulates_part rt ops n c inB (args ! 1) (ms ! 1)"
    using list_all2_nth2 by auto
  then have pa: "p_inlinedArgs ?a = m_inlinedArgs ?m" by (auto dest: simulates_partD)
  note g1 = growingD[OF growing_part_visit[OF simulates_partD(1)[OF r]] 1(1)]
  note g2 = growingD[OF growing_body[OF simulates_partD(1)[OF p(1)]] 1(4)]
  note g3 = growingD[OF growing_body[OF simulates_partD(1)[OF p(2)]] 1(5)]
  have kv: "keeps a s1 ?v" for a by simp
  have ku: "keeps a ?v u" for a by (simp add: 1(3))
  have k2: "keeps a u s2" for a using keeps_past[OF g2(1)[simplified]] by simp
  have le: "pc_of s \<le> pc_of s1" "pc_of s1 \<le> pc_of ?v" "pc_of ?v \<le> pc_of u" "pc_of u < pc_of s2"
      "pc_of s2 < pc_of s3"
    using keeps_le[OF g1(1)] keeps_le[OF kv] keeps_le[OF ku] emitted[OF g2(1)[simplified]] keeps_le[OF g3(1)] by auto
  have k3: "keeps a (branchTargetOf (pc_of u) (jump s2)) s3" for a
    by (rule keeps_trans[OF _ g3(1)]) auto
  have k': "keeps a u s'" if "a \<le> pc_of u" for a
    using keeps_trans[of a u "branchTargetOf (pc_of u) (jump s2)" 0 s3] k2 g3(1) le that by (simp add: s')
  have kv': "keeps a ?v s'" if "a \<le> pc_of ?v" for a using keeps_trans[OF ku k'[of a]] le that by simp
  have k1': "keeps a s1 s'" if "a \<le> pc_of s1" for a using keeps_trans[OF kv kv'[of a]] le that by simp
  have ag1: "agrees ops (pc_of s) s1" by (rule agrees_keeps[OF ag k1']) (use le in auto)
  have agv: "agrees ops (pc_of s1) ?v" by (rule agrees_keeps[OF ag kv']) (use le in auto)
  have agu: "agrees ops (pc_of ?v) (compare_with_nil env ?v)"
    by (rule agrees_keeps[OF ag]) (use k'[of "pc_of ?v"] le in \<open>auto simp: 1(3)\<close>)
  have cmp: "reach rt ops (Running (pc_of ?v) r (t @ os) w)
      (m_send rt (le_equalsEquals env) False [le_nil env] r t w) (lands n (pc_of u) (os @ [r]))"
    if "length t = n" for r t w
    unfolding 1(3) compare_with_nil_simps(1) by (rule reach_compare_with_nil[OF agu that])
  have "keeps (Suc (pc_of u)) s2 s'"
    unfolding s' by (intro keeps_dropToS) (use keeps_trans[OF _ g3(1), of "Suc (pc_of u)" s2] le in simp)
  then have ag2: "agrees ops (Suc (pc_of u)) s2" by (rule agrees_keeps[OF ag]) (use le in simp)
  have ag3: "agrees ops (Suc (pc_of s2)) s3"
    by (rule agrees_keeps[OF ag, of "Suc (pc_of s2)"]) (use le in \<open>simp_all add: s'\<close>)
  have code: "ops ! pc_of u = branch_op (\<not> b) (Suc (pc_of s2))" "ops ! pc_of s2 = OpJump (pc_of s3)"
     "ops ! pc_of s3 = OpDropToS 1" "pc_of s3 < length ops"
    using agrees_nth[OF ag] agrees_length[OF ag] le emitted[OF g2(1)[simplified]]
      keeps_nth[OF g3(1), of "pc_of u"] keeps_nth[OF g3(1), of "pc_of s2"]
    by (simp_all add: s' set_target_nth nth_append)
  have drop: "frame_drop (Suc 0) (t @ os @ [x]) = Inr (t @ os)" for t x
    using frame_drop_append[of "Suc 0" "[x]" "t @ os"] by simp
  show "reach rt ops (Running (pc_of s) r0 (t @ os) w) (m_ifNilIfNotNil rt env mr ms b r0 t w) (lands n (pc_of s') os)"
    unfolding m_ifNilIfNotNil_def
  proof (rule reach_lands_bind[OF simulatesD[OF simulates_partD(3)[OF r] 1(1) ag1 top inB len]],
      assumption, rule reach_meant_at, rule reach_meant_at,
      rule reach_lands_bind[OF reach_store_inlined_arg[OF agv _ pa]], assumption,
      rule reach_lands_bind[OF cmp], assumption, rule reach_branch)
    fix x v and t :: "oop list" and w :: 'w assume len: "length t = n"
    have fin: "reach rt ops (Running (pc_of s3) v (t @ os @ [x]) w) (Done v t w) (lands n (pc_of s') os)"
      if "length t = n" for v t and w :: 'w
      by (rule reach_last_op[where x="OpDropToS 1"]) (use code that drop in \<open>auto simp: s'\<close>)
    show "reach rt ops (Running (Suc (pc_of s2)) v (t @ os @ [x]) w) (m_body (ms ! 1) v t w) (lands n (pc_of s') os)"
    proof -
      have "reach rt ops (Running (Suc (pc_of s2)) v (t @ os @ [x]) w) (m_body (ms ! 1) v t w)
          (lands n (pc_of s3) (os @ [x]))"
        using simulatesD[OF simulates_partD(5)[OF p(2)] 1(5), of "os @ [x]" t v w] ag3 len g1 g2 top inB
        by (simp add: 1(3))
      then show ?thesis by (rule reach_lands_then) (rule fin)
    qed
    show "reach rt ops (Running (Suc (pc_of u)) v (t @ os @ [x]) w) (m_body (ms ! 0) v t w) (lands n (pc_of s') os)"
    proof (rule reach_lands_then[OF simulatesD_emit[OF simulates_partD(5)[OF p(1)] 1(4)[simplified] ag2]])
      fix v and t :: "oop list" and w :: 'w assume len: "length t = n"
      show "reach rt ops (Running (pc_of s2) v (t @ os @ [x]) w) (Done v t w) (lands n (pc_of s') os)"
        by (rule reach_op[where x="OpJump (pc_of s3)"]) (use code le len fin in auto)
    qed (use g1 inB len top in \<open>auto simp: 1(3)\<close>)
  qed (use code le in \<open>auto simp: 1(3)\<close>)
qed

lemma simulates_ifTrueIfFalse:
  fixes rt :: "'w runtime"
  assumes r: "simulates_part rt ops n c inB receiver mr"
    and a: "simulates_parts rt ops n c inB args ms"
  shows "simulates rt ops n c inB (inline_ifTrueIfFalse receiver args b) (m_ifTrueIfFalse rt mr ms b)"
proof (rule simulatesI)
  fix s s' and os t :: "oop list" and r0 and w :: 'w
  assume *: "inline_ifTrueIfFalse receiver args b s = Inr s'" and ag: "agrees ops (pc_of s) s'"
    and top: "c \<Longrightarrow> stackTop s = int (n + length os)" and inB: "inBlock s = inB" and len: "length t = n"
  from * obtain s1 s2 s3 where 1: "p_visit receiver s = Inr s1" "Suc 0 < length args"
      "p_statements (args ! 0) (branchIf (\<not> b) s1) = Inr s2"
      "p_statements (args ! 1) (branchTargetOf (pc_of s1) (jump s2)) = Inr s3"
    and s': "s' = branchTargetOf (pc_of s2) s3"
    by (elim inline_ifTrueIfFalseE)
  from a 1(2) have p: "simulates_part rt ops n c inB (args ! 0) (ms ! 0)"
      "simulates_part rt ops n c inB (args ! 1) (ms ! 1)"
    using list_all2_nth2 by auto
  note g1 = growingD[OF growing_part_visit[OF simulates_partD(1)[OF r]] 1(1)]
  note g2 = growingD[OF growing_part_statements[OF simulates_partD(1)[OF p(1)]] 1(3)]
  note g3 = growingD[OF growing_part_statements[OF simulates_partD(1)[OF p(2)]] 1(4)]
  have k2: "keeps a s1 s2" for a using keeps_past[OF g2(1)[simplified]] by simp
  have le: "pc_of s \<le> pc_of s1" "pc_of s1 < pc_of s2" "pc_of s2 < pc_of s3"
    using keeps_le[OF g1(1)] emitted[OF g2(1)[simplified]] keeps_le[OF g3(1)] by auto
  have k': "keeps a s1 s'" if "a \<le> pc_of s1" for a
    using keeps_trans[of a s1 "branchTargetOf (pc_of s1) (jump s2)" 0 s3] k2 g3(1) le that by (simp add: s')
  have ag1: "agrees ops (pc_of s) s1" by (rule agrees_keeps[OF ag k']) (use le in auto)
  have "keeps (Suc (pc_of s1)) s2 s'"
    using keeps_trans[OF _ g3(1), of "Suc (pc_of s1)" s2] le by (simp add: s')
  then have ag2: "agrees ops (Suc (pc_of s1)) s2" by (rule agrees_keeps[OF ag]) (use le in simp)
  have ag3: "agrees ops (Suc (pc_of s2)) s3"
    by (rule agrees_keeps[OF ag, of "Suc (pc_of s2)"]) (use le in \<open>simp_all add: s'\<close>)
  have code: "ops ! pc_of s1 = branch_op (\<not> b) (Suc (pc_of s2))" "ops ! pc_of s2 = OpJump (pc_of s3)"
     "pc_of s3 \<le> length ops"
    using agrees_nth[OF ag] agrees_length[OF ag] le emitted[OF g2(1)[simplified]]
      keeps_nth[OF g3(1), of "pc_of s1"] keeps_nth[OF g3(1), of "pc_of s2"]
    by (simp_all add: s' set_target_nth nth_append)
  show "reach rt ops (Running (pc_of s) r0 (t @ os) w) (m_ifTrueIfFalse rt mr ms b r0 t w) (lands n (pc_of s') os)"
    unfolding m_ifTrueIfFalse_def
  proof (rule reach_lands_bind[OF simulatesD[OF simulates_partD(3)[OF r] 1(1) ag1 top inB len]],
      assumption, rule reach_meant_at, rule reach_meant_at, rule reach_branch)
    fix v and t :: "oop list" and w :: 'w assume len: "length t = n"
    show "reach rt ops (Running (Suc (pc_of s2)) v (t @ os) w) (m_statements (ms ! 1) v t w) (lands n (pc_of s') os)"
      using simulatesD[OF simulates_partD(4)[OF p(2)] 1(4), of os t v w] ag3 len g1 g2 top inB by (simp add: s')
    show "reach rt ops (Running (Suc (pc_of s1)) v (t @ os) w) (m_statements (ms ! 0) v t w) (lands n (pc_of s') os)"
      by (rule reach_lands_then[OF simulatesD_emit[OF simulates_partD(4)[OF p(1)] 1(3)[simplified] ag2]])
         (use code le g1 top inB len in \<open>auto simp: s' intro!: reach_last_op[where x="OpJump _"]\<close>)
  qed (use code le in auto)
qed

lemma simulates_unitaryWhile:
  fixes rt :: "'w runtime"
  assumes r: "simulates_part rt ops n c inB receiver mr"
  shows "simulates rt ops n c inB (inline_unitaryWhile receiver b) (m_unitaryWhile rt (m_statements mr) b k)"
proof (rule simulatesI)
  fix s s' and os t :: "oop list" and r0 and w :: 'w
  assume *: "inline_unitaryWhile receiver b s = Inr s'" and ag: "agrees ops (pc_of s) s'"
    and top: "c \<Longrightarrow> stackTop s = int (n + length os)" and inB: "inBlock s = inB" and len: "length t = n"
  from * obtain s1 where 1: "p_statements receiver s = Inr s1"
    and s': "s' = set_target (pc_of s1) (pc_of s) (branchIf b s1)"
    by (elim inline_unitaryWhileE)
  note g1 = growingD[OF growing_part_statements[OF simulates_partD(1)[OF r]] 1(1)]
  note le = keeps_le[OF g1(1)]
  have ag1: "agrees ops (pc_of s) s1"
    by (rule agrees_keeps[OF ag, of "pc_of s"]) (use le in \<open>simp_all add: s'\<close>)
  have code: "ops ! pc_of s1 = branch_op b (pc_of s)" "pc_of s1 < length ops"
    using agrees_nth[OF ag] agrees_length[OF ag] le by (simp_all add: s' set_target_nth)
  from len show "reach rt ops (Running (pc_of s) r0 (t @ os) w)
      (m_unitaryWhile rt (m_statements mr) b k r0 t w) (lands n (pc_of s') os)"
  proof (induction k arbitrary: r0 t w)
    case (Suc k)
    show ?case unfolding m_unitaryWhile.simps
      by (rule reach_lands_bind[OF simulatesD[OF simulates_partD(4)[OF r] 1(1) ag1 top inB Suc.prems]],
          assumption, rule reach_branch[OF code(2,1)])
         (use Suc.IH in \<open>auto intro!: reach_Done simp: lands_def s'\<close>)
  qed simp
qed

lemma simulates_binaryWhile:
  fixes rt :: "'w runtime"
  assumes r: "simulates_part rt ops n c inB receiver mr"
    and a: "simulates_parts rt ops n c inB args ms"
  shows "simulates rt ops n c inB (inline_binaryWhile receiver args b)
    (\<lambda>r t w. meant_at ms 0 (\<lambda>arg. m_binaryWhile rt (m_statements mr) (m_statements arg) b k r t w))"
proof (rule simulatesI)
  fix s s' and os t :: "oop list" and r0 and w :: 'w
  assume *: "inline_binaryWhile receiver args b s = Inr s'" and ag: "agrees ops (pc_of s) s'"
    and top: "c \<Longrightarrow> stackTop s = int (n + length os)" and inB: "inBlock s = inB" and len: "length t = n"
  from * obtain s1 s2 where 1: "p_statements receiver s = Inr s1" "args \<noteq> []"
      "p_statements (args ! 0) (branchIf (\<not> b) s1) = Inr s2"
    and s': "s' = branchTargetOf (pc_of s1) (jumpTo (pc_of s) s2)"
    by (elim inline_binaryWhileE)
  from a 1(2) have p: "simulates_part rt ops n c inB (args ! 0) (ms ! 0)"
    by (auto simp: list_all2_conv_all_nth)
  note g1 = growingD[OF growing_part_statements[OF simulates_partD(1)[OF r]] 1(1)]
  note g2 = growingD[OF growing_part_statements[OF simulates_partD(1)[OF p]] 1(3)]
  note le = keeps_le[OF g1(1)] emitted[OF g2(1)[simplified]]
  have k1: "keeps a s1 s2" for a using keeps_past[OF g2(1)[simplified]] by simp
  have ag1: "agrees ops (pc_of s) s1"
    by (rule agrees_keeps[OF ag, of "pc_of s"]) (use k1 le in \<open>simp_all add: s'\<close>)
  have ag2: "agrees ops (Suc (pc_of s1)) s2"
    by (rule agrees_keeps[OF ag, of "Suc (pc_of s1)"]) (use le in \<open>simp_all add: s'\<close>)
  have code: "ops ! pc_of s1 = branch_op (\<not> b) (Suc (pc_of s2))" "ops ! pc_of s2 = OpJump (pc_of s)"
     "pc_of s2 < length ops"
    using agrees_nth[OF ag] agrees_length[OF ag] le
    by (simp_all add: s' set_target_nth nth_append)
  have "reach rt ops (Running (pc_of s) r0 (t @ os) w)
      (m_binaryWhile rt (m_statements mr) (m_statements (ms ! 0)) b k r0 t w) (lands n (pc_of s') os)"
    using len
  proof (induction k arbitrary: r0 t w)
    case (Suc k)
    show ?case unfolding m_binaryWhile.simps
    proof (rule reach_lands_bind[OF simulatesD[OF simulates_partD(4)[OF r] 1(1) ag1 top inB Suc.prems]],
          assumption, rule reach_branch[OF _ code(1)])
      fix v and t :: "oop list" and w :: 'w assume len: "length t = n"
      show "reach rt ops (Running (Suc (pc_of s2)) v (t @ os) w) (Done v t w) (lands n (pc_of s') os)"
        by (auto intro!: reach_Done simp: lands_def s' len)
      show "reach rt ops (Running (Suc (pc_of s1)) v (t @ os) w)
          (bind_outcome (m_statements (ms ! 0) v t w) (m_binaryWhile rt (m_statements mr) (m_statements (ms ! 0)) b k))
          (lands n (pc_of s') os)"
      proof (rule reach_lands_bind[OF simulatesD_emit[OF simulates_partD(4)[OF p] 1(3)[simplified] ag2]])
        fix v and t :: "oop list" and w :: 'w assume "length t = n"
        from Suc.IH[OF this] show "reach rt ops (Running (pc_of s2) v (t @ os) w)
            (m_binaryWhile rt (m_statements mr) (m_statements (ms ! 0)) b k v t w) (lands n (pc_of s') os)"
          by (intro reach_op[OF code(3,2)]) auto
      qed (use len g1 top inB in auto)
    qed (use code le in auto)
  qed simp
  then show "reach rt ops (Running (pc_of s) r0 (t @ os) w)
      (meant_at ms 0 (\<lambda>arg. m_binaryWhile rt (m_statements mr) (m_statements arg) b k r0 t w)) (lands n (pc_of s') os)"
    by (rule reach_meant_at)
qed

lemma simulates_repeat:
  fixes rt :: "'w runtime"
  assumes r: "simulates_part rt ops n c inB receiver mr"
  shows "simulates rt ops n c inB (inlineRepeat receiver) (m_repeat (m_statements mr) k)"
proof (rule simulatesI)
  fix s s' and os t :: "oop list" and r0 and w :: 'w
  assume *: "inlineRepeat receiver s = Inr s'" and ag: "agrees ops (pc_of s) s'"
    and top: "c \<Longrightarrow> stackTop s = int (n + length os)" and inB: "inBlock s = inB" and len: "length t = n"
  from * obtain s1 where 1: "p_statements receiver s = Inr s1" and s': "s' = jumpTo (pc_of s) s1"
    by (elim inlineRepeatE)
  note g1 = growingD[OF growing_part_statements[OF simulates_partD(1)[OF r]] 1(1)]
  have ag1: "agrees ops (pc_of s) s1" and code: "pc_of s1 < length ops" "ops ! pc_of s1 = OpJump (pc_of s)"
    using ag keeps_le[OF g1(1)] by (auto simp: s' agrees_emits)
  from len show "reach rt ops (Running (pc_of s) r0 (t @ os) w)
      (m_repeat (m_statements mr) k r0 t w) (lands n (pc_of s') os)"
  proof (induction k arbitrary: r0 t w)
    case (Suc k)
    show ?case unfolding m_repeat.simps
      by (rule reach_lands_bind[OF simulatesD[OF simulates_partD(4)[OF r] 1(1) ag1 top inB Suc.prems]],
          assumption, rule reach_op[OF code]) (use Suc.IH in auto)
  qed simp
qed

lemma simulates_not:
  fixes rt :: "'w runtime"
  assumes r: "simulates_part rt ops n c inB receiver mr"
    and a: "simulates_parts rt ops n c inB args ms"
  shows "simulates rt ops n c inB (inlineNot env b receiver args) (m_not rt env b mr ms)"
proof (rule simulatesI)
  fix s s' and os t :: "oop list" and r0 and w :: 'w
  assume *: "inlineNot env b receiver args s = Inr s'" and ag: "agrees ops (pc_of s) s'"
    and top: "c \<Longrightarrow> stackTop s = int (n + length os)" and inB: "inBlock s = inB" and len: "length t = n"
  from * obtain s1 s2 where 1: "p_visit receiver s = Inr s1" "args \<noteq> []"
      "p_statements (args ! 0) (branchIf b s1) = Inr s2"
    and s': "s' = branchTargetOf (pc_of s1) (dispatch (le_not env) 0 False s2)"
    by (elim inlineNotE)
  from a 1(2) have p: "simulates_part rt ops n c inB (args ! 0) (ms ! 0)"
    by (auto simp: list_all2_conv_all_nth)
  note g1 = growingD[OF growing_part_visit[OF simulates_partD(1)[OF r]] 1(1)]
  note g2 = growingD[OF growing_part_statements[OF simulates_partD(1)[OF p]] 1(3)]
  note le = keeps_le[OF g1(1)] emitted[OF g2(1)[simplified]]
  have k1: "keeps a s1 s2" for a using keeps_past[OF g2(1)[simplified]] by simp
  have ag1: "agrees ops (pc_of s) s1"
    by (rule agrees_keeps[OF ag, of "pc_of s"]) (use k1 le in \<open>simp_all add: s'\<close>)
  have ag2: "agrees ops (Suc (pc_of s1)) s2"
    by (rule agrees_keeps[OF ag, of "Suc (pc_of s1)"]) (use le in \<open>simp_all add: s'\<close>)
  have code: "ops ! pc_of s1 = branch_op b (Suc (pc_of s2))" "pc_of s2 < length ops"
      "ops ! pc_of s2 = OpDispatchMessage (le_not env) (length ([] :: oop list)) False"
    using agrees_nth[OF ag] agrees_length[OF ag] le
    by (simp_all add: s' set_target_nth nth_append)
  show "reach rt ops (Running (pc_of s) r0 (t @ os) w) (m_not rt env b mr ms r0 t w) (lands n (pc_of s') os)"
    unfolding m_not_def
  proof (rule reach_lands_bind[OF simulatesD[OF simulates_partD(3)[OF r] 1(1) ag1 top inB len]],
      assumption, rule reach_meant_at, rule reach_branch)
    fix v and t :: "oop list" and w :: 'w assume len: "length t = n"
    show "reach rt ops (Running (Suc (pc_of s2)) v (t @ os) w) (Done v t w) (lands n (pc_of s') os)"
      by (rule reach_Done) (simp add: lands_def s' len)
    have send: "reach rt ops (Running (pc_of s2) v (t @ os) w) (m_send rt (le_not env) False [] v t w)
        (lands n (pc_of s') os)" if "length t = n" for v t and w :: 'w
    proof -
      have "reach rt ops (Running (pc_of s2) v ((t @ os) @ []) w) (m_send rt (le_not env) False [] v t w)
          (lands n (pc_of s') os)"
        by (rule reach_send[OF code(2,3)]) (auto intro!: reach_Done simp: lands_def s' that)
      then show ?thesis by simp
    qed
    show "reach rt ops (Running (Suc (pc_of s1)) v (t @ os) w)
        (bind_outcome (m_statements (ms ! 0) v t w) (m_send rt (le_not env) False [])) (lands n (pc_of s') os)"
      by (rule reach_lands_bind[OF simulatesD_emit[OF simulates_partD(4)[OF p] 1(3)[simplified] ag2]])
         (use g1 top inB len send in auto)
  qed (use code le in auto)
qed


lemma counted_loop_code:
  assumes "counted_loop env index body s = Inr s'" "agrees ops (pc_of s) s'" "growing_part c body"
  obtains s1 u where
    "u = send_made (OpLoadRfromFrame index) (le_greaterThan env) (OpLoadRfromFrame (stackTop s)) s"
    "agrees ops (pc_of s) u" "ops ! pc_of u = branch_op True (pc_of s')" "pc_of u < length ops"
    "p_statements body (emit (branch_op True 0) u) = Inr s1" "agrees ops (Suc (pc_of u)) s1"
    "agrees ops (pc_of s1) (send_made (OpLoadRfromFrame index) (le_plus env) (OpLiteral (le_one env)) s1)"
    "ops ! (pc_of s1 + 7) = OpStoreRintoFrame index" "ops ! (pc_of s1 + 8) = OpJump (pc_of s)"
    "pc_of s' = pc_of s1 + 9" "pc_of s1 + 8 < length ops"
proof -
  from assms(1) obtain s1 u where 1:
      "u = send_made (OpLoadRfromFrame index) (le_greaterThan env) (OpLoadRfromFrame (stackTop s)) s"
      "p_statements body (branchIf True u) = Inr s1"
    and s': "s' = branchTargetOf (pc_of u) (jumpTo (pc_of s) (storeRintoFrameAt index
       (send_made (OpLoadRfromFrame index) (le_plus env) (OpLiteral (le_one env)) s1)))"
    by (elim counted_loopE)
  let ?v = "send_made (OpLoadRfromFrame index) (le_plus env) (OpLiteral (le_one env)) s1"
  note g = growingD[OF growing_part_statements[OF assms(3)] 1(2)]
  have pu: "pc_of u = pc_of s + 7" by (simp add: 1(1))
  note le = emitted[OF g(1)[simplified]]
  have k1: "keeps a u s1" for a using keeps_past[OF g(1)[simplified]] by simp
  have kv: "keeps a s1 ?v" for a by simp
  have k: "keeps a u ?v" for a using keeps_trans[OF k1 kv, of a] by simp
  have 2: "agrees ops (pc_of s) u"
    by (rule agrees_keeps[OF assms(2), of "pc_of s"]) (use k le in \<open>simp_all add: s' pu\<close>)
  have 3: "agrees ops (Suc (pc_of u)) s1"
    by (rule agrees_keeps[OF assms(2), of "Suc (pc_of u)"]) (use le pu in \<open>simp_all add: s'\<close>)
  have 4: "agrees ops (pc_of s1) ?v"
    by (rule agrees_keeps[OF assms(2), of "pc_of s1"]) (use le pu in \<open>simp_all add: s'\<close>)
  have 5: "ops ! pc_of u = branch_op True (pc_of s')" "pc_of s1 + 8 < length ops"
    "ops ! (pc_of s1 + 7) = OpStoreRintoFrame index" "ops ! (pc_of s1 + 8) = OpJump (pc_of s)"
    "pc_of s' = pc_of s1 + 9"
    using agrees_nth[OF assms(2)] agrees_length[OF assms(2)] le pu keeps_nth[OF kv, of 0 "pc_of u"]
    by (simp_all add: s' set_target_nth nth_append)
  show thesis
    by (rule that[OF 1(1) 2 5(1) _ 1(2)[simplified] 3 4 5(3,4,5,2)]) (use le 5 in simp)
qed

lemma frame_at_nth:
  assumes "i = int (Suc (length f))"
  shows "frame_at i (f @ x # g) = Inr x"
proof -
  from assms have "nat i - 1 = length f" "1 \<le> i" "nat i \<le> length (f @ x # g)" by auto
  then show ?thesis unfolding frame_at_def by simp
qed

lemma frame_at_put_nth:
  assumes "i = int (Suc (length f))"
  shows "frame_at_put i y (f @ x # g) = Inr (f @ y # g)"
proof -
  from assms have "nat i - 1 = length f" "1 \<le> i" "nat i \<le> length (f @ x # g)" by auto
  then show ?thesis unfolding frame_at_put_def by simp
qed

lemma reach_toDo_loop:
  fixes rt :: "'w runtime"
  assumes p: "simulates_part rt ops n True inB body q"
    and l: "counted_loop env index body s = Inr s'" and ag: "agrees ops (pc_of s) s'"
    and top: "stackTop s = int (Suc (n + length os))" and inB: "inBlock s = inB" and len: "length t = n"
  shows "reach rt ops (Running (pc_of s) r (t @ os @ [limit]) w)
    (m_toDo rt env index limit (m_statements q) k t w) (lands n (pc_of s') (os @ [limit]))"
proof -
  obtain s1 u where u: "u = send_made (OpLoadRfromFrame index) (le_greaterThan env) (OpLoadRfromFrame (stackTop s)) s"
    and c: "agrees ops (pc_of s) u" "ops ! pc_of u = branch_op True (pc_of s')" "pc_of u < length ops"
    "p_statements body (emit (branch_op True 0) u) = Inr s1" "agrees ops (Suc (pc_of u)) s1"
    "agrees ops (pc_of s1) (send_made (OpLoadRfromFrame index) (le_plus env) (OpLiteral (le_one env)) s1)"
    "ops ! (pc_of s1 + 7) = OpStoreRintoFrame index" "ops ! (pc_of s1 + 8) = OpJump (pc_of s)"
    "pc_of s' = pc_of s1 + 9" "pc_of s1 + 8 < length ops"
    by (rule counted_loop_code[OF l ag simulates_partD(1)[OF p]])
  have pu: "pc_of u = pc_of s + 7" by (simp add: u)
  from len show ?thesis
  proof (induction k arbitrary: r t w)
    case (Suc k)
    show ?case unfolding m_toDo.simps
    proof (rule reach_of_result, rule reach_lands_bind)
      fix i assume i: "frame_at index t = Inr i"
      have lim: "frame_at (stackTop s) (t @ os @ [limit, i]) = Inr limit"
        using frame_at_nth[of "stackTop s" "t @ os" limit "[i]"] Suc.prems top by simp
      show "reach rt ops (Running (pc_of s) r (t @ os @ [limit]) w)
          (m_send rt (le_greaterThan env) False [limit] i t w) (lands n (pc_of s + 7) (os @ [limit]))"
        by (rule reach_send_made[OF c(1)[unfolded u] _ _ Suc.prems]) (use i lim in simp_all)
    next
      fix i v and t :: "oop list" and w :: 'w assume len: "length t = n"
      show "reach rt ops (Running (pc_of s + 7) v (t @ os @ [limit]) w)
         (if jumps rt True v then Done v t w
          else bind_outcome (m_statements q v t w) (\<lambda>r t w.
               of_result (frame_at index t) (\<lambda>i.
               bind_outcome (m_send rt (le_plus env) False [le_one env] i t w) (\<lambda>i t w.
               bind_outcome (m_store index i t w) (\<lambda>r. m_toDo rt env index limit (m_statements q) k)))))
         (lands n (pc_of s') (os @ [limit]))"
      proof (fold pu, rule reach_branch[OF c(3,2)])
        show "reach rt ops (Running (pc_of s') v (t @ os @ [limit]) w) (Done v t w) (lands n (pc_of s') (os @ [limit]))"
          by (rule reach_Done) (simp add: lands_def len)
        show "reach rt ops (Running (Suc (pc_of u)) v (t @ os @ [limit]) w)
          (bind_outcome (m_statements q v t w) (\<lambda>r t w.
               of_result (frame_at index t) (\<lambda>i.
               bind_outcome (m_send rt (le_plus env) False [le_one env] i t w) (\<lambda>i t w.
               bind_outcome (m_store index i t w) (\<lambda>r. m_toDo rt env index limit (m_statements q) k)))))
          (lands n (pc_of s') (os @ [limit]))"
        proof (rule reach_lands_bind[OF simulatesD_emit[OF simulates_partD(4)[OF p] c(4,5)]], goal_cases)
          case (4 v t w)
          show ?case
          proof (rule reach_of_result, rule reach_lands_bind)
            fix i assume i: "frame_at index t = Inr i"
            show "reach rt ops (Running (pc_of s1) v (t @ os @ [limit]) w)
               (m_send rt (le_plus env) False [le_one env] i t w) (lands n (pc_of s1 + 7) (os @ [limit]))"
              by (rule reach_send_made[OF c(6) _ _ 4]) (use i in simp_all)
          next
            fix i v and t :: "oop list" and w :: 'w assume len: "length t = n"
            have st: "reach rt ops (Running (pc_of s1 + 7) v (t @ os @ [limit]) w) (m_store index v t w)
                (lands n (pc_of s1 + 8) (os @ [limit]))"
              unfolding m_store_def
              by (rule reach_of_result, rule reach_last_op[OF _ c(7)]) (use c(10) len in \<open>auto dest: frame_at_put_length\<close>)
            show "reach rt ops (Running (pc_of s1 + 7) v (t @ os @ [limit]) w)
               (bind_outcome (m_store index v t w) (\<lambda>r. m_toDo rt env index limit (m_statements q) k))
               (lands n (pc_of s') (os @ [limit]))"
              by (rule reach_lands_bind[OF st], rule reach_op[OF c(10,8)]) (use Suc.IH in auto)
          qed
        qed (use len top inB in \<open>auto simp: u\<close>)
      qed
    qed
  qed simp
qed

lemma simulates_toDo:
  fixes rt :: "'w runtime"
  assumes r: "simulates_part rt ops n True inB receiver mr"
    and a: "simulates_parts rt ops n True inB args ms"
    and f: "inline_form_of env selector = Some ToDo"
  shows "simulates rt ops n True inB (inlineToDo env receiver args) (m_inlined rt env k mr selector ms)"
proof (rule simulatesI)
  fix s s' and os t :: "oop list" and r0 and w :: 'w
  assume *: "inlineToDo env receiver args s = Inr s'" and ag: "agrees ops (pc_of s) s'"
    and top: "True \<Longrightarrow> stackTop s = int (n + length os)" and inB: "inBlock s = inB" and len: "length t = n"
  from * obtain s1 s2 s3 i ia where 1: "p_visit receiver s = Inr s1" "Suc 0 < length args"
      "p_inlinedArgs (args ! 1) = i # ia"
      "p_visit (args ! 0) (storeRintoFrameAt (uint i) s1) = Inr s2"
      "counted_loop env (uint i) (args ! 1) (pushR s2) = Inr s3"
    and s': "s' = dropToS 1 s3"
    by (elim inlineToDoE)
  from a 1(2) have p: "simulates_part rt ops n True inB (args ! 0) (ms ! 0)"
      "simulates_part rt ops n True inB (args ! 1) (ms ! 1)"
    using list_all2_nth2 by auto
  have i: "m_inlinedArgs (ms ! 1) = i # ia" using 1(3) simulates_partD(2)[OF p(2)] by simp
  note g1 = growingD[OF growing_part_visit[OF simulates_partD(1)[OF r]] 1(1)]
  note g2 = growingD[OF growing_part_visit[OF simulates_partD(1)[OF p(1)]] 1(4)]
  note g3 = growingD[OF growing_counted_loop[OF simulates_partD(1)[OF p(2)]] 1(5)]
  have k2: "keeps a s1 s2" for a using keeps_past[OF g2(1)[simplified]] by simp
  have k3: "keeps a s2 s3" for a using keeps_trans[OF _ g3(1), of a s2] by simp
  note le = keeps_le[OF g1(1)] keeps_le[OF k2] keeps_le[OF g3(1)]
  have code: "agrees ops (pc_of s) s3" "pc_of s3 < length ops" "ops ! pc_of s3 = OpDropToS 1"
    using ag le by (auto simp: s' agrees_emits)
  have ag1: "agrees ops (pc_of s) s1"
    by (rule agrees_keeps[OF code(1) keeps_trans[OF k2 k3]]) auto
  have ag2: "agrees ops (pc_of s) s2" by (rule agrees_keeps[OF code(1) k3]) simp
  have agu: "agrees ops (pc_of s1) (storeRintoFrameAt (uint i) s1)"
    by (rule agrees_keeps[OF ag2 keeps_mono[OF g2(1)]]) (use le in auto)
  have ag2': "agrees ops (Suc (pc_of s1)) s2"
    by (rule agrees_keeps[OF ag2, of "Suc (pc_of s1)"]) (use le in auto)
  have push: "ops ! pc_of s2 = OpPushR" "pc_of s2 < length ops"
    using agrees_nth[OF code(1), of "pc_of s2"] code(2) keeps_nth[OF g3(1), of "pc_of s2"] le
      keeps_le[OF g3(1)] by auto
  have ag3: "agrees ops (pc_of (pushR s2)) s3"
    by (rule agrees_keeps[OF code(1), of "pc_of (pushR s2)"]) (use le in auto)
  show "reach rt ops (Running (pc_of s) r0 (t @ os) w) (m_inlined rt env k mr selector ms r0 t w) (lands n (pc_of s') os)"
    unfolding m_inlined_def f option.case inline_form.case
  proof (rule reach_lands_bind[OF simulatesD[OF simulates_partD(3)[OF r] 1(1) ag1 top inB len]], assumption,
      rule reach_meant_at, rule reach_meant_at, unfold i list.case,
      rule reach_lands_bind[OF reach_store[OF agu]], assumption,
      rule reach_lands_bind[OF simulatesD_emit[OF simulates_partD(3)[OF p(1)] 1(4)[simplified] ag2']], goal_cases)
    case (4 _ _ _ _ _ _ l t w)
    have "reach rt ops (Running (pc_of (pushR s2)) l (t @ os @ [l]) w)
        (m_toDo rt env (uint i) l (m_statements (ms ! 1)) k t w) (lands n (pc_of s3) (os @ [l]))"
      by (rule reach_toDo_loop[OF p(2) 1(5) ag3 _ _ 4(5)]) (use g1 g2 top inB in auto)
    then have "reach rt ops (Running (pc_of (pushR s2)) l (t @ os @ [l]) w)
        (m_toDo rt env (uint i) l (m_statements (ms ! 1)) k t w) (lands n (pc_of s') os)"
    proof (rule reach_lands_then)
      fix v and t :: "oop list" and w :: 'w assume "length t = n"
      then show "reach rt ops (Running (pc_of s3) v (t @ os @ [l]) w) (Done v t w) (lands n (pc_of s') os)"
        by (intro reach_last_op[OF code(2,3)])
           (use frame_drop_append[of "Suc 0" "[l]" "t @ os"] in \<open>auto simp: s'\<close>)
    qed
    then show ?case
      by (intro reach_op[OF push(2,1)]) auto
  qed (use g1 top inB in auto)
qed

lemma reach_timesRepeat_loop:
  fixes rt :: "'w runtime"
  assumes p: "simulates_part rt ops n True inB body q"
    and l: "counted_loop env index body s = Inr s'" and ag: "agrees ops (pc_of s) s'"
    and index: "index = int (Suc (n + length os))" "stackTop s = index + 1"
    and inB: "inBlock s = inB" and len: "length t = n"
  shows "reach rt ops (Running (pc_of s) r (t @ os @ [i, limit]) w)
    (bind_outcome (m_timesRepeat rt env limit (m_statements q) k i t w) Done) 
    (\<lambda>v t w st. \<exists>j. lands n (pc_of s') (os @ [j, limit]) v t w st)"
proof -
  obtain s1 u where u: "u = send_made (OpLoadRfromFrame index) (le_greaterThan env) (OpLoadRfromFrame (stackTop s)) s"
    and c: "agrees ops (pc_of s) u" "ops ! pc_of u = branch_op True (pc_of s')" "pc_of u < length ops"
    "p_statements body (emit (branch_op True 0) u) = Inr s1" "agrees ops (Suc (pc_of u)) s1"
    "agrees ops (pc_of s1) (send_made (OpLoadRfromFrame index) (le_plus env) (OpLiteral (le_one env)) s1)"
    "ops ! (pc_of s1 + 7) = OpStoreRintoFrame index" "ops ! (pc_of s1 + 8) = OpJump (pc_of s)"
    "pc_of s' = pc_of s1 + 9" "pc_of s1 + 8 < length ops"
    by (rule counted_loop_code[OF l ag simulates_partD(1)[OF p]])
  have pu: "pc_of u = pc_of s + 7" by (simp add: u)
  have at: "frame_at index (t @ os @ i # g) = Inr i" if "length t = n" for t i g
    using frame_at_nth[of index "t @ os" i g] that index by simp
  have put: "frame_at_put index j (t @ os @ i # g) = Inr (t @ os @ j # g)" if "length t = n" for t i g j
    using frame_at_put_nth[of index "t @ os" j i g] that index by simp
  have lim: "frame_at (stackTop s) (t @ os @ [i, limit, x]) = Inr limit" if "length t = n" for t i x
    using frame_at_nth[of "stackTop s" "t @ os @ [i]" limit "[x]"] that index by simp
  from len have "reach rt ops (Running (pc_of s) r (t @ os @ [i, limit]) w)
    (m_timesRepeat rt env limit (m_statements q) k i t w)
    (\<lambda>v t w st. \<exists>j. lands n (pc_of s') (os @ [j, limit]) v t w st)"
  proof (induction k arbitrary: r i t w)
    case (Suc k)
    show ?case unfolding m_timesRepeat.simps
    proof (rule reach_lands_bind)
      show "reach rt ops (Running (pc_of s) r (t @ os @ [i, limit]) w)
          (m_send rt (le_greaterThan env) False [limit] i t w) (lands n (pc_of s + 7) (os @ [i, limit]))"
        by (rule reach_send_made[OF c(1)[unfolded u] _ _ Suc.prems])
           (use at lim Suc.prems in simp_all)
    next
      fix v and t :: "oop list" and w :: 'w assume len: "length t = n"
      show "reach rt ops (Running (pc_of s + 7) v (t @ os @ [i, limit]) w)
         (if jumps rt True v then Done v t w
          else bind_outcome (m_statements q v t w) (\<lambda>r t w.
               bind_outcome (m_send rt (le_plus env) False [le_one env] i t w) (\<lambda>i t w.
               m_timesRepeat rt env limit (m_statements q) k i t w)))
         (\<lambda>v t w st. \<exists>j. lands n (pc_of s') (os @ [j, limit]) v t w st)"
      proof (fold pu, rule reach_branch[OF c(3,2)])
        show "reach rt ops (Running (pc_of s') v (t @ os @ [i, limit]) w) (Done v t w)
            (\<lambda>v t w st. \<exists>j. lands n (pc_of s') (os @ [j, limit]) v t w st)"
          by (rule reach_Done) (auto simp: lands_def len)
        show "reach rt ops (Running (Suc (pc_of u)) v (t @ os @ [i, limit]) w)
          (bind_outcome (m_statements q v t w) (\<lambda>r t w.
               bind_outcome (m_send rt (le_plus env) False [le_one env] i t w) (\<lambda>i t w.
               m_timesRepeat rt env limit (m_statements q) k i t w)))
          (\<lambda>v t w st. \<exists>j. lands n (pc_of s') (os @ [j, limit]) v t w st)"
        proof (rule reach_lands_bind[OF simulatesD_emit[OF simulates_partD(4)[OF p] c(4,5)]], goal_cases)
          case (4 v t w)
          show ?case
          proof (rule reach_lands_bind)
            show "reach rt ops (Running (pc_of s1) v (t @ os @ [i, limit]) w)
               (m_send rt (le_plus env) False [le_one env] i t w) (lands n (pc_of s1 + 7) (os @ [i, limit]))"
              by (rule reach_send_made[OF c(6) _ _ 4]) (use at 4 in simp_all)
          next
            fix v and t :: "oop list" and w :: 'w assume len: "length t = n"
            show "reach rt ops (Running (pc_of s1 + 7) v (t @ os @ [i, limit]) w)
               (m_timesRepeat rt env limit (m_statements q) k v t w)
               (\<lambda>v t w st. \<exists>j. lands n (pc_of s') (os @ [j, limit]) v t w st)"
              apply (rule reach_op[OF _ c(7), where st'="Running (pc_of s1 + 8) v (t @ os @ [v, limit]) w"])
              using c(10) put[OF len] apply auto[2]
              by (rule reach_op[OF c(10,8)]) (use Suc.IH len in auto)
          qed
        qed (use len index inB in \<open>auto simp: u\<close>)
      qed
    qed
  qed simp
  then show ?thesis by (rule reach_bind) (auto intro: reach_Done)
qed

lemma simulates_timesRepeat:
  fixes rt :: "'w runtime"
  assumes r: "simulates_part rt ops n True inB receiver mr"
    and a: "simulates_parts rt ops n True inB args ms"
    and f: "inline_form_of env selector = Some TimesRepeat"
  shows "simulates rt ops n True inB (inlineTimesRepeat env receiver args) (m_inlined rt env k mr selector ms)"
proof (rule simulatesI)
  fix s s' and os t :: "oop list" and r0 and w :: 'w
  assume *: "inlineTimesRepeat env receiver args s = Inr s'" and ag: "agrees ops (pc_of s) s'"
    and top: "True \<Longrightarrow> stackTop s = int (n + length os)" and inB: "inBlock s = inB" and len: "length t = n"
  let ?one = "le_one env" and ?s0 = "pushR (emit (OpLiteral (le_one env)) s)"
  from * obtain s1 s3 where 1: "p_visit receiver ?s0 = Inr s1"
      "args \<noteq> []" "counted_loop env (stackTop s + 1) (args ! 0) (pushR s1) = Inr s3"
    and s': "s' = dropToS 2 s3"
    by (elim inlineTimesRepeatE)
  from a 1(2) have p: "simulates_part rt ops n True inB (args ! 0) (ms ! 0)"
    by (auto simp: list_all2_conv_all_nth)
  note g1 = growingD[OF growing_part_visit[OF simulates_partD(1)[OF r]] 1(1)]
  note g3 = growingD[OF growing_counted_loop[OF simulates_partD(1)[OF p]] 1(3)]
  have k3: "keeps a s1 s3" for a using keeps_trans[OF _ g3(1), of a s1] by simp
  have k0: "keeps a ?s0 s3" for a by (rule keeps_trans[OF keeps_mono[OF g1(1)] k3[of a]]) simp
  note le = keeps_le[OF g1(1)] keeps_le[OF k3] keeps_le[OF g3(1)]
  have code: "agrees ops (pc_of s) s3" "pc_of s3 < length ops" "ops ! pc_of s3 = OpDropToS 2"
    using ag le by (auto simp: s' agrees_emits)
  have "agrees ops (pc_of s) ?s0" by (rule agrees_keeps[OF code(1) k0]) simp
  then have lit: "ops ! pc_of s = OpLiteral ?one" "ops ! Suc (pc_of s) = OpPushR" "Suc (pc_of s) < length ops"
    by (auto simp: agrees_emits)
  have ag1: "agrees ops (pc_of ?s0) s1" by (rule agrees_keeps[OF code(1) k3]) simp
  have push: "ops ! pc_of s1 = OpPushR" "pc_of s1 < length ops"
    using agrees_nth[OF code(1), of "pc_of s1"] code(2) keeps_nth[OF g3(1), of "pc_of s1"] le
    by auto
  have ag3: "agrees ops (pc_of (pushR s1)) s3"
    by (rule agrees_keeps[OF code(1), of "pc_of (pushR s1)"]) (use le g3 in \<open>auto intro: keeps_mono\<close>)
  have st: "reach rt ops (Running (pc_of ?s0) ?one (t @ os @ [?one]) w)
      (m_inlined rt env k mr selector ms r0 t w) (lands n (pc_of s') os)"
    unfolding m_inlined_def f option.case inline_form.case
  proof (rule reach_lands_bind[OF simulatesD[OF simulates_partD(3)[OF r] 1(1) ag1 _ _ len]], goal_cases)
    case (3 l t w)
    show ?case
    proof (rule reach_meant_at, rule reach_op[OF push(2,1)])
      show "perform rt OpPushR (Suc (pc_of s1)) l (t @ os @ [?one]) w =
          Inr (Running (pc_of (pushR s1)) l (t @ os @ [?one, l]) w)" by simp
      have "reach rt ops (Running (pc_of (pushR s1)) l (t @ os @ [?one, l]) w)
         (bind_outcome (m_timesRepeat rt env l (m_statements (ms ! 0)) k ?one t w) Done)
         (\<lambda>v t w st. \<exists>j. lands n (pc_of s3) (os @ [j, l]) v t w st)"
        by (rule reach_timesRepeat_loop[OF p 1(3) ag3 _ _ _ 3]) (use g1 top inB in auto)
      moreover have "bind_outcome out Done = out" for out :: "(oop, 'w) outcome" by (cases out) auto
      ultimately have "reach rt ops (Running (pc_of (pushR s1)) l (t @ os @ [?one, l]) w)
         (m_timesRepeat rt env l (m_statements (ms ! 0)) k ?one t w)
         (\<lambda>v t w st. \<exists>j. lands n (pc_of s3) (os @ [j, l]) v t w st)" by simp
      then show "reach rt ops (Running (pc_of (pushR s1)) l (t @ os @ [?one, l]) w)
         (m_timesRepeat rt env l (m_statements (ms ! 0)) k ?one t w) (lands n (pc_of s') os)"
      proof (rule reach_then)
        fix v t st and w :: 'w assume "\<exists>j. lands n (pc_of s3) (os @ [j, l]) v t w st"
        then obtain j where st: "st = Running (pc_of s3) v (t @ os @ [j, l]) w" "length t = n"
          by (auto simp: lands_def)
        show "reach rt ops st (Done v t w) (lands n (pc_of s') os)"
          unfolding st(1)
          by (rule reach_last_op[OF code(2,3)])
             (use frame_drop_append[of 2 "[j, l]" "t @ os"] st(2) in \<open>auto simp: s'\<close>)
      qed
    qed
  qed (use top inB in auto)
  show "reach rt ops (Running (pc_of s) r0 (t @ os) w) (m_inlined rt env k mr selector ms r0 t w) (lands n (pc_of s') os)"
    apply (rule reach_op[OF _ lit(1)])
    using lit(3) apply auto[2]
    apply (rule reach_op[OF lit(3,2)])
    using st by auto
qed


lemma with_target_twice [simp]: "with_target t (with_target u x) = with_target t x"
  by (cases x) auto

lemma set_targets_nth:
  "i < pc_of s \<Longrightarrow> operations (set_targets bs s) ! i =
     (if i \<in> set bs then with_target (pc_of s) (operations s ! i) else operations s ! i)"
  by (induction bs arbitrary: s) (auto simp: set_target_nth)

lemma reach_chain:
  fixes rt :: "'w runtime"
  assumes "visitChain b ps bs s = Inr (bs', s2)" "simulates_parts rt ops n c inB ps qs"
    "\<forall>x\<in>set bs. x < pc_of s" "pc_of s2 \<le> length ops"
    "\<And>i. pc_of s \<le> i \<Longrightarrow> i < pc_of s2 \<Longrightarrow>
       ops ! i = (if i \<in> set bs' then with_target (pc_of s2) (operations s2 ! i) else operations s2 ! i)"
    "c \<Longrightarrow> stackTop s = int (n + length os)" "inBlock s = inB" "length t = n"
  shows "reach rt ops (Running (pc_of s) r (t @ os) w) (m_chain rt b qs r t w) (lands n (pc_of s2) os)"
  using assms
proof (induction b ps bs s arbitrary: qs r t w rule: visitChain.induct)
  case (1 b bs s)
  then show ?case by (auto intro!: reach_Done simp: lands_def)
next
  case (2 b p ps bs s)
  then obtain q qs' where qs: "qs = q # qs'" and pq: "simulates_part rt ops n c inB p q"
      and pqs: "simulates_parts rt ops n c inB ps qs'" by (auto simp: list_all2_Cons1)
  from "2.prems"(1) obtain s1 where 1: "p_statements p (branchIf b s) = Inr s1"
      "visitChain b ps (bs @ [pc_of s]) s1 = Inr (bs', s2)"
    by (auto simp: bind_result_eq_Inr)
  note g1 = growingD[OF growing_part_statements[OF simulates_partD(1)[OF pq]] 1(1)]
  from visitChain_grows[OF 1(2) simulates_parts_growing[OF pqs]] obtain cs
    where k2: "keeps 0 s1 s2" and bs': "bs' = (bs @ [pc_of s]) @ cs" "\<forall>x\<in>set cs. pc_of s1 \<le> x" by auto
  note le = emitted[OF g1(1)[simplified]] keeps_le[OF k2]
  have op: "ops ! pc_of s = branch_op b (pc_of s2)"
    using "2.prems"(5)[of "pc_of s"] le keeps_nth[OF k2, of "pc_of s"] by (simp add: bs')
  have ag1: "agrees ops (Suc (pc_of s)) s1"
    unfolding agrees_def
  proof (intro conjI allI impI)
    show "pc_of s1 \<le> length ops" using le "2.prems"(4) by simp
    fix i assume i: "Suc (pc_of s) \<le> i \<and> i < pc_of s1"
    then have "i \<notin> set bs'" using bs' "2.prems"(3) by auto
    with i show "ops ! i = operations s1 ! i"
      using "2.prems"(5)[of i] le keeps_nth[OF k2, of i] by simp
  qed
  show ?case unfolding qs m_chain.simps
  proof (rule reach_branch[OF _ op])
    show "pc_of s < length ops" using le "2.prems"(4) by simp
    show "reach rt ops (Running (pc_of s2) r (t @ os) w) (Done r t w) (lands n (pc_of s2) os)"
      by (rule reach_Done) (simp add: lands_def "2.prems"(8))
    show "reach rt ops (Running (Suc (pc_of s)) r (t @ os) w)
        (bind_outcome (m_statements q r t w) (m_chain rt b qs')) (lands n (pc_of s2) os)"
    proof (rule reach_lands_bind[OF simulatesD_emit[OF simulates_partD(4)[OF pq] 1(1)[simplified] ag1]], goal_cases)
      case (4 v t w)
      show ?case
        by (rule "2.IH"[OF _ _ pqs])
           (use 1 "2.prems" bs' le g1 4 in \<open>auto simp: nth_append\<close>)
    qed (use "2.prems" in auto)
  qed
qed

lemma simulates_chain:
  fixes rt :: "'w runtime"
  assumes r: "simulates_part rt ops n c inB receiver mr"
    and a: "simulates_parts rt ops n c inB args ms"
  shows "simulates rt ops n c inB (inlineChain b receiver args)
    (\<lambda>r t w. bind_outcome (m_visit mr r t w) (m_chain rt b ms))"
proof (rule simulatesI)
  fix s s' and os t :: "oop list" and r0 and w :: 'w
  assume *: "inlineChain b receiver args s = Inr s'" and ag: "agrees ops (pc_of s) s'"
    and top: "c \<Longrightarrow> stackTop s = int (n + length os)" and inB: "inBlock s = inB" and len: "length t = n"
  from * obtain s1 s2 bs where 1: "p_visit receiver s = Inr s1" "visitChain b args [] s1 = Inr (bs, s2)"
    and s': "s' = set_targets bs s2"
    by (elim inlineChainE)
  note g1 = growingD[OF growing_part_visit[OF simulates_partD(1)[OF r]] 1(1)]
  from visitChain_grows[OF 1(2) simulates_parts_growing[OF a]]
  have k2: "keeps 0 s1 s2" and bs: "\<forall>x\<in>set bs. pc_of s1 \<le> x" by auto
  have ag1: "agrees ops (pc_of s) s1"
    by (rule agrees_keeps[OF ag, of "pc_of s"])
       (use bs keeps_mono[OF k2] in \<open>auto simp: s' intro!: keeps_set_targets\<close>)
  show "reach rt ops (Running (pc_of s) r0 (t @ os) w)
      (bind_outcome (m_visit mr r0 t w) (m_chain rt b ms)) (lands n (pc_of s') os)"
  proof (rule reach_lands_bind[OF simulatesD[OF simulates_partD(3)[OF r] 1(1) ag1 top inB len]], assumption)
    fix v and t :: "oop list" and w :: 'w assume "length t = n"
    then show "reach rt ops (Running (pc_of s1) v (t @ os) w) (m_chain rt b ms v t w) (lands n (pc_of s') os)"
      unfolding s' set_targets_simps
      by (intro reach_chain[OF 1(2) a])
         (use agrees_length[OF ag] agrees_nth[OF ag] keeps_le[OF g1(1)] top inB g1 in
           \<open>auto simp: s' set_targets_nth\<close>)
  qed
qed

lemma simulates_inlined:
  fixes rt :: "'w runtime"
  assumes r: "simulates_part rt ops n c inB receiver mr"
    and a: "simulates_parts rt ops n c inB args ms"
    and f: "form_balanced c (inline_form_of env selector)"
  shows "simulates rt ops n c inB (visitInlinedMessage env receiver selector args) (m_inlined rt env k mr selector ms)"
proof (cases "inline_form_of env selector")
  case None
  then show ?thesis by (simp add: simulates_def visitInlinedMessage_def)
next
  case (Some form)
  note defs = visitInlinedMessage_def[abs_def] m_inlined_def[abs_def] Some option.case inline_form.case
  have c: "c = True" if "form = ToDo \<or> form = TimesRepeat"
    using f that by (auto simp: Some)
  show ?thesis
  proof (cases form)
    case (If b) then show ?thesis using simulates_if[OF r a] by (simp add: defs)
  next
    case (IfNil b) then show ?thesis using simulates_ifNil[OF r a] f by (simp add: defs)
  next
    case (IfNilIfNotNil b) then show ?thesis using simulates_ifNilIfNotNil[OF r a] by (simp add: defs)
  next
    case (IfTrueIfFalse b) then show ?thesis using simulates_ifTrueIfFalse[OF r a] by (simp add: defs)
  next
    case (UnitaryWhile b) then show ?thesis using simulates_unitaryWhile[OF r] by (simp add: defs)
  next
    case (BinaryWhile b) then show ?thesis using simulates_binaryWhile[OF r a] by (simp add: defs)
  next
    case Repeat then show ?thesis using simulates_repeat[OF r] by (simp add: defs)
  next
    case ToDo
    with simulates_toDo[of rt ops n inB receiver mr args ms env selector k] r a c Some
    show ?thesis by (simp add: visitInlinedMessage_def[abs_def])
  next
    case ToByDo then show ?thesis by (simp add: simulates_def visitInlinedMessage_def Some)
  next
    case TimesRepeat
    with simulates_timesRepeat[of rt ops n inB receiver mr args ms env selector k] r a c Some
    show ?thesis by (simp add: visitInlinedMessage_def[abs_def])
  next
    case AndNot then show ?thesis using simulates_not[OF r a] by (simp add: defs)
  next
    case OrNot then show ?thesis using simulates_not[OF r a] by (simp add: defs)
  next
    case Or then show ?thesis using simulates_chain[OF r a] by (simp add: defs)
  next
    case And then show ?thesis using simulates_chain[OF r a] by (simp add: defs)
  qed
qed

end
