(* ===== verification/CompiledTrees.thy ===== *)
theory CompiledTrees
  imports InlinedMessages
begin

text \<open>
  Correctness of the linearizer: the operations of a tree take the evaluator where the meaning of the
  tree says (\<open>simulates_visit\<close>, by induction on the tree), and so do the operations of a method, of a
  method with a primitive and of a block.
\<close>

section \<open>Trees run as they mean\<close>

definition simulates_args ::
    "'w runtime \<Rightarrow> op list \<Rightarrow> nat \<Rightarrow> bool \<Rightarrow> bool \<Rightarrow> nat \<Rightarrow> (linearizer \<Rightarrow> linearizer result) \<Rightarrow> 'w meanings \<Rightarrow> bool" where
  "simulates_args rt ops n c inB m f d \<longleftrightarrow>
     (\<forall>s s' os r t w. f s = Inr s' \<longrightarrow> agrees ops (pc_of s) s' \<longrightarrow>
        (c \<longrightarrow> stackTop s = int (n + length os)) \<longrightarrow> inBlock s = inB \<longrightarrow> length t = n \<longrightarrow>
        reach rt ops (Running (pc_of s) r (t @ os) w) (d r t w)
          (\<lambda>vs t w st. length vs = m \<and> length t = n \<and> (\<exists>r. st = Running (pc_of s') r (t @ os @ vs) w)))"

definition simulates_cascade ::
    "'w runtime \<Rightarrow> op list \<Rightarrow> nat \<Rightarrow> bool \<Rightarrow> bool \<Rightarrow> (linearizer \<Rightarrow> linearizer result) \<Rightarrow> (oop \<Rightarrow> 'w meaning) \<Rightarrow> bool" where
  "simulates_cascade rt ops n c inB f d \<longleftrightarrow>
     (\<forall>s s' os v r t w. f s = Inr s' \<longrightarrow> agrees ops (pc_of s) s' \<longrightarrow>
        (c \<longrightarrow> stackTop s = int (Suc (n + length os))) \<longrightarrow> inBlock s = inB \<longrightarrow> length t = n \<longrightarrow>
        reach rt ops (Running (pc_of s) r (t @ os @ [v]) w) (d v r t w) (lands n (pc_of s') (os @ [v])))"

lemma grew_keeps: "grew c k s s' \<Longrightarrow> keeps 0 s s'"
  by (simp add: grew_def)

lemma simulates_then:
  fixes rt :: "'w runtime"
  assumes "simulates rt ops n c inB f d" "simulates rt ops n c inB g e"
    "growing c f" "growing c g"
  shows "simulates rt ops n c inB (\<lambda>s. bind_result (f s) g) (m_then d e)"
proof (rule simulatesI)
  fix s s' and os t :: "oop list" and r0 and w :: 'w
  assume *: "bind_result (f s) g = Inr s'" and ag: "agrees ops (pc_of s) s'"
    and top: "c \<Longrightarrow> stackTop s = int (n + length os)" and inB: "inBlock s = inB" and len: "length t = n"
  from * obtain s1 where 1: "f s = Inr s1" "g s1 = Inr s'" by (auto simp: bind_result_eq_Inr)
  note g1 = growingD[OF assms(3) 1(1)] and g2 = growingD[OF assms(4) 1(2)]
  have ag1: "agrees ops (pc_of s) s1" by (rule agrees_keeps[OF ag keeps_mono[OF g2(1)]]) simp
  have ag2: "agrees ops (pc_of s1) s'" by (rule agrees_keeps[OF ag keeps_refl]) (rule keeps_le[OF g1(1)])
  show "reach rt ops (Running (pc_of s) r0 (t @ os) w) (m_then d e r0 t w) (lands n (pc_of s') os)"
    unfolding m_then_def
    by (rule reach_lands_bind[OF simulatesD[OF assms(1) 1(1) ag1 top inB len]], assumption,
        rule simulatesD[OF assms(2) 1(2) ag2]) (use g1 top inB in auto)
qed

lemma simulates_emit:
  fixes rt :: "'w runtime"
  assumes "\<And>pc r t w os. length t = n \<Longrightarrow> pc < length ops \<Longrightarrow> ops ! pc = x \<Longrightarrow>
    reach rt ops (Running pc r (t @ os) w) (d r t w) (lands n (Suc pc) os)"
  shows "simulates rt ops n c inB (\<lambda>s. Inr (emit x s)) d"
  by (rule simulatesI) (use assms in \<open>auto simp: agrees_emits\<close>)

lemma growing_emit: "growing c (\<lambda>s. Inr (emit x s))"
  by (simp add: growing_def)

lemma simulates_identifier:
  "simulates rt ops n c inB (\<lambda>s. Inr (emit (OpIdentifier b) s)) (m_identifier rt b)"
  unfolding m_identifier_def
  by (intro simulates_emit reach_of_result reach_last_op[where x="OpIdentifier b"]) (auto simp: valueWithin_append)

lemma simulates_literal:
  "simulates rt ops n c inB (\<lambda>s. Inr (emit (OpLiteral v) s)) (m_literal v)"
  unfolding m_literal_def
  by (intro simulates_emit reach_last_op[where x="OpLiteral v"]) auto

lemma simulates_assign:
  "simulates rt ops n c inB (\<lambda>s. Inr (emit (OpAssign bs) s)) (m_assign rt bs)"
  unfolding m_assign_def
proof (intro simulates_emit reach_of_result)
  fix pc r t w os p
  assume *: "length t = n" "pc < length ops" "ops ! pc = OpAssign bs" "assign_all rt bs r t w = Inr p"
  obtain t' w' where p: "p = (t', w')" by (cases p)
  with * assign_all_append[of rt bs r t w t' w' os]
  show "reach rt ops (Running pc r (t @ os) w) (case p of (t, w) \<Rightarrow> Done r t w) (lands n (Suc pc) os)"
    by (auto intro!: reach_last_op[OF *(2,3)])
qed

lemma simulates_closure:
  "simulates rt ops n c inB (\<lambda>s. Inr (emit (OpBlock code captured) s)) (m_closure rt code captured)"
  unfolding m_closure_def
proof (intro simulates_emit reach_of_result)
  fix pc r t w os p
  assume *: "length t = n" "pc < length ops" "ops ! pc = OpBlock code captured"
    "captureClosure rt code captured t w = Inr p"
  obtain v w' where p: "p = (v, w')" by (cases p)
  with * captureClosure_append[of rt code captured t w p os]
  show "reach rt ops (Running pc r (t @ os) w) (case p of (v, w) \<Rightarrow> Done v t w) (lands n (Suc pc) os)"
    by (auto intro!: reach_last_op[OF *(2,3)])
qed

lemma simulates_return:
  "simulates rt ops n c inB (\<lambda>s. Inr (emit (if l \<and> \<not> inBlock s then OpReturn else OpNonLocalReturn) s))
     (m_return (l \<and> \<not> inB))"
proof (rule simulatesI)
  fix s s' os r t w
  assume *: "Inr (emit (if l \<and> \<not> inBlock s then OpReturn else OpNonLocalReturn) s) = (Inr s' :: linearizer result)"
    "agrees ops (pc_of s) s'" "inBlock s = inB"
  let ?x = "if l \<and> \<not> inB then OpReturn else OpNonLocalReturn"
  from * have "pc_of s < length ops" "ops ! pc_of s = ?x" by (auto simp: agrees_emits)
  then have "step rt ops (Running (pc_of s) r (t @ os) w) = Inr (left_state (l \<and> \<not> inB) r (t @ os) w)"
    by (auto simp: left_state_def)
  from runs_step[OF this runs_refl]
  show "reach rt ops (Running (pc_of s) r (t @ os) w) (m_return (l \<and> \<not> inB) r t w) (lands n (pc_of s') os)"
    by (auto simp: reach_def m_return_def)
qed

lemma simulates_eq: "simulates rt ops n c inB f d \<Longrightarrow> (\<And>s. inBlock s = inB \<Longrightarrow> f s = g s) \<Longrightarrow> simulates rt ops n c inB g d"
  by (simp add: simulates_def)

text \<open>The sends: with \<open>R\<close> loaded from below the arguments, dispatch, and drop.\<close>

lemma reach_loaded_send:
  fixes rt :: "'w runtime"
  assumes ops: "ops ! pc = OpLoadRfromStack (length vs)" "ops ! Suc pc = OpDispatchMessage selector (length vs) super"
      "ops ! Suc (Suc pc) = OpDropToS k" "Suc (Suc pc) < length ops"
    and drop: "\<And>w t. length t = n \<Longrightarrow> frame_drop k (t @ os @ v # vs) = Inr (t @ os')" and len: "length t = n"
  shows "reach rt ops (Running pc r (t @ os @ v # vs) w) (m_send rt selector super vs v t w)
    (lands n (pc + 3) os')"
proof (rule reach_op[OF _ ops(1)])
  show "perform rt (OpLoadRfromStack (length vs)) (Suc pc) r (t @ os @ v # vs) w =
      Inr (Running (Suc pc) v ((t @ os @ [v]) @ vs) w)"
    using frame_operand_at_append[of "length vs" vs "t @ os" v] by simp
  show "reach rt ops (Running (Suc pc) v ((t @ os @ [v]) @ vs) w) (m_send rt selector super vs v t w)
      (lands n (pc + 3) os')"
  proof (rule reach_send[OF _ ops(2)])
    fix x and w' :: 'w
    show "reach rt ops (Running (Suc (Suc pc)) x ((t @ os @ [v]) @ vs) w') (Done x t w') (lands n (pc + 3) os')"
      by (rule reach_last_op[OF _ ops(3)]) (use ops drop len in auto)
  qed (use ops in simp)
qed (use ops in simp)


lemma simulates_message:
  fixes rt :: "'w runtime"
  assumes d: "simulates rt ops n c inB f d" "growing c f"
    and ds: "simulates_args rt ops n c inB m g ds" "\<And>s s'. g s = Inr s' \<Longrightarrow> grew c (int m) s s'"
    and none: "m = 0 \<Longrightarrow> g = Inr \<and> ds = m_nil"
  shows "simulates rt ops n c inB
    (\<lambda>s. bind_result (f s) (\<lambda>s. bind_result (g (if m = 0 then s else pushR s)) (\<lambda>s.
       Inr (dropMessageArgs m (dispatch selector m super
         (if m = 0 then s else emit (OpLoadRfromStack m) s))))))
    (m_message rt selector super d ds)"
proof (rule simulatesI)
  fix s s' and os t :: "oop list" and r0 and w :: 'w
  assume *: "bind_result (f s) (\<lambda>s. bind_result (g (if m = 0 then s else pushR s)) (\<lambda>s.
       Inr (dropMessageArgs m (dispatch selector m super
         (if m = 0 then s else emit (OpLoadRfromStack m) s))))) = Inr s'"
    and ag: "agrees ops (pc_of s) s'"
    and top: "c \<Longrightarrow> stackTop s = int (n + length os)" and inB: "inBlock s = inB" and len: "length t = n"
  from * obtain s1 s2 where 1: "f s = Inr s1" "g (if m = 0 then s1 else pushR s1) = Inr s2"
    and s': "s' = dropMessageArgs m (dispatch selector m super
         (if m = 0 then s2 else emit (OpLoadRfromStack m) s2))"
    by (auto simp: bind_result_eq_Inr)
  note g1 = growingD[OF d(2) 1(1)]
  note g2 = grew_keeps[OF ds(2)[OF 1(2)]]
  show "reach rt ops (Running (pc_of s) r0 (t @ os) w) (m_message rt selector super d ds r0 t w) (lands n (pc_of s') os)"
  proof (cases "m = 0")
    case True
    with none 1 have s2: "s2 = s1" by simp
    have ag1: "agrees ops (pc_of s) s1" and op: "pc_of s1 < length ops"
        "ops ! pc_of s1 = OpDispatchMessage selector (length ([] :: oop list)) super"
      using ag True keeps_le[OF g1(1)] by (auto simp: s' s2 dropMessageArgs_def agrees_emits)
    show ?thesis
      unfolding m_message_def
    proof (rule reach_lands_bind[OF simulatesD[OF d(1) 1(1) ag1 top inB len]], assumption)
      fix v and t :: "oop list" and w :: 'w assume len: "length t = n"
      have "reach rt ops (Running (pc_of s1) v ((t @ os) @ []) w) (m_send rt selector super [] v t w) (lands n (pc_of s') os)"
        by (rule reach_send[OF op]) (use True len in \<open>auto intro!: reach_Done simp: lands_def s' s2 dropMessageArgs_def\<close>)
      then show "reach rt ops (Running (pc_of s1) v (t @ os) w)
         (bind_outcome (ds v t w) (\<lambda>vs. m_send rt selector super vs v)) (lands n (pc_of s') os)"
        using none True by (simp add: m_nil_def)
    qed
  next
    case False
    have code: "agrees ops (pc_of s) s2" "ops ! pc_of s2 = OpLoadRfromStack m"
        "ops ! Suc (pc_of s2) = OpDispatchMessage selector m super"
        "ops ! Suc (Suc (pc_of s2)) = OpDropToS (Suc m)" "Suc (Suc (pc_of s2)) < length ops"
      using ag False keeps_le[OF g1(1)] keeps_le[OF g2] by (auto simp: s' dropMessageArgs_def agrees_emits)
    have ag1: "agrees ops (pc_of s) s1"
      by (rule agrees_keeps[OF code(1), of "pc_of s"])
         (use keeps_trans[OF _ g2, of "pc_of s" s1] False in auto)
    have push: "pc_of s1 < length ops" "ops ! pc_of s1 = OpPushR"
      using agrees_nth[OF code(1), of "pc_of s1"] agrees_length[OF code(1)] keeps_nth[OF g2, of "pc_of s1"]
        keeps_le[OF g1(1)] keeps_le[OF g2] False by auto
    have ag2: "agrees ops (pc_of (pushR s1)) s2"
      by (rule agrees_keeps[OF code(1), of "pc_of (pushR s1)"]) (use keeps_le[OF g1(1)] in auto)
    show ?thesis
      unfolding m_message_def
    proof (rule reach_lands_bind[OF simulatesD[OF d(1) 1(1) ag1 top inB len]], assumption, rule reach_op[OF push])
      fix v and t :: "oop list" and w :: 'w assume len: "length t = n"
      show "perform rt OpPushR (Suc (pc_of s1)) v (t @ os) w = Inr (Running (pc_of (pushR s1)) v (t @ os @ [v]) w)"
        by simp
      show "reach rt ops (Running (pc_of (pushR s1)) v (t @ os @ [v]) w)
         (bind_outcome (ds v t w) (\<lambda>vs. m_send rt selector super vs v)) (lands n (pc_of s') os)"
      proof (rule reach_bind)
        show "reach rt ops (Running (pc_of (pushR s1)) v (t @ os @ [v]) w) (ds v t w)
          (\<lambda>vs t w st. length vs = m \<and> length t = n \<and> (\<exists>r. st = Running (pc_of s2) r (t @ (os @ [v]) @ vs) w))"
          by (rule ds(1)[unfolded simulates_args_def, rule_format])
             (use 1(2) False ag2 g1 top inB len in auto)
        fix vs t st and w :: 'w
        assume "length vs = m \<and> length t = n \<and> (\<exists>r. st = Running (pc_of s2) r (t @ (os @ [v]) @ vs) w)"
        then obtain r where st: "st = Running (pc_of s2) r (t @ os @ v # vs) w" "m = length vs" "length t = n" by auto
        have pc: "pc_of s' = pc_of s2 + 3" using False by (simp add: s' dropMessageArgs_def)
        show "reach rt ops st (m_send rt selector super vs v t w) (lands n (pc_of s') os)"
          unfolding st(1) pc
          by (rule reach_loaded_send[OF code(2-5)[unfolded st(2)] _ st(3)])
             (use frame_drop_append[of "Suc (length vs)" "v # vs" "_ @ os"] in simp)
      qed
    qed
  qed
qed

lemma simulates_args_nil: "simulates_args rt ops n c inB 0 Inr m_nil"
  by (auto simp: simulates_args_def m_nil_def intro!: reach_Done)

lemma simulates_args_cons:
  fixes rt :: "'w runtime"
  assumes d: "simulates rt ops n c inB f d" "growing c f"
    and ds: "simulates_args rt ops n c inB m g ds" "\<And>s s'. g s = Inr s' \<Longrightarrow> grew c (int m) s s'"
  shows "simulates_args rt ops n c inB (Suc m) (\<lambda>s. bind_result (f s) (\<lambda>s. g (pushR s))) (m_cons d ds)"
  unfolding simulates_args_def
proof (intro allI impI)
  fix s s' and os t :: "oop list" and r0 and w :: 'w
  assume *: "bind_result (f s) (\<lambda>s. g (pushR s)) = Inr s'" and ag: "agrees ops (pc_of s) s'"
    and top: "c \<longrightarrow> stackTop s = int (n + length os)" and inB: "inBlock s = inB" and len: "length t = n"
  from * obtain s1 where 1: "f s = Inr s1" "g (pushR s1) = Inr s'" by (auto simp: bind_result_eq_Inr)
  note g1 = growingD[OF d(2) 1(1)]
  note g2 = grew_keeps[OF ds(2)[OF 1(2)]]
  have ag1: "agrees ops (pc_of s) s1"
    by (rule agrees_keeps[OF ag, of "pc_of s"]) (use keeps_trans[OF _ g2, of "pc_of s" s1] in auto)
  have push: "pc_of s1 < length ops" "ops ! pc_of s1 = OpPushR"
    using agrees_nth[OF ag, of "pc_of s1"] agrees_length[OF ag] keeps_nth[OF g2, of "pc_of s1"]
      keeps_le[OF g1(1)] keeps_le[OF g2] by auto
  have ag2: "agrees ops (pc_of (pushR s1)) s'"
    by (rule agrees_keeps[OF ag, of "pc_of (pushR s1)"]) (use keeps_le[OF g1(1)] in auto)
  have top': "c \<Longrightarrow> stackTop s = int (n + length os)" using top by simp
  show "reach rt ops (Running (pc_of s) r0 (t @ os) w) (m_cons d ds r0 t w)
     (\<lambda>vs t w st. length vs = Suc m \<and> length t = n \<and> (\<exists>r. st = Running (pc_of s') r (t @ os @ vs) w))"
    unfolding m_cons_def
  proof (rule reach_lands_bind[OF simulatesD[OF d(1) 1(1) ag1 top' inB len]], assumption, rule reach_op[OF push])
    fix v and t :: "oop list" and w :: 'w assume len: "length t = n"
    show "perform rt OpPushR (Suc (pc_of s1)) v (t @ os) w = Inr (Running (pc_of (pushR s1)) v (t @ os @ [v]) w)"
      by simp
    show "reach rt ops (Running (pc_of (pushR s1)) v (t @ os @ [v]) w)
       (bind_outcome (ds v t w) (\<lambda>vs. Done (v # vs)))
       (\<lambda>vs t w st. length vs = Suc m \<and> length t = n \<and> (\<exists>r. st = Running (pc_of s') r (t @ os @ vs) w))"
    proof (rule reach_bind)
      show "reach rt ops (Running (pc_of (pushR s1)) v (t @ os @ [v]) w) (ds v t w)
        (\<lambda>vs t w st. length vs = m \<and> length t = n \<and> (\<exists>r. st = Running (pc_of s') r (t @ (os @ [v]) @ vs) w))"
        by (rule ds(1)[unfolded simulates_args_def, rule_format])
           (use 1(2) ag2 g1 top inB len in auto)
    qed (auto intro!: reach_Done)
  qed
qed

lemma simulates_cascade_nil: "simulates_cascade rt ops n c inB Inr (\<lambda>v. m_skip)"
  by (auto simp: simulates_cascade_def m_skip_def lands_def intro!: reach_Done)

lemma simulates_cascade_cons:
  fixes rt :: "'w runtime"
  assumes ds: "simulates_args rt ops n c inB m g ds" "\<And>s s'. g s = Inr s' \<Longrightarrow> grew c (int m) s s'"
    and k: "simulates_cascade rt ops n c inB h k" "growing c h"
  shows "simulates_cascade rt ops n c inB
    (\<lambda>s. bind_result (g s) (\<lambda>s. h (dropCascadeMessageArgs m
       (dispatch selector m super (emit (OpLoadRfromStack m) s)))))
    (m_cascaded rt selector super ds k)"
  unfolding simulates_cascade_def
proof (intro allI impI)
  fix s s' and os t :: "oop list" and v r0 and w :: 'w
  assume *: "bind_result (g s) (\<lambda>s. h (dropCascadeMessageArgs m
       (dispatch selector m super (emit (OpLoadRfromStack m) s)))) = Inr s'" and ag: "agrees ops (pc_of s) s'"
    and top: "c \<longrightarrow> stackTop s = int (Suc (n + length os))" and inB: "inBlock s = inB" and len: "length t = n"
  from * obtain s1 s2 where 1: "g s = Inr s1" "h s2 = Inr s'"
    and s2: "s2 = dropCascadeMessageArgs m (dispatch selector m super (emit (OpLoadRfromStack m) s1))"
    by (auto simp: bind_result_eq_Inr)
  note w1 = ds(2)[OF 1(1)] and g2 = growingD[OF k(2) 1(2)]
  note g1 = grew_keeps[OF w1]
  have k2: "keeps a s1 s2" for a by (simp add: s2 dropCascadeMessageArgs_def)
  have ag2: "agrees ops (pc_of s) s2" by (rule agrees_keeps[OF ag keeps_mono[OF g2(1)]]) simp
  have ag1: "agrees ops (pc_of s) s1" by (rule agrees_keeps[OF ag2 k2]) simp
  have ag3: "agrees ops (pc_of s2) s'"
    by (rule agrees_keeps[OF ag keeps_refl]) (use keeps_le[OF g1] keeps_le[OF k2] in simp)
  have top2: "c \<longrightarrow> stackTop s2 = int (Suc (n + length os))" and inB2: "inBlock s2 = inB"
    using w1 top inB by (auto simp: s2 dropCascadeMessageArgs_def grew_def)
  show "reach rt ops (Running (pc_of s) r0 (t @ os @ [v]) w) (m_cascaded rt selector super ds k v r0 t w)
     (lands n (pc_of s') (os @ [v]))"
    unfolding m_cascaded_def
  proof (rule reach_bind)
    show "reach rt ops (Running (pc_of s) r0 (t @ os @ [v]) w) (ds r0 t w)
      (\<lambda>vs t w st. length vs = m \<and> length t = n \<and> (\<exists>r. st = Running (pc_of s1) r (t @ (os @ [v]) @ vs) w))"
      by (rule ds(1)[unfolded simulates_args_def, rule_format]) (use 1(1) ag1 top inB len in auto)
    fix vs t st and w :: 'w
    assume "length vs = m \<and> length t = n \<and> (\<exists>r. st = Running (pc_of s1) r (t @ (os @ [v]) @ vs) w)"
    then obtain r where st: "st = Running (pc_of s1) r (t @ os @ v # vs) w" and m: "m = length vs"
      and len: "length t = n" by auto
    have "reach rt ops st (m_send rt selector super vs v t w) (lands n (pc_of s2) (os @ [v]))"
    proof (cases "m = 0")
      case True
      have op: "ops ! pc_of s1 = OpLoadRfromStack 0" "pc_of s1 < length ops"
        "ops ! Suc (pc_of s1) = OpDispatchMessage selector (length ([] :: oop list)) super" "Suc (pc_of s1) < length ops"
        and pc: "pc_of s2 = Suc (Suc (pc_of s1))"
        using ag2 True keeps_le[OF g1] by (auto simp: s2 dropCascadeMessageArgs_def agrees_emits)
      have vs: "vs = []" using True m by simp
      have "reach rt ops (Running (Suc (pc_of s1)) v ((t @ os @ [v]) @ []) w) (m_send rt selector super [] v t w)
          (lands n (pc_of s2) (os @ [v]))"
        by (rule reach_send[OF op(4,3)]) (auto intro!: reach_Done simp: lands_def len pc)
      then show ?thesis
        unfolding st vs
        by (intro reach_op[OF op(2,1)]) (use frame_operand_at_append[of 0 "[]" "t @ os" v] in auto)
    next
      case False
      have op: "ops ! pc_of s1 = OpLoadRfromStack m" "ops ! Suc (pc_of s1) = OpDispatchMessage selector m super"
        "ops ! Suc (Suc (pc_of s1)) = OpDropToS m" "Suc (Suc (pc_of s1)) < length ops"
        and pc: "pc_of s2 = pc_of s1 + 3"
        using ag2 False keeps_le[OF g1] by (auto simp: s2 dropCascadeMessageArgs_def agrees_emits)
      show ?thesis unfolding st pc
        by (rule reach_loaded_send[OF op[unfolded m] _ len])
           (use frame_drop_append[of "length vs" vs "_ @ os @ [v]"] in auto)
    qed
    then show "reach rt ops st (bind_outcome (m_send rt selector super vs v t w) (k v)) (lands n (pc_of s') (os @ [v]))"
    proof (rule reach_lands_bind)
      fix x and t :: "oop list" and w :: 'w assume "length t = n"
      then show "reach rt ops (Running (pc_of s2) x (t @ os @ [v]) w) (k v x t w) (lands n (pc_of s') (os @ [v]))"
        by (intro k(1)[unfolded simulates_cascade_def, rule_format]) (use 1(2) ag3 top2 inB2 in auto)
    qed
  qed
qed

lemma simulates_cascade_message:
  fixes rt :: "'w runtime"
  assumes d: "simulates rt ops n c inB f d" "growing c f" and k: "simulates_cascade rt ops n c inB h k" "growing c h"
  shows "simulates rt ops n c inB
    (\<lambda>s. bind_result (f s) (\<lambda>s. bind_result (h (pushR s)) (\<lambda>s. Inr (dropToS 1 s)))) (m_cascade d k)"
proof (rule simulatesI)
  fix s s' and os t :: "oop list" and r0 and w :: 'w
  assume *: "bind_result (f s) (\<lambda>s. bind_result (h (pushR s)) (\<lambda>s. Inr (dropToS 1 s))) = Inr s'"
    and ag: "agrees ops (pc_of s) s'"
    and top: "c \<Longrightarrow> stackTop s = int (n + length os)" and inB: "inBlock s = inB" and len: "length t = n"
  from * obtain s1 s2 where 1: "f s = Inr s1" "h (pushR s1) = Inr s2" and s': "s' = dropToS 1 s2"
    by (auto simp: bind_result_eq_Inr)
  note g1 = growingD[OF d(2) 1(1)] and g2 = growingD[OF k(2) 1(2)]
  have code: "agrees ops (pc_of s) s2" "pc_of s2 < length ops" "ops ! pc_of s2 = OpDropToS 1"
    using ag keeps_le[OF g1(1)] keeps_le[OF g2(1)] by (auto simp: s' agrees_emits)
  have ag1: "agrees ops (pc_of s) s1"
    by (rule agrees_keeps[OF code(1), of "pc_of s"]) (use keeps_trans[OF _ g2(1), of "pc_of s" s1] in auto)
  have push: "pc_of s1 < length ops" "ops ! pc_of s1 = OpPushR"
    using agrees_nth[OF code(1), of "pc_of s1"] agrees_length[OF code(1)] keeps_nth[OF g2(1), of "pc_of s1"]
      keeps_le[OF g1(1)] keeps_le[OF g2(1)] by auto
  have ag2: "agrees ops (pc_of (pushR s1)) s2"
    by (rule agrees_keeps[OF code(1), of "pc_of (pushR s1)"]) (use keeps_le[OF g1(1)] in auto)
  show "reach rt ops (Running (pc_of s) r0 (t @ os) w) (m_cascade d k r0 t w) (lands n (pc_of s') os)"
    unfolding m_cascade_def
  proof (rule reach_lands_bind[OF simulatesD[OF d(1) 1(1) ag1 top inB len]], assumption, rule reach_op[OF push])
    fix v and t :: "oop list" and w :: 'w assume len: "length t = n"
    show "perform rt OpPushR (Suc (pc_of s1)) v (t @ os) w = Inr (Running (pc_of (pushR s1)) v (t @ os @ [v]) w)"
      by simp
    have "reach rt ops (Running (pc_of (pushR s1)) v (t @ os @ [v]) w) (k v v t w) (lands n (pc_of s2) (os @ [v]))"
      by (rule k(1)[unfolded simulates_cascade_def, rule_format]) (use 1(2) ag2 g1 top inB len in auto)
    then show "reach rt ops (Running (pc_of (pushR s1)) v (t @ os @ [v]) w) (k v v t w) (lands n (pc_of s') os)"
    proof (rule reach_lands_then)
      fix x and t :: "oop list" and w :: 'w assume "length t = n"
      then show "reach rt ops (Running (pc_of s2) x (t @ os @ [v]) w) (Done x t w) (lands n (pc_of s') os)"
        by (intro reach_last_op[OF code(2,3)])
           (use frame_drop_append[of "Suc 0" "[v]" "t @ os"] in \<open>auto simp: s'\<close>)
    qed
  qed
qed


lemma growing_visit:
  "balanced env c e \<Longrightarrow> growing c (visit env e)"
  "\<forall>e\<in>set es. balanced env c e \<Longrightarrow> growing c (visitStatements env es)"
  "\<forall>m\<in>set ms. \<forall>a\<in>set (snd m). balanced env c a \<Longrightarrow> growing c (visitCascadeMessages env super ms)"
  "balancedBody env c b \<Longrightarrow> growing c (visitBody env b)"
  by (auto simp: growing_grew visit_grows)

lemma visit_eqs:
  "visit env (SIdentifier b) = (\<lambda>s. Inr (emit (OpIdentifier b) s))"
  "visit env (SLiteral i v) = (\<lambda>s. Inr (emit (OpLiteral v) s))"
  "visit env (SAssignment bs e) = (\<lambda>s. bind_result (visit env e s) (\<lambda>s. Inr (emit (OpAssign bs) s)))"
  "visit env (SReturn l e) = (\<lambda>s. bind_result (visit env e s)
     (\<lambda>s. Inr (emit (if l \<and> \<not> inBlock s then OpReturn else OpNonLocalReturn) s)))"
  "visit env (SCascade receiver ms) = (\<lambda>s. bind_result (visit env receiver s) (\<lambda>s.
     bind_result (visitCascadeMessages env (isSuper receiver) ms (pushR s)) (\<lambda>s. Inr (dropToS 1 s))))"
  "visit env (SMessage receiver selector args True) =
     visitInlinedMessage env (part_of env receiver) selector (map (part_of env) args)"
  "visit env (SMessage receiver selector args False) = (\<lambda>s. bind_result (visit env receiver s)
     (\<lambda>s. bind_result (visitArguments env args (if length args = 0 then s else pushR s)) (\<lambda>s.
       Inr (dropMessageArgs (length args) (dispatch selector (length args) (isSuper receiver)
         (if length args = 0 then s else emit (OpLoadRfromStack (length args)) s))))))"
  "visitStatements env [] = Inr"
  "visitStatements env (e # es) = (\<lambda>s. bind_result (visit env e s) (visitStatements env es))"
  "visitArguments env [] = Inr"
  "visitArguments env (e # es) = (\<lambda>s. bind_result (visit env e s) (\<lambda>s. visitArguments env es (pushR s)))"
  "visitCascadeMessages env super [] = Inr"
  "visitCascadeMessages env super ((selector, args) # ms) = (\<lambda>s. bind_result (visitArguments env args s) (\<lambda>s.
     visitCascadeMessages env super ms (dropCascadeMessageArgs (length args)
       (dispatch selector (length args) super (emit (OpLoadRfromStack (length args)) s)))))"
  "visitBody env (SBlock code i cv ia ss) = visitStatements env ss"
  by (auto simp: fun_eq_iff part_of_def[abs_def])

lemma simulates_closure_visit:
  fixes rt :: "'w runtime"
  shows "simulates rt ops n c inB (visit env (SBlock code i cv ia ss)) (m_closure rt code cv)"
proof (rule simulatesI)
  fix s s' and os t :: "oop list" and r and w :: 'w
  assume *: "visit env (SBlock code i cv ia ss) s = Inr s'" "agrees ops (pc_of s) s'"
    "inBlock s = inB" "length t = n"
  from *(1) have "operations s' = operations (emit (OpBlock code cv) s)"
    by (auto simp: bind_result_eq_Inr leave_block_def Let_def)
  with * have "agrees ops (pc_of s) (emit (OpBlock code cv) s)" "pc_of s' = pc_of (emit (OpBlock code cv) s)"
    by (simp_all add: agrees_def)
  with simulatesD[OF simulates_closure[of rt ops n False inB code cv], of s "emit (OpBlock code cv) s" os t r w] *
  show "reach rt ops (Running (pc_of s) r (t @ os) w) (m_closure rt code cv r t w) (lands n (pc_of s') os)"
    by simp
qed

lemma simulates_skip: "simulates rt ops n c inB Inr m_skip"
  by (auto simp: simulates_def m_skip_def lands_def intro!: reach_Done)

lemma growing_Inr: "growing c Inr"
  by (simp add: growing_def)

lemma simulates_visit:
  fixes rt :: "'w runtime"
  shows
  "balanced env c e \<Longrightarrow> simulates rt ops n c inB (visit env e) (eval rt env k inB e)"
  "\<forall>e\<in>set es. balanced env c e \<Longrightarrow>
     simulates rt ops n c inB (visitStatements env es) (evalStatements rt env k inB es)"
  "\<forall>e\<in>set as. balanced env c e \<Longrightarrow>
     simulates_args rt ops n c inB (length as) (visitArguments env as) (evalArguments rt env k inB as)"
  "\<forall>m\<in>set ms. \<forall>a\<in>set (snd m). balanced env c a \<Longrightarrow>
     simulates_cascade rt ops n c inB (visitCascadeMessages env super ms) (evalCascade rt env k inB super ms)"
  "balancedBody env c b \<Longrightarrow> simulates rt ops n c inB (visitBody env b) (evalBody rt env k inB b)"
proof (induction rt env k inB e and rt env k inB es and rt env k inB as and rt env k inB super ms and rt env k inB b
    rule: eval_evalStatements_evalArguments_evalCascade_evalBody.induct)
  case (1 rt env k inB b)
  show ?case unfolding visit_eqs eval.simps by (rule simulates_identifier)
next
  case (2 rt env k inB i v)
  show ?case unfolding visit_eqs eval.simps by (rule simulates_literal)
next
  case (3 rt env k inB bs e)
  then show ?case unfolding visit_eqs eval.simps
    by (intro simulates_then simulates_assign growing_emit growing_visit) auto
next
  case (4 rt env k inB l e)
  have "growing c (\<lambda>s. Inr (emit (if l \<and> \<not> inBlock s then OpReturn else OpNonLocalReturn) s))"
    by (simp add: growing_def)
  with 4 show ?case unfolding visit_eqs eval.simps
    by (intro simulates_then simulates_return growing_visit) auto
next
  case (5 rt env k inB receiver ms)
  then show ?case unfolding visit_eqs eval.simps
    by (intro simulates_cascade_message growing_visit) auto
next
  case (6 rt env k inB code i cv ia ss)
  show ?case unfolding eval.simps by (rule simulates_closure_visit)
next
  case (7 rt env k inB receiver selector args inlined)
  show ?case
  proof (cases inlined)
    case True
    have part: "simulates_part rt ops n c inB (part_of env e) (meant_of rt env k inB e)"
      if "e = receiver \<or> e \<in> set args" for e
      using that 7 True growing_visit(1)[of env c e]  growing_visit(4)[of env c e]
      by (auto simp: simulates_part_def part_of_def meant_of_def growing_part_def)
    have "simulates_parts rt ops n c inB (map (part_of env) args) (map (meant_of rt env k inB) args)"
      by (auto simp: list_all2_conv_all_nth part)
    with simulates_inlined[OF part[of receiver]] 7 True show ?thesis
      by (auto simp: visit_eqs meant_of_def[abs_def])
  next
    case False
    have "length args = 0 \<Longrightarrow> visitArguments env args = Inr \<and> evalArguments rt env k inB args = m_nil"
      by (simp add: visit_eqs)
    moreover from False have "inlined = False" by simp
    ultimately show ?thesis
      unfolding \<open>inlined = False\<close> visit_eqs eval.simps if_False
      by (intro simulates_message growing_visit(1)) (use 7 False in \<open>auto intro: visit_grows\<close>)
  qed
next
  case (8 rt env k inB)
  show ?case unfolding visit_eqs evalStatements.simps by (rule simulates_skip)
next
  case (9 rt env k inB e es)
  then show ?case unfolding visit_eqs evalStatements.simps
    by (intro simulates_then growing_visit) auto
next
  case (10 rt env k inB)
  show ?case unfolding visit_eqs evalArguments.simps list.size by (rule simulates_args_nil)
next
  case (11 rt env k inB e es)
  then show ?case unfolding visit_eqs evalArguments.simps list.size add_Suc_right add_0_right
    by (intro simulates_args_cons growing_visit) (auto intro: visit_grows)
next
  case (12 rt env k inB super)
  show ?case unfolding visit_eqs evalCascade.simps by (rule simulates_cascade_nil)
next
  case (13 rt env k inB super selector args ms)
  then show ?case unfolding visit_eqs evalCascade.simps
    by (intro simulates_cascade_cons growing_visit) (auto intro: visit_grows)
next
  case (14 rt env k inB code i cv ia ss)
  then show ?case by (simp add: visit_eqs)
qed (simp_all add: simulates_def)


section \<open>Methods and blocks\<close>

lemma eval_return_not_done:
  "isReturn e \<Longrightarrow> eval rt env k inB e r t w \<noteq> Done v t' w'"
  by (cases e; cases "eval rt env k inB (case e of SReturn l x \<Rightarrow> x | _ \<Rightarrow> e) r t w") (auto simp: m_then_def m_return_def)

lemma evalStatements_return_not_done:
  "ss \<noteq> [] \<Longrightarrow> isReturn (last ss) \<Longrightarrow> evalStatements rt env k inB ss r t w \<noteq> Done v t' w'"
proof (induction ss arbitrary: r t w)
  case (Cons e es)
  then show ?case
    by (cases "eval rt env k inB e r t w"; cases "es = []")
       (auto simp: m_then_def eval_return_not_done m_skip_def)
qed simp

lemma reach_Left:
  "reach rt ops st (Left l v t w) Q \<Longrightarrow> \<exists>f. runs rt ops st (left_state l v (t @ f) w)"
  by (simp add: reach_def)

lemma visitStatements_reach:
  fixes rt :: "'w runtime"
  assumes "visitStatements env ss s = Inr s1" "\<forall>e\<in>set ss. balanced env c e"
    "agrees ops (pc_of s) s1" "stackTop s = int (length t)" "inBlock s = inB"
  shows "reach rt ops (Running (pc_of s) r t w) (evalStatements rt env k inB ss r t w) (lands (length t) (pc_of s1) [])"
proof -
  have "reach rt ops (Running (pc_of s) r (t @ []) w) (evalStatements rt env k inB ss r t w) (lands (length t) (pc_of s1) [])"
    by (rule simulatesD[OF simulates_visit(2)[OF assms(2)] assms(1,3) _ assms(5) refl]) (simp add: assms(4))
  then show ?thesis by simp
qed

text \<open>The end of a method and of a block.\<close>

lemma reach_end:
  fixes rt :: "'w runtime"
  assumes r: "reach rt ops st (evalStatements rt env k inB ss r t w) (lands n pc [])"
    and e: "ss \<noteq> [] \<and> isReturn (last ss) \<or> (\<forall>v t w. \<exists>f. runs rt ops (Running pc v t w) (left_state True (g v) (t @ f) w))"
  shows "reach rt ops st (bind_outcome (evalStatements rt env k inB ss r t w) (\<lambda>r t w. Left True (g r) t w)) Q"
proof (cases "evalStatements rt env k inB ss r t w")
  case (Done v t' w')
  then have "\<not> (ss \<noteq> [] \<and> isReturn (last ss))"
    using evalStatements_return_not_done[of ss rt env k inB r t w v t' w'] by auto
  with e obtain f where f: "runs rt ops (Running pc v t' w') (left_state True (g v) (t' @ f) w')" by blast
  from r Done have "runs rt ops st (Running pc v t' w')" by (simp add: reach_def lands_def)
  from runs_trans[OF this f] Done show ?thesis by (auto simp: reach_def)
next
  case (Left l v t' w')
  with r show ?thesis by (simp add: reach_def)
qed simp_all

lemma agrees_self: "agrees (operations s) a s"
  by (simp add: agrees_def)

lemma runs_two:
  assumes "ops ! pc = x" "ops ! Suc pc = OpReturn" "Suc pc < length ops"
    "perform rt x (Suc pc) r f w = Inr (Running (Suc pc) v f w)"
  shows "runs rt ops (Running pc r f w) (Returned v f w)"
proof (rule runs_step)
  show "step rt ops (Running pc r f w) = Inr (Running (Suc pc) v f w)" using assms by simp
  show "runs rt ops (Running (Suc pc) v f w) (Returned v f w)"
    using assms by (intro runs_step[OF _ runs_refl]) simp
qed

lemma method_reach:
  fixes rt :: "'w runtime"
  assumes v: "visitStatements env ss s0 = Inr s1" and b: "\<forall>e\<in>set ss. balanced env c e"
    and s: "s = (if ss = [] \<or> \<not> isReturn (last ss) then emit OpReturn (emit OpLoadRwithSelf s1) else s1)"
    and s0: "stackTop s0 = int (length t)" "\<not> inBlock s0"
  shows "reach rt (operations s) (Running (pc_of s0) r t w) (eval_method rt env k ss r t w) Q"
  unfolding eval_method_def
proof (rule reach_end[where g="\<lambda>_. rt_self rt"])
  note g = growingD[OF growing_visit(2)[OF b] v]
  have ag: "agrees (operations s) (pc_of s0) s1"
    by (rule agrees_keeps[OF agrees_self[where s=s and a="pc_of s0"], of "pc_of s0"]) (auto simp: s)
  show "reach rt (operations s) (Running (pc_of s0) r t w) (evalStatements rt env k False ss r t w)
      (lands (length t) (pc_of s1) [])"
    by (rule visitStatements_reach[OF v b ag]) (use s0 in auto)
  show "ss \<noteq> [] \<and> isReturn (last ss) \<or> (\<forall>v t w. \<exists>f. runs rt (operations s) (Running (pc_of s1) v t w)
      (left_state True (rt_self rt) (t @ f) w))"
  proof (cases "ss \<noteq> [] \<and> isReturn (last ss)")
    case False
    then have "s = emit OpReturn (emit OpLoadRwithSelf s1)" using s by auto
    then have "runs rt (operations s) (Running (pc_of s1) v t w) (Returned (rt_self rt) t w)" for v t w
      by (intro runs_two[where x=OpLoadRwithSelf]) (auto simp: nth_append)
    then show ?thesis by (intro disjI2 allI exI[of _ "[]"]) (simp add: left_state_def)
  qed simp
qed

text \<open>
  C2: the operations of a method without a primitive do what its statements mean.  The activation
  starts at the first operation with its temporaries and no operand; when the meaning is a return
  of a value, local or non-local, the machine comes to that return with the same value,
  temporaries and world.  The statements have no inlined \<open>ifNil:\<close>/\<open>ifNotNil:\<close> together with counted
  loops.
\<close>

theorem linearized_method_correct:
  fixes rt :: "'w runtime"
  assumes "linearize_method env (int (length t)) m primitive_name = Inr s"
    and "sm_pragma m = None"
    and "\<forall>e\<in>set (sm_statements m). balanced env c e"
    and "eval_method rt env k (sm_statements m) r t w = Left l v t' w'"
  shows "\<exists>f. runs rt (operations s) (Running 0 r t w) (left_state l v (t' @ f) w')"
proof -
  from assms(1,2) obtain s1 where
    "visitStatements env (sm_statements m)
       \<lparr>operations = [], stackTop = int (length t), inBlock = False, codes = []\<rparr> = Inr s1"
    "s = (if sm_statements m = [] \<or> \<not> isReturn (last (sm_statements m))
          then emit OpReturn (emit OpLoadRwithSelf s1) else s1)"
    by (auto simp: linearize_method_def Let_def bind_result_eq_Inr)
  from method_reach[OF this(1) assms(3) this(2), of t rt r w k "\<lambda>_ _ _ _. True"] assms(4)
  show ?thesis by (auto dest: reach_Left)
qed



section \<open>Examples\<close>

text \<open>An image where selectors and objects are small numbers: 1 to 22 are the selectors of the
  linearizer, 30, 31 and 32 are \<open>nil\<close>, \<open>true\<close> and \<open>false\<close>, numbers from 100 up stand for integers.\<close>

definition example_env :: lin_env where
  "example_env = \<lparr>le_nil = 30, le_one = 101, le_plus = 1, le_greaterThan = 2, le_equalsEquals = 3,
     le_not = 4, le_ifTrue = 5, le_ifFalse = 6, le_ifTrueIfFalse = 7, le_ifFalseIfTrue = 8, le_ifNil = 9,
     le_ifNotNil = 10, le_ifNilIfNotNil = 11, le_ifNotNilIfNil = 12, le_repeat = 13, le_whileTrue = 14,
     le_whileFalse = 15, le_whileTrueColon = 16, le_whileFalseColon = 17, le_timesRepeat = 18, le_toDo = 19,
     le_toByDo = 20, le_andNot = 21, le_orNot = 22, le_selectorString = (\<lambda>_. []),
     le_blockTemps = (\<lambda>_. 1), le_primitives = (\<lambda>p. if p = 50 then Some 51 else None)\<rparr>"

definition example_send :: "oop \<Rightarrow> bool \<Rightarrow> oop \<Rightarrow> oop list \<Rightarrow> unit \<Rightarrow> (oop \<times> unit) result" where
  "example_send selector super r args w =
     (case args of
        [a] \<Rightarrow> if selector = 1 then Inr (r + (a - 100), w)
               else if selector = 2 then Inr (if r > a then 31 else 32, w)
               else if selector = 3 then Inr (if r = a then 31 else 32, w)
               else Inl AssertionFailed
      | _ \<Rightarrow> Inl AssertionFailed)"

definition example_runtime :: "unit runtime" where
  "example_runtime = \<lparr>rt_nil = 30, rt_true = 31, rt_false = 32, rt_self = 60,
     rt_argument = (\<lambda>_ _. Inl Undefined), rt_environment = (\<lambda>_. 30),
     rt_environmentAt = (\<lambda>_ _ _. Inl Undefined), rt_environmentAtPut = (\<lambda>_ _ _ _. Inl Undefined),
     rt_dynamicValue = (\<lambda>_ _ _. Inl Undefined), rt_dynamicAssign = (\<lambda>_ _ _ _. Inl Undefined),
     rt_environmentValue = (\<lambda>_ _. Inl Undefined), rt_newClosure = (\<lambda>c vs w. Inr (70, w)),
     rt_send = example_send, rt_primitive = (\<lambda>p r w. Inr (100, True, w))\<rparr>"

text \<open>A loop \<open>1 to: limit do: [:i | body]\<close> with its index in the first temporary, and the method
  \<open>1 to: 2 do: [:i | i]. ^ 1 > 2\<close>.\<close>

definition example_loop :: "oop \<Rightarrow> sexpr list \<Rightarrow> sexpr" where
  "example_loop limit body =
     SMessage (SLiteral 0 101) 19 [SLiteral 0 limit, SBlock None 0 [] [1] body] True"

definition example_statements :: "sexpr list" where
  "example_statements =
     [example_loop 102 [SIdentifier (SArgumentBinding 1 (-1))],
      SReturn True (SMessage (SLiteral 0 101) 2 [SLiteral 0 102] False)]"

lemma run_numeral: "run (numeral n) rt ops st = bind_result (step rt ops st) (run (pred_numeral n) rt ops)"
  by (simp add: numeral_eq_Suc)

lemma emit_mk: "emit x \<lparr>operations = os, stackTop = n, inBlock = b, codes = cs\<rparr> = \<lparr>operations = os @ [x], stackTop = n, inBlock = b, codes = cs\<rparr>"
  by (simp add: emit_def)
lemma pushR_mk: "pushR \<lparr>operations = os, stackTop = n, inBlock = b, codes = cs\<rparr> = \<lparr>operations = os @ [OpPushR], stackTop = n + 1, inBlock = b, codes = cs\<rparr>"
  by (simp add: pushR_def emit_def)
lemma popR_mk: "popR \<lparr>operations = os, stackTop = n, inBlock = b, codes = cs\<rparr> = \<lparr>operations = os @ [OpPopR], stackTop = n - 1, inBlock = b, codes = cs\<rparr>"
  by (simp add: popR_def emit_def)
lemma dropToS_mk: "dropToS k \<lparr>operations = os, stackTop = n, inBlock = b, codes = cs\<rparr> = \<lparr>operations = os @ [OpDropToS k], stackTop = n - int k, inBlock = b, codes = cs\<rparr>"
  by (simp add: dropToS_def emit_def)
lemma set_target_mk: "set_target i t \<lparr>operations = os, stackTop = n, inBlock = b, codes = cs\<rparr> = \<lparr>operations = os[i := with_target t (os ! i)], stackTop = n, inBlock = b, codes = cs\<rparr>"
  by (simp add: set_target_def)
lemmas mk = emit_mk pushR_mk popR_mk dropToS_mk set_target_mk

lemma example_env_simps [simp]:
  "inline_form_of example_env 19 = Some ToDo" "inline_form_of example_env 9 = Some (IfNil True)"
  "le_nil example_env = 30" "le_one example_env = 101" "le_plus example_env = 1"
  "le_greaterThan example_env = 2" "le_equalsEquals example_env = 3" "le_blockTemps example_env c = 1"
  "le_primitives example_env 50 = Some 51"
  by (simp_all add: example_env_def inline_form_of_def)

lemmas linearize_defs = example_loop_def example_statements_def visitInlinedMessage_def
  inline_if_def inline_ifNil_def inlineToDo_def counted_loop_def send_made_eq compare_with_nil_def
  store_inlined_arg_def p_body_def Let_def dropMessageArgs_def linearize_method_def part_at_def mk

abbreviation example_method :: "sexpr list \<Rightarrow> smethod" where
  "example_method ss \<equiv> \<lparr>sm_pragma = None, sm_statements = ss\<rparr>"

lemma example_linearized:
  "\<exists>s. linearize_method example_env (int (length [30::oop])) (example_method example_statements) 0 = Inr s"
  by (simp add: linearize_defs)

lemma example_meaning:
  "eval_method example_runtime example_env 5 example_statements 0 [30] () = Left True 32 [103] ()"
  by code_simp

lemma example_balanced: "list_all (balanced example_env True) example_statements"
  by code_simp

theorem linearized_method_correct_witness:
  "\<exists>s f. linearize_method example_env 1 (example_method example_statements) 0 = Inr s \<and>
     runs example_runtime (operations s) (Running 0 0 [30] ()) (Returned 32 ([103] @ f) ())"
proof -
  obtain s where s: "linearize_method example_env (int (length [30::oop])) (example_method example_statements) 0 = Inr s"
    using example_linearized by blast
  from linearized_method_correct[OF s, of True example_runtime 5 0 "()" True 32 "[103]" "()"]
    example_meaning example_balanced s
  show ?thesis by (auto simp: list_all_iff left_state_def)
qed



definition nil_test_then_loop :: "sexpr list" where
  "nil_test_then_loop =
     [SMessage (SLiteral 0 30) 9 [SBlock None 0 [] [] [SLiteral 0 30]] True,
      example_loop 100 [SReturn True (SLiteral 0 31)],
      SReturn True (SLiteral 0 32)]"

text \<open>
  C27: after an inlined \<open>ifNil:\<close> the linearizer counts one slot too few, so that the loop of
  \<open>nil ifNil: [nil]. 1 to: 0 do: [:i | ^ true]. ^ false\<close> compares the index with itself instead of
  the limit: the statements mean \<open>false\<close> but the linearized method returns \<open>true\<close>.
\<close>

theorem nil_test_before_loop_miscompiled:
  "eval_method example_runtime example_env 5 nil_test_then_loop 0 [30] () = Left True 32 [101] () \<and>
   (\<exists>s. linearize_method example_env 1 (example_method nil_test_then_loop) 0 = Inr s \<and>
        runs example_runtime (operations s) (Running 0 0 [30] ()) (Returned 31 [101, 100] ()))"
proof
  show "eval_method example_runtime example_env 5 nil_test_then_loop 0 [30] () = Left True 32 [101] ()"
    by code_simp
  obtain s where s: "linearize_method example_env 1 (example_method nil_test_then_loop) 0 = Inr s"
    and "run 35 example_runtime (operations s) (Running 0 0 [30] ()) = Inr (Returned 31 [101, 100] ())"
    by (simp add: linearize_defs nil_test_then_loop_def run_numeral example_runtime_def example_send_def
        jumps_def frame_at_def frame_at_put_def frame_operands_def frame_operand_at_def frame_drop_def)
  then show "\<exists>s. linearize_method example_env 1 (example_method nil_test_then_loop) 0 = Inr s \<and>
        runs example_runtime (operations s) (Running 0 0 [30] ()) (Returned 31 [101, 100] ())"
    by (auto intro: run_runs)
qed

end
