(* ===== verification/LinearizerTotal.thy ===== *)
theory LinearizerTotal
  imports CompiledTrees
begin

text \<open>
  Which trees the linearizer accepts: every inlined message must have a selector it knows how to
  inline, and blocks where the form casts to blocks.
\<close>

fun form_accepts :: "inline_form option \<Rightarrow> sexpr \<Rightarrow> sexpr list \<Rightarrow> bool" where
  "form_accepts None receiver args = False"
| "form_accepts (Some (If b)) receiver args = (args \<noteq> [] \<and> isBlock (args ! 0))"
| "form_accepts (Some (IfNil b)) receiver args = (args \<noteq> [])"
| "form_accepts (Some (IfNilIfNotNil b)) receiver args = (1 < length args)"
| "form_accepts (Some (IfTrueIfFalse b)) receiver args =
     (1 < length args \<and> isBlock (args ! 0) \<and> isBlock (args ! 1))"
| "form_accepts (Some (UnitaryWhile b)) receiver args = isBlock receiver"
| "form_accepts (Some (BinaryWhile b)) receiver args = (isBlock receiver \<and> args \<noteq> [] \<and> isBlock (args ! 0))"
| "form_accepts (Some Repeat) receiver args = isBlock receiver"
| "form_accepts (Some ToDo) receiver args = (1 < length args \<and> isBlock (args ! 1) \<and> inlinedArgs (args ! 1) \<noteq> [])"
| "form_accepts (Some ToByDo) receiver args = False"
| "form_accepts (Some TimesRepeat) receiver args = (args \<noteq> [] \<and> isBlock (args ! 0))"
| "form_accepts (Some AndNot) receiver args = (args \<noteq> [] \<and> isBlock (args ! 0))"
| "form_accepts (Some OrNot) receiver args = (args \<noteq> [] \<and> isBlock (args ! 0))"
| "form_accepts (Some Or) receiver args = (\<forall>a\<in>set args. isBlock a)"
| "form_accepts (Some And) receiver args = (\<forall>a\<in>set args. isBlock a)"

fun linearizable :: "lin_env \<Rightarrow> sexpr \<Rightarrow> bool" where
  "linearizable env (SIdentifier b) = True"
| "linearizable env (SLiteral i v) = True"
| "linearizable env (SAssignment bs e) = linearizable env e"
| "linearizable env (SReturn l e) = linearizable env e"
| "linearizable env (SCascade receiver ms) =
     (linearizable env receiver \<and> (\<forall>m\<in>set ms. \<forall>a\<in>set (snd m). linearizable env a))"
| "linearizable env (SBlock code i cv ia ss) = (\<forall>e\<in>set ss. linearizable env e)"
| "linearizable env (SMessage receiver selector args inlined) =
     (linearizable env receiver \<and> (\<forall>a\<in>set args. linearizable env a) \<and>
      (inlined \<longrightarrow> form_accepts (inline_form_of env selector) receiver args))"

definition returns :: "(linearizer \<Rightarrow> 'a result) \<Rightarrow> bool" where
  "returns f \<longleftrightarrow> (\<forall>s. \<not> isl (f s))"

lemma isl_bind [simp]: "isl (bind_result r k) \<longleftrightarrow> isl r \<or> isl (k (projr r))"
  by (cases r) auto

definition part_returns :: "part \<Rightarrow> bool" where
  "part_returns p \<longleftrightarrow> returns (p_visit p) \<and> (p_block p \<longrightarrow> returns (p_statements p))"

lemma part_at_in: "i < length ps \<Longrightarrow> part_at ps i = Inr (ps ! i)"
  by simp

lemma counted_loop_returns: "returns (p_statements body) \<Longrightarrow> \<not> isl (counted_loop env index body s)"
  by (simp add: counted_loop_def Let_def returns_def)

lemma visitChain_returns:
  "\<forall>p\<in>set ps. returns (p_statements p) \<Longrightarrow> \<not> isl (visitChain b ps bs s)"
  by (induction b ps bs s rule: visitChain.induct) (auto simp: returns_def)

lemma inlined_returns:
  assumes r: "part_returns receiver" and a: "\<forall>p\<in>set args. part_returns p"
    and rb: "p_block receiver = isBlock re" and len: "length args = length as"
    and ab: "\<forall>i<length as. p_block (args ! i) = isBlock (as ! i) \<and> p_inlinedArgs (args ! i) = inlinedArgs (as ! i)"
    and f: "form_accepts (inline_form_of env selector) re as"
  shows "returns (visitInlinedMessage env receiver selector args)"
proof -
  have v: "\<not> isl (p_visit receiver s)" for s using r by (simp add: part_returns_def returns_def)
  have rs: "\<not> isl (p_statements receiver s)" if "isBlock re" for s
    using r that rb by (simp add: part_returns_def returns_def)
  have p: "part_returns (args ! i)" if "i < length as" for i using a that len by auto
  have av: "\<not> isl (p_visit (args ! i) s)" if "i < length as" for i s
    using p[OF that] by (simp add: part_returns_def returns_def)
  have ar: "returns (p_statements (args ! i))" if "i < length as" "isBlock (as ! i)" for i
    using p[OF that(1)] ab that by (simp add: part_returns_def)
  have ars: "\<not> isl (p_statements (args ! i) s)" if "i < length as" "isBlock (as ! i)" for i s
    using ar[OF that] by (simp add: returns_def)
  have abd: "\<not> isl (p_body (args ! i) s)" if "i < length as" for i s
    using av[OF that] ars[OF that] ab that by (auto simp: p_body_def)
  have ai: "p_inlinedArgs (args ! i) = inlinedArgs (as ! i)" if "i < length as" for i
    using ab that by simp
  have chain: "\<not> isl (visitChain b args bs s)" if "\<forall>a\<in>set as. isBlock a" for b bs s
    by (rule visitChain_returns) (metis ar that len in_set_conv_nth)
  have two: "part_at args 0 = Inr (args ! 0)" "\<not> isl (p_visit (args ! 0) s)" "\<not> isl (p_body (args ! 0) s)"
    "isBlock (as ! 0) \<Longrightarrow> \<not> isl (p_statements (args ! 0) s)" if "Suc 0 < length as" for s
  proof -
    from that have "0 < length as" by (rule Suc_lessD)
    from av[OF this] abd[OF this] ars[OF this] this len
    show "part_at args 0 = Inr (args ! 0)" "\<not> isl (p_visit (args ! 0) s)" "\<not> isl (p_body (args ! 0) s)"
      "isBlock (as ! 0) \<Longrightarrow> \<not> isl (p_statements (args ! 0) s)"
      by (auto simp: part_at_in)
  qed
  note parts = two v rs av ars abd part_at_in len ai chain counted_loop_returns[OF ar]
  note forms = visitInlinedMessage_def inline_if_def inline_ifNil_def inline_ifNilIfNotNil_def
    inline_ifTrueIfFalse_def inline_unitaryWhile_def inline_binaryWhile_def inlineRepeat_def inlineToDo_def
    inlineTimesRepeat_def inlineNot_def inlineChain_def Let_def
  show ?thesis
    unfolding returns_def
  proof
    fix s
    from f show "\<not> isl (visitInlinedMessage env receiver selector args s)"
      by (cases "(inline_form_of env selector, re, as)" rule: form_accepts.cases)
         (auto simp: parts forms neq_Nil_conv split: prod.splits list.splits)
  qed
qed

lemma visit_returns:
  "linearizable env e \<Longrightarrow> \<not> isl (visit env e s)"
  "\<forall>e\<in>set es. linearizable env e \<Longrightarrow> \<not> isl (visitStatements env es s)"
  "\<forall>e\<in>set as. linearizable env e \<Longrightarrow> \<not> isl (visitArguments env as s)"
  "\<forall>m\<in>set ms. \<forall>a\<in>set (snd m). linearizable env a \<Longrightarrow> \<not> isl (visitCascadeMessages env super ms s)"
  "linearizable env b \<Longrightarrow> isBlock b \<Longrightarrow> \<not> isl (visitBody env b s)"
proof (induction env e s and env es s and env as s and env super ms s and env b s
    rule: visit_visitStatements_visitArguments_visitCascadeMessages_visitBody.induct)
  case (7 env receiver selector args inlined s)
  show ?case
  proof (cases inlined)
    case True
    have "returns (visitInlinedMessage env (part_of env receiver) selector (map (part_of env) args))"
      by (rule inlined_returns[where re=receiver and as=args])
         (use 7 True in \<open>auto simp: part_returns_def part_of_def returns_def\<close>)
    with True show ?thesis by (simp add: returns_def visit_eqs)
  next
    case False
    with 7 have "\<not> isl (visit env receiver s)" by simp
    then obtain s1 where "visit env receiver s = Inr s1" by (cases "visit env receiver s") auto
    with 7 False show ?thesis by simp
  qed
qed (auto simp: Let_def)

text \<open>
  C14: linearizing always succeeds on the statements of a method when every inlined message has a
  selector that has an inline form, enough arguments, and blocks where the form takes blocks.
\<close>

theorem linearize_method_succeeds:
  assumes "\<forall>e\<in>set (sm_statements m). linearizable env e"
  shows "\<exists>s. linearize_method env temps m name = Inr s"
proof -
  have "\<not> isl (linearize_method env temps m name)"
    using visit_returns(2)[OF assms] by (simp add: linearize_method_def Let_def)
  then show ?thesis by (cases "linearize_method env temps m name") auto
qed

theorem linearize_method_succeeds_witness:
  "\<exists>s. linearize_method example_env 1 \<lparr>sm_pragma = None, sm_statements = nil_test_then_loop\<rparr> 0 = Inr s"
  by (rule linearize_method_succeeds)
     (simp add: nil_test_then_loop_def example_loop_def)

end
