(* ===== verification/EvaluationContext.thy ===== *)
theory EvaluationContext
  imports CompiledTrees
begin

text \<open>
  The stack and registers of \<open>EvaluationContext\<close>.  The stack is an array of words that grows down;
  positions are counted from 1 as \<open>stackAt_\<close> does.  Program counters and frame pointers are kept on
  it as raw words between the frames.  An access outside the array is undefined behaviour.
\<close>

section \<open>State\<close>

record evaluation_context =
  stack :: "oop list"
  regSP :: int
  regBP :: int
  regPC :: int
  regE :: oop
  regM :: oop
  regS :: oop

definition STACK_SIZE :: nat where
  "STACK_SIZE = 64 * 1024"

definition new_context :: "oop \<Rightarrow> oop list \<Rightarrow> evaluation_context" where
  "new_context nil stk = \<lparr>stack = stk, regSP = int STACK_SIZE + 1, regBP = 0, regPC = 0, regE = nil,
     regM = 0, regS = 0\<rparr>"

section \<open>Stack\<close>

definition stackAt :: "int \<Rightarrow> evaluation_context \<Rightarrow> oop result" where
  "stackAt i c = (if 1 \<le> i \<and> i \<le> int (length (stack c)) then Inr (stack c ! (nat i - 1)) else Inl Undefined)"

definition stackAt_put :: "int \<Rightarrow> oop \<Rightarrow> evaluation_context \<Rightarrow> evaluation_context result" where
  "stackAt_put i v c =
     (if 1 \<le> i \<and> i \<le> int (length (stack c)) then Inr (c\<lparr>stack := (stack c)[nat i - 1 := v]\<rparr>)
      else Inl Undefined)"

definition pop :: "evaluation_context \<Rightarrow> (oop \<times> evaluation_context) result" where
  "pop c = bind_result (stackAt (regSP c) c) (\<lambda>v. Inr (v, c\<lparr>regSP := regSP c + 1\<rparr>))"

definition push :: "oop \<Rightarrow> evaluation_context \<Rightarrow> evaluation_context result" where
  "push v c = stackAt_put (regSP c - 1) v (c\<lparr>regSP := regSP c - 1\<rparr>)"

definition pushOperand :: "oop \<Rightarrow> evaluation_context \<Rightarrow> evaluation_context result" where
  "pushOperand v c = stackAt_put (regSP c - 1) v (c\<lparr>regSP := regSP c - 1\<rparr>)"

definition dropOperands :: "nat \<Rightarrow> evaluation_context \<Rightarrow> evaluation_context" where
  "dropOperands n c = c\<lparr>regSP := regSP c + int n\<rparr>"

definition reserveStackSlots :: "nat \<Rightarrow> evaluation_context \<Rightarrow> evaluation_context" where
  "reserveStackSlots n c = c\<lparr>regSP := regSP c - int n\<rparr>"

text \<open>The first value popped is the last of the result.\<close>

fun popOperands :: "nat \<Rightarrow> evaluation_context \<Rightarrow> (oop list \<times> evaluation_context) result" where
  "popOperands 0 c = Inr ([], c)"
| "popOperands (Suc n) c =
     bind_result (pop c) (\<lambda>(v, c). bind_result (popOperands n c) (\<lambda>(vs, c). Inr (vs @ [v], c)))"

definition operandAt :: "int \<Rightarrow> evaluation_context \<Rightarrow> oop result" where
  "operandAt n c = stackAt (regSP c + n) c"

text \<open>\<open>evaluateUndermessage_with_\<close> pops the arguments and makes room for them again.\<close>

definition undermessage_arguments ::
    "nat \<Rightarrow> evaluation_context \<Rightarrow> (oop list \<times> evaluation_context) result" where
  "undermessage_arguments n c =
     bind_result (popOperands n c) (\<lambda>(vs, c). Inr (vs, reserveStackSlots n c))"

section \<open>Frames\<close>

text \<open>
  Below a frame pointer lie the receiver, the code, the environment of the sender, the environment
  and then the temporaries; at it lies the frame pointer of the sender and above it the return
  address and the arguments, the last one first.
\<close>

fun bpForFrameAt :: "nat \<Rightarrow> int \<Rightarrow> evaluation_context \<Rightarrow> int result" where
  "bpForFrameAt 0 bp c = Inr bp"
| "bpForFrameAt (Suc 0) bp c = Inr bp"
| "bpForFrameAt (Suc (Suc i)) bp c =
     (if bp = 0 then Inl (FatalError ''reached the begining of the stack'')
      else bind_result (stackAt bp c) (\<lambda>b. bpForFrameAt (Suc i) (uint b) c))"

definition stackTemporaryAt_frame :: "int \<Rightarrow> int \<Rightarrow> evaluation_context \<Rightarrow> oop result" where
  "stackTemporaryAt_frame i bp c = stackAt (bp - 4 - i) c"

definition stackTemporaryAt_frameIndex :: "int \<Rightarrow> nat \<Rightarrow> evaluation_context \<Rightarrow> oop result" where
  "stackTemporaryAt_frameIndex i k c =
     bind_result (bpForFrameAt k (regBP c) c) (\<lambda>bp. stackTemporaryAt_frame i bp c)"

definition stackTemporaryAt :: "int \<Rightarrow> evaluation_context \<Rightarrow> oop result" where
  "stackTemporaryAt i c = stackTemporaryAt_frameIndex i 1 c"

definition stackTemporaryAt_frameIndex_put :: "int \<Rightarrow> nat \<Rightarrow> oop \<Rightarrow> evaluation_context \<Rightarrow> evaluation_context result" where
  "stackTemporaryAt_frameIndex_put i k v c =
     bind_result (bpForFrameAt k (regBP c) c) (\<lambda>bp. stackAt_put (bp - 4 - i) v c)"

definition stackTemporaryAt_put :: "int \<Rightarrow> oop \<Rightarrow> evaluation_context \<Rightarrow> evaluation_context result" where
  "stackTemporaryAt_put i v c = stackTemporaryAt_frameIndex_put i 1 v c"

text \<open>The number of arguments of a code is asked from the runtime.\<close>

definition argumentAt_frame :: "(oop \<Rightarrow> int) \<Rightarrow> int \<Rightarrow> int \<Rightarrow> evaluation_context \<Rightarrow> oop result" where
  "argumentAt_frame argumentCountOf i bp c =
     bind_result (stackAt (bp - 2) c) (\<lambda>code. stackAt (bp + 1 + (argumentCountOf code - i + 1)) c)"

definition argumentAt :: "(oop \<Rightarrow> int) \<Rightarrow> int \<Rightarrow> evaluation_context \<Rightarrow> oop result" where
  "argumentAt argumentCountOf i c = argumentAt_frame argumentCountOf i (regBP c) c"

definition argumentAt_frameIndex :: "(oop \<Rightarrow> int) \<Rightarrow> int \<Rightarrow> nat \<Rightarrow> evaluation_context \<Rightarrow> oop result" where
  "argumentAt_frameIndex argumentCountOf i k c =
     bind_result (bpForFrameAt k (regBP c) c) (\<lambda>bp. argumentAt_frame argumentCountOf i bp c)"

text \<open>The arguments of a method, from the last to the first.\<close>

fun methodArguments_from :: "(oop \<Rightarrow> int) \<Rightarrow> nat \<Rightarrow> evaluation_context \<Rightarrow> oop list result" where
  "methodArguments_from argumentCountOf 0 c = Inr []"
| "methodArguments_from argumentCountOf (Suc i) c =
     bind_result (argumentAt argumentCountOf (int (Suc i)) c) (\<lambda>v.
     bind_result (methodArguments_from argumentCountOf i c) (\<lambda>vs. Inr (v # vs)))"

definition methodArguments :: "(oop \<Rightarrow> int) \<Rightarrow> evaluation_context \<Rightarrow> oop list result" where
  "methodArguments argumentCountOf c = methodArguments_from argumentCountOf (nat (argumentCountOf (regM c))) c"

fun push_nils :: "nat \<Rightarrow> oop \<Rightarrow> evaluation_context \<Rightarrow> evaluation_context result" where
  "push_nils 0 nil c = Inr c"
| "push_nils (Suc n) nil c = bind_result (push nil c) (push_nils n nil)"

definition buildFrame ::
    "oop \<Rightarrow> oop \<Rightarrow> oop \<Rightarrow> oop \<Rightarrow> nat \<Rightarrow> evaluation_context \<Rightarrow> evaluation_context result" where
  "buildFrame nil receiver code environment temps c =
     bind_result (push (word_of_int (regPC c)) (c\<lparr>regS := receiver, regM := code\<rparr>)) (\<lambda>c.
     bind_result (push (word_of_int (regBP c)) c) (\<lambda>c.
     let c = c\<lparr>regBP := regSP c\<rparr>
     in if regBP c \<le> 100 then Inl (FatalError ''stack overflow'')
        else
          bind_result (push receiver c) (\<lambda>c.
          bind_result (push code c) (\<lambda>c.
          bind_result (push (regE c) c) (\<lambda>c.
          bind_result (push environment c) (\<lambda>c.
          push_nils temps nil (c\<lparr>regE := environment, regPC := 0\<rparr>)))))))"

definition popFrame :: "evaluation_context \<Rightarrow> evaluation_context result" where
  "popFrame c =
     bind_result (pop (c\<lparr>regSP := regBP c\<rparr>)) (\<lambda>(bp, c).
     bind_result (pop (c\<lparr>regBP := uint bp\<rparr>)) (\<lambda>(pc, c).
     let c = c\<lparr>regPC := uint pc\<rparr>
     in bind_result (stackAt (regBP c - 4) c) (\<lambda>e.
        bind_result (stackAt (regBP c - 2) c) (\<lambda>m.
        bind_result (stackAt (regBP c - 1) c) (\<lambda>s.
        Inr (c\<lparr>regE := e, regM := m, regS := s\<rparr>))))))"

definition popLaunchFrame :: "oop \<Rightarrow> evaluation_context \<Rightarrow> evaluation_context result" where
  "popLaunchFrame prevRegE c =
     bind_result (pop (c\<lparr>regSP := regBP c, regE := prevRegE\<rparr>)) (\<lambda>(bp, c).
     bind_result (pop (c\<lparr>regBP := uint bp\<rparr>)) (\<lambda>(pc, c).
     let c = c\<lparr>regPC := uint pc\<rparr>
     in if regBP c = 0 then Inr c
        else
          bind_result (stackAt (regBP c - 2) c) (\<lambda>m.
          bind_result (stackAt (regBP c - 1) c) (\<lambda>s.
          Inr (c\<lparr>regM := m, regS := s\<rparr>)))))"

section \<open>The slots of the current frame\<close>

text \<open>
  The abstraction the evaluator's operations are stated with: the slots of the frame from the first
  temporary to the top of the stack.
\<close>

definition slot_count :: "evaluation_context \<Rightarrow> nat" where
  "slot_count c = nat (regBP c - 4 - regSP c)"

definition slots :: "evaluation_context \<Rightarrow> oop list" where
  "slots c = map (\<lambda>i. stack c ! nat (regBP c - 6 - int i)) [0..<slot_count c]"

definition well_framed :: "evaluation_context \<Rightarrow> bool" where
  "well_framed c \<longleftrightarrow> 1 \<le> regSP c \<and> regSP c \<le> regBP c - 4 \<and> regBP c < int (length (stack c)) \<and>
     int (length (stack c)) < 2 ^ 63"

lemma length_slots [simp]: "length (slots c) = slot_count c"
  by (simp add: slots_def)

lemma slots_nth: "i < slot_count c \<Longrightarrow> slots c ! i = stack c ! nat (regBP c - 6 - int i)"
  by (simp add: slots_def)

lemma slot_count_eq: "well_framed c \<Longrightarrow> int (slot_count c) = regBP c - 4 - regSP c"
  by (simp add: slot_count_def well_framed_def)

lemma bpForFrameAt_1 [simp]: "bpForFrameAt 1 bp c = Inr bp"
  by simp

definition same_frame :: "evaluation_context \<Rightarrow> evaluation_context \<Rightarrow> bool" where
  "same_frame c c' \<longleftrightarrow> well_framed c' \<and> regBP c' = regBP c \<and> regPC c' = regPC c \<and> regE c' = regE c \<and>
     regM c' = regM c \<and> regS c' = regS c"

lemma stackAt_slot:
  assumes "well_framed c" "i < slot_count c"
  shows "stackAt (regBP c - 5 - int i) c = Inr (slots c ! i)"
proof -
  have "nat (regBP c - 5 - int i) - 1 = nat (regBP c - 6 - int i)" by simp
  moreover have "1 \<le> regBP c - 5 - int i" "regBP c - 5 - int i \<le> int (length (stack c))"
    using assms slot_count_eq[OF assms(1)] by (auto simp: well_framed_def)
  ultimately show ?thesis using assms(2) by (simp add: stackAt_def slots_nth)
qed

lemma push_slots:
  assumes "well_framed c" "1 < regSP c"
  shows "\<exists>c'. push v c = Inr c' \<and> same_frame c c' \<and> slots c' = slots c @ [v]"
proof -
  let ?c = "c\<lparr>regSP := regSP c - 1, stack := (stack c)[nat (regSP c - 1) - 1 := v]\<rparr>"
  have n: "int (slot_count c) = regBP c - 4 - regSP c" by (rule slot_count_eq[OF assms(1)])
  have push: "push v c = Inr ?c"
    using assms by (auto simp: push_def stackAt_put_def well_framed_def)
  have wf: "well_framed ?c" using assms by (auto simp: well_framed_def)
  have len: "slot_count ?c = Suc (slot_count c)"
    using slot_count_eq[OF wf] n by simp
  have "slots ?c = slots c @ [v]"
  proof (rule nth_equalityI)
    show "length (slots ?c) = length (slots c @ [v])" using len by simp
    fix i assume i: "i < length (slots ?c)"
    with len have i': "i < Suc (slot_count c)" by simp
    have idx: "nat (regBP c - 6 - int i) = nat (regSP c - 1) - 1 \<longleftrightarrow> i = slot_count c"
      using i' n assms by (auto simp: well_framed_def)
    have "nat (regSP c - 1) - 1 < length (stack c)" using assms by (auto simp: well_framed_def)
    moreover have "slots ?c ! i = (stack c)[nat (regSP c - 1) - 1 := v] ! nat (regBP c - 6 - int i)"
      using slots_nth[of i ?c] i by simp
    ultimately have "slots ?c ! i = (if i = slot_count c then v else stack c ! nat (regBP c - 6 - int i))"
      using idx by (simp only: nth_list_update) auto
    then show "slots ?c ! i = (slots c @ [v]) ! i"
      using i' slots_nth[of i c] by (simp add: nth_append)
  qed
  with push wf show ?thesis by (auto simp: same_frame_def)
qed

lemma dropOperands_slots:
  assumes "well_framed c" "frame_drop n (slots c) = Inr f"
  shows "same_frame c (dropOperands n c) \<and> slots (dropOperands n c) = f"
proof -
  have n: "int (slot_count c) = regBP c - 4 - regSP c" by (rule slot_count_eq[OF assms(1)])
  from assms(2) have le: "n \<le> slot_count c" and f: "f = take (slot_count c - n) (slots c)"
    by (auto simp: frame_drop_def split: if_splits)
  have wf: "well_framed (dropOperands n c)"
    using assms(1) n le by (auto simp: well_framed_def dropOperands_def)
  have len: "slot_count (dropOperands n c) = slot_count c - n"
    using slot_count_eq[OF wf] n le by (simp add: dropOperands_def)
  have "slots (dropOperands n c) = f"
    by (rule nth_equalityI) (auto simp: f len slots_nth, simp add: dropOperands_def)
  with wf show ?thesis by (simp add: same_frame_def dropOperands_def)
qed

lemma operandAt_slots:
  assumes "well_framed c" "frame_operand_at n (slots c) = Inr v"
  shows "operandAt (int n) c = Inr v"
proof -
  have n: "int (slot_count c) = regBP c - 4 - regSP c" by (rule slot_count_eq[OF assms(1)])
  from assms(2) have "n < slot_count c" and v: "v = slots c ! (slot_count c - 1 - n)"
    by (auto simp: frame_operand_at_def split: if_splits)
  then have "regSP c + int n = regBP c - 5 - int (slot_count c - 1 - n)" "slot_count c - 1 - n < slot_count c"
    using n by (auto simp: of_nat_diff)
  with stackAt_slot[OF assms(1), of "slot_count c - 1 - n"] v show ?thesis by (simp add: operandAt_def)
qed

lemma stackTemporaryAt_slots:
  assumes "well_framed c" "frame_at i (slots c) = Inr v"
  shows "stackTemporaryAt i c = Inr v"
proof -
  from assms(2) have i: "1 \<le> i" "nat i \<le> slot_count c" and v: "v = slots c ! (nat i - 1)"
    by (auto simp: frame_at_def split: if_splits)
  then have eq: "regBP c - 4 - i = regBP c - 5 - int (nat i - 1)" and lt: "nat i - 1 < slot_count c" by auto
  show ?thesis
    unfolding stackTemporaryAt_def stackTemporaryAt_frameIndex_def stackTemporaryAt_frame_def
      bpForFrameAt_1 bind_result_simps eq v
    by (rule stackAt_slot[OF assms(1) lt])
qed

lemma stackTemporaryAt_put_slots:
  assumes "well_framed c" "frame_at_put i v (slots c) = Inr f"
  shows "\<exists>c'. stackTemporaryAt_put i v c = Inr c' \<and> same_frame c c' \<and> slots c' = f"
proof -
  have n: "int (slot_count c) = regBP c - 4 - regSP c" by (rule slot_count_eq[OF assms(1)])
  from assms(2) have i: "1 \<le> i" "nat i \<le> slot_count c" and f: "f = (slots c)[nat i - 1 := v]"
    by (auto simp: frame_at_put_def split: if_splits)
  let ?c = "c\<lparr>stack := (stack c)[nat (regBP c - 4 - i) - 1 := v]\<rparr>"
  have put: "stackTemporaryAt_put i v c = Inr ?c"
    using assms(1) i n
    by (auto simp: stackTemporaryAt_put_def stackTemporaryAt_frameIndex_put_def stackAt_put_def well_framed_def)
  have wf: "well_framed ?c" using assms(1) by (auto simp: well_framed_def)
  have cnt: "slot_count ?c = slot_count c" by (simp add: slot_count_def)
  have "slots ?c = f"
  proof (rule nth_equalityI)
    show "length (slots ?c) = length f" using cnt by (simp add: f)
    fix j assume j: "j < length (slots ?c)"
    with cnt have j': "j < slot_count c" by simp
    have idx: "nat (regBP c - 6 - int j) = nat (regBP c - 4 - i) - 1 \<longleftrightarrow> j = nat i - 1"
      using j' n i assms(1) by (auto simp: well_framed_def)
    have "nat (regBP c - 4 - i) - 1 < length (stack c)" using assms(1) i by (auto simp: well_framed_def)
    then show "slots ?c ! j = f ! j"
      using j j' idx i by (auto simp: slots_nth f nth_list_update)
  qed
  with put wf show ?thesis by (auto simp: same_frame_def)
qed

lemma pop_slots:
  assumes "well_framed c" "slots c = f @ [v]"
  shows "\<exists>c'. pop c = Inr (v, c') \<and> same_frame c c' \<and> slots c' = f"
proof -
  have "operandAt (int 0) c = Inr v"
    by (rule operandAt_slots[OF assms(1)]) (simp add: assms(2) frame_operand_at_def nth_append)
  then have "pop c = Inr (v, dropOperands 1 c)"
    by (simp add: pop_def operandAt_def dropOperands_def)
  moreover have "same_frame c (dropOperands 1 c) \<and> slots (dropOperands 1 c) = f"
    by (rule dropOperands_slots[OF assms(1)]) (simp add: assms(2) frame_drop_def)
  ultimately show ?thesis by blast
qed

lemma same_frame_trans: "same_frame a b \<Longrightarrow> same_frame b c \<Longrightarrow> same_frame a c"
  by (simp add: same_frame_def)

lemma popOperands_slots:
  "well_framed c \<Longrightarrow> slots c = f @ vs \<Longrightarrow>
   popOperands (length vs) c = Inr (vs, dropOperands (length vs) c)"
proof (induction vs arbitrary: c rule: rev_induct)
  case Nil
  then show ?case by (simp add: dropOperands_def)
next
  case (snoc v vs)
  have "operandAt (int 0) c = Inr v"
    by (rule operandAt_slots[OF snoc.prems(1)]) (simp add: snoc.prems(2) frame_operand_at_def nth_append)
  then have pop: "pop c = Inr (v, dropOperands 1 c)"
    by (simp add: pop_def operandAt_def dropOperands_def)
  have "same_frame c (dropOperands 1 c) \<and> slots (dropOperands 1 c) = f @ vs"
    by (rule dropOperands_slots[OF snoc.prems(1)]) (simp add: snoc.prems(2) frame_drop_def)
  with snoc.IH[of "dropOperands 1 c"] pop show ?case
    by (simp add: same_frame_def) (simp add: dropOperands_def)
qed

text \<open>
  an undermessage gets the top operands of the frame as its arguments, in the order they were
  pushed, and finds the stack and the registers as they were.
\<close>

theorem undermessage_arguments_spec:
  assumes "well_framed c" "frame_operands n (slots c) = Inr vs"
  shows "undermessage_arguments n c = Inr (vs, c)"
proof -
  from assms(2) have "slots c = take (slot_count c - n) (slots c) @ vs" "length vs = n"
    by (auto simp: frame_operands_def split: if_splits)
  from popOperands_slots[OF assms(1) this(1)] this(2) show ?thesis
    by (simp add: undermessage_arguments_def reserveStackSlots_def dropOperands_def)
qed


text \<open>
  The interface of a stack of operands: what the evaluator relies on when it pushes values, reads
  them back and drops them.  The context provides it with the slots of its frame.
\<close>

locale operand_stack =
  fixes slots_of :: "'c \<Rightarrow> oop list" and valid :: "'c \<Rightarrow> bool" and room :: "'c \<Rightarrow> bool"
    and push_on :: "oop \<Rightarrow> 'c \<Rightarrow> 'c result" and drop_from :: "nat \<Rightarrow> 'c \<Rightarrow> 'c"
    and operand_of :: "nat \<Rightarrow> 'c \<Rightarrow> oop result"
  assumes push_on: "valid c \<Longrightarrow> room c \<Longrightarrow>
      \<exists>c'. push_on v c = Inr c' \<and> valid c' \<and> slots_of c' = slots_of c @ [v]"
    and drop_from: "valid c \<Longrightarrow> frame_drop n (slots_of c) = Inr f \<Longrightarrow>
      valid (drop_from n c) \<and> slots_of (drop_from n c) = f"
    and operand_of: "valid c \<Longrightarrow> frame_operand_at n (slots_of c) = Inr v \<Longrightarrow> operand_of n c = Inr v"
begin

lemma top_and_below:
  assumes "valid c" "slots_of c = f @ [u, v]"
  shows "operand_of 0 c = Inr v" "operand_of 1 c = Inr u" "slots_of (drop_from 2 c) = f"
  using operand_of[OF assms(1)] drop_from[OF assms(1)] assms(2)
  by (simp_all add: frame_operand_at_def frame_drop_def nth_append)

lemma push_twice_drop:
  assumes "valid c" "room c" "\<And>c'. valid c' \<Longrightarrow> slots_of c' = slots_of c @ [u] \<Longrightarrow> room c'"
  shows "\<exists>c1 c2. push_on u c = Inr c1 \<and> push_on v c1 = Inr c2 \<and> operand_of 1 c2 = Inr u \<and>
    valid (drop_from 2 c2) \<and> slots_of (drop_from 2 c2) = slots_of c"
proof -
  from push_on[OF assms(1,2)] obtain c1
    where 1: "push_on u c = Inr c1" "valid c1" "slots_of c1 = slots_of c @ [u]" by blast
  from push_on[OF 1(2) assms(3)[OF 1(2,3)]] obtain c2
    where 2: "push_on v c1 = Inr c2" "valid c2" "slots_of c2 = slots_of c1 @ [v]" by blast
  have s: "slots_of c2 = slots_of c @ [u, v]" using 1 2 by simp
  have "valid (drop_from 2 c2)" using drop_from[OF 2(2), of 2 "slots_of c"] s by (simp add: frame_drop_def)
  with 1 2 top_and_below[OF 2(2) s] show ?thesis by auto
qed

end

interpretation frame: operand_stack slots well_framed "\<lambda>c. 1 < regSP c" push dropOperands "\<lambda>n. operandAt (int n)"
proof unfold_locales
  fix c v assume "well_framed c" "1 < regSP c"
  from push_slots[OF this, of v]
  show "\<exists>c'. push v c = Inr c' \<and> well_framed c' \<and> slots c' = slots c @ [v]" by (auto simp: same_frame_def)
next
  fix c n f assume "well_framed c" "frame_drop n (slots c) = Inr f"
  from dropOperands_slots[OF this]
  show "well_framed (dropOperands n c) \<and> slots (dropOperands n c) = f" by (simp add: same_frame_def)
qed (rule operandAt_slots)

section \<open>The stack operations of the evaluator\<close>

text \<open>The operations that work on the stack alone, as the evaluator performs them on its context.\<close>

fun stack_operation :: "op \<Rightarrow> oop \<Rightarrow> evaluation_context \<Rightarrow> (oop \<times> evaluation_context) result" where
  "stack_operation (OpDropToS n) r c = Inr (r, dropOperands n c)"
| "stack_operation (OpLoadRfromFrame i) r c = bind_result (stackTemporaryAt i c) (\<lambda>v. Inr (v, c))"
| "stack_operation (OpLoadRfromStack n) r c = bind_result (operandAt (int n) c) (\<lambda>v. Inr (v, c))"
| "stack_operation (OpStoreRintoFrame i) r c = bind_result (stackTemporaryAt_put i r c) (\<lambda>c. Inr (r, c))"
| "stack_operation OpPopR r c = pop c"
| "stack_operation OpPushR r c = bind_result (pushOperand r c) (\<lambda>c. Inr (r, c))"
| "stack_operation _ r c = Inr (r, c)"

fun works_on_stack :: "op \<Rightarrow> bool" where
  "works_on_stack (OpDropToS n) = True"
| "works_on_stack (OpLoadRfromFrame i) = True"
| "works_on_stack (OpLoadRfromStack n) = True"
| "works_on_stack (OpStoreRintoFrame i) = True"
| "works_on_stack OpPopR = True"
| "works_on_stack OpPushR = True"
| "works_on_stack _ = False"

lemma pushOperand_push: "pushOperand v c = push v c"
  by (simp add: pushOperand_def push_def)

lemma frame_top: "frame_operand_at 0 g = Inr v \<Longrightarrow> frame_drop 1 g = Inr f \<Longrightarrow> g = f @ [v]"
  by (cases g rule: rev_cases) (auto simp: frame_operand_at_def frame_drop_def nth_append split: if_splits)

text \<open>
  C10: the stack operations refine the operations on the slots of a frame: when an operation leads
  from the slots of the current frame to others, the evaluator gets the same \<open>R\<close>, the slots of its
  frame afterwards are those, and no register but the stack pointer changes.  A push needs room.
\<close>

theorem stack_operation_refines:
  assumes "well_framed c" "works_on_stack x" "x = OpPushR \<Longrightarrow> 1 < regSP c"
    and "perform rt x pc r (slots c) w = Inr (Running pc' v f w')"
  shows "\<exists>c'. stack_operation x r c = Inr (v, c') \<and> same_frame c c' \<and> slots c' = f"
  using assms
proof (cases x)
  case (OpDropToS n)
  with assms dropOperands_slots[OF assms(1), of n] show ?thesis by (auto simp: bind_result_eq_Inr)
next
  case (OpLoadRfromFrame i)
  with assms stackTemporaryAt_slots[OF assms(1), of i] show ?thesis
    by (auto simp: bind_result_eq_Inr same_frame_def)
next
  case (OpLoadRfromStack n)
  with assms operandAt_slots[OF assms(1), of n] show ?thesis
    by (auto simp: bind_result_eq_Inr same_frame_def)
next
  case (OpStoreRintoFrame i)
  with assms(4) have "frame_at_put i r (slots c) = Inr f" "v = r" by (auto simp: bind_result_eq_Inr)
  with stackTemporaryAt_put_slots[OF assms(1) this(1)] OpStoreRintoFrame show ?thesis by auto
next
  case OpPopR
  with assms(4) have "slots c = f @ [v]" by (intro frame_top) (auto simp: bind_result_eq_Inr)
  from pop_slots[OF assms(1) this] OpPopR show ?thesis by auto
next
  case OpPushR
  with assms push_slots[OF assms(1), of r] show ?thesis by (auto simp: pushOperand_push)
qed simp_all

section \<open>Building and popping frames\<close>

lemma stackAt_update [simp]:
  "stackAt i (c\<lparr>regSP := a\<rparr>) = stackAt i c" "stackAt i (c\<lparr>regBP := a\<rparr>) = stackAt i c"
  "stackAt i (c\<lparr>regPC := a\<rparr>) = stackAt i c" "stackAt i (c\<lparr>regE := v\<rparr>) = stackAt i c"
  "stackAt i (c\<lparr>regM := v\<rparr>) = stackAt i c" "stackAt i (c\<lparr>regS := v\<rparr>) = stackAt i c"
  by (simp_all add: stackAt_def)

definition pushed :: "oop \<Rightarrow> evaluation_context \<Rightarrow> evaluation_context" where
  "pushed v c = c\<lparr>regSP := regSP c - 1, stack := (stack c)[nat (regSP c - 1) - 1 := v]\<rparr>"

lemma pushed_simps [simp]:
  "regSP (pushed v c) = regSP c - 1" "regBP (pushed v c) = regBP c" "regPC (pushed v c) = regPC c"
  "regE (pushed v c) = regE c" "regM (pushed v c) = regM c" "regS (pushed v c) = regS c"
  "length (stack (pushed v c)) = length (stack c)"
  by (simp_all add: pushed_def)

lemma push_pushed:
  "1 < regSP c \<Longrightarrow> regSP c \<le> int (length (stack c)) + 1 \<Longrightarrow> push v c = Inr (pushed v c)"
  by (auto simp: push_def stackAt_put_def pushed_def)

lemma stackAt_pushed:
  "1 < regSP c \<Longrightarrow> regSP c \<le> int (length (stack c)) + 1 \<Longrightarrow>
   stackAt i (pushed v c) = (if i = regSP c - 1 then Inr v else stackAt i c)"
  by (auto simp: stackAt_def pushed_def nth_list_update)

lemma push_nils_eq:
  "int n < regSP c \<Longrightarrow> regSP c \<le> int (length (stack c)) + 1 \<Longrightarrow>
   \<exists>c'. push_nils n nil c = Inr c' \<and> regSP c' = regSP c - int n \<and> regBP c' = regBP c \<and>
     regPC c' = regPC c \<and> regE c' = regE c \<and> regM c' = regM c \<and> regS c' = regS c \<and>
     length (stack c') = length (stack c) \<and>
     (\<forall>i. stackAt i c' = (if regSP c - int n \<le> i \<and> i < regSP c then Inr nil else stackAt i c))"
proof (induction n arbitrary: c)
  case 0
  then show ?case by (auto intro: exI[of _ c])
next
  case (Suc n)
  from Suc.prems have p: "push nil c = Inr (pushed nil c)" by (intro push_pushed) auto
  from Suc.IH[of "pushed nil c"] Suc.prems obtain c' where
    c': "push_nils n nil (pushed nil c) = Inr c'" "regSP c' = regSP c - 1 - int n" "regBP c' = regBP c"
      "regPC c' = regPC c" "regE c' = regE c" "regM c' = regM c" "regS c' = regS c"
      "length (stack c') = length (stack c)"
    and st: "\<forall>i. stackAt i c' = (if regSP c - 1 - int n \<le> i \<and> i < regSP c - 1 then Inr nil else stackAt i (pushed nil c))"
    by auto
  have "\<forall>i. stackAt i c' = (if regSP c - int (Suc n) \<le> i \<and> i < regSP c then Inr nil else stackAt i c)"
    using st stackAt_pushed[of c _ nil] Suc.prems by auto
  with c' p show ?case by auto
qed

text \<open>The registers of the current activation are kept in its frame.\<close>

definition saved_registers :: "evaluation_context \<Rightarrow> bool" where
  "saved_registers c \<longleftrightarrow> stackAt (regBP c - 4) c = Inr (regE c) \<and> stackAt (regBP c - 2) c = Inr (regM c) \<and>
     stackAt (regBP c - 1) c = Inr (regS c)"

definition frame_invariant :: "evaluation_context \<Rightarrow> bool" where
  "frame_invariant c \<longleftrightarrow> well_framed c \<and> saved_registers c \<and> 0 \<le> regPC c \<and> regPC c < 2 ^ 64"

lemma buildFrame_eq:
  assumes "well_framed c" "int temps + 6 < regSP c" "102 < regSP c"
  shows "\<exists>c'. buildFrame nil receiver code env temps c = Inr c' \<and>
     regSP c' = regSP c - 6 - int temps \<and> regBP c' = regSP c - 2 \<and> regPC c' = 0 \<and> regE c' = env \<and>
     regM c' = code \<and> regS c' = receiver \<and> length (stack c') = length (stack c) \<and>
     (\<forall>i\<ge>regSP c. stackAt i c' = stackAt i c) \<and>
     stackAt (regSP c - 1) c' = Inr (word_of_int (regPC c)) \<and>
     stackAt (regSP c - 2) c' = Inr (word_of_int (regBP c)) \<and>
     stackAt (regSP c - 3) c' = Inr receiver \<and> stackAt (regSP c - 4) c' = Inr code \<and>
     stackAt (regSP c - 5) c' = Inr (regE c) \<and> stackAt (regSP c - 6) c' = Inr env \<and>
     (\<forall>i. regSP c' \<le> i \<and> i < regSP c - 6 \<longrightarrow> stackAt i c' = Inr nil)"
proof -
  let ?c0 = "c\<lparr>regS := receiver, regM := code\<rparr>"
  let ?c1 = "pushed (word_of_int (regPC c)) ?c0"
  let ?c2 = "pushed (word_of_int (regBP c)) ?c1"
  let ?c3 = "pushed receiver (?c2\<lparr>regBP := regSP c - 2\<rparr>)"
  let ?c6 = "pushed env (pushed (regE c) (pushed code ?c3))"
  let ?c7 = "?c6\<lparr>regE := env, regPC := 0\<rparr>"
  have len: "regSP c \<le> int (length (stack c))" using assms(1) by (auto simp: well_framed_def)
  from push_nils_eq[of temps ?c7 nil] assms(2) len obtain c' where
    c': "push_nils temps nil ?c7 = Inr c'" "regSP c' = regSP c - 6 - int temps" "regBP c' = regSP c - 2"
      "regPC c' = 0" "regE c' = env" "regM c' = code" "regS c' = receiver" "length (stack c') = length (stack c)"
    and st: "\<forall>i. stackAt i c' = (if regSP c - 6 - int temps \<le> i \<and> i < regSP c - 6 then Inr nil else stackAt i ?c6)"
    by auto
  have b: "buildFrame nil receiver code env temps c = Inr c'"
    using c'(1) assms(2,3) len by (simp add: buildFrame_def push_pushed Let_def)
  have st6: "stackAt i ?c6 = (if i = regSP c - 6 then Inr env else if i = regSP c - 5 then Inr (regE c)
      else if i = regSP c - 4 then Inr code else if i = regSP c - 3 then Inr receiver
      else if i = regSP c - 2 then Inr (word_of_int (regBP c))
      else if i = regSP c - 1 then Inr (word_of_int (regPC c)) else stackAt i c)" for i
    using assms(2) len by (simp add: stackAt_pushed)
  show ?thesis
    using b c' st by (intro exI[of _ c']) (simp add: st6)
qed

lemma bind_result_eq_Inl:
  "bind_result r k = Inl e \<longleftrightarrow> r = Inl e \<or> (\<exists>x. r = Inr x \<and> k x = Inl e)"
  by (cases r) auto

lemma push_no_error [simp]: "push v c \<noteq> Inl (FatalError s)"
  by (simp add: push_def stackAt_put_def)

lemma push_nils_no_error [simp]: "push_nils n nil c \<noteq> Inl (FatalError s)"
  by (induction n arbitrary: c) (auto simp: bind_result_eq_Inl)

text \<open>
  building a frame fails with the stack overflow error exactly when the frame pointer would come
  to 100 or less, whatever the temporaries, as long as there is room for the two words before it.
\<close>

theorem buildFrame_overflow:
  assumes "well_framed c" "2 < regSP c"
  shows "buildFrame nil receiver code env temps c = Inl (FatalError ''stack overflow'') \<longleftrightarrow> regSP c \<le> 102"
proof -
  let ?c0 = "c\<lparr>regS := receiver, regM := code\<rparr>"
  have len: "regSP c \<le> int (length (stack c))" using assms(1) by (auto simp: well_framed_def)
  have "push (word_of_int (regPC c)) ?c0 = Inr (pushed (word_of_int (regPC c)) ?c0)"
    "push (word_of_int (regBP c)) (pushed (word_of_int (regPC c)) ?c0) =
       Inr (pushed (word_of_int (regBP c)) (pushed (word_of_int (regPC c)) ?c0))"
    using assms(2) len by (auto intro!: push_pushed)
  then show ?thesis
    by (simp add: buildFrame_def Let_def bind_result_eq_Inl)
qed

text \<open>What a callee leaves: the cells of the sender, from the frame pointer up, as it found them.\<close>

definition callee_left :: "evaluation_context \<Rightarrow> evaluation_context \<Rightarrow> bool" where
  "callee_left c c' \<longleftrightarrow> regBP c' = regBP c \<and> length (stack c') = length (stack c) \<and>
     (\<forall>i\<ge>regBP c. stackAt i c' = stackAt i c)"

lemma uint_of_int: "0 \<le> i \<Longrightarrow> i < 2 ^ 64 \<Longrightarrow> uint (word_of_int i :: oop) = i"
  by (simp add: uint_word_of_int)

lemma slots_eqI:
  assumes "well_framed c" "regSP c' = regSP c" "regBP c' = regBP c" "length (stack c') = length (stack c)"
    "\<And>i. regSP c \<le> i \<Longrightarrow> stackAt i c' = stackAt i c"
  shows "slots c' = slots c"
proof (rule nth_equalityI)
  have cnt: "slot_count c' = slot_count c" using assms by (simp add: slot_count_def)
  then show "length (slots c') = length (slots c)" by simp
  have wf: "well_framed c'" using assms by (simp add: well_framed_def)
  fix i assume "i < length (slots c')"
  then have i: "i < slot_count c" using cnt by simp
  have "regSP c \<le> regBP c - 5 - int i" using slot_count_eq[OF assms(1)] i by linarith
  from assms(5)[OF this] stackAt_slot[OF assms(1) i] stackAt_slot[OF wf, of i] i cnt assms(3)
  show "slots c' ! i = slots c ! i" by simp
qed

text \<open>
  C28: a return undoes a call.  After a frame is built and its code has run without touching the cells
  of the sender, popping the frame gives back every register of the sender, its program counter
  and environment included, and the slots of its frame.
\<close>

theorem popFrame_undoes_buildFrame:
  assumes "frame_invariant c" "int temps + 6 < regSP c" "102 < regSP c"
    and "buildFrame nil receiver code env temps c = Inr c1" and "callee_left c1 c2"
  shows "\<exists>c3. popFrame c2 = Inr c3 \<and> frame_invariant c3 \<and> slots c3 = slots c \<and> regSP c3 = regSP c \<and>
    regBP c3 = regBP c \<and> regPC c3 = regPC c \<and> regE c3 = regE c \<and> regM c3 = regM c \<and> regS c3 = regS c"
proof -
  from assms(1) have wf: "well_framed c" and sr: "saved_registers c" and pc: "0 \<le> regPC c" "regPC c < 2 ^ 64"
    by (auto simp: frame_invariant_def)
  have bounds: "0 \<le> regBP c" "regBP c < 2 ^ 64" "regSP c \<le> regBP c - 4" "regBP c < int (length (stack c))"
    using wf by (auto simp: well_framed_def)
  from buildFrame_eq[OF wf assms(2,3), of nil receiver code env] assms(4)
  have c1: "regBP c1 = regSP c - 2" "length (stack c1) = length (stack c)"
      "stackAt (regSP c - 2) c1 = Inr (word_of_int (regBP c))" "stackAt (regSP c - 1) c1 = Inr (word_of_int (regPC c))"
    and up: "\<forall>i\<ge>regSP c. stackAt i c1 = stackAt i c" by auto
  have c2: "regBP c2 = regSP c - 2" "length (stack c2) = length (stack c)"
      "stackAt (regSP c - 2) c2 = Inr (word_of_int (regBP c))" "stackAt (regSP c - 1) c2 = Inr (word_of_int (regPC c))"
    and up2: "\<And>i. regSP c \<le> i \<Longrightarrow> stackAt i c2 = stackAt i c"
    using assms(5) c1 up by (auto simp: callee_left_def)
  let ?c3 = "c2\<lparr>regSP := regSP c, regBP := regBP c, regPC := regPC c, regE := regE c, regM := regM c, regS := regS c\<rparr>"
  have sv: "stackAt (regBP c - 4) c2 = Inr (regE c)" "stackAt (regBP c - 2) c2 = Inr (regM c)"
      "stackAt (regBP c - 1) c2 = Inr (regS c)"
    using sr up2 bounds by (auto simp: saved_registers_def)
  have "regSP c - 2 + 1 = regSP c - 1" "regSP c - 2 + 1 + 1 = regSP c" by simp_all
  then have pf: "popFrame c2 = Inr ?c3"
    using c2 sv uint_of_int[OF bounds(1,2)] uint_of_int[OF pc]
    by (simp add: popFrame_def pop_def Let_def)
  have sl: "slots ?c3 = slots c" by (rule slots_eqI[OF wf]) (use c2(2) up2 in auto)
  have "frame_invariant ?c3"
    using wf sr pc c2 sv by (auto simp: frame_invariant_def well_framed_def saved_registers_def)
  with pf sl show ?thesis by auto
qed

text \<open>
  C29: the frame that is built satisfies the invariant again, its slots are the temporaries, all
  \<open>nil\<close>, and the callee finds the arguments that were the top operands of its sender, the first
  argument first.
\<close>

theorem buildFrame_arguments:
  assumes "frame_invariant c" "int temps + 6 < regSP c" "102 < regSP c"
    and "slots c = f @ args" and "argumentCountOf code = int (length args)"
    and "buildFrame nil receiver code env temps c = Inr c1"
  shows "frame_invariant c1 \<and> slots c1 = replicate temps nil \<and>
    (\<forall>i<length args. argumentAt argumentCountOf (int (Suc i)) c1 = Inr (args ! i))"
proof -
  from assms(1) have wf: "well_framed c" by (simp add: frame_invariant_def)
  have n: "int (slot_count c) = regBP c - 4 - regSP c" by (rule slot_count_eq[OF wf])
  from buildFrame_eq[OF wf assms(2,3), of nil receiver code env] assms(6)
  have c1: "regSP c1 = regSP c - 6 - int temps" "regBP c1 = regSP c - 2" "regPC c1 = 0" "regE c1 = env"
      "regM c1 = code" "regS c1 = receiver" "length (stack c1) = length (stack c)"
    and up: "\<forall>i\<ge>regSP c. stackAt i c1 = stackAt i c"
    and cells: "stackAt (regSP c - 3) c1 = Inr receiver" "stackAt (regSP c - 4) c1 = Inr code"
      "stackAt (regSP c - 6) c1 = Inr env"
    and nils: "\<forall>i. regSP c1 \<le> i \<and> i < regSP c - 6 \<longrightarrow> stackAt i c1 = Inr nil" by auto
  have wf1: "well_framed c1" using wf assms(2) c1 by (auto simp: well_framed_def)
  have inv: "frame_invariant c1"
    using wf1 c1 cells by (simp add: frame_invariant_def saved_registers_def)
  have cnt: "slot_count c1 = temps" using c1 by (simp add: slot_count_def)
  have sl: "slots c1 = replicate temps nil"
  proof (rule nth_equalityI)
    show "length (slots c1) = length (replicate temps nil)" by (simp add: cnt)
    fix i assume "i < length (slots c1)"
    then have i: "i < temps" by (simp add: cnt)
    have "stackAt (regBP c1 - 5 - int i) c1 = Inr nil" using nils i c1 by auto
    with stackAt_slot[OF wf1, of i] i show "slots c1 ! i = replicate temps nil ! i" by (simp add: cnt)
  qed
  have "argumentAt argumentCountOf (int (Suc i)) c1 = Inr (args ! i)" if i: "i < length args" for i
  proof -
    let ?j = "length f + i"
    have lf: "slot_count c = length f + length args" using assms(4) length_slots[of c] by simp
    have j: "?j < slot_count c" using lf i by simp
    have at: "stackAt (regBP c - 5 - int ?j) c = Inr (args ! i)"
      using stackAt_slot[OF wf j] assms(4) by (simp add: nth_append)
    have eq: "regBP c - 5 - int ?j = regBP c1 + 1 + (int (length args) - int (Suc i) + 1)"
      using n lf c1(2) by simp
    have "regSP c \<le> regBP c - 5 - int ?j" using n j by linarith
    from up[rule_format, OF this] at
    have "stackAt (regBP c1 + 1 + (int (length args) - int (Suc i) + 1)) c1 = Inr (args ! i)"
      unfolding eq by simp
    moreover have "regBP c1 - 2 = regSP c - 4" using c1(2) by simp
    ultimately show ?thesis
      unfolding argumentAt_def argumentAt_frame_def
      using cells(2) assms(5) by (simp only: bind_result_simps)
  qed
  with inv sl show ?thesis by blast
qed

section \<open>A concrete context\<close>

definition example_context :: evaluation_context where
  "example_context = \<lparr>stack = replicate 149 0 @ [12, 11] @ replicate 49 0, regSP = 150, regBP = 156, regPC = 7,
     regE = 0, regM = 0, regS = 0\<rparr>"

lemma example_context_invariant: "frame_invariant example_context"
  by (simp add: frame_invariant_def well_framed_def saved_registers_def stackAt_def example_context_def nth_append)

lemma example_context_slots: "slots example_context = [11, 12]"
proof -
  have "slot_count example_context = 2" by (simp add: slot_count_def example_context_def)
  then show ?thesis
    by (simp add: slots_def example_context_def nth_append numeral_2_eq_2)
qed

lemma example_context_framed: "well_framed example_context"
  using example_context_invariant by (simp add: frame_invariant_def)

theorem undermessage_arguments_spec_witness:
  "undermessage_arguments 2 example_context = Inr ([11, 12], example_context)"
  by (rule undermessage_arguments_spec[OF example_context_framed])
     (simp add: example_context_slots frame_operands_def)

theorem stack_operation_refines_witness:
  "\<exists>c'. stack_operation OpPushR 13 example_context = Inr (13, c') \<and> slots c' = [11, 12, 13]"
proof -
  have p: "perform example_runtime OpPushR 3 13 (slots example_context) () = Inr (Running 3 13 [11, 12, 13] ())"
    by (simp add: example_context_slots)
  have "1 < regSP example_context" by (simp add: example_context_def)
  from stack_operation_refines[OF example_context_framed _ this p] show ?thesis by auto
qed

theorem buildFrame_overflow_witness:
  "buildFrame 0 1 2 3 4 (example_context\<lparr>regSP := 102\<rparr>) = Inl (FatalError ''stack overflow'')"
  by (subst buildFrame_overflow) (simp_all add: well_framed_def example_context_def)

theorem popFrame_undoes_buildFrame_witness:
  "\<exists>c1 c3. buildFrame 0 1 2 3 4 example_context = Inr c1 \<and> popFrame c1 = Inr c3 \<and>
     slots c3 = [11, 12] \<and> regPC c3 = 7 \<and> regSP c3 = 150"
proof -
  have room: "int 4 + 6 < regSP example_context" "102 < regSP example_context"
    by (simp_all add: example_context_def)
  from buildFrame_eq[OF example_context_framed room] obtain c1
    where b: "buildFrame 0 1 2 3 4 example_context = Inr c1" by blast
  from popFrame_undoes_buildFrame[OF example_context_invariant room b, of c1] b
  show ?thesis by (auto simp: callee_left_def example_context_slots) (auto simp: example_context_def)
qed

theorem buildFrame_arguments_witness:
  "\<exists>c1. buildFrame 0 1 2 3 4 example_context = Inr c1 \<and> argumentAt (\<lambda>_. 2) 1 c1 = Inr 11 \<and>
     argumentAt (\<lambda>_. 2) 2 c1 = Inr 12"
proof -
  have room: "int 4 + 6 < regSP example_context" "102 < regSP example_context"
    by (simp_all add: example_context_def)
  from buildFrame_eq[OF example_context_framed room] obtain c1
    where b: "buildFrame 0 1 2 3 4 example_context = Inr c1" by blast
  have "slots example_context = [] @ [11, 12]" by (simp add: example_context_slots)
  from buildFrame_arguments[OF example_context_invariant room this _ b, of "\<lambda>_. 2"]
  have "\<forall>i<2. argumentAt (\<lambda>_. 2) (int (Suc i)) c1 = Inr ([11, 12] ! i)" by simp
  from spec[OF this, of 0] spec[OF this, of 1] b show ?thesis by simp
qed

end
