(* ===== verification/Parser.thy ===== *)
theory Parser
  imports Scanner
begin

text \<open>
  The recursive descent parser (\<open>Parser/SSmalltalkParser.cpp\<close>), one definition per function.  The
  state of a parser is the stream of its scanner, the current token and the token peeked at, if any.
  Expressions nest through \<open>expression\<close> only, so every function between takes the parser of
  nested expressions as an argument \<open>E\<close> and \<open>expression\<close> ties the knot over a fuel, which bounds
  the depth of nesting; literal arrays nest in the same way.  Loops are \<open>while_result\<close>.  Parse
  nodes keep what later phases read; their stretches, the current token's one apart, are dropped, and
  so are the selector nodes around selectors.
\<close>

section \<open>Numbers of the C library\<close>

text \<open>\<open>stod\<close>: the nearest double, ties to even.  glibc reports a range error, which the library turns
  into an exception, when the value overflows and when it is below the normal doubles and inexact.\<close>

fun bit_length :: "nat \<Rightarrow> nat" where
  "bit_length n = (if n = 0 then 0 else Suc (bit_length (n div 2)))"

declare bit_length.simps [simp del]

definition scale_ratio :: "nat \<Rightarrow> nat \<Rightarrow> int \<Rightarrow> nat \<times> nat" where
  "scale_ratio n d e = (if 0 \<le> e then (n, d * 2 ^ nat e) else (n * 2 ^ nat (- e), d))"

definition round_half_even :: "nat \<Rightarrow> nat \<Rightarrow> nat" where
  "round_half_even n d =
     (let q = n div d; r = n mod d
      in if 2 * r < d \<or> 2 * r = d \<and> even q then q else q + 1)"

definition double_of_ratio :: "nat \<Rightarrow> nat \<Rightarrow> double option" where
  "double_of_ratio n d =
     (if n = 0 then Some 0
      else (let e0 = int (bit_length n) - int (bit_length d) - 53;
                (n0, d0) = scale_ratio n d e0;
                e = max (-1074) (if 2 ^ 53 \<le> n0 div d0 then e0 + 1 else e0);
                (n1, d1) = scale_ratio n d e;
                q = round_half_even n1 d1;
                subnormal = n1 div d1 < 2 ^ 52;
                bits = (if q < 2 ^ 52 then int q else (e + 1075) * 2 ^ 52 + (int q - 2 ^ 52))
            in if bits \<ge> 0x7FF0000000000000 \<or> subnormal \<and> n1 mod d1 \<noteq> 0 then None
               else Some (word_of_int bits)))"

definition stod :: "string \<Rightarrow> double result" where
  "stod v =
     (let whole = takeWhile (valid_digit 10) v;
          rest = drop (length whole) v;
          frac = (case rest of c # cs \<Rightarrow> if c = CHR ''.'' then takeWhile (valid_digit 10) cs else [] | [] \<Rightarrow> []);
          rest = (case rest of c # cs \<Rightarrow> if c = CHR ''.'' then drop (length frac) cs else rest | [] \<Rightarrow> []);
          exponent =
            (case rest of
               e # cs \<Rightarrow>
                 if e = CHR ''e'' \<or> e = CHR ''E'' then
                   (case cs of
                      s # ds \<Rightarrow>
                        if s = CHR ''-'' then - int (digits_value 10 (takeWhile (valid_digit 10) ds))
                        else if s = CHR ''+'' then int (digits_value 10 (takeWhile (valid_digit 10) ds))
                        else int (digits_value 10 (takeWhile (valid_digit 10) cs))
                    | [] \<Rightarrow> 0)
                 else 0
             | [] \<Rightarrow> 0);
          power = exponent - int (length frac);
          digits = digits_value 10 (whole @ frac);
          (n, d) = (if 0 \<le> power then (digits * 10 ^ nat power, 1) else (digits, 10 ^ nat (- power)))
      in if whole = [] \<and> frac = [] then Inl (Thrown ''stod'')
         else (case double_of_ratio n d of None \<Rightarrow> Inl (Thrown ''stod'') | Some w \<Rightarrow> Inr w))"

text \<open>\<open>stoull\<close> on a string that starts with no sign.\<close>

definition stoull :: "string \<Rightarrow> nat result" where
  "stoull v =
     (let digits = takeWhile (valid_digit 10) v; n = digits_value 10 digits
      in if digits = [] \<or> n \<ge> 2 ^ 64 then Inl (Thrown ''stoull'') else Inr n)"

text \<open>The sign after white space, and the text that follows it.\<close>

definition c_space :: "char \<Rightarrow> bool" where
  "c_space c \<longleftrightarrow> (let n = of_char c :: nat in 9 \<le> n \<and> n \<le> 13 \<or> n = 32)"

definition c_sign :: "string \<Rightarrow> bool \<times> string" where
  "c_sign v =
     (case dropWhile c_space v of
        [] \<Rightarrow> (False, [])
      | c # cs \<Rightarrow> if c = CHR ''-'' then (True, cs) else if c = CHR ''+'' then (False, cs) else (False, c # cs))"

definition c_integer :: "string \<Rightarrow> nat \<Rightarrow> string \<Rightarrow> bool \<Rightarrow> string \<Rightarrow> int \<Rightarrow> int result" where
  "c_integer name base digits negative v limit =
     (let i = (if negative then - int (digits_value base digits) else int (digits_value base digits))
      in if digits = [] \<or> i < - limit \<or> i \<ge> limit then Inl (Thrown name) else Inr i)"

definition stoi :: "string \<Rightarrow> int result" where
  "stoi v =
     (let (negative, digits) = c_sign v
      in c_integer ''stoi'' 10 (takeWhile (valid_digit 10) digits) negative v (2 ^ 31))"

text \<open>\<open>stol(v, nullptr, 0)\<close> takes the radix from the prefix: \<open>0x\<close> for 16, \<open>0\<close> for 8.\<close>

definition stol_auto :: "string \<Rightarrow> int result" where
  "stol_auto v =
     (let (negative, digits) = c_sign v
      in case digits of
           z # x # h # hs \<Rightarrow>
             if z = CHR ''0'' \<and> (x = CHR ''x'' \<or> x = CHR ''X'') \<and> valid_digit 16 h then
               c_integer ''stol'' 16 (takeWhile (valid_digit 16) (h # hs)) negative v (2 ^ 63)
             else if z = CHR ''0'' then
               c_integer ''stol'' 8 (takeWhile (valid_digit 8) digits) negative v (2 ^ 63)
             else c_integer ''stol'' 10 (takeWhile (valid_digit 10) digits) negative v (2 ^ 63)
         | z # zs \<Rightarrow>
             if z = CHR ''0'' then c_integer ''stol'' 8 (takeWhile (valid_digit 8) digits) negative v (2 ^ 63)
             else c_integer ''stol'' 10 (takeWhile (valid_digit 10) digits) negative v (2 ^ 63)
         | [] \<Rightarrow> Inl (Thrown ''stol''))"

section \<open>Parse nodes\<close>

datatype parse_node =
    PIdentifier egg_string
  | PLiteral literal_value
  | PMessage parse_node egg_string "parse_node list"
  | PCascade parse_node "(egg_string \<times> parse_node list) list"
  | PAssignment egg_string parse_node
  | PReturn parse_node
  | PBlock "egg_string list" "egg_string list" "parse_node list"
  | PBrace "parse_node list"

datatype parsed_pragma = PrimitiveOf int egg_string | SymbolicOf egg_string

record parsed_method =
  pm_selector :: "egg_string option"
  pm_arguments :: "egg_string list"
  pm_temporaries :: "egg_string list"
  pm_pragma :: "parsed_pragma option"
  pm_statements :: "parse_node list"

section \<open>The state of a parser\<close>

record parser =
  p_stream :: stream
  p_token :: token
  p_peeked :: "token option"

type_synonym 'a parse = "parser \<Rightarrow> ('a \<times> parser) result"

abbreviation cls :: "parser \<Rightarrow> token_class" where
  "cls p \<equiv> fst (p_token p)"

abbreviation val :: "parser \<Rightarrow> egg_string" where
  "val p \<equiv> token_value (cls p)"

text \<open>No token is a comment, so \<open>step\<close> and \<open>peek\<close> have no comments to collect.\<close>

definition step :: "parser \<Rightarrow> parser result" where
  "step p =
     (case p_peeked p of
        Some t \<Rightarrow> Inr (p\<lparr> p_token := t, p_peeked := None \<rparr>)
      | None \<Rightarrow>
          bind_result (nextToken (p_stream p)) (\<lambda>(t, s). Inr (p\<lparr> p_token := t, p_stream := s \<rparr>)))"

definition peek :: "token parse" where
  "peek p =
     (case p_peeked p of
        Some t \<Rightarrow> Inr (t, p)
      | None \<Rightarrow>
          bind_result (nextToken (p_stream p)) (\<lambda>(t, s). Inr (t, p\<lparr> p_peeked := Some t, p_stream := s \<rparr>)))"

definition skipDots :: "parser \<Rightarrow> parser result" where
  "skipDots p = while_result (\<lambda>p. is_char CHR ''.'' (cls p)) step p"

definition parse_error :: "string \<Rightarrow> parser \<Rightarrow> fault" where
  "parse_error message p =
     Thrown (''Parse error at position '' @ decimal (unat (stretch_start (snd (p_token p)))) @ '': '' @ message)"

text \<open>The bytes of a string for the functions of the C library.\<close>

definition bytes_of :: "egg_string \<Rightarrow> string" where
  "bytes_of v = map (\<lambda>b. char_of (unat b)) (toUtf8 v)"

definition hasUnarySelector :: "parser \<Rightarrow> bool" where
  "hasUnarySelector p \<longleftrightarrow> isName (cls p)"

definition hasBinarySelector :: "parser \<Rightarrow> bool" where
  "hasBinarySelector p \<longleftrightarrow>
     isSymbolic (cls p) \<and> hasSymbol (cls p) \<or> is_char CHR ''^'' (cls p) \<or> is_char CHR '':'' (cls p)"

definition hasKeywordSelector :: "parser \<Rightarrow> bool" where
  "hasKeywordSelector p \<longleftrightarrow> isKeyword (cls p)"

section \<open>Literals\<close>

definition parseIntegerString :: "string \<Rightarrow> literal_value result" where
  "parseIntegerString v =
     (if length v > 2 \<and> v ! 0 = CHR ''0'' \<and> (v ! 1 = CHR ''x'' \<or> v ! 1 = CHR ''X'') then
        fromIntegerDigits 16 (drop 2 v) False
      else
        (let r = (if CHR ''r'' \<in> set v then CHR ''r'' else CHR ''R'');
             radix = takeWhile (\<lambda>c. c \<noteq> r) v
         in if radix = v then fromIntegerDigits 10 v False
            else bind_result (stoull radix) (\<lambda>parsed.
                   if \<not> (2 \<le> parsed \<and> parsed \<le> 36)
                   then Inl (FatalError ''integer literal radix out of range [2, 36]'')
                   else fromIntegerDigits parsed (drop (length radix + 1) v) False)))"

definition parseFloatString :: "string \<Rightarrow> literal_value result" where
  "parseFloatString v = bind_result (stod v) (\<lambda>w. Inr (LFloat w))"

definition parseNumberString :: "string \<Rightarrow> literal_value result" where
  "parseNumberString v =
     (if length v > 2 \<and> v ! 0 = CHR ''0'' \<and> (v ! 1 = CHR ''x'' \<or> v ! 1 = CHR ''X'')
         \<or> CHR ''r'' \<in> set v \<or> CHR ''R'' \<in> set v
      then parseIntegerString v
      else if CHR ''.'' \<in> set v \<or> CHR ''e'' \<in> set v \<or> CHR ''E'' \<in> set v then parseFloatString v
      else parseIntegerString v)"

text \<open>The value of a literal token; the class of other tokens is never asked for.\<close>

fun parseLiteralValue :: "token_class \<Rightarrow> literal_value result" where
  "parseLiteralValue (StringToken v LitNumber) = parseNumberString (bytes_of v)"
| "parseLiteralValue (StringToken v LitCharacter) = (case v of [] \<Rightarrow> Inl Undefined | c # cs \<Rightarrow> Inr (LCharacter c))"
| "parseLiteralValue (StringToken v LitSymbol) = Inr (LSymbol v)"
| "parseLiteralValue (StringToken v LitString) = Inr (LString v)"
| "parseLiteralValue _ = Inl Undefined"

definition pseudoLiteralValue :: "egg_string \<Rightarrow> literal_value" where
  "pseudoLiteralValue v =
     (if v = ascii ''nil'' then LNil
      else if v = ascii ''true'' then LBoolean True
      else if v = ascii ''false'' then LBoolean False
      else LSymbol v)"

fun negated_literal :: "literal_value \<Rightarrow> literal_value" where
  "negated_literal (LInteger i) = LInteger (- i)"
| "negated_literal (LLargeInteger bytes s) = LLargeInteger bytes True"
| "negated_literal (LFloat w) = LFloat (w XOR 0x8000000000000000)"
| "negated_literal _ = LNone"

fun isNumberToken :: "token_class \<Rightarrow> bool" where
  "isNumberToken (StringToken v k) = (k = LitNumber)"
| "isNumberToken _ = False"

definition negativeNumberOrBinary :: "literal_value parse" where
  "negativeNumberOrBinary p =
     bind_result (peek p) (\<lambda>(t, p).
       if isNumberToken (fst t) then
         bind_result (step p) (\<lambda>p.
           bind_result (parseLiteralValue (cls p)) (\<lambda>v. Inr (negated_literal v, p)))
       else Inr (LNone, p))"

definition literalKeyword :: "literal_value parse" where
  "literalKeyword p =
     bind_result
       (while_result (\<lambda>(go, keyword, prevEnd, p). go)
          (\<lambda>(go, keyword, prevEnd, p).
             bind_result (peek p) (\<lambda>(t, p).
               if \<not> isKeyword (fst t) \<or> stretch_start (snd t) \<noteq> prevEnd then Inr (False, keyword, prevEnd, p)
               else bind_result (step p) (\<lambda>p.
                      Inr (True, keyword @ val p, stretch_end (snd (p_token p)), p))))
          (True, val p, stretch_end (snd (p_token p)), p))
       (\<lambda>(go, keyword, prevEnd, p). Inr (LSymbol keyword, p))"

definition byteArrayBody :: "literal_value parse" where
  "byteArrayBody p =
     bind_result (step p) (\<lambda>p.
       bind_result
         (while_result (\<lambda>(bytes, p). isLiteral (cls p))
            (\<lambda>(bytes, p).
               bind_result (stol_auto (bytes_of (val p))) (\<lambda>v.
                 bind_result (step p) (\<lambda>p. Inr (bytes @ [word_of_int v :: byte], p))))
            ([], p))
         (\<lambda>(bytes, p).
            if \<not> is_char CHR '']'' (cls p) then Inl (parse_error ''missing ]'' p)
            else Inr (LByteArray bytes, p)))"

text \<open>\<open>A\<close> parses the body of a nested array.\<close>

definition arrayElement :: "literal_value parse \<Rightarrow> literal_value parse" where
  "arrayElement A p =
     (if isLiteral (cls p) then bind_result (parseLiteralValue (cls p)) (\<lambda>v. Inr (v, p))
      else if isName (cls p) then Inr (pseudoLiteralValue (val p), p)
      else if isKeyword (cls p) then literalKeyword p
      else if is_char CHR ''-'' (cls p) then
        bind_result (negativeNumberOrBinary p) (\<lambda>(neg, p).
          Inr (if neg = LNone then LSymbol (ascii ''-'') else neg, p))
      else if hasSymbol (cls p) then Inr (LSymbol (val p), p)
      else if is_char CHR ''('' (cls p) \<or> is_string ''#('' (cls p) then A p
      else if is_string ''#['' (cls p) then byteArrayBody p
      else Inl (parse_error ''invalid literal array element'' p))"

fun arrayBody :: "nat \<Rightarrow> literal_value parse" where
  "arrayBody 0 p = Inl OutOfFuel"
| "arrayBody (Suc n) p =
     bind_result (step p) (\<lambda>p.
       bind_result
         (while_result (\<lambda>(literals, p). \<not> is_char CHR '')'' (cls p) \<and> \<not> isEnd (cls p))
            (\<lambda>(literals, p).
               bind_result (arrayElement (arrayBody n) p) (\<lambda>(v, p).
                 bind_result (step p) (\<lambda>p. Inr (literals @ [v], p))))
            ([], p))
         (\<lambda>(literals, p).
            if isEnd (cls p) then Inl (parse_error ''missing )'' p) else Inr (LArray literals, p)))"

text \<open>Nesting is no deeper than the source is long.\<close>

definition parse_fuel :: "parser \<Rightarrow> nat" where
  "parse_fuel p = length (source (p_stream p)) + 3"

definition literalArray :: "parse_node parse" where
  "literalArray p =
     bind_result (arrayBody (Suc (parse_fuel p)) p) (\<lambda>(v, p).
       bind_result (step p) (\<lambda>p. Inr (PLiteral v, p)))"

definition literalByteArray :: "parse_node parse" where
  "literalByteArray p =
     bind_result (byteArrayBody p) (\<lambda>(v, p).
       bind_result (step p) (\<lambda>p. Inr (PLiteral v, p)))"

section \<open>Statements\<close>

definition temporaries :: "egg_string list parse" where
  "temporaries p =
     (if is_string ''||'' (cls p) then bind_result (step p) (\<lambda>p. Inr ([], p))
      else if \<not> isBar (cls p) then Inr ([], p)
      else bind_result (step p) (\<lambda>p.
             bind_result
               (while_result (\<lambda>(temps, p). isName (cls p))
                  (\<lambda>(temps, p). bind_result (step p) (\<lambda>p'. Inr (temps @ [val p], p')))
                  ([], p))
               (\<lambda>(temps, p).
                  if \<not> isBar (cls p) then Inl (parse_error ''missing |'' p)
                  else bind_result (step p) (\<lambda>p. Inr (temps, p)))))"

definition blockArguments :: "egg_string list parse" where
  "blockArguments p =
     (if \<not> is_char CHR '':'' (cls p) then Inr ([], p)
      else bind_result
             (while_result (\<lambda>(args, p). is_char CHR '':'' (cls p))
                (\<lambda>(args, p).
                   bind_result (step p) (\<lambda>p.
                     if \<not> isName (cls p) then Inl (parse_error ''argument missing'' p)
                     else bind_result (step p) (\<lambda>p'. Inr (args @ [val p], p'))))
                ([], p))
             (\<lambda>(args, p).
                if isBar (cls p) \<or> is_string ''||'' (cls p) then bind_result (step p) (\<lambda>p. Inr (args, p))
                else Inl (parse_error ''missing |'' p)))"

definition return_statement :: "parse_node parse \<Rightarrow> parse_node parse" where
  "return_statement E p =
     bind_result (step p) (\<lambda>p.
       bind_result (E p) (\<lambda>(expr, p).
         bind_result (skipDots p) (\<lambda>p. Inr (PReturn expr, p))))"

definition statement :: "parse_node parse \<Rightarrow> parse_node parse" where
  "statement E p = (if is_char CHR ''^'' (cls p) then return_statement E p else E p)"

definition statements :: "parse_node parse \<Rightarrow> parse_node list parse" where
  "statements E p =
     bind_result
       (while_result (\<lambda>((go, stmts), p). go \<and> \<not> endsExpression (cls p))
          (\<lambda>((go, stmts), p).
             bind_result (statement E p) (\<lambda>(stmt, p).
               if is_char CHR ''.'' (cls p) then bind_result (skipDots p) (\<lambda>p. Inr ((True, stmts @ [stmt]), p))
               else Inr ((False, stmts @ [stmt]), p)))
          ((True, []), p))
       (\<lambda>((go, stmts), p). Inr (stmts, p))"

section \<open>Primaries\<close>

definition block :: "parse_node parse \<Rightarrow> parse_node parse" where
  "block E p =
     bind_result (step p) (\<lambda>p.
       bind_result (blockArguments p) (\<lambda>(args, p).
         bind_result (temporaries p) (\<lambda>(temps, p).
           bind_result (statements E p) (\<lambda>(stmts, p).
             if \<not> is_char CHR '']'' (cls p) then Inl (parse_error ''missing ]'' p)
             else bind_result (step p) (\<lambda>p. Inr (PBlock args temps stmts, p))))))"

definition parenthesizedExpression :: "parse_node parse \<Rightarrow> parse_node parse" where
  "parenthesizedExpression E p =
     bind_result (step p) (\<lambda>p.
       bind_result (E p) (\<lambda>(expr, p).
         if \<not> is_char CHR '')'' (cls p) then Inl (parse_error ''missing )'' p)
         else bind_result (step p) (\<lambda>p. Inr (expr, p))))"

definition bracedArray :: "parse_node parse \<Rightarrow> parse_node parse" where
  "bracedArray E p =
     bind_result (step p) (\<lambda>p.
       bind_result
         (while_result (\<lambda>(elements, p). \<not> is_char CHR ''}'' (cls p) \<and> \<not> isEnd (cls p))
            (\<lambda>(elements, p).
               bind_result (E p) (\<lambda>(expr, p).
                 if is_char CHR ''.'' (cls p) then bind_result (step p) (\<lambda>p. Inr (elements @ [expr], p))
                 else Inr (elements @ [expr], p)))
            ([], p))
         (\<lambda>(elements, p).
            if \<not> is_char CHR ''}'' (cls p) then Inl (parse_error ''missing }'' p)
            else bind_result (step p) (\<lambda>p. Inr (PBrace elements, p))))"

text \<open>\<open>primary\<close> answers no node when no primary starts at the token.\<close>

definition found :: "parse_node parse \<Rightarrow> parse_node option parse" where
  "found F p = bind_result (F p) (\<lambda>(node, p). Inr (Some node, p))"

definition primary :: "parse_node parse \<Rightarrow> parse_node option parse" where
  "primary E p =
     (if isName (cls p) then bind_result (step p) (\<lambda>p'. Inr (Some (PIdentifier (val p)), p'))
      else if isLiteral (cls p) then
        bind_result (parseLiteralValue (cls p)) (\<lambda>v.
          bind_result (step p) (\<lambda>p. Inr (Some (PLiteral v), p)))
      else if is_char CHR ''['' (cls p) then found (block E) p
      else if is_char CHR ''('' (cls p) then found (parenthesizedExpression E) p
      else if is_string ''#('' (cls p) then found literalArray p
      else if is_string ''#['' (cls p) then found literalByteArray p
      else if is_char CHR ''{'' (cls p) then found (bracedArray E) p
      else if is_char CHR ''-'' (cls p) then
        bind_result (negativeNumberOrBinary p) (\<lambda>(neg, p).
          if neg = LNone then Inr (None, p)
          else bind_result (step p) (\<lambda>p. Inr (Some (PLiteral neg), p)))
      else Inr (None, p))"

section \<open>Messages\<close>

definition required :: "string \<Rightarrow> parse_node option parse \<Rightarrow> parse_node parse" where
  "required message F p =
     bind_result (F p) (\<lambda>(node, p).
       case node of None \<Rightarrow> Inl (parse_error message p) | Some n \<Rightarrow> Inr (n, p))"

text \<open>A message parsed after its receiver: the selector and the arguments.\<close>

type_synonym message = "egg_string \<times> parse_node list"

definition unaryMessage :: "message parse" where
  "unaryMessage p = bind_result (step p) (\<lambda>p'. Inr ((val p, []), p'))"

definition send_to :: "parse_node \<Rightarrow> message parse \<Rightarrow> parse_node parse" where
  "send_to receiver M p =
     bind_result (M p) (\<lambda>((selector, arguments), p). Inr (PMessage receiver selector arguments, p))"

definition unarySequence :: "parse_node \<Rightarrow> parse_node parse" where
  "unarySequence receiver p =
     while_result (\<lambda>(node, p). hasUnarySelector p) (\<lambda>(node, p). send_to node unaryMessage p) (receiver, p)"

definition binaryMessage :: "parse_node parse \<Rightarrow> message parse" where
  "binaryMessage E p =
     bind_result (step p) (\<lambda>p'.
       bind_result (required ''primary missing'' (primary E) p') (\<lambda>(prim, p').
         bind_result (unarySequence prim p') (\<lambda>(arg, p'). Inr ((val p, [arg]), p'))))"

definition binarySequence :: "parse_node parse \<Rightarrow> parse_node \<Rightarrow> parse_node parse" where
  "binarySequence E receiver p =
     while_result (\<lambda>(node, p). hasBinarySelector p) (\<lambda>(node, p). send_to node (binaryMessage E) p) (receiver, p)"

definition keywordMessage :: "parse_node parse \<Rightarrow> message parse" where
  "keywordMessage E p =
     while_result (\<lambda>((selector, arguments), p). isKeyword (cls p))
       (\<lambda>((selector, arguments), p).
             bind_result (step p) (\<lambda>p'.
               bind_result (required ''argument missing'' (primary E) p') (\<lambda>(prim, p').
                 bind_result (unarySequence prim p') (\<lambda>(arg, p').
                   bind_result (binarySequence E arg p') (\<lambda>(arg, p').
                     Inr ((selector @ val p, arguments @ [arg]), p'))))))
          (([], []), p)"

definition keywordSequence :: "parse_node parse \<Rightarrow> parse_node \<Rightarrow> parse_node parse" where
  "keywordSequence E receiver p =
     (if \<not> hasKeywordSelector p then Inr (receiver, p) else send_to receiver (keywordMessage E) p)"

definition cascadeMessage :: "parse_node parse \<Rightarrow> message parse" where
  "cascadeMessage E p =
     (if hasUnarySelector p then unaryMessage p
      else if hasBinarySelector p then binaryMessage E p
      else if hasKeywordSelector p then keywordMessage E p
      else Inl (parse_error ''invalid cascade message'' p))"

definition cascadeSequence :: "parse_node parse \<Rightarrow> parse_node \<Rightarrow> message \<Rightarrow> parse_node parse" where
  "cascadeSequence E receiver first p =
     (if \<not> is_char CHR '';'' (cls p) then Inr (PMessage receiver (fst first) (snd first), p)
      else bind_result
             (while_result (\<lambda>(messages, p). is_char CHR '';'' (cls p))
                (\<lambda>(messages, p).
                   bind_result (step p) (\<lambda>p.
                     bind_result (cascadeMessage E p) (\<lambda>(m, p). Inr (messages @ [m], p))))
                ([first], p))
             (\<lambda>(messages, p). Inr (PCascade receiver messages, p)))"

section \<open>Expressions\<close>

definition assignment :: "parse_node parse \<Rightarrow> parse_node parse" where
  "assignment E p =
     bind_result (step p) (\<lambda>p'.
       bind_result (step p') (\<lambda>p'.
         bind_result (E p') (\<lambda>(expr, p'). Inr (PAssignment (val p) expr, p'))))"

definition operation :: "parse_node parse \<Rightarrow> parse_node parse" where
  "operation E p =
     bind_result (required ''missing expression'' (primary E) p) (\<lambda>(prim, p).
       bind_result (unarySequence prim p) (\<lambda>(expr, p).
         bind_result (binarySequence E expr p) (\<lambda>(expr, p).
           bind_result (keywordSequence E expr p) (\<lambda>(expr, p).
             bind_result
               (case expr of
                  PMessage receiver selector arguments \<Rightarrow>
                    if expr \<noteq> prim then cascadeSequence E receiver (selector, arguments) p else Inr (expr, p)
                | _ \<Rightarrow> Inr (expr, p))
               (\<lambda>(expr, p).
                  if \<not> endsExpression (cls p)
                  then Inl (parse_error (''unexpected token: '' @ bytes_of (val p)) p)
                  else Inr (expr, p))))))"

fun expression :: "nat \<Rightarrow> parse_node parse" where
  "expression 0 p = Inl OutOfFuel"
| "expression (Suc n) p =
     (if isName (cls p) then
        bind_result (peek p) (\<lambda>(t, p).
          if isAssignment (fst t) then assignment (expression n) p else operation (expression n) p)
      else operation (expression n) p)"

section \<open>Methods\<close>

definition unarySignature :: "(egg_string \<times> egg_string list) parse" where
  "unarySignature p = bind_result (step p) (\<lambda>p'. Inr ((val p, []), p'))"

definition binarySignature :: "(egg_string \<times> egg_string list) parse" where
  "binarySignature p =
     bind_result (step p) (\<lambda>p1.
       if \<not> isName (cls p1) then Inl (parse_error ''argument missing'' p1)
       else bind_result (step p1) (\<lambda>p2. Inr ((val p, [val p1]), p2)))"

definition keywordSignature :: "(egg_string \<times> egg_string list) parse" where
  "keywordSignature p =
     while_result (\<lambda>((selector, arguments), p). isKeyword (cls p))
       (\<lambda>((selector, arguments), p).
             bind_result (step p) (\<lambda>p1.
               if \<not> isName (cls p1) then Inl (parse_error ''argument missing'' p1)
               else bind_result (step p1) (\<lambda>p2. Inr ((selector @ val p, arguments @ [val p1]), p2))))
          (([], []), p)"

definition methodSignature :: "(egg_string \<times> egg_string list) parse" where
  "methodSignature p =
     (if hasKeywordSelector p then keywordSignature p
      else if hasBinarySelector p then binarySignature p
      else if hasUnarySelector p then unarySignature p
      else Inl (parse_error ''method signature expected'' p))"

definition numberedPrimitive :: "parsed_pragma parse" where
  "numberedPrimitive p =
     (case stoi (bytes_of (val p)) of
        Inl e \<Rightarrow> Inl (parse_error ''invalid primitive number'' p)
      | Inr number \<Rightarrow> bind_result (step p) (\<lambda>p. Inr (PrimitiveOf number [], p)))"

definition namedPrimitive :: "parsed_pragma parse" where
  "namedPrimitive p = bind_result (step p) (\<lambda>p'. Inr (PrimitiveOf 0 (val p), p'))"

definition symbolicPragma :: "parsed_pragma parse" where
  "symbolicPragma p = bind_result (step p) (\<lambda>p'. Inr (SymbolicOf (val p), p'))"

definition pragma :: "parsed_pragma parse" where
  "pragma p =
     bind_result (step p) (\<lambda>p.
       if isLiteral (cls p) then numberedPrimitive p
       else if isName (cls p) then namedPrimitive p
       else Inl (parse_error ''invalid pragma format'' p))"

text \<open>\<open>addPragmaTo_\<close> with \<open>attachPragmaTo_\<close>, on a method with a selector.\<close>

definition addPragma :: "parsed_pragma option parse" where
  "addPragma p =
     (if \<not> is_char CHR ''<'' (cls p) then Inr (None, p)
      else bind_result (step p) (\<lambda>p.
             bind_result
               (if isKeyword (cls p) \<and> val p = ascii ''primitive:'' then pragma p else symbolicPragma p)
               (\<lambda>(node, p).
                  if \<not> is_char CHR ''>'' (cls p) then Inl (parse_error ''missing >'' p)
                  else bind_result (step p) (\<lambda>p. Inr (Some node, p)))))"

definition addBody :: "egg_string option \<Rightarrow> egg_string list \<Rightarrow> parsed_method parse" where
  "addBody selector arguments p =
     bind_result (temporaries p) (\<lambda>(temps, p).
       bind_result (if selector = None then Inr (None, p) else addPragma p) (\<lambda>(prag, p).
         bind_result (statements (expression (parse_fuel p)) p) (\<lambda>(stmts, p).
           if \<not> isEnd (cls p) then Inl (parse_error ''unexpected statement'' p)
           else Inr (\<lparr> pm_selector = selector, pm_arguments = arguments, pm_temporaries = temps,
                       pm_pragma = prag, pm_statements = stmts \<rparr>, p))))"

text \<open>\<open>method\<close> and \<open>headlessMethod\<close> on a fresh source.  The parser may still hold a token that an
  earlier, failed parse had peeked at: nothing resets it.\<close>

definition start_parser :: "token option \<Rightarrow> egg_string \<Rightarrow> parser" where
  "start_parser peeked src =
     \<lparr> p_stream = on_source src, p_token = (EndToken, Stretch 0 0), p_peeked = peeked \<rparr>"

definition parse_method :: "token option \<Rightarrow> egg_string \<Rightarrow> (parsed_method \<times> parser) result" where
  "parse_method peeked src =
     bind_result (step (start_parser peeked src)) (\<lambda>p.
       bind_result (methodSignature p) (\<lambda>((selector, arguments), p). addBody (Some selector) arguments p))"

definition headless_method :: "token option \<Rightarrow> egg_string \<Rightarrow> (parsed_method \<times> parser) result" where
  "headless_method peeked src =
     bind_result (step (start_parser peeked src)) (addBody None [])"

end
