(* ===== verification/ScannerProgress.thy ===== *)
theory ScannerProgress
  imports Scanner
begin

text \<open>
  The scanner stays on its source and always makes progress: after a token that does not mark the end
  fewer characters remain.  This is what bounds the loops and the recursion of the parser.
\<close>

definition remaining :: "stream \<Rightarrow> nat" where
  "remaining s = length (source s) - position s"

section \<open>Scanning never goes back\<close>

text \<open>\<open>s'\<close> is \<open>s\<close> moved forward.\<close>

definition later :: "stream \<Rightarrow> stream \<Rightarrow> bool" where
  "later s s' \<longleftrightarrow> source s' = source s \<and> position s \<le> position s'"

lemma later_refl [simp]: "later s s"
  by (simp add: later_def)

lemma later_trans: "later s s' \<Longrightarrow> later s' s'' \<Longrightarrow> later s s''"
  by (simp add: later_def)

lemma later_skip [simp]: "later s (skip s)"
  by (simp add: later_def skip_position)

lemma later_skip_while [simp]: "later s (skip_while P s)"
  by (simp add: later_def skip_while_position_le)

lemma later_upTo [simp]: "later s (snd (upTo d s))"
  by (simp add: later_def upTo_position_le)

lemma later_peekFor [simp]: "later s (snd (peekFor c s))"
  by (simp add: later_def peekFor_position)

lemma later_then:
  "later s t \<Longrightarrow> later s (skip t)"
  "later s t \<Longrightarrow> later s (skip_while P t)"
  "later s t \<Longrightarrow> later s (snd (peekFor c t))"
  by (auto intro: later_trans)

lemma skip_while_first:
  assumes "\<not> atEnd s" "P (peek_char s)"
  shows "later (skip s) (skip_while P s)"
  using assms by (subst skip_while.simps) simp

text \<open>The functions that begin with \<open>back\<close> find again the character that \<open>scanChar\<close> read.\<close>

definition just_read :: "code_point \<Rightarrow> stream \<Rightarrow> bool" where
  "just_read c s \<longleftrightarrow> 0 < position s \<and> position s \<le> length (source s) \<and> source s ! (position s - 1) = c"

lemma just_read_back:
  assumes "just_read c s"
  shows "\<not> atEnd (back_char s)" "peek_char (back_char s) = c" "skip (back_char s) = s"
  using assms by (auto simp: just_read_def back_char_def atEnd_def peek_char_def next_char_def)

lemma later_back_skip_while: "just_read c s \<Longrightarrow> P c \<Longrightarrow> later s (skip_while P (back_char s))"
  using skip_while_first [of "back_char s" P] just_read_back [of c s] by simp

lemma scanChar_just_read:
  assumes "scanChar s = (c, s')" "c \<noteq> 0"
  shows "just_read c s' \<and> source s' = source s \<and> remaining s' < remaining s"
  using scanChar_nonzero [OF assms] by (auto simp: just_read_def remaining_def)

lemma back_skip: "\<not> atEnd s \<Longrightarrow> back_char (skip s) = s"
  by (simp add: back_char_def next_char_def)

lemma nextIdentifierOrKeyword_stream:
  "snd (nextIdentifierOrKeyword s) =
     (let s1 = skipIdentifier (back_char s)
      in if fst (peekFor (chr CHR '':'') s1) \<and> \<not> fst (peekFor (chr CHR ''='') (skip s1)) then skip s1 else s1)"
  by (simp add: nextIdentifierOrKeyword_def Let_def peekFor_def back_skip)

lemma later_nextIdentifierOrKeyword:
  assumes "just_read c s" "canBeInIdentifier c"
  shows "later s (snd (nextIdentifierOrKeyword s))"
  using later_back_skip_while [OF assms(1), of canBeInIdentifier] assms(2) later_trans [OF _ later_skip]
  by (auto simp: nextIdentifierOrKeyword_stream Let_def skipIdentifier_def)

lemma later_nextBinarySelector:
  assumes "just_read c s" "isBinary c"
  shows "later s (snd (nextBinarySelector s))"
  using later_back_skip_while [OF assms(1), of isBinary] assms(2)
  by (simp add: nextBinarySelector_def scanBinarySymbol_def skipBinary_def Let_def)

lemma later_nextColon:
  assumes "just_read (chr CHR '':'') s"
  shows "later s (snd (nextColon s))"
proof -
  have "isBinary (chr CHR '':'')"
    by (simp add: isBinary_def ascii_def)
  then show ?thesis
    using later_nextBinarySelector [OF assms] later_trans [OF later_skip later_skip, of s]
    by (auto simp: nextColon_def Let_def back_skip nextSpecialCharacter_def)
qed

lemma peekFor_remaining: "fst (peekFor c s) \<Longrightarrow> remaining (snd (peekFor c s)) < remaining s"
  by (auto simp: peekFor_def remaining_def skip_position atEnd_def split: if_splits)

lemma later_remaining: "later s s' \<Longrightarrow> remaining s' \<le> remaining s"
  by (auto simp: later_def remaining_def)

text \<open>One turn of \<open>skipKeyword\<close>.\<close>

lemma skipKeyword_loop_unfold:
  "skipKeyword_loop pos s =
     (let (colon, s') = peekFor (chr CHR '':'') (skipIdentifier s)
      in if colon \<and> \<not> atEnd s' \<and> scanner_canStartIdentifier s' (peek_char s') then skipKeyword_loop (position s') s'
         else if colon \<or> pos = 0 then s'
         else s'\<lparr> position := pos \<rparr>)"
  by (subst skipKeyword_loop.simps) (auto simp: Let_def case_prod_beta peekFor_position)

lemma later_skipKeyword_loop:
  "pos = 0 \<or> pos = position s \<Longrightarrow> later s (skipKeyword_loop pos s)"
proof (induction s arbitrary: pos rule: measure_induct_rule [of remaining])
  case (less s)
  obtain colon s' where s': "peekFor (chr CHR '':'') (skipIdentifier s) = (colon, s')"
    by fastforce
  have "later s s'"
    using later_peekFor [of "skip_while canBeInIdentifier s" "chr CHR '':''"]
      later_trans [OF later_skip_while]
    by (simp only: s' [unfolded skipIdentifier_def] snd_conv)
  moreover have "remaining s' < remaining s" if colon
    using peekFor_remaining [of "chr CHR '':''" "skipIdentifier s", unfolded s' fst_conv snd_conv, OF that]
      later_remaining [of s "skipIdentifier s"] by (simp add: skipIdentifier_def)
  then have "later s' (skipKeyword_loop (position s') s')" if colon
    using less.IH [of s' "position s'"] that by simp
  moreover have "skipKeyword_loop pos s =
     (if colon \<and> \<not> atEnd s' \<and> scanner_canStartIdentifier s' (peek_char s') then skipKeyword_loop (position s') s'
      else if colon \<or> pos = 0 then s'
      else s'\<lparr> position := pos \<rparr>)"
    by (subst skipKeyword_loop_unfold) (simp only: s' Let_def prod.case)
  ultimately show ?case
    using less.prems by (auto simp: later_def)
qed

lemma later_nextKeyword: "later s (snd (nextKeyword s))"
  by (simp add: nextKeyword_def skipKeyword_def Let_def later_skipKeyword_loop)

text \<open>One turn of \<open>scanString\<close>.\<close>

lemma scanString_loop_unfold:
  "scanString_loop start current acc s =
     (let (fragment, s1) = upTo (chr CHR 0x27) s;
          (doubled, s') = peekFor (chr CHR 0x27) (skip (back_char s1))
      in if current < position s1 \<and> fst (next_char (back_char s1)) = chr CHR 0x27 then
           if doubled then scanString_loop start (position s') (acc @ fragment @ [chr CHR 0x27]) s'
           else Inr (acc @ fragment, s')
         else Inl (scan_error_at ''string end expected'' start))"
  by (subst scanString_loop.simps) (simp add: Let_def case_prod_beta)

lemma scanString_loop_later:
  "(\<exists>m. scanString_loop start current acc s = Inl (Thrown m)) \<or>
   (\<exists>v s'. scanString_loop start current acc s = Inr (v, s') \<and> later s s')"
proof (induction s arbitrary: current acc rule: measure_induct_rule [of remaining])
  case (less s)
  obtain fragment s1 where s1: "upTo (chr CHR 0x27) s = (fragment, s1)"
    by fastforce
  obtain doubled s' where s': "peekFor (chr CHR 0x27) (skip (back_char s1)) = (doubled, s')"
    by fastforce
  have unfold: "scanString_loop start current acc s =
       (if current < position s1 \<and> fst (next_char (back_char s1)) = chr CHR 0x27 then
          if doubled then scanString_loop start (position s') (acc @ fragment @ [chr CHR 0x27]) s'
          else Inr (acc @ fragment, s')
        else Inl (scan_error_at ''string end expected'' start))"
    by (subst scanString_loop_unfold) (simp only: s1 s' Let_def prod.case)
  show ?case
  proof (cases "current < position s1 \<and> fst (next_char (back_char s1)) = chr CHR 0x27")
    case True
    then have "\<not> atEnd (back_char s1)" "position s1 > 0"
      by (auto simp: next_char_def split: if_splits)
    then have "skip (back_char s1) = s1"
      by (auto simp: next_char_def back_char_def)
    then have s1s: "later s s1" "later s1 s'"
      using later_upTo [of s "chr CHR 0x27"] later_peekFor [of s1 "chr CHR 0x27"] s'
      by (simp_all only: s1 s' snd_conv)
    moreover have "remaining s' < remaining s" if doubled
      using peekFor_remaining [of "chr CHR 0x27" "skip (back_char s1)"] later_remaining [OF s1s(1)] that s'
        \<open>skip (back_char s1) = s1\<close> by simp
    ultimately show ?thesis
      using True less.IH [of s' "position s'" "acc @ fragment @ [chr CHR 0x27]"] unfold
      by (auto intro: later_trans [OF later_trans])
  next
    case False
    then have "scanString_loop start current acc s = Inl (scan_error_at ''string end expected'' start)"
      by (simp only: unfold if_False)
    then show ?thesis
      by (simp add: scan_error_at_def)
  qed
qed

lemma later_scanNumber: "later (skip_while ascii_digit s) (scanNumber s)"
proof -
  have tails: "later s (scanFractionTail s)" "later s (scanRadixTail s)" for s
    by (auto simp: scanFractionTail_def scanRadixTail_def scanExponent_def Let_def intro!: later_then)
  define s1 where "s1 = skip_while ascii_digit s"
  show ?thesis
    by (auto simp: scanNumber_def Let_def s1_def [symmetric] tails intro!: later_then)
qed

section \<open>Progress of a token\<close>

text \<open>The result of a scanning function that may fail: an exception or a later stream.\<close>

definition moves :: "stream \<Rightarrow> (token \<times> stream) result \<Rightarrow> bool" where
  "moves s r \<longleftrightarrow> (case r of Inl e \<Rightarrow> (\<exists>m. e = Thrown m) | Inr (t, s') \<Rightarrow> later s s')"

lemma moves_simps [simp]:
  "moves s (Inr ts) \<longleftrightarrow> later s (snd ts)"
  "moves s (Inl e) \<longleftrightarrow> (\<exists>m. e = Thrown m)"
  "\<exists>m. scan_error_at msg n = Thrown m"
  by (auto simp: moves_def scan_error_at_def)

lemma moves_if:
  "(b \<Longrightarrow> moves s x) \<Longrightarrow> (\<not> b \<Longrightarrow> moves s y) \<Longrightarrow> moves s (if b then x else y)"
  by simp

lemma moves_later: "moves s' r \<Longrightarrow> later s s' \<Longrightarrow> moves s r"
  by (auto simp: moves_def intro: later_trans split: sum.splits)

lemma moves_nextLiteralString: "moves s (nextLiteralString s)"
  using scanString_loop_later [of "position s" "position s" "[]" s]
  by (auto simp: nextLiteralString_def scanString_def)

lemma moves_nextQuotedSymbol: "moves s (nextQuotedSymbol s)"
  using moves_nextLiteralString [of s]
  by (cases "nextLiteralString s") (auto simp: nextQuotedSymbol_def)

lemma moves_nextLiteralCharacter: "moves s (nextLiteralCharacter s)"
  by (simp add: nextLiteralCharacter_def case_prod_beta)

lemma moves_nextSymbolOrArrayPrefix: "moves s (nextSymbolOrArrayPrefix s)"
proof -
  have "moves s (Inr (nextKeyword s))" "moves s (Inr (nextBinarySymbol s))" "moves s (Inr (nextArrayPrefix (skip s)))"
    by (simp_all add: later_nextKeyword nextBinarySymbol_def scanBinarySymbol_def skipBinary_def nextArrayPrefix_def Let_def)
  then show ?thesis
    unfolding nextSymbolOrArrayPrefix_def case_prod_beta Let_def
    by (intro moves_if moves_later [OF moves_nextQuotedSymbol later_skip]) simp_all
qed

lemma scanChar_later: "scanChar s = (c, s') \<Longrightarrow> later s s'"
  using later_then(1) [OF later_skip_while, of s is_separator]
  by (auto simp: scanChar_def Let_def split: if_splits)

lemma canBeInIdentifier_start: "scanner_canStartIdentifier s c \<Longrightarrow> canBeInIdentifier c"
  by (auto simp: scanner_canStartIdentifier_def canStartIdentifier_def canBeInIdentifier_def split: if_splits)

lemma later_nextNumber:
  assumes "just_read c s" "ascii_digit c"
  shows "later s (snd (nextNumber s))"
proof -
  have "later s (skip_while ascii_digit (back_char s))"
    using assms by (rule later_back_skip_while)
  then show ?thesis
    using later_trans [OF _ later_scanNumber] by (simp add: nextNumber_def Let_def)
qed

lemma nextToken_moves:
  assumes "scanChar s0 = (c, s)" "c \<noteq> 0" "\<And>s'. remaining s' < remaining s0 \<Longrightarrow> moves s' (nextToken s')"
  shows "moves s (nextToken s0)"
proof -
  note read = scanChar_just_read [OF assms(1,2)]
  have "moves s (bind_result (skipComment s) nextToken)"
  proof (cases "skipComment s")
    case (Inr s')
    then have "later s s'"
      using skipComment_position by (simp add: later_def)
    then have "remaining s' < remaining s0"
      using read later_remaining by fastforce
    with Inr \<open>later s s'\<close> show ?thesis
      using moves_later [OF assms(3)] by simp
  qed (auto simp: skipComment_def split: if_splits)
  then show ?thesis
    using read assms(2)
    by (subst nextToken.simps, unfold assms(1) Let_def prod.case, intro moves_if)
      (auto simp: canBeInIdentifier_start later_nextIdentifierOrKeyword later_nextColon later_nextNumber
        later_nextBinarySelector nextAssignment_def nextSpecialCharacter_def
        moves_nextLiteralString moves_nextLiteralCharacter moves_nextSymbolOrArrayPrefix)
qed

text \<open>Every token leaves the stream on its source and not behind; a token that is not the end leaves
  fewer characters, and every failure is an exception of the scanner.\<close>

lemma nextToken_total: "moves s0 (nextToken s0)"
proof (induction s0 rule: measure_induct_rule [of remaining])
  case (less s0)
  obtain c s where c: "scanChar s0 = (c, s)"
    by fastforce
  note later = scanChar_later [OF c]
  show ?case
  proof (cases "c = 0")
    case True
    with c later show ?thesis
      by (subst nextToken.simps) (simp add: Let_def)
  next
    case False
    then show ?thesis
      using moves_later [OF nextToken_moves [OF c]] less later by blast
  qed
qed

lemma nextToken_progress:
  assumes "nextToken s = Inr (t, s')"
  shows "later s s' \<and> (isEnd (fst t) \<or> remaining s' < remaining s)"
proof -
  obtain c s1 where c: "scanChar s = (c, s1)"
    by fastforce
  have later: "later s s'"
    using nextToken_total [of s] assms by simp
  show ?thesis
  proof (cases "c = 0")
    case True
    with c assms have "isEnd (fst t)"
      by (subst (asm) nextToken.simps) (auto simp: Let_def end_token_def)
    with later show ?thesis by simp
  next
    case False
    then have "later s1 s'"
      using nextToken_moves [OF c] nextToken_total assms by simp
    then show ?thesis
      using scanChar_just_read [OF c False] later later_remaining by fastforce
  qed
qed

lemma nextToken_fault: "nextToken s \<noteq> Inl OutOfFuel"
  using nextToken_total [of s] by (auto simp: moves_def)

end
