(* ===== verification/ScannerText.thy ===== *)
theory ScannerText
  imports ScannerProgress
begin

text \<open>
  The text of a token and its scanning.  \<open>token_text\<close> writes a token the way a program does; a
  scannable token written after a line feed and followed by one is scanned to the same token.  The
  lemmas rewrite streams in the form \<open>st before after\<close>.
\<close>

section \<open>Streams as the text before and after the position\<close>

definition st :: "egg_string \<Rightarrow> egg_string \<Rightarrow> stream" where
  "st before after = \<lparr> source = before @ after, position = length before \<rparr>"

named_theorems stream_simps \<open>scanning functions on streams in split form\<close>

lemma st_simps [simp]:
  "source (st before after) = before @ after"
  "position (st before after) = length before"
  by (simp_all add: st_def)

lemma on_source_st: "on_source src = st [] src"
  by (simp add: on_source_def st_def)

lemma atEnd_st [simp]: "atEnd (st before after) \<longleftrightarrow> after = []"
  by (auto simp: atEnd_def)

lemma peek_char_st [simp]:
  "peek_char (st before (c # after)) = c"
  "peek_char (st before []) = 0"
  by (simp_all add: peek_char_def atEnd_def)

lemma next_char_st [simp]: "next_char (st before (c # after)) = (c, st (before @ [c]) after)"
  by (simp add: next_char_def atEnd_def st_def)

lemma back_char_st [simp]: "back_char (st (before @ [c]) after) = st before (c # after)"
  by (simp add: back_char_def st_def)

lemma skip_while_st [simp]:
  "skip_while P (st before after) = st (before @ takeWhile P after) (dropWhile P after)"
proof (induction after arbitrary: before)
  case Nil
  then show ?case by (subst skip_while.simps) simp
next
  case (Cons c after)
  then show ?case by (subst skip_while.simps) simp
qed

lemma back_char_lf [simp]: "back_char (st (before @ [l, c]) after) = st (before @ [l]) (c # after)"
  using back_char_st [of "before @ [l]" c after] by simp

lemma buildToken_at_st [simp]:
  "i \<le> length before \<Longrightarrow>
   buildToken_at f i (st before after) = (f (drop i before), Stretch (of_nat i) (of_nat (length before)))"
  by (simp add: buildToken_at_def buildToken_at_with_def copyFrom_to_def)

lemma copyFrom_to_st [simp]:
  "copyFrom_to (st (before @ found) after) (length before) (length (before @ found)) = found"
  "copyFrom_to (st (before @ found) after) (length before) (length before + length found) = found"
  by (simp_all add: copyFrom_to_def)

lemma upTo_st: "d \<notin> set found \<Longrightarrow> upTo d (st before (found @ d # after)) = (found, st (before @ found @ [d]) after)"
proof -
  assume d: "d \<notin> set found"
  then have "takeWhile (\<lambda>c. c \<noteq> d) (found @ d # after) = found" "dropWhile (\<lambda>c. c \<noteq> d) (found @ d # after) = d # after"
    by (induction found) auto
  then show ?thesis
    by (simp add: upTo_def Let_def)
qed

lemma peekFor_st:
  "peekFor c (st before (c # after)) = (True, st (before @ [c]) after)"
  "c \<noteq> d \<Longrightarrow> peekFor c (st before (d # after)) = (False, st before (d # after))"
  by (simp_all add: peekFor_def)

section \<open>Line feeds between tokens\<close>

abbreviation lf :: code_point where "lf \<equiv> 0x0A"

lemma lf_class [simp]:
  "\<not> canBeInIdentifier lf" "\<not> isBinary lf" "is_separator lf" "\<not> ascii_digit lf"
  by (simp_all add: canBeInIdentifier_def isLetter_def isDigit_def in_range_def isBinary_def ascii_def
      is_separator_def ascii_digit_def)

definition token_start :: "code_point \<Rightarrow> bool" where
  "token_start c \<longleftrightarrow> \<not> is_separator c \<and> c \<noteq> 0"

lemma scanChar_st:
  "token_start c \<Longrightarrow> scanChar (st before (lf # c # after)) = (c, st (before @ [lf, c]) after)"
  by (simp add: scanChar_def Let_def token_start_def)

lemma nextToken_end: "nextToken (st before [lf]) = Inr (end_token (st (before @ [lf]) []), st (before @ [lf]) [])"
  by (subst nextToken.simps) (simp add: scanChar_def Let_def)

section \<open>The text of a token\<close>

abbreviation quote :: code_point where "quote \<equiv> 0x27"

fun doubled_quotes :: "egg_string \<Rightarrow> egg_string" where
  "doubled_quotes [] = []"
| "doubled_quotes (c # cs) = (if c = quote then [quote, quote] else [c]) @ doubled_quotes cs"

definition quoted :: "egg_string \<Rightarrow> egg_string" where
  "quoted v = quote # doubled_quotes v @ [quote]"

fun token_text :: "token_class \<Rightarrow> egg_string" where
  "token_text EndToken = []"
| "token_text (SymbolicToken v b) = v"
| "token_text (DelimiterToken v) = v"
| "token_text (StringToken v LitString) = quoted v"
| "token_text (StringToken v LitSymbol) = chr CHR ''#'' # quoted v"
| "token_text (StringToken v LitNumber) = v"
| "token_text (StringToken v LitCharacter) = chr CHR ''$'' # v"

definition identifier_name :: "egg_string \<Rightarrow> bool" where
  "identifier_name v \<longleftrightarrow> v \<noteq> [] \<and> canStartIdentifier (hd v) \<and> list_all canBeInIdentifier v \<and> v \<noteq> ascii ''_''"

definition keyword_part :: "egg_string \<Rightarrow> bool" where
  "keyword_part v \<longleftrightarrow> v \<noteq> [] \<and> last v = chr CHR '':'' \<and> identifier_name (butlast v)"

definition binary_selector :: "egg_string \<Rightarrow> bool" where
  "binary_selector v \<longleftrightarrow> v \<noteq> [] \<and> list_all isBinary v \<and> \<not> isLetter (hd v)
     \<and> hd v \<noteq> chr CHR '':'' \<and> hd v \<noteq> chr CHR ''^'' \<and> last v \<noteq> chr CHR '':''"

definition delimiters :: "string list" where
  "delimiters = [''.'', ''['', '']'', ''('', '')'', ''{'', ''}'', '';'', ''^'', '':'', '':='', ''#('', ''#['']"

fun scannable :: "token_class \<Rightarrow> bool" where
  "scannable EndToken = False"
| "scannable (SymbolicToken v False) = (identifier_name v \<or> keyword_part v)"
| "scannable (SymbolicToken v True) = binary_selector v"
| "scannable (DelimiterToken v) = (v \<in> ascii ` set delimiters)"
| "scannable (StringToken v LitNumber) = (v \<noteq> [] \<and> list_all ascii_digit v)"
| "scannable (StringToken v LitCharacter) = (length v = 1)"
| "scannable (StringToken v _) = True"

section \<open>Scanning the text of a token\<close>

lemma ascii_simps [simp]: "ascii [] = []" "ascii (c # cs) = chr c # ascii cs"
  by (simp_all add: ascii_def)

lemma takeWhile_stop: "list_all P v \<Longrightarrow> \<not> P c \<Longrightarrow> takeWhile P (v @ c # after) = v \<and> dropWhile P (v @ c # after) = c # after"
  by (induction v) auto

text \<open>Characters of identifiers are above the white space.\<close>

lemma identifier_char_33:
  assumes "canBeInIdentifier c"
  shows "c \<noteq> 0 \<and> 33 \<le> c"
proof (rule ccontr)
  assume "\<not> (c \<noteq> 0 \<and> 33 \<le> c)"
  then have "unat c < 33"
    by (auto simp: word_le_nat_alt)
  then have "\<not> canBeInIdentifier c"
    by (auto simp: canBeInIdentifier_def isLetter_def isDigit_def in_range_def word_le_nat_alt word_less_nat_alt)
  with assms show False by simp
qed

lemma token_start_33: "33 \<le> c \<Longrightarrow> token_start c"
  by (auto simp: token_start_def is_separator_def word_le_nat_alt)

lemma letter_class:
  assumes "canStartIdentifier c"
  shows "token_start c" "canBeInIdentifier c"
proof -
  show "canBeInIdentifier c"
    using assms by (auto simp: canStartIdentifier_def canBeInIdentifier_def)
  then show "token_start c"
    using identifier_char_33 token_start_33 by blast
qed

lemma identifier_cases:
  assumes "identifier_name v"
  obtains c cs where "v = c # cs" "canStartIdentifier c" "list_all canBeInIdentifier cs"
    "c = chr CHR ''_'' \<longrightarrow> cs \<noteq> []"
  using assms by (cases v) (auto simp: identifier_name_def)

lemma nextToken_identifier:
  assumes "canStartIdentifier c" "c = chr CHR ''_'' \<longrightarrow> (\<exists>d ds. after = d # ds \<and> 33 \<le> d \<and> d \<noteq> 0)"
  shows "nextToken (st before (lf # c # after)) = Inr (nextIdentifierOrKeyword (st (before @ [lf, c]) after))"
proof -
  have "scanner_canStartIdentifier (st (before @ [lf, c]) after) c"
    using assms by (auto simp: scanner_canStartIdentifier_def)
  moreover have "c \<noteq> 0"
    using letter_class(1) [OF assms(1)] by (simp add: token_start_def)
  ultimately show ?thesis
    using letter_class [OF assms(1)] by (subst nextToken.simps) (simp add: scanChar_st)
qed

text \<open>A token was scanned from its text.\<close>

definition scans :: "token_class \<Rightarrow> bool" where
  "scans t \<longleftrightarrow> (\<forall>before after. \<exists>a.
     nextToken (st before (lf # token_text t @ lf # after)) = Inr ((t, a), st (before @ lf # token_text t) (lf # after)))"

lemma scans_name:
  assumes "identifier_name v"
  shows "scans (SymbolicToken v False)"
proof -
  from assms obtain c cs where v: "v = c # cs" "canStartIdentifier c" "list_all canBeInIdentifier cs"
    "c = chr CHR ''_'' \<longrightarrow> cs \<noteq> []"
    by (rule identifier_cases)
  have "nextToken (st before (lf # v @ lf # after)) =
      Inr (nextIdentifierOrKeyword (st (before @ [lf, c]) (cs @ lf # after)))" for before after
    using nextToken_identifier [OF v(2), of "cs @ lf # after" before] v identifier_char_33 by (cases cs) auto
  then show ?thesis
    using v letter_class [OF v(2)] takeWhile_stop [OF v(3) lf_class(1)] peekFor_st(2) [of "chr CHR '':''" lf]
    by (simp add: scans_def nextIdentifierOrKeyword_def skipIdentifier_def)
qed

lemma scans_keyword:
  assumes "keyword_part v"
  shows "scans (SymbolicToken v False)"
proof -
  define w where "w = butlast v"
  have w: "v = w @ [chr CHR '':'']" "identifier_name w"
    using assms append_butlast_last_id [of v] by (auto simp: keyword_part_def w_def)
  from w(2) obtain c cs where v: "w = c # cs" "canStartIdentifier c" "list_all canBeInIdentifier cs"
    "c = chr CHR ''_'' \<longrightarrow> cs \<noteq> []"
    by (rule identifier_cases)
  have "nextToken (st before (lf # v @ lf # after)) =
      Inr (nextIdentifierOrKeyword (st (before @ [lf, c]) (cs @ chr CHR '':'' # lf # after)))" for before after
    using nextToken_identifier [OF v(2), of "cs @ chr CHR '':'' # lf # after" before] v w identifier_char_33 by (cases cs) auto
  moreover have "\<not> canBeInIdentifier (chr CHR '':'')"
    by (simp add: canBeInIdentifier_def isLetter_def isDigit_def in_range_def)
  ultimately show ?thesis
    using v letter_class [OF v(2)] takeWhile_stop [OF v(3), of "chr CHR '':''"]
      peekFor_st(1) [of "chr CHR '':''"] peekFor_st(2) [of "chr CHR ''=''" lf]
    by (simp add: scans_def nextIdentifierOrKeyword_def skipIdentifier_def w)
qed

text \<open>Binary selectors take all the binary characters.\<close>

lemma scanBinarySymbol_st:
  assumes "list_all isBinary v"
  shows "scanBinarySymbol (st before (v @ lf # after)) = (v, st (before @ v) (lf # after))"
  using takeWhile_stop [OF assms lf_class(2)] by (simp add: scanBinarySymbol_def skipBinary_def)

lemma binary_class:
  assumes "isBinary c"
  shows "token_start c" "\<not> ascii_digit c" "c \<notin> {quote, chr CHR ''$'', chr CHR ''#'', 0x22, chr CHR ''_''}"
  using assms
  by (auto simp: isBinary_def token_start_def is_separator_def ascii_digit_def in_range_def ascii_def
      word_less_nat_alt word_le_nat_alt split: if_splits)

lemma scans_binary:
  assumes "binary_selector v"
  shows "scans (SymbolicToken v True)"
proof -
  from assms obtain c cs where v: "v = c # cs" "isBinary c" "\<not> isLetter c" "c \<noteq> chr CHR '':''" "c \<noteq> chr CHR ''^''"
    "list_all isBinary v"
    by (cases v) (auto simp: binary_selector_def)
  have "\<not> canStartIdentifier c"
    using v(3) binary_class [OF v(2)] by (simp add: canStartIdentifier_def)
  then have "nextToken (st before (lf # c # after)) = Inr (nextBinarySelector (st (before @ [lf, c]) after))" for before after
    using v(2,4,5) binary_class [OF v(2)]
    by (subst nextToken.simps) (auto simp: scanChar_st token_start_def scanner_canStartIdentifier_def)
  then show ?thesis
    using scanBinarySymbol_st [OF v(6)]
    by (simp add: scans_def nextBinarySelector_def v(1) buildToken_at_with_def)
qed

text \<open>Delimiters.\<close>

lemmas class_defs = scanner_canStartIdentifier_def canStartIdentifier_def canBeInIdentifier_def isLetter_def isDigit_def
  in_range_def isBinary_def token_start_def is_separator_def ascii_digit_def

lemma nextToken_special:
  assumes "token_start c" "\<not> canStartIdentifier c" "c \<notin> {quote, chr CHR ''$'', chr CHR ''#'', 0x22, chr CHR ''_'', chr CHR '':''}"
    "\<not> ascii_digit c" "c = chr CHR ''^'' \<or> \<not> isBinary c"
  shows "nextToken (st before (lf # c # after)) = Inr (nextSpecialCharacter (st (before @ [lf, c]) after))"
  using assms
  by (subst nextToken.simps) (auto simp: scanChar_st token_start_def scanner_canStartIdentifier_def)

lemma scans_special:
  assumes "c \<in> {CHR ''.'', CHR ''['', CHR '']'', CHR ''('', CHR '')'', CHR ''{'', CHR ''}'', CHR '';'', CHR ''^''}"
  shows "scans (DelimiterToken (ascii [c]))"
proof -
  have "token_start (chr c) \<and> \<not> canStartIdentifier (chr c)
      \<and> chr c \<notin> {quote, chr CHR ''$'', chr CHR ''#'', 0x22, chr CHR ''_'', chr CHR '':''}
      \<and> \<not> ascii_digit (chr c) \<and> (chr c = chr CHR ''^'' \<or> \<not> isBinary (chr c))"
    using assms by (elim insertE emptyE; simp add: class_defs)
  then have "nextToken (st before (lf # chr c # after)) = Inr (nextSpecialCharacter (st (before @ [lf, chr c]) after))" for before after
    using nextToken_special by blast
  then show ?thesis
    by (simp add: scans_def nextSpecialCharacter_def)
qed

lemma scans_colon: "scans (DelimiterToken (ascii '':''))"
proof -
  have "nextToken (st before (lf # chr CHR '':'' # after)) = Inr (nextColon (st (before @ [lf, chr CHR '':'']) after))" for before after
    by (subst nextToken.simps) (simp add: scanChar_st class_defs)
  moreover have "nextColon (st (before @ [lf, chr CHR '':'']) (lf # after)) = nextSpecialCharacter (st (before @ [lf, chr CHR '':'']) (lf # after))"
    for before after
    by (simp add: nextColon_def)
  ultimately show ?thesis
    by (simp add: scans_def nextSpecialCharacter_def)
qed

lemma scans_assignment: "scans (DelimiterToken (ascii '':=''))"
proof -
  have "nextToken (st before (lf # chr CHR '':'' # after)) = Inr (nextColon (st (before @ [lf, chr CHR '':'']) after))" for before after
    by (subst nextToken.simps) (simp add: scanChar_st class_defs)
  then show ?thesis
    by (simp add: scans_def nextColon_def nextAssignment_def buildToken_at_with_def Let_def)
qed

lemma nextToken_hash:
  "nextToken (st before (lf # chr CHR ''#'' # after)) = nextSymbolOrArrayPrefix (st (before @ [lf, chr CHR ''#'']) after)"
  by (subst nextToken.simps) (simp add: scanChar_st class_defs)

lemma scans_array_prefix:
  assumes "c \<in> {CHR ''('', CHR ''[''}"
  shows "scans (DelimiterToken (ascii [CHR ''#'', c]))"
proof -
  have c: "\<not> canBeInIdentifier (chr c)" "\<not> isBinary (chr c)" "chr c = chr CHR ''['' \<or> chr c = chr CHR ''(''"
    using assms by (elim insertE emptyE; simp add: class_defs)+
  have "nextSymbolOrArrayPrefix (st (before @ [lf, chr CHR ''#'']) (chr c # after)) =
      Inr (nextArrayPrefix (st (before @ [lf, chr CHR ''#'', chr c]) after))" for before after
    unfolding nextSymbolOrArrayPrefix_def using c by simp
  then show ?thesis
    using nextToken_hash by (simp add: scans_def nextArrayPrefix_def buildToken_at_with_def copyFrom_to_def)
qed

text \<open>Literals.\<close>

lemma scans_number:
  assumes "v \<noteq> []" "list_all ascii_digit v"
  shows "scans (StringToken v LitNumber)"
proof -
  from assms obtain c cs where v: "v = c # cs" "ascii_digit c"
    by (cases v) auto
  have c: "token_start c \<and> \<not> canStartIdentifier c \<and> \<not> isBinary c \<and> c < 128
      \<and> c \<notin> {quote, chr CHR ''$'', chr CHR ''#'', 0x22, chr CHR ''_'', chr CHR '':''}"
    using v(2) by (auto simp: class_defs ascii_def word_le_nat_alt word_less_nat_alt)
  then have "nextToken (st before (lf # c # after)) = Inr (nextNumber (st (before @ [lf, c]) after))" for before after
    using v(2)
    by (subst nextToken.simps) (auto simp: scanChar_st token_start_def scanner_canStartIdentifier_def)
  moreover have "scanNumber (st before (v @ lf # after)) = st (before @ v) (lf # after)" for before after
    using takeWhile_stop [OF assms(2) lf_class(4)] by (simp add: scanNumber_def Let_def peek_is_def)
  ultimately show ?thesis
    by (simp add: scans_def v(1) nextNumber_def Let_def buildToken_at_with_def copyFrom_to_def)
qed

lemma scans_character: "scans (StringToken [c] LitCharacter)"
proof -
  have "nextToken (st before (lf # chr CHR ''$'' # after)) = nextLiteralCharacter (st (before @ [lf, chr CHR ''$'']) after)" for before after
    by (subst nextToken.simps) (simp add: scanChar_st class_defs)
  then show ?thesis
    by (simp add: scans_def nextLiteralCharacter_def buildToken_at_with_def)
qed

lemma quote_free_prefix: "doubled_quotes v @ quote # after = takeWhile (\<lambda>c. c \<noteq> quote) v @ quote #
   (if takeWhile (\<lambda>c. c \<noteq> quote) v = v then after
    else quote # doubled_quotes (drop (length (takeWhile (\<lambda>c. c \<noteq> quote) v) + 1) v) @ quote # after)"
  by (induction v) auto

lemma first_quote:
  "takeWhile (\<lambda>c. c \<noteq> quote) v \<noteq> v \<Longrightarrow>
   v = takeWhile (\<lambda>c. c \<noteq> quote) v @ quote # drop (length (takeWhile (\<lambda>c. c \<noteq> quote) v) + 1) v"
  by (induction v) auto

lemma scanString_loop_st:
  "scanString_loop start (length before) acc (st before (doubled_quotes v @ quote # lf # after)) =
     Inr (acc @ v, st (before @ doubled_quotes v @ [quote]) (lf # after))"
proof (induction v arbitrary: before acc rule: measure_induct_rule [of length])
  case (less v)
  define u where "u = takeWhile (\<lambda>c. c \<noteq> quote) v"
  define w where "w = drop (length u + 1) v"
  have u: "quote \<notin> set u"
    by (auto simp: u_def dest: set_takeWhileD)
  show ?case
  proof (cases "u = v")
    case True
    then have "doubled_quotes v @ quote # lf # after = v @ quote # lf # after"
      using quote_free_prefix [of v "lf # after"] by (simp add: u_def)
    moreover have "quote \<notin> set v"
      using u unfolding True .
    ultimately have "doubled_quotes v = v" "doubled_quotes v @ quote # lf # after = v @ quote # lf # after" "quote \<notin> set v"
      by auto
    then show ?thesis
      using upTo_st [of quote v before "lf # after"] back_char_st [of "before @ v" quote]
        peekFor_st(2) [of quote lf]
      by (subst scanString_loop_unfold) simp
  next
    case False
    then have v: "v = u @ quote # w"
      using first_quote [of v] by (simp add: u_def w_def)
    then have "doubled_quotes v @ quote # lf # after = u @ quote # quote # doubled_quotes w @ quote # lf # after"
      using quote_free_prefix [of v "lf # after"] False by (simp add: u_def w_def)
    moreover have "doubled_quotes v = u @ quote # quote # doubled_quotes w"
      using calculation by simp
    ultimately show ?thesis
      using upTo_st [OF u, of before "quote # doubled_quotes w @ quote # lf # after"]
        back_char_st [of "before @ u" quote] peekFor_st(1) [of quote]
        less.IH [of w "before @ u @ [quote, quote]"] v
      by (subst scanString_loop_unfold) simp
  qed
qed

lemma nextLiteralString_st:
  "nextLiteralString (st before (doubled_quotes v @ quote # lf # after)) =
     Inr ((StringToken v LitString, Stretch (of_nat (length before)) (of_nat (length (before @ doubled_quotes v @ [quote])))),
          st (before @ doubled_quotes v @ [quote]) (lf # after))"
  by (simp add: nextLiteralString_def scanString_def scanString_loop_st buildToken_at_with_def)

lemma scans_string: "scans (StringToken v LitString)"
proof -
  have "nextToken (st before (lf # quote # after)) = nextLiteralString (st (before @ [lf, quote]) after)" for before after
    by (subst nextToken.simps) (simp add: scanChar_st class_defs)
  then show ?thesis
    using nextLiteralString_st by (simp add: scans_def quoted_def)
qed

lemma scans_symbol: "scans (StringToken v LitSymbol)"
proof -
  have "\<not> canBeInIdentifier quote" "\<not> isBinary quote"
    by (simp_all add: class_defs ascii_def)
  then show ?thesis
    using nextToken_hash nextLiteralString_st
    by (simp add: scans_def quoted_def nextSymbolOrArrayPrefix_def nextQuotedSymbol_def)
qed

lemma scans_delimiter:
  assumes "v \<in> ascii ` set delimiters"
  shows "scans (DelimiterToken v)"
proof -
  have "list_all (\<lambda>s. scans (DelimiterToken (ascii s))) delimiters"
    unfolding delimiters_def list.pred_inject
    by (intro conjI TrueI scans_special scans_array_prefix scans_colon scans_assignment; simp)
  with assms show ?thesis
    by (auto simp: list_all_iff)
qed

lemma scans_scannable:
  assumes "scannable t"
  shows "scans t"
proof (cases t)
  case EndToken
  with assms show ?thesis by simp
next
  case (SymbolicToken v b)
  with assms show ?thesis
    by (cases b) (auto intro: scans_name scans_keyword scans_binary)
next
  case (DelimiterToken v)
  with assms have "v \<in> ascii ` set delimiters"
    by (simp only: scannable.simps)
  then show ?thesis
    unfolding DelimiterToken by (rule scans_delimiter)
next
  case (StringToken v k)
  with assms show ?thesis
    by (cases k) (auto intro: scans_number scans_string scans_symbol scans_character simp: length_Suc_conv)
qed

section \<open>The text of a sequence of tokens\<close>

definition tokens_text :: "token_class list \<Rightarrow> egg_string" where
  "tokens_text ts = concat (map (\<lambda>t. lf # token_text t) ts) @ [lf]"

text \<open>The scanner answers these tokens one after the other.\<close>

fun yields :: "stream \<Rightarrow> token_class list \<Rightarrow> bool" where
  "yields s [] = True"
| "yields s (t # ts) = (\<exists>a s'. nextToken s = Inr ((t, a), s') \<and> yields s' ts)"

lemma tokens_text_simps:
  "tokens_text [] = [lf]"
  "tokens_text (t # ts) = lf # token_text t @ tokens_text ts"
  by (simp_all add: tokens_text_def)

lemma tokens_text_lf: "\<exists>after. tokens_text ts = lf # after"
  by (cases ts) (simp_all add: tokens_text_simps)

lemma yields_text: "list_all scannable ts \<Longrightarrow> yields (st before (tokens_text ts)) (ts @ [EndToken])"
proof (induction ts arbitrary: before)
  case Nil
  then show ?case
    using nextToken_end [of before] by (auto simp: tokens_text_simps end_token_def)
next
  case (Cons t ts)
  obtain after where after: "tokens_text ts = lf # after"
    using tokens_text_lf by blast
  have "scans t"
    using scans_scannable Cons.prems by simp
  then obtain a where "nextToken (st before (lf # token_text t @ lf # after)) =
      Inr ((t, a), st (before @ lf # token_text t) (lf # after))"
    unfolding scans_def by blast
  then show ?case
    using Cons.IH [of "before @ lf # token_text t"] Cons.prems by (simp add: tokens_text_simps after)
qed

text \<open>
  C30: The scanner inverts the writing of tokens: names, keywords, binary selectors, delimiters, decimal
  numbers, characters, strings with their quotes doubled and quoted symbols, written one to a line, scan
  to the same tokens in the same order and then to the end token.
\<close>

theorem scanner_round_trip:
  assumes "list_all scannable ts"
  shows "yields (on_source (tokens_text ts)) (ts @ [EndToken])"
  using yields_text [OF assms, of "[]"] by (simp add: on_source_st)

lemma scanner_round_trip_witness:
  "yields (on_source [lf, 0x61, 0x3A, lf, 0x27, 0x27, 0x27, 0x7C, 0x27, lf, 0x3A, 0x3D, lf])
     [SymbolicToken [0x61, 0x3A] False, StringToken [0x27, 0x7C] LitString, DelimiterToken [0x3A, 0x3D], EndToken]"
  using scanner_round_trip [of "[SymbolicToken [0x61, 0x3A] False, StringToken [0x27, 0x7C] LitString,
      DelimiterToken (ascii '':='')]"]
  by (simp add: keyword_part_def identifier_name_def class_defs delimiters_def tokens_text_def quoted_def)

end
