(* ===== verification/ParserLiterals.thy ===== *)
theory ParserLiterals
  imports Parser ScannerText
begin

text \<open>
  The rules for walking through the parser, and the round trip of literals.  \<open>upcoming\<close> says which
  tokens a parser has ahead, \<open>gives\<close> that a parsing function succeeds with a value and leaves the
  rest; the \<open>gives\<close> rules follow the functions of the parser in the order of the tokens.  Literals
  (small integers, strings, symbols, characters, byte arrays and nested arrays) are written as tokens and
  parsed back as primaries.
\<close>

section \<open>Tokens ahead of a parser\<close>

definition upcoming :: "egg_string \<Rightarrow> parser \<Rightarrow> token_class list \<Rightarrow> bool" where
  "upcoming src p ts \<longleftrightarrow> source (p_stream p) = src \<and>
     (case p_peeked p of
        None \<Rightarrow> (\<exists>us. ts = cls p # us \<and> yields (p_stream p) us)
      | Some t \<Rightarrow> (\<exists>us. ts = cls p # fst t # us \<and> yields (p_stream p) us))"

definition gives :: "egg_string \<Rightarrow> ('a \<times> parser) result \<Rightarrow> 'a \<Rightarrow> token_class list \<Rightarrow> bool" where
  "gives src r x ts \<longleftrightarrow> (\<exists>p. r = Inr (x, p) \<and> upcoming src p ts)"

lemma upcoming_cls: "upcoming src p (t # ts) \<Longrightarrow> cls p = t"
  by (auto simp: upcoming_def split: option.splits)

lemma upcoming_fuel: "upcoming src p ts \<Longrightarrow> parse_fuel p = length src + 3"
  by (auto simp: upcoming_def parse_fuel_def)

lemma nextToken_source: "nextToken s = Inr (t, s') \<Longrightarrow> source s' = source s"
  using nextToken_progress by (auto simp: later_def)

lemma step_upcoming: "upcoming src p (t # u # ts) \<Longrightarrow> \<exists>p'. step p = Inr p' \<and> upcoming src p' (u # ts)"
  by (auto simp: upcoming_def step_def nextToken_source split: option.splits)

lemma peek_upcoming:
  "upcoming src p (t # u # ts) \<Longrightarrow> \<exists>p' a. peek p = Inr ((u, a), p') \<and> upcoming src p' (t # u # ts)"
  by (cases "p_peeked p") (auto simp: upcoming_def peek_def nextToken_source)

text \<open>The rules for sequences of parsing steps.\<close>

lemma gives_Inr: "upcoming src p ts \<Longrightarrow> gives src (Inr (x, p)) x ts"
  by (simp add: gives_def)

lemma gives_step:
  assumes "upcoming src p (t # u # ts)" "\<And>p'. upcoming src p' (u # ts) \<Longrightarrow> gives src (f p') x ts'"
  shows "gives src (bind_result (step p) f) x ts'"
  using step_upcoming [OF assms(1)] assms(2) by auto

lemma gives_peek:
  assumes "upcoming src p (t # u # ts)" "\<And>p' a. upcoming src p' (t # u # ts) \<Longrightarrow> gives src (f ((u, a), p')) x ts'"
  shows "gives src (bind_result (peek p) f) x ts'"
  using peek_upcoming [OF assms(1)] assms(2) by auto

lemma gives_bind:
  assumes "gives src r y ts" "\<And>p'. upcoming src p' ts \<Longrightarrow> gives src (f (y, p')) x ts'"
  shows "gives src (bind_result r f) x ts'"
  using assms by (auto simp: gives_def)

lemma gives_while:
  assumes "b (x, p)" "gives src (c (x, p)) y ts" "\<And>p'. upcoming src p' ts \<Longrightarrow> gives src (while_result b c (y, p')) z ts'"
  shows "gives src (while_result b c (x, p)) z ts'"
  using assms by (subst while_result_unfold) (auto intro: gives_bind)

lemma gives_while_end:
  assumes "\<not> b (x, p)" "upcoming src p ts"
  shows "gives src (while_result b c (x, p)) x ts"
  using assms by (subst while_result_unfold) (simp add: gives_Inr)

text \<open>A loop that parses the elements of a list one by one.\<close>

lemma gives_while_list:
  assumes "\<And>x acc p ys. x \<in> set xs \<Longrightarrow> upcoming src p (tk x @ ys) \<Longrightarrow> ys \<noteq> [] \<Longrightarrow> b (acc, p) \<and> gives src (c (acc, p)) (f acc x) ys"
    and "\<And>acc p. upcoming src p ts \<Longrightarrow> \<not> b (acc, p)" "ts \<noteq> []" "upcoming src p (concat (map tk xs) @ ts)"
  shows "gives src (while_result b c (acc, p)) (foldl f acc xs) ts"
  using assms(1,4)
proof (induction xs arbitrary: acc p)
  case Nil
  then show ?case
    using assms(2) by (auto intro: gives_while_end)
next
  case (Cons x xs)
  have "b (acc, p) \<and> gives src (c (acc, p)) (f acc x) (concat (map tk xs) @ ts)"
    using Cons.prems assms(3) by auto
  moreover have "gives src (while_result b c (f acc x, p')) (foldl f (f acc x) xs) ts"
    if "upcoming src p' (concat (map tk xs) @ ts)" for p'
    using that by (intro Cons.IH Cons.prems(1)) simp_all
  ultimately show ?case
    by (auto intro: gives_while)
qed

lemma append_Cons_first:
  obtains u us where "xs @ y # ys = u # us"
  by (cases xs) auto

lemma foldl_snoc: "foldl (\<lambda>acc x. acc @ [x]) acc xs = acc @ xs"
  by (induction xs arbitrary: acc) simp_all

section \<open>Writing literals\<close>

abbreviation name_token :: "egg_string \<Rightarrow> token_class" where
  "name_token v \<equiv> SymbolicToken v False"

abbreviation binary_token :: "egg_string \<Rightarrow> token_class" where
  "binary_token v \<equiv> SymbolicToken v True"

abbreviation delimiter :: "string \<Rightarrow> token_class" where
  "delimiter s \<equiv> DelimiterToken (ascii s)"

definition number_token :: "nat \<Rightarrow> token_class" where
  "number_token n = StringToken (ascii (decimal n)) LitNumber"

fun literal_tokens :: "literal_value \<Rightarrow> token_class list" where
  "literal_tokens (LInteger i) =
     (if i < 0 then [binary_token (ascii ''-''), number_token (nat (- i))] else [number_token (nat i)])"
| "literal_tokens (LString v) = [StringToken v LitString]"
| "literal_tokens (LSymbol v) = [StringToken v LitSymbol]"
| "literal_tokens (LCharacter c) = [StringToken [c] LitCharacter]"
| "literal_tokens (LByteArray bs) = delimiter ''#['' # map (\<lambda>b. number_token (unat b)) bs @ [delimiter '']'']"
| "literal_tokens (LArray ls) = delimiter ''#('' # concat (map literal_tokens ls) @ [delimiter '')'']"
| "literal_tokens LNil = [name_token (ascii ''nil'')]"
| "literal_tokens (LBoolean b) = [name_token (ascii (if b then ''true'' else ''false''))]"
| "literal_tokens _ = []"

text \<open>The literals that a program can write: integers in the range of small integers, except the least
  one; nil and booleans only inside arrays.\<close>

fun array_literal :: "literal_value \<Rightarrow> bool" where
  "array_literal (LInteger i) = (SMALLINT_MIN < i \<and> i \<le> SMALLINT_MAX)"
| "array_literal (LArray ls) = list_all array_literal ls"
| "array_literal (LLargeInteger bs s) = False"
| "array_literal (LFloat w) = False"
| "array_literal (LBlock b) = False"
| "array_literal LNone = False"
| "array_literal _ = True"

fun program_literal :: "literal_value \<Rightarrow> bool" where
  "program_literal LNil = False"
| "program_literal (LBoolean b) = False"
| "program_literal l = array_literal l"

section \<open>Parsing literals\<close>

lemma digit_char: "d < 10 \<Longrightarrow> digit_value (char_of (48 + d)) = Inr d \<and> valid_digit 10 (char_of (48 + d))"
  by (simp add: digit_value_def Let_def valid_digit_def)

lemma decimal_digits: "list_all (valid_digit 10) (decimal n) \<and> digits_value 10 (decimal n) = n \<and> decimal n \<noteq> []"
proof (induction n rule: decimal.induct)
  case (1 n)
  show ?case
  proof (cases "n < 10")
    case True
    then show ?thesis
      using digit_char [of n] by (subst (1 2 3) decimal.simps) (simp add: digits_value_def)
  next
    case False
    with 1 digit_char [of "n mod 10"] show ?thesis
      by (subst (1 2 3) decimal.simps) (simp add: digits_value_def)
  qed
qed

definition digit_chars :: "char list" where
  "digit_chars = ''0123456789''"

lemma digit_chars_all: "list_all (\<lambda>d. char_of (48 + d) \<in> set digit_chars) [0..<10 :: nat]"
  by code_simp

lemma decimal_chars: "set (decimal n) \<subseteq> set digit_chars"
proof (induction n rule: decimal.induct)
  case (1 n)
  have "char_of (48 + d) \<in> set digit_chars" if "d < 10" for d :: nat
    using that digit_chars_all by (auto simp: list_all_iff)
  then show ?case
    using 1 by (subst decimal.simps) auto
qed

lemma digit_bytes_all: "list_all (\<lambda>c. bytes_of [chr c] = [c]) digit_chars"
  by code_simp

lemma bytes_of_decimal: "bytes_of (ascii (decimal n)) = decimal n"
proof -
  have split: "bytes_of (c # cs) = bytes_of [c] @ bytes_of cs" for c cs
    by (simp add: bytes_of_def toUtf8_def)
  have "bytes_of (ascii s) = s" if "set s \<subseteq> set digit_chars" for s
    using that
  proof (induction s)
    case (Cons c s)
    then show ?case
      using digit_bytes_all split [of "chr c" "ascii s"] by (auto simp: list_all_iff)
  qed (simp add: bytes_of_def toUtf8_def)
  then show ?thesis
    using decimal_chars by blast
qed

lemma parse_number: "parseLiteralValue (number_token n) = fromIntegerDigits 10 (decimal n) False"
proof -
  have no: "c \<notin> set (decimal n)" if "c \<in> {CHR ''r'', CHR ''R'', CHR ''.'', CHR ''e'', CHR ''E'', CHR ''x'', CHR ''X''}" for c
    using decimal_chars [of n] that by (auto simp: digit_chars_def)
  have hex: "\<not> (length (decimal n) > 2 \<and> decimal n ! 0 = CHR ''0'' \<and> (decimal n ! 1 = CHR ''x'' \<or> decimal n ! 1 = CHR ''X''))"
    using no [of "CHR ''x''"] no [of "CHR ''X''"] nth_mem [of "Suc 0" "decimal n"] by fastforce
  have "takeWhile (\<lambda>c. c \<noteq> CHR ''R'') (decimal n) = decimal n"
    using no [of "CHR ''R''"] by (auto simp: takeWhile_eq_all_conv)
  then show ?thesis
    using no hex
    by (auto simp: number_token_def bytes_of_decimal parseNumberString_def parseIntegerString_def)
qed

lemma parse_decimal:
  assumes "int n \<le> SMALLINT_MAX"
  shows "parseLiteralValue (number_token n) = Inr (LInteger (int n))"
proof -
  have "smi_range (int n)"
    using assms by (simp add: smi_range_def smi_limits)
  then show ?thesis
    using fromIntegerDigits_spec [of 10 "decimal n" False] decimal_digits [of n] by (auto simp: parse_number)
qed

lemma nonzero_digits: "list_all (\<lambda>d. char_of (48 + d) \<noteq> CHR ''0'') [1..<10 :: nat]"
  by code_simp

lemma decimal_first:
  assumes "0 < n"
  shows "\<exists>c cs. decimal n = c # cs \<and> c \<noteq> CHR ''0''"
  using assms
proof (induction n rule: decimal.induct)
  case (1 n)
  show ?case
  proof (cases "n < 10")
    case True
    then have "char_of (48 + n) \<noteq> CHR ''0''"
      using 1(2) nonzero_digits by (auto simp: list_all_iff)
    with True show ?thesis
      by (subst decimal.simps) simp
  next
    case False
    then obtain c cs where "decimal (n div 10) = c # cs" "c \<noteq> CHR ''0''"
      using 1(1) False div_greater_zero_iff [of n 10] by auto
    with False show ?thesis
      by (subst decimal.simps) simp
  qed
qed

lemma stol_plain:
  assumes "\<not> c_space c" "c \<noteq> CHR ''-''" "c \<noteq> CHR ''+''" "c \<noteq> CHR ''0''" "list_all (valid_digit 10) (c # cs)"
  shows "stol_auto (c # cs) = c_integer ''stol'' 10 (c # cs) False (c # cs) (2 ^ 63)"
proof -
  have "c_sign (c # cs) = (False, c # cs)"
    using assms(1-3) by (simp add: c_sign_def)
  with assms(4,5) show ?thesis
    by (cases cs rule: list.exhaust [case_product list.exhaust [of "tl cs"]])
      (auto simp: stol_auto_def Let_def list_all_iff takeWhile_eq_all_conv [THEN iffD2])
qed

lemma stol_decimal:
  assumes "n < 256"
  shows "stol_auto (bytes_of (ascii (decimal n))) = Inr (int n)"
proof (cases "n = 0")
  case True
  have "stol_auto ''0'' = Inr 0" "decimal 0 = ''0''"
    by code_simp+
  with True show ?thesis
    unfolding bytes_of_decimal by simp
next
  case False
  then obtain c cs where c: "decimal n = c # cs" "c \<noteq> CHR ''0''"
    using decimal_first by blast
  have digits: "list_all (valid_digit 10) (decimal n)" "digits_value 10 (decimal n) = n"
    using decimal_digits [of n] by auto
  have "c \<in> set digit_chars"
    using decimal_chars [of n] c by simp
  then have "\<not> c_space c" "c \<noteq> CHR ''-''" "c \<noteq> CHR ''+''"
    by (auto simp: digit_chars_def c_space_def)
  with digits c assms have "stol_auto (c # cs) = Inr (int n)"
    by (subst stol_plain) (simp_all add: c_integer_def Let_def)
  with c(1) show ?thesis
    unfolding bytes_of_decimal by simp
qed

lemma ascii_char [simp]: "ascii [c] = [chr c]"
  by simp

lemma number_token_class [simp]:
  "isLiteral (number_token n)" "isNumberToken (number_token n)" "\<not> isName (number_token n)"
  "\<not> isEnd (number_token n)" "\<not> is_char c (number_token n)" "\<not> is_string s (number_token n)"
  "token_value (number_token n) = ascii (decimal n)"
  by (simp_all add: number_token_def)

lemma negated_gives:
  assumes "upcoming src p (t # number_token k # u # ys)" "parseLiteralValue (number_token k) = Inr l"
  shows "gives src (negativeNumberOrBinary p) (negated_literal l) (number_token k # u # ys)"
  unfolding negativeNumberOrBinary_def
proof (rule gives_peek [OF assms(1)])
  fix p1 a
  assume p1: "upcoming src p1 (t # number_token k # u # ys)"
  have "gives src (bind_result (step p1) (\<lambda>p. bind_result (parseLiteralValue (cls p)) (\<lambda>v. Inr (negated_literal v, p))))
      (negated_literal l) (number_token k # u # ys)"
    using assms(2) by (auto intro!: gives_step [OF p1] gives_Inr simp: upcoming_cls)
  then show "gives src
      (case ((number_token k, a), p1) of (t, p) \<Rightarrow>
         if isNumberToken (fst t) then
           bind_result (step p) (\<lambda>p. bind_result (parseLiteralValue (cls p)) (\<lambda>v. Inr (negated_literal v, p)))
         else Inr (LNone, p))
      (negated_literal l) (number_token k # u # ys)"
    by simp
qed

lemma negative_gives:
  assumes "upcoming src p (t # number_token k # u # ys)" "int k \<le> SMALLINT_MAX"
  shows "gives src (negativeNumberOrBinary p) (LInteger (- int k)) (number_token k # u # ys)"
  using negated_gives [OF assms(1) parse_decimal [OF assms(2)]] by simp

lemma byteArrayBody_gives:
  assumes "upcoming src p (t # map (\<lambda>b. number_token (unat b)) bs @ delimiter '']'' # ys)"
  shows "gives src (byteArrayBody p) (LByteArray bs) (delimiter '']'' # ys)"
proof -
  obtain u us where us: "map (\<lambda>b. number_token (unat b)) bs @ delimiter '']'' # ys = u # us"
    by (rule append_Cons_first)
  show ?thesis
    unfolding byteArrayBody_def
  proof (rule gives_step [OF assms [unfolded us]])
    fix p1
    assume "upcoming src p1 (u # us)"
    then have p1: "upcoming src p1 (concat (map (\<lambda>b. [number_token (unat b)]) bs) @ delimiter '']'' # ys)"
      using us by (simp add: concat_map_singleton)
    let ?body = "\<lambda>(bytes, p). bind_result (stol_auto (bytes_of (val p))) (\<lambda>v.
        bind_result (step p) (\<lambda>p. Inr (bytes @ [word_of_int v :: byte], p)))"
    have "gives src (while_result (\<lambda>(bytes, p). isLiteral (cls p)) ?body ([], p1)) (foldl (\<lambda>acc b. acc @ [b]) [] bs)
        (delimiter '']'' # ys)"
    proof (rule gives_while_list [OF _ _ _ p1])
      fix b :: byte and acc q zs
      assume q: "upcoming src q ([number_token (unat b)] @ zs)" and "zs \<noteq> []"
      then obtain z zt where z: "zs = z # zt"
        by (cases zs) auto
      with q have "cls q = number_token (unat b)"
        by (simp add: upcoming_cls)
      moreover have "stol_auto (bytes_of (ascii (decimal (unat b)))) = Inr (int (unat b))"
        by (rule stol_decimal) (rule unat_byte)
      ultimately show "(\<lambda>(bytes, p). isLiteral (cls p)) (acc, q) \<and> gives src (?body (acc, q)) (acc @ [b]) zs"
        using q z by (auto intro!: gives_step gives_Inr)
    qed (simp_all add: upcoming_cls)
    then show "gives src (bind_result (while_result (\<lambda>(bytes, p). isLiteral (cls p)) ?body ([], p1))
        (\<lambda>(bytes, p). if \<not> is_char CHR '']'' (cls p) then Inl (parse_error ''missing ]'' p)
           else Inr (LByteArray bytes, p))) (LByteArray bs) (delimiter '']'' # ys)"
      by (rule gives_bind) (simp add: foldl_snoc upcoming_cls gives_Inr)
  qed
qed

fun literal_weight :: "literal_value \<Rightarrow> nat" where
  "literal_weight (LArray ls) = Suc (sum_list (map literal_weight ls))"
| "literal_weight _ = 1"

lemma literal_tokens_first:
  assumes "array_literal l"
  shows "\<exists>t ts. literal_tokens l = t # ts \<and> \<not> is_char CHR '')'' t \<and> \<not> isEnd t"
  using assms by (cases l) auto

lemma arrayBody_gives_if:
  assumes "\<And>l q zs. l \<in> set ls \<Longrightarrow> zs \<noteq> [] \<Longrightarrow> upcoming src q (literal_tokens l @ zs) \<Longrightarrow>
      \<exists>t. gives src (arrayElement (arrayBody m) q) l (t # zs)"
    and "\<forall>l\<in>set ls. array_literal l"
    and q: "upcoming src q (t # concat (map literal_tokens ls) @ delimiter '')'' # ys)"
  shows "gives src (arrayBody (Suc m) q) (LArray ls) (delimiter '')'' # ys)"
proof -
  obtain u us where us: "concat (map literal_tokens ls) @ delimiter '')'' # ys = u # us"
    by (rule append_Cons_first)
  let ?body = "\<lambda>(literals, p). bind_result (arrayElement (arrayBody m) p) (\<lambda>(v, p).
      bind_result (step p) (\<lambda>p. Inr (literals @ [v], p)))"
  let ?loop = "while_result (\<lambda>(literals, p). \<not> is_char CHR '')'' (cls p) \<and> \<not> isEnd (cls p)) ?body"
  have "gives src (?loop ([], p1)) (foldl (\<lambda>acc l. acc @ [l]) [] ls) (delimiter '')'' # ys)"
    if p1: "upcoming src p1 (concat (map literal_tokens ls) @ delimiter '')'' # ys)" for p1
  proof (rule gives_while_list [OF _ _ _ p1])
    fix l acc q zs
    assume l: "l \<in> set ls" and q: "upcoming src q (literal_tokens l @ zs)" and zs: "zs \<noteq> []"
    then obtain t where "gives src (arrayElement (arrayBody m) q) l (t # zs)"
      using assms(1) by blast
    then have "gives src (?body (acc, q)) (acc @ [l]) zs"
      using zs by (cases zs) (auto elim!: gives_bind intro!: gives_step gives_Inr)
    moreover have "\<not> is_char CHR '')'' (cls q) \<and> \<not> isEnd (cls q)"
      using literal_tokens_first assms(2) l q upcoming_cls by fastforce
    ultimately show "(\<lambda>(literals, p). \<not> is_char CHR '')'' (cls p) \<and> \<not> isEnd (cls p)) (acc, q) \<and> gives src (?body (acc, q)) (acc @ [l]) zs"
      by simp
  qed (simp_all add: upcoming_cls)
  then show ?thesis
    unfolding arrayBody.simps using us
    by (intro gives_step [OF q [unfolded us]] gives_bind) (auto simp: foldl_snoc upcoming_cls gives_Inr)
qed

lemma array_element_gives:
  "array_literal l \<Longrightarrow> literal_weight l \<le> n \<Longrightarrow> ys \<noteq> [] \<Longrightarrow> upcoming src p (literal_tokens l @ ys) \<Longrightarrow>
   \<exists>t. gives src (arrayElement (arrayBody n) p) l (t # ys)"
proof (induction l arbitrary: n p ys rule: literal_tokens.induct)
  case (1 i)
  then obtain y zs where ys: "ys = y # zs"
    by (cases ys) auto
  show ?case
  proof (cases "i < 0")
    case True
    then have p: "upcoming src p (binary_token (ascii ''-'') # number_token (nat (- i)) # y # zs)"
      using 1 ys by simp
    moreover have "int (nat (- i)) \<le> SMALLINT_MAX"
      using 1 True by (simp add: smi_limits)
    ultimately have "gives src (negativeNumberOrBinary p) (LInteger (- int (nat (- i)))) (number_token (nat (- i)) # ys)"
      unfolding ys by (rule negative_gives)
    then have "gives src (arrayElement (arrayBody n) p) (LInteger i) (number_token (nat (- i)) # ys)"
      unfolding arrayElement_def upcoming_cls [OF p] using True by (auto elim!: gives_bind intro: gives_Inr)
    then show ?thesis ..
  next
    case False
    then have p: "upcoming src p (number_token (nat i) # ys)"
      using 1 by simp
    then have "gives src (arrayElement (arrayBody n) p) (LInteger i) (number_token (nat i) # ys)"
      unfolding arrayElement_def upcoming_cls [OF p] using False 1 parse_decimal [of "nat i"]
      by (simp add: gives_Inr)
    then show ?thesis ..
  qed
next
  case (5 bs)
  then have "upcoming src p (delimiter ''#['' # map (\<lambda>b. number_token (unat b)) bs @ delimiter '']'' # ys)"
    by simp
  then show ?case
    using byteArrayBody_gives [of src p "delimiter ''#[''" bs ys] by (auto simp: arrayElement_def upcoming_cls)
next
  case (6 ls)
  then obtain m where n: "n = Suc m" "sum_list (map literal_weight ls) \<le> m"
    by (cases n) auto
  have "gives src (arrayBody (Suc m) p) (LArray ls) (delimiter '')'' # ys)"
  proof (rule arrayBody_gives_if)
    fix l q zs
    assume l: "l \<in> set ls" and q: "zs \<noteq> []" "upcoming src q (literal_tokens l @ zs)"
    then have "array_literal l" "literal_weight l \<le> m"
      using 6(2) n member_le_sum_list [of "literal_weight l" "map literal_weight ls"] by (auto simp: list_all_iff)
    then show "\<exists>t. gives src (arrayElement (arrayBody m) q) l (t # zs)"
      using 6(1) [OF l _ _ q] by blast
  qed (use 6(2,5) in \<open>auto simp: list_all_iff\<close>)
  then show ?case
    using 6(5) n by (auto simp: arrayElement_def upcoming_cls)
qed (auto simp: arrayElement_def upcoming_cls pseudoLiteralValue_def intro: gives_Inr)

text \<open>Literals as primaries.\<close>

lemma primary_literal:
  assumes "program_literal l" "literal_weight l \<le> length src + 4" "upcoming src p (literal_tokens l @ y # ys)"
  shows "gives src (primary E p) (Some (PLiteral l)) (y # ys)"
proof (cases l)
  case (LInteger i)
  show ?thesis
  proof (cases "i < 0")
    case True
    then have p: "upcoming src p (binary_token (ascii ''-'') # number_token (nat (- i)) # y # ys)"
      using assms LInteger by simp
    moreover have "int (nat (- i)) \<le> SMALLINT_MAX"
      using assms LInteger True by (simp add: smi_limits)
    ultimately have "gives src (negativeNumberOrBinary p) (LInteger (- int (nat (- i)))) (number_token (nat (- i)) # y # ys)"
      by (rule negative_gives)
    then show ?thesis
      unfolding primary_def upcoming_cls [OF p] using True LInteger
      by (auto elim!: gives_bind intro!: gives_step gives_Inr)
  next
    case False
    then have p: "upcoming src p (number_token (nat i) # y # ys)"
      using assms LInteger by simp
    then show ?thesis
      unfolding primary_def upcoming_cls [OF p] using False assms LInteger parse_decimal [of "nat i"]
      by (auto intro!: gives_step gives_Inr)
  qed
next
  case (LArray ls)
  then have p: "upcoming src p (delimiter ''#('' # concat (map literal_tokens ls) @ delimiter '')'' # y # ys)"
    using assms by simp
  have "gives src (arrayBody (Suc (length src + 3)) p) (LArray ls) (delimiter '')'' # y # ys)"
  proof (rule arrayBody_gives_if [OF _ _ p])
    fix l q zs
    assume l: "l \<in> set ls" and q: "zs \<noteq> []" "upcoming src q (literal_tokens l @ zs)"
    then have "array_literal l" "literal_weight l \<le> length src + 3"
      using assms LArray member_le_sum_list [of "literal_weight l" "map literal_weight ls"] by (auto simp: list_all_iff)
    then show "\<exists>t. gives src (arrayElement (arrayBody (length src + 3)) q) l (t # zs)"
      using array_element_gives q by blast
  qed (use assms LArray in \<open>auto simp: list_all_iff\<close>)
  then have "gives src (arrayBody (Suc (parse_fuel p)) p) (LArray ls) (delimiter '')'' # y # ys)"
    using upcoming_fuel [OF p] by simp
  then have "gives src (literalArray p) (PLiteral l) (y # ys)"
    unfolding literalArray_def LArray by (auto elim!: gives_bind intro!: gives_step gives_Inr)
  then show ?thesis
    unfolding primary_def upcoming_cls [OF p] found_def by (auto elim!: gives_bind intro!: gives_Inr)
next
  case (LByteArray bs)
  then have p: "upcoming src p (delimiter ''#['' # map (\<lambda>b. number_token (unat b)) bs @ delimiter '']'' # y # ys)"
    using assms by simp
  then have "gives src (literalByteArray p) (PLiteral l) (y # ys)"
    unfolding literalByteArray_def LByteArray
    by (intro gives_bind [OF byteArrayBody_gives]) (auto intro!: gives_step gives_Inr)
  then show ?thesis
    unfolding primary_def upcoming_cls [OF p] found_def by (auto elim!: gives_bind intro!: gives_Inr)
qed (use assms in \<open>auto simp: primary_def upcoming_cls intro!: gives_step gives_Inr\<close>)

end
