(* ===== verification/ParserRoundTrip.thy ===== *)
theory ParserRoundTrip
  imports ParserLiterals
begin

text \<open>
  Parsing inverts printing.  A printer writes parse nodes as tokens with the least parentheses that the
  precedence of unary, binary and keyword messages allows; the parser reads the text of these tokens
  back to the same nodes.
\<close>

section \<open>Printing\<close>

text \<open>How tightly a node binds: primaries 0, unary messages 1, binary messages 2, the others 3.\<close>

definition message_level :: "egg_string \<Rightarrow> 'a list \<Rightarrow> nat" where
  "message_level s as = (if as = [] then 1 else if binary_selector s then 2 else 3)"

fun level :: "parse_node \<Rightarrow> nat" where
  "level (PMessage r s as) = message_level s as"
| "level (PCascade r ms) = 3"
| "level (PAssignment v e) = 3"
| "level (PReturn e) = 3"
| "level _ = 0"

definition paren :: "nat \<Rightarrow> nat \<Rightarrow> token_class list \<Rightarrow> token_class list" where
  "paren k l ts = (if l \<le> k then ts else delimiter ''('' # ts @ [delimiter '')''])"

function keyword_parts :: "egg_string \<Rightarrow> egg_string list" where
  "keyword_parts v =
     (if v = [] then []
      else (let w = takeWhile (\<lambda>c. c \<noteq> chr CHR '':'') v
            in (w @ take 1 (drop (length w) v)) # keyword_parts (drop (length w + 1) v)))"
  by pat_completeness auto
termination by (relation "measure length") auto

declare keyword_parts.simps [simp del]

text \<open>\<open>f k a\<close> writes the argument \<open>a\<close> so that it binds at least as tightly as \<open>k\<close>.\<close>

definition message_tokens :: "(nat \<Rightarrow> 'a \<Rightarrow> token_class list) \<Rightarrow> egg_string \<Rightarrow> 'a list \<Rightarrow> token_class list" where
  "message_tokens f s as =
     (if as = [] then [name_token s]
      else if binary_selector s then binary_token s # concat (map (f 1) as)
      else concat (map (\<lambda>(k, a). name_token k # f 2 a) (zip (keyword_parts s) as)))"

lemma message_tokens_cong [fundef_cong]:
  "s = s' \<Longrightarrow> as = as' \<Longrightarrow> (\<And>k a. a \<in> set as' \<Longrightarrow> f k a = g k a) \<Longrightarrow> message_tokens f s as = message_tokens g s' as'"
  by (auto simp: message_tokens_def intro!: arg_cong [where f = concat]) (metis set_zip_rightD)

definition separated :: "token_class list list \<Rightarrow> token_class list" where
  "separated xs = tl (concat (map (\<lambda>x. delimiter ''.'' # x) xs))"

definition temporaries_tokens :: "egg_string list \<Rightarrow> token_class list" where
  "temporaries_tokens temps =
     (if temps = [] then [] else binary_token (ascii ''|'') # map name_token temps @ [binary_token (ascii ''|'')])"

definition arguments_tokens :: "egg_string list \<Rightarrow> token_class list" where
  "arguments_tokens args =
     (if args = [] then []
      else concat (map (\<lambda>a. [delimiter '':'', name_token a]) args) @ [binary_token (ascii ''|'')])"

fun node_tokens :: "parse_node \<Rightarrow> token_class list" where
  "node_tokens (PIdentifier v) = [name_token v]"
| "node_tokens (PLiteral l) = literal_tokens l"
| "node_tokens (PMessage r s as) =
     paren (min 2 (message_level s as)) (level r) (node_tokens r)
     @ message_tokens (\<lambda>k a. paren k (level a) (node_tokens a)) s as"
| "node_tokens (PCascade r ms) =
     paren (case ms of [] \<Rightarrow> 0 | (s, as) # _ \<Rightarrow> min 2 (message_level s as)) (level r) (node_tokens r)
     @ tl (concat (map (\<lambda>(s, as). delimiter '';'' # message_tokens (\<lambda>k a. paren k (level a) (node_tokens a)) s as) ms))"
| "node_tokens (PAssignment v e) = name_token v # delimiter '':='' # node_tokens e"
| "node_tokens (PReturn e) = delimiter ''^'' # node_tokens e"
| "node_tokens (PBlock args temps stmts) =
     delimiter ''['' # arguments_tokens args @ temporaries_tokens temps @ separated (map node_tokens stmts)
     @ [delimiter '']'']"
| "node_tokens (PBrace es) = delimiter ''{'' # separated (map node_tokens es) @ [delimiter ''}'']"

section \<open>Programs that can be written\<close>

definition message_ok :: "egg_string \<Rightarrow> 'a list \<Rightarrow> bool" where
  "message_ok s as \<longleftrightarrow>
     (if as = [] then identifier_name s
      else if binary_selector s then length as = 1
      else length (keyword_parts s) = length as \<and> list_all keyword_part (keyword_parts s))"

fun is_return :: "parse_node \<Rightarrow> bool" where
  "is_return (PReturn e) = True"
| "is_return _ = False"

text \<open>Returns end their statements.  A body without temporaries must not begin with a literal that the
  parser takes for a bar.\<close>

definition statements_ok :: "parse_node list \<Rightarrow> bool" where
  "statements_ok stmts \<longleftrightarrow> list_all (\<lambda>s. \<not> is_return s) (butlast stmts)"

fun program_node :: "parse_node \<Rightarrow> bool" where
  "program_node (PIdentifier v) = identifier_name v"
| "program_node (PLiteral l) = program_literal l"
| "program_node (PMessage r s as) =
     (program_node r \<and> \<not> is_return r \<and> message_ok s as \<and> list_all (\<lambda>a. program_node a \<and> \<not> is_return a) as)"
| "program_node (PCascade r ms) =
     (program_node r \<and> \<not> is_return r \<and> 2 \<le> length ms
      \<and> list_all (\<lambda>(s, as). message_ok s as \<and> list_all (\<lambda>a. program_node a \<and> \<not> is_return a) as) ms)"
| "program_node (PAssignment v e) = (identifier_name v \<and> program_node e \<and> \<not> is_return e)"
| "program_node (PReturn e) = (program_node e \<and> \<not> is_return e)"
| "program_node (PBlock args temps stmts) =
     (list_all identifier_name args \<and> list_all identifier_name temps \<and> statements_ok stmts
      \<and> list_all program_node stmts
      \<and> (temps = [] \<and> stmts \<noteq> [] \<longrightarrow> \<not> isBar (hd (node_tokens (hd stmts)))))"
| "program_node (PBrace es) = list_all (\<lambda>e. program_node e \<and> \<not> is_return e) es"

fun node_weight :: "parse_node \<Rightarrow> nat" where
  "node_weight (PIdentifier v) = 1"
| "node_weight (PLiteral l) = literal_weight l"
| "node_weight (PMessage r s as) = Suc (node_weight r + sum_list (map node_weight as))"
| "node_weight (PCascade r ms) =
     Suc (node_weight r + sum_list (map (\<lambda>(s, as). Suc (sum_list (map node_weight as))) ms))"
| "node_weight (PAssignment v e) = Suc (node_weight e)"
| "node_weight (PReturn e) = Suc (node_weight e)"
| "node_weight (PBlock args temps stmts) = Suc (sum_list (map node_weight stmts))"
| "node_weight (PBrace es) = Suc (sum_list (map node_weight es))"

lemma literal_weight_pos: "0 < literal_weight l"
  by (cases l) auto

lemma node_weight_pos: "0 < node_weight e"
  by (cases e) (auto simp: literal_weight_pos)

section \<open>The tokens the parser decides by\<close>

definition terminator :: "token_class \<Rightarrow> bool" where
  "terminator t \<longleftrightarrow> t \<in> {EndToken, delimiter '']'', delimiter '')'', delimiter ''}'', delimiter ''.''}"

definition stops :: "token_class \<Rightarrow> bool" where
  "stops t \<longleftrightarrow> terminator t \<or> t = delimiter '';''"

lemma identifier_name_chars: "identifier_name v \<Longrightarrow> \<not> canBeInIdentifier c \<Longrightarrow> c \<notin> set v"
  by (auto simp: identifier_name_def list_all_iff)

lemma punctuation_chars:
  "\<not> canBeInIdentifier (chr CHR '':'')" "\<not> canBeInIdentifier (chr CHR '']'')" "\<not> canBeInIdentifier (chr CHR '')'')"
  "\<not> canBeInIdentifier (chr CHR ''}'')" "\<not> canBeInIdentifier (chr CHR ''.'')" "\<not> canBeInIdentifier (chr CHR '';'')"
  "\<not> canBeInIdentifier (chr CHR ''|'')" "\<not> canBeInIdentifier (chr CHR ''^'')" "\<not> canBeInIdentifier (chr CHR ''['')"
  "\<not> canBeInIdentifier (chr CHR ''('')" "\<not> canBeInIdentifier (chr CHR ''{'')" "\<not> canBeInIdentifier (chr CHR ''='')"
  "\<not> canBeInIdentifier (chr CHR ''<'')" "\<not> canBeInIdentifier (chr CHR ''>'')"
  by (simp_all add: class_defs)

lemmas punctuation [simp] = punctuation_chars punctuation_chars [simplified]

lemma name_token_class:
  assumes "identifier_name v"
  shows "isName (name_token v)" "\<not> isKeyword (name_token v)" "\<not> isBar (name_token v)"
    "\<not> isAssignment (name_token v)" "\<not> is_string ''||'' (name_token v)"
    "\<not> canBeInIdentifier (chr c) \<Longrightarrow> \<not> is_char c (name_token v)"
proof -
  have "v \<noteq> []" "last v \<in> set v"
    using assms by (auto simp: identifier_name_def)
  moreover have "chr CHR '':'' \<notin> set v" "chr CHR ''|'' \<notin> set v"
    by (rule identifier_name_chars [OF assms punctuation_chars(1)], rule identifier_name_chars [OF assms punctuation_chars(7)])
  moreover have "last v \<noteq> chr CHR '':''"
    using calculation by (metis (no_types))
  ultimately show "isName (name_token v)" "\<not> isKeyword (name_token v)" "\<not> isBar (name_token v)"
    "\<not> isAssignment (name_token v)" "\<not> is_string ''||'' (name_token v)"
    by auto
  show "\<not> canBeInIdentifier (chr c) \<Longrightarrow> \<not> is_char c (name_token v)"
    using identifier_name_chars [OF assms, of "chr c"] by auto
qed

lemma keyword_token_class:
  assumes "keyword_part v"
  shows "isKeyword (name_token v)" "\<not> isName (name_token v)" "\<not> isAssignment (name_token v)"
    "c \<noteq> CHR '':'' \<Longrightarrow> \<not> is_char c (name_token v)" "\<not> is_char CHR '':'' (name_token v)"
proof -
  have v: "v = butlast v @ [chr CHR '':'']" "butlast v \<noteq> []" "identifier_name (butlast v)"
    using assms append_butlast_last_id [of v] by (auto simp: keyword_part_def identifier_name_def)
  then show "isKeyword (name_token v)" "\<not> isName (name_token v)"
    using assms by (simp_all add: keyword_part_def)
  have "v \<noteq> [d]" for d
    using v(1,2) by (cases v) auto
  then show "c \<noteq> CHR '':'' \<Longrightarrow> \<not> is_char c (name_token v)" "\<not> is_char CHR '':'' (name_token v)"
    by auto
  have "last v = chr CHR '':''"
    using assms by (simp add: keyword_part_def)
  then show "\<not> isAssignment (name_token v)"
    by auto
qed

lemma binary_token_class:
  assumes "binary_selector v"
  shows "hasSymbol (binary_token v)" "\<not> isName (binary_token v)" "\<not> isAssignment (binary_token v)"
    "\<not> isKeyword (binary_token v)"
  using assms by (auto simp: binary_selector_def)

lemma stops_class:
  assumes "stops t"
  shows "\<not> isName t" "\<not> hasSymbol t" "\<not> isKeyword t" "\<not> is_char CHR ''^'' t" "\<not> is_char CHR '':'' t"
    "\<not> isAssignment t"
  using assms by (auto simp: stops_def terminator_def)

lemma terminator_class:
  assumes "terminator t"
  shows "stops t" "endsExpression t" "\<not> is_char CHR '';'' t"
  using assms by (auto simp: stops_def terminator_def endsExpression_def)

section \<open>First tokens\<close>

definition first_ok :: "token_class \<Rightarrow> bool" where
  "first_ok t \<longleftrightarrow> \<not> endsExpression t \<and> \<not> is_char CHR '':'' t \<and> \<not> is_char CHR ''<'' t \<and> \<not> is_string ''||'' t"

lemma literal_first:
  assumes "program_literal l"
  shows "\<exists>t ts. literal_tokens l = t # ts \<and> first_ok t \<and> \<not> is_char CHR ''^'' t \<and> \<not> isName t"
  using assms
  by (cases l) (auto simp: first_ok_def endsExpression_def number_token_def)

lemma name_first: "identifier_name v \<Longrightarrow> first_ok (name_token v) \<and> \<not> is_char CHR ''^'' (name_token v)"
  using name_token_class [of v] by (auto simp: first_ok_def endsExpression_def simp del: is_char.simps)

lemma paren_first:
  assumes "\<exists>t ts. xs = t # ts \<and> first_ok t \<and> \<not> is_char CHR ''^'' t"
  shows "\<exists>t ts. paren k l xs = t # ts \<and> first_ok t \<and> \<not> is_char CHR ''^'' t"
  using assms by (auto simp: paren_def first_ok_def endsExpression_def)

lemma node_first:
  "program_node e \<Longrightarrow> \<exists>t ts. node_tokens e = t # ts \<and> first_ok t \<and> (\<not> is_return e \<longrightarrow> \<not> is_char CHR ''^'' t)"
proof (induction e)
  case (PIdentifier v)
  then show ?case
    using name_first by simp
next
  case (PLiteral l)
  then show ?case
    using literal_first [of l] by auto
next
  case (PMessage r s as)
  then have "\<exists>t ts. node_tokens r = t # ts \<and> first_ok t \<and> \<not> is_char CHR ''^'' t"
    by simp
  from paren_first [OF this, of "min 2 (message_level s as)" "level r"] show ?case
    by auto
next
  case (PCascade r ms)
  then have "\<exists>t ts. node_tokens r = t # ts \<and> first_ok t \<and> \<not> is_char CHR ''^'' t"
    by simp
  from paren_first [OF this, of "case ms of [] \<Rightarrow> 0 | (s, as) # _ \<Rightarrow> min 2 (message_level s as)" "level r"] show ?case
    by auto
next
  case (PAssignment v e)
  then show ?case
    using name_first by simp
qed (auto simp: first_ok_def endsExpression_def)

text \<open>Only an assignment has an assignment token after a leading name.\<close>

definition no_assignment :: "token_class list \<Rightarrow> bool" where
  "no_assignment ts \<longleftrightarrow> (\<exists>t us. ts = t # us \<and> (isName t \<longrightarrow> us = [] \<or> \<not> isAssignment (hd us)))"

lemma keyword_parts_nonempty: "list_all keyword_part (keyword_parts s) \<Longrightarrow> keyword_parts s \<noteq> [] \<Longrightarrow> keyword_part (hd (keyword_parts s))"
  by (cases "keyword_parts s") auto

lemma message_tokens_first:
  assumes "message_ok s as"
  shows "\<exists>t ts. message_tokens f s as = t # ts \<and> \<not> isAssignment t"
proof -
  consider "as = []" | "as \<noteq> []" "binary_selector s"
    | a as' where "as = a # as'" "\<not> binary_selector s" by (cases as) auto
  then show ?thesis
  proof cases
    case 3
    with assms obtain k ks where "keyword_parts s = k # ks" "keyword_part k"
      by (cases "keyword_parts s") (auto simp: message_ok_def)
    with 3 keyword_token_class(3) show ?thesis
      by (simp add: message_tokens_def)
  qed (use assms name_token_class(4) binary_token_class(3) in \<open>auto simp: message_tokens_def message_ok_def\<close>)
qed

lemma paren_no_assignment:
  assumes "l \<le> k \<Longrightarrow> no_assignment xs" "\<exists>t us. ys = t # us \<and> \<not> isAssignment t"
  shows "no_assignment (paren k l xs @ ys)"
proof (cases "l \<le> k")
  case True
  from assms(1) [OF True] obtain t us where "xs = t # us" "isName t \<longrightarrow> us = [] \<or> \<not> isAssignment (hd us)"
    by (auto simp: no_assignment_def)
  with assms(2) True show ?thesis
    by (cases us) (auto simp: no_assignment_def paren_def)
qed (simp add: no_assignment_def paren_def)

lemma node_no_assignment:
  "program_node e \<Longrightarrow> level e < 3 \<or> (\<exists>r ms. e = PCascade r ms) \<or> (\<exists>r s as. e = PMessage r s as) \<Longrightarrow> no_assignment (node_tokens e)"
proof (induction e)
  case (PLiteral l)
  then show ?case
    using literal_first [of l] by (auto simp: no_assignment_def)
next
  case (PMessage r s as)
  then have "level r \<le> min 2 (message_level s as) \<Longrightarrow> no_assignment (node_tokens r)"
    by auto
  with PMessage.prems message_tokens_first [of s as] show ?case
    by (auto intro!: paren_no_assignment)
next
  case (PCascade r ms)
  then obtain s as ms' where ms: "ms = (s, as) # ms'" "message_ok s as"
    by (cases ms) auto
  have "level r \<le> min 2 (message_level s as) \<Longrightarrow> no_assignment (node_tokens r)"
    using PCascade by auto
  moreover have "\<exists>t us. message_tokens f s as @ xs = t # us \<and> \<not> isAssignment t" for f :: "nat \<Rightarrow> parse_node \<Rightarrow> token_class list" and xs
    using message_tokens_first [OF ms(2), of f] by auto
  ultimately show ?case
    by (auto simp: ms intro!: paren_no_assignment)
qed (auto simp: no_assignment_def)

section \<open>Sequences of messages, unrolled\<close>

lemma unarySequence_stop: "\<not> isName (cls p) \<Longrightarrow> unarySequence e p = Inr (e, p)"
  unfolding unarySequence_def by (subst while_result_unfold) (simp add: hasUnarySelector_def)

lemma unarySequence_step:
  assumes "upcoming src p (name_token s # u # ts)" "isName (name_token s)"
  shows "\<exists>p'. unarySequence e p = unarySequence (PMessage e s []) p' \<and> upcoming src p' (u # ts)"
proof -
  obtain p' where p': "step p = Inr p'" "upcoming src p' (u # ts)"
    using step_upcoming [OF assms(1)] by blast
  have "unarySequence e p = unarySequence (PMessage e s []) p'"
    unfolding unarySequence_def using assms(2) p'(1)
    by (subst while_result_unfold)
      (simp add: upcoming_cls [OF assms(1)] hasUnarySelector_def send_to_def unaryMessage_def)
  with p' show ?thesis by blast
qed

lemma binarySequence_stop: "\<not> hasBinarySelector p \<Longrightarrow> binarySequence E e p = Inr (e, p)"
  unfolding binarySequence_def by (subst while_result_unfold) simp

lemma binarySequence_step:
  assumes "hasBinarySelector p" "gives src (binaryMessage E p) (s, as) ts"
  shows "\<exists>p'. binarySequence E e p = binarySequence E (PMessage e s as) p' \<and> upcoming src p' ts"
proof -
  obtain p' where p': "binaryMessage E p = Inr ((s, as), p')" "upcoming src p' ts"
    using assms(2) by (auto simp: gives_def)
  have "binarySequence E e p = binarySequence E (PMessage e s as) p'"
    unfolding binarySequence_def using assms(1) p'(1)
    by (subst while_result_unfold) (simp add: send_to_def)
  with p' show ?thesis by blast
qed

lemma stops_no_binary: "stops t \<Longrightarrow> upcoming src p (t # ts) \<Longrightarrow> \<not> hasBinarySelector p"
  using stops_class by (auto simp: hasBinarySelector_def upcoming_cls)

lemma keyword_no_binary: "keyword_part v \<Longrightarrow> upcoming src p (name_token v # ts) \<Longrightarrow> \<not> hasBinarySelector p"
  using keyword_token_class(4) [of v "CHR ''^''"] keyword_token_class(5) [of v]
  by (simp add: hasBinarySelector_def upcoming_cls del: is_char.simps)

section \<open>Parsing nodes of bounded weight\<close>

text \<open>The parser of expressions with fuel \<open>n\<close> reads every printed expression of weight at most \<open>n\<close>.\<close>

definition reads :: "egg_string \<Rightarrow> nat \<Rightarrow> bool" where
  "reads src n \<longleftrightarrow> n \<le> length src + 3 \<and>
     (\<forall>e p t ys. program_node e \<longrightarrow> \<not> is_return e \<longrightarrow> node_weight e \<le> n \<longrightarrow> terminator t \<longrightarrow>
        upcoming src p (node_tokens e @ t # ys) \<longrightarrow> gives src (expression n p) e (t # ys))"

lemma readsD:
  "reads src n \<Longrightarrow> program_node e \<Longrightarrow> \<not> is_return e \<Longrightarrow> node_weight e \<le> n \<Longrightarrow> terminator t \<Longrightarrow>
   upcoming src p (node_tokens e @ t # ys) \<Longrightarrow> gives src (expression n p) e (t # ys)"
  by (simp add: reads_def)

text \<open>Statements.\<close>

lemma skipDots_gives:
  assumes "upcoming src p (delimiter ''.'' # t # ts)" "\<not> is_char CHR ''.'' t"
  shows "\<exists>p'. skipDots p = Inr p' \<and> upcoming src p' (t # ts)"
proof -
  obtain p' where p': "step p = Inr p'" "upcoming src p' (t # ts)"
    using step_upcoming [OF assms(1)] by blast
  have "skipDots p = skipDots p'"
    unfolding skipDots_def using p' by (subst while_result_unfold) (simp add: upcoming_cls [OF assms(1)])
  also have "\<dots> = Inr p'"
    unfolding skipDots_def using assms(2) by (subst while_result_unfold) (simp add: upcoming_cls [OF p'(2)])
  finally show ?thesis
    using p' by blast
qed

lemma skipDots_none: "\<not> is_char CHR ''.'' (cls p) \<Longrightarrow> skipDots p = Inr p"
  unfolding skipDots_def by (subst while_result_unfold) simp

lemma statement_gives:
  assumes "reads src n" "program_node s" "node_weight s \<le> n" "terminator t" "upcoming src p (node_tokens s @ t # ys)"
    "is_return s \<longrightarrow> \<not> is_char CHR ''.'' t"
  shows "gives src (statement (expression n) p) s (t # ys)"
proof (cases "is_return s")
  case True
  then obtain e where e: "s = PReturn e"
    by (cases s) auto
  with assms have p: "upcoming src p (delimiter ''^'' # node_tokens e @ t # ys)"
    by simp
  obtain u us where us: "node_tokens e @ t # ys = u # us"
    by (rule append_Cons_first)
  have "gives src (bind_result (expression n q) (\<lambda>(expr, p). bind_result (skipDots p) (\<lambda>p. Inr (PReturn expr, p))))
      (PReturn e) (t # ys)" if "upcoming src q (u # us)" for q
  proof (rule gives_bind)
    show "gives src (expression n q) e (t # ys)"
      using that assms e us by (intro readsD [OF assms(1)]) auto
  qed (use assms(6) True in \<open>auto simp: upcoming_cls skipDots_none gives_Inr\<close>)
  then show ?thesis
    unfolding e statement_def return_statement_def upcoming_cls [OF p] using p us by (auto intro!: gives_step)
next
  case False
  obtain u us where u: "node_tokens s = u # us" "\<not> is_char CHR ''^'' u"
    using node_first [OF assms(2)] False by blast
  then have "cls p = u"
    using assms(5) by (auto intro: upcoming_cls)
  with u False assms show ?thesis
    by (auto simp: statement_def intro: readsD)
qed

lemma separated_Cons: "separated (x # xs) = x @ concat (map (\<lambda>x. delimiter ''.'' # x) xs)"
  by (simp add: separated_def)

lemma dots_separated:
  "xs \<noteq> [] \<Longrightarrow> concat (map (\<lambda>x. delimiter ''.'' # x) xs) = delimiter ''.'' # separated xs"
  by (cases xs) (simp_all add: separated_def)

lemma statements_gives:
  assumes "reads src n" "list_all program_node stmts" "statements_ok stmts" "\<forall>s\<in>set stmts. node_weight s \<le> n"
    "terminator t" "\<not> is_char CHR ''.'' t" "upcoming src p (separated (map node_tokens stmts) @ t # ys)"
  shows "gives src (statements (expression n) p) stmts (t # ys)"
proof -
  let ?b = "\<lambda>((go, stmts :: parse_node list), p). go \<and> \<not> endsExpression (cls p)"
  let ?c = "\<lambda>((go, stmts), p). bind_result (statement (expression n) p) (\<lambda>(stmt, p).
      if is_char CHR ''.'' (cls p) then bind_result (skipDots p) (\<lambda>p. Inr ((True, stmts @ [stmt]), p))
      else Inr ((False, stmts @ [stmt]), p))"
  have "\<exists>go. gives src (while_result ?b ?c ((True, acc), p)) (go, acc @ stmts) (t # ys)" for acc
    using assms(2-4,7)
  proof (induction stmts arbitrary: acc p)
    case Nil
    then have "upcoming src p (t # ys)"
      by (simp add: separated_def)
    then have "gives src (while_result ?b ?c ((True, acc), p)) (True, acc @ []) (t # ys)"
      using terminator_class(2) [OF assms(5)] by (auto intro!: gives_while_end simp: upcoming_cls)
    then show ?case ..
  next
    case (Cons s stmts)
    obtain u us where first: "node_tokens s = u # us" "first_ok u"
      using node_first Cons.prems(1) by fastforce
    have loop: "?b ((True, acc), p)"
      using Cons.prems(4) first upcoming_cls by (fastforce simp: separated_Cons first_ok_def)
    show ?case
    proof (cases "stmts = []")
      case True
      then have "gives src (statement (expression n) p) s (t # ys)"
        using Cons.prems assms(1,5,6) by (intro statement_gives) (simp_all add: separated_Cons)
      then have "gives src (?c ((True, acc), p)) (False, acc @ [s]) (t # ys)"
        using assms(6) by (auto elim!: gives_bind simp: upcoming_cls gives_Inr)
      then have "gives src (while_result ?b ?c ((True, acc), p)) (False, acc @ [s]) (t # ys)"
        using loop by (rule_tac gives_while) (auto intro: gives_while_end)
      with True show ?thesis
        by auto
    next
      case False
      let ?rest = "separated (map node_tokens stmts) @ t # ys"
      obtain s' stmts' where stmts: "stmts = s' # stmts'"
        using False by (cases stmts) auto
      obtain v vs where v: "node_tokens s' = v # vs" "first_ok v"
        using node_first Cons.prems(1) stmts by fastforce
      have "gives src (statement (expression n) p) s (delimiter ''.'' # ?rest)"
      proof (rule statement_gives [OF assms(1)])
        have "separated (map node_tokens (s # stmts)) = node_tokens s @ delimiter ''.'' # separated (map node_tokens stmts)"
          unfolding list.map separated_Cons using False by (subst dots_separated) simp_all
        with Cons.prems(4) show "upcoming src p (node_tokens s @ delimiter ''.'' # ?rest)"
          by simp
        show "is_return s \<longrightarrow> \<not> is_char CHR ''.'' (delimiter ''.'')"
          using Cons.prems(2) False by (simp add: statements_ok_def)
      qed (use Cons.prems in \<open>simp_all add: terminator_def\<close>)
      moreover have "\<exists>q'. skipDots q = Inr q' \<and> upcoming src q' ?rest" if "upcoming src q (delimiter ''.'' # ?rest)" for q
        using skipDots_gives [of src q v] that v by (auto simp: stmts separated_Cons first_ok_def endsExpression_def)
      ultimately have "gives src (?c ((True, acc), p)) (True, acc @ [s]) ?rest"
        by (fastforce elim!: gives_bind simp: upcoming_cls gives_Inr)
      moreover have "\<exists>go. gives src (while_result ?b ?c ((True, acc @ [s]), q)) (go, (acc @ [s]) @ stmts) (t # ys)"
        if "upcoming src q ?rest" for q
        using Cons.prems that False by (intro Cons.IH) (simp_all add: statements_ok_def)
      moreover have "while_result ?b ?c ((True, acc), p) = bind_result (?c ((True, acc), p)) (while_result ?b ?c)"
        using loop by (subst while_result_unfold) simp
      ultimately show ?thesis
        by (auto simp: gives_def)
    qed
  qed
  from this [of "[]"] obtain go where "gives src (while_result ?b ?c ((True, []), p)) (go, stmts) (t # ys)"
    by auto
  then show ?thesis
    unfolding statements_def by (rule gives_bind) (simp add: gives_Inr)
qed

section \<open>Primaries\<close>

lemma names_gives:
  assumes "list_all identifier_name xs" "upcoming src p (map name_token xs @ t # ys)" "\<not> isName t"
  shows "gives src (while_result (\<lambda>(xs, p). isName (cls p)) (\<lambda>(xs, p). bind_result (step p) (\<lambda>p'. Inr (xs @ [val p], p')))
      (acc, p)) (acc @ xs) (t # ys)"
proof -
  have "gives src (while_result (\<lambda>(xs, p). isName (cls p)) (\<lambda>(xs, p). bind_result (step p) (\<lambda>p'. Inr (xs @ [val p], p')))
      (acc, p)) (foldl (\<lambda>acc x. acc @ [x]) acc xs) (t # ys)"
  proof (rule gives_while_list [where tk = "\<lambda>x. [name_token x]"])
    fix x acc q and zs :: "token_class list"
    assume "x \<in> set xs" and q: "upcoming src q ([name_token x] @ zs)" and "zs \<noteq> []"
    then obtain z zt where "zs = z # zt" "identifier_name x"
      using assms(1) by (cases zs) (auto simp: list_all_iff)
    with q name_token_class(1) [of x] show "(\<lambda>(xs, p). isName (cls p)) (acc, q) \<and>
        gives src ((\<lambda>(xs, p). bind_result (step p) (\<lambda>p'. Inr (xs @ [val p], p'))) (acc, q)) (acc @ [x]) zs"
      by (auto intro!: gives_step gives_Inr simp: upcoming_cls simp del: isName.simps isKeyword.simps)
  next
    show "upcoming src p (concat (map (\<lambda>x. [name_token x]) xs) @ t # ys)"
      using assms(2) by (simp add: concat_map_singleton)
  qed (use assms(3) in \<open>auto simp: upcoming_cls\<close>)
  then show ?thesis
    by (simp add: foldl_snoc)
qed

lemma temporaries_gives:
  assumes "list_all identifier_name temps" "upcoming src p (temporaries_tokens temps @ t # ys)"
    "temps = [] \<longrightarrow> \<not> isBar t" "\<not> is_string ''||'' t"
  shows "gives src (temporaries p) temps (t # ys)"
proof (cases "temps = []")
  case True
  then show ?thesis
    using assms by (auto simp: temporaries_def temporaries_tokens_def upcoming_cls gives_Inr)
next
  case False
  let ?bar = "binary_token (ascii ''|'')"
  have p: "upcoming src p (?bar # map name_token temps @ ?bar # t # ys)"
    using assms(2) False by (simp add: temporaries_tokens_def)
  obtain u us where us: "map name_token temps @ ?bar # t # ys = u # us"
    by (rule append_Cons_first)
  have "gives src (bind_result
      (while_result (\<lambda>(temps, p). isName (cls p)) (\<lambda>(temps, p). bind_result (step p) (\<lambda>p'. Inr (temps @ [val p], p'))) ([], q))
      (\<lambda>(temps, p). if \<not> isBar (cls p) then Inl (parse_error ''missing |'' p)
         else bind_result (step p) (\<lambda>p. Inr (temps, p)))) temps (t # ys)" if "upcoming src q (u # us)" for q
    using that us
    by (intro gives_bind [OF names_gives [OF assms(1), of _ _ ?bar]]) (auto intro!: gives_step gives_Inr simp: upcoming_cls)
  then show ?thesis
    unfolding temporaries_def upcoming_cls [OF p] using p us by (auto intro!: gives_step)
qed

lemma blockArguments_gives:
  assumes "list_all identifier_name args" "upcoming src p (arguments_tokens args @ t # ys)" "\<not> is_char CHR '':'' t"
  shows "gives src (blockArguments p) args (t # ys)"
proof (cases "args = []")
  case True
  then show ?thesis
    using assms by (auto simp: blockArguments_def arguments_tokens_def upcoming_cls gives_Inr)
next
  case False
  let ?bar = "binary_token (ascii ''|'')"
  let ?b = "\<lambda>(args :: egg_string list, p). is_char CHR '':'' (cls p)"
  let ?c = "\<lambda>(args, p). bind_result (step p) (\<lambda>p.
      if \<not> isName (cls p) then Inl (parse_error ''argument missing'' p)
      else bind_result (step p) (\<lambda>p'. Inr (args @ [val p], p')))"
  have p: "upcoming src p (concat (map (\<lambda>a. [delimiter '':'', name_token a]) args) @ ?bar # t # ys)"
    using assms(2) False by (simp add: arguments_tokens_def)
  have loop: "gives src (while_result ?b ?c ([], p)) (foldl (\<lambda>acc x. acc @ [x]) [] args) (?bar # t # ys)"
  proof (rule gives_while_list [OF _ _ _ p])
    fix x acc q and zs :: "token_class list"
    assume "x \<in> set args" and q: "upcoming src q ([delimiter '':'', name_token x] @ zs)" and "zs \<noteq> []"
    then obtain z zt where "zs = z # zt" "identifier_name x"
      using assms(1) by (cases zs) (auto simp: list_all_iff)
    with q name_token_class(1) [of x] show "?b (acc, q) \<and> gives src (?c (acc, q)) (acc @ [x]) zs"
      by (auto intro!: gives_step gives_Inr simp: upcoming_cls simp del: isName.simps isKeyword.simps)
  qed (simp_all add: upcoming_cls)
  obtain a as where "args = a # as"
    using False by (cases args) auto
  with p have "is_char CHR '':'' (cls p)"
    by (simp add: upcoming_cls)
  then show ?thesis
    unfolding blockArguments_def using loop
    by (auto elim!: gives_bind intro!: gives_step gives_Inr simp: upcoming_cls foldl_snoc)
qed

lemma block_gives:
  assumes "reads src n" "program_node (PBlock args temps stmts)" "node_weight (PBlock args temps stmts) \<le> Suc n"
    "upcoming src p (node_tokens (PBlock args temps stmts) @ t # ys)"
  shows "gives src (block (expression n) p) (PBlock args temps stmts) (t # ys)"
proof -
  let ?close = "delimiter '']'' # t # ys"
  let ?body = "separated (map node_tokens stmts) @ ?close"
  have first: "\<exists>u us. ?body = u # us \<and> \<not> is_char CHR '':'' u \<and> (temps = [] \<longrightarrow> \<not> isBar u) \<and> \<not> is_string ''||'' u"
  proof (cases stmts)
    case (Cons s ss)
    then obtain u us where "node_tokens s = u # us" "first_ok u"
      using node_first [of s] assms(2) by auto
    with Cons assms(2) show ?thesis
      by (auto simp: separated_Cons first_ok_def)
  qed (simp add: separated_def)
  then obtain u us where u: "?body = u # us" "\<not> is_char CHR '':'' u" "temps = [] \<longrightarrow> \<not> isBar u" "\<not> is_string ''||'' u"
    by blast
  obtain v vs where v: "temporaries_tokens temps @ u # us = v # vs" "\<not> is_char CHR '':'' v"
    using u(2) by (cases "temps = []") (auto simp: temporaries_tokens_def)
  obtain w ws where w: "arguments_tokens args @ v # vs = w # ws"
    by (rule append_Cons_first)
  have weights: "\<forall>s\<in>set stmts. node_weight s \<le> n"
    using assms(3) member_le_sum_list [of _ "map node_weight stmts"] by fastforce
  have p: "upcoming src p (delimiter ''['' # w # ws)"
    using assms(4) by (simp only: node_tokens.simps append_assoc append.simps u(1) v(1) w)
  show ?thesis
    unfolding block_def
  proof (rule gives_step [OF p], rule gives_bind, unfold prod.case, rule blockArguments_gives [OF _ _ v(2)])
    show "list_all identifier_name args"
      using assms(2) by simp
  next
    fix p1
    assume "upcoming src p1 (w # ws)"
    then show "upcoming src p1 (arguments_tokens args @ v # vs)"
      by (simp only: w)
  next
    fix p2
    assume p2: "upcoming src p2 (v # vs)"
    show "gives src (bind_result (temporaries p2) (\<lambda>(temps, p).
        bind_result (statements (expression n) p) (\<lambda>(stmts, p).
          if \<not> is_char CHR '']'' (cls p) then Inl (parse_error ''missing ]'' p)
          else bind_result (step p) (\<lambda>p. Inr (PBlock args temps stmts, p))))) (PBlock args temps stmts) (t # ys)"
    proof (rule gives_bind, unfold prod.case, rule temporaries_gives [OF _ _ u(3,4)])
      fix p3
      assume "upcoming src p3 (u # us)"
      then have "upcoming src p3 ?body"
        by (simp only: u(1))
      then have "gives src (statements (expression n) p3) stmts ?close"
        using assms(2) weights by (intro statements_gives [OF assms(1)]) (auto simp: terminator_def)
      then show "gives src (bind_result (statements (expression n) p3) (\<lambda>(stmts, p).
          if \<not> is_char CHR '']'' (cls p) then Inl (parse_error ''missing ]'' p)
          else bind_result (step p) (\<lambda>p. Inr (PBlock args temps stmts, p)))) (PBlock args temps stmts) (t # ys)"
        by (rule gives_bind) (auto intro!: gives_step gives_Inr simp: upcoming_cls)
    qed (use assms(2) p2 v(1) in simp_all)
  qed
qed

lemma paren_gives:
  assumes "reads src n" "program_node e" "\<not> is_return e" "node_weight e \<le> n"
    "upcoming src p (delimiter ''('' # node_tokens e @ delimiter '')'' # t # ys)"
  shows "gives src (parenthesizedExpression (expression n) p) e (t # ys)"
proof -
  obtain u us where us: "node_tokens e @ delimiter '')'' # t # ys = u # us"
    by (rule append_Cons_first)
  show ?thesis
    unfolding parenthesizedExpression_def
  proof (rule gives_step [OF assms(5) [unfolded us]], rule gives_bind)
    fix q
    assume "upcoming src q (u # us)"
    then have "upcoming src q (node_tokens e @ delimiter '')'' # t # ys)"
      by (simp only: us)
    then show "gives src (expression n q) e (delimiter '')'' # t # ys)"
      using assms by (intro readsD) (simp_all add: terminator_def)
  qed (auto intro!: gives_step gives_Inr simp: upcoming_cls)
qed

lemma brace_gives:
  assumes "reads src n" "list_all (\<lambda>e. program_node e \<and> \<not> is_return e) es" "\<forall>e\<in>set es. node_weight e \<le> n"
    "upcoming src p (delimiter ''{'' # separated (map node_tokens es) @ delimiter ''}'' # t # ys)"
  shows "gives src (bracedArray (expression n) p) (PBrace es) (t # ys)"
proof -
  let ?b = "\<lambda>(elements :: parse_node list, p). \<not> is_char CHR ''}'' (cls p) \<and> \<not> isEnd (cls p)"
  let ?c = "\<lambda>(elements, p). bind_result (expression n p) (\<lambda>(expr, p).
      if is_char CHR ''.'' (cls p) then bind_result (step p) (\<lambda>p. Inr (elements @ [expr], p))
      else Inr (elements @ [expr], p))"
  let ?close = "delimiter ''}'' # t # ys"
  have loop: "gives src (while_result ?b ?c (acc, p)) (acc @ es) ?close"
    if "upcoming src p (separated (map node_tokens es) @ ?close)" for acc p
    using assms(2,3) that
  proof (induction es arbitrary: acc p)
    case Nil
    then have "upcoming src p ?close"
      by (simp add: separated_def)
    then show ?case
      by (auto intro!: gives_while_end simp: upcoming_cls)
  next
    case (Cons e es)
    obtain u us where first: "node_tokens e = u # us" "first_ok u"
      using node_first [of e] Cons.prems(1) by auto
    have b: "?b (acc, p)"
      using Cons.prems(3) first upcoming_cls by (fastforce simp: separated_Cons first_ok_def endsExpression_def)
    show ?case
    proof (cases es)
      case Nil
      then have "gives src (expression n p) e ?close"
        using Cons.prems by (intro readsD [OF assms(1)]) (simp_all add: separated_Cons terminator_def)
      then have "gives src (?c (acc, p)) (acc @ [e]) ?close"
        by (auto elim!: gives_bind simp: upcoming_cls gives_Inr)
      then show ?thesis
        using b Nil by (auto intro!: gives_while [where y = "acc @ [e]"] gives_while_end simp: upcoming_cls)
    next
      case (Cons e' es')
      let ?rest = "separated (map node_tokens es) @ ?close"
      obtain v vs where v: "?rest = v # vs"
        by (rule append_Cons_first)
      have "separated (map node_tokens (e # es)) = node_tokens e @ delimiter ''.'' # separated (map node_tokens es)"
        unfolding list.map separated_Cons using Cons by (subst dots_separated) simp_all
      with Cons.prems(3) have "upcoming src p (node_tokens e @ delimiter ''.'' # ?rest)"
        by simp
      then have "gives src (expression n p) e (delimiter ''.'' # ?rest)"
        using Cons.prems(1,2) by (intro readsD [OF assms(1)]) (simp_all add: terminator_def)
      then have "gives src (?c (acc, p)) (acc @ [e]) ?rest"
        unfolding v by (auto elim!: gives_bind intro!: gives_step gives_Inr simp: upcoming_cls)
      moreover have "gives src (while_result ?b ?c (acc @ [e], q)) ((acc @ [e]) @ es) ?close" if "upcoming src q ?rest" for q
        using Cons.prems(1,2) that by (intro Cons.IH) simp_all
      ultimately show ?thesis
        using gives_while [of ?b, OF b] by simp
    qed
  qed
  obtain u us where us: "separated (map node_tokens es) @ ?close = u # us"
    by (rule append_Cons_first)
  show ?thesis
    unfolding bracedArray_def
  proof (rule gives_step [OF assms(4) [unfolded us]], rule gives_bind)
    fix q
    assume "upcoming src q (u # us)"
    then show "gives src (while_result ?b ?c ([], q)) es ?close"
      using loop [of q "[]"] us by simp
  qed (auto intro!: gives_step gives_Inr simp: upcoming_cls)
qed

text \<open>A node that is written without parentheses must be light enough for the parser of nested
  expressions; one that needs parentheses is itself a nested expression.\<close>

definition light :: "nat \<Rightarrow> nat \<Rightarrow> parse_node \<Rightarrow> bool" where
  "light n k e \<longleftrightarrow> node_weight e \<le> Suc n \<and> (k < level e \<longrightarrow> node_weight e \<le> n)"

lemma primary_gives:
  assumes "reads src n" "program_node e" "\<not> is_return e" "light n 0 e"
    "upcoming src p (paren 0 (level e) (node_tokens e) @ t # ys)"
  shows "gives src (primary (expression n) p) (Some e) (t # ys)"
proof (cases "level e = 0")
  case False
  then have p: "upcoming src p (delimiter ''('' # node_tokens e @ delimiter '')'' # t # ys)"
    using assms(5) by (simp add: paren_def)
  have "gives src (parenthesizedExpression (expression n) p) e (t # ys)"
    using assms False p by (intro paren_gives) (simp_all add: light_def)
  then show ?thesis
    unfolding primary_def upcoming_cls [OF p] found_def by (auto elim!: gives_bind intro!: gives_Inr)
next
  case True
  then have p: "upcoming src p (node_tokens e @ t # ys)" and w: "node_weight e \<le> Suc n"
    using assms(4,5) by (simp_all add: paren_def light_def)
  show ?thesis
  proof (cases e)
    case (PIdentifier v)
    then have "upcoming src p (name_token v # t # ys)" "isName (name_token v)"
      using p assms(2) name_token_class(1) [of v] by simp_all
    with PIdentifier show ?thesis
      unfolding primary_def by (auto intro!: gives_step gives_Inr simp: upcoming_cls simp del: isName.simps)
  next
    case (PLiteral l)
    with assms(1,2) w p show ?thesis
      by (auto intro!: primary_literal simp: reads_def)
  next
    case (PBlock args temps stmts)
    have "cls p = delimiter ''[''"
      using p PBlock by (auto intro: upcoming_cls)
    moreover have "gives src (block (expression n) p) e (t # ys)"
      using assms(1,2) w p unfolding PBlock by (intro block_gives) simp_all
    ultimately show ?thesis
      unfolding primary_def found_def by (auto elim!: gives_bind intro!: gives_Inr)
  next
    case (PBrace es)
    have "cls p = delimiter ''{''"
      using p PBrace by (auto intro: upcoming_cls)
    moreover have "gives src (bracedArray (expression n) p) e (t # ys)"
      using assms(1,2) w p member_le_sum_list [of _ "map node_weight es"] unfolding PBrace
      by (intro brace_gives) fastforce+
    ultimately show ?thesis
      unfolding primary_def found_def by (auto elim!: gives_bind intro!: gives_Inr)
  qed (use True assms(3) in \<open>simp_all add: message_level_def split: if_splits\<close>)
qed

lemma required_gives:
  assumes "gives src (F p) (Some e) ts"
  shows "\<exists>p'. (\<forall>m. required m F p = Inr (e, p')) \<and> upcoming src p' ts"
  using assms by (auto simp: gives_def required_def)

section \<open>Chains of messages\<close>

lemma paren_same [simp]: "l \<le> k \<Longrightarrow> paren k l xs = xs"
  by (simp add: paren_def)

lemma paren_other: "l \<noteq> Suc k \<Longrightarrow> paren (Suc k) l = paren k l"
  by (auto simp: paren_def fun_eq_iff)

lemma level_1:
  assumes "level e = 1"
  obtains r s where "e = PMessage r s []"
  using assms by (cases e) (auto simp: message_level_def split: if_splits)

lemma level_2:
  assumes "level e = 2" "program_node e"
  obtains r s a where "e = PMessage r s [a]" "binary_selector s"
  using assms by (cases e) (auto simp: message_level_def message_ok_def length_Suc_conv split: if_splits)

lemma unary_chain:
  assumes "reads src n" "program_node e" "\<not> is_return e" "light n 1 e"
    "upcoming src p (paren 1 (level e) (node_tokens e) @ t # ys)"
  shows "\<exists>prim p0 p'. (\<forall>m. required m (primary (expression n)) p = Inr (prim, p0))
    \<and> unarySequence prim p0 = unarySequence e p' \<and> upcoming src p' (t # ys)
    \<and> size prim \<le> size e \<and> (level e = 1 \<longrightarrow> size prim < size e)"
  using assms(2-5)
proof (induction e arbitrary: t ys rule: measure_induct_rule [of size])
  case (less e)
  show ?case
  proof (cases "level e = 1")
    case True
    then obtain r s where e: "e = PMessage r s []"
      by (rule level_1)
    have s: "identifier_name s"
      using less.prems(1) by (simp add: e message_ok_def)
    have "node_tokens e = paren 1 (level r) (node_tokens r) @ [name_token s]"
      by (simp add: e message_level_def message_tokens_def)
    with less.prems(4) True have "upcoming src p (paren 1 (level r) (node_tokens r) @ name_token s # t # ys)"
      by simp
    moreover have "light n 1 r"
      using less.prems(3) by (simp add: light_def e)
    ultimately obtain prim p0 p1 where "\<forall>m. required m (primary (expression n)) p = Inr (prim, p0)"
      "unarySequence prim p0 = unarySequence r p1" "upcoming src p1 (name_token s # t # ys)" "size prim \<le> size r"
      using less.IH [of r] less.prems(1) by (fastforce simp: e)
    moreover from this(3) obtain p' where "unarySequence r p1 = unarySequence e p'" "upcoming src p' (t # ys)"
      using unarySequence_step name_token_class(1) [OF s] unfolding e by blast
    ultimately show ?thesis
      by (intro exI [of _ prim] exI [of _ p0] exI [of _ p']) (simp add: e)
  next
    case False
    then have "gives src (primary (expression n) p) (Some e) (t # ys)"
      using less.prems paren_other [of "level e" 0] by (intro primary_gives [OF assms(1)]) (auto simp: light_def)
    with False show ?thesis
      using required_gives by blast
  qed
qed

lemma binaryMessage_gives:
  assumes "reads src n" "program_node a" "\<not> is_return a" "light n 1 a" "\<not> isName t"
    "upcoming src p (binary_token s # paren 1 (level a) (node_tokens a) @ t # ys)"
  shows "gives src (binaryMessage (expression n) p) (s, [a]) (t # ys)"
proof -
  obtain u us where us: "paren 1 (level a) (node_tokens a) @ t # ys = u # us"
    by (rule append_Cons_first)
  show ?thesis
    unfolding binaryMessage_def upcoming_cls [OF assms(6)]
  proof (rule gives_step [OF assms(6) [unfolded us]])
    fix q
    assume "upcoming src q (u # us)"
    then have "upcoming src q (paren 1 (level a) (node_tokens a) @ t # ys)"
      by (simp only: us)
    then obtain prim p0 p' where "\<forall>m. required m (primary (expression n)) q = Inr (prim, p0)"
      "unarySequence prim p0 = unarySequence a p'" "upcoming src p' (t # ys)"
      using unary_chain [OF assms(1-4)] by blast
    then show "gives src (bind_result (required ''primary missing'' (primary (expression n)) q) (\<lambda>(prim, p').
        bind_result (unarySequence prim p') (\<lambda>(arg, p'). Inr ((token_value (binary_token s), [arg]), p')))) (s, [a]) (t # ys)"
      using assms(5) by (simp add: unarySequence_stop upcoming_cls gives_Inr)
  qed
qed

lemma binary_chain:
  assumes "reads src n" "program_node e" "\<not> is_return e" "light n 2 e" "\<not> isName t"
    "upcoming src p (paren 2 (level e) (node_tokens e) @ t # ys)"
  shows "\<exists>prim p0 x p1 p'. (\<forall>m. required m (primary (expression n)) p = Inr (prim, p0))
    \<and> unarySequence prim p0 = Inr (x, p1) \<and> binarySequence (expression n) x p1 = binarySequence (expression n) e p'
    \<and> upcoming src p' (t # ys) \<and> size prim \<le> size e \<and> (level e \<in> {1, 2} \<longrightarrow> size prim < size e)"
  using assms(2-6)
proof (induction e arbitrary: t ys rule: measure_induct_rule [of size])
  case (less e)
  show ?case
  proof (cases "level e = 2")
    case True
    with less.prems(1) obtain r s a where e: "e = PMessage r s [a]" "binary_selector s"
      by (elim level_2)
    have "node_tokens e = paren 2 (level r) (node_tokens r) @ binary_token s # paren 1 (level a) (node_tokens a)"
      by (simp add: e message_level_def message_tokens_def)
    with less.prems(5) True have
      "upcoming src p (paren 2 (level r) (node_tokens r) @ binary_token s # paren 1 (level a) (node_tokens a) @ t # ys)"
      by simp
    moreover have "light n 2 r" "light n 1 a"
      using less.prems(3) by (simp_all add: light_def e)
    ultimately obtain prim p0 x p1 p2 where r: "\<forall>m. required m (primary (expression n)) p = Inr (prim, p0)"
      "unarySequence prim p0 = Inr (x, p1)" "binarySequence (expression n) x p1 = binarySequence (expression n) r p2"
      "upcoming src p2 (binary_token s # paren 1 (level a) (node_tokens a) @ t # ys)" "size prim \<le> size r"
      using less.IH [of r "binary_token s" "paren 1 (level a) (node_tokens a) @ t # ys"] less.prems(1) e(1) by fastforce
    have "hasBinarySelector p2"
      using r(4) by (simp add: hasBinarySelector_def upcoming_cls)
    moreover have "gives src (binaryMessage (expression n) p2) (s, [a]) (t # ys)"
      using less.prems \<open>light n 1 a\<close> r(4) e(1) by (intro binaryMessage_gives [OF assms(1)]) simp_all
    ultimately obtain p' where "binarySequence (expression n) r p2 = binarySequence (expression n) e p'" "upcoming src p' (t # ys)"
      using binarySequence_step unfolding e(1) by blast
    with r show ?thesis
      by (intro exI [of _ prim] exI [of _ p0] exI [of _ x] exI [of _ p1] exI [of _ p']) (simp add: e(1))
  next
    case False
    then have "upcoming src p (paren 1 (level e) (node_tokens e) @ t # ys)" "light n 1 e"
      using less.prems paren_other [of "level e" 1] by (auto simp: light_def numeral_2_eq_2)
    then obtain prim p0 p' where "\<forall>m. required m (primary (expression n)) p = Inr (prim, p0)"
      "unarySequence prim p0 = unarySequence e p'" "upcoming src p' (t # ys)" "size prim \<le> size e"
      "level e = 1 \<longrightarrow> size prim < size e"
      using unary_chain [OF assms(1) less.prems(1,2)] by blast
    moreover from this have "unarySequence e p' = Inr (e, p')"
      using less.prems(4) by (simp add: unarySequence_stop upcoming_cls)
    ultimately show ?thesis
      using False by (intro exI [of _ prim] exI [of _ p0] exI [of _ e] exI [of _ p'] exI [of _ p']) simp
  qed
qed

text \<open>Keyword messages.\<close>

definition ends_binary :: "token_class \<Rightarrow> bool" where
  "ends_binary t \<longleftrightarrow> \<not> isName t \<and> \<not> hasSymbol t \<and> \<not> is_char CHR ''^'' t \<and> \<not> is_char CHR '':'' t"

lemma ends_binary_stops: "stops t \<Longrightarrow> ends_binary t"
  using stops_class by (simp add: ends_binary_def)

lemma ends_binary_keyword: "keyword_part k \<Longrightarrow> ends_binary (name_token k)"
  using keyword_token_class(2) [of k] keyword_token_class(4) [of k "CHR ''^''"] keyword_token_class(5) [of k]
  by (simp add: ends_binary_def del: is_char.simps isName.simps)

lemma binarySequence_ends: "ends_binary t \<Longrightarrow> upcoming src p (t # ts) \<Longrightarrow> binarySequence E e p = Inr (e, p)"
  by (rule binarySequence_stop) (simp add: ends_binary_def hasBinarySelector_def upcoming_cls)

lemma operand_gives:
  assumes "reads src n" "program_node a" "\<not> is_return a" "light n 2 a" "ends_binary t"
    "upcoming src p (paren 2 (level a) (node_tokens a) @ t # ys)"
  shows "gives src (bind_result (required m (primary (expression n)) p) (\<lambda>(prim, p).
      bind_result (unarySequence prim p) (\<lambda>(arg, p). binarySequence (expression n) arg p))) a (t # ys)"
proof -
  have "\<not> isName t"
    using assms(5) by (simp add: ends_binary_def)
  then obtain prim p0 x p1 p' where "\<forall>m. required m (primary (expression n)) p = Inr (prim, p0)"
    "unarySequence prim p0 = Inr (x, p1)" "binarySequence (expression n) x p1 = binarySequence (expression n) a p'"
    "upcoming src p' (t # ys)"
    using binary_chain [OF assms(1-4) _ assms(6)] by blast
  then show ?thesis
    using binarySequence_ends [OF assms(5)] by (simp add: gives_Inr)
qed

definition keyword_tokens :: "(egg_string \<times> parse_node) list \<Rightarrow> token_class list" where
  "keyword_tokens kas = concat (map (\<lambda>(k, a). name_token k # paren 2 (level a) (node_tokens a)) kas)"

lemma keywordMessage_gives:
  assumes "reads src n" "stops t" "kas \<noteq> []"
    "list_all (\<lambda>(k, a). keyword_part k \<and> program_node a \<and> \<not> is_return a \<and> light n 2 a) kas"
    "upcoming src p (keyword_tokens kas @ t # ys)"
  shows "gives src (keywordMessage (expression n) p) (concat (map fst kas), map snd kas) (t # ys)"
proof -
  let ?b = "\<lambda>((selector :: egg_string, arguments :: parse_node list), p). isKeyword (cls p)"
  let ?c = "\<lambda>((selector, arguments), p). bind_result (step p) (\<lambda>p'.
      bind_result (required ''argument missing'' (primary (expression n)) p') (\<lambda>(prim, p').
        bind_result (unarySequence prim p') (\<lambda>(arg, p').
          bind_result (binarySequence (expression n) arg p') (\<lambda>(arg, p').
            Inr ((selector @ val p, arguments @ [arg]), p')))))"
  have "gives src (while_result ?b ?c ((sel, args), p)) (sel @ concat (map fst kas), args @ map snd kas) (t # ys)" for sel args
    using assms(4,5)
  proof (induction kas arbitrary: sel args p)
    case Nil
    then show ?case
      using stops_class(3) [OF assms(2)] by (auto intro!: gives_while_end simp: keyword_tokens_def upcoming_cls)
  next
    case (Cons ka kas)
    obtain k a where ka: "ka = (k, a)"
      by fastforce
    let ?rest = "keyword_tokens kas @ t # ys"
    obtain v vs where v: "?rest = v # vs" "ends_binary v"
      using Cons.prems(1) ends_binary_keyword ends_binary_stops [OF assms(2)]
      by (cases kas) (auto simp: keyword_tokens_def)
    obtain u us where us: "paren 2 (level a) (node_tokens a) @ v # vs = u # us"
      by (rule append_Cons_first)
    have p: "upcoming src p (name_token k # u # us)"
      using Cons.prems(2) us v(1) by (simp add: keyword_tokens_def ka)
    have c: "gives src (?c ((sel, args), p)) (sel @ k, args @ [a]) ?rest"
      unfolding prod.case upcoming_cls [OF p] v(1)
    proof (rule gives_step [OF p])
      fix q
      assume "upcoming src q (u # us)"
      then have "upcoming src q (paren 2 (level a) (node_tokens a) @ v # vs)"
        by (simp only: us)
      then have "gives src (bind_result (required ''argument missing'' (primary (expression n)) q) (\<lambda>(prim, p).
          bind_result (unarySequence prim p) (\<lambda>(arg, p). binarySequence (expression n) arg p))) a (v # vs)"
        using Cons.prems(1) v(2) ka by (intro operand_gives [OF assms(1)]) simp_all
      then show "gives src (bind_result (required ''argument missing'' (primary (expression n)) q) (\<lambda>(prim, p').
          bind_result (unarySequence prim p') (\<lambda>(arg, p').
            bind_result (binarySequence (expression n) arg p') (\<lambda>(arg, p').
              Inr ((sel @ token_value (name_token k), args @ [arg]), p'))))) (sel @ k, args @ [a]) (v # vs)"
        by (auto simp: gives_def bind_result_eq_Inr case_prod_beta)
    qed
    have b: "?b ((sel, args), p)"
      using Cons.prems(1) ka keyword_token_class(1) [of k] upcoming_cls [OF p] by simp
    have ih: "gives src (while_result ?b ?c ((sel @ k, args @ [a]), q))
        ((sel @ k) @ concat (map fst kas), (args @ [a]) @ map snd kas) (t # ys)" if "upcoming src q ?rest" for q
      using Cons.prems(1) that by (intro Cons.IH) simp_all
    show ?case
      using gives_while [of ?b, OF b c ih]
      by (simp only: ka list.map fst_conv snd_conv concat.simps append_assoc append.simps)
  qed
  from this [of "[]" "[]"] show ?thesis
    by (simp add: keywordMessage_def)
qed

lemma concat_keyword_parts: "concat (keyword_parts v) = v"
proof (induction v rule: keyword_parts.induct)
  case (1 v)
  show ?case
  proof (cases "v = []")
    case False
    define w where "w = takeWhile (\<lambda>c. c \<noteq> chr CHR '':'') v"
    have "concat (keyword_parts v) = w @ take 1 (drop (length w) v) @ drop (length w + 1) v"
      using 1 False by (subst keyword_parts.simps) (simp add: Let_def w_def)
    also have "\<dots> = w @ drop (length w) v"
      using append_take_drop_id [of 1 "drop (length w) v"] by (simp add: add.commute)
    also have "\<dots> = v"
      by (simp add: w_def flip: dropWhile_eq_drop)
    finally show ?thesis .
  qed (simp add: keyword_parts.simps)
qed

text \<open>A message of any kind after its receiver.\<close>

definition message_weight :: "nat \<Rightarrow> parse_node list \<Rightarrow> bool" where
  "message_weight n as \<longleftrightarrow> list_all (\<lambda>a. program_node a \<and> \<not> is_return a \<and> node_weight a \<le> n) as"

lemma light_le: "node_weight a \<le> n \<Longrightarrow> light n k a"
  by (simp add: light_def)

abbreviation argument_tokens :: "nat \<Rightarrow> parse_node \<Rightarrow> token_class list" where
  "argument_tokens \<equiv> \<lambda>k a. paren k (level a) (node_tokens a)"

lemma keyword_message_tokens:
  assumes "message_ok s as" "as \<noteq> []" "\<not> binary_selector s"
  shows "message_tokens argument_tokens s as = keyword_tokens (zip (keyword_parts s) as)"
    "concat (map fst (zip (keyword_parts s) as)) = s" "map snd (zip (keyword_parts s) as) = as"
    "zip (keyword_parts s) as \<noteq> []"
  using assms concat_keyword_parts [of s]
  by (auto simp: message_tokens_def keyword_tokens_def message_ok_def zip_eq_Nil_iff)

lemma keyword_message_parts:
  assumes "message_ok s as" "as \<noteq> []" "\<not> binary_selector s" "message_weight n as"
  shows "list_all (\<lambda>(k, a). keyword_part k \<and> program_node a \<and> \<not> is_return a \<and> light n 2 a) (zip (keyword_parts s) as)"
proof -
  have "keyword_part k \<and> a \<in> set as" if "(k, a) \<in> set (zip (keyword_parts s) as)" for k a
    using assms(1-3) set_zip_leftD [OF that] set_zip_rightD [OF that] by (auto simp: message_ok_def list_all_iff)
  then show ?thesis
    using assms(4) light_le by (fastforce simp: message_weight_def list_all_iff)
qed

lemma cascadeMessage_gives:
  assumes "reads src n" "message_ok s as" "message_weight n as" "stops t"
    "upcoming src p (message_tokens argument_tokens s as @ t # ys)"
  shows "gives src (cascadeMessage (expression n) p) (s, as) (t # ys)"
proof -
  consider "as = []" | a where "as = [a]" "binary_selector s" | "as \<noteq> []" "\<not> binary_selector s"
    using assms(2) by (auto simp: message_ok_def length_Suc_conv split: if_splits)
  then show ?thesis
  proof cases
    case 1
    then have "upcoming src p (name_token s # t # ys)" "isName (name_token s)"
      using assms(2,5) name_token_class(1) [of s] by (simp_all add: message_tokens_def message_ok_def)
    with 1 show ?thesis
      by (auto simp: cascadeMessage_def hasUnarySelector_def unaryMessage_def upcoming_cls simp del: isName.simps
          intro!: gives_step gives_Inr)
  next
    case 2
    then have p: "upcoming src p (binary_token s # paren 1 (level a) (node_tokens a) @ t # ys)"
      using assms(5) by (simp add: message_tokens_def)
    then have "gives src (binaryMessage (expression n) p) (s, [a]) (t # ys)"
      using 2 assms(3) stops_class(1) [OF assms(4)]
      by (intro binaryMessage_gives [OF assms(1)]) (simp_all add: message_weight_def light_le)
    with 2 p show ?thesis
      by (simp add: cascadeMessage_def hasUnarySelector_def hasBinarySelector_def upcoming_cls)
  next
    case 3
    note kw = keyword_message_tokens [OF assms(2) 3] keyword_message_parts [OF assms(2) 3 assms(3)]
    have "gives src (keywordMessage (expression n) p) (concat (map fst (zip (keyword_parts s) as)), map snd (zip (keyword_parts s) as)) (t # ys)"
      using assms(5) kw(1) by (intro keywordMessage_gives [OF assms(1,4) kw(4,5)]) simp
    then have message: "gives src (keywordMessage (expression n) p) (s, as) (t # ys)"
      by (simp only: kw(2,3))
    obtain k a kas where "zip (keyword_parts s) as = (k, a) # kas"
      using kw(4) by (cases "zip (keyword_parts s) as") auto
    then have p: "upcoming src p (name_token k # paren 2 (level a) (node_tokens a) @ keyword_tokens kas @ t # ys)" "keyword_part k"
      using assms(5) kw(1,5) by (simp_all add: keyword_tokens_def)
    then have "isKeyword (cls p)" "\<not> isName (cls p)" "\<not> hasBinarySelector p"
      using keyword_token_class(1,2) [of k] keyword_no_binary by (simp_all add: upcoming_cls)
    with message show ?thesis
      by (simp add: cascadeMessage_def hasUnarySelector_def hasKeywordSelector_def)
  qed
qed

lemma message_gives:
  assumes "reads src n" "program_node (PMessage r s as)" "node_weight (PMessage r s as) \<le> Suc n" "stops t"
    "upcoming src p (node_tokens (PMessage r s as) @ t # ys)"
  shows "\<exists>prim p0 x p1 y p2 p3. required m (primary (expression n)) p = Inr (prim, p0)
    \<and> unarySequence prim p0 = Inr (x, p1) \<and> binarySequence (expression n) x p1 = Inr (y, p2)
    \<and> keywordSequence (expression n) y p2 = Inr (PMessage r s as, p3) \<and> upcoming src p3 (t # ys)
    \<and> prim \<noteq> PMessage r s as"
proof (cases "message_level s as = 3")
  case False
  then have level: "level (PMessage r s as) \<in> {1, 2}"
    by (auto simp: message_level_def split: if_splits)
  then have "upcoming src p (paren 2 (level (PMessage r s as)) (node_tokens (PMessage r s as)) @ t # ys)"
    using assms(5) by auto
  moreover have "light n 2 (PMessage r s as)"
    using assms(3) level by (auto simp: light_def)
  moreover have "\<not> is_return (PMessage r s as)" "\<not> isName t"
    using stops_class(1) [OF assms(4)] by simp_all
  ultimately obtain prim p0 x p1 p' where *: "required m (primary (expression n)) p = Inr (prim, p0)"
    "unarySequence prim p0 = Inr (x, p1)"
    "binarySequence (expression n) x p1 = binarySequence (expression n) (PMessage r s as) p'"
    "upcoming src p' (t # ys)" "size prim < size (PMessage r s as)"
    using binary_chain [OF assms(1,2)] level by metis
  moreover have "binarySequence (expression n) (PMessage r s as) p' = Inr (PMessage r s as, p')"
    using binarySequence_ends ends_binary_stops assms(4) *(4) by blast
  moreover have "keywordSequence (expression n) (PMessage r s as) p' = Inr (PMessage r s as, p')"
    using stops_class(3) [OF assms(4)] *(4) by (simp add: keywordSequence_def hasKeywordSelector_def upcoming_cls)
  ultimately show ?thesis
    by (intro exI [of _ prim] exI [of _ p0] exI [of _ x] exI [of _ p1] exI [of _ "PMessage r s as"] exI [of _ p'] exI [of _ p'])
      auto
next
  case True
  then have kw: "as \<noteq> []" "\<not> binary_selector s" and ok: "message_ok s as" "message_weight n as"
    using assms(2,3) member_le_sum_list [of _ "map node_weight as"]
    by (fastforce simp: message_level_def message_weight_def list_all_iff split: if_splits)+
  note parts = keyword_message_tokens [OF ok(1) kw] keyword_message_parts [OF ok(1) kw ok(2)]
  obtain k a kas where kas: "zip (keyword_parts s) as = (k, a) # kas"
    using parts(4) by (cases "zip (keyword_parts s) as") auto
  let ?rest = "paren 2 (level a) (node_tokens a) @ keyword_tokens kas @ t # ys"
  have k: "keyword_part k"
    using parts(5) kas by simp
  have "upcoming src p (paren 2 (level r) (node_tokens r) @ name_token k # ?rest)"
    using assms(5) True parts(1) kas by (simp add: keyword_tokens_def)
  moreover have "light n 2 r" "program_node r" "\<not> is_return r" "\<not> isName (name_token k)"
    using assms(2,3) keyword_token_class(2) [OF k] by (simp_all add: light_le del: isName.simps)
  ultimately obtain prim p0 x p1 p2 where *: "required m (primary (expression n)) p = Inr (prim, p0)"
    "unarySequence prim p0 = Inr (x, p1)"
    "binarySequence (expression n) x p1 = binarySequence (expression n) r p2"
    "upcoming src p2 (name_token k # ?rest)" "size prim \<le> size r"
    using binary_chain [OF assms(1)] by metis
  have "binarySequence (expression n) r p2 = Inr (r, p2)"
    using binarySequence_ends ends_binary_keyword k *(4) by blast
  moreover have "upcoming src p2 (keyword_tokens (zip (keyword_parts s) as) @ t # ys)"
    using *(4) kas by (simp add: keyword_tokens_def)
  then have "gives src (keywordMessage (expression n) p2) (s, as) (t # ys)"
    using keywordMessage_gives [OF assms(1,4) parts(4,5)] parts(2,3) by simp
  then obtain p3 where "keywordMessage (expression n) p2 = Inr ((s, as), p3)" "upcoming src p3 (t # ys)"
    by (auto simp: gives_def)
  moreover have "isKeyword (cls p2)"
    using keyword_token_class(1) [OF k] *(4) by (simp add: upcoming_cls)
  ultimately show ?thesis
    using * by (intro exI [of _ prim] exI [of _ p0] exI [of _ x] exI [of _ p1] exI [of _ r] exI [of _ p2] exI [of _ p3])
      (auto simp: keywordSequence_def hasKeywordSelector_def send_to_def)
qed

lemma cascade_gives:
  assumes "reads src n" "list_all (\<lambda>(s, as). message_ok s as \<and> message_weight n as) ms" "terminator t" "ms \<noteq> []"
    "upcoming src p (concat (map (\<lambda>(s, as). delimiter '';'' # message_tokens argument_tokens s as) ms) @ t # ys)"
  shows "gives src (cascadeSequence (expression n) r m p) (PCascade r (m # ms)) (t # ys)"
proof -
  let ?tk = "\<lambda>(s, as). delimiter '';'' # message_tokens argument_tokens s as"
  let ?b = "\<lambda>(messages :: message list, p). is_char CHR '';'' (cls p)"
  let ?c = "\<lambda>(messages, p). bind_result (step p) (\<lambda>p.
      bind_result (cascadeMessage (expression n) p) (\<lambda>(m, p). Inr (messages @ [m], p)))"
  have loop: "gives src (while_result ?b ?c (acc, p)) (acc @ ms) (t # ys)"
    if "upcoming src p (concat (map ?tk ms) @ t # ys)" for acc p
    using assms(2) that
  proof (induction ms arbitrary: acc p)
    case Nil
    then show ?case
      using terminator_class(3) [OF assms(3)] by (auto intro!: gives_while_end simp: upcoming_cls)
  next
    case (Cons sa ms)
    obtain s as where sa: "sa = (s, as)"
      by fastforce
    let ?rest = "concat (map ?tk ms) @ t # ys"
    obtain v vs where v: "?rest = v # vs" "stops v"
      using terminator_class(1) [OF assms(3)] by (cases ms) (auto simp: stops_def split: prod.splits)
    obtain u us where us: "message_tokens argument_tokens s as @ v # vs = u # us"
      by (rule append_Cons_first)
    have "map ?tk (sa # ms) = (delimiter '';'' # message_tokens argument_tokens s as) # map ?tk ms"
      by (simp add: sa)
    then have "concat (map ?tk (sa # ms)) @ t # ys = delimiter '';'' # u # us"
      using us v(1) by simp
    then have p: "upcoming src p (delimiter '';'' # u # us)"
      using Cons.prems(2) by simp
    have b: "?b (acc, p)"
      using upcoming_cls [OF p] by simp
    have "gives src (cascadeMessage (expression n) q) (s, as) (v # vs)" if "upcoming src q (u # us)" for q
      using Cons.prems(1) that us v(2) by (intro cascadeMessage_gives [OF assms(1)]) (simp_all add: sa)
    then have c: "gives src (?c (acc, p)) (acc @ [(s, as)]) ?rest"
      unfolding prod.case v(1) by (intro gives_step [OF p] gives_bind) (auto intro: gives_Inr)
    have ih: "gives src (while_result ?b ?c (acc @ [(s, as)], q)) ((acc @ [(s, as)]) @ ms) (t # ys)" if "upcoming src q ?rest" for q
      using Cons.prems(1) that by (intro Cons.IH) simp_all
    show ?case
      using gives_while [of ?b, OF b c ih] by (simp only: sa append_assoc append.simps)
  qed
  obtain s as ms' where "ms = (s, as) # ms'"
    using assms(4) by (cases ms) auto
  then have "is_char CHR '';'' (cls p)"
    using assms(5) by (simp add: upcoming_cls)
  then show ?thesis
    unfolding cascadeSequence_def using loop [OF assms(5), of "[m]"]
    by (auto elim!: gives_bind intro: gives_Inr)
qed

section \<open>Expressions of any depth\<close>

lemma operation_message:
  assumes "reads src n" "program_node (PMessage r s as)" "node_weight (PMessage r s as) \<le> Suc n" "stops t"
    "upcoming src p (node_tokens (PMessage r s as) @ t # us)"
    "\<And>q. upcoming src q (t # us) \<Longrightarrow> gives src (cascadeSequence (expression n) r (s, as) q) e (u # ys)" "terminator u"
  shows "gives src (operation (expression n) p) e (u # ys)"
proof -
  obtain prim p0 x p1 y p2 p3 where *: "required ''missing expression'' (primary (expression n)) p = Inr (prim, p0)"
    "unarySequence prim p0 = Inr (x, p1)" "binarySequence (expression n) x p1 = Inr (y, p2)"
    "keywordSequence (expression n) y p2 = Inr (PMessage r s as, p3)" "upcoming src p3 (t # us)" "prim \<noteq> PMessage r s as"
    using message_gives [OF assms(1-5)] by metis
  obtain q where q: "cascadeSequence (expression n) r (s, as) p3 = Inr (e, q)" "upcoming src q (u # ys)"
    using assms(6) [OF *(5)] by (auto simp: gives_def)
  with * terminator_class(2) [OF assms(7)] show ?thesis
    by (auto simp: operation_def gives_Inr upcoming_cls)
qed

lemma operation_primary:
  assumes "gives src (primary E p) (Some e) (t # ys)" "terminator t" "level e = 0"
  shows "gives src (operation E p) e (t # ys)"
proof -
  obtain p' where p': "required ''missing expression'' (primary E) p = Inr (e, p')" "upcoming src p' (t # ys)"
    using required_gives [of src "primary E" p] assms(1) by blast
  note t = terminator_class [OF assms(2)]
  have "unarySequence e p' = Inr (e, p')"
    using stops_class(1) [OF t(1)] p'(2) by (simp add: unarySequence_stop upcoming_cls)
  moreover have "binarySequence E e p' = Inr (e, p')"
    using binarySequence_ends ends_binary_stops t(1) p'(2) by blast
  moreover have "keywordSequence E e p' = Inr (e, p')"
    using stops_class(3) [OF t(1)] p'(2) by (simp add: keywordSequence_def hasKeywordSelector_def upcoming_cls)
  moreover have "\<nexists>r s as. e = PMessage r s as"
    using assms(3) by (auto simp: message_level_def split: if_splits)
  ultimately show ?thesis
    using p' t(2) by (cases e) (auto simp: operation_def gives_Inr upcoming_cls)
qed

lemma operation_gives:
  assumes "reads src n" "program_node e" "\<not> is_return e" "node_weight e \<le> Suc n" "terminator t"
    "upcoming src p (node_tokens e @ t # ys)" "\<nexists>v e'. e = PAssignment v e'"
  shows "gives src (operation (expression n) p) e (t # ys)"
proof -
  have primary: "gives src (operation (expression n) p) e (t # ys)" if "level e = 0"
    using assms that by (intro operation_primary primary_gives) (simp_all add: light_def)
  show ?thesis
  proof (cases e)
    case (PMessage r s as)
    show ?thesis
      unfolding PMessage
    proof (rule operation_message [OF assms(1)])
      fix q
      assume "upcoming src q (t # ys)"
      then show "gives src (cascadeSequence (expression n) r (s, as) q) (PMessage r s as) (t # ys)"
        using terminator_class(3) [OF assms(5)] by (simp add: cascadeSequence_def upcoming_cls gives_Inr)
    qed (use assms PMessage terminator_class(1) in simp_all)
  next
    case (PCascade r ms)
    then obtain s as m ms' where ms: "ms = (s, as) # m # ms'"
      using assms(2) by (cases ms rule: remdups_adj.cases) auto
    let ?rest = "concat (map (\<lambda>(s, as). delimiter '';'' # message_tokens argument_tokens s as) (m # ms'))"
    have weights: "list_all (\<lambda>(s, as). message_ok s as \<and> message_weight n as) (m # ms')"
    proof -
      have "message_weight n as'" if "(s', as') \<in> set (m # ms')" for s' as'
      proof -
        have "(\<lambda>(s, as). Suc (sum_list (map node_weight as))) (s', as') \<le>
            sum_list (map (\<lambda>(s, as). Suc (sum_list (map node_weight as))) (m # ms'))"
          using that by (intro member_le_sum_list) auto
        then have "sum_list (map node_weight as') \<le> n"
          using assms(4) by (simp add: PCascade ms)
        moreover have "node_weight a \<le> sum_list (map node_weight as')" if "a \<in> set as'" for a
          using that by (intro member_le_sum_list) auto
        ultimately show ?thesis
          using that assms(2) by (fastforce simp: message_weight_def list_all_iff PCascade ms)
      qed
      then show ?thesis
        using assms(2) by (fastforce simp: list_all_iff PCascade ms)
    qed
    have p: "upcoming src p (node_tokens (PMessage r s as) @ ?rest @ t # ys)"
      using assms(6) by (simp add: PCascade ms)
    obtain vs where vs: "?rest @ t # ys = delimiter '';'' # vs"
      by (cases m) auto
    show ?thesis
      unfolding PCascade ms
    proof (rule operation_message [OF assms(1), where t = "delimiter '';''" and us = vs])
      show "upcoming src p (node_tokens (PMessage r s as) @ delimiter '';'' # vs)"
        using p vs by simp
      show "gives src (cascadeSequence (expression n) r (s, as) q) (PCascade r ((s, as) # m # ms')) (t # ys)"
        if "upcoming src q (delimiter '';'' # vs)" for q
        using cascade_gives [OF assms(1) weights assms(5)] that vs by simp
    qed (use assms in \<open>auto simp: PCascade ms stops_def\<close>)
  qed (use primary assms in auto)
qed

lemma reads_Suc:
  assumes "reads src n" "Suc n \<le> length src + 3"
  shows "reads src (Suc n)"
  unfolding reads_def
proof (intro conjI allI impI)
  fix e p t and ys :: "token_class list"
  assume e: "program_node e" "\<not> is_return e" "node_weight e \<le> Suc n" "terminator t" and p: "upcoming src p (node_tokens e @ t # ys)"
  show "gives src (expression (Suc n) p) e (t # ys)"
  proof (cases "\<exists>v e'. e = PAssignment v e'")
    case True
    then obtain v e' where e': "e = PAssignment v e'"
      by blast
    obtain u us where us: "node_tokens e' @ t # ys = u # us"
      by (rule append_Cons_first)
    have p: "upcoming src p (name_token v # delimiter '':='' # u # us)"
      using p us by (simp add: e')
    have v: "isName (name_token v)"
      using e(1) name_token_class(1) by (simp add: e')
    have "gives src (expression n q) e' (t # ys)" if "upcoming src q (u # us)" for q
      using e that us by (intro readsD [OF assms(1)]) (simp_all add: e')
    then have "gives src (assignment (expression n) q) e (t # ys)" if "upcoming src q (name_token v # delimiter '':='' # u # us)" for q
      unfolding assignment_def upcoming_cls [OF that] e'
      by (intro gives_step [OF that] gives_step gives_bind) (auto intro: gives_Inr)
    then show ?thesis
      using p v by (auto simp: upcoming_cls intro!: gives_peek simp del: isName.simps)
  next
    case False
    have op: "gives src (operation (expression n) q) e (t # ys)" if "upcoming src q (node_tokens e @ t # ys)" for q
      using assms(1) e that False by (intro operation_gives) auto
    have "no_assignment (node_tokens e)"
    proof (rule node_no_assignment [OF e(1)])
      show "level e < 3 \<or> (\<exists>r ms. e = PCascade r ms) \<or> (\<exists>r s as. e = PMessage r s as)"
        using False e(2) by (cases e) auto
    qed
    then obtain a as where a: "node_tokens e = a # as" "isName a \<longrightarrow> as = [] \<or> \<not> isAssignment (hd as)"
      by (auto simp: no_assignment_def)
    obtain b bs where b: "as @ t # ys = b # bs"
      by (rule append_Cons_first)
    have "isName a \<longrightarrow> \<not> isAssignment b"
      using a(2) b stops_class(6) [OF terminator_class(1) [OF e(4)]] by (cases as) auto
    moreover have "upcoming src p (a # b # bs)"
      using p a(1) b by simp
    moreover have "gives src (operation (expression n) q) e (t # ys)" if "upcoming src q (a # b # bs)" for q
      using op that a(1) b by simp
    ultimately show ?thesis
      by (auto simp: upcoming_cls intro!: gives_peek)
  qed
qed (use assms(2) in simp)

lemma reads_all: "n \<le> length src + 3 \<Longrightarrow> reads src n"
proof (induction n)
  case 0
  have "\<not> node_weight e \<le> 0" for e
    using node_weight_pos [of e] by simp
  then show ?case
    unfolding reads_def by blast
next
  case (Suc n)
  then show ?case
    using reads_Suc by simp
qed

end
