(* ===== verification/ParserTotal.thy ===== *)
theory ParserTotal
  imports Parser ScannerProgress
begin

text \<open>
  The parser returns on every source.  \<open>pending\<close> counts the tokens held and the characters left; it
  bounds how often the parser can still step.  A state transformer is \<open>fine\<close> for a bound if it
  neither runs out of fuel nor leaves the bound; the rules for binding, branching and looping carry it
  through the functions of the parser, so that \<open>parse_fuel\<close> suffices for all of them.
\<close>

section \<open>What is left to parse\<close>

definition held :: "token_class \<Rightarrow> nat" where
  "held t = (if isEnd t then 0 else 1)"

definition ahead :: "parser \<Rightarrow> nat" where
  "ahead p = (case p_peeked p of None \<Rightarrow> 0 | Some t \<Rightarrow> held (fst t)) + remaining (p_stream p)"

definition pending :: "parser \<Rightarrow> nat" where
  "pending p = held (cls p) + ahead p"

lemma ahead_pending:
  "ahead p \<le> pending p"
  "\<not> isEnd (cls p) \<Longrightarrow> ahead p < pending p"
  by (simp_all add: pending_def held_def)

definition fine :: "('s \<Rightarrow> nat) \<Rightarrow> nat \<Rightarrow> 's result \<Rightarrow> bool" where
  "fine m k r \<longleftrightarrow> (case r of Inl e \<Rightarrow> e \<noteq> OutOfFuel | Inr s \<Rightarrow> m s < k)"

lemma fine_simps [simp]:
  "fine m k (Inr s) \<longleftrightarrow> m s < k"
  "fine m k (Inl e) \<longleftrightarrow> e \<noteq> OutOfFuel"
  by (simp_all add: fine_def)

lemma parse_error_fault [simp]: "parse_error msg p \<noteq> OutOfFuel"
  by (simp add: parse_error_def)

lemma fine_bind:
  "fine m j r \<Longrightarrow> (\<And>s. m s < j \<Longrightarrow> fine m' k (f s)) \<Longrightarrow> fine m' k (bind_result r f)"
  by (cases r) auto

lemma fine_if: "(b \<Longrightarrow> fine m k r) \<Longrightarrow> (\<not> b \<Longrightarrow> fine m k r') \<Longrightarrow> fine m k (if b then r else r')"
  by simp

lemma fine_mono: "fine m j r \<Longrightarrow> j \<le> k \<Longrightarrow> fine m k r"
  by (auto simp: fine_def split: sum.splits)

lemma fine_while:
  assumes "\<And>s. m s < k \<Longrightarrow> b s \<Longrightarrow> fine m (m s) (c s)" "m s < k"
  shows "fine m (Suc (m s)) (while_result b c s) \<and> (\<forall>s'. while_result b c s = Inr s' \<longrightarrow> \<not> b s')"
  using assms(2)
proof (induction s rule: measure_induct_rule [of m])
  case (less s)
  show ?case
  proof (cases "b s")
    case True
    show ?thesis
    proof (cases "c s")
      case (Inl e)
      then show ?thesis
        using assms(1) [OF less.prems True] by (subst (1 2) while_result_unfold) simp
    next
      case (Inr s')
      then have "m s' < m s"
        using assms(1) [OF less.prems True] by simp
      then have "fine m (Suc (m s')) (while_result b c s') \<and> (\<forall>t. while_result b c s' = Inr t \<longrightarrow> \<not> b t)"
        using less.IH less.prems by simp
      then show ?thesis
        using True Inr \<open>m s' < m s\<close> by (subst (1 2) while_result_unfold) (auto elim: fine_mono)
    qed
  next
    case False
    then show ?thesis
      by (subst (1 2) while_result_unfold) simp
  qed
qed

lemma fine_whileI:
  assumes "m s < k" "\<And>s. m s < k \<Longrightarrow> b s \<Longrightarrow> fine m (m s) (c s)"
  shows "fine m k (while_result b c s)"
  using fine_while [of m k b c s] assms by (blast intro: fine_mono Suc_leI)

text \<open>The measure of a state that pairs the parser with results.\<close>

abbreviation pending2 :: "'a \<times> parser \<Rightarrow> nat" where
  "pending2 \<equiv> \<lambda>s. pending (snd s)"

abbreviation ahead2 :: "'a \<times> parser \<Rightarrow> nat" where
  "ahead2 \<equiv> \<lambda>s. ahead (snd s)"

section \<open>Stepping\<close>

lemma step_fine: "fine pending (Suc (ahead p)) (step p)"
proof (cases "p_peeked p")
  case None
  show ?thesis
  proof (cases "nextToken (p_stream p)")
    case (Inl e)
    then show ?thesis
      using nextToken_fault [of "p_stream p"] None by (auto simp: step_def)
  next
    case (Inr ts)
    then show ?thesis
      using nextToken_progress [of "p_stream p" "fst ts" "snd ts"] later_remaining [of "p_stream p" "snd ts"] None
      by (cases ts) (auto simp: step_def pending_def ahead_def held_def)
  qed
qed (auto simp: step_def pending_def ahead_def held_def)

lemma step_less: "\<not> isEnd (cls p) \<Longrightarrow> pending p \<le> k \<Longrightarrow> fine pending k (step p)"
  using step_fine [of p] ahead_pending(2) [of p] by (auto elim: fine_mono)

lemma step_le: "ahead p < k \<Longrightarrow> fine pending k (step p)"
  using step_fine [of p] by (auto elim: fine_mono)

lemma peek_fine: "fine ahead2 (Suc (ahead p)) (peek p)"
proof (cases "p_peeked p")
  case None
  show ?thesis
  proof (cases "nextToken (p_stream p)")
    case (Inl e)
    then show ?thesis
      using nextToken_fault [of "p_stream p"] None by (auto simp: peek_def)
  next
    case (Inr ts)
    then show ?thesis
      using nextToken_progress [of "p_stream p" "fst ts" "snd ts"] later_remaining [of "p_stream p" "snd ts"] None
      by (cases ts) (auto simp: peek_def pending_def ahead_def held_def)
  qed
qed (simp add: peek_def)

text \<open>Peeking keeps the current token and holds the token it answers.\<close>

lemma peek_token: "peek p = Inr (t, p') \<Longrightarrow> p_token p' = p_token p \<and> p_peeked p' = Some t"
  by (auto simp: peek_def split: option.splits simp: bind_result_eq_Inr)

lemma step_peeked: "p_peeked p = Some t \<Longrightarrow> step p = Inr (p\<lparr> p_token := t, p_peeked := None \<rparr>)"
  by (simp add: step_def)

lemma bind_peek:
  assumes "\<And>t p'. p_token p' = p_token p \<Longrightarrow> p_peeked p' = Some t \<Longrightarrow> ahead p' \<le> ahead p \<Longrightarrow> fine m k (f (t, p'))"
  shows "fine m k (bind_result (peek p) f)"
proof (cases "peek p")
  case (Inl e)
  then show ?thesis
    using peek_fine [of p] by simp
next
  case (Inr tp)
  then show ?thesis
    using peek_fine [of p] peek_token [of p "fst tp" "snd tp"] assms [of "snd tp" "fst tp"] by simp
qed

text \<open>The tests of the parser fail on the end token.\<close>

lemma not_end [dest]:
  "is_char c t \<Longrightarrow> \<not> isEnd t"
  "is_string s t \<Longrightarrow> \<not> isEnd t"
  "isName t \<Longrightarrow> \<not> isEnd t"
  "isLiteral t \<Longrightarrow> \<not> isEnd t"
  "isKeyword t \<Longrightarrow> \<not> isEnd t"
  "isBar t \<Longrightarrow> \<not> isEnd t"
  "hasSymbol t \<Longrightarrow> \<not> isEnd t"
  by (cases t; simp)+

lemma not_end_selector [dest]:
  "hasUnarySelector p \<Longrightarrow> \<not> isEnd (cls p)"
  "hasBinarySelector p \<Longrightarrow> \<not> isEnd (cls p)"
  "hasKeywordSelector p \<Longrightarrow> \<not> isEnd (cls p)"
  by (auto simp: hasUnarySelector_def hasBinarySelector_def hasKeywordSelector_def)

text \<open>Binding in the forms the parser has: after a step, after a parser, after a pure result.\<close>

lemma bind_step:
  assumes "\<not> isEnd (cls p)" "\<And>p'. pending p' < pending p \<Longrightarrow> fine m k (f p')"
  shows "fine m k (bind_result (step p) f)"
  using step_less [OF assms(1) order_refl] assms(2) by (rule fine_bind)

lemma bind_step_le:
  assumes "\<And>p'. pending p' \<le> ahead p \<Longrightarrow> fine m k (f p')"
  shows "fine m k (bind_result (step p) f)"
  using step_fine [of p] assms by (rule fine_bind) simp

lemma bind_step_lt:
  assumes "pending p < j" "\<And>p'. pending p' < j \<Longrightarrow> fine m k (f p')"
  shows "fine m k (bind_result (step p) f)"
  using step_le [OF le_less_trans [OF ahead_pending(1) assms(1)]] assms(2) by (rule fine_bind)

lemma bind_parse:
  assumes "fine pending2 j r" "\<And>x p'. pending p' < j \<Longrightarrow> fine m k (f (x, p'))"
  shows "fine m k (bind_result r f)"
  using assms(1) by (rule fine_bind) (use assms(2) in \<open>auto split: prod.splits\<close>)

lemma bind_pure:
  assumes "r \<noteq> Inl OutOfFuel" "\<And>x. fine m k (f x)"
  shows "fine m k (bind_result r f)"
  using assms by (cases r) auto

lemma skipDots_fine: "pending p < k \<Longrightarrow> fine pending k (skipDots p)"
  unfolding skipDots_def by (rule fine_whileI) (auto intro: step_less)

lemma parse_whileI:
  assumes "pending p < k"
    "\<And>x p. pending p < k \<Longrightarrow> b (x, p) \<Longrightarrow> fine pending2 (pending p) (c (x, p))"
  shows "fine pending2 k (while_result b c (x, p))"
  by (rule fine_whileI) (use assms in auto)

section \<open>Literals\<close>

lemma scan_digits_fault: "scan_digits base bytes cs \<noteq> Inl OutOfFuel"
  by (induction cs arbitrary: bytes) (auto simp: digit_value_def bind_result_def assert_that_def Let_def)

lemma parseIntegerString_fault: "parseIntegerString v \<noteq> Inl OutOfFuel"
proof -
  have "fromIntegerDigits b s n \<noteq> Inl OutOfFuel" for b s n
    using scan_digits_fault [of b "[0]" s]
    by (cases "scan_digits b [0] s") (auto simp: fromIntegerDigits_def assert_that_def)
  then show ?thesis
    by (auto simp: parseIntegerString_def stoull_def bind_result_def Let_def)
qed

lemma parseLiteralValue_fault: "parseLiteralValue t \<noteq> Inl OutOfFuel"
proof -
  have "parseFloatString v \<noteq> Inl OutOfFuel" for v
    by (auto simp: parseFloatString_def stod_def Let_def bind_result_def split: prod.splits option.splits)
  then show ?thesis
    using parseIntegerString_fault
    by (cases t rule: parseLiteralValue.cases) (auto simp: parseNumberString_def split: list.splits)
qed

lemma stol_auto_fault: "stol_auto v \<noteq> Inl OutOfFuel"
  by (auto simp: stol_auto_def c_integer_def Let_def split: prod.splits list.splits)

lemma negativeNumberOrBinary_fine:
  assumes "\<not> isEnd (cls p)"
  shows "fine ahead2 (pending p) (negativeNumberOrBinary p)"
  unfolding negativeNumberOrBinary_def
proof (rule bind_peek, simp only: prod.case, intro fine_if bind_step_le bind_pure [OF parseLiteralValue_fault])
  fix t p1 p2 v
  assume "ahead p1 \<le> ahead p" "pending p2 \<le> ahead p1"
  then show "fine ahead2 (pending p) (Inr (negated_literal v, p2))"
    using ahead_pending(1) [of p2] ahead_pending(2) [OF assms] by simp
next
  fix t p1
  assume "ahead p1 \<le> ahead p"
  then show "fine ahead2 (pending p) (Inr (LNone, p1))"
    using ahead_pending(2) [OF assms] by simp
qed

text \<open>The loop over the parts of a keyword: it steps only onto a keyword it has peeked at.\<close>

definition keyword_left :: "bool \<times> egg_string \<times> 32 word \<times> parser \<Rightarrow> nat" where
  "keyword_left s = (case s of (go, keyword, prevEnd, p) \<Rightarrow> 2 * ahead p + (if go then 1 else 0))"

lemma literalKeyword_fine: "fine ahead2 (Suc (ahead p)) (literalKeyword p)"
  unfolding literalKeyword_def
proof (rule fine_bind)
  let ?k = "2 * ahead p + 2"
  show "fine keyword_left ?k
    (while_result (\<lambda>(go, keyword, prevEnd, p). go)
       (\<lambda>(go, keyword, prevEnd, p).
          bind_result (peek p) (\<lambda>(t, p).
            if \<not> isKeyword (fst t) \<or> stretch_start (snd t) \<noteq> prevEnd then Inr (False, keyword, prevEnd, p)
            else bind_result (step p) (\<lambda>p.
                   Inr (True, keyword @ val p, stretch_end (snd (p_token p)), p))))
       (True, val p, stretch_end (snd (p_token p)), p))"
  proof (rule fine_whileI)
    fix s :: "bool \<times> egg_string \<times> 32 word \<times> parser"
    assume "case s of (go, keyword, prevEnd, p) \<Rightarrow> go"
    then obtain keyword prevEnd p where s: "s = (True, keyword, prevEnd, p)"
      by (cases s) auto
    have "fine keyword_left (2 * ahead p + 1)
      (if \<not> isKeyword (fst t) \<or> stretch_start (snd t) \<noteq> prevEnd then Inr (False, keyword, prevEnd, p')
       else bind_result (step p') (\<lambda>p.
              Inr (True, keyword @ val p, stretch_end (snd (p_token p)), p)))"
      if "p_peeked p' = Some t" "ahead p' \<le> ahead p" for t p'
    proof (cases "isKeyword (fst t)")
      case True
      then have "ahead p' = Suc (remaining (p_stream p'))"
        using that(1) not_end by (auto simp: ahead_def held_def)
      with that show ?thesis
        by (simp add: step_peeked keyword_left_def ahead_def)
    next
      case False
      with that show ?thesis
        by (simp add: keyword_left_def)
    qed
    then show "fine keyword_left (keyword_left s)
      (case s of (go, keyword, prevEnd, p) \<Rightarrow>
         bind_result (peek p) (\<lambda>(t, p).
           if \<not> isKeyword (fst t) \<or> stretch_start (snd t) \<noteq> prevEnd then Inr (False, keyword, prevEnd, p)
           else bind_result (step p) (\<lambda>p.
                  Inr (True, keyword @ val p, stretch_end (snd (p_token p)), p))))"
        unfolding s prod.case by (intro bind_peek) (simp add: keyword_left_def)
  qed (simp add: keyword_left_def)
qed (auto simp: keyword_left_def)

lemma byteArrayBody_fine:
  assumes "\<not> isEnd (cls p)"
  shows "fine pending2 (pending p) (byteArrayBody p)"
  unfolding byteArrayBody_def
proof (rule bind_step [OF assms], rule bind_parse)
  fix p1
  assume "pending p1 < pending p"
  then show "fine pending2 (pending p)
    (while_result (\<lambda>(bytes, p). isLiteral (cls p))
       (\<lambda>(bytes, p). bind_result (stol_auto (bytes_of (val p))) (\<lambda>v.
          bind_result (step p) (\<lambda>p. Inr (bytes @ [word_of_int v :: byte], p)))) ([], p1))"
    by (intro parse_whileI) (auto intro!: bind_pure [OF stol_auto_fault] bind_step)
qed simp

lemma arrayElement_fine:
  assumes "\<not> isEnd (cls p)" "fine pending2 (pending p) (A p)"
  shows "fine ahead2 (pending p) (arrayElement A p)"
proof -
  have strict: "fine ahead2 k r" if "fine pending2 k r" for k and r :: "(literal_value \<times> parser) result"
    using that le_less_trans [OF ahead_pending(1)] by (auto simp: fine_def split: sum.splits)
  show ?thesis
    unfolding arrayElement_def using assms ahead_pending(2) [OF assms(1)]
    by (intro fine_if bind_pure [OF parseLiteralValue_fault] strict [OF byteArrayBody_fine] strict [OF assms(2)]
        fine_bind [OF negativeNumberOrBinary_fine] fine_mono [OF literalKeyword_fine])
      (auto split: prod.splits)
qed

lemma arrayBody_fine:
  "pending p < n \<Longrightarrow> \<not> isEnd (cls p) \<Longrightarrow> fine pending2 (pending p) (arrayBody n p)"
proof (induction n arbitrary: p)
  case (Suc n)
  show ?case
    unfolding arrayBody.simps
  proof (rule bind_step [OF Suc.prems(2)], rule bind_parse)
    fix p1
    assume p1: "pending p1 < pending p"
    show "fine pending2 (pending p)
      (while_result (\<lambda>(literals, p). \<not> is_char CHR '')'' (cls p) \<and> \<not> isEnd (cls p))
         (\<lambda>(literals, p). bind_result (arrayElement (arrayBody n) p) (\<lambda>(v, p).
            bind_result (step p) (\<lambda>p. Inr (literals @ [v], p)))) ([], p1))"
    proof (rule parse_whileI [OF p1])
      fix ls :: "literal_value list" and p2
      assume p2: "pending p2 < pending p" and "case (ls, p2) of (literals, p) \<Rightarrow> \<not> is_char CHR '')'' (cls p) \<and> \<not> isEnd (cls p)"
      then have ne: "\<not> isEnd (cls p2)" by simp
      then have "fine ahead2 (pending p2) (arrayElement (arrayBody n) p2)"
        using Suc.IH [of p2] Suc.prems(1) p2 by (intro arrayElement_fine) simp_all
      then show "fine pending2 (pending p2)
        (case (ls, p2) of (literals, p) \<Rightarrow> bind_result (arrayElement (arrayBody n) p) (\<lambda>(v, p).
            bind_result (step p) (\<lambda>p. Inr (literals @ [v], p))))"
        unfolding prod.case by (rule fine_bind) (auto split: prod.splits intro!: bind_step_le)
    qed
  qed simp
qed simp

lemma pending_parse_fuel: "pending p < parse_fuel p"
  by (auto simp: pending_def ahead_def held_def remaining_def parse_fuel_def split: option.splits)

lemma literalArray_fine: "\<not> isEnd (cls p) \<Longrightarrow> fine pending2 (pending p) (literalArray p)"
  unfolding literalArray_def
  by (rule bind_parse [OF arrayBody_fine [OF less_SucI [OF pending_parse_fuel]]])
    (auto intro!: bind_step_le intro: le_less_trans [OF order_trans [OF _ ahead_pending(1)]])

lemma literalByteArray_fine: "\<not> isEnd (cls p) \<Longrightarrow> fine pending2 (pending p) (literalByteArray p)"
  unfolding literalByteArray_def
  by (rule bind_parse [OF byteArrayBody_fine])
    (auto intro!: bind_step_le intro: le_less_trans [OF order_trans [OF _ ahead_pending(1)]])

section \<open>Statements and primaries\<close>

lemma while_names_fine:
  "pending p < k \<Longrightarrow>
   fine pending2 k
     (while_result (\<lambda>(xs, p). isName (cls p)) (\<lambda>(xs, p). bind_result (step p) (\<lambda>p'. Inr (xs @ [val p], p'))) (xs, p))"
  by (intro parse_whileI) (auto intro!: bind_step)

lemma temporaries_fine:
  assumes "pending p < k"
  shows "fine pending2 k (temporaries p)"
  unfolding temporaries_def using assms
  by (intro fine_if bind_step bind_parse [OF while_names_fine]) (auto intro!: bind_step)

lemma blockArguments_fine:
  assumes "pending p < k"
  shows "fine pending2 k (blockArguments p)"
  unfolding blockArguments_def
proof (rule fine_if)
  show "fine pending2 k (bind_result
    (while_result (\<lambda>(args, p). is_char CHR '':'' (cls p))
       (\<lambda>(args, p). bind_result (step p) (\<lambda>p.
          if \<not> isName (cls p) then Inl (parse_error ''argument missing'' p)
          else bind_result (step p) (\<lambda>p'. Inr (args @ [val p], p')))) ([], p))
    (\<lambda>(args, p).
       if isBar (cls p) \<or> is_string ''||'' (cls p) then bind_result (step p) (\<lambda>p. Inr (args, p))
       else Inl (parse_error ''missing |'' p)))"
  proof (rule bind_parse [of k], rule parse_whileI [OF assms])
    fix xs :: "egg_string list" and p :: parser
    assume "case (xs, p) of (args, p) \<Rightarrow> is_char CHR '':'' (cls p)"
    then show "fine pending2 (pending p)
      (case (xs, p) of (args, p) \<Rightarrow> bind_result (step p) (\<lambda>p.
          if \<not> isName (cls p) then Inl (parse_error ''argument missing'' p)
          else bind_result (step p) (\<lambda>p'. Inr (args @ [val p], p'))))"
      unfolding prod.case by (intro bind_step fine_if) auto
  qed (auto intro!: bind_step)
qed (use assms in simp)

text \<open>The parser of nested expressions on fewer than \<open>n\<close> pending tokens.\<close>

definition nested :: "nat \<Rightarrow> parse_node parse \<Rightarrow> bool" where
  "nested n E \<longleftrightarrow> (\<forall>p. pending p < n \<longrightarrow> fine pending2 (pending p) (E p))"

lemma nestedD: "nested n E \<Longrightarrow> pending p < n \<Longrightarrow> fine pending2 (pending p) (E p)"
  by (simp add: nested_def)

lemma bind_nested:
  assumes "nested n E" "pending p < n" "\<And>x p'. pending p' < pending p \<Longrightarrow> fine m k (f (x, p'))"
  shows "fine m k (bind_result (E p) f)"
  by (rule bind_parse, rule nestedD [OF assms(1,2)], rule assms(3))

lemma bind_skipDots:
  assumes "\<And>p'. pending p' \<le> pending p \<Longrightarrow> fine m k (f p')"
  shows "fine m k (bind_result (skipDots p) f)"
  by (rule fine_bind [OF skipDots_fine [of p "Suc (pending p)"]]) (use assms in auto)

lemma statement_fine:
  assumes "nested n E" "pending p < n"
  shows "fine pending2 (pending p) (statement E p)"
  unfolding statement_def return_statement_def using assms
  by (intro fine_if bind_step bind_nested [OF assms(1)] nestedD [OF assms(1)]) (auto intro!: bind_skipDots)

lemma statements_fine:
  assumes "nested n E" "pending p < n" "pending p < k"
  shows "fine pending2 k (statements E p)"
  unfolding statements_def
proof (rule bind_parse [of "min n k"], rule parse_whileI)
  fix x :: "bool \<times> parse_node list" and p :: parser
  assume "pending p < min n k"
  then show "fine pending2 (pending p)
    ((\<lambda>((go, stmts), p). bind_result (statement E p) (\<lambda>(stmt, p).
        if is_char CHR ''.'' (cls p) then bind_result (skipDots p) (\<lambda>p. Inr ((True, stmts @ [stmt]), p))
        else Inr ((False, stmts @ [stmt]), p))) (x, p))"
    by (auto intro!: bind_parse [OF statement_fine [OF assms(1)]] bind_skipDots split: prod.splits)
qed (use assms in \<open>auto split: prod.splits\<close>)

lemma block_fine:
  assumes "nested n E" "pending p \<le> n" "\<not> isEnd (cls p)"
  shows "fine pending2 (pending p) (block E p)"
  unfolding block_def
proof (rule bind_step [OF assms(3)])
  fix p1
  assume p1: "pending p1 < pending p"
  show "fine pending2 (pending p)
    (bind_result (blockArguments p1) (\<lambda>(args, p).
      bind_result (temporaries p) (\<lambda>(temps, p).
        bind_result (statements E p) (\<lambda>(stmts, p).
          if \<not> is_char CHR '']'' (cls p) then Inl (parse_error ''missing ]'' p)
          else bind_result (step p) (\<lambda>p. Inr (PBlock args temps stmts, p))))))"
    unfolding prod.case
  proof (rule bind_parse [OF blockArguments_fine [OF p1]], unfold prod.case, rule bind_parse [OF temporaries_fine],
      assumption, unfold prod.case)
    fix args p2 temps p3
    assume "pending p3 < pending p"
    then show "fine pending2 (pending p)
      (bind_result (statements E p3) (\<lambda>(stmts, p).
         if \<not> is_char CHR '']'' (cls p) then Inl (parse_error ''missing ]'' p)
         else bind_result (step p) (\<lambda>p. Inr (PBlock args temps stmts, p))))"
      using assms(2)
      by (intro bind_parse [OF statements_fine [OF assms(1)]]) (auto intro!: bind_step)
  qed
qed

lemma parenthesizedExpression_fine:
  assumes "nested n E" "pending p \<le> n" "\<not> isEnd (cls p)"
  shows "fine pending2 (pending p) (parenthesizedExpression E p)"
  unfolding parenthesizedExpression_def using assms(2)
  by (intro bind_step [OF assms(3)] bind_nested [OF assms(1)]) (auto intro!: bind_step)

lemma bracedArray_fine:
  assumes "nested n E" "pending p \<le> n" "\<not> isEnd (cls p)"
  shows "fine pending2 (pending p) (bracedArray E p)"
  unfolding bracedArray_def
proof (rule bind_step [OF assms(3)], rule bind_parse [of "pending p"], rule parse_whileI)
  fix elements :: "parse_node list" and p2
  assume "pending p2 < pending p"
  with assms(2) have "pending p2 < n" by simp
  then show "fine pending2 (pending p2)
    (case (elements, p2) of (elements, p) \<Rightarrow> bind_result (E p) (\<lambda>(expr, p).
       if is_char CHR ''.'' (cls p) then bind_result (step p) (\<lambda>p. Inr (elements @ [expr], p))
       else Inr (elements @ [expr], p)))"
    unfolding prod.case by (rule bind_nested [OF assms(1)]) (auto intro!: bind_step)
qed (auto intro!: bind_step)

text \<open>A primary that is found has consumed a token.\<close>

definition primary_left :: "parse_node option \<times> parser \<Rightarrow> nat" where
  "primary_left s = (case fst s of None \<Rightarrow> 0 | Some n \<Rightarrow> Suc (pending (snd s)))"

lemma found_fine: "fine pending2 k (F p) \<Longrightarrow> fine primary_left (Suc k) (found F p)"
  unfolding found_def by (rule bind_parse) (auto simp: primary_left_def)

lemma primary_fine:
  assumes "nested n E" "pending p \<le> n"
  shows "fine primary_left (Suc (pending p)) (primary E p)"
proof -
  have negative: "fine primary_left (Suc (pending p))
    (bind_result (negativeNumberOrBinary p) (\<lambda>(neg, p).
       if neg = LNone then Inr (None, p)
       else bind_result (step p) (\<lambda>p. Inr (Some (PLiteral neg), p))))" if "is_char CHR ''-'' (cls p)"
    by (rule fine_bind [OF negativeNumberOrBinary_fine]) (use that in \<open>auto intro!: bind_step_le simp: primary_left_def\<close>)
  show ?thesis
    unfolding primary_def
    by (intro fine_if bind_step bind_pure [OF parseLiteralValue_fault] negative found_fine block_fine [OF assms]
        parenthesizedExpression_fine [OF assms] bracedArray_fine [OF assms] literalArray_fine literalByteArray_fine)
      (auto simp: primary_left_def)
qed

lemma required_fine:
  assumes "nested n E" "pending p \<le> n"
  shows "fine pending2 (pending p) (required msg (primary E) p)"
  unfolding required_def
  by (rule fine_bind [OF primary_fine [OF assms]]) (auto simp: primary_left_def split: option.splits)

section \<open>Messages and expressions\<close>

lemma unaryMessage_fine: "\<not> isEnd (cls p) \<Longrightarrow> fine pending2 (pending p) (unaryMessage p)"
  unfolding unaryMessage_def by (intro bind_step) auto

lemma send_to_fine: "fine pending2 k (M p) \<Longrightarrow> fine pending2 k (send_to receiver M p)"
  unfolding send_to_def by (rule bind_parse) (auto split: prod.splits)

lemma unarySequence_fine: "pending p < k \<Longrightarrow> fine pending2 k (unarySequence receiver p)"
  unfolding unarySequence_def
  by (intro parse_whileI) (auto intro!: send_to_fine unaryMessage_fine)

lemma bind_required:
  assumes "nested n E" "pending p \<le> n" "\<And>x p'. pending p' < pending p \<Longrightarrow> fine m k (f (x, p'))"
  shows "fine m k (bind_result (required msg (primary E) p) f)"
  by (rule bind_parse, rule required_fine [OF assms(1,2)], rule assms(3))

lemma binaryMessage_fine:
  assumes "nested n E" "pending p \<le> n" "\<not> isEnd (cls p)"
  shows "fine pending2 (pending p) (binaryMessage E p)"
  unfolding binaryMessage_def
proof (rule bind_step [OF assms(3)], rule bind_required [OF assms(1)])
  fix p1 x p2
  assume "pending p1 < pending p" "pending p2 < pending p1"
  then show "fine pending2 (pending p)
    (case (x, p2) of (prim, p') \<Rightarrow> bind_result (unarySequence prim p') (\<lambda>(arg, p'). Inr ((val p, [arg]), p')))"
    unfolding prod.case by (intro bind_parse [OF unarySequence_fine]) auto
qed (use assms(2) in simp)

lemma binarySequence_fine:
  assumes "nested n E" "pending p \<le> n" "pending p < k"
  shows "fine pending2 k (binarySequence E receiver p)"
proof -
  have "fine pending2 (min k (Suc n)) (binarySequence E receiver p)"
    unfolding binarySequence_def
    by (intro parse_whileI) (use assms in \<open>auto intro!: send_to_fine binaryMessage_fine [OF assms(1)]\<close>)
  then show ?thesis
    by (rule fine_mono) simp
qed

text \<open>One keyword with its argument.\<close>

lemma keyword_part_fine:
  assumes "nested n E" "pending p \<le> n" "\<not> isEnd (cls p)"
  shows "fine pending2 (pending p)
    (bind_result (step p) (\<lambda>p'.
       bind_result (required ''argument missing'' (primary E) p') (\<lambda>(prim, p').
         bind_result (unarySequence prim p') (\<lambda>(arg, p').
           bind_result (binarySequence E arg p') (\<lambda>(arg, p').
             Inr ((selector @ val p, arguments @ [arg]), p'))))))"
proof (rule bind_step [OF assms(3)], rule bind_required [OF assms(1)])
  fix p1 prim p2
  assume less: "pending p1 < pending p" "pending p2 < pending p1"
  show "fine pending2 (pending p)
    (case (prim, p2) of (prim, p') \<Rightarrow>
       bind_result (unarySequence prim p') (\<lambda>(arg, p').
         bind_result (binarySequence E arg p') (\<lambda>(arg, p').
           Inr ((selector @ val p, arguments @ [arg]), p'))))"
    unfolding prod.case
  proof (rule bind_parse [OF unarySequence_fine [OF less(2)]], unfold prod.case,
      rule bind_parse [OF binarySequence_fine [OF assms(1)]])
    fix arg p3
    assume "pending p3 < pending p1"
    with less assms(2) show "pending p3 \<le> n" "pending p3 < pending p"
      by simp_all
  qed simp
qed (use assms(2) in simp)

lemma keywordMessage_fine:
  assumes "nested n E" "pending p \<le> n" "isKeyword (cls p)"
  shows "fine pending2 (pending p) (keywordMessage E p)"
proof -
  define b c where "b = (\<lambda>((selector :: egg_string, arguments :: parse_node list), p). isKeyword (cls p))"
    and "c = (\<lambda>((selector, arguments), p). bind_result (step p) (\<lambda>p'.
        bind_result (required ''argument missing'' (primary E) p') (\<lambda>(prim, p').
          bind_result (unarySequence prim p') (\<lambda>(arg, p').
            bind_result (binarySequence E arg p') (\<lambda>(arg, p').
              Inr ((selector @ val p, arguments @ [arg]), p'))))))"
  have c: "fine pending2 (pending q) (c (x, q))" if "pending q < Suc n" "b (x, q)" for x q
    using that keyword_part_fine [OF assms(1)] by (auto simp: b_def c_def split: prod.splits)
  have "keywordMessage E p = bind_result (c (([], []), p)) (while_result b c)"
    unfolding keywordMessage_def b_def [symmetric] c_def [symmetric]
    using assms(3) by (subst while_result_unfold) (simp add: b_def)
  moreover have "fine pending2 (pending p) (bind_result (c (([], []), p)) (while_result b c))"
  proof (rule bind_parse)
    show "fine pending2 (pending p) (c (([], []), p))"
      using c [of p "([], [])"] assms by (simp add: b_def)
  next
    fix x q
    assume "pending q < pending p"
    then show "fine pending2 (pending p) (while_result b c (x, q))"
      using c assms(2) by (intro parse_whileI) auto
  qed
  ultimately show ?thesis by simp
qed

lemma keywordSequence_fine:
  assumes "nested n E" "pending p \<le> n" "pending p < k"
  shows "fine pending2 k (keywordSequence E receiver p)"
  unfolding keywordSequence_def hasKeywordSelector_def using assms(3)
  by (intro fine_if send_to_fine fine_mono [OF keywordMessage_fine [OF assms(1,2)]]) auto

lemma cascadeMessage_fine:
  assumes "nested n E" "pending p \<le> n"
  shows "fine pending2 (pending p) (cascadeMessage E p)"
  unfolding cascadeMessage_def
  by (intro fine_if unaryMessage_fine binaryMessage_fine [OF assms] keywordMessage_fine [OF assms])
    (auto simp: hasKeywordSelector_def)

lemma cascadeSequence_fine:
  assumes "nested n E" "pending p \<le> n" "pending p < k"
  shows "fine pending2 k (cascadeSequence E receiver first p)"
  unfolding cascadeSequence_def
proof (rule fine_if, use assms(3) in simp, rule bind_parse [of "min k (Suc n)"], rule parse_whileI)
  fix messages :: "message list" and p2 :: parser
  assume "pending p2 < min k (Suc n)" and "case (messages, p2) of (messages, p) \<Rightarrow> is_char CHR '';'' (cls p)"
  then have "pending p2 \<le> n" "\<not> isEnd (cls p2)"
    by auto
  then show "fine pending2 (pending p2)
    (case (messages, p2) of (messages, p) \<Rightarrow> bind_result (step p) (\<lambda>p.
        bind_result (cascadeMessage E p) (\<lambda>(m, p). Inr (messages @ [m], p))))"
    unfolding prod.case
    by (intro bind_step) (auto intro!: bind_parse [OF cascadeMessage_fine [OF assms(1)]])
qed (use assms in auto)

lemma assignment_fine:
  assumes "nested n E" "pending p \<le> n" "\<not> isEnd (cls p)"
  shows "fine pending2 (pending p) (assignment E p)"
  unfolding assignment_def
proof (intro bind_step [OF assms(3)] bind_step_le)
  fix p1 p2
  assume "pending p1 < pending p" "pending p2 \<le> ahead p1"
  then have "pending p2 < pending p" "pending p2 < n"
    using ahead_pending(1) [of p1] assms(2) by simp_all
  then show "fine pending2 (pending p) (bind_result (E p2) (\<lambda>(expr, p'). Inr (PAssignment (val p) expr, p')))"
    by (intro bind_nested [OF assms(1)]) auto
qed

lemma operation_fine:
  assumes "nested n E" "pending p \<le> n"
  shows "fine pending2 (pending p) (operation E p)"
  unfolding operation_def
proof (rule bind_required [OF assms], unfold prod.case, rule bind_parse [OF unarySequence_fine], assumption, unfold prod.case)
  fix prim e p1 and p2 :: parser
  let ?k = "pending p"
  let ?cascade = "\<lambda>expr p. case expr of
       PMessage receiver selector arguments \<Rightarrow>
         if expr \<noteq> prim then cascadeSequence E receiver (selector, arguments) p else Inr (expr, p)
     | _ \<Rightarrow> Inr (expr, p)"
  assume "pending p2 < ?k"
  with assms(2) have p2: "pending p2 \<le> n" "pending p2 < ?k"
    by simp_all
  have cascade: "fine pending2 ?k (?cascade expr q)" if "pending q < ?k" for expr q
    using that assms(2) by (auto split: parse_node.split intro!: cascadeSequence_fine [OF assms(1)])
  show "fine pending2 ?k
    (bind_result (binarySequence E e p2) (\<lambda>(expr, p).
      bind_result (keywordSequence E expr p) (\<lambda>(expr, p).
        bind_result (?cascade expr p) (\<lambda>(expr, p).
          if \<not> endsExpression (cls p)
          then Inl (parse_error (''unexpected token: '' @ bytes_of (val p)) p)
          else Inr (expr, p)))))"
  proof (rule bind_parse [OF binarySequence_fine [OF assms(1) p2]], unfold prod.case,
      rule bind_parse [OF keywordSequence_fine [OF assms(1)]], unfold prod.case)
    fix p3
    assume "pending p3 < ?k"
    with assms(2) show "pending p3 \<le> n" "pending p3 < ?k"
      by simp_all
  next
    fix expr and p4 :: parser
    assume "pending p4 < ?k"
    then show "fine pending2 ?k (bind_result (?cascade expr p4) (\<lambda>(expr, p).
          if \<not> endsExpression (cls p)
          then Inl (parse_error (''unexpected token: '' @ bytes_of (val p)) p)
          else Inr (expr, p)))"
      by (intro bind_parse [OF cascade]) auto
  qed
qed

lemma expression_fine: "nested n (expression n)"
proof (induction n)
  case 0
  then show ?case by (simp add: nested_def)
next
  case (Suc n)
  show ?case
    unfolding nested_def
  proof (intro allI impI)
    fix p
    assume "pending p < Suc n"
    then have p: "pending p \<le> n" by simp
    have "fine pending2 (pending p)
      (if isAssignment (fst t) then assignment (expression n) p' else operation (expression n) p')"
      if "p_token p' = p_token p" "ahead p' \<le> ahead p" "isName (cls p)" for t p'
    proof -
      have "pending p' \<le> pending p"
        using that by (simp add: pending_def)
      moreover have "\<not> isEnd (cls p')"
        using that by auto
      ultimately show ?thesis
        using p fine_mono [OF assignment_fine [OF Suc.IH]] fine_mono [OF operation_fine [OF Suc.IH]] by simp
    qed
    then show "fine pending2 (pending p) (expression (Suc n) p)"
      unfolding expression.simps
      by (intro fine_if bind_peek operation_fine [OF Suc.IH p]) (unfold prod.case, blast)
  qed
qed

section \<open>Methods\<close>

lemma stoi_fault: "stoi v \<noteq> Inl OutOfFuel"
  by (auto simp: stoi_def c_integer_def Let_def split: prod.splits)

lemma addPragma_fine:
  assumes "pending p < k"
  shows "fine pending2 k (addPragma p)"
proof -
  have symbolic: "fine pending2 k (symbolicPragma p)" if "pending p < k" for p
    unfolding symbolicPragma_def using that by (auto intro!: bind_step_lt)
  have primitive: "fine pending2 k (pragma p)" if "pending p < k" for p
    unfolding pragma_def numberedPrimitive_def namedPrimitive_def
    by (rule bind_step_lt [OF that]) (auto intro!: bind_step_lt split: sum.split)
  show ?thesis
    unfolding addPragma_def using assms
  proof (intro fine_if bind_step_lt [of p k])
    fix p1
    assume "pending p1 < k"
    then have "fine pending2 k (if isKeyword (cls p1) \<and> val p1 = ascii ''primitive:'' then pragma p1 else symbolicPragma p1)"
      using primitive symbolic by simp
    then show "fine pending2 k (bind_result
        (if isKeyword (cls p1) \<and> val p1 = ascii ''primitive:'' then pragma p1 else symbolicPragma p1)
        (\<lambda>(node, p). if \<not> is_char CHR ''>'' (cls p) then Inl (parse_error ''missing >'' p)
           else bind_result (step p) (\<lambda>p. Inr (Some node, p))))"
      by (rule bind_parse) (auto intro!: bind_step_lt)
  qed simp_all
qed

lemma addBody_fine: "fine (\<lambda>s. 0) 1 (addBody selector arguments p)"
  unfolding addBody_def
proof (rule bind_parse [OF temporaries_fine [OF lessI]], unfold prod.case, rule bind_parse)
  fix temps and p1 :: parser
  assume "pending p1 < Suc (pending p)"
  then show "fine pending2 (Suc (pending p)) (if selector = None then Inr (None, p1) else addPragma p1)"
    by (auto intro: addPragma_fine)
next
  fix temps prag and p2 :: parser
  show "fine (\<lambda>s. 0) 1 (case (prag, p2) of (prag, p) \<Rightarrow>
      bind_result (statements (expression (parse_fuel p)) p) (\<lambda>(stmts, p).
        if \<not> isEnd (cls p) then Inl (parse_error ''unexpected statement'' p)
        else Inr (\<lparr> pm_selector = selector, pm_arguments = arguments, pm_temporaries = temps,
                    pm_pragma = prag, pm_statements = stmts \<rparr>, p)))"
    unfolding prod.case
    by (rule bind_parse [OF statements_fine [OF expression_fine pending_parse_fuel lessI]]) auto
qed

lemma keywordSignature_fine: "fine pending2 (Suc (pending p)) (keywordSignature p)"
  unfolding keywordSignature_def
proof (rule parse_whileI)
  fix x :: "egg_string \<times> egg_string list" and p :: parser
  assume "(\<lambda>((selector, arguments), p). isKeyword (cls p)) (x, p)"
  then have "\<not> isEnd (cls p)"
    by (auto split: prod.splits)
  then show "fine pending2 (pending p)
    ((\<lambda>((selector, arguments), p). bind_result (step p) (\<lambda>p1.
       if \<not> isName (cls p1) then Inl (parse_error ''argument missing'' p1)
       else bind_result (step p1) (\<lambda>p2. Inr ((selector @ val p, arguments @ [val p1]), p2)))) (x, p))"
    by (auto intro!: bind_step split: prod.splits)
qed simp

lemma methodSignature_fine: "fine pending2 (Suc (pending p)) (methodSignature p)"
  unfolding methodSignature_def binarySignature_def unarySignature_def
  by (intro fine_if keywordSignature_fine) (auto intro!: bind_step_lt)

lemma parse_method_fine: "fine (\<lambda>s. 0) 1 (parse_method peeked src)"
  unfolding parse_method_def
  by (rule fine_bind [OF step_fine], rule bind_parse [OF methodSignature_fine]) (simp add: case_prod_beta addBody_fine [simplified])

lemma headless_method_fine: "fine (\<lambda>s. 0) 1 (headless_method peeked src)"
  unfolding headless_method_def by (rule fine_bind [OF step_fine]) (rule addBody_fine)

text \<open>
  C9: The parser returns on every source text, whatever token an earlier parse left behind: it never
  uses up its fuel and no loop runs forever, so it answers a method or one of the errors of the scanner,
  the parser or the C library.
\<close>

theorem parser_terminates:
  "parse_method peeked src \<noteq> Inl OutOfFuel \<and> headless_method peeked src \<noteq> Inl OutOfFuel"
  using parse_method_fine [of peeked src] headless_method_fine [of peeked src] by (auto simp: fine_def)

end
