(* ===== verification/MethodRoundTrip.thy ===== *)
theory MethodRoundTrip
  imports ParserRoundTrip ParserTotal
begin

text \<open>
  The round trip of whole methods: the text of a method with its selector, arguments, temporaries,
  pragma and statements parses back to the method.
\<close>

section \<open>Tokens of nodes\<close>

lemma digits_ascii: "list_all ascii_digit (ascii (decimal n))"
proof -
  have "list_all (\<lambda>c. ascii_digit (chr c)) digit_chars"
    by code_simp
  then show ?thesis
    using decimal_chars [of n] by (auto simp: ascii_def list_all_iff)
qed

lemma number_token_scannable: "scannable (number_token n)"
  using digits_ascii [of n] decimal_digits [of n] by (cases "decimal n") (auto simp: number_token_def)

lemma special_scannable [simp]:
  "scannable (binary_token (ascii ''-''))" "scannable (binary_token (ascii ''|''))"
  "scannable (binary_token (ascii ''<''))" "scannable (binary_token (ascii ''>''))"
  "scannable (name_token (ascii ''nil''))" "scannable (name_token (ascii ''true''))" "scannable (name_token (ascii ''false''))"
  "scannable (name_token (ascii ''primitive:''))"
  by (simp_all add: binary_selector_def identifier_name_def keyword_part_def class_defs)

lemma name_scannable [simp]: "identifier_name v \<Longrightarrow> scannable (name_token v)"
  by simp

lemma delimiter_scannable [simp]: "s \<in> set delimiters \<Longrightarrow> scannable (delimiter s)"
  by (simp del: ascii_simps ascii_char)

lemma delimiters_mem [simp]:
  "''.'' \<in> set delimiters" "''['' \<in> set delimiters" "'']'' \<in> set delimiters" "''('' \<in> set delimiters"
  "'')'' \<in> set delimiters" "''{'' \<in> set delimiters" "''}'' \<in> set delimiters" "'';'' \<in> set delimiters"
  "''^'' \<in> set delimiters" "'':'' \<in> set delimiters" "'':='' \<in> set delimiters" "''#('' \<in> set delimiters"
  "''#['' \<in> set delimiters"
  by (simp_all add: delimiters_def)

lemma literal_scannable: "array_literal l \<Longrightarrow> list_all scannable (literal_tokens l)"
proof (induction l rule: literal_tokens.induct)
  case (1 i)
  then show ?case
    by (simp add: number_token_scannable del: ascii_simps ascii_char scannable.simps)
next
  case (5 bs)
  then show ?case
    by (auto simp: list_all_iff number_token_scannable simp del: ascii_simps ascii_char scannable.simps)
next
  case (6 ls)
  then show ?case
    by (auto simp: list_all_iff simp del: ascii_simps ascii_char scannable.simps)
next
  case (8 b)
  then show ?case
    by (cases b) (simp_all del: ascii_simps ascii_char scannable.simps)
qed (simp_all del: ascii_simps ascii_char scannable.simps add: scannable.simps(4-))

lemma paren_scannable: "list_all scannable ts \<Longrightarrow> list_all scannable (paren k l ts)"
  by (simp add: paren_def del: ascii_simps ascii_char scannable.simps)

lemma message_scannable:
  assumes "message_ok s as" "\<And>k a. a \<in> set as \<Longrightarrow> list_all scannable (f k a)"
  shows "list_all scannable (message_tokens f s as)"
proof -
  have "keyword_part k \<and> a \<in> set as" if "(k, a) \<in> set (zip (keyword_parts s) as)" "as \<noteq> []" "\<not> binary_selector s" for k a
    using assms(1) that(2,3) set_zip_leftD [OF that(1)] set_zip_rightD [OF that(1)] by (auto simp: message_ok_def list_all_iff)
  with assms show ?thesis
    by (fastforce simp: message_tokens_def message_ok_def list_all_iff)
qed

lemma separated_scannable: "list_all (list_all scannable) xs \<Longrightarrow> list_all scannable (separated xs)"
  by (cases xs) (auto simp: separated_def list_all_iff simp del: ascii_simps ascii_char scannable.simps)

lemma names_scannable:
  assumes "list_all identifier_name xs"
  shows "list_all scannable (temporaries_tokens xs)" "list_all scannable (arguments_tokens xs)"
  using assms
  by (auto simp: temporaries_tokens_def arguments_tokens_def list_all_iff
      simp del: ascii_simps ascii_char scannable.simps)

lemma list_all_tl: "list_all P xs \<Longrightarrow> list_all P (tl xs)"
  by (cases xs) simp_all

lemma node_scannable: "program_node e \<Longrightarrow> list_all scannable (node_tokens e)"
proof (induction e)
  case (PLiteral l)
  then show ?case
    using literal_scannable [of l] by (cases l) auto
next
  case (PMessage r s as)
  then have "list_all scannable (message_tokens argument_tokens s as)"
    by (intro message_scannable paren_scannable) (auto simp: list_all_iff)
  with PMessage show ?case
    by (simp add: paren_scannable)
next
  case (PCascade r ms)
  have "list_all scannable (message_tokens argument_tokens s as)" if "(s, as) \<in> set ms" for s as
    using that PCascade by (intro message_scannable paren_scannable) (fastforce simp: list_all_iff)+
  then have "list_all scannable (concat (map (\<lambda>(s, as). delimiter '';'' # message_tokens argument_tokens s as) ms))"
    by (auto simp: list_all_iff simp del: ascii_simps ascii_char scannable.simps)
  from list_all_tl [OF this] PCascade show ?case
    by (simp add: paren_scannable)
next
  case (PBlock args temps stmts)
  then have "list_all (list_all scannable) (map node_tokens stmts)"
    by (simp add: list_all_iff)
  with PBlock names_scannable show ?case
    by (simp add: separated_scannable del: ascii_simps ascii_char scannable.simps)
next
  case (PBrace es)
  then have "list_all (list_all scannable) (map node_tokens es)"
    by (simp add: list_all_iff)
  then show ?case
    by (simp add: separated_scannable del: ascii_simps ascii_char scannable.simps)
qed (simp_all del: ascii_simps ascii_char scannable.simps)

lemma sum_list_mono_length:
  fixes f :: "'a \<Rightarrow> nat"
  assumes "\<And>x. x \<in> set xs \<Longrightarrow> f x \<le> length (g x)"
  shows "sum_list (map f xs) \<le> length (concat (map g xs))"
  using assms by (induction xs) (auto intro: add_mono)

lemma literal_length: "array_literal l \<Longrightarrow> literal_weight l \<le> length (literal_tokens l)"
proof (induction l rule: literal_tokens.induct)
  case (6 ls)
  then have "sum_list (map literal_weight ls) \<le> length (concat (map literal_tokens ls))"
    by (intro sum_list_mono_length) (auto simp: list_all_iff)
  then show ?case by simp
qed simp_all

lemma paren_length: "length ts \<le> length (paren k l ts)"
  by (simp add: paren_def)

lemma message_length:
  assumes "message_ok s as" "\<And>k a. a \<in> set as \<Longrightarrow> w a \<le> length (f k a)"
  shows "Suc (sum_list (map w as)) \<le> length (message_tokens f s as)"
proof -
  consider "as = []" | a where "as = [a]" "binary_selector s" | "as \<noteq> []" "\<not> binary_selector s"
    using assms(1) by (auto simp: message_ok_def length_Suc_conv split: if_splits)
  then show ?thesis
  proof cases
    case 3
    then have "length (keyword_parts s) = length as"
      using assms(1) by (simp add: message_ok_def)
    then have "length as + sum_list (map w as) \<le> length (concat (map (\<lambda>(k, a). name_token k # f 2 a) (zip (keyword_parts s) as)))"
      using assms(2)
    proof (induction rule: list_induct2)
      case (Cons k ks a as)
      have "w a \<le> length (f 2 a)"
        using Cons.prems by simp
      moreover have "length as + sum_list (map w as) \<le> length (concat (map (\<lambda>(k, a). name_token k # f 2 a) (zip ks as)))"
        using Cons by simp
      ultimately show ?case by simp
    qed simp
    moreover have "1 \<le> length as"
      using 3 by (cases as) auto
    ultimately show ?thesis
      using 3 by (simp add: message_tokens_def)
  qed (use assms(2) in \<open>auto simp: message_tokens_def\<close>)
qed

lemma separated_length: "xs \<noteq> [] \<Longrightarrow> length (separated xs) = sum_list (map length xs) + length xs - 1"
  by (simp add: separated_def length_concat comp_def sum_list_Suc)

lemma separated_weight:
  assumes "\<And>x. x \<in> set xs \<Longrightarrow> w x \<le> length (f x)"
  shows "sum_list (map w xs) \<le> length (separated (map f xs))"
proof (cases "xs = []")
  case False
  have "sum_list (map w xs) \<le> sum_list (map (\<lambda>x. length (f x)) xs)"
    using assms by (rule sum_list_mono)
  moreover have "1 \<le> length xs"
    using False by (cases xs) auto
  ultimately show ?thesis
    using False by (simp add: separated_length comp_def)
qed simp

lemma node_length: "program_node e \<Longrightarrow> node_weight e \<le> length (node_tokens e)"
proof (induction e)
  case (PLiteral l)
  then show ?case
    using literal_length [of l] by (cases l) auto
next
  case (PMessage r s as)
  have "Suc (sum_list (map node_weight as)) \<le> length (message_tokens argument_tokens s as)"
  proof (rule message_length)
    fix k a
    assume "a \<in> set as"
    with PMessage show "node_weight a \<le> length (paren k (level a) (node_tokens a))"
      by (auto simp: list_all_iff intro: order_trans [OF _ paren_length])
  qed (use PMessage in simp)
  moreover have "node_weight r \<le> length (paren (min 2 (message_level s as)) (level r) (node_tokens r))"
    using PMessage by (auto intro: order_trans [OF _ paren_length])
  ultimately show ?case
    by simp
next
  case (PCascade r ms)
  let ?tk = "\<lambda>(s, as). delimiter '';'' # message_tokens argument_tokens s as"
  have msg: "Suc (sum_list (map node_weight as)) \<le> length (message_tokens argument_tokens s as)" if m: "(s, as) \<in> set ms" for s as
  proof (rule message_length)
    fix k a
    assume "a \<in> set as"
    with m PCascade have "node_weight a \<le> length (node_tokens a)"
      by (fastforce simp: list_all_iff)
    then show "node_weight a \<le> length (paren k (level a) (node_tokens a))"
      by (rule order_trans [OF _ paren_length])
  qed (use m PCascade in \<open>auto simp: list_all_iff\<close>)
  have "sum_list (map (\<lambda>(s, as). Suc (sum_list (map node_weight as))) ms) + length ms \<le> length (concat (map ?tk ms))"
    using msg
  proof (induction ms)
    case (Cons m ms)
    obtain s as where m: "m = (s, as)"
      by fastforce
    have "Suc (sum_list (map node_weight as)) \<le> length (message_tokens argument_tokens s as)"
      using Cons.prems m by simp
    moreover have "sum_list (map (\<lambda>(s, as). Suc (sum_list (map node_weight as))) ms) + length ms \<le> length (concat (map ?tk ms))"
      using Cons by simp
    ultimately show ?case
      by (simp add: m)
  qed simp
  moreover have "2 \<le> length ms"
    using PCascade by simp
  moreover have "node_weight r \<le> length (paren (case ms of [] \<Rightarrow> 0 | (s, as) # _ \<Rightarrow> min 2 (message_level s as)) (level r) (node_tokens r))"
    using PCascade by (auto intro: order_trans [OF _ paren_length])
  ultimately show ?case
    by simp
next
  case (PBlock args temps stmts)
  then have "sum_list (map node_weight stmts) \<le> length (separated (map node_tokens stmts))"
    by (intro separated_weight) (auto simp: list_all_iff)
  then show ?case by simp
next
  case (PBrace es)
  then have "sum_list (map node_weight es) \<le> length (separated (map node_tokens es))"
    by (intro separated_weight) (auto simp: list_all_iff)
  then show ?case by simp
qed simp_all

section \<open>Methods\<close>

fun pragma_tokens :: "parsed_pragma option \<Rightarrow> token_class list" where
  "pragma_tokens None = []"
| "pragma_tokens (Some (PrimitiveOf n v)) =
     [binary_token (ascii ''<''), name_token (ascii ''primitive:''),
      if v = [] then number_token (nat n) else name_token v, binary_token (ascii ''>'')]"
| "pragma_tokens (Some (SymbolicOf v)) = [binary_token (ascii ''<''), name_token v, binary_token (ascii ''>'')]"

definition method_tokens :: "parsed_method \<Rightarrow> token_class list" where
  "method_tokens m =
     message_tokens (\<lambda>k a. [name_token a]) (the (pm_selector m)) (pm_arguments m)
     @ temporaries_tokens (pm_temporaries m) @ pragma_tokens (pm_pragma m)
     @ separated (map node_tokens (pm_statements m))"

definition method_text :: "parsed_method \<Rightarrow> egg_string" where
  "method_text m = tokens_text (method_tokens m)"

text \<open>A pragma names its primitive or numbers it, within the range of \<open>int\<close>; a body that begins with its
  statements must not begin with a literal that the parser takes for a bar or a keyword.\<close>

fun pragma_ok :: "parsed_pragma option \<Rightarrow> bool" where
  "pragma_ok None = True"
| "pragma_ok (Some (PrimitiveOf n v)) = (if v = [] then 0 \<le> n \<and> n < 2 ^ 31 else n = 0 \<and> identifier_name v)"
| "pragma_ok (Some (SymbolicOf v)) = identifier_name v"

definition program_method :: "parsed_method \<Rightarrow> bool" where
  "program_method m \<longleftrightarrow>
     pm_selector m \<noteq> None \<and> message_ok (the (pm_selector m)) (pm_arguments m)
     \<and> list_all identifier_name (pm_arguments m) \<and> list_all identifier_name (pm_temporaries m)
     \<and> pragma_ok (pm_pragma m) \<and> statements_ok (pm_statements m) \<and> list_all program_node (pm_statements m)
     \<and> (pm_temporaries m = [] \<and> pm_pragma m = None \<and> pm_statements m \<noteq> [] \<longrightarrow>
          (let t = hd (node_tokens (hd (pm_statements m))) in \<not> isBar t \<and> \<not> isKeyword t))"

lemma method_scannable: "program_method m \<Longrightarrow> list_all scannable (method_tokens m)"
proof -
  assume m: "program_method m"
  have "list_all scannable (message_tokens (\<lambda>k a. [name_token a]) (the (pm_selector m)) (pm_arguments m))"
    using m by (intro message_scannable) (auto simp: program_method_def list_all_iff simp del: scannable.simps)
  moreover have "list_all scannable (pragma_tokens (pm_pragma m))"
    using m number_token_scannable
    by (cases "pm_pragma m" rule: pragma_tokens.cases)
      (simp_all add: program_method_def del: ascii_simps ascii_char scannable.simps split: if_splits)
  moreover have "list_all scannable (separated (map node_tokens (pm_statements m)))"
    using m node_scannable by (intro separated_scannable) (auto simp: program_method_def list_all_iff)
  ultimately show ?thesis
    using m names_scannable(1) by (simp add: method_tokens_def program_method_def)
qed

lemma tokens_text_length: "length ts < length (tokens_text ts)"
  by (induction ts) (simp_all add: tokens_text_simps)

lemma stoi_decimal:
  assumes "n < 2 ^ 31"
  shows "stoi (bytes_of (ascii (decimal n))) = Inr (int n)"
proof -
  have digits: "\<forall>c\<in>set (decimal n). valid_digit 10 c" "digits_value 10 (decimal n) = n" "decimal n \<noteq> []"
    using decimal_digits [of n] by (auto simp: list_all_iff)
  then obtain c cs where c: "decimal n = c # cs"
    by (cases "decimal n") auto
  have "c \<in> set digit_chars"
    using decimal_chars [of n] c by simp
  then have "\<not> c_space c" "c \<noteq> CHR ''-''" "c \<noteq> CHR ''+''"
    by (auto simp: digit_chars_def c_space_def)
  then have "c_sign (decimal n) = (False, decimal n)"
    by (simp add: c_sign_def c)
  with digits assms show ?thesis
    unfolding bytes_of_decimal
    by (simp add: stoi_def c_integer_def Let_def takeWhile_eq_all_conv [THEN iffD2])
qed

lemma primitive_gives:
  assumes "upcoming src p (k # (if v = [] then number_token (nat n) else name_token v) # u # ys)"
    "pragma_ok (Some (PrimitiveOf n v))"
  shows "gives src (pragma p) (PrimitiveOf n v) (u # ys)"
  unfolding pragma_def
proof (rule gives_step [OF assms(1)])
  fix q
  assume q: "upcoming src q ((if v = [] then number_token (nat n) else name_token v) # u # ys)"
  note cls = upcoming_cls [OF q]
  show "gives src (if isLiteral (cls q) then numberedPrimitive q
      else if isName (cls q) then namedPrimitive q
      else Inl (parse_error ''invalid pragma format'' q)) (PrimitiveOf n v) (u # ys)"
  proof (cases "v = []")
    case True
    then have "stoi (bytes_of (val q)) = Inr n"
      using assms(2) stoi_decimal [of "nat n"] by (simp add: cls nat_less_iff)
    with True q show ?thesis
      by (auto simp: cls numberedPrimitive_def intro!: gives_step gives_Inr)
  next
    case False
    then have "isName (name_token v)"
      using assms(2) False name_token_class(1) [of v] by (simp del: isName.simps)
    with False assms(2) q show ?thesis
      by (auto simp: cls namedPrimitive_def simp del: isName.simps intro!: gives_step gives_Inr)
  qed
qed

lemma pragma_gives:
  assumes "pragma_ok pr" "upcoming src p (pragma_tokens pr @ t # ys)" "pr = None \<longrightarrow> \<not> is_char CHR ''<'' t"
  shows "gives src (addPragma p) pr (t # ys)"
proof (cases pr)
  case None
  with assms show ?thesis
    by (simp add: addPragma_def upcoming_cls gives_Inr)
next
  case (Some node)
  let ?close = "binary_token (ascii ''>'')"
  obtain u us where us: "pragma_tokens pr @ t # ys = binary_token (ascii ''<'') # u # us"
    and node: "\<And>q. upcoming src q (u # us) \<Longrightarrow>
      gives src (if isKeyword (cls q) \<and> val q = ascii ''primitive:'' then pragma q else symbolicPragma q) node (?close # t # ys)"
  proof (cases node)
    case (PrimitiveOf n v)
    show ?thesis
    proof (rule that)
      fix q
      assume q: "upcoming src q (name_token (ascii ''primitive:'') # (if v = [] then number_token (nat n) else name_token v) # ?close # t # ys)"
      then have "gives src (pragma q) node (?close # t # ys)"
        using assms(1) Some unfolding PrimitiveOf by (intro primitive_gives) simp_all
      then show "gives src (if isKeyword (cls q) \<and> val q = ascii ''primitive:'' then pragma q else symbolicPragma q) node (?close # t # ys)"
        by (simp add: upcoming_cls [OF q])
    qed (simp add: Some PrimitiveOf)
  next
    case (SymbolicOf v)
    then have v: "\<not> isKeyword (name_token v)"
      using assms(1) Some name_token_class(2) [of v] by simp
    show ?thesis
    proof (rule that)
      fix q
      assume q: "upcoming src q (name_token v # ?close # t # ys)"
      with v show "gives src (if isKeyword (cls q) \<and> val q = ascii ''primitive:'' then pragma q else symbolicPragma q) node (?close # t # ys)"
        by (auto simp: upcoming_cls [OF q] symbolicPragma_def SymbolicOf simp del: isKeyword.simps intro!: gives_step gives_Inr)
    qed (simp add: Some SymbolicOf)
  qed
  have p: "upcoming src p (binary_token (ascii ''<'') # u # us)"
    using assms(2) us by simp
  have "gives src (bind_result (step p) (\<lambda>p. bind_result
        (if isKeyword (cls p) \<and> val p = ascii ''primitive:'' then pragma p else symbolicPragma p)
        (\<lambda>(node, p). if \<not> is_char CHR ''>'' (cls p) then Inl (parse_error ''missing >'' p)
           else bind_result (step p) (\<lambda>p. Inr (Some node, p))))) pr (t # ys)"
    by (rule gives_step [OF p], rule gives_bind, erule node) (auto simp: upcoming_cls Some intro!: gives_step gives_Inr)
  then show ?thesis
    by (simp add: addPragma_def upcoming_cls [OF p])
qed

text \<open>The header of a method.\<close>

abbreviation header_tokens :: "egg_string \<Rightarrow> egg_string list \<Rightarrow> token_class list" where
  "header_tokens \<equiv> message_tokens (\<lambda>k a. [name_token a])"

lemma keywordSignature_gives:
  assumes "list_all (\<lambda>(k, a). keyword_part k \<and> identifier_name a) kas" "\<not> isKeyword t"
    "upcoming src p (concat (map (\<lambda>(k, a). [name_token k, name_token a]) kas) @ t # ys)"
  shows "gives src (keywordSignature p) (concat (map fst kas), map snd kas) (t # ys)"
proof -
  let ?b = "\<lambda>((selector :: egg_string, arguments :: egg_string list), p). isKeyword (cls p)"
  let ?c = "\<lambda>((selector, arguments), p). bind_result (step p) (\<lambda>p1.
      if \<not> isName (cls p1) then Inl (parse_error ''argument missing'' p1)
      else bind_result (step p1) (\<lambda>p2. Inr ((selector @ val p, arguments @ [val p1]), p2)))"
  let ?f = "\<lambda>(sel, args) (k, a). (sel @ k, args @ [a])"
  have "gives src (while_result ?b ?c (([], []), p)) (foldl ?f ([], []) kas) (t # ys)"
  proof (rule gives_while_list [OF _ _ _ assms(3)])
    fix ka and acc :: "egg_string \<times> egg_string list" and q and zs :: "token_class list"
    assume "ka \<in> set kas" and q: "upcoming src q ((\<lambda>(k, a). [name_token k, name_token a]) ka @ zs)" and "zs \<noteq> []"
    then obtain k a z zt where ka: "ka = (k, a)" "zs = z # zt" "keyword_part k" "identifier_name a"
      using assms(1) by (cases zs; cases ka) (auto simp: list_all_iff)
    obtain sel args where acc: "acc = (sel, args)"
      by fastforce
    have q: "upcoming src q (name_token k # name_token a # z # zt)"
      using q ka by simp
    have "isKeyword (name_token k)" "isName (name_token a)"
      using ka keyword_token_class(1) name_token_class(1) by blast+
    with q ka show "?b (acc, q) \<and> gives src (?c (acc, q)) (?f acc ka) zs"
      by (auto simp: upcoming_cls acc simp del: isName.simps isKeyword.simps intro!: gives_step gives_Inr)
  qed (use assms(2) in \<open>auto simp: upcoming_cls\<close>)
  moreover have "foldl ?f (sel, args) kas = (sel @ concat (map fst kas), args @ map snd kas)" for sel args
    by (induction kas arbitrary: sel args) auto
  ultimately show ?thesis
    by (simp add: keywordSignature_def)
qed

lemma methodSignature_gives:
  assumes "message_ok s as" "list_all identifier_name as" "\<not> isKeyword t"
    "upcoming src p (header_tokens s as @ t # ys)"
  shows "gives src (methodSignature p) (s, as) (t # ys)"
proof -
  consider "as = []" | a where "as = [a]" "binary_selector s" | "as \<noteq> []" "\<not> binary_selector s"
    using assms(1) by (auto simp: message_ok_def length_Suc_conv split: if_splits)
  then show ?thesis
  proof cases
    case 1
    then have p: "upcoming src p (name_token s # t # ys)" and s: "identifier_name s"
      using assms(1,4) by (simp_all add: message_tokens_def message_ok_def)
    have "isName (name_token s)" "\<not> isKeyword (name_token s)" "\<not> hasBinarySelector p"
      using name_token_class [OF s] p by (simp_all add: hasBinarySelector_def upcoming_cls del: isName.simps isKeyword.simps is_char.simps)
    with 1 p show ?thesis
      by (auto simp: methodSignature_def hasKeywordSelector_def hasUnarySelector_def unarySignature_def upcoming_cls
          simp del: isName.simps isKeyword.simps intro!: gives_step gives_Inr)
  next
    case 2
    then have p: "upcoming src p (binary_token s # name_token a # t # ys)" and "identifier_name a"
      using assms(2,4) by (simp_all add: message_tokens_def)
    then have "isName (name_token a)" "\<not> isKeyword (binary_token s)" "hasSymbol (binary_token s)"
      using name_token_class(1) [of a] binary_token_class [OF 2(2)] by blast+
    with 2 p show ?thesis
      by (auto simp: methodSignature_def hasKeywordSelector_def hasBinarySelector_def binarySignature_def upcoming_cls
          simp del: isName.simps isKeyword.simps intro!: gives_step gives_Inr)
  next
    case 3
    then have len: "length (keyword_parts s) = length as" and kw: "list_all keyword_part (keyword_parts s)"
      using assms(1) by (auto simp: message_ok_def)
    let ?kas = "zip (keyword_parts s) as"
    have kas: "list_all (\<lambda>(k, a). keyword_part k \<and> identifier_name a) ?kas"
      using kw assms(2) by (auto simp: list_all_iff dest: set_zip_leftD set_zip_rightD)
    have p: "upcoming src p (concat (map (\<lambda>(k, a). [name_token k, name_token a]) ?kas) @ t # ys)"
      using 3 assms(4) by (simp add: message_tokens_def)
    then have "gives src (keywordSignature p) (concat (map fst ?kas), map snd ?kas) (t # ys)"
      by (rule keywordSignature_gives [OF kas assms(3)])
    then have gives: "gives src (keywordSignature p) (s, as) (t # ys)"
      using len by (simp add: concat_keyword_parts)
    obtain k a kas' where "?kas = (k, a) # kas'" "keyword_part k"
      using 3 len kas by (cases ?kas) (auto simp: zip_eq_Nil_iff)
    then have "isKeyword (cls p)"
      using p keyword_token_class(1) [of k] by (simp add: upcoming_cls del: isKeyword.simps)
    with gives show ?thesis
      by (simp add: methodSignature_def hasKeywordSelector_def)
  qed
qed

text \<open>The body of a method, up to the end of the source.\<close>

lemma addBody_gives:
  assumes "program_method m" "\<forall>s\<in>set (pm_statements m). node_weight s \<le> length src + 3"
    "upcoming src p (temporaries_tokens (pm_temporaries m) @ pragma_tokens (pm_pragma m)
       @ separated (map node_tokens (pm_statements m)) @ [EndToken])"
  shows "gives src (addBody (pm_selector m) (pm_arguments m) p) m [EndToken]"
proof -
  let ?stmts = "separated (map node_tokens (pm_statements m)) @ [EndToken]"
  have ok: "pm_selector m \<noteq> None" "list_all identifier_name (pm_temporaries m)" "pragma_ok (pm_pragma m)"
    "statements_ok (pm_statements m)" "list_all program_node (pm_statements m)"
    using assms(1) by (simp_all add: program_method_def)
  have first: "\<exists>u us. ?stmts = u # us \<and> \<not> is_char CHR ''<'' u \<and> \<not> is_string ''||'' u
      \<and> (pm_temporaries m = [] \<and> pm_pragma m = None \<longrightarrow> \<not> isBar u)"
  proof (cases "pm_statements m")
    case (Cons s ss)
    then obtain u us where u: "node_tokens s = u # us" "first_ok u"
      using node_first [of s] ok(5) by auto
    with Cons assms(1) have "pm_temporaries m = [] \<and> pm_pragma m = None \<longrightarrow> \<not> isBar u"
      by (simp add: program_method_def Let_def)
    with u Cons show ?thesis
      by (auto simp: separated_Cons first_ok_def)
  qed (simp add: separated_def)
  then obtain u us where u: "?stmts = u # us" "\<not> is_char CHR ''<'' u" "\<not> is_string ''||'' u"
    "pm_temporaries m = [] \<and> pm_pragma m = None \<longrightarrow> \<not> isBar u"
    by blast
  obtain v vs where v: "pragma_tokens (pm_pragma m) @ u # us = v # vs" "pm_temporaries m = [] \<longrightarrow> \<not> isBar v" "\<not> is_string ''||'' v"
    using u by (cases "pm_pragma m" rule: pragma_tokens.cases) auto
  show ?thesis
    unfolding addBody_def
  proof (rule gives_bind, unfold prod.case, rule temporaries_gives [OF ok(2) _ v(2,3)])
    show "upcoming src p (temporaries_tokens (pm_temporaries m) @ v # vs)"
      using assms(3) u(1) v(1) by simp
  next
    fix p1
    assume "upcoming src p1 (v # vs)"
    then have p1: "gives src (addPragma p1) (pm_pragma m) (u # us)"
      using v(1) u(2) ok(3) by (intro pragma_gives) simp_all
    show "gives src (bind_result (if pm_selector m = None then Inr (None, p1) else addPragma p1) (\<lambda>(prag, p).
        bind_result (statements (expression (parse_fuel p)) p) (\<lambda>(stmts, p).
          if \<not> isEnd (cls p) then Inl (parse_error ''unexpected statement'' p)
          else Inr (\<lparr> pm_selector = pm_selector m, pm_arguments = pm_arguments m, pm_temporaries = pm_temporaries m,
                      pm_pragma = prag, pm_statements = stmts \<rparr>, p)))) m [EndToken]"
      unfolding if_not_P [OF ok(1)]
    proof (rule gives_bind [OF p1], unfold prod.case)
      fix p2
      assume p2: "upcoming src p2 (u # us)"
      have "gives src (statements (expression (length src + 3)) p2) (pm_statements m) [EndToken]"
        using p2 u(1) ok assms(2) by (intro statements_gives [OF reads_all [OF order_refl]]) (simp_all add: terminator_def)
      then show "gives src (bind_result (statements (expression (parse_fuel p2)) p2) (\<lambda>(stmts, p).
          if \<not> isEnd (cls p) then Inl (parse_error ''unexpected statement'' p)
          else Inr (\<lparr> pm_selector = pm_selector m, pm_arguments = pm_arguments m, pm_temporaries = pm_temporaries m,
                      pm_pragma = pm_pragma m, pm_statements = stmts \<rparr>, p))) m [EndToken]"
        unfolding upcoming_fuel [OF p2] by (rule gives_bind) (simp add: upcoming_cls, simp add: gives_def)
    qed
  qed
qed

lemma body_first:
  assumes "program_method m"
  obtains u us where "temporaries_tokens (pm_temporaries m) @ pragma_tokens (pm_pragma m)
    @ separated (map node_tokens (pm_statements m)) @ [EndToken] = u # us" "\<not> isKeyword u"
proof (cases "pm_temporaries m = [] \<and> pm_pragma m = None")
  case True
  show ?thesis
  proof (cases "pm_statements m")
    case (Cons s ss)
    then obtain u us where "node_tokens s = u # us"
      using node_first [of s] assms by (auto simp: program_method_def)
    moreover have "\<not> isKeyword u"
      using calculation True Cons assms by (simp add: program_method_def Let_def)
    ultimately show ?thesis
      using that True Cons by (simp add: temporaries_tokens_def separated_Cons)
  qed (use that True in \<open>simp add: temporaries_tokens_def separated_def\<close>)
next
  case False
  then consider "pm_temporaries m \<noteq> []" | n v where "pm_temporaries m = []" "pm_pragma m = Some (PrimitiveOf n v)"
    | v where "pm_temporaries m = []" "pm_pragma m = Some (SymbolicOf v)"
    by (cases "pm_pragma m" rule: pragma_tokens.cases) auto
  then show ?thesis
    by cases (auto simp: temporaries_tokens_def intro: that)
qed

lemma method_weights:
  assumes "program_method m" "s \<in> set (pm_statements m)"
  shows "node_weight s \<le> length (method_text m)"
proof -
  have "node_weight s \<le> sum_list (map node_weight (pm_statements m))"
    using assms(2) by (intro member_le_sum_list) auto
  also have "\<dots> \<le> length (separated (map node_tokens (pm_statements m)))"
    using assms(1) node_length by (intro separated_weight) (simp add: program_method_def list_all_iff)
  also have "\<dots> \<le> length (method_tokens m)"
    by (simp add: method_tokens_def)
  also have "\<dots> \<le> length (method_text m)"
    using tokens_text_length [of "method_tokens m"] by (simp add: method_text_def)
  finally show ?thesis .
qed

lemma start_upcoming:
  assumes "list_all scannable ts"
  shows "\<exists>p. step (start_parser None (tokens_text ts)) = Inr p \<and> upcoming (tokens_text ts) p (ts @ [EndToken])"
proof -
  obtain t us where us: "ts @ [EndToken] = t # us"
    by (rule append_Cons_first)
  have "yields (on_source (tokens_text ts)) (ts @ [EndToken])"
    using yields_text [OF assms, of "[]"] by (simp add: on_source_st)
  then obtain a s where "nextToken (on_source (tokens_text ts)) = Inr ((t, a), s)" "yields s us"
    unfolding us by auto
  then show ?thesis
    using nextToken_source us by (auto simp: step_def start_parser_def upcoming_def on_source_def)
qed

text \<open>
  C1: The parser reads back every method that the printer writes: its selector and arguments, its
  temporaries, its numbered, named or symbolic pragma and all its statements, with messages, cascades,
  assignments, blocks, brace arrays, returns and literals nested to any depth and only the parentheses
  that precedence requires.
\<close>

theorem parse_round_trip:
  assumes "program_method m"
  shows "\<exists>p. parse_method None (method_text m) = Inr (m, p)"
proof -
  let ?src = "method_text m"
  let ?body = "temporaries_tokens (pm_temporaries m) @ pragma_tokens (pm_pragma m)
    @ separated (map node_tokens (pm_statements m)) @ [EndToken]"
  obtain s where s: "pm_selector m = Some s" "message_ok s (pm_arguments m)" "list_all identifier_name (pm_arguments m)"
    using assms by (auto simp: program_method_def)
  obtain p where p: "step (start_parser None ?src) = Inr p" "upcoming ?src p (header_tokens s (pm_arguments m) @ ?body)"
    using start_upcoming [OF method_scannable [OF assms]] s(1) by (auto simp: method_text_def method_tokens_def)
  obtain u us where u: "?body = u # us" "\<not> isKeyword u"
    by (rule body_first [OF assms])
  have "gives ?src (methodSignature p) (s, pm_arguments m) (u # us)"
    using p(2) u s by (intro methodSignature_gives) simp_all
  then obtain p1 where p1: "methodSignature p = Inr ((s, pm_arguments m), p1)" "upcoming ?src p1 ?body"
    unfolding u(1) by (auto simp: gives_def)
  have "gives ?src (addBody (pm_selector m) (pm_arguments m) p1) m [EndToken]"
    using method_weights [OF assms] p1(2) by (intro addBody_gives [OF assms]) (auto intro: le_SucI trans_le_add1)
  then show ?thesis
    using p(1) p1(1) s(1) by (auto simp: parse_method_def gives_def)
qed

text \<open>The method \<open>at: i put: x | t | <primitive: 5> t := (x foo: #(1 $b)) + i bar. ^[:z | z + 1; at: -3]\<close>.\<close>

definition round_trip_sample :: parsed_method where
  "round_trip_sample = \<lparr> pm_selector = Some (ascii ''at:put:''), pm_arguments = [ascii ''i'', ascii ''x''],
     pm_temporaries = [ascii ''t''], pm_pragma = Some (PrimitiveOf 5 []),
     pm_statements =
       [PAssignment (ascii ''t'')
          (PMessage (PMessage (PIdentifier (ascii ''x'')) (ascii ''foo:'') [PLiteral (LArray [LInteger 1, LCharacter 0x62])])
             (ascii ''+'') [PMessage (PIdentifier (ascii ''i'')) (ascii ''bar'') []]),
        PReturn (PBlock [ascii ''z''] []
          [PCascade (PIdentifier (ascii ''z'')) [(ascii ''+'', [PLiteral (LInteger 1)]), (ascii ''at:'', [PLiteral (LInteger (- 3))])]])] \<rparr>"

lemma parse_round_trip_witness: "\<exists>p. parse_method None (method_text round_trip_sample) = Inr (round_trip_sample, p)"
proof (rule parse_round_trip)
  show "program_method round_trip_sample"
    by (simp add: round_trip_sample_def program_method_def message_ok_def keyword_parts.simps identifier_name_def
        keyword_part_def binary_selector_def class_defs statements_ok_def smi_limits)
qed

end
