(* ===== verification/ParserErrors.thy ===== *)
theory ParserErrors
  imports MethodRoundTrip
begin

text \<open>
  Sources on which the parser does not do what the program means, each stated over the text that the
  printer writes: a string literal taken for a bar, the least small integer read as a large one, the byte
  of a byte array read as an octal number, and a token left over from a parse that failed.
\<close>

section \<open>A string literal is taken for a bar\<close>

definition bar_method :: parsed_method where
  "bar_method = \<lparr> pm_selector = Some (ascii ''foo''), pm_arguments = [], pm_temporaries = [], pm_pragma = None,
     pm_statements = [PBlock [] [] [PLiteral (LString (ascii ''|''))]] \<rparr>"

abbreviation bar_literal :: token_class where
  "bar_literal \<equiv> StringToken (ascii ''|'') LitString"

lemma temporaries_bar_literal:
  assumes "upcoming src p (bar_literal # delimiter '']'' # ts)"
  shows "\<exists>q. temporaries p = Inl (parse_error ''missing |'' q)"
proof -
  obtain q where q: "step p = Inr q" "upcoming src q (delimiter '']'' # ts)"
    using step_upcoming [OF assms] by blast
  show ?thesis
    unfolding temporaries_def using q
    by (subst while_result_unfold) (auto simp: upcoming_cls [OF assms] upcoming_cls [OF q(2)])
qed

lemma block_bar_literal:
  assumes "upcoming src p (delimiter ''['' # bar_literal # delimiter '']'' # ts)"
  shows "\<exists>q. block E p = Inl (parse_error ''missing |'' q)"
proof -
  obtain p1 where p1: "step p = Inr p1" "upcoming src p1 (bar_literal # delimiter '']'' # ts)"
    using step_upcoming [OF assms] by blast
  obtain q where "temporaries p1 = Inl (parse_error ''missing |'' q)"
    using temporaries_bar_literal [OF p1(2)] by blast
  then show ?thesis
    using p1 by (auto simp: block_def blockArguments_def upcoming_cls [OF p1(2)])
qed

lemma statements_bar_literal:
  assumes "upcoming src p (delimiter ''['' # bar_literal # delimiter '']'' # ts)"
  shows "\<exists>q. statements (expression (Suc n)) p = Inl (parse_error ''missing |'' q)"
proof -
  obtain q where "block (expression n) p = Inl (parse_error ''missing |'' q)"
    using block_bar_literal [OF assms] by blast
  then show ?thesis
    unfolding statements_def
    by (subst while_result_unfold)
      (simp add: upcoming_cls [OF assms] endsExpression_def statement_def operation_def required_def primary_def found_def, blast)
qed

text \<open>
  The method \<open>foo ['|']\<close> does not parse: the literal at the start of the block is taken for the bar
  that opens temporaries, and the parser reports that the closing bar is missing.
\<close>

theorem bar_literal_rejected:
  "\<exists>q. parse_method None (method_text bar_method) = Inl (parse_error ''missing |'' q)"
proof -
  let ?src = "method_text bar_method"
  let ?body = "[delimiter ''['', bar_literal, delimiter '']'', EndToken]"
  have tokens: "method_tokens bar_method @ [EndToken] = name_token (ascii ''foo'') # ?body"
    by (simp add: method_tokens_def bar_method_def message_tokens_def temporaries_tokens_def arguments_tokens_def separated_def)
  have "list_all scannable (method_tokens bar_method)"
    unfolding method_tokens_def bar_method_def
    by (simp add: message_tokens_def temporaries_tokens_def arguments_tokens_def separated_def
        identifier_name_def class_defs delimiters_def)
  then obtain p where p: "step (start_parser None ?src) = Inr p" "upcoming ?src p (name_token (ascii ''foo'') # ?body)"
    using start_upcoming tokens unfolding method_text_def by metis
  have "upcoming ?src p (header_tokens (ascii ''foo'') [] @ ?body)"
    using p(2) by (simp add: message_tokens_def)
  then have "gives ?src (methodSignature p) (ascii ''foo'', []) ?body"
    by (intro methodSignature_gives) (simp_all add: message_ok_def identifier_name_def class_defs)
  then obtain p1 where p1: "methodSignature p = Inr ((ascii ''foo'', []), p1)" "upcoming ?src p1 ?body"
    by (auto simp: gives_def)
  obtain q where "statements (expression (parse_fuel p1)) p1 = Inl (parse_error ''missing |'' q)"
    using statements_bar_literal [OF p1(2), of "length ?src + 2"] upcoming_fuel [OF p1(2)] by (auto simp: numeral_3_eq_3)
  moreover have "temporaries p1 = Inr ([], p1)" "addPragma p1 = Inr (None, p1)"
    using upcoming_cls [OF p1(2)] by (simp_all add: temporaries_def addPragma_def)
  ultimately show ?thesis
    using p(1) p1(1) by (auto simp: parse_method_def addBody_def)
qed

section \<open>Literals\<close>

lemma least_number: "\<exists>bs. parseLiteralValue (number_token (2 ^ 62)) = Inr (LLargeInteger bs False)"
proof -
  have "\<not> smi_range (2 ^ 62)"
    by (simp add: smi_range_def smi_limits)
  then show ?thesis
    using fromIntegerDigits_spec [of 10 "decimal (2 ^ 62)" False] decimal_digits [of "2 ^ 62"] by (auto simp: parse_number)
qed

lemma least_primary:
  assumes "upcoming src p [binary_token (ascii ''-''), number_token (2 ^ 62), EndToken]"
  shows "\<exists>bs q. primary E p = Inr (Some (PLiteral (LLargeInteger bs True)), q)"
proof -
  obtain bs where "parseLiteralValue (number_token (2 ^ 62)) = Inr (LLargeInteger bs False)"
    using least_number by blast
  then obtain q where q: "negativeNumberOrBinary p = Inr (LLargeInteger bs True, q)"
    "upcoming src q [number_token (2 ^ 62), EndToken]"
    using negated_gives [OF assms] by (fastforce simp: gives_def)
  then show ?thesis
    using step_upcoming [OF q(2)] by (auto simp: primary_def upcoming_cls [OF assms])
qed

text \<open>
  The least small integer is read as a large integer: the parser reads the digits without their sign,
  which are out of the range of small integers, and then only marks the large integer as negative.
\<close>

theorem least_integer_large:
  "\<exists>p bs q. step (start_parser None (tokens_text (literal_tokens (LInteger SMALLINT_MIN)))) = Inr p \<and>
     primary E p = Inr (Some (PLiteral (LLargeInteger bs True)), q)"
proof -
  have tokens: "literal_tokens (LInteger SMALLINT_MIN) = [binary_token (ascii ''-''), number_token (2 ^ 62)]"
    by (simp add: smi_limits)
  have "list_all scannable (literal_tokens (LInteger SMALLINT_MIN))"
    unfolding tokens using number_token_scannable special_scannable(1) by (simp only: list.pred_inject)
  from start_upcoming [OF this] obtain p where p: "step (start_parser None (tokens_text (literal_tokens (LInteger SMALLINT_MIN)))) = Inr p"
    "upcoming (tokens_text (literal_tokens (LInteger SMALLINT_MIN))) p (literal_tokens (LInteger SMALLINT_MIN) @ [EndToken])"
    by blast
  from p(2) obtain bs q where "primary E p = Inr (Some (PLiteral (LLargeInteger bs True)), q)"
    using least_primary unfolding tokens append.simps by blast
  with p(1) show ?thesis
    by blast
qed

lemma octal_byte: "stol_auto (bytes_of (ascii ''010'')) = Inr 8"
  by code_simp

lemma decimal_ten: "parseLiteralValue (StringToken (ascii ''010'') LitNumber) = Inr (LInteger 10)"
proof -
  have "bytes_of (ascii ''010'') = ''010''"
    by code_simp
  moreover have "parseNumberString ''010'' = fromIntegerDigits 10 ''010'' False"
    by (simp add: parseNumberString_def parseIntegerString_def)
  moreover have "fromIntegerDigits 10 ''010'' False = Inr (LInteger 10)"
  proof -
    have digits: "list_all (valid_digit 10) ''010''" "digits_value 10 ''010'' = 10"
      by (simp_all add: valid_digit_def digit_value_def digits_value_def)
    then show ?thesis
      using fromIntegerDigits_spec [OF _ _ digits(1), of False] by (auto simp: smi_range_def smi_limits)
  qed
  ultimately show ?thesis
    by (simp only: parseLiteralValue.simps)
qed

lemma octal_primary:
  assumes "upcoming src p [delimiter ''#['', StringToken (ascii ''010'') LitNumber, delimiter '']'', EndToken]"
  shows "\<exists>q. primary E p = Inr (Some (PLiteral (LByteArray [8])), q)"
proof -
  obtain p1 where p1: "step p = Inr p1" "upcoming src p1 [StringToken (ascii ''010'') LitNumber, delimiter '']'', EndToken]"
    using step_upcoming [OF assms] by blast
  obtain p2 where p2: "step p1 = Inr p2" "upcoming src p2 [delimiter '']'', EndToken]"
    using step_upcoming [OF p1(2)] by blast
  obtain p3 where p3: "step p2 = Inr p3"
    using step_upcoming [OF p2(2)] by blast
  note cls = upcoming_cls [OF assms] upcoming_cls [OF p1(2)] upcoming_cls [OF p2(2)]
  have "byteArrayBody p = Inr (LByteArray [8], p2)"
    unfolding byteArrayBody_def using p1(1) p2(1) octal_byte
    by (simp add: while_result_unfold cls)
  then show ?thesis
    using p3 by (simp add: primary_def cls literalByteArray_def found_def)
qed

text \<open>
  In a byte array a number with a leading zero is octal, although it is decimal everywhere else:
  \<open>#[010]\<close> holds the byte 8, and the literal \<open>010\<close> is 10.
\<close>

theorem byte_array_octal:
  "parseLiteralValue (StringToken (ascii ''010'') LitNumber) = Inr (LInteger 10) \<and>
   (\<exists>p q. step (start_parser None (tokens_text [delimiter ''#['', StringToken (ascii ''010'') LitNumber, delimiter '']''])) = Inr p \<and>
      primary E p = Inr (Some (PLiteral (LByteArray [8])), q))"
proof (intro conjI)
  show "parseLiteralValue (StringToken (ascii ''010'') LitNumber) = Inr (LInteger 10)"
    by (rule decimal_ten)
  define ts where "ts = [delimiter ''#['', StringToken (ascii ''010'') LitNumber, delimiter '']'']"
  have scannable: "list_all scannable ts"
    by (simp add: ts_def delimiters_def class_defs)
  then have "\<exists>p. step (start_parser None (tokens_text ts)) = Inr p \<and> upcoming (tokens_text ts) p (ts @ [EndToken])"
    by (rule start_upcoming)
  then obtain p where p: "step (start_parser None (tokens_text ts)) = Inr p"
    "upcoming (tokens_text ts) p (ts @ [EndToken])"
    by (elim exE conjE)
  have "\<exists>q. primary E p = Inr (Some (PLiteral (LByteArray [8])), q)"
    by (rule octal_primary) (use p(2) in \<open>simp only: ts_def append.simps\<close>)
  then obtain q where "primary E p = Inr (Some (PLiteral (LByteArray [8])), q)"
    by (elim exE)
  with p(1) show "\<exists>p q. step (start_parser None (tokens_text [delimiter ''#['', StringToken (ascii ''010'') LitNumber, delimiter '']''])) = Inr p \<and>
      primary E p = Inr (Some (PLiteral (LByteArray [8])), q)"
    unfolding ts_def by (intro exI conjI)
qed

section \<open>A token left over\<close>

text \<open>
  A parser that still holds the end token at which a failed parse had peeked rejects every source: the
  next parse takes that token for the first one of its own source.
\<close>

theorem leftover_token_rejects:
  "\<exists>q. parse_method (Some (EndToken, a)) src = Inl (parse_error ''method signature expected'' q)"
  by (auto simp: parse_method_def start_parser_def step_def methodSignature_def hasKeywordSelector_def
      hasBinarySelector_def hasUnarySelector_def)

end
