(* ===== verification/Scopes.thy ===== *)
theory Scopes
  imports Ast Parser "HOL-Library.List_Lexorder"
begin

text \<open>
  The scopes of the compiler (\<open>Compiler/Binding\<close>): what a method and its blocks declare, how names
  resolve, which variables a block captures from around it and where every local is placed.  The
  objects that the semantic pass changes (scopes, bindings of locals, the flags of nodes) are stores,
  keyed by the place of the node in the parse tree: the empty path is the method, a block has the path
  to its node.  The scope chain of a script is the list of the blocks around it, innermost first; its
  end is the method, so \<open>parent_()\<close> is the rest of the list.
\<close>

section \<open>Stores\<close>

text \<open>\<open>std::map\<close>, kept in the order of its keys.\<close>

fun map_put :: "'k::linorder \<Rightarrow> 'v \<Rightarrow> ('k \<times> 'v) list \<Rightarrow> ('k \<times> 'v) list" where
  "map_put k v [] = [(k, v)]"
| "map_put k v ((l, w) # m) =
     (if k < l then (k, v) # (l, w) # m else if k = l then (k, v) # m else (l, w) # map_put k v m)"

type_synonym path = "nat list"

type_synonym script = path

type_synonym local_ref = nat

record local_binding =
  lb_argument :: bool
  lb_name :: egg_string
  lb_index :: int
  lb_environment :: local_environment

text \<open>A pointer to a binding: the bindings of pseudo variables and of dynamic names never change.\<close>

datatype bound = Fixed binding | Local local_ref

record script_scope =
  sc_inlined :: bool
  sc_blockIndex :: int
  sc_arguments :: "(egg_string \<times> local_ref) list"
  sc_argumentOrder :: "egg_string list"
  sc_temporaries :: "(egg_string \<times> local_ref) list"
  sc_stackSize :: int
  sc_envSize :: int
  sc_captureSelf :: bool
  sc_environments :: "script list"
  sc_captured :: "(egg_string \<times> local_ref) list"

text \<open>The state of the semantic pass: besides the scopes and locals, the bindings of identifier nodes,
  the inlined messages, and the counters of the compiler.\<close>

record analysis =
  an_scopes :: "script \<Rightarrow> script_scope"
  an_locals :: "local_ref \<Rightarrow> local_binding"
  an_fresh :: local_ref
  an_bindings :: "path \<Rightarrow> bound option"
  an_inlined :: "path \<Rightarrow> bool"
  an_blocks :: int
  an_leaf :: bool

definition new_scope :: script_scope where
  "new_scope =
     \<lparr> sc_inlined = False, sc_blockIndex = 0, sc_arguments = [], sc_argumentOrder = [], sc_temporaries = [],
       sc_stackSize = 0, sc_envSize = 0, sc_captureSelf = False, sc_environments = [], sc_captured = [] \<rparr>"

definition new_analysis :: analysis where
  "new_analysis =
     \<lparr> an_scopes = (\<lambda>s. new_scope),
       an_locals = (\<lambda>r. \<lparr> lb_argument = False, lb_name = [], lb_index = -1, lb_environment = StackEnvironment \<rparr>),
       an_fresh = 0, an_bindings = (\<lambda>p. None), an_inlined = (\<lambda>p. False), an_blocks = 0, an_leaf = True \<rparr>"

definition with_scope :: "script \<Rightarrow> (script_scope \<Rightarrow> script_scope) \<Rightarrow> analysis \<Rightarrow> analysis" where
  "with_scope s f a = a\<lparr> an_scopes := (an_scopes a)(s := f (an_scopes a s)) \<rparr>"

definition with_local :: "local_ref \<Rightarrow> (local_binding \<Rightarrow> local_binding) \<Rightarrow> analysis \<Rightarrow> analysis" where
  "with_local r f a = a\<lparr> an_locals := (an_locals a)(r := f (an_locals a r)) \<rparr>"

definition new_local :: "local_binding \<Rightarrow> analysis \<Rightarrow> local_ref \<times> analysis" where
  "new_local b a = (an_fresh a, a\<lparr> an_locals := (an_locals a)(an_fresh a := b), an_fresh := Suc (an_fresh a) \<rparr>)"

definition script_of :: "script list \<Rightarrow> script" where
  "script_of c = (case c of [] \<Rightarrow> [] | b # bs \<Rightarrow> b)"

text \<open>Going through a list with a state and the index of the element; the first fault ends it.\<close>

fun each :: "(nat \<Rightarrow> 'x \<Rightarrow> 's \<Rightarrow> 's result) \<Rightarrow> nat \<Rightarrow> 'x list \<Rightarrow> 's \<Rightarrow> 's result" where
  "each f i [] s = Inr s"
| "each f i (x # xs) s = bind_result (f i x s) (each f (Suc i) xs)"

lemma each_cong [fundef_cong]:
  assumes "i = j" "xs = ys" "s = t" "\<And>k x u. x \<in> set ys \<Longrightarrow> f k x u = g k x u"
  shows "each f i xs s = each g j ys t"
proof -
  have "each f i xs s = each g i xs s" if "\<And>k x u. x \<in> set xs \<Longrightarrow> f k x u = g k x u" for xs
    using that
  proof (induction xs arbitrary: i s)
    case (Cons x xs)
    have "each f (Suc i) xs = each g (Suc i) xs"
      using Cons by auto
    with Cons.prems show ?case by simp
  qed simp
  with assms show ?thesis by simp
qed

text \<open>The traversals of the tree below recurse into the elements of lists.\<close>

lemma size_member: "x \<in> set xs \<Longrightarrow> size x < Suc (size_list size xs + n)"
  using size_list_estimation'[of x xs "size x" size] by auto

lemma size_cascade_member:
  assumes "m \<in> set ms" "x \<in> set (snd m)"
  shows "size x < Suc (size_list (size_prod (\<lambda>s. 0) (size_list size)) ms + n)"
proof -
  have "size x \<le> size_list size (snd m)"
    using assms(2) size_list_estimation'[of x "snd m" "size x" size] by auto
  also have "\<dots> \<le> size_prod (\<lambda>s. 0) (size_list size) m"
    by (cases m) simp
  also have "\<dots> \<le> size_list (size_prod (\<lambda>s. 0) (size_list size)) ms"
    using assms(1) size_list_estimation'[of m ms] by blast
  finally show ?thesis
    by simp
qed

lemmas part_sizes = size_member size_member[where n = 0, simplified]
  size_cascade_member size_cascade_member[where n = 0, simplified]

section \<open>Resolution\<close>

definition resolveLocal :: "script_scope \<Rightarrow> egg_string \<Rightarrow> local_ref option" where
  "resolveLocal sc name =
     (case map_of (sc_temporaries sc) name of Some r \<Rightarrow> Some r | None \<Rightarrow> map_of (sc_arguments sc) name)"

definition block_resolveLocal :: "script_scope \<Rightarrow> egg_string \<Rightarrow> local_ref option" where
  "block_resolveLocal sc name =
     (case resolveLocal sc name of Some r \<Rightarrow> Some r | None \<Rightarrow> map_of (sc_captured sc) name)"

definition scope_defines :: "script_scope \<Rightarrow> egg_string \<Rightarrow> bool" where
  "scope_defines sc name \<longleftrightarrow> map_of (sc_temporaries sc) name \<noteq> None \<or> map_of (sc_arguments sc) name \<noteq> None"

definition resolvePseudo :: "egg_string \<Rightarrow> binding option" where
  "resolvePseudo name =
     map_of [(ascii ''nil'', NilBinding), (ascii ''true'', TrueBinding), (ascii ''false'', FalseBinding),
       (ascii ''self'', SelfBinding), (ascii ''super'', SuperBinding)] name"

fun resolve :: "analysis \<Rightarrow> script list \<Rightarrow> egg_string \<Rightarrow> bound" where
  "resolve a [] name =
     (case resolveLocal (an_scopes a []) name of
        Some r \<Rightarrow> Local r
      | None \<Rightarrow> (case resolvePseudo name of Some b \<Rightarrow> Fixed b | None \<Rightarrow> Fixed (dynamic_named name)))"
| "resolve a (b # c) name =
     (case block_resolveLocal (an_scopes a b) name of Some r \<Rightarrow> Local r | None \<Rightarrow> resolve a c name)"

fun isDynamic :: "bound \<Rightarrow> bool" where
  "isDynamic (Fixed (DynamicBinding n)) = True"
| "isDynamic (Fixed (NestedDynamicBinding ns)) = True"
| "isDynamic _ = False"

definition resolves :: "analysis \<Rightarrow> script list \<Rightarrow> egg_string \<Rightarrow> bool" where
  "resolves a c name \<longleftrightarrow> \<not> isDynamic (resolve a c name)"

section \<open>Declarations\<close>

definition redefinitionError :: "egg_string \<Rightarrow> fault" where
  "redefinitionError name = Thrown (bytes_of name @ '' already declared'')"

definition defineArgument :: "script list \<Rightarrow> egg_string \<Rightarrow> analysis \<Rightarrow> analysis result" where
  "defineArgument c name a =
     (if resolves a c name then Inl (redefinitionError name)
      else (let (r, a) = new_local \<lparr> lb_argument = True, lb_name = name, lb_index = -1,
                  lb_environment = ArgumentEnvironment \<rparr> a
            in Inr (with_scope (script_of c)
                 (\<lambda>sc. sc\<lparr> sc_arguments := map_put name r (sc_arguments sc),
                           sc_argumentOrder := sc_argumentOrder sc @ [name] \<rparr>) a)))"

definition defineTemporary :: "script list \<Rightarrow> egg_string \<Rightarrow> analysis \<Rightarrow> analysis result" where
  "defineTemporary c name a =
     (if map_of (sc_temporaries (an_scopes a (script_of c))) name \<noteq> None then Inl (redefinitionError name)
      else (let (r, a) = new_local \<lparr> lb_argument = False, lb_name = name, lb_index = -1,
                  lb_environment = StackEnvironment \<rparr> a
            in Inr (with_scope (script_of c)
                 (\<lambda>sc. sc\<lparr> sc_temporaries := map_put name r (sc_temporaries sc) \<rparr>) a)))"

text \<open>\<open>bindLocals\<close>: a script declares its arguments and temporaries, then the blocks in it do, in the
  order in which they start in the source.\<close>

definition bind_script :: "script list \<Rightarrow> egg_string list \<Rightarrow> egg_string list \<Rightarrow> analysis \<Rightarrow> analysis result" where
  "bind_script c args temps a =
     bind_result (each (\<lambda>i. defineArgument c) 0 args a) (each (\<lambda>i. defineTemporary c) 0 temps)"

function bindLocals :: "script list \<Rightarrow> path \<Rightarrow> parse_node \<Rightarrow> analysis \<Rightarrow> analysis result" where
  "bindLocals c p (PIdentifier v) a = Inr a"
| "bindLocals c p (PLiteral l) a = Inr a"
| "bindLocals c p (PMessage r s as) a =
     bind_result (bindLocals c (0 # p) r a) (each (\<lambda>i. bindLocals c (i # p)) 1 as)"
| "bindLocals c p (PCascade r ms) a =
     bind_result (bindLocals c (0 # p) r a)
       (each (\<lambda>j m. each (\<lambda>i. bindLocals c (i # j # p)) 0 (snd m)) 1 ms)"
| "bindLocals c p (PAssignment v e) a = bindLocals c (1 # p) e a"
| "bindLocals c p (PReturn e) a = bindLocals c (0 # p) e a"
| "bindLocals c p (PBlock args temps stmts) a =
     bind_result (bind_script (p # c) args temps a) (each (\<lambda>i. bindLocals (p # c) (i # p)) 0 stmts)"
| "bindLocals c p (PBrace es) a = each (\<lambda>i. bindLocals c (i # p)) 1 es a"
  by pat_completeness auto
termination
  by (relation "measure (\<lambda>(c, p, n, a). size n)") (auto intro: part_sizes)

section \<open>Captures\<close>

text \<open>An inlined block belongs to the script around it.\<close>

fun realChain :: "analysis \<Rightarrow> script list \<Rightarrow> script list" where
  "realChain a [] = []"
| "realChain a (b # c) = (if sc_inlined (an_scopes a b) then realChain a c else b # c)"

lemma realChain_length: "length (realChain a c) \<le> length c"
  by (induction c) auto

definition real_of :: "analysis \<Rightarrow> script list \<Rightarrow> script" where
  "real_of a c = script_of (realChain a c)"

function captureEnvironment :: "script list \<Rightarrow> script \<Rightarrow> analysis \<Rightarrow> analysis result" where
  "captureEnvironment [] e a = assert_that (e = []) (Inr a)"
| "captureEnvironment (b # c) e a =
     (if b = e \<or> e \<in> set (sc_environments (an_scopes a b)) then Inr a
      else bind_result (captureEnvironment (realChain a c) e a) (\<lambda>a.
        Inr (with_scope b (\<lambda>sc. sc\<lparr> sc_environments :=
               (if e = [] then e # sc_environments sc else sc_environments sc @ [e]) \<rparr>) a)))"
  by pat_completeness auto
termination
  by (relation "measure (\<lambda>(c, e, a). length c)") (simp_all add: realChain_length le_imp_less_Suc)

fun captureSelf :: "script list \<Rightarrow> analysis \<Rightarrow> analysis" where
  "captureSelf [] a = with_scope [] (\<lambda>sc. sc\<lparr> sc_captureSelf := True \<rparr>) a"
| "captureSelf (b # c) a =
     (if sc_captureSelf (an_scopes a b) then a
      else captureSelf c (with_scope b (\<lambda>sc. sc\<lparr> sc_captureSelf := True \<rparr>) a))"

text \<open>The chain of the script that declares a name.\<close>

fun scriptDefining :: "analysis \<Rightarrow> script list \<Rightarrow> egg_string \<Rightarrow> script list result" where
  "scriptDefining a [] name = assert_that (resolveLocal (an_scopes a []) name \<noteq> None) (Inr [])"
| "scriptDefining a (b # c) name =
     (if scope_defines (an_scopes a b) name then Inr (b # c) else scriptDefining a c name)"

definition beInArray :: "local_ref \<Rightarrow> analysis \<Rightarrow> analysis" where
  "beInArray r = with_local r (\<lambda>l. l\<lparr> lb_environment := ArrayEnvironment (-1) \<rparr>)"

definition copyLocal :: "script \<Rightarrow> local_ref \<Rightarrow> analysis \<Rightarrow> local_ref \<times> analysis" where
  "copyLocal b r a =
     (if sc_inlined (an_scopes a b) then (r, a)
      else (let (copy, a) = new_local (an_locals a r) a in (copy, beInArray copy a)))"

definition capture :: "script \<Rightarrow> egg_string \<Rightarrow> local_ref \<Rightarrow> analysis \<Rightarrow> analysis" where
  "capture b name r = with_scope b (\<lambda>sc. sc\<lparr> sc_captured := map_put name r (sc_captured sc) \<rparr>)"

text \<open>The method answers no binding for a name it does not declare; the copy of that is undefined.\<close>

fun transferLocal :: "script list \<Rightarrow> egg_string \<Rightarrow> analysis \<Rightarrow> (local_ref \<times> analysis) result" where
  "transferLocal [] name a =
     (case resolveLocal (an_scopes a []) name of Some r \<Rightarrow> Inr (r, a) | None \<Rightarrow> Inl Undefined)"
| "transferLocal (b # c) name a =
     (case block_resolveLocal (an_scopes a b) name of
        Some r \<Rightarrow> Inr (r, a)
      | None \<Rightarrow>
          bind_result (transferLocal c name a) (\<lambda>(r, a).
            let (copy, a) = copyLocal b r a in Inr (copy, capture b name copy a)))"

definition captureArgument :: "script \<Rightarrow> script list \<Rightarrow> local_ref \<Rightarrow> analysis \<Rightarrow> (local_ref \<times> analysis) result" where
  "captureArgument b c r a =
     (let name = lb_name (an_locals a r)
      in case map_of (sc_captured (an_scopes a b)) name of
           Some copy \<Rightarrow> Inr (copy, a)
         | None \<Rightarrow>
             bind_result (transferLocal c name a) (\<lambda>(transferred, a).
               let (copy, a) = copyLocal b transferred a in Inr (copy, capture b name copy a)))"

definition captureTemporary :: "script \<Rightarrow> script list \<Rightarrow> local_ref \<Rightarrow> analysis \<Rightarrow> (local_ref \<times> analysis) result" where
  "captureTemporary b c r a =
     (let name = lb_name (an_locals a r)
      in if scope_defines (an_scopes a b) name then Inr (r, a)
         else case map_of (sc_captured (an_scopes a b)) name of
           Some copy \<Rightarrow> Inr (copy, a)
         | None \<Rightarrow>
             bind_result (scriptDefining a c name) (\<lambda>declaration.
               bind_result (captureEnvironment (realChain a (b # c)) (real_of a declaration) a) (\<lambda>a.
                 bind_result (transferLocal c name a) (\<lambda>(transferred, a).
                   let (copy, a) = copyLocal b transferred a;
                       a = (if isStack (lb_environment (an_locals a copy)) then a else beInArray r a)
                   in Inr (copy, capture b name copy a)))))"

fun captureLocal :: "script list \<Rightarrow> local_ref \<Rightarrow> analysis \<Rightarrow> (local_ref \<times> analysis) result" where
  "captureLocal [] r a =
     assert_that (resolveLocal (an_scopes a []) (lb_name (an_locals a r)) \<noteq> None) (Inr (r, a))"
| "captureLocal (b # c) r a =
     (if scope_defines (an_scopes a b) (lb_name (an_locals a r)) then Inr (r, a)
      else if lb_argument (an_locals a r) then captureArgument b c r a
      else captureTemporary b c r a)"

text \<open>\<open>beReferencedFrom_\<close> of the bindings: dynamic names need the receiver to be looked up.\<close>

fun beReferencedFrom :: "bound \<Rightarrow> script list \<Rightarrow> analysis \<Rightarrow> analysis" where
  "beReferencedFrom (Fixed SelfBinding) c a = captureSelf c a"
| "beReferencedFrom (Fixed SuperBinding) c a = captureSelf c a"
| "beReferencedFrom (Fixed (DynamicBinding n)) c a = captureSelf c a"
| "beReferencedFrom (Fixed (NestedDynamicBinding ns)) c a = captureSelf c a"
| "beReferencedFrom b c a = a"

text \<open>\<open>captureHome\<close> of the real script; a method captures nothing.\<close>

definition captureHome :: "script list \<Rightarrow> analysis \<Rightarrow> analysis result" where
  "captureHome c a = (case realChain a c of [] \<Rightarrow> Inr a | b # bs \<Rightarrow> captureEnvironment (b # bs) [] a)"

section \<open>Positions\<close>

definition growStack :: "script \<Rightarrow> analysis \<Rightarrow> int \<times> analysis" where
  "growStack s a =
     (let n = sc_stackSize (an_scopes a s) + 1 in (n, with_scope s (\<lambda>sc. sc\<lparr> sc_stackSize := n \<rparr>) a))"

definition growEnvironment :: "script \<Rightarrow> analysis \<Rightarrow> int \<times> analysis" where
  "growEnvironment s a =
     (let n = sc_envSize (an_scopes a s) + 1 in (n, with_scope s (\<lambda>sc. sc\<lparr> sc_envSize := n \<rparr>) a))"

definition put_index :: "local_ref \<Rightarrow> int \<Rightarrow> analysis \<Rightarrow> analysis" where
  "put_index r i = with_local r (\<lambda>l. l\<lparr> lb_index := i \<rparr>)"

text \<open>A local is placed in the frame of the script \<open>s\<close>, or in its environment array.\<close>

definition position_local :: "script \<Rightarrow> local_ref \<Rightarrow> analysis \<Rightarrow> analysis" where
  "position_local s r a =
     (let (i, a) = (if isStack (lb_environment (an_locals a r)) then growStack s a else growEnvironment s a)
      in put_index r i a)"

definition positionDefinedTemporariesIn :: "script \<Rightarrow> script \<Rightarrow> analysis \<Rightarrow> analysis" where
  "positionDefinedTemporariesIn b s a = fold (\<lambda>(name, r). position_local s r) (sc_temporaries (an_scopes a b)) a"

definition positionDefinedArgumentsIn :: "script \<Rightarrow> script \<Rightarrow> analysis \<Rightarrow> analysis" where
  "positionDefinedArgumentsIn b s a = fold (\<lambda>(name, r). position_local s r) (sc_arguments (an_scopes a b)) a"

fun position_arguments :: "script \<Rightarrow> int \<Rightarrow> egg_string list \<Rightarrow> analysis \<Rightarrow> analysis" where
  "position_arguments s i [] a = a"
| "position_arguments s i (name # names) a =
     (case map_of (sc_arguments (an_scopes a s)) name of
        Some r \<Rightarrow> position_arguments s (i + 1) names (put_index r i a)
      | None \<Rightarrow> position_arguments s i names a)"

definition positionDefinedArguments :: "script \<Rightarrow> analysis \<Rightarrow> analysis" where
  "positionDefinedArguments s a = position_arguments s 1 (sc_argumentOrder (an_scopes a s)) a"

text \<open>\<open>positionDefinedLocals_\<close> of a script that is not inlined.\<close>

definition positionOwnLocals :: "script \<Rightarrow> analysis \<Rightarrow> analysis" where
  "positionOwnLocals s a = positionDefinedArguments s (positionDefinedTemporariesIn s s a)"

fun position_of :: "'x \<Rightarrow> 'x list \<Rightarrow> nat option" where
  "position_of x [] = None"
| "position_of x (y # ys) = (if x = y then Some 0 else map_option Suc (position_of x ys))"

text \<open>\<open>capturedEnvironmentIndexOf_\<close> on the chain of a block, for the script \<open>e\<close> around it: -1 when both
  are the same script.\<close>

definition capturedEnvironmentIndexOf :: "analysis \<Rightarrow> script list \<Rightarrow> script \<Rightarrow> int result" where
  "capturedEnvironmentIndexOf a c e =
     (let b = an_scopes a (script_of c)
      in if real_of a (dropWhile (\<lambda>s. s \<noteq> e) c) = real_of a c then Inr (-1)
         else case position_of e (sc_environments b) of
           None \<Rightarrow> Inl AssertionFailed
         | Some i \<Rightarrow> Inr (int i + (if sc_captureSelf b then 2 else 1)))"

definition environmentSizeUpToEnvironments :: "script_scope \<Rightarrow> int" where
  "environmentSizeUpToEnvironments sc = (if sc_captureSelf sc then 1 else 0) + int (length (sc_environments sc))"

definition positionCapturedArgument :: "script \<Rightarrow> local_ref \<Rightarrow> analysis \<Rightarrow> analysis" where
  "positionCapturedArgument b r a = (let (i, a) = growEnvironment b a in put_index r i a)"

text \<open>\<open>environmentIndex_\<close> keeps an index only in an array environment.\<close>

fun with_environmentIndex :: "int \<Rightarrow> local_environment \<Rightarrow> local_environment" where
  "with_environmentIndex i (ArrayEnvironment j) = ArrayEnvironment i"
| "with_environmentIndex i e = e"

definition positionCapturedTemporary :: "script list \<Rightarrow> local_ref \<Rightarrow> analysis \<Rightarrow> analysis result" where
  "positionCapturedTemporary c r a =
     (let name = lb_name (an_locals a r)
      in bind_result (scriptDefining a c name) (\<lambda>outest.
           bind_result (capturedEnvironmentIndexOf a c (real_of a outest)) (\<lambda>i.
             let a = with_local r (\<lambda>l. l\<lparr> lb_environment := with_environmentIndex i (lb_environment l) \<rparr>) a
             in case resolve a outest name of
                  Local d \<Rightarrow>
                    assert_that (lb_index (an_locals a d) \<ge> 0) (Inr (put_index r (lb_index (an_locals a d)) a))
                | Fixed d \<Rightarrow> Inr a)))"

definition positionCapturedLocals :: "script list \<Rightarrow> analysis \<Rightarrow> analysis result" where
  "positionCapturedLocals c a =
     (let b = script_of c
      in if sc_inlined (an_scopes a b) then Inr a
         else each (\<lambda>i (name, r) a.
                if lb_argument (an_locals a r) then Inr (positionCapturedArgument b r a)
                else positionCapturedTemporary c r a) 0 (sc_captured (an_scopes a b))
              (with_scope b (\<lambda>sc. sc\<lparr> sc_envSize := environmentSizeUpToEnvironments sc \<rparr>) a))"

definition block_positionDefinedLocals :: "script list \<Rightarrow> analysis \<Rightarrow> analysis" where
  "block_positionDefinedLocals c a =
     (let b = script_of c
      in if sc_inlined (an_scopes a b) then
           (let real = real_of a c in positionDefinedArgumentsIn b real (positionDefinedTemporariesIn b real a))
         else positionOwnLocals b a)"

definition block_positionLocals :: "script list \<Rightarrow> analysis \<Rightarrow> analysis result" where
  "block_positionLocals c a =
     bind_result (positionCapturedLocals c a) (\<lambda>a. Inr (block_positionDefinedLocals c a))"

function positionLocals :: "script list \<Rightarrow> path \<Rightarrow> parse_node \<Rightarrow> analysis \<Rightarrow> analysis result" where
  "positionLocals c p (PIdentifier v) a = Inr a"
| "positionLocals c p (PLiteral l) a = Inr a"
| "positionLocals c p (PMessage r s as) a =
     bind_result (positionLocals c (0 # p) r a) (each (\<lambda>i. positionLocals c (i # p)) 1 as)"
| "positionLocals c p (PCascade r ms) a =
     bind_result (positionLocals c (0 # p) r a)
       (each (\<lambda>j m. each (\<lambda>i. positionLocals c (i # j # p)) 0 (snd m)) 1 ms)"
| "positionLocals c p (PAssignment v e) a = positionLocals c (1 # p) e a"
| "positionLocals c p (PReturn e) a = positionLocals c (0 # p) e a"
| "positionLocals c p (PBlock args temps stmts) a =
     bind_result (block_positionLocals (p # c) a) (each (\<lambda>i. positionLocals (p # c) (i # p)) 0 stmts)"
| "positionLocals c p (PBrace es) a = each (\<lambda>i. positionLocals c (i # p)) 1 es a"
  by pat_completeness auto
termination
  by (relation "measure (\<lambda>(c, p, n, a). size n)") (auto intro: part_sizes)

end
