(* ===== verification/MessageInliner.thy ===== *)
theory MessageInliner
  imports Scopes
begin

text \<open>
  The message inliner (\<open>Compiler/MessageInliner.cpp\<close>): messages with a selector of the control
  structures are marked as inlined when their arguments and receiver allow it, and the blocks among
  them with the message.  It runs before the parts of the message are visited.
\<close>

section \<open>What can be evaluated in place\<close>

fun is_literal_binding :: "bound \<Rightarrow> bool" where
  "is_literal_binding (Fixed NilBinding) = True"
| "is_literal_binding (Fixed TrueBinding) = True"
| "is_literal_binding (Fixed FalseBinding) = True"
| "is_literal_binding (Local r) = True"
| "is_literal_binding _ = False"

definition isIdentifierLiteral :: "analysis \<Rightarrow> path \<Rightarrow> bool" where
  "isIdentifierLiteral a p =
     (case an_bindings a p of None \<Rightarrow> False | Some b \<Rightarrow> \<not> isDynamic b \<and> is_literal_binding b)"

fun all_each :: "(nat \<Rightarrow> 'x \<Rightarrow> bool) \<Rightarrow> nat \<Rightarrow> 'x list \<Rightarrow> bool" where
  "all_each f i [] = True"
| "all_each f i (x # xs) = (f i x \<and> all_each f (Suc i) xs)"

lemma all_each_cong [fundef_cong]:
  assumes "i = j" "xs = ys" "\<And>k x. x \<in> set ys \<Longrightarrow> f k x = g k x"
  shows "all_each f i xs = all_each g j ys"
proof -
  have "all_each f i xs = all_each g i xs" if "\<And>k x. x \<in> set xs \<Longrightarrow> f k x = g k x" for xs
    using that by (induction xs arbitrary: i) auto
  with assms show ?thesis by simp
qed

fun isEvaluable :: "analysis \<Rightarrow> path \<Rightarrow> parse_node \<Rightarrow> bool" where
  "isEvaluable a p (PLiteral l) = True"
| "isEvaluable a p (PIdentifier v) = isIdentifierLiteral a p"
| "isEvaluable a p (PBlock args temps stmts) = (args = [])"
| "isEvaluable a p (PBrace es) = all_each (\<lambda>i. isEvaluable a (i # p)) 1 es"
| "isEvaluable a p _ = False"

fun bound_name :: "analysis \<Rightarrow> bound \<Rightarrow> egg_string" where
  "bound_name a (Fixed b) = binding_name b"
| "bound_name a (Local r) = lb_name (an_locals a r)"

text \<open>An identifier is \<open>super\<close> only once it has a binding, so not when its message is visited first.\<close>

fun node_isSuper :: "analysis \<Rightarrow> path \<Rightarrow> parse_node \<Rightarrow> bool" where
  "node_isSuper a p (PIdentifier v) =
     (case an_bindings a p of None \<Rightarrow> False | Some b \<Rightarrow> bound_name a b = ascii ''super'')"
| "node_isSuper a p _ = False"

fun block_arguments :: "parse_node \<Rightarrow> egg_string list option" where
  "block_arguments (PBlock args temps stmts) = Some args"
| "block_arguments _ = None"

definition is_block :: "parse_node \<Rightarrow> bool" where
  "is_block n \<longleftrightarrow> block_arguments n \<noteq> None"

section \<open>Marking\<close>

text \<open>The declared arguments of a block that is inlined live in the frame of the script around it.\<close>

definition beInlined_argument :: "path \<Rightarrow> egg_string \<Rightarrow> analysis \<Rightarrow> analysis" where
  "beInlined_argument b name a =
     (case map_of (sc_arguments (an_scopes a b)) name of
        None \<Rightarrow> a
      | Some r \<Rightarrow> with_local r (\<lambda>l. l\<lparr> lb_environment := InlinedArgEnvironment \<rparr>) a)"

definition block_beInlined :: "path \<Rightarrow> parse_node \<Rightarrow> analysis \<Rightarrow> analysis" where
  "block_beInlined b n a =
     (case block_arguments n of
        None \<Rightarrow> a
      | Some args \<Rightarrow> fold (beInlined_argument b) args (with_scope b (\<lambda>sc. sc\<lparr> sc_inlined := True \<rparr>) a))"

definition message_beInlined :: "path \<Rightarrow> analysis \<Rightarrow> analysis" where
  "message_beInlined p a = a\<lparr> an_inlined := (an_inlined a)(p := True) \<rparr>"

fun arguments_beInlined :: "path \<Rightarrow> nat \<Rightarrow> parse_node list \<Rightarrow> analysis \<Rightarrow> analysis" where
  "arguments_beInlined p i [] a = a"
| "arguments_beInlined p i (n # ns) a = arguments_beInlined p (Suc i) ns (block_beInlined (i # p) n a)"

section \<open>The forms of inlined messages\<close>

definition inlineConditional :: "path \<Rightarrow> parse_node list \<Rightarrow> analysis \<Rightarrow> analysis" where
  "inlineConditional p args a =
     (if length args < 1 \<or> \<not> all_each (\<lambda>i. isEvaluable a (i # p)) 1 args then a
      else arguments_beInlined p 1 args (message_beInlined p a))"

definition evaluable_or_unary :: "analysis \<Rightarrow> path \<Rightarrow> parse_node \<Rightarrow> bool" where
  "evaluable_or_unary a p n \<longleftrightarrow>
     isEvaluable a p n \<or> (case block_arguments n of None \<Rightarrow> False | Some args \<Rightarrow> length args = 1)"

definition inlineIfNotNil :: "path \<Rightarrow> parse_node list \<Rightarrow> analysis \<Rightarrow> analysis" where
  "inlineIfNotNil p args a =
     (case args of
        [arg] \<Rightarrow>
          if \<not> evaluable_or_unary a (1 # p) arg then a
          else block_beInlined (1 # p) arg (message_beInlined p a)
      | _ \<Rightarrow> a)"

definition inlineIfNilIfNotNil :: "path \<Rightarrow> parse_node list \<Rightarrow> analysis \<Rightarrow> analysis" where
  "inlineIfNilIfNotNil p args a =
     (case args of
        [first, second] \<Rightarrow>
          if \<not> isEvaluable a (1 # p) first \<or> \<not> evaluable_or_unary a (2 # p) second then a
          else arguments_beInlined p 1 args (message_beInlined p a)
      | _ \<Rightarrow> a)"

definition inlineIfNotNilIfNil :: "path \<Rightarrow> parse_node list \<Rightarrow> analysis \<Rightarrow> analysis" where
  "inlineIfNotNilIfNil p args a =
     (case args of
        [first, second] \<Rightarrow>
          if \<not> isEvaluable a (2 # p) second \<or> \<not> evaluable_or_unary a (1 # p) first then a
          else arguments_beInlined p 1 args (message_beInlined p a)
      | _ \<Rightarrow> a)"

definition inline_repeat :: "path \<Rightarrow> parse_node \<Rightarrow> parse_node list \<Rightarrow> analysis \<Rightarrow> analysis" where
  "inline_repeat p receiver args a =
     (if \<not> isEvaluable a (0 # p) receiver \<or> args \<noteq> [] \<or> \<not> is_block receiver then a
      else block_beInlined (0 # p) receiver (message_beInlined p a))"

definition inline_toDo :: "path \<Rightarrow> parse_node list \<Rightarrow> analysis \<Rightarrow> analysis" where
  "inline_toDo p args a =
     (case args of
        [limit, body] \<Rightarrow>
          (case block_arguments body of
             Some [v] \<Rightarrow> block_beInlined (2 # p) body (message_beInlined p a)
           | _ \<Rightarrow> a)
      | _ \<Rightarrow> a)"

text \<open>\<open>inlineToByDo\<close> is never called.\<close>

definition inline_toByDo :: "path \<Rightarrow> parse_node list \<Rightarrow> analysis \<Rightarrow> analysis" where
  "inline_toByDo p args a =
     (case args of
        [limit, by, body] \<Rightarrow>
          (case block_arguments body of
             Some [v] \<Rightarrow> block_beInlined (3 # p) body (message_beInlined p a)
           | _ \<Rightarrow> a)
      | _ \<Rightarrow> a)"

definition inlineUnitaryWhile :: "path \<Rightarrow> parse_node \<Rightarrow> parse_node list \<Rightarrow> analysis \<Rightarrow> analysis" where
  "inlineUnitaryWhile p receiver args a =
     (if \<not> isEvaluable a (0 # p) receiver \<or> length args \<noteq> 0 then a
      else (let a = inlineConditional p args a
            in if is_block receiver then block_beInlined (0 # p) receiver (message_beInlined p a) else a))"

definition inlineWhile :: "path \<Rightarrow> parse_node \<Rightarrow> parse_node list \<Rightarrow> analysis \<Rightarrow> analysis" where
  "inlineWhile p receiver args a =
     (if \<not> isEvaluable a (0 # p) receiver then a
      else case args of
        [arg] \<Rightarrow>
          if block_arguments arg \<noteq> Some [] then a
          else (let a = inlineConditional p args a
                in if is_block receiver then block_beInlined (0 # p) receiver a else a)
      | _ \<Rightarrow> a)"

section \<open>Dispatch by selector\<close>

text \<open>The keywords of a selector: the texts before each colon.\<close>

function keywords_of :: "egg_string \<Rightarrow> egg_string list" where
  "keywords_of s =
     (let colon = of_char CHR '':''; k = takeWhile (\<lambda>c. c \<noteq> colon) s; rest = dropWhile (\<lambda>c. c \<noteq> colon) s
      in if rest = [] then [] else k # keywords_of (tl rest))"
  by pat_completeness auto
termination
proof (relation "measure length", goal_cases)
  case (2 s colon k rest)
  have "length (tl rest) < length rest"
    using 2(4) by simp
  also have "\<dots> \<le> length s"
    using 2(3) by (simp add: length_dropWhile_le)
  finally show ?case
    by simp
qed simp

declare keywords_of.simps [simp del]

definition one_of :: "egg_string \<Rightarrow> string list \<Rightarrow> bool" where
  "one_of s names \<longleftrightarrow> list_ex (\<lambda>name. s = ascii name) names"

definition chain_of_keywords :: "egg_string list \<Rightarrow> bool" where
  "chain_of_keywords ks =
     (let ks = (if last ks = [] then butlast ks else ks);
          all_are = (\<lambda>name. list_all (\<lambda>k. k = ascii name));
          closes = one_of (last ks) [''ifTrue'', ''ifFalse'']
      in all_are ''and'' ks \<or> all_are ''or'' ks \<or>
         length ks > 1 \<and> (all_are ''and'' (butlast ks) \<and> closes \<or> all_are ''or'' (butlast ks) \<and> closes))"

definition inline_message :: "path \<Rightarrow> parse_node \<Rightarrow> egg_string \<Rightarrow> parse_node list \<Rightarrow> analysis \<Rightarrow> analysis" where
  "inline_message p receiver s args a =
     (if node_isSuper a (0 # p) receiver then a
      else if one_of s [''ifTrue:'', ''ifFalse:'', ''or:'', ''and:'', ''timesRepeat:'', ''andNot:'', ''orNot:'', ''ifNil:'']
        then inlineConditional p args a
      else if one_of s [''ifTrue:ifFalse:'', ''ifFalse:ifTrue:''] then inlineConditional p args a
      else if one_of s [''ifNotNil:''] then inlineIfNotNil p args a
      else if one_of s [''ifNil:ifNotNil:''] then inlineIfNilIfNotNil p args a
      else if one_of s [''ifNotNil:ifNil:''] then inlineIfNotNilIfNil p args a
      else if one_of s [''whileTrue:'', ''whileFalse:''] then inlineWhile p receiver args a
      else if one_of s [''whileTrue'', ''whileFalse''] then inlineUnitaryWhile p receiver args a
      else if one_of s [''repeat''] then inline_repeat p receiver args a
      else if one_of s [''to:do:''] then inline_toDo p args a
      else if keywords_of s \<noteq> [] \<and> chain_of_keywords (keywords_of s) then inlineConditional p args a
      else a)"

end
