(* ===== verification/SemanticVisitor.thy ===== *)
theory SemanticVisitor
  imports MessageInliner CompiledMethod Treecode
begin

text \<open>
  The semantic pass (\<open>Compiler/SemanticVisitor.cpp\<close>) over the tree of the parser, the resolved tree
  that the backend reads afterwards, and the compilation of a source (\<open>SSmalltalkCompiler.cpp\<close>,
  \<open>SMethodNode::buildMethod\<close>).
\<close>

section \<open>The visit\<close>

definition noticeSend :: "analysis \<Rightarrow> analysis" where
  "noticeSend a = a\<lparr> an_leaf := False \<rparr>"

text \<open>The binding of the node is looked up afresh at every visit.\<close>

definition analyzeIdentifier :: "script list \<Rightarrow> path \<Rightarrow> egg_string \<Rightarrow> analysis \<Rightarrow> analysis result" where
  "analyzeIdentifier c p v a =
     (let b = resolve a c v; a = beReferencedFrom b c a
      in bind_result
           (case b of
              Fixed f \<Rightarrow> Inr (b, a)
            | Local r \<Rightarrow> bind_result (captureLocal c r a) (\<lambda>(r, a). Inr (Local r, a)))
           (\<lambda>(b, a). Inr (a\<lparr> an_bindings := (an_bindings a)(p := Some b) \<rparr>)))"

definition analyzeMessage :: "path \<Rightarrow> parse_node \<Rightarrow> egg_string \<Rightarrow> parse_node list \<Rightarrow> analysis \<Rightarrow> analysis" where
  "analyzeMessage p receiver s args a =
     (let a = inline_message p receiver s args a in if an_inlined a p then a else noticeSend a)"

definition analyzeBlock :: "path \<Rightarrow> analysis \<Rightarrow> analysis" where
  "analyzeBlock p a =
     (if sc_inlined (an_scopes a p) then a
      else with_scope p (\<lambda>sc. sc\<lparr> sc_blockIndex := an_blocks a \<rparr>) (a\<lparr> an_blocks := an_blocks a + 1 \<rparr>))"

text \<open>The message \<open>Array new: n\<close> of the expansion of a brace.\<close>

definition visit_new :: "script list \<Rightarrow> path \<Rightarrow> analysis \<Rightarrow> analysis result" where
  "visit_new c p a = analyzeIdentifier c (0 # p) (ascii ''Array'') (noticeSend a)"

text \<open>A message of a cascade has the receiver of the cascade, which is visited again with each.\<close>

function visit_node :: "script list \<Rightarrow> path \<Rightarrow> parse_node \<Rightarrow> analysis \<Rightarrow> analysis result" where
  "visit_node c p (PIdentifier v) a = analyzeIdentifier c p v a"
| "visit_node c p (PLiteral l) a = Inr a"
| "visit_node c p (PMessage r s as) a =
     bind_result (visit_node c (0 # p) r (analyzeMessage p r s as a)) (each (\<lambda>i. visit_node c (i # p)) 1 as)"
| "visit_node c p (PCascade r ms) a =
     bind_result (visit_node c (0 # p) r a)
       (each (\<lambda>j m a.
          bind_result (visit_node c (0 # p) r (noticeSend a)) (each (\<lambda>i. visit_node c (i # j # p)) 0 (snd m))) 1 ms)"
| "visit_node c p (PAssignment v e) a =
     bind_result (analyzeIdentifier c (0 # p) v a) (visit_node c (1 # p) e)"
| "visit_node c p (PReturn e) a = bind_result (visit_node c (0 # p) e a) (captureHome c)"
| "visit_node c p (PBlock args temps stmts) a =
     each (\<lambda>i. visit_node (p # c) (i # p)) 0 stmts (analyzeBlock p a)"
| "visit_node c p (PBrace es) a =
     bind_result (visit_new c p a) (\<lambda>a.
       bind_result (each (\<lambda>i e a.
         bind_result (visit_new c p (noticeSend a)) (visit_node c (i # p) e)) 1 es a) (\<lambda>a.
       visit_new c p (noticeSend a)))"
  by pat_completeness auto
termination
  by (relation "measure (\<lambda>(c, p, n, a). size n)") (auto intro: part_sizes)

definition method_bindLocals :: "parsed_method \<Rightarrow> analysis \<Rightarrow> analysis result" where
  "method_bindLocals m a =
     bind_result (bind_script [] (pm_arguments m) (pm_temporaries m) a)
       (each (\<lambda>i. bindLocals [] [i]) 0 (pm_statements m))"

definition method_positionLocals :: "parsed_method \<Rightarrow> analysis \<Rightarrow> analysis result" where
  "method_positionLocals m a = each (\<lambda>i. positionLocals [] [i]) 0 (pm_statements m) (positionOwnLocals [] a)"

definition visit_statements :: "parsed_method \<Rightarrow> analysis \<Rightarrow> analysis result" where
  "visit_statements m a = each (\<lambda>i. visit_node [] [i]) 0 (pm_statements m) a"

definition resolveSemantics :: "parsed_method \<Rightarrow> analysis result" where
  "resolveSemantics m =
     bind_result (method_bindLocals m new_analysis) (\<lambda>a.
       bind_result (visit_statements m a) (method_positionLocals m))"

section \<open>The resolved tree\<close>

fun binding_of :: "analysis \<Rightarrow> bound \<Rightarrow> binding" where
  "binding_of a (Fixed b) = b"
| "binding_of a (Local r) =
     (let l = an_locals a r
      in (if lb_argument l then ArgumentBinding else TemporaryBinding) (lb_name l) (lb_index l) (lb_environment l))"

definition node_binding :: "analysis \<Rightarrow> path \<Rightarrow> binding option" where
  "node_binding a p = map_option (binding_of a) (an_bindings a p)"

definition declared_argument :: "analysis \<Rightarrow> path \<Rightarrow> egg_string \<Rightarrow> ident_node" where
  "declared_argument a b name =
     (name, map_option (\<lambda>r. binding_of a (Local r)) (map_of (sc_arguments (an_scopes a b)) name))"

text \<open>\<open>environmentIndexOf_\<close> of a captured environment, which is one of the scope's, so the search
  never fails.\<close>

definition environmentIndexOf :: "analysis \<Rightarrow> script list \<Rightarrow> script \<Rightarrow> int option" where
  "environmentIndexOf a c e =
     (case capturedEnvironmentIndexOf a c e of Inr i \<Rightarrow> if i < 0 then None else Some i | Inl f \<Rightarrow> None)"

definition captured_argument :: "analysis \<Rightarrow> script list \<Rightarrow> egg_string \<Rightarrow> (int \<times> int) option" where
  "captured_argument a parent name =
     (case resolve a parent name of
        Local r \<Rightarrow> Some (captureType (lb_environment (an_locals a r)), lb_index (an_locals a r))
      | Fixed b \<Rightarrow> None)"

definition capturesHome :: "script_scope \<Rightarrow> bool" where
  "capturesHome sc = (case sc_environments sc of [] \<Rightarrow> False | e # es \<Rightarrow> e = [])"

definition resolved_scope :: "analysis \<Rightarrow> script list \<Rightarrow> block_scope" where
  "resolved_scope a c =
     (let sc = an_scopes a (script_of c); parent = real_of a (tl c)
      in \<lparr> bs_capturesSelf = sc_captureSelf sc,
           bs_environments = map (\<lambda>e. if e = parent then ParentEnvironment else EnvironmentAt (environmentIndexOf a c e))
             (sc_environments sc),
           bs_arguments = map (\<lambda>(name, r). captured_argument a (tl c) name)
             (filter (\<lambda>(name, r). lb_argument (an_locals a r)) (sc_captured sc)),
           bs_stackSize = sc_stackSize sc, bs_envSize = sc_envSize sc, bs_capturesHome = capturesHome sc \<rparr>)"

fun map_each :: "(nat \<Rightarrow> 'x \<Rightarrow> 'y) \<Rightarrow> nat \<Rightarrow> 'x list \<Rightarrow> 'y list" where
  "map_each f i [] = []"
| "map_each f i (x # xs) = f i x # map_each f (Suc i) xs"

lemma map_each_cong [fundef_cong]:
  assumes "i = j" "xs = ys" "\<And>k x. x \<in> set ys \<Longrightarrow> f k x = g k x"
  shows "map_each f i xs = map_each g j ys"
proof -
  have "map_each f i xs = map_each g i xs" if "\<And>k x. x \<in> set xs \<Longrightarrow> f k x = g k x" for xs
    using that by (induction xs arbitrary: i) auto
  with assms show ?thesis by simp
qed

function resolved_node :: "analysis \<Rightarrow> script list \<Rightarrow> path \<Rightarrow> parse_node \<Rightarrow> node" where
  "resolved_node a c p (PIdentifier v) = IdentifierNode (v, node_binding a p)"
| "resolved_node a c p (PLiteral l) = LiteralNode l"
| "resolved_node a c p (PMessage r s as) =
     MessageNode (an_inlined a p) (resolved_node a c (0 # p) r) s (map_each (\<lambda>i. resolved_node a c (i # p)) 1 as)"
| "resolved_node a c p (PCascade r ms) =
     CascadeNode (resolved_node a c (0 # p) r)
       (map_each (\<lambda>j m. (fst m, map_each (\<lambda>i. resolved_node a c (i # j # p)) 0 (snd m))) 1 ms)"
| "resolved_node a c p (PAssignment v e) =
     AssignmentNode [(v, node_binding a (0 # p))] (resolved_node a c (1 # p) e)"
| "resolved_node a c p (PReturn e) = ReturnNode (resolved_node a c (0 # p) e)"
| "resolved_node a c p (PBlock args temps stmts) =
     BlockNode (sc_inlined (an_scopes a p)) (sc_blockIndex (an_scopes a p)) (resolved_scope a (p # c))
       (map (declared_argument a p) args) (map_each (\<lambda>i. resolved_node a (p # c) (i # p)) 0 stmts)"
| "resolved_node a c p (PBrace es) =
     BraceNode (node_binding a (0 # p)) (map_each (\<lambda>i. resolved_node a c (i # p)) 1 es)"
  by pat_completeness auto
termination
  by (relation "measure (\<lambda>(a, c, p, n). size n)") (auto intro: part_sizes)

fun resolved_pragma :: "parsed_pragma \<Rightarrow> pragma_type \<times> egg_string" where
  "resolved_pragma (PrimitiveOf number name) = (PrimitivePragma, name)"
| "resolved_pragma (SymbolicOf name) = (SymbolicPragma, name)"

definition resolved_method :: "analysis \<Rightarrow> parsed_method \<Rightarrow> method_node" where
  "resolved_method a m =
     \<lparr> mn_selector = (case pm_selector m of Some s \<Rightarrow> s | None \<Rightarrow> []),
       mn_pragma = map_option resolved_pragma (pm_pragma m),
       mn_arguments = map (declared_argument a []) (pm_arguments m),
       mn_statements = map_each (\<lambda>i. resolved_node a [] [i]) 0 (pm_statements m) \<rparr>"

section \<open>Building the method\<close>

text \<open>The blocks directly in a script, and whether one of them, or of the inlined ones among them,
  captures the method's environment.\<close>

fun any_each :: "(nat \<Rightarrow> 'x \<Rightarrow> bool) \<Rightarrow> nat \<Rightarrow> 'x list \<Rightarrow> bool" where
  "any_each f i [] = False"
| "any_each f i (x # xs) = (f i x \<or> any_each f (Suc i) xs)"

lemma any_each_cong [fundef_cong]:
  assumes "i = j" "xs = ys" "\<And>k x. x \<in> set ys \<Longrightarrow> f k x = g k x"
  shows "any_each f i xs = any_each g j ys"
proof -
  have "any_each f i xs = any_each g i xs" if "\<And>k x. x \<in> set xs \<Longrightarrow> f k x = g k x" for xs
    using that by (induction xs arbitrary: i) auto
  with assms show ?thesis by simp
qed

function usesHome :: "analysis \<Rightarrow> path \<Rightarrow> parse_node \<Rightarrow> bool" where
  "usesHome a p (PIdentifier v) = False"
| "usesHome a p (PLiteral l) = False"
| "usesHome a p (PMessage r s as) = (usesHome a (0 # p) r \<or> any_each (\<lambda>i. usesHome a (i # p)) 1 as)"
| "usesHome a p (PCascade r ms) =
     (usesHome a (0 # p) r \<or> any_each (\<lambda>j m. any_each (\<lambda>i. usesHome a (i # j # p)) 0 (snd m)) 1 ms)"
| "usesHome a p (PAssignment v e) = usesHome a (1 # p) e"
| "usesHome a p (PReturn e) = usesHome a (0 # p) e"
| "usesHome a p (PBlock args temps stmts) =
     (if sc_inlined (an_scopes a p) then any_each (\<lambda>i. usesHome a (i # p)) 0 stmts
      else capturesHome (an_scopes a p))"
| "usesHome a p (PBrace es) = any_each (\<lambda>i. usesHome a (i # p)) 1 es"
  by pat_completeness auto
termination
  by (relation "measure (\<lambda>(a, p, n). size n)") (auto intro: part_sizes)

definition needsEnvironment :: "analysis \<Rightarrow> parsed_method \<Rightarrow> bool" where
  "needsEnvironment a m \<longleftrightarrow>
     sc_envSize (an_scopes a []) > 0 \<or> any_each (\<lambda>i. usesHome a [i]) 0 (pm_statements m)"

definition needsFrame :: "analysis \<Rightarrow> parsed_method \<Rightarrow> bool" where
  "needsFrame a m \<longleftrightarrow>
     sc_stackSize (an_scopes a []) > 0 \<or> length (pm_arguments m) > 16 \<or> \<not> an_leaf a \<or> an_blocks a > 0"

definition built_shape :: "analysis \<Rightarrow> parsed_method \<Rightarrow> method_shape" where
  "built_shape a m =
     (let sc = an_scopes a []
      in \<lparr> ms_blockCount = word_of_int (an_blocks a), ms_stackSize = word_of_int (sc_stackSize sc),
           ms_argumentCount = word_of_nat (length (pm_arguments m)), ms_environmentSize = word_of_int (sc_envSize sc),
           ms_capturesSelf = sc_captureSelf sc, ms_needsEnvironment = needsEnvironment a m,
           ms_needsFrame = needsFrame a m \<rparr>)"

record compiled_method =
  cm_format :: "32 word"
  cm_selector :: egg_string
  cm_source :: egg_string
  cm_literals :: "literal_value list"
  cm_treecodes :: "byte list"

definition buildMethod :: "egg_string \<Rightarrow> analysis \<Rightarrow> parsed_method \<Rightarrow> compiled_method result" where
  "buildMethod src a m =
     (let node = resolved_method a m
      in bind_result (encodeMethod node) (\<lambda>treecodes.
           Inr \<lparr> cm_format = method_format (built_shape a m), cm_selector = mn_selector node, cm_source = src,
                 cm_literals = method_literals node, cm_treecodes = treecodes \<rparr>))"

text \<open>\<open>compileMethod_\<close>; the first argument is the token that an earlier parse left behind.\<close>

definition compileMethod :: "token option \<Rightarrow> egg_string \<Rightarrow> compiled_method result" where
  "compileMethod peeked src =
     bind_result (parse_method peeked src) (\<lambda>(m, p).
       bind_result (resolveSemantics m) (\<lambda>a. buildMethod src a m))"

end
