(* ===== verification/LexicalScoping.thy ===== *)
theory LexicalScoping
  imports SemanticVisitor
begin

text \<open>
  Names resolve lexically: after the semantic pass every identifier is bound to the variable that
  the innermost script around it with that name declares, as an argument or as a temporary, to a
  pseudo variable, or to the receiver's environment by its name.  The pass may fail only because a
  name is declared twice; captures are shown to succeed on the way.
\<close>

section \<open>Lexical scoping\<close>

text \<open>The arguments and temporaries that the scripts around a place declare, innermost first.\<close>

type_synonym declarations = "egg_string list \<times> egg_string list"

datatype variable_kind = Argument | Temporary

fun lexical :: "declarations list \<Rightarrow> egg_string \<Rightarrow> variable_kind option" where
  "lexical [] v = None"
| "lexical ((args, temps) # ds) v =
     (if v \<in> set temps then Some Temporary else if v \<in> set args then Some Argument else lexical ds v)"

definition free_binding :: "egg_string \<Rightarrow> binding" where
  "free_binding v = (case resolvePseudo v of Some b \<Rightarrow> b | None \<Rightarrow> dynamic_named v)"

text \<open>What a lexical binding of a name has to be.\<close>

definition binds_lexically :: "declarations list \<Rightarrow> egg_string \<Rightarrow> binding \<Rightarrow> bool" where
  "binds_lexically ds v b \<longleftrightarrow>
     (case lexical ds v of
        Some Argument \<Rightarrow> (\<exists>i e. b = ArgumentBinding v i e)
      | Some Temporary \<Rightarrow> (\<exists>i e. b = TemporaryBinding v i e)
      | None \<Rightarrow> b = free_binding v)"

text \<open>The places of a tree: its identifiers with their names and its blocks, each with the blocks
  around it and their declarations (a block's own included).\<close>

type_synonym place = "script list \<times> declarations list \<times> egg_string option"

function places :: "script list \<Rightarrow> declarations list \<Rightarrow> path \<Rightarrow> parse_node \<Rightarrow> (path \<times> place) list" where
  "places c ds p (PIdentifier v) = [(p, c, ds, Some v)]"
| "places c ds p (PLiteral l) = []"
| "places c ds p (PMessage r s as) =
     places c ds (0 # p) r @ concat (map_each (\<lambda>i. places c ds (i # p)) 1 as)"
| "places c ds p (PCascade r ms) =
     places c ds (0 # p) r @
     concat (map_each (\<lambda>j m. concat (map_each (\<lambda>i. places c ds (i # j # p)) 0 (snd m))) 1 ms)"
| "places c ds p (PAssignment v e) = (0 # p, c, ds, Some v) # places c ds (1 # p) e"
| "places c ds p (PReturn e) = places c ds (0 # p) e"
| "places c ds p (PBlock args temps stmts) =
     (p, c, (args, temps) # ds, None) #
     concat (map_each (\<lambda>i. places (p # c) ((args, temps) # ds) (i # p)) 0 stmts)"
| "places c ds p (PBrace es) =
     (0 # p, c, ds, Some (ascii ''Array'')) # concat (map_each (\<lambda>i. places c ds (i # p)) 1 es)"
  by pat_completeness auto
termination
  by (relation "measure (\<lambda>(c, ds, p, n). size n)") (auto intro: part_sizes)

definition method_places :: "parsed_method \<Rightarrow> (path \<times> place) list" where
  "method_places m =
     concat (map_each (\<lambda>i. places [] [(pm_arguments m, pm_temporaries m)] [i]) 0 (pm_statements m))"

section \<open>Paths\<close>

definition under :: "path \<Rightarrow> path \<Rightarrow> bool" where
  "under p q \<longleftrightarrow> (\<exists>r. q = r @ p)"

lemma under_refl [simp]: "under p p"
  by (simp add: under_def)

lemma under_step: "under (i # p) q \<Longrightarrow> under p q"
  unfolding under_def by (metis append.assoc append_Cons append_Nil)

lemma under_same: "under (i # p) q \<Longrightarrow> under (j # p) q \<Longrightarrow> i = j"
proof -
  assume "under (i # p) q" "under (j # p) q"
  then obtain r s where "r @ i # p = s @ j # p"
    unfolding under_def by metis
  then have "rev p @ i # rev r = rev p @ j # rev s"
    by (metis append.assoc append_Cons append_Nil rev.simps(2) rev_append)
  then show ?thesis
    by simp
qed

lemma under_proper: "\<not> under (i # p) p"
  unfolding under_def by (metis add_Suc_right append_Cons length_Cons length_append less_add_Suc2 less_irrefl)

definition keys_under :: "path \<Rightarrow> (path \<times> 'v) list \<Rightarrow> bool" where
  "keys_under p l \<longleftrightarrow> distinct (map fst l) \<and> (\<forall>q \<in> set (map fst l). under p q)"

text \<open>The keys lie under the parts of a place from the given one on.\<close>

definition keys_from :: "nat \<Rightarrow> path \<Rightarrow> (path \<times> 'v) list \<Rightarrow> bool" where
  "keys_from i p l \<longleftrightarrow> distinct (map fst l) \<and> (\<forall>q \<in> set (map fst l). \<exists>k \<ge> i. under (k # p) q)"

lemma keys_from_under: "keys_from i p l \<Longrightarrow> keys_under p l"
  unfolding keys_from_def keys_under_def by (meson under_step)

lemma keys_from_nil [simp]: "keys_from i p []"
  by (simp add: keys_from_def)

lemma keys_from_append:
  assumes "keys_under (i # p) l" "keys_from (Suc i) p l'"
  shows "keys_from i p (l @ l')"
proof -
  have "q \<notin> set (map fst l')" if "q \<in> set (map fst l)" for q
  proof
    assume "q \<in> set (map fst l')"
    then obtain k where "k \<ge> Suc i" "under (k # p) q"
      using assms(2) unfolding keys_from_def by blast
    moreover have "under (i # p) q"
      using assms(1) that unfolding keys_under_def by blast
    ultimately show False
      using under_same by force
  qed
  then have "set (map fst l) \<inter> set (map fst l') = {}"
    by blast
  moreover have "\<exists>k \<ge> i. under (k # p) q" if "q \<in> set (map fst l')" for q
    using that assms(2) unfolding keys_from_def by (meson Suc_leD)
  ultimately show ?thesis
    using assms unfolding keys_from_def keys_under_def map_append distinct_append set_append by blast
qed

lemma keys_under_self: "keys_from i p l \<Longrightarrow> keys_under p ((p, x) # l)"
  using keys_from_under[of i p l] under_proper unfolding keys_from_def keys_under_def by auto

lemma keys_under_single: "keys_under p [(p, x)]"
  by (simp add: keys_under_def)

lemma keys_from_parts:
  assumes "\<And>k x. x \<in> set xs \<Longrightarrow> keys_under (k # p) (f k x)"
  shows "keys_from i p (concat (map_each f i xs))"
  using assms by (induction xs arbitrary: i) (auto intro!: keys_from_append)

lemma places_under: "keys_under p (places c ds p n)"
proof (induction c ds p n rule: places.induct)
  case (3 c ds p r s as)
  have "keys_from 0 p (places c ds (0 # p) r @ concat (map_each (\<lambda>i. places c ds (i # p)) (Suc 0) as))"
    by (rule keys_from_append[OF _ keys_from_parts]) (use 3 in auto)
  then show ?case
    using keys_from_under by fastforce
next
  case (4 c ds p r ms)
  have "keys_under (j # p) (concat (map_each (\<lambda>i. places c ds (i # j # p)) 0 (snd m)))" if "m \<in> set ms" for j m
    by (rule keys_from_under[OF keys_from_parts]) (use 4 that in auto)
  then have "keys_from 0 p (places c ds (0 # p) r @
      concat (map_each (\<lambda>j m. concat (map_each (\<lambda>i. places c ds (i # j # p)) 0 (snd m))) (Suc 0) ms))"
    by (intro keys_from_append[OF _ keys_from_parts]) (use 4 in auto)
  then show ?case
    using keys_from_under by fastforce
next
  case (5 c ds p v e)
  have "keys_from 0 p ([(0 # p, c, ds, Some v)] @ places c ds (1 # p) e @ [])"
    by (rule keys_from_append[OF keys_under_single keys_from_append]) (use 5 in auto)
  then show ?case
    using keys_from_under by fastforce
next
  case (7 c ds p args temps stmts)
  then show ?case
    by (auto intro!: keys_under_self keys_from_parts)
next
  case (8 c ds p es)
  have "keys_from 0 p ([(0 # p, c, ds, Some (ascii ''Array''))] @ concat (map_each (\<lambda>i. places c ds (i # p)) (Suc 0) es))"
    by (rule keys_from_append[OF keys_under_single keys_from_parts]) (use 8 in auto)
  then show ?case
    using keys_from_under by fastforce
next
  case (6 c ds p e)
  then show ?case
    by (auto simp: keys_under_def dest: under_step)
qed (auto simp: keys_under_def)

lemma method_places_distinct: "distinct (map fst (method_places m))"
  using keys_from_parts[of "pm_statements m" "[]" "\<lambda>i. places [] [(pm_arguments m, pm_temporaries m)] [i]" 0]
  by (simp add: method_places_def keys_from_def places_under)

end
