(* ===== verification/ScopeInvariant.thy ===== *)
theory ScopeInvariant
  imports LexicalScoping
begin

text \<open>
  The invariant of the semantic pass: declared and captured names refer to locals of their own name
  and kind, a block captures only what a script around it declares, and the nodes visited so far are
  bound to what their scripts declare.  The chart \<open>G\<close> tells what is at each path of the tree.
\<close>

section \<open>The invariant\<close>

type_synonym chart = "path \<Rightarrow> place option"

definition ref_is :: "analysis \<Rightarrow> local_ref \<Rightarrow> egg_string \<Rightarrow> bool \<Rightarrow> bool" where
  "ref_is a r name argument \<longleftrightarrow>
     r < an_fresh a \<and> lb_name (an_locals a r) = name \<and> lb_argument (an_locals a r) = argument"

text \<open>The declaration that a name refers to, captured copies aside.\<close>

fun declared :: "analysis \<Rightarrow> script list \<Rightarrow> egg_string \<Rightarrow> local_ref option" where
  "declared a [] v = resolveLocal (an_scopes a []) v"
| "declared a (b # c) v =
     (case resolveLocal (an_scopes a b) v of Some r \<Rightarrow> Some r | None \<Rightarrow> declared a c v)"

definition refs_ok :: "analysis \<Rightarrow> bool" where
  "refs_ok a \<longleftrightarrow> (\<forall>s name r.
     (map_of (sc_temporaries (an_scopes a s)) name = Some r \<longrightarrow> ref_is a r name False) \<and>
     (map_of (sc_arguments (an_scopes a s)) name = Some r \<longrightarrow> ref_is a r name True))"

definition copies :: "analysis \<Rightarrow> script list \<Rightarrow> egg_string \<Rightarrow> local_ref \<Rightarrow> bool" where
  "copies a c v r \<longleftrightarrow> (\<exists>d. declared a c v = Some d \<and> ref_is a r v (lb_argument (an_locals a d)))"

definition captured_ok :: "chart \<Rightarrow> analysis \<Rightarrow> bool" where
  "captured_ok G a \<longleftrightarrow> (\<forall>b c ds name r. G b = Some (c, ds, None) \<longrightarrow>
     map_of (sc_captured (an_scopes a b)) name = Some r \<longrightarrow>
     \<not> scope_defines (an_scopes a b) name \<and> copies a c name r)"

fun bound_ok :: "analysis \<Rightarrow> script list \<Rightarrow> egg_string \<Rightarrow> bound \<Rightarrow> bool" where
  "bound_ok a c v (Local r) = copies a c v r"
| "bound_ok a c v (Fixed b) = (declared a c v = None \<and> b = free_binding v)"

definition bindings_ok :: "chart \<Rightarrow> analysis \<Rightarrow> bool" where
  "bindings_ok G a \<longleftrightarrow> (\<forall>q b. an_bindings a q = Some b \<longrightarrow>
     (\<exists>c ds v. G q = Some (c, ds, Some v) \<and> bound_ok a c v b))"

definition scopes_ok :: "chart \<Rightarrow> analysis \<Rightarrow> bool" where
  "scopes_ok G a \<longleftrightarrow> refs_ok a \<and> captured_ok G a \<and> bindings_ok G a"

fun chain_ok :: "chart \<Rightarrow> script list \<Rightarrow> bool" where
  "chain_ok G [] = True"
| "chain_ok G (b # c) = ((\<exists>ds. G b = Some (c, ds, None)) \<and> chain_ok G c)"

section \<open>Steps that keep what was declared and bound\<close>

definition stable :: "analysis \<Rightarrow> analysis \<Rightarrow> bool" where
  "stable a a' \<longleftrightarrow>
     an_fresh a \<le> an_fresh a' \<and>
     (\<forall>r < an_fresh a. lb_name (an_locals a' r) = lb_name (an_locals a r) \<and>
        lb_argument (an_locals a' r) = lb_argument (an_locals a r)) \<and>
     (\<forall>s. sc_temporaries (an_scopes a' s) = sc_temporaries (an_scopes a s) \<and>
        sc_arguments (an_scopes a' s) = sc_arguments (an_scopes a s)) \<and>
     (\<forall>q. an_bindings a q \<noteq> None \<longrightarrow> an_bindings a' q \<noteq> None)"

text \<open>The stronger relation of steps that change flags, environments and positions only.\<close>

definition names_kept :: "analysis \<Rightarrow> analysis \<Rightarrow> bool" where
  "names_kept a a' \<longleftrightarrow>
     an_fresh a' = an_fresh a \<and> an_bindings a' = an_bindings a \<and>
     (\<forall>r. lb_name (an_locals a' r) = lb_name (an_locals a r) \<and>
        lb_argument (an_locals a' r) = lb_argument (an_locals a r)) \<and>
     (\<forall>s. sc_temporaries (an_scopes a' s) = sc_temporaries (an_scopes a s) \<and>
        sc_arguments (an_scopes a' s) = sc_arguments (an_scopes a s) \<and>
        sc_captured (an_scopes a' s) = sc_captured (an_scopes a s))"

lemma stable_refl [simp, intro]: "stable a a"
  by (simp add: stable_def)

lemma stable_trans [trans]: "stable a b \<Longrightarrow> stable b c \<Longrightarrow> stable a c"
  unfolding stable_def by (metis order.strict_trans2 order.trans)

lemma names_kept_refl [simp, intro]: "names_kept a a"
  by (simp add: names_kept_def)

lemma names_kept_trans [trans]: "names_kept a b \<Longrightarrow> names_kept b c \<Longrightarrow> names_kept a c"
  by (simp add: names_kept_def)

lemma names_kept_stable: "names_kept a a' \<Longrightarrow> stable a a'"
  by (simp add: names_kept_def stable_def)

lemma resolveLocal_cong:
  "sc_temporaries sc = sc_temporaries sc' \<Longrightarrow> sc_arguments sc = sc_arguments sc' \<Longrightarrow>
     resolveLocal sc v = resolveLocal sc' v"
  by (simp add: resolveLocal_def split: option.split)

lemma stable_resolveLocal: "stable a a' \<Longrightarrow> resolveLocal (an_scopes a' s) v = resolveLocal (an_scopes a s) v"
  by (intro resolveLocal_cong) (auto simp: stable_def)

lemma stable_defines: "stable a a' \<Longrightarrow> scope_defines (an_scopes a' s) v = scope_defines (an_scopes a s) v"
  by (simp add: stable_def scope_defines_def)

lemma stable_declared: "stable a a' \<Longrightarrow> declared a' c v = declared a c v"
  by (induction c) (auto simp: stable_resolveLocal split: option.split)

lemma stable_ref: "stable a a' \<Longrightarrow> ref_is a r v x \<Longrightarrow> ref_is a' r v x"
  by (auto simp: stable_def ref_is_def)

lemma resolveLocal_ref:
  "refs_ok a \<Longrightarrow> resolveLocal (an_scopes a s) v = Some r \<Longrightarrow> ref_is a r v (lb_argument (an_locals a r))"
  unfolding resolveLocal_def refs_ok_def by (fastforce simp: ref_is_def split: option.splits)

lemma declared_ref: "refs_ok a \<Longrightarrow> declared a c v = Some r \<Longrightarrow> ref_is a r v (lb_argument (an_locals a r))"
  by (induction c) (auto simp: resolveLocal_ref split: option.splits)

lemma declared_copies: "refs_ok a \<Longrightarrow> declared a c v = Some r \<Longrightarrow> copies a c v r"
  by (simp add: copies_def declared_ref)

lemma stable_argument:
  "stable a a' \<Longrightarrow> refs_ok a \<Longrightarrow> declared a c v = Some d \<Longrightarrow>
     lb_argument (an_locals a' d) = lb_argument (an_locals a d)"
  using declared_ref by (fastforce simp: stable_def ref_is_def)

lemma stable_copies: "stable a a' \<Longrightarrow> refs_ok a \<Longrightarrow> copies a c v r \<Longrightarrow> copies a' c v r"
  unfolding copies_def
  by (elim exE conjE, intro exI conjI, erule stable_declared[THEN trans], assumption)
    (simp add: stable_argument stable_ref)

lemma stable_bound: "stable a a' \<Longrightarrow> refs_ok a \<Longrightarrow> bound_ok a c v b \<Longrightarrow> bound_ok a' c v b"
  by (cases b) (auto simp: stable_copies stable_declared)

lemma stable_refs: "stable a a' \<Longrightarrow> refs_ok a \<Longrightarrow> refs_ok a'"
proof -
  assume st: "stable a a'" and ok: "refs_ok a"
  have "sc_temporaries (an_scopes a' s) = sc_temporaries (an_scopes a s)"
    "sc_arguments (an_scopes a' s) = sc_arguments (an_scopes a s)" for s
    using st by (auto simp: stable_def)
  with ok stable_ref[OF st] show ?thesis
    by (simp add: refs_ok_def)
qed

text \<open>The invariant is kept when the new captures and bindings are right.\<close>

lemma scopes_okI:
  assumes "scopes_ok G a" "stable a a'"
    and "\<And>b c ds name r. G b = Some (c, ds, None) \<Longrightarrow> map_of (sc_captured (an_scopes a' b)) name = Some r \<Longrightarrow>
      map_of (sc_captured (an_scopes a b)) name = Some r \<or> \<not> scope_defines (an_scopes a b) name \<and> copies a' c name r"
    and "\<And>q b. an_bindings a' q = Some b \<Longrightarrow>
      an_bindings a q = Some b \<or> (\<exists>c ds v. G q = Some (c, ds, Some v) \<and> bound_ok a' c v b)"
  shows "scopes_ok G a'"
proof -
  have ok: "refs_ok a" "captured_ok G a" "bindings_ok G a"
    using assms(1) by (simp_all add: scopes_ok_def)
  have "refs_ok a'"
    by (rule stable_refs[OF assms(2) ok(1)])
  moreover have "captured_ok G a'"
    unfolding captured_ok_def
  proof (intro allI impI)
    fix b c ds name r
    assume b: "G b = Some (c, ds, None)" and r: "map_of (sc_captured (an_scopes a' b)) name = Some r"
    from assms(3)[OF b r] show "\<not> scope_defines (an_scopes a' b) name \<and> copies a' c name r"
      unfolding stable_defines[OF assms(2)]
      using ok(2) b stable_copies[OF assms(2) ok(1)] unfolding captured_ok_def by blast
  qed
  moreover have "bindings_ok G a'"
    unfolding bindings_ok_def
  proof (intro allI impI)
    fix q b
    assume "an_bindings a' q = Some b"
    from assms(4)[OF this] show "\<exists>c ds v. G q = Some (c, ds, Some v) \<and> bound_ok a' c v b"
      using ok(3) stable_bound[OF assms(2) ok(1)] unfolding bindings_ok_def by blast
  qed
  ultimately show ?thesis
    by (simp add: scopes_ok_def)
qed

lemma names_kept_ok: "names_kept a a' \<Longrightarrow> scopes_ok G a \<Longrightarrow> scopes_ok G a'"
proof -
  assume k: "names_kept a a'" and ok: "scopes_ok G a"
  from k have "sc_captured (an_scopes a' b) = sc_captured (an_scopes a b)" "an_bindings a' = an_bindings a" for b
    by (simp_all add: names_kept_def)
  with scopes_okI[OF ok names_kept_stable[OF k]] show ?thesis
    by simp
qed

section \<open>Resolution\<close>

lemma resolve_bound_ok:
  assumes "scopes_ok G a" "chain_ok G c"
  shows "bound_ok a c v (resolve a c v)"
  using assms(2)
proof (induction c)
  case Nil
  from assms(1) have "refs_ok a"
    by (simp add: scopes_ok_def)
  then show ?case
    using declared_copies[of a "[]" v] by (auto simp: free_binding_def split: option.split)
next
  case (Cons b c)
  then obtain ds where b: "G b = Some (c, ds, None)"
    by auto
  show ?case
  proof (cases "resolveLocal (an_scopes a b) v")
    case (Some r)
    with assms(1) show ?thesis
      by (auto simp: scopes_ok_def block_resolveLocal_def intro!: declared_copies)
  next
    case None
    note own = this
    then have d: "declared a (b # c) v = declared a c v"
      by simp
    show ?thesis
    proof (cases "map_of (sc_captured (an_scopes a b)) v")
      case None
      with own Cons d show ?thesis
        by (cases "resolve a c v") (auto simp: block_resolveLocal_def copies_def)
    next
      case (Some r)
      then have "copies a c v r"
        using assms(1) b by (auto simp: scopes_ok_def captured_ok_def)
      with own Some d show ?thesis
        by (simp add: block_resolveLocal_def copies_def)
    qed
  qed
qed

lemma defines_resolveLocal: "scope_defines sc v \<longleftrightarrow> resolveLocal sc v \<noteq> None"
  by (auto simp: scope_defines_def resolveLocal_def split: option.splits)

section \<open>Captures\<close>

lemma state_simps [simp]:
  "an_scopes (with_local r g a) = an_scopes a" "an_fresh (with_local r g a) = an_fresh a"
  "an_bindings (with_local r g a) = an_bindings a" "an_locals (with_scope s f a) = an_locals a"
  "an_fresh (with_scope s f a) = an_fresh a" "an_bindings (with_scope s f a) = an_bindings a"
  "an_scopes (with_scope s f a) t = (if t = s then f (an_scopes a s) else an_scopes a t)"
  "an_locals (with_local r g a) q = (if q = r then g (an_locals a r) else an_locals a q)"
  "an_inlined (with_scope s f a) = an_inlined a" "an_inlined (with_local r g a) = an_inlined a"
  by (auto simp: with_local_def with_scope_def)

lemma with_scope_kept:
  assumes "\<And>sc. sc_temporaries (f sc) = sc_temporaries sc" "\<And>sc. sc_arguments (f sc) = sc_arguments sc"
    "\<And>sc. sc_captured (f sc) = sc_captured sc"
  shows "names_kept a (with_scope s f a)"
  using assms by (simp add: names_kept_def)

lemma with_local_kept:
  assumes "\<And>l. lb_name (g l) = lb_name l" "\<And>l. lb_argument (g l) = lb_argument l"
  shows "names_kept a (with_local r g a)"
  using assms by (simp add: names_kept_def)

lemma beInArray_kept: "names_kept a (beInArray r a)"
  unfolding beInArray_def by (rule with_local_kept) auto

lemma captureSelf_kept: "names_kept a (captureSelf c a)"
proof (induction c a rule: captureSelf.induct)
  case (1 a)
  show ?case by (simp add: with_scope_kept)
next
  case (2 b c a)
  have "names_kept a (with_scope b (\<lambda>sc. sc\<lparr> sc_captureSelf := True \<rparr>) a)"
    by (simp add: with_scope_kept)
  with 2 show ?case
    by (auto intro: names_kept_trans)
qed

lemma beReferencedFrom_kept: "names_kept a (beReferencedFrom b c a)"
  by (induction b c a rule: beReferencedFrom.induct) (auto simp: captureSelf_kept)

lemma captureEnvironment_kept: "captureEnvironment c e a = Inr a' \<Longrightarrow> names_kept a a'"
proof (induction c e a arbitrary: a' rule: captureEnvironment.induct)
  case (1 e a)
  then show ?case by (auto simp: assert_that_def split: if_splits)
next
  case (2 b c e a)
  show ?case
  proof (cases "b = e \<or> e \<in> set (sc_environments (an_scopes a b))")
    case True
    with 2(2) show ?thesis by auto
  next
    case False
    with 2(2) obtain a1 where a1: "captureEnvironment (realChain a c) e a = Inr a1"
      and a': "a' = with_scope b (\<lambda>sc. sc\<lparr> sc_environments :=
        (if e = [] then e # sc_environments sc else sc_environments sc @ [e]) \<rparr>) a1"
      by (auto simp: bind_result_eq_Inr)
    have "names_kept a1 a'"
      unfolding a' by (simp add: with_scope_kept)
    with 2(1)[OF False a1] show ?thesis by (rule names_kept_trans)
  qed
qed

lemma captureHome_kept: "captureHome c a = Inr a' \<Longrightarrow> names_kept a a'"
  by (auto simp: captureHome_def simp del: captureEnvironment.simps intro: captureEnvironment_kept split: list.splits)

text \<open>A copy of a local has its name and kind.\<close>

lemma copyLocal_ok:
  assumes "scopes_ok G a" "ref_is a r v x" "copyLocal b r a = (copy, a')"
  shows "scopes_ok G a'" "stable a a'" "ref_is a' copy v x" "an_scopes a' = an_scopes a"
proof -
  have "stable a a' \<and> ref_is a' copy v x \<and> an_scopes a' = an_scopes a \<and> an_bindings a' = an_bindings a"
  proof (cases "sc_inlined (an_scopes a b)")
    case True
    with assms(2,3) show ?thesis
      by (simp add: copyLocal_def)
  next
    case False
    define a1 where "a1 = snd (new_local (an_locals a r) a)"
    have a': "copy = an_fresh a" "a' = beInArray copy a1"
      using assms(3) False by (auto simp: copyLocal_def a1_def new_local_def)
    have a1: "stable a a1" "ref_is a1 (an_fresh a) v x" "an_scopes a1 = an_scopes a" "an_bindings a1 = an_bindings a"
      using assms(2) by (simp_all add: a1_def new_local_def stable_def ref_is_def)
    have k: "names_kept a1 a'" "an_scopes a' = an_scopes a1" "an_bindings a' = an_bindings a1"
      unfolding a' by (simp_all add: beInArray_kept) (simp_all add: beInArray_def)
    show ?thesis
      using stable_trans[OF a1(1) names_kept_stable[OF k(1)]] stable_ref[OF names_kept_stable[OF k(1)] a1(2)]
        a1(3,4) k(2,3) a'(1) by simp
  qed
  then show st: "stable a a'" and "ref_is a' copy v x" and sc: "an_scopes a' = an_scopes a"
    and "scopes_ok G a'"
    using scopes_okI[OF assms(1), of a'] by simp_all
qed

lemma map_put_of: "map_of (map_put k v m) l = (if l = k then Some v else map_of m l)"
  by (induction k v m rule: map_put.induct) auto

lemma capture_ok:
  assumes "scopes_ok G a" "G b = Some (c, ds, None)" "\<not> scope_defines (an_scopes a b) v" "copies a c v r"
  shows "scopes_ok G (capture b v r a)" "stable a (capture b v r a)"
proof -
  show *: "stable a (capture b v r a)"
    by (simp add: stable_def capture_def)
  from stable_copies[OF * _ assms(4)] assms show "scopes_ok G (capture b v r a)"
    by (intro scopes_okI[OF assms(1) *]) (auto simp: capture_def map_put_of scopes_ok_def split: if_splits)
qed

text \<open>Copying a local into a block that does not declare its name.\<close>

lemma copy_capture_ok:
  assumes "scopes_ok G a" "G b = Some (c, ds, None)" "\<not> scope_defines (an_scopes a b) v" "copies a c v r"
    and "copyLocal b r a = (copy, a1)" "stable a1 a2" "scopes_ok G a2"
  shows "scopes_ok G (capture b v copy a2)" "stable a (capture b v copy a2)" "copies (capture b v copy a2) c v copy"
proof -
  obtain d where d: "declared a c v = Some d" "ref_is a r v (lb_argument (an_locals a d))"
    using assms(4) by (auto simp: copies_def)
  note copy = copyLocal_ok[OF assms(1) d(2) assms(5)]
  have st: "stable a a2"
    using copy(2) assms(6) by (rule stable_trans)
  have "copies a2 c v copy"
    unfolding copies_def
    using d(1) stable_declared[OF st] stable_ref[OF assms(6) copy(3)] stable_argument[OF st _ d(1)] assms(1)
    by (auto simp: scopes_ok_def)
  note ok = capture_ok[OF assms(7) assms(2) _ this]
  have nd: "\<not> scope_defines (an_scopes a2 b) v"
    using stable_defines[OF st] assms(3) by simp
  show "scopes_ok G (capture b v copy a2)" "stable a (capture b v copy a2)"
    using ok[OF nd] stable_trans[OF st] by blast+
  show "copies (capture b v copy a2) c v copy"
    using stable_copies[OF ok(2)[OF nd] _ \<open>copies a2 c v copy\<close>] assms(7) by (simp add: scopes_ok_def)
qed

lemma transferLocal_ok:
  assumes "scopes_ok G a" "chain_ok G c" "declared a c v \<noteq> None"
  shows "\<exists>r a'. transferLocal c v a = Inr (r, a') \<and> scopes_ok G a' \<and> stable a a' \<and> copies a' c v r"
  using assms(2,3)
proof (induction c)
  case Nil
  with assms(1) declared_copies[of a "[]" v] show ?case
    by (auto simp: scopes_ok_def)
next
  case (Cons b c)
  then obtain ds where b: "G b = Some (c, ds, None)" and c: "chain_ok G c"
    by auto
  show ?case
  proof (cases "block_resolveLocal (an_scopes a b) v")
    case (Some r)
    then have "bound_ok a (b # c) v (Local r)"
      using resolve_bound_ok[OF assms(1) Cons.prems(1), of v] by simp
    with Some assms(1) show ?thesis
      by (auto intro!: exI[of _ r] exI[of _ a])
  next
    case None
    then have nd: "\<not> scope_defines (an_scopes a b) v" and rl: "resolveLocal (an_scopes a b) v = None"
      by (auto simp: defines_resolveLocal block_resolveLocal_def split: option.splits)
    with Cons c obtain r a1 where t: "transferLocal c v a = Inr (r, a1)" "scopes_ok G a1" "stable a a1"
      "copies a1 c v r"
      by fastforce
    obtain copy a2 where copy: "copyLocal b r a1 = (copy, a2)"
      by fastforce
    have nd1: "\<not> scope_defines (an_scopes a1 b) v"
      using stable_defines[OF t(3)] nd by simp
    obtain d where "ref_is a1 r v (lb_argument (an_locals a1 d))"
      using t(4) by (auto simp: copies_def)
    note k = copyLocal_ok[OF t(2) this copy]
    note cc = copy_capture_ok[OF t(2) b nd1 t(4) copy stable_refl k(1)]
    have rl2: "resolveLocal (an_scopes (capture b v copy a2) b) v = None"
      using stable_resolveLocal[OF stable_trans[OF t(3) cc(2)]] rl by simp
    have "copies (capture b v copy a2) (b # c) v copy"
      using cc(3) rl2 unfolding copies_def by simp
    with None t(1) copy cc(1) stable_trans[OF t(3) cc(2)] show ?thesis
      by simp
  qed
qed

text \<open>The declaring script is a script of the chain.\<close>

lemma scriptDefining_ok:
  "declared a c v \<noteq> None \<Longrightarrow> \<exists>d e. scriptDefining a c v = Inr d \<and> c = e @ d"
proof (induction c)
  case (Cons b c)
  then show ?case
    by (cases "scope_defines (an_scopes a b) v") (force simp: defines_resolveLocal)+
qed (simp add: defines_resolveLocal)

text \<open>A block finds the environment of every script around it that is not inlined.\<close>

fun inlined_out :: "analysis \<Rightarrow> script list \<Rightarrow> script list" where
  "inlined_out a c = filter (\<lambda>b. \<not> sc_inlined (an_scopes a b)) c"

lemma realChain_filter: "inlined_out a (realChain a c) = inlined_out a c"
  by (induction c) auto

lemma captureEnvironment_succeeds:
  assumes "e = [] \<or> e \<in> set (inlined_out a c)"
  shows "\<exists>a'. captureEnvironment c e a = Inr a'"
  using assms
proof (induction c e a rule: captureEnvironment.induct)
  case (1 e a)
  then show ?case by auto
next
  case (2 b c e a)
  show ?case
  proof (cases "b = e \<or> e \<in> set (sc_environments (an_scopes a b))")
    case True
    then show ?thesis by auto
  next
    case False
    with 2(2) have "e = [] \<or> e \<in> set (inlined_out a (realChain a c))"
      by (metis (no_types) inlined_out.simps filter.simps(2) realChain_filter set_ConsD)
    with 2(1)[OF False] False show ?thesis by fastforce
  qed
qed

lemma real_of_in: "real_of a c = [] \<or> real_of a c \<in> set (inlined_out a c)"
  by (induction c) (auto simp: real_of_def script_of_def)

lemma captureHome_succeeds: "\<exists>a'. captureHome c a = Inr a'"
  by (cases "realChain a c") (auto simp: captureHome_def simp del: captureEnvironment.simps intro: captureEnvironment_succeeds)

lemma captureArgument_ok:
  assumes "scopes_ok G a" "G b = Some (c, ds, None)" "chain_ok G c" "declared a c v \<noteq> None"
    and "\<not> scope_defines (an_scopes a b) v" "lb_name (an_locals a r) = v"
  shows "\<exists>s a'. captureArgument b c r a = Inr (s, a') \<and> scopes_ok G a' \<and> stable a a' \<and> copies a' c v s"
proof (cases "map_of (sc_captured (an_scopes a b)) v")
  case (Some s)
  with assms show ?thesis
    by (fastforce simp: captureArgument_def scopes_ok_def captured_ok_def)
next
  case None
  obtain t a1 where t: "transferLocal c v a = Inr (t, a1)" "scopes_ok G a1" "stable a a1" "copies a1 c v t"
    using transferLocal_ok[OF assms(1,3,4)] by blast
  obtain copy a2 where copy: "copyLocal b t a1 = (copy, a2)"
    by fastforce
  obtain d where "ref_is a1 t v (lb_argument (an_locals a1 d))"
    using t(4) by (auto simp: copies_def)
  note k = copyLocal_ok[OF t(2) this copy]
  have "\<not> scope_defines (an_scopes a1 b) v"
    using stable_defines[OF t(3)] assms(5) by simp
  note cc = copy_capture_ok[OF t(2) assms(2) this t(4) copy stable_refl k(1)]
  with None t copy assms(6) stable_trans[OF t(3) cc(2)] show ?thesis
    by (auto simp: captureArgument_def)
qed

lemma captureTemporary_ok:
  assumes "scopes_ok G a" "G b = Some (c, ds, None)" "chain_ok G c" "declared a c v \<noteq> None"
    and "\<not> scope_defines (an_scopes a b) v" "lb_name (an_locals a r) = v"
  shows "\<exists>s a'. captureTemporary b c r a = Inr (s, a') \<and> scopes_ok G a' \<and> stable a a' \<and> copies a' c v s"
proof (cases "map_of (sc_captured (an_scopes a b)) v")
  case (Some s)
  with assms show ?thesis
    by (fastforce simp: captureTemporary_def scopes_ok_def captured_ok_def)
next
  case None
  obtain d e where d: "scriptDefining a c v = Inr d" "c = e @ d"
    using scriptDefining_ok[OF assms(4)] by blast
  have "real_of a d = [] \<or> real_of a d \<in> set (inlined_out a (realChain a (b # c)))"
    using real_of_in[of a d] d(2) unfolding realChain_filter by auto
  then obtain a0 where a0: "captureEnvironment (realChain a (b # c)) (real_of a d) a = Inr a0"
    using captureEnvironment_succeeds by blast
  note kept = captureEnvironment_kept[OF a0]
  note s0 = names_kept_stable[OF kept] names_kept_ok[OF kept assms(1)]
  have "declared a0 c v \<noteq> None"
    using assms(4) stable_declared[OF s0(1)] by simp
  then obtain t a1 where t: "transferLocal c v a0 = Inr (t, a1)" "scopes_ok G a1" "stable a0 a1" "copies a1 c v t"
    using transferLocal_ok[OF s0(2) assms(3)] by blast
  obtain copy a2 where copy: "copyLocal b t a1 = (copy, a2)"
    by fastforce
  define a3 where "a3 = (if isStack (lb_environment (an_locals a2 copy)) then a2 else beInArray r a2)"
  obtain x where "ref_is a1 t v (lb_argument (an_locals a1 x))"
    using t(4) by (auto simp: copies_def)
  note k = copyLocal_ok[OF t(2) this copy]
  have "names_kept a2 a3"
    by (simp add: a3_def beInArray_kept)
  note s3 = names_kept_stable[OF this] names_kept_ok[OF this k(1)]
  have st: "stable a a1"
    using s0(1) t(3) by (rule stable_trans)
  have "\<not> scope_defines (an_scopes a1 b) v"
    using stable_defines[OF st] assms(5) by simp
  note cc = copy_capture_ok[OF t(2) assms(2) this t(4) copy s3]
  have "captureTemporary b c r a = Inr (copy, capture b v copy a3)"
    using None d(1) a0 t(1) copy assms(5,6) by (simp add: captureTemporary_def a3_def)
  with cc stable_trans[OF st cc(2)] show ?thesis
    by blast
qed

lemma captureLocal_ok:
  assumes "scopes_ok G a" "chain_ok G c" "copies a c v r"
  shows "\<exists>s a'. captureLocal c r a = Inr (s, a') \<and> scopes_ok G a' \<and> stable a a' \<and> copies a' c v s"
proof -
  have n: "lb_name (an_locals a r) = v" and d: "declared a c v \<noteq> None"
    using assms(3) by (auto simp: copies_def ref_is_def)
  show ?thesis
  proof (cases c)
    case Nil
    with assms n d show ?thesis
      by (auto simp: assert_that_def)
  next
    case (Cons b c')
    then obtain ds where b: "G b = Some (c', ds, None)" and c': "chain_ok G c'"
      using assms(2) by auto
    show ?thesis
    proof (cases "scope_defines (an_scopes a b) v")
      case True
      with assms n Cons show ?thesis
        by auto
    next
      case False
      then have rl: "resolveLocal (an_scopes a b) v = None"
        by (simp add: defines_resolveLocal)
      have d': "declared a c' v \<noteq> None"
        using d Cons rl by simp
      obtain s a' where s: "captureLocal c r a = Inr (s, a')" "scopes_ok G a'" "stable a a'" "copies a' c' v s"
        using captureArgument_ok[OF assms(1) b c' d' False n] captureTemporary_ok[OF assms(1) b c' d' False n]
          False Cons n by (cases "lb_argument (an_locals a r)") auto
      moreover have "resolveLocal (an_scopes a' b) v = None"
        using stable_resolveLocal[OF s(3)] rl by simp
      ultimately show ?thesis
        using Cons by (auto simp: copies_def)
    qed
  qed
qed

end
