(* ===== verification/NameResolution.thy ===== *)
theory NameResolution
  imports ScopeInvariant
begin

text \<open>
  The phases of the semantic pass over a whole method: declaring the locals, visiting the statements
  and placing the locals; the theorem that names resolve lexically.
\<close>

section \<open>Outcomes\<close>

abbreviation succeeds :: "('a \<Rightarrow> bool) \<Rightarrow> 'a result \<Rightarrow> bool" where
  "succeeds \<equiv> outcome (\<lambda>f. False)"

lemma outcome_ex: "succeeds P r \<Longrightarrow> \<exists>x. r = Inr x \<and> P x"
  by (cases r) auto

text \<open>An invariant of going through a list may tell how many elements are done.\<close>

lemma outcome_each:
  assumes "I 0 s" "\<And>k s. k < length xs \<Longrightarrow> I k s \<Longrightarrow> outcome F (I (Suc k)) (f (i + k) (xs ! k) s)"
  shows "outcome F (I (length xs)) (each f i xs s)"
  using assms
proof (induction xs arbitrary: i s I)
  case (Cons x xs)
  have x: "outcome F (I 1) (f i x s)"
    using Cons.prems(2)[of 0 s] Cons.prems(1) by simp
  have "outcome F (I (Suc k)) (f (Suc i + l) (xs ! l) t)" if "k = Suc l" "l < length xs" "I k t" for k l t
    using Cons.prems(2)[of "Suc l" t] that by simp
  then have "outcome F (\<lambda>t. I (Suc (length xs)) t) (each f (Suc i) xs t)" if "I 1 t" for t
    using that Cons.IH[of "\<lambda>k. I (Suc k)" t "Suc i"] by simp
  then show ?case
    by (auto intro!: outcome_bind[OF x])
qed simp

section \<open>Declaring the locals\<close>

definition declares :: "analysis \<Rightarrow> script \<Rightarrow> declarations \<Rightarrow> bool" where
  "declares a s d \<longleftrightarrow>
     fst ` set (sc_arguments (an_scopes a s)) = set (fst d) \<and> fst ` set (sc_temporaries (an_scopes a s)) = set (snd d)"

definition undeclared :: "analysis \<Rightarrow> path \<Rightarrow> bool" where
  "undeclared a p \<longleftrightarrow> (\<forall>q. under p q \<longrightarrow> declares a q ([], []))"

text \<open>What stays while locals are declared, apart from the scopes under a path.\<close>

definition blank :: "analysis \<Rightarrow> bool" where
  "blank a \<longleftrightarrow> refs_ok a \<and> (\<forall>s. sc_captured (an_scopes a s) = []) \<and> (\<forall>q. an_bindings a q = None)"

definition scopes_kept :: "path \<Rightarrow> analysis \<Rightarrow> analysis \<Rightarrow> bool" where
  "scopes_kept p a a' \<longleftrightarrow> (\<forall>q. \<not> under p q \<longrightarrow> an_scopes a' q = an_scopes a q)"

definition redeclared :: "fault \<Rightarrow> bool" where
  "redeclared f \<longleftrightarrow> (\<exists>name. f = redefinitionError name)"

lemma scopes_kept_refl [simp]: "scopes_kept p a a"
  by (simp add: scopes_kept_def)

lemma scopes_kept_trans: "scopes_kept p a b \<Longrightarrow> scopes_kept p b c \<Longrightarrow> scopes_kept p a c"
  by (simp add: scopes_kept_def)

lemma scopes_kept_step: "scopes_kept (i # p) a b \<Longrightarrow> scopes_kept p a b"
  by (auto simp: scopes_kept_def dest: under_step)

lemma set_map_put: "fst ` set (map_put k v m) = insert k (fst ` set m)"
  by (induction k v m rule: map_put.induct) auto

lemma new_local_refs:
  "refs_ok a \<Longrightarrow> refs_ok (snd (new_local l a))" "fst (new_local l a) = an_fresh a"
  "ref_is (snd (new_local l a)) (an_fresh a) (lb_name l) (lb_argument l)"
  "an_scopes (snd (new_local l a)) = an_scopes a" "an_bindings (snd (new_local l a)) = an_bindings a"
  by (fastforce simp: new_local_def refs_ok_def ref_is_def)+

lemma defineArgument_outcome:
  assumes "blank a"
  shows "outcome redeclared (\<lambda>a'. blank a' \<and> (\<forall>q. q \<noteq> script_of c \<longrightarrow> an_scopes a' q = an_scopes a q) \<and>
    (\<forall>args temps. declares a (script_of c) (args, temps) \<longrightarrow> declares a' (script_of c) (args @ [v], temps)))
    (defineArgument c v a)"
proof (cases "resolves a c v")
  case True
  then show ?thesis by (auto simp: defineArgument_def redeclared_def)
next
  case False
  define l where "l = \<lparr> lb_argument = True, lb_name = v, lb_index = -1, lb_environment = ArgumentEnvironment \<rparr>"
  define a1 where "a1 = snd (new_local l a)"
  define a2 where "a2 = with_scope (script_of c) (\<lambda>sc. sc\<lparr> sc_arguments := map_put v (an_fresh a) (sc_arguments sc),
                           sc_argumentOrder := sc_argumentOrder sc @ [v] \<rparr>) a1"
  have eq: "defineArgument c v a = Inr a2"
    using False by (simp add: defineArgument_def a2_def a1_def l_def new_local_def)
  note n = new_local_refs(3)[of l a] new_local_refs(4)[of l a] new_local_refs(5)[of l a] new_local_refs(1)[of a l]
  have r1: "refs_ok a1" and rf: "ref_is a1 (an_fresh a) v True"
    using n assms by (auto simp: a1_def l_def blank_def)
  have "refs_ok a2"
    using r1 rf unfolding refs_ok_def by (auto simp: a2_def map_put_of ref_is_def split: if_splits)
  with assms n show ?thesis
    by (auto simp: eq blank_def a2_def a1_def declares_def set_map_put)
qed

lemma defineTemporary_outcome:
  assumes "blank a"
  shows "outcome redeclared (\<lambda>a'. blank a' \<and> (\<forall>q. q \<noteq> script_of c \<longrightarrow> an_scopes a' q = an_scopes a q) \<and>
    (\<forall>args temps. declares a (script_of c) (args, temps) \<longrightarrow> declares a' (script_of c) (args, temps @ [v])))
    (defineTemporary c v a)"
proof (cases "map_of (sc_temporaries (an_scopes a (script_of c))) v \<noteq> None")
  case True
  then show ?thesis by (auto simp: defineTemporary_def redeclared_def)
next
  case False
  define l where "l = \<lparr> lb_argument = False, lb_name = v, lb_index = -1, lb_environment = StackEnvironment \<rparr>"
  define a1 where "a1 = snd (new_local l a)"
  define a2 where "a2 = with_scope (script_of c) (\<lambda>sc. sc\<lparr> sc_temporaries := map_put v (an_fresh a) (sc_temporaries sc) \<rparr>) a1"
  have eq: "defineTemporary c v a = Inr a2"
    using False by (simp add: defineTemporary_def a2_def a1_def l_def new_local_def)
  note n = new_local_refs(3)[of l a] new_local_refs(4)[of l a] new_local_refs(5)[of l a] new_local_refs(1)[of a l]
  have r1: "refs_ok a1" and rf: "ref_is a1 (an_fresh a) v False"
    using n assms by (auto simp: a1_def l_def blank_def)
  have "refs_ok a2"
    using r1 rf unfolding refs_ok_def by (auto simp: a2_def map_put_of ref_is_def split: if_splits)
  with assms n show ?thesis
    by (auto simp: eq blank_def a2_def a1_def declares_def set_map_put)
qed

lemma bind_script_outcome:
  assumes "blank a" "declares a (script_of c) ([], [])"
  shows "outcome redeclared (\<lambda>a'. blank a' \<and> (\<forall>q. q \<noteq> script_of c \<longrightarrow> an_scopes a' q = an_scopes a q) \<and>
    declares a' (script_of c) (args, temps)) (bind_script c args temps a)"
  unfolding bind_script_def
proof (rule outcome_bind)
  let ?I = "\<lambda>k a'. blank a' \<and> (\<forall>q. q \<noteq> script_of c \<longrightarrow> an_scopes a' q = an_scopes a q) \<and>
    declares a' (script_of c) (take k args, [])"
  show "outcome redeclared (?I (length args)) (each (\<lambda>i. defineArgument c) 0 args a)"
  proof (rule outcome_each)
    fix k s
    assume "k < length args" "?I k s"
    with defineArgument_outcome[of s c "args ! k"]
    show "outcome redeclared (?I (Suc k)) (defineArgument c (args ! k) s)"
      by (auto elim!: outcome_mono simp: take_Suc_conv_app_nth)
  qed (use assms in simp)
  fix a1
  assume a1: "?I (length args) a1"
  let ?J = "\<lambda>k a'. blank a' \<and> (\<forall>q. q \<noteq> script_of c \<longrightarrow> an_scopes a' q = an_scopes a q) \<and>
    declares a' (script_of c) (args, take k temps)"
  have "outcome redeclared (?J (length temps)) (each (\<lambda>i. defineTemporary c) 0 temps a1)"
  proof (rule outcome_each)
    fix k s
    assume "k < length temps" "?J k s"
    with defineTemporary_outcome[of s c "temps ! k"]
    show "outcome redeclared (?J (Suc k)) (defineTemporary c (temps ! k) s)"
      by (auto elim!: outcome_mono simp: take_Suc_conv_app_nth)
  qed (use a1 in simp)
  then show "outcome redeclared (\<lambda>a'. blank a' \<and> (\<forall>q. q \<noteq> script_of c \<longrightarrow> an_scopes a' q = an_scopes a q) \<and>
      declares a' (script_of c) (args, temps)) (each (\<lambda>i. defineTemporary c) 0 temps a1)"
    by (rule outcome_mono) simp
qed

text \<open>Every block of a list of places declares what it says.\<close>

definition blocks_declare :: "analysis \<Rightarrow> (path \<times> place) list \<Rightarrow> bool" where
  "blocks_declare a = list_all (\<lambda>(q, c, ds, x). x = None \<longrightarrow> declares a q (hd ds))"

lemma blocks_declare_simps [simp]:
  "blocks_declare a []"
  "blocks_declare a (xs @ ys) \<longleftrightarrow> blocks_declare a xs \<and> blocks_declare a ys"
  "blocks_declare a ((q, c, ds, Some v) # xs) \<longleftrightarrow> blocks_declare a xs"
  "blocks_declare a ((q, c, d # ds, None) # xs) \<longleftrightarrow> declares a q d \<and> blocks_declare a xs"
  by (auto simp: blocks_declare_def)

lemma declares_cong: "an_scopes a' q = an_scopes a q \<Longrightarrow> declares a' q d = declares a q d"
  by (simp add: declares_def)

lemma blocks_declare_cong:
  assumes "blocks_declare a ps" "\<And>q. q \<in> set (map fst ps) \<Longrightarrow> an_scopes a' q = an_scopes a q"
  shows "blocks_declare a' ps"
proof -
  have "declares a' q = declares a q" if "(q, x) \<in> set ps" for q x
    by (rule ext, rule declares_cong, rule assms(2)) (use that in force)
  then have "list_all (\<lambda>(q, c, ds, x). x = None \<longrightarrow> declares a q (hd ds)) ps =
      list_all (\<lambda>(q, c, ds, x). x = None \<longrightarrow> declares a' q (hd ds)) ps"
    by (intro list.pred_cong) auto
  with assms(1) show ?thesis
    by (simp add: blocks_declare_def)
qed

lemma declares_kept: "scopes_kept p a a' \<Longrightarrow> \<not> under p q \<Longrightarrow> declares a' q d = declares a q d"
  by (simp add: scopes_kept_def declares_def)

lemma undeclared_kept:
  assumes "scopes_kept (i # p) a a'" "i \<noteq> j"
  shows "undeclared a' (j # p) = undeclared a (j # p)"
proof -
  have "declares a' q d = declares a q d" if "under (j # p) q" for q d
    using declares_kept[OF assms(1)] under_same[OF _ that] assms(2) by blast
  then show ?thesis
    by (simp add: undeclared_def)
qed

lemma undeclared_step: "undeclared a p \<Longrightarrow> undeclared a (i # p)"
  by (auto simp: undeclared_def dest: under_step)

text \<open>Declaring in the parts of a node, one after the other.\<close>

definition bound_part :: "path \<Rightarrow> (path \<times> place) list \<Rightarrow> analysis \<Rightarrow> analysis \<Rightarrow> bool" where
  "bound_part p ps a a' \<longleftrightarrow> blank a' \<and> scopes_kept p a a' \<and> blocks_declare a' ps"

lemma bound_each:
  assumes "blank a" "\<And>k. k < length xs \<Longrightarrow> undeclared a ((i + k) # p)"
    and part: "\<And>k a. k < length xs \<Longrightarrow> blank a \<Longrightarrow> undeclared a ((i + k) # p) \<Longrightarrow>
      outcome redeclared (bound_part ((i + k) # p) (g (i + k) (xs ! k)) a) (f (i + k) (xs ! k) a)"
    and keys: "\<And>k. k < length xs \<Longrightarrow> keys_under ((i + k) # p) (g (i + k) (xs ! k))"
  shows "outcome redeclared (\<lambda>a'. bound_part p (concat (map_each g i xs)) a a' \<and>
      (\<forall>q. (\<forall>k \<ge> i. \<not> under (k # p) q) \<longrightarrow> an_scopes a' q = an_scopes a q)) (each f i xs a)"
  using assms
proof (induction xs arbitrary: i a)
  case Nil
  then show ?case by (simp add: bound_part_def)
next
  case (Cons x xs)
  have x: "outcome redeclared (bound_part (i # p) (g i x) a) (f i x a)"
    using Cons.prems(1) Cons.prems(2)[of 0] Cons.prems(3)[of 0 a] by simp
  have k: "keys_under (i # p) (g i x)"
    using Cons.prems(4)[of 0] by simp
  show ?case
    unfolding each.simps
  proof (rule outcome_bind[OF x])
    fix a1
    assume a1: "bound_part (i # p) (g i x) a a1"
    have u: "undeclared a1 ((Suc i + k) # p)" if "k < length xs" for k
      using Cons.prems(2)[of "Suc k"] undeclared_kept[of i p a a1 "Suc i + k"] a1 that by (simp add: bound_part_def)
    have "outcome redeclared (\<lambda>a'. bound_part p (concat (map_each g (Suc i) xs)) a1 a' \<and>
      (\<forall>q. (\<forall>k \<ge> Suc i. \<not> under (k # p) q) \<longrightarrow> an_scopes a' q = an_scopes a1 q)) (each f (Suc i) xs a1)"
    proof (rule Cons.IH)
      show "blank a1" using a1 by (simp add: bound_part_def)
      show "undeclared a1 ((Suc i + k) # p)" if "k < length xs" for k using u that .
      show "outcome redeclared (bound_part ((Suc i + k) # p) (g (Suc i + k) (xs ! k)) b) (f (Suc i + k) (xs ! k) b)"
        if "k < length xs" "blank b" "undeclared b ((Suc i + k) # p)" for k b
        using Cons.prems(3)[of "Suc k" b] that by simp
      show "keys_under ((Suc i + k) # p) (g (Suc i + k) (xs ! k))" if "k < length xs" for k
        using Cons.prems(4)[of "Suc k"] that by simp
    qed
    then show "outcome redeclared (\<lambda>a'. bound_part p (concat (map_each g i (x # xs))) a a' \<and>
      (\<forall>q. (\<forall>k \<ge> i. \<not> under (k # p) q) \<longrightarrow> an_scopes a' q = an_scopes a q)) (each f (Suc i) xs a1)"
    proof (rule outcome_mono)
      fix a2
      assume a2: "bound_part p (concat (map_each g (Suc i) xs)) a1 a2 \<and>
        (\<forall>q. (\<forall>k \<ge> Suc i. \<not> under (k # p) q) \<longrightarrow> an_scopes a2 q = an_scopes a1 q)"
      have "blocks_declare a2 (g i x)"
      proof (rule blocks_declare_cong)
        show "blocks_declare a1 (g i x)"
          using a1 by (simp add: bound_part_def)
        fix q
        assume "q \<in> set (map fst (g i x))"
        then have "under (i # p) q"
          using k unfolding keys_under_def by blast
        then have "\<forall>k \<ge> Suc i. \<not> under (k # p) q"
          using under_same by force
        with a2 show "an_scopes a2 q = an_scopes a1 q"
          by blast
      qed
      with a1 a2 show "bound_part p (concat (map_each g i (x # xs))) a a2 \<and>
        (\<forall>q. (\<forall>k \<ge> i. \<not> under (k # p) q) \<longrightarrow> an_scopes a2 q = an_scopes a q)"
        by (auto simp: bound_part_def scopes_kept_def dest: under_step)
    qed
  qed
qed

text \<open>The receiver comes first, then what follows it.\<close>

lemma bound_first:
  assumes "bound_part (0 # p) ps a a1" "keys_under (0 # p) ps"
    and "bound_part p qs a1 a2 \<and> (\<forall>q. (\<forall>k \<ge> 1. \<not> under (k # p) q) \<longrightarrow> an_scopes a2 q = an_scopes a1 q)"
  shows "bound_part p (ps @ qs) a a2"
proof -
  have "blocks_declare a2 ps"
  proof (rule blocks_declare_cong)
    show "blocks_declare a1 ps"
      using assms(1) by (simp add: bound_part_def)
    fix q
    assume "q \<in> set (map fst ps)"
    then have "under (0 # p) q"
      using assms(2) unfolding keys_under_def by blast
    then have "\<forall>k \<ge> 1. \<not> under (k # p) q"
      using under_same by force
    with assms(3) show "an_scopes a2 q = an_scopes a1 q"
      by blast
  qed
  with assms show ?thesis
    by (auto simp: bound_part_def dest: scopes_kept_step intro: scopes_kept_trans)
qed

lemma bindLocals_outcome:
  assumes "blank a" "undeclared a p"
  shows "outcome redeclared (bound_part p (places c ds p n) a) (bindLocals c p n a)"
  using assms
proof (induction c ds p n arbitrary: a rule: places.induct)
  case (3 c ds p r s as)
  show ?case
    unfolding bindLocals.simps places.simps
  proof (rule outcome_bind[OF 3(1)[OF 3(3) undeclared_step[OF 3(4)]]])
    fix a1
    assume a1: "bound_part (0 # p) (places c ds (0 # p) r) a a1"
    have "outcome redeclared (\<lambda>a'. bound_part p (concat (map_each (\<lambda>i. places c ds (i # p)) 1 as)) a1 a' \<and>
      (\<forall>q. (\<forall>k \<ge> 1. \<not> under (k # p) q) \<longrightarrow> an_scopes a' q = an_scopes a1 q))
      (each (\<lambda>i. bindLocals c (i # p)) 1 as a1)"
    proof (rule bound_each)
      show "blank a1" using a1 by (simp add: bound_part_def)
      show "undeclared a1 ((1 + k) # p)" for k
        using a1 undeclared_kept[of 0 p a a1 "1 + k"] undeclared_step[OF 3(4)] by (simp add: bound_part_def)
    qed (use 3(2) places_under in auto)
    then show "outcome redeclared (bound_part p
      (places c ds (0 # p) r @ concat (map_each (\<lambda>i. places c ds (i # p)) 1 as)) a)
      (each (\<lambda>i. bindLocals c (i # p)) 1 as a1)"
      using a1 by (auto elim!: outcome_mono bound_first[OF _ places_under])
  qed
next
  case (4 c ds p r ms)
  let ?g = "\<lambda>j m. concat (map_each (\<lambda>i. places c ds (i # j # p)) 0 (snd m))"
  let ?f = "\<lambda>j m. each (\<lambda>i. bindLocals c (i # j # p)) 0 (snd m)"
  show ?case
    unfolding bindLocals.simps places.simps
  proof (rule outcome_bind[OF 4(1)[OF 4(3) undeclared_step[OF 4(4)]]])
    fix a1
    assume a1: "bound_part (0 # p) (places c ds (0 # p) r) a a1"
    have "outcome redeclared (\<lambda>a'. bound_part p (concat (map_each ?g 1 ms)) a1 a' \<and>
      (\<forall>q. (\<forall>k \<ge> 1. \<not> under (k # p) q) \<longrightarrow> an_scopes a' q = an_scopes a1 q)) (each ?f 1 ms a1)"
    proof (rule bound_each)
      show "blank a1" using a1 by (simp add: bound_part_def)
      show "undeclared a1 ((1 + k) # p)" for k
        using a1 undeclared_kept[of 0 p a a1 "1 + k"] undeclared_step[OF 4(4)] by (simp add: bound_part_def)
    next
      fix k b
      assume k: "k < length ms" and b: "blank b" "undeclared b ((1 + k) # p)"
      have "outcome redeclared (\<lambda>a'. bound_part ((1 + k) # p) (?g (1 + k) (ms ! k)) b a' \<and>
        (\<forall>q. (\<forall>l \<ge> 0. \<not> under (l # (1 + k) # p) q) \<longrightarrow> an_scopes a' q = an_scopes b q)) (?f (1 + k) (ms ! k) b)"
      proof (rule bound_each[OF b(1)])
        show "outcome redeclared (bound_part ((0 + l) # (1 + k) # p) (places c ds ((0 + l) # (1 + k) # p) (snd (ms ! k) ! l)) a)
          (bindLocals c ((0 + l) # (1 + k) # p) (snd (ms ! k) ! l) a)"
          if "l < length (snd (ms ! k))" "blank a" "undeclared a ((0 + l) # (1 + k) # p)" for l a
          by (rule 4(2)[of "ms ! k"]) (use k that in auto)
      qed (use b places_under undeclared_step in auto)
      then show "outcome redeclared (bound_part ((1 + k) # p) (?g (1 + k) (ms ! k)) b) (?f (1 + k) (ms ! k) b)"
        by (rule outcome_mono) simp
    next
      fix k
      assume "k < length ms"
      show "keys_under ((1 + k) # p) (?g (1 + k) (ms ! k))"
        by (rule keys_from_under[OF keys_from_parts]) (rule places_under)
    qed
    then show "outcome redeclared (bound_part p (places c ds (0 # p) r @ concat (map_each ?g 1 ms)) a) (each ?f 1 ms a1)"
      using a1 by (auto elim!: outcome_mono bound_first[OF _ places_under])
  qed
next
  case (5 c ds p v e)
  from 5(1)[OF 5(2) undeclared_step[OF 5(3)]] show ?case
    unfolding bindLocals.simps places.simps
    by (rule outcome_mono) (auto simp: bound_part_def dest: scopes_kept_step)
next
  case (6 c ds p e)
  from 6(1)[OF 6(2) undeclared_step[OF 6(3)]] show ?case
    unfolding bindLocals.simps places.simps
    by (rule outcome_mono) (auto simp: bound_part_def dest: scopes_kept_step)
next
  case (7 c ds p args temps stmts)
  let ?d = "(args, temps)"
  let ?g = "\<lambda>i. places (p # c) (?d # ds) (i # p)"
  have "declares a p ([], [])"
    using 7(3) by (simp add: undeclared_def)
  then have s: "outcome redeclared (\<lambda>a'. blank a' \<and> (\<forall>q. q \<noteq> p \<longrightarrow> an_scopes a' q = an_scopes a q) \<and> declares a' p ?d)
    (bind_script (p # c) args temps a)"
    using bind_script_outcome[OF 7(2), of "p # c" args temps] by (simp add: script_of_def)
  show ?case
    unfolding bindLocals.simps places.simps
  proof (rule outcome_bind[OF s])
    fix a1
    assume a1: "blank a1 \<and> (\<forall>q. q \<noteq> p \<longrightarrow> an_scopes a1 q = an_scopes a q) \<and> declares a1 p ?d"
    have u: "undeclared a1 (i # p)" for i
      unfolding undeclared_def
    proof (intro allI impI)
      fix q
      assume q: "under (i # p) q"
      then have "q \<noteq> p" using under_proper by blast
      with a1 have "an_scopes a1 q = an_scopes a q" by blast
      moreover have "declares a q ([], [])"
        using 7(3) under_step[OF q] by (simp add: undeclared_def)
      ultimately show "declares a1 q ([], [])"
        by (simp add: declares_def)
    qed
    have "outcome redeclared (\<lambda>a'. bound_part p (concat (map_each ?g 0 stmts)) a1 a' \<and>
      (\<forall>q. (\<forall>k \<ge> 0. \<not> under (k # p) q) \<longrightarrow> an_scopes a' q = an_scopes a1 q))
      (each (\<lambda>i. bindLocals (p # c) (i # p)) 0 stmts a1)"
      by (rule bound_each[OF conjunct1[OF a1] u]) (rule 7(1)[OF nth_mem], assumption+, rule places_under)
    then show "outcome redeclared (bound_part p ((p, c, ?d # ds, None) # concat (map_each ?g 0 stmts)) a)
      (each (\<lambda>i. bindLocals (p # c) (i # p)) 0 stmts a1)"
    proof (rule outcome_mono)
      fix a2
      assume a2: "bound_part p (concat (map_each ?g 0 stmts)) a1 a2 \<and>
        (\<forall>q. (\<forall>k \<ge> 0. \<not> under (k # p) q) \<longrightarrow> an_scopes a2 q = an_scopes a1 q)"
      then have "an_scopes a2 p = an_scopes a1 p"
        using under_proper by blast
      then have "declares a2 p ?d"
        using a1 by (simp add: declares_def)
      moreover have "scopes_kept p a a2"
        unfolding scopes_kept_def
      proof (intro allI impI)
        fix q
        assume "\<not> under p q"
        moreover from this have "q \<noteq> p" by auto
        ultimately show "an_scopes a2 q = an_scopes a q"
          using a1 a2 by (simp add: bound_part_def scopes_kept_def)
      qed
      ultimately show "bound_part p ((p, c, ?d # ds, None) # concat (map_each ?g 0 stmts)) a a2"
        using a2 by (simp add: bound_part_def)
    qed
  qed
next
  case (8 c ds p es)
  have "outcome redeclared (\<lambda>a'. bound_part p (concat (map_each (\<lambda>i. places c ds (i # p)) 1 es)) a a' \<and>
      (\<forall>q. (\<forall>k \<ge> 1. \<not> under (k # p) q) \<longrightarrow> an_scopes a' q = an_scopes a q))
      (each (\<lambda>i. bindLocals c (i # p)) 1 es a)"
    by (rule bound_each[OF 8(2)]) (use 8 places_under undeclared_step in auto)
  then show ?case
    by (auto elim!: outcome_mono simp: bound_part_def)
qed (simp_all add: bound_part_def)

end
