(* ===== verification/SemanticPass.thy ===== *)
theory SemanticPass
  imports NameResolution
begin

text \<open>
  The semantic pass over a method: the visit of its statements never faults and binds every
  identifier; with the declarations before it, names resolve lexically.
\<close>

section \<open>Declaring the locals of a method\<close>

lemma method_bindLocals_outcome:
  "outcome redeclared (\<lambda>a. blank a \<and> declares a [] (pm_arguments m, pm_temporaries m) \<and>
     blocks_declare a (method_places m)) (method_bindLocals m new_analysis)"
  unfolding method_bindLocals_def
proof (rule outcome_bind)
  let ?d = "(pm_arguments m, pm_temporaries m)"
  have n: "blank new_analysis" "declares new_analysis q ([], [])" for q
    by (simp_all add: blank_def declares_def new_analysis_def new_scope_def refs_ok_def)
  show "outcome redeclared (\<lambda>a'. blank a' \<and> (\<forall>q. q \<noteq> [] \<longrightarrow> an_scopes a' q = an_scopes new_analysis q) \<and>
      declares a' [] ?d) (bind_script [] (pm_arguments m) (pm_temporaries m) new_analysis)"
    using bind_script_outcome[OF n, of "[]"] by (simp add: script_of_def)
  fix a1
  assume a1: "blank a1 \<and> (\<forall>q. q \<noteq> [] \<longrightarrow> an_scopes a1 q = an_scopes new_analysis q) \<and> declares a1 [] ?d"
  have u: "undeclared a1 [i]" for i
    unfolding undeclared_def
  proof (intro allI impI)
    fix q
    assume "under [i] q"
    then have "q \<noteq> []" by (auto simp: under_def)
    with a1 n(2) show "declares a1 q ([], [])" by (simp add: declares_def)
  qed
  have "outcome redeclared (\<lambda>a'. bound_part [] (method_places m) a1 a' \<and>
      (\<forall>q. (\<forall>k \<ge> 0. \<not> under [k] q) \<longrightarrow> an_scopes a' q = an_scopes a1 q))
      (each (\<lambda>i. bindLocals [] [i]) 0 (pm_statements m) a1)"
    unfolding method_places_def
    by (rule bound_each[OF conjunct1[OF a1] u]) (rule bindLocals_outcome, assumption+, rule places_under)
  then show "outcome redeclared (\<lambda>a. blank a \<and> declares a [] ?d \<and> blocks_declare a (method_places m))
      (each (\<lambda>i. bindLocals [] [i]) 0 (pm_statements m) a1)"
  proof (rule outcome_mono)
    fix a2
    assume a2: "bound_part [] (method_places m) a1 a2 \<and>
      (\<forall>q. (\<forall>k \<ge> 0. \<not> under [k] q) \<longrightarrow> an_scopes a2 q = an_scopes a1 q)"
    then have "an_scopes a2 [] = an_scopes a1 []"
      using under_proper by blast
    with a1 a2 show "blank a2 \<and> declares a2 [] ?d \<and> blocks_declare a2 (method_places m)"
      by (simp add: declares_def bound_part_def)
  qed
qed

text \<open>The parts of a list of places.\<close>

lemma in_parts:
  "e \<in> set (concat (map_each f i xs)) \<longleftrightarrow> (\<exists>k < length xs. e \<in> set (f (i + k) (xs ! k)))"
  by (induction xs arbitrary: i) (simp_all add: Ex_less_Suc2)

lemma all_parts:
  "list_all P (concat (map_each f i xs)) \<longleftrightarrow> (\<forall>k < length xs. list_all P (f (i + k) (xs ! k)))"
  by (induction xs arbitrary: i) (simp_all add: All_less_Suc2)

lemma blocks_declare_parts:
  "blocks_declare a (concat (map_each f i xs)) \<longleftrightarrow> (\<forall>k < length xs. blocks_declare a (f (i + k) (xs ! k)))"
  by (simp add: blocks_declare_def all_parts)

text \<open>The scripts of a chain declare what their places say.\<close>

fun agree :: "analysis \<Rightarrow> script list \<Rightarrow> declarations list \<Rightarrow> bool" where
  "agree a [] ds = (\<exists>d. ds = [d] \<and> declares a [] d)"
| "agree a (b # c) ds = (\<exists>d ds'. ds = d # ds' \<and> declares a b d \<and> agree a c ds')"

definition place_agrees :: "analysis \<Rightarrow> path \<times> place \<Rightarrow> bool" where
  "place_agrees a e \<longleftrightarrow>
     (case e of (q, c, ds, x) \<Rightarrow> (case x of None \<Rightarrow> agree a (q # c) ds | Some v \<Rightarrow> agree a c ds))"

lemma places_agree:
  "agree a c ds \<Longrightarrow> blocks_declare a (places c ds p n) \<Longrightarrow> list_all (place_agrees a) (places c ds p n)"
proof (induction c ds p n rule: places.induct)
  case (4 c ds p r ms)
  have "list_all (place_agrees a) (places c ds (l # (1 + k) # p) (snd (ms ! k) ! l))"
    if "k < length ms" "l < length (snd (ms ! k))" for k l
    by (rule 4(2)[of "ms ! k"]) (use that 4 in \<open>auto simp: blocks_declare_parts\<close>)
  with 4 show ?case
    by (auto simp: blocks_declare_parts all_parts)
qed (auto simp: blocks_declare_parts all_parts place_agrees_def simp del: map_each.simps)

lemma method_places_agree:
  assumes "declares a [] (pm_arguments m, pm_temporaries m)" "blocks_declare a (method_places m)"
  shows "list_all (place_agrees a) (method_places m)"
  using assms places_agree by (simp add: method_places_def blocks_declare_parts all_parts)

lemma lexical_declared:
  assumes "refs_ok a" "agree a c ds"
  shows "case lexical ds v of
      None \<Rightarrow> declared a c v = None
    | Some k \<Rightarrow> \<exists>d. declared a c v = Some d \<and> (lb_argument (an_locals a d) \<longleftrightarrow> k = Argument)"
proof -
  have own: "(case resolveLocal (an_scopes a s) v of
        None \<Rightarrow> v \<notin> set (fst d) \<and> v \<notin> set (snd d)
      | Some r \<Rightarrow> (v \<in> set (snd d) \<and> \<not> lb_argument (an_locals a r) \<or>
          v \<notin> set (snd d) \<and> v \<in> set (fst d) \<and> lb_argument (an_locals a r)))" if "declares a s d" for s d
  proof -
    have "map_of (sc_temporaries (an_scopes a s)) v = None \<longleftrightarrow> v \<notin> set (snd d)"
      "map_of (sc_arguments (an_scopes a s)) v = None \<longleftrightarrow> v \<notin> set (fst d)"
      using that by (simp_all add: declares_def map_of_eq_None_iff)
    with assms(1) show ?thesis
      by (auto simp: resolveLocal_def refs_ok_def ref_is_def split: option.splits)
  qed
  show ?thesis
    using assms(2)
  proof (induction c arbitrary: ds)
    case Nil
    then obtain d where "ds = [d]" "declares a [] d"
      by auto
    with own[of "[]" d] show ?case
      by (cases d) (auto split: option.splits)
  next
    case (Cons b c)
    then obtain d ds' where d: "ds = d # ds'" "declares a b d" "agree a c ds'"
      by auto
    with own[of b d] Cons.IH[OF d(3)] show ?case
      by (cases d) (auto split: option.splits)
  qed
qed

section \<open>The visit\<close>

definition charted :: "chart \<Rightarrow> (path \<times> place) list \<Rightarrow> bool" where
  "charted G ps \<longleftrightarrow> list_all (\<lambda>(q, e). G q = Some e) ps"

lemma charted_simps [simp]:
  "charted G []"
  "charted G (xs @ ys) \<longleftrightarrow> charted G xs \<and> charted G ys"
  "charted G ((q, e) # xs) \<longleftrightarrow> G q = Some e \<and> charted G xs"
  "charted G (concat (map_each f i ns)) \<longleftrightarrow> (\<forall>k < length ns. charted G (f (i + k) (ns ! k)))"
  by (simp_all add: charted_def all_parts)

definition visited :: "(path \<times> place) list \<Rightarrow> analysis \<Rightarrow> bool" where
  "visited ps a \<longleftrightarrow> list_all (\<lambda>(q, c, ds, x). x = None \<or> an_bindings a q \<noteq> None) ps"

lemma visited_simps [simp]:
  "visited [] a"
  "visited (xs @ ys) a \<longleftrightarrow> visited xs a \<and> visited ys a"
  "visited ((q, c, ds, Some v) # xs) a \<longleftrightarrow> an_bindings a q \<noteq> None \<and> visited xs a"
  "visited ((q, c, ds, None) # xs) a \<longleftrightarrow> visited xs a"
  "visited (concat (map_each f i ns)) a \<longleftrightarrow> (\<forall>k < length ns. visited (f (i + k) (ns ! k)) a)"
  by (simp_all add: visited_def all_parts)

text \<open>What every step of the visit gives: the invariant, nothing forgotten, its places bound.\<close>

definition advances :: "chart \<Rightarrow> (path \<times> place) list \<Rightarrow> analysis \<Rightarrow> analysis \<Rightarrow> bool" where
  "advances G ps a a' \<longleftrightarrow> scopes_ok G a' \<and> stable a a' \<and> visited ps a'"

lemma stable_visited: "stable a a' \<Longrightarrow> visited ps a \<Longrightarrow> visited ps a'"
proof -
  assume "stable a a'"
  then have "an_bindings a q \<noteq> None \<Longrightarrow> an_bindings a' q \<noteq> None" for q
    by (simp add: stable_def)
  then show "visited ps a \<Longrightarrow> visited ps a'"
    unfolding visited_def by (elim list.pred_mono_strong) (simp split: prod.splits, blast)
qed

lemma advances_trans:
  "advances G ps a a' \<Longrightarrow> advances G qs a' a'' \<Longrightarrow> advances G (ps @ qs) a a''"
  unfolding advances_def using stable_trans stable_visited by auto

lemma advances_kept: "scopes_ok G a \<Longrightarrow> names_kept a a' \<Longrightarrow> advances G [] a a'"
  by (simp add: advances_def names_kept_ok names_kept_stable)

lemma advances_each:
  assumes "scopes_ok G a"
    and "\<And>k b. k < length xs \<Longrightarrow> scopes_ok G b \<Longrightarrow>
      succeeds (advances G (g (i + k) (xs ! k)) b) (f (i + k) (xs ! k) b)"
  shows "succeeds (advances G (concat (map_each g i xs)) a) (each f i xs a)"
proof -
  let ?I = "\<lambda>k b. scopes_ok G b \<and> stable a b \<and> (\<forall>l < k. visited (g (i + l) (xs ! l)) b)"
  have "succeeds (?I (length xs)) (each f i xs a)"
  proof (rule outcome_each)
    fix k b
    assume k: "k < length xs" and b: "?I k b"
    from assms(2)[OF k conjunct1[OF b]] show "succeeds (?I (Suc k)) (f (i + k) (xs ! k) b)"
    proof (rule outcome_mono)
      fix b'
      assume b': "advances G (g (i + k) (xs ! k)) b b'"
      then have "visited (g (i + l) (xs ! l)) b'" if "l < k" for l
        using b that stable_visited by (auto simp: advances_def)
      with b b' show "?I (Suc k) b'"
        by (auto simp: advances_def less_Suc_eq intro: stable_trans)
    qed
  qed (use assms(1) in simp)
  then show ?thesis
    by (rule outcome_mono) (simp add: advances_def)
qed

lemma advances_bind:
  assumes "succeeds (advances G ps a) r" "\<And>b. scopes_ok G b \<Longrightarrow> succeeds (advances G qs b) (k b)"
  shows "succeeds (advances G (ps @ qs) a) (bind_result r k)"
proof (rule outcome_bind[OF assms(1)])
  fix b
  assume b: "advances G ps a b"
  then have "scopes_ok G b" by (simp add: advances_def)
  from assms(2)[OF this] show "succeeds (advances G (ps @ qs) a) (k b)"
    by (rule outcome_mono) (rule advances_trans[OF b])
qed

text \<open>The same places may be visited again.\<close>

lemma advances_weaken:
  "succeeds (advances G ps a) r \<Longrightarrow> (\<And>b. visited ps b \<Longrightarrow> visited qs b) \<Longrightarrow> succeeds (advances G qs a) r"
  by (erule outcome_mono) (simp add: advances_def)

lemma after_kept:
  assumes "scopes_ok G a" "names_kept a a'" "succeeds (advances G ps a') r"
  shows "succeeds (advances G ps a) r"
  using assms(3) by (rule outcome_mono) (use advances_trans[OF advances_kept[OF assms(1,2)]] in simp)

lemma analyzeIdentifier_advances:
  assumes "scopes_ok G a" "chain_ok G c" "G p = Some (c, ds, Some v)"
  shows "succeeds (advances G [(p, c, ds, Some v)] a) (analyzeIdentifier c p v a)"
proof -
  define a1 where "a1 = beReferencedFrom (resolve a c v) c a"
  have k: "names_kept a a1"
    by (simp add: a1_def beReferencedFrom_kept)
  note st1 = names_kept_stable[OF k] and ok1 = names_kept_ok[OF k assms(1)]
  have b: "bound_ok a1 c v (resolve a c v)"
    using stable_bound[OF st1 _ resolve_bound_ok[OF assms(1,2)]] assms(1) by (simp add: scopes_ok_def)
  have set: "advances G [(p, c, ds, Some v)] a (a2\<lparr> an_bindings := (an_bindings a2)(p := Some x) \<rparr>)"
    if a2: "scopes_ok G a2" "stable a a2" "bound_ok a2 c v x" for a2 x
  proof -
    let ?a = "a2\<lparr> an_bindings := (an_bindings a2)(p := Some x) \<rparr>"
    have st: "stable a2 ?a"
      by (simp add: stable_def)
    have "bound_ok ?a c v x"
      using stable_bound[OF st _ a2(3)] a2(1) by (simp add: scopes_ok_def)
    then have "scopes_ok G ?a"
      using assms(3) by (intro scopes_okI[OF a2(1) st]) (auto split: if_splits)
    with stable_trans[OF a2(2) st] show ?thesis
      by (simp add: advances_def)
  qed
  show ?thesis
  proof (cases "resolve a c v")
    case (Fixed f)
    with set[OF ok1 st1 b] show ?thesis
      by (simp add: analyzeIdentifier_def a1_def Let_def)
  next
    case (Local r)
    with b have "copies a1 c v r" by simp
    from captureLocal_ok[OF ok1 assms(2) this] obtain s a2 where s: "captureLocal c r a1 = Inr (s, a2)"
      "scopes_ok G a2" "stable a1 a2" "copies a2 c v s"
      by blast
    with set[OF s(2) stable_trans[OF st1 s(3)], of "Local s"] Local show ?thesis
      by (simp add: analyzeIdentifier_def a1_def Let_def)
  qed
qed

lemma names_kept_fold: "(\<And>x a. names_kept a (f x a)) \<Longrightarrow> names_kept a (fold f xs a)"
  by (induction xs arbitrary: a) (auto intro: names_kept_trans)

lemma block_beInlined_kept: "names_kept a (block_beInlined b n a)"
proof (cases "block_arguments n")
  case (Some args)
  have "names_kept a (beInlined_argument b v a)" for v a
    by (auto simp: beInlined_argument_def with_local_kept split: option.split)
  then have "names_kept (with_scope b (\<lambda>sc. sc\<lparr> sc_inlined := True \<rparr>) a)
      (fold (beInlined_argument b) args (with_scope b (\<lambda>sc. sc\<lparr> sc_inlined := True \<rparr>) a))"
    by (rule names_kept_fold)
  moreover have "names_kept a (with_scope b (\<lambda>sc. sc\<lparr> sc_inlined := True \<rparr>) a)"
    by (simp add: with_scope_kept)
  ultimately show ?thesis
    using Some by (auto simp: block_beInlined_def intro: names_kept_trans)
qed (simp add: block_beInlined_def)

lemma message_beInlined_kept: "names_kept a (message_beInlined p a)"
  by (simp add: names_kept_def message_beInlined_def)

lemma arguments_beInlined_kept: "names_kept a (arguments_beInlined p i ns a)"
  by (induction p i ns a rule: arguments_beInlined.induct) (auto intro: names_kept_trans block_beInlined_kept)

lemmas inline_kept = block_beInlined_kept arguments_beInlined_kept
  names_kept_trans[OF message_beInlined_kept block_beInlined_kept]
  names_kept_trans[OF message_beInlined_kept arguments_beInlined_kept]

lemma inlineConditional_kept: "names_kept a (inlineConditional p args a)"
  by (simp add: inlineConditional_def inline_kept)

lemma inlineWhile_kept: "names_kept a (inlineWhile p receiver args a)"
  using names_kept_trans[OF inlineConditional_kept inline_kept(1)]
  by (auto simp: inlineWhile_def Let_def inlineConditional_kept split: list.split)

lemma inlineUnitaryWhile_kept: "names_kept a (inlineUnitaryWhile p receiver args a)"
  using names_kept_trans[OF inlineConditional_kept inline_kept(3)]
  by (simp add: inlineUnitaryWhile_def Let_def inlineConditional_kept)

lemma inlineIfNotNil_kept: "names_kept a (inlineIfNotNil p args a)"
  by (simp add: inlineIfNotNil_def inline_kept split: list.split)

lemma inlineIfNil_kept: "names_kept a (inlineIfNilIfNotNil p args a)" "names_kept a (inlineIfNotNilIfNil p args a)"
  by (simp_all add: inlineIfNilIfNotNil_def inlineIfNotNilIfNil_def inline_kept
      split: list.split del: arguments_beInlined.simps)

lemma inline_repeat_kept: "names_kept a (inline_repeat p receiver args a)"
  by (simp add: inline_repeat_def inline_kept)

lemma inline_toDo_kept: "names_kept a (inline_toDo p args a)"
  by (simp add: inline_toDo_def inline_kept split: list.split option.split)

lemma inline_message_kept: "names_kept a (inline_message p receiver s args a)"
  by (simp add: inline_message_def inlineConditional_kept inlineIfNotNil_kept inlineIfNil_kept inlineWhile_kept
      inlineUnitaryWhile_kept inline_repeat_kept inline_toDo_kept)

lemma noticeSend_kept: "names_kept a (noticeSend a)"
  by (simp add: names_kept_def noticeSend_def)

lemma analyzeMessage_kept: "names_kept a (analyzeMessage p receiver s args a)"
  using names_kept_trans[OF inline_message_kept noticeSend_kept]
  by (auto simp: analyzeMessage_def Let_def inline_message_kept)

lemma analyzeBlock_kept: "names_kept a (analyzeBlock p a)"
  by (simp add: analyzeBlock_def names_kept_def)

lemma visit_new_advances:
  assumes "scopes_ok G a" "chain_ok G c" "G (0 # p) = Some (c, ds, Some (ascii ''Array''))"
  shows "succeeds (advances G [(0 # p, c, ds, Some (ascii ''Array''))] a) (visit_new c p a)"
  unfolding visit_new_def
  by (rule after_kept[OF assms(1) noticeSend_kept analyzeIdentifier_advances])
    (use assms names_kept_ok noticeSend_kept in auto)

lemma visit_node_advances:
  assumes "scopes_ok G a" "chain_ok G c" "charted G (places c ds p n)"
  shows "succeeds (advances G (places c ds p n) a) (visit_node c p n a)"
  using assms
proof (induction c ds p n arbitrary: a rule: places.induct)
  case (1 c ds p v a)
  then show ?case by (simp add: analyzeIdentifier_advances)
next
  case (2 c ds p l a)
  then show ?case by (simp add: advances_def)
next
  case (3 c ds p r s as a)
  have parts: "succeeds (advances G (concat (map_each (\<lambda>i. places c ds (i # p)) 1 as)) b)
      (each (\<lambda>i. visit_node c (i # p)) 1 as b)" if "scopes_ok G b" for b
    by (rule advances_each[OF that]) (use 3 in auto)
  show ?case
    unfolding visit_node.simps places.simps
    by (rule after_kept[OF 3(3) analyzeMessage_kept advances_bind[OF 3(1) parts]])
      (use 3 names_kept_ok[OF analyzeMessage_kept] in auto)
next
  case (4 c ds p r ms a)
  let ?g = "\<lambda>j m. concat (map_each (\<lambda>i. places c ds (i # j # p)) 0 (snd m))"
  let ?r = "places c ds (0 # p) r"
  have args: "succeeds (advances G (?g (1 + k) (ms ! k)) b) (each (\<lambda>i. visit_node c (i # (1 + k) # p)) 0 (snd (ms ! k)) b)"
    if k: "k < length ms" and b: "scopes_ok G b" for k b
  proof (rule advances_each[OF b])
    show "succeeds (advances G (places c ds ((0 + l) # (1 + k) # p) (snd (ms ! k) ! l)) d)
        (visit_node c ((0 + l) # (1 + k) # p) (snd (ms ! k) ! l) d)"
      if "l < length (snd (ms ! k))" "scopes_ok G d" for l d
      by (rule 4(2)[of "ms ! k"]) (use k that 4(4,5) in auto)
  qed
  have receiver: "succeeds (advances G ?r b) (visit_node c (0 # p) r b)" if "scopes_ok G b" for b
    using 4(1)[OF that 4(4)] 4(5) by simp
  have "succeeds (advances G (?r @ ?g (1 + k) (ms ! k)) b)
      (bind_result (visit_node c (0 # p) r (noticeSend b)) (each (\<lambda>i. visit_node c (i # (1 + k) # p)) 0 (snd (ms ! k))))"
    if k: "k < length ms" and b: "scopes_ok G b" for k b
    by (rule after_kept[OF b noticeSend_kept advances_bind[OF receiver args[OF k]]])
      (use b names_kept_ok noticeSend_kept in auto)
  then have "succeeds (advances G (concat (map_each (\<lambda>j m. ?r @ ?g j m) 1 ms)) b)
      (each (\<lambda>j m b. bind_result (visit_node c (0 # p) r (noticeSend b))
        (each (\<lambda>i. visit_node c (i # j # p)) 0 (snd m))) 1 ms b)" if "scopes_ok G b" for b
    using that by (intro advances_each)
  then show ?case
    unfolding visit_node.simps places.simps
    by (intro advances_weaken[OF advances_bind[OF receiver[OF 4(3)]]]) auto
next
  case (5 c ds p v e a)
  have e: "succeeds (advances G (places c ds (1 # p) e) b) (visit_node c (1 # p) e b)" if "scopes_ok G b" for b
    using 5(1)[OF that 5(3)] 5(4) by simp
  show ?case
    unfolding visit_node.simps places.simps
    using advances_bind[OF analyzeIdentifier_advances[OF 5(2,3), of "0 # p" ds v] e] 5(4) by simp
next
  case (6 c ds p e a)
  have "succeeds (advances G [] b) (captureHome c b)" if "scopes_ok G b" for b
    using captureHome_succeeds[of c b] captureHome_kept advances_kept[OF that] by fastforce
  from advances_bind[OF 6(1)[OF 6(2,3)] this] 6(4) show ?case
    by simp
next
  case (7 c ds p args temps stmts a)
  have c: "chain_ok G (p # c)"
    using 7(3,4) by auto
  have "succeeds (advances G (concat (map_each (\<lambda>i. places (p # c) ((args, temps) # ds) (i # p)) 0 stmts)) (analyzeBlock p a))
      (each (\<lambda>i. visit_node (p # c) (i # p)) 0 stmts (analyzeBlock p a))"
    by (rule advances_each[OF names_kept_ok[OF analyzeBlock_kept 7(2)]]) (use 7(1)[OF nth_mem] 7(4) c in auto)
  from after_kept[OF 7(2) analyzeBlock_kept this] show ?case
    unfolding visit_node.simps places.simps
    by (rule advances_weaken) simp
next
  case (8 c ds p es a)
  let ?A = "[(0 # p, c, ds, Some (ascii ''Array''))]"
  have A: "succeeds (advances G ?A b) (visit_new c p b)" if "scopes_ok G b" for b
    by (rule visit_new_advances[OF that 8(3)]) (use 8(4) in simp)
  have A': "succeeds (advances G ?A b) (visit_new c p (noticeSend b))" if "scopes_ok G b" for b
    by (rule after_kept[OF that noticeSend_kept A]) (rule names_kept_ok[OF noticeSend_kept that])
  have "succeeds (advances G (?A @ places c ds ((1 + k) # p) (es ! k)) b)
      (bind_result (visit_new c p (noticeSend b)) (visit_node c ((1 + k) # p) (es ! k)))"
    if "k < length es" "scopes_ok G b" for k b
    by (rule advances_bind[OF A'[OF that(2)]]) (use 8 that in auto)
  then have es: "succeeds (advances G (concat (map_each (\<lambda>i e. ?A @ places c ds (i # p) e) 1 es)) b)
      (each (\<lambda>i e b. bind_result (visit_new c p (noticeSend b)) (visit_node c (i # p) e)) 1 es b)"
    if "scopes_ok G b" for b
    using that by (intro advances_each)
  show ?case
    unfolding visit_node.simps places.simps
    by (rule advances_weaken[OF advances_bind[OF A[OF 8(2)] advances_bind[OF es A']]]) auto
qed

section \<open>Positions\<close>

definition keeps :: "analysis \<Rightarrow> analysis result \<Rightarrow> bool" where
  "keeps a r \<longleftrightarrow> outcome (\<lambda>f. True) (names_kept a) r"

lemma keeps_simps [simp]: "keeps a (Inr b) = names_kept a b" "keeps a (Inl f)"
  by (simp_all add: keeps_def)

lemma keeps_bind: "keeps a r \<Longrightarrow> (\<And>b. r = Inr b \<Longrightarrow> keeps b (k b)) \<Longrightarrow> keeps a (bind_result r k)"
  unfolding keeps_def
  by (erule outcome_bind) (blast intro: outcome_mono names_kept_trans)

lemma keeps_each: "(\<And>k x b. x \<in> set xs \<Longrightarrow> keeps b (f k x b)) \<Longrightarrow> keeps a (each f i xs a)"
  by (induction xs arbitrary: i a) (auto intro!: keeps_bind)

lemma keeps_after: "names_kept a b \<Longrightarrow> keeps b r \<Longrightarrow> keeps a r"
  unfolding keeps_def by (blast intro: outcome_mono names_kept_trans)

lemma keeps_assert: "keeps a r \<Longrightarrow> keeps a (assert_that b r)"
  by (simp add: assert_that_def)

lemma put_index_kept: "names_kept a (put_index r i a)"
  unfolding put_index_def by (rule with_local_kept) auto

lemma grow_kept: "names_kept a (snd (growStack s a))" "names_kept a (snd (growEnvironment s a))"
  by (simp_all add: growStack_def growEnvironment_def Let_def with_scope_kept)

lemma position_local_kept: "names_kept a (position_local s r a)"
  using names_kept_trans[OF grow_kept(1) put_index_kept] names_kept_trans[OF grow_kept(2) put_index_kept]
  by (simp add: position_local_def split: prod.split) (metis snd_conv)

lemma position_arguments_kept: "names_kept a (position_arguments s i ns a)"
proof (induction ns arbitrary: i a)
  case (Cons n ns)
  then show ?case
    by (auto intro: names_kept_trans[OF put_index_kept] split: option.split)
qed simp

lemma positionDefinedTemporariesIn_kept: "names_kept a (positionDefinedTemporariesIn b s a)"
  unfolding positionDefinedTemporariesIn_def by (rule names_kept_fold) (simp add: position_local_kept split: prod.split)

lemma positionDefinedArgumentsIn_kept: "names_kept a (positionDefinedArgumentsIn b s a)"
  unfolding positionDefinedArgumentsIn_def by (rule names_kept_fold) (simp add: position_local_kept split: prod.split)

lemma positionOwnLocals_kept: "names_kept a (positionOwnLocals s a)"
  unfolding positionOwnLocals_def positionDefinedArguments_def
  using names_kept_trans[OF positionDefinedTemporariesIn_kept position_arguments_kept] by simp

lemma positionCapturedTemporary_keeps: "keeps a (positionCapturedTemporary c r a)"
proof -
  let ?b = "\<lambda>i. with_local r (\<lambda>l. l\<lparr> lb_environment := with_environmentIndex i (lb_environment l) \<rparr>) a"
  have b: "names_kept a (?b i)" for i
    by (simp add: with_local_kept)
  then have "names_kept a (put_index r j (?b i))" for i j
    using names_kept_trans put_index_kept by blast
  with b show ?thesis
    unfolding positionCapturedTemporary_def Let_def bind_result_def
    by (auto split: sum.split bound.split intro!: keeps_assert)
qed

lemma positionCapturedLocals_keeps: "keeps a (positionCapturedLocals c a)"
proof -
  have "names_kept b (positionCapturedArgument s r b)" for s r b
    using names_kept_trans[OF grow_kept(2) put_index_kept]
    by (simp add: positionCapturedArgument_def split: prod.split) (metis snd_conv)
  then have e: "keeps b (each (\<lambda>i (name, r) a. if lb_argument (an_locals a r) then Inr (positionCapturedArgument s r a)
      else positionCapturedTemporary c r a) 0 xs b)" for s b and xs :: "(egg_string \<times> local_ref) list"
    by (intro keeps_each) (auto simp: positionCapturedTemporary_keeps)
  have k: "names_kept a (with_scope s (\<lambda>sc. sc\<lparr> sc_envSize := environmentSizeUpToEnvironments sc \<rparr>) a)" for s
    by (simp add: with_scope_kept)
  show ?thesis
    unfolding positionCapturedLocals_def Let_def
    using keeps_after[OF k e] by simp
qed

lemma block_positionLocals_keeps: "keeps a (block_positionLocals c a)"
  unfolding block_positionLocals_def
  by (rule keeps_bind[OF positionCapturedLocals_keeps])
    (auto simp: block_positionDefinedLocals_def Let_def positionOwnLocals_kept
      intro: names_kept_trans positionDefinedTemporariesIn_kept positionDefinedArgumentsIn_kept)

lemma positionLocals_keeps: "keeps a (positionLocals c p n a)"
proof (induction c p n a rule: positionLocals.induct)
  case (3 c p r s as a)
  then show ?case
    unfolding positionLocals.simps by (intro keeps_bind keeps_each)
next
  case (4 c p r ms a)
  then show ?case
    unfolding positionLocals.simps by (intro keeps_bind keeps_each)
next
  case (7 c p args temps stmts a)
  show ?case
    unfolding positionLocals.simps
    by (rule keeps_bind[OF block_positionLocals_keeps keeps_each]) (rule 7)
next
  case (8 c p es a)
  then show ?case
    unfolding positionLocals.simps by (intro keeps_each)
qed simp_all

lemma method_positionLocals_keeps: "keeps a (method_positionLocals m a)"
  unfolding method_positionLocals_def
  by (rule keeps_after[OF positionOwnLocals_kept keeps_each]) (rule positionLocals_keeps)

section \<open>The whole pass\<close>

text \<open>The state between the visit and the placing of the locals.\<close>

definition method_chart :: "parsed_method \<Rightarrow> chart" where
  "method_chart m = map_of (method_places m)"

lemma method_charted: "charted (method_chart m) (method_places m)"
  unfolding charted_def method_chart_def list_all_iff
  by (auto intro!: map_of_is_SomeI method_places_distinct)

lemma visit_statements_advances:
  assumes "blank a"
  shows "succeeds (advances (method_chart m) (method_places m) a) (visit_statements m a)"
proof -
  have "scopes_ok (method_chart m) a"
    using assms by (simp add: blank_def scopes_ok_def captured_ok_def bindings_ok_def)
  moreover have "charted (method_chart m) (places [] [(pm_arguments m, pm_temporaries m)] [0 + k] (pm_statements m ! k))"
    if "k < length (pm_statements m)" for k
    using method_charted[of m] that unfolding method_places_def by simp
  ultimately show ?thesis
    unfolding visit_statements_def method_places_def
    by (intro advances_each visit_node_advances) auto
qed

lemma resolveSemantics_state:
  assumes "resolveSemantics m = Inr a"
  shows "scopes_ok (method_chart m) a \<and> visited (method_places m) a \<and> list_all (place_agrees a) (method_places m)"
proof -
  let ?d = "(pm_arguments m, pm_temporaries m)"
  obtain a1 a2 where a1: "method_bindLocals m new_analysis = Inr a1" and a2: "visit_statements m a1 = Inr a2"
    and a: "method_positionLocals m a2 = Inr a"
    using assms by (auto simp: resolveSemantics_def bind_result_eq_Inr)
  have b: "blank a1" "declares a1 [] ?d" "blocks_declare a1 (method_places m)"
    using method_bindLocals_outcome[of m] a1 by simp_all
  have v: "scopes_ok (method_chart m) a2" "stable a1 a2" "visited (method_places m) a2"
    using visit_statements_advances[OF b(1), of m] a2 by (simp_all add: advances_def)
  have k: "names_kept a2 a"
    using method_positionLocals_keeps[of a2 m] a by simp
  have st: "stable a1 a"
    using v(2) names_kept_stable[OF k] by (rule stable_trans)
  then have "declares a q d = declares a1 q d" for q d
    by (simp add: stable_def declares_def)
  with b(2,3) have "declares a [] ?d" "blocks_declare a (method_places m)"
    by (simp_all add: blocks_declare_def)
  with names_kept_ok[OF k v(1)] stable_visited[OF names_kept_stable[OF k] v(3)] method_places_agree
  show ?thesis
    by blast
qed

lemma bound_binding:
  assumes "refs_ok a" "agree a c ds" "bound_ok a c v b"
  shows "binds_lexically ds v (binding_of a b)"
  using lexical_declared[OF assms(1,2), of v] assms(3)
  by (cases b; cases "lexical ds v"; cases "the (lexical ds v)")
    (auto simp: binds_lexically_def copies_def ref_is_def Let_def)

lemma names_resolve:
  assumes "resolveSemantics m = Inr a" "(q, c, ds, Some v) \<in> set (method_places m)"
  shows "\<exists>b. node_binding a q = Some b \<and> binds_lexically ds v b"
proof -
  have ok: "scopes_ok (method_chart m) a" and vis: "visited (method_places m) a"
    and agr: "list_all (place_agrees a) (method_places m)"
    using resolveSemantics_state[OF assms(1)] by blast+
  obtain b where b: "an_bindings a q = Some b"
    using vis assms(2) by (fastforce simp: visited_def list_all_iff)
  have "method_chart m q = Some (c, ds, Some v)"
    using method_charted[of m] assms(2) by (fastforce simp: charted_def list_all_iff)
  with ok b have "bound_ok a c v b"
    by (fastforce simp: scopes_ok_def bindings_ok_def)
  moreover have "agree a c ds"
    using agr assms(2) by (fastforce simp: place_agrees_def list_all_iff)
  ultimately have "binds_lexically ds v (binding_of a b)"
    using ok by (intro bound_binding) (simp_all add: scopes_ok_def)
  with b show ?thesis
    by (simp add: node_binding_def)
qed


text \<open>The definitions that compute the pass on a concrete method.\<close>

lemmas semantic_defs =
  resolveSemantics_def method_bindLocals_def visit_statements_def method_positionLocals_def bind_script_def
  defineArgument_def defineTemporary_def new_analysis_def new_scope_def resolves_def script_of_def with_scope_def
  with_local_def new_local_def resolveLocal_def resolvePseudo_def ascii_def dynamic_named_def Let_def
  analyzeIdentifier_def block_resolveLocal_def scope_defines_def positionOwnLocals_def
  positionDefinedTemporariesIn_def positionDefinedArgumentsIn_def positionDefinedArguments_def position_local_def
  growStack_def growEnvironment_def put_index_def analyzeMessage_def inline_message_def one_of_def keywords_of.simps
  chain_of_keywords_def noticeSend_def analyzeBlock_def inlineConditional_def message_beInlined_def
  block_beInlined_def beInlined_argument_def captureTemporary_def captureArgument_def copyLocal_def capture_def
  beInArray_def real_of_def captureHome_def block_positionLocals_def positionCapturedLocals_def
  positionCapturedTemporary_def positionCapturedArgument_def block_positionDefinedLocals_def
  capturedEnvironmentIndexOf_def environmentSizeUpToEnvironments_def isIdentifierLiteral_def

text \<open>\<open>foo: x |t| t := x. ^[:y | t with: y]\<close>\<close>

definition closure_method :: parsed_method where
  "closure_method =
     \<lparr> pm_selector = Some (ascii ''foo:''), pm_arguments = [ascii ''x''], pm_temporaries = [ascii ''t''],
       pm_pragma = None, pm_statements =
         [PAssignment (ascii ''t'') (PIdentifier (ascii ''x'')),
          PReturn (PBlock [ascii ''y''] [] [PMessage (PIdentifier (ascii ''t'')) (ascii ''with:'') [PIdentifier (ascii ''y'')]])] \<rparr>"

lemma closure_method_resolves: "\<exists>a. resolveSemantics closure_method = Inr a"
proof -
  have "\<not> isl (resolveSemantics closure_method)"
    by (simp add: closure_method_def semantic_defs)
  then show ?thesis
    by (cases "resolveSemantics closure_method") auto
qed


text \<open>
  C13: Once the locals of a method are declared, the visit of its statements always succeeds: no
  assertion of the capture of variables and environments fails and no binding is missing.
\<close>

theorem visit_succeeds:
  "outcome redeclared (\<lambda>a. \<exists>a'. visit_statements m a = Inr a') (method_bindLocals m new_analysis)"
  by (rule outcome_mono[OF method_bindLocals_outcome]) (use outcome_ex[OF visit_statements_advances] in blast)

end
