(* ===== verification/Compilation.thy ===== *)
theory Compilation
  imports SemanticPass TreecodeRoundTrip LinearizerTotal
begin

text \<open>
  The compiler as a whole: what the semantic pass hands over is what the encoder takes, so every
  method it resolves is built, and the evaluator decodes from the treecode the tree that was
  resolved.  The theorems after that are about trees that the later phases cannot take.
\<close>

section \<open>Resolved trees can be encoded\<close>

definition plain_name :: "egg_string \<Rightarrow> bool" where
  "plain_name v \<longleftrightarrow> of_char CHR ''.'' \<notin> set v"

function plain_selectors :: "parse_node \<Rightarrow> bool" where
  "plain_selectors (PIdentifier v) = True"
| "plain_selectors (PLiteral l) = True"
| "plain_selectors (PMessage r s as) = (s \<noteq> [] \<and> plain_selectors r \<and> list_all plain_selectors as)"
| "plain_selectors (PCascade r ms) =
     (plain_selectors r \<and> list_all (\<lambda>m. fst m \<noteq> [] \<and> list_all plain_selectors (snd m)) ms)"
| "plain_selectors (PAssignment v e) = plain_selectors e"
| "plain_selectors (PReturn e) = plain_selectors e"
| "plain_selectors (PBlock args temps stmts) = list_all plain_selectors stmts"
| "plain_selectors (PBrace es) = list_all plain_selectors es"
  by pat_completeness auto
termination
  by (relation "measure size") (auto intro: part_sizes)

text \<open>Names without dots, which \<open>DynamicBinding::named_\<close> would split, and selectors that are not
  empty.\<close>

definition plain_method :: "parsed_method \<Rightarrow> bool" where
  "plain_method m \<longleftrightarrow>
     list_all (\<lambda>(q, c, ds, x). case x of None \<Rightarrow> True | Some v \<Rightarrow> plain_name v) (method_places m) \<and>
     list_all plain_selectors (pm_statements m)"

definition bound_places :: "analysis \<Rightarrow> (path \<times> place) list \<Rightarrow> bool" where
  "bound_places a = list_all (\<lambda>(q, c, ds, x).
     case x of None \<Rightarrow> True
     | Some v \<Rightarrow> plain_name v \<and> (\<exists>b. node_binding a q = Some b \<and> binds_lexically ds v b))"

lemma bound_places_simps [simp]:
  "bound_places a []"
  "bound_places a (ps @ qs) \<longleftrightarrow> bound_places a ps \<and> bound_places a qs"
  "bound_places a ((q, c, ds, None) # ps) \<longleftrightarrow> bound_places a ps"
  "bound_places a ((q, c, ds, Some v) # ps) \<longleftrightarrow>
     plain_name v \<and> (\<exists>b. node_binding a q = Some b \<and> binds_lexically ds v b) \<and> bound_places a ps"
  "bound_places a (concat (map_each f i ns)) \<longleftrightarrow> (\<forall>k < length ns. bound_places a (f (i + k) (ns ! k)))"
  by (simp_all add: bound_places_def all_parts)

lemma plain_free: "plain_name v \<Longrightarrow> resolvePseudo v = None \<Longrightarrow> free_binding v = DynamicBinding v"
proof -
  assume "plain_name v" "resolvePseudo v = None"
  moreover from this have "takeWhile (\<lambda>c. c \<noteq> of_char CHR ''.'') v = v"
    unfolding plain_name_def takeWhile_eq_all_conv by blast
  ultimately show ?thesis
    by (simp add: free_binding_def dynamic_named_def)
qed

lemma resolvePseudo_resolved: "resolvePseudo v = Some b \<Longrightarrow> resolved_binding (Some b) \<and> binding_literal b = None"
  by (auto simp: resolvePseudo_def split: if_splits)

lemma lexical_resolved:
  assumes "plain_name v" "binds_lexically ds v b"
  shows "resolved_binding (Some b)" "v = ascii ''Array'' \<Longrightarrow> array_binding (Some b)"
proof -
  consider i e where "b = ArgumentBinding v i e" | i e where "b = TemporaryBinding v i e"
    | "resolvePseudo v = Some b" | "b = DynamicBinding v"
  proof (cases "lexical ds v")
    case None
    with assms(2) have "b = free_binding v"
      by (simp add: binds_lexically_def)
    with that plain_free[OF assms(1)] show thesis
      by (cases "resolvePseudo v") (auto simp: free_binding_def)
  next
    case (Some k)
    with assms(2) that show thesis
      by (cases k) (auto simp: binds_lexically_def)
  qed
  then have "resolved_binding (Some b) \<and> (v = ascii ''Array'' \<longrightarrow> array_binding (Some b))"
  proof cases
    case 3
    then show ?thesis
      using resolvePseudo_resolved[OF 3] by (cases b) auto
  qed auto
  then show "resolved_binding (Some b)" "v = ascii ''Array'' \<Longrightarrow> array_binding (Some b)"
    by blast+
qed

lemma all_map_each: "list_all P (map_each f i xs) \<longleftrightarrow> (\<forall>k < length xs. P (f (i + k) (xs ! k)))"
  by (induction xs arbitrary: i) (simp_all add: All_less_Suc2)

lemma resolved_node_resolved:
  assumes "bound_places a (places c ds p n)" "plain_selectors n"
  shows "resolved (resolved_node a c p n)"
  using assms
proof (induction c ds p n rule: places.induct)
  case (1 c ds p v)
  then show ?case by (auto simp: lexical_resolved)
next
  case (3 c ds p r s as)
  then show ?case
    unfolding resolved_node.simps resolved.simps all_map_each by (auto simp: list_all_iff)
next
  case (4 c ds p r ms)
  have "resolved (resolved_node a c (l # (1 + k) # p) (snd (ms ! k) ! l))"
    if "k < length ms" "l < length (snd (ms ! k))" for k l
    by (rule 4(2)[of "ms ! k"]) (use that 4(3,4) in \<open>auto simp: list_all_length\<close>)
  with 4 show ?case
    unfolding resolved_node.simps resolved.simps all_map_each prod.case by (auto simp: list_all_iff)
next
  case (5 c ds p v e)
  then show ?case by (auto simp: lexical_resolved)
next
  case (7 c ds p args temps stmts)
  then show ?case
    unfolding resolved_node.simps resolved.simps all_map_each by (auto simp: list_all_iff)
next
  case (8 c ds p es)
  then show ?case
    unfolding resolved_node.simps resolved.simps all_map_each by (auto simp: list_all_iff lexical_resolved)
qed simp_all

lemma resolved_method_resolved:
  assumes "resolveSemantics m = Inr a" "plain_method m"
  shows "list_all resolved (mn_statements (resolved_method a m))"
proof -
  have "bound_places a (method_places m)"
    unfolding bound_places_def list_all_iff
  proof
    fix e
    assume e: "e \<in> set (method_places m)"
    obtain q c ds x where q: "e = (q, c, ds, x)"
      using prod_cases4 by blast
    show "case e of (q, c, ds, x) \<Rightarrow> (case x of None \<Rightarrow> True
      | Some v \<Rightarrow> plain_name v \<and> (\<exists>b. node_binding a q = Some b \<and> binds_lexically ds v b))"
      using names_resolve[OF assms(1), of q c ds] assms(2) e q
      by (fastforce simp: plain_method_def list_all_iff split: option.split)
  qed
  then have "resolved (resolved_node a [] [0 + k] (pm_statements m ! k))" if "k < length (pm_statements m)" for k
    using that assms(2) by (intro resolved_node_resolved) (auto simp: method_places_def plain_method_def list_all_length)
  then show ?thesis
    by (simp add: resolved_method_def all_map_each)
qed


text \<open>\<open>foo: x  ^x with: self\<close>\<close>

definition send_method :: parsed_method where
  "send_method =
     \<lparr> pm_selector = Some (ascii ''foo:''), pm_arguments = [ascii ''x''], pm_temporaries = [],
       pm_pragma = None, pm_statements =
         [PReturn (PMessage (PIdentifier (ascii ''x'')) (ascii ''with:'') [PIdentifier (ascii ''self'')])] \<rparr>"

definition resolved_send :: method_node where
  "resolved_send =
     \<lparr> mn_selector = ascii ''foo:'', mn_pragma = None,
       mn_arguments = [(ascii ''x'', Some (ArgumentBinding (ascii ''x'') 1 ArgumentEnvironment))],
       mn_statements =
         [ReturnNode (MessageNode False
           (IdentifierNode (ascii ''x'', Some (ArgumentBinding (ascii ''x'') 1 ArgumentEnvironment)))
           (ascii ''with:'') [IdentifierNode (ascii ''self'', Some SelfBinding)])] \<rparr>"

text \<open>What the pass makes of a method, without its state.\<close>

definition resolution :: "parsed_method \<Rightarrow> method_node result" where
  "resolution m = bind_result (resolveSemantics m) (\<lambda>a. Inr (resolved_method a m))"

lemma resolutionE:
  assumes "resolution m = Inr n"
  obtains a where "resolveSemantics m = Inr a" "resolved_method a m = n"
  using assms by (auto simp: resolution_def bind_result_eq_Inr)

lemmas resolution_defs = resolution_def semantic_defs resolved_method_def node_binding_def declared_argument_def

lemma resolution_send: "resolution send_method = Inr resolved_send"
  by (simp add: send_method_def resolved_send_def resolution_defs)


section \<open>Trees that the later phases cannot take\<close>

text \<open>\<open>foo |t| ^[self bar. [t]]\<close>\<close>

definition nested_capture :: parsed_method where
  "nested_capture =
     \<lparr> pm_selector = Some (ascii ''foo''), pm_arguments = [], pm_temporaries = [ascii ''t''], pm_pragma = None,
       pm_statements =
         [PReturn (PBlock [] [] [PMessage (PIdentifier (ascii ''self'')) (ascii ''bar'') [],
            PBlock [] [] [PIdentifier (ascii ''t'')]])] \<rparr>"

fun block_scopes :: "node \<Rightarrow> block_scope list" where
  "block_scopes (BlockNode inlined index scope args stmts) = scope # concat (map block_scopes stmts)"
| "block_scopes (ReturnNode e) = block_scopes e"
| "block_scopes _ = []"


text \<open>\<open>foo: x  ^x ifTrue: 3\<close>\<close>

definition literal_branch :: parsed_method where
  "literal_branch =
     \<lparr> pm_selector = Some (ascii ''foo:''), pm_arguments = [ascii ''x''], pm_temporaries = [], pm_pragma = None,
       pm_statements = [PReturn (PMessage (PIdentifier (ascii ''x'')) (ascii ''ifTrue:'') [PLiteral (LInteger 3)])] \<rparr>"

text \<open>\<open>foo: x |t| ^(x ifTrue: [t] ifFalse: nil) foo; bar\<close>\<close>

definition cascade_on_conditional :: parsed_method where
  "cascade_on_conditional =
     \<lparr> pm_selector = Some (ascii ''foo:''), pm_arguments = [ascii ''x''], pm_temporaries = [ascii ''t''], pm_pragma = None,
       pm_statements =
         [PReturn (PCascade
           (PMessage (PIdentifier (ascii ''x'')) (ascii ''ifTrue:ifFalse:'')
             [PBlock [] [] [PIdentifier (ascii ''t'')], PIdentifier (ascii ''nil'')])
           [(ascii ''foo'', []), (ascii ''bar'', [])])] \<rparr>"

text \<open>
  C32: A literal branch is inlined but cannot be linearized: the inliner takes any argument that is
  evaluable, a literal too, and the linearizer reads the statements of the argument as if it were a
  block.  So \<open>foo: x  ^x ifTrue: 3\<close> compiles, and its first call is undefined.
\<close>

theorem literal_branch_undefined:
  "\<exists>n. resolution literal_branch = Inr n \<and>
     (\<forall>obj literals env s.
        visitStatements (env\<lparr>le_ifTrue := obj (LSymbol (ascii ''ifTrue:''))\<rparr>)
          (map (translate obj literals True) (mn_statements n)) s = Inl Undefined)"
  by (simp add: literal_branch_def resolution_defs)
    (simp add: visitInlinedMessage_def inline_form_of_def inline_if_def part_at_def Let_def ascii_def tr_literal_def)

text \<open>\<open>foo: x |t| ^x ifTrue: [t] ifFalse: nil\<close>\<close>

definition plain_conditional :: parsed_method where
  "plain_conditional = cascade_on_conditional\<lparr> pm_statements :=
     [PReturn (PMessage (PIdentifier (ascii ''x'')) (ascii ''ifTrue:ifFalse:'')
        [PBlock [] [] [PIdentifier (ascii ''t'')], PIdentifier (ascii ''nil'')])] \<rparr>"

fun sent_inlined :: "node \<Rightarrow> bool list" where
  "sent_inlined (MessageNode b r s as) = b # sent_inlined r @ concat (map sent_inlined as)"
| "sent_inlined (CascadeNode r ms) = sent_inlined r"
| "sent_inlined (ReturnNode e) = sent_inlined e"
| "sent_inlined _ = []"

text \<open>
  The receiver of a cascade is analysed again with every message, when its identifiers are
  already bound: a conditional with the branch \<open>nil\<close>, sent as an ordinary message elsewhere, is inlined
  there although the branch is no block, and a temporary that its other branch had captured as a
  closure keeps a copy that is never placed (index -1).
\<close>

theorem cascade_receiver_inlined_late:
  "\<exists>n a. resolution plain_conditional = Inr n \<and> concat (map sent_inlined (mn_statements n)) = [False] \<and>
     resolveSemantics cascade_on_conditional = Inr a \<and>
     concat (map sent_inlined (mn_statements (resolved_method a cascade_on_conditional))) = [True] \<and>
     node_binding a [0, 1, 0, 0, 0] = Some (TemporaryBinding (ascii ''t'') (-1) (ArrayEnvironment (-1)))"
proof -
  have "case resolveSemantics cascade_on_conditional of Inl f \<Rightarrow> False | Inr a \<Rightarrow>
      concat (map sent_inlined (mn_statements (resolved_method a cascade_on_conditional))) = [True] \<and>
      node_binding a [0, 1, 0, 0, 0] = Some (TemporaryBinding (ascii ''t'') (-1) (ArrayEnvironment (-1)))"
    by (simp add: cascade_on_conditional_def resolution_defs)
  moreover have "\<exists>n. resolution plain_conditional = Inr n \<and> concat (map sent_inlined (mn_statements n)) = [False]"
    by (simp add: plain_conditional_def cascade_on_conditional_def resolution_defs)
  ultimately show ?thesis
    by (auto split: sum.splits)
qed

text \<open>\<open>foo: x  ^[:x | x]\<close>\<close>

definition shadowed_argument :: parsed_method where
  "shadowed_argument =
     \<lparr> pm_selector = Some (ascii ''foo:''), pm_arguments = [ascii ''x''], pm_temporaries = [], pm_pragma = None,
       pm_statements = [PReturn (PBlock [ascii ''x''] [] [PIdentifier (ascii ''x'')])] \<rparr>"

text \<open>
  A block argument may not shadow a variable of the scripts around it, but a temporary may shadow
  an argument of its own script, and then wins: only the check of arguments looks outwards.
\<close>

theorem shadowing_checks:
  "resolution shadowed_argument = Inl (redefinitionError (ascii ''x'')) \<and>
   (\<exists>n. resolution (shadowed_argument\<lparr> pm_temporaries := [ascii ''x''], pm_statements := [PIdentifier (ascii ''x'')] \<rparr>) = Inr n \<and>
     mn_statements n = [IdentifierNode (ascii ''x'', Some (TemporaryBinding (ascii ''x'') 1 StackEnvironment))])"
  by (simp add: shadowed_argument_def resolution_defs)

end
