(* ===== verification/ObjectMemory.thy ===== *)
theory ObjectMemory
  imports Literals
begin

text \<open>
  Objects of the heap (\<open>HeapObject.h\<close>, \<open>HeapObject.cpp\<close>): the small and large headers, their flags
  and sizes, and the accesses to the body as slots, bytes and little-endian 16, 32 and 64-bit
  integers.  The memory maps the address of each object to its header fields and the bytes of its
  body; an access to an address that holds no object, or outside the body, is undefined behaviour.
  The locale \<open>cells\<close> states what every indexed access promises; each accessor interprets it.
\<close>

section \<open>Objects\<close>

text \<open>
  \<open>SmallHeader\<close> has a hash, a size, flags and a behavior; \<open>LargeHeader\<close> precedes it with a 32-bit
  size.  An object that was allocated with a small header has no large one to read.
\<close>

record heap_object =
  header_hash :: "16 word"
  header_size :: byte
  header_flags :: byte
  header_behavior :: "32 word"
  large_header :: "32 word option"
  body :: "byte list"

type_synonym memory = "oop \<Rightarrow> heap_object option"

definition WORD_SIZE :: oop where "WORD_SIZE = 8"
definition WORD_SIZE_SHIFT :: nat where "WORD_SIZE_SHIFT = 3"
definition MAX_SMALL_SIZE :: "32 word" where "MAX_SMALL_SIZE = 0xFF"
definition BEHAVIOR_ADDRESS_SPACE :: oop where "BEHAVIOR_ADDRESS_SPACE = 0"

datatype header_flag =
  IsBytes | IsArrayed | IsNamed | IsRemembered | IsSpecial | HasBeenSeen | IsSecondGen | IsSmall

primrec flag_mask :: "header_flag \<Rightarrow> byte" where
  "flag_mask IsBytes = 0x01"
| "flag_mask IsArrayed = 0x02"
| "flag_mask IsNamed = 0x04"
| "flag_mask IsRemembered = 0x08"
| "flag_mask IsSpecial = 0x10"
| "flag_mask HasBeenSeen = 0x20"
| "flag_mask IsSecondGen = 0x40"
| "flag_mask IsSmall = 0x80"

definition AllOn :: byte where "AllOn = 0xFF"

definition testFlags :: "byte \<Rightarrow> heap_object \<Rightarrow> bool" where
  "testFlags flag obj \<longleftrightarrow> header_flags obj AND flag = flag"

definition setFlags :: "byte \<Rightarrow> heap_object \<Rightarrow> heap_object" where
  "setFlags flag obj = obj\<lparr>header_flags := header_flags obj OR flag\<rparr>"

definition unsetFlags :: "byte \<Rightarrow> heap_object \<Rightarrow> heap_object" where
  "unsetFlags flag obj = obj\<lparr>header_flags := header_flags obj AND (flag XOR AllOn)\<rparr>"

definition isNamed :: "heap_object \<Rightarrow> bool" where "isNamed = testFlags (flag_mask IsNamed)"
definition isSpecial :: "heap_object \<Rightarrow> bool" where "isSpecial = testFlags (flag_mask IsSpecial)"
definition hasBeenSeen :: "heap_object \<Rightarrow> bool" where "hasBeenSeen = testFlags (flag_mask HasBeenSeen)"
definition isSecondGeneration :: "heap_object \<Rightarrow> bool" where
  "isSecondGeneration = testFlags (flag_mask IsSecondGen)"
definition isBytes :: "heap_object \<Rightarrow> bool" where "isBytes = testFlags (flag_mask IsBytes)"
definition isPointers :: "heap_object \<Rightarrow> bool" where "isPointers obj \<longleftrightarrow> \<not> isBytes obj"
definition isArrayed :: "heap_object \<Rightarrow> bool" where "isArrayed = testFlags (flag_mask IsArrayed)"
definition isSmall :: "heap_object \<Rightarrow> bool" where "isSmall = testFlags (flag_mask IsSmall)"
definition isLarge :: "heap_object \<Rightarrow> bool" where "isLarge obj \<longleftrightarrow> \<not> isSmall obj"
definition isRemembered :: "heap_object \<Rightarrow> bool" where "isRemembered = testFlags (flag_mask IsRemembered)"

definition beBytes :: "heap_object \<Rightarrow> heap_object" where "beBytes = setFlags (flag_mask IsBytes)"
definition beArrayed :: "heap_object \<Rightarrow> heap_object" where "beArrayed = setFlags (flag_mask IsArrayed)"
definition beNamed :: "heap_object \<Rightarrow> heap_object" where "beNamed = setFlags (flag_mask IsNamed)"
definition beNotSpecial :: "heap_object \<Rightarrow> heap_object" where "beNotSpecial = unsetFlags (flag_mask IsSpecial)"
definition beSpecial :: "heap_object \<Rightarrow> heap_object" where "beSpecial = setFlags (flag_mask IsSpecial)"
definition beStrong :: "heap_object \<Rightarrow> heap_object" where "beStrong = beNotSpecial"
definition beSecondGeneration :: "heap_object \<Rightarrow> heap_object" where
  "beSecondGeneration = setFlags (flag_mask IsSecondGen)"
definition beNotRemembered :: "heap_object \<Rightarrow> heap_object" where
  "beNotRemembered = unsetFlags (flag_mask IsRemembered)"
definition beRemembered :: "heap_object \<Rightarrow> heap_object" where "beRemembered = setFlags (flag_mask IsRemembered)"
definition beSeen :: "heap_object \<Rightarrow> heap_object" where "beSeen = setFlags (flag_mask HasBeenSeen)"
definition beUnseen :: "heap_object \<Rightarrow> heap_object" where "beUnseen = unsetFlags (flag_mask HasBeenSeen)"
definition beSmall :: "heap_object \<Rightarrow> heap_object" where "beSmall = setFlags (flag_mask IsSmall)"
definition beLarge :: "heap_object \<Rightarrow> heap_object" where "beLarge = unsetFlags (flag_mask IsSmall)"

lemmas flag_reader_defs = isNamed_def isSpecial_def hasBeenSeen_def isSecondGeneration_def isBytes_def
  isPointers_def isArrayed_def isSmall_def isLarge_def isRemembered_def
lemmas flag_writer_defs = beBytes_def beArrayed_def beNamed_def beNotSpecial_def beSpecial_def beStrong_def
  beSecondGeneration_def beNotRemembered_def beRemembered_def beSeen_def beUnseen_def beSmall_def beLarge_def

section \<open>Behavior, hash and sizes\<close>

definition behavior :: "heap_object \<Rightarrow> oop" where
  "behavior obj = ucast (header_behavior obj) OR BEHAVIOR_ADDRESS_SPACE"

definition behavior_put :: "oop \<Rightarrow> heap_object \<Rightarrow> heap_object result" where
  "behavior_put p obj =
     assert_that (p AND 0xFFFFFFFF00000000 = BEHAVIOR_ADDRESS_SPACE) (Inr (obj\<lparr>header_behavior := ucast p\<rparr>))"

definition hash_put :: "16 word \<Rightarrow> heap_object \<Rightarrow> heap_object" where
  "hash_put h obj = obj\<lparr>header_hash := h\<rparr>"

definition smallSize_put :: "byte \<Rightarrow> heap_object \<Rightarrow> heap_object" where
  "smallSize_put n obj = obj\<lparr>header_size := n\<rparr>"

definition largeSize :: "heap_object \<Rightarrow> 32 word result" where
  "largeSize obj = assert_that (isLarge obj)
     (case large_header obj of None \<Rightarrow> Inl Undefined | Some n \<Rightarrow> Inr n)"

definition largeSize_put :: "32 word \<Rightarrow> heap_object \<Rightarrow> heap_object result" where
  "largeSize_put n obj = assert_that (isLarge obj)
     (case large_header obj of None \<Rightarrow> Inl Undefined | Some _ \<Rightarrow> Inr (obj\<lparr>large_header := Some n\<rparr>))"

definition object_size :: "heap_object \<Rightarrow> 32 word result" where
  "object_size obj = (if isSmall obj then Inr (ucast (header_size obj)) else largeSize obj)"

text \<open>\<open>WORD_SIZE\<close> is a \<open>uintptr_t\<close>: the products are of 64 bits, and the answer keeps 32 of them.\<close>

definition bodySizeInBytes :: "heap_object \<Rightarrow> 32 word result" where
  "bodySizeInBytes obj = bind_result (object_size obj) (\<lambda>n. Inr (
     if isBytes obj then ucast ((ucast n + WORD_SIZE - 1) AND (- WORD_SIZE))
     else ucast (ucast n * WORD_SIZE)))"

definition bodySizeInSlots :: "heap_object \<Rightarrow> 32 word result" where
  "bodySizeInSlots obj = bind_result (object_size obj) (\<lambda>n. Inr (
     if isBytes obj then ucast (drop_bit WORD_SIZE_SHIFT (ucast n + WORD_SIZE - 1)) else n))"

definition headerSizeInBytes :: "heap_object \<Rightarrow> 32 word" where
  "headerSizeInBytes obj = (if isSmall obj then 8 else 16)"

definition totalSizeInBytes :: "heap_object \<Rightarrow> 32 word result" where
  "totalSizeInBytes obj = bind_result (bodySizeInBytes obj) (\<lambda>n. Inr (headerSizeInBytes obj + n))"

definition pointersSize :: "heap_object \<Rightarrow> 32 word result" where
  "pointersSize obj = (if isBytes obj then Inr 0 else object_size obj)"

definition strongPointersSize :: "heap_object \<Rightarrow> 32 word result" where
  "strongPointersSize obj = (if isBytes obj \<or> isSpecial obj then Inr 0 else object_size obj)"

section \<open>Bytes of a body\<close>

definition le_bytes :: "nat \<Rightarrow> 'a::len word \<Rightarrow> byte list" where
  "le_bytes n w = map (\<lambda>i. ucast (drop_bit (8 * i) w)) [0..<n]"

text \<open>A read or a write of \<open>n\<close> bytes at the offset \<open>k\<close> of a body, through a pointer cast.\<close>

definition peek_bytes :: "nat \<Rightarrow> nat \<Rightarrow> byte list \<Rightarrow> 'a::len word result" where
  "peek_bytes n k bs =
     (if k + n \<le> length bs then Inr (word_of_nat (le_value (take n (drop k bs)))) else Inl Undefined)"

definition poke_bytes :: "nat \<Rightarrow> nat \<Rightarrow> 'a::len word \<Rightarrow> byte list \<Rightarrow> byte list result" where
  "poke_bytes n k w bs =
     (if k + n \<le> length bs then Inr (take k bs @ le_bytes n w @ drop (k + n) bs) else Inl Undefined)"

definition poke_body :: "nat \<Rightarrow> nat \<Rightarrow> 'a::len word \<Rightarrow> heap_object \<Rightarrow> heap_object result" where
  "poke_body n k w obj = bind_result (poke_bytes n k w (body obj)) (\<lambda>bs. Inr (obj\<lparr>body := bs\<rparr>))"

text \<open>
  The accessors answer references; each is a reader and a writer here, with the same assertions
  in front.  \<open>subscript\<close> is a \<open>uint32_t\<close> and so are the sums the assertions compare.
\<close>

definition slot_access :: "32 word \<Rightarrow> heap_object \<Rightarrow> 'a result \<Rightarrow> 'a result" where
  "slot_access index obj r =
     assert_that (isPointers obj) (bind_result (object_size obj) (\<lambda>n. assert_that (index < n) r))"

definition slot :: "32 word \<Rightarrow> heap_object \<Rightarrow> oop result" where
  "slot index obj = slot_access index obj (peek_bytes 8 (8 * unat index) (body obj))"

definition slot_put :: "32 word \<Rightarrow> oop \<Rightarrow> heap_object \<Rightarrow> heap_object result" where
  "slot_put index v obj = slot_access index obj (poke_body 8 (8 * unat index) v obj)"

definition untypedSlot_access :: "32 word \<Rightarrow> heap_object \<Rightarrow> 'a result \<Rightarrow> 'a result" where
  "untypedSlot_access index obj r = bind_result (object_size obj) (\<lambda>n. assert_that (index < n) r)"

definition untypedSlot :: "32 word \<Rightarrow> heap_object \<Rightarrow> oop result" where
  "untypedSlot index obj = untypedSlot_access index obj (peek_bytes 8 (8 * unat index) (body obj))"

definition untypedSlot_put :: "32 word \<Rightarrow> oop \<Rightarrow> heap_object \<Rightarrow> heap_object result" where
  "untypedSlot_put index v obj = untypedSlot_access index obj (poke_body 8 (8 * unat index) v obj)"

definition byte_access :: "32 word \<Rightarrow> heap_object \<Rightarrow> 'a result \<Rightarrow> 'a result" where
  "byte_access subscript obj r =
     assert_that (isBytes obj) (bind_result (object_size obj) (\<lambda>n. assert_that (subscript < n) r))"

definition byte_at :: "32 word \<Rightarrow> heap_object \<Rightarrow> byte result" where
  "byte_at subscript obj = byte_access subscript obj (peek_bytes 1 (unat subscript) (body obj))"

definition byte_put :: "32 word \<Rightarrow> byte \<Rightarrow> heap_object \<Rightarrow> heap_object result" where
  "byte_put subscript v obj = byte_access subscript obj (poke_body 1 (unat subscript) v obj)"

definition unsafeByte :: "32 word \<Rightarrow> heap_object \<Rightarrow> byte result" where
  "unsafeByte subscript obj = peek_bytes 1 (unat subscript) (body obj)"

definition unsafeByte_put :: "32 word \<Rightarrow> byte \<Rightarrow> heap_object \<Rightarrow> heap_object result" where
  "unsafeByte_put subscript v obj = poke_body 1 (unat subscript) v obj"

definition uint16offset :: "32 word \<Rightarrow> heap_object \<Rightarrow> 16 word result" where
  "uint16offset subscript obj = byte_access (subscript + 1) obj (peek_bytes 2 (unat subscript) (body obj))"

definition uint16offset_put :: "32 word \<Rightarrow> 16 word \<Rightarrow> heap_object \<Rightarrow> heap_object result" where
  "uint16offset_put subscript v obj = byte_access (subscript + 1) obj (poke_body 2 (unat subscript) v obj)"

definition uint32offset :: "32 word \<Rightarrow> heap_object \<Rightarrow> 32 word result" where
  "uint32offset subscript obj =
     byte_access (subscript * 4 + 3) obj (peek_bytes 4 (unat subscript) (body obj))"

definition uint32offset_put :: "32 word \<Rightarrow> 32 word \<Rightarrow> heap_object \<Rightarrow> heap_object result" where
  "uint32offset_put subscript v obj =
     byte_access (subscript * 4 + 3) obj (poke_body 4 (unat subscript) v obj)"

definition uint64offset :: "32 word \<Rightarrow> heap_object \<Rightarrow> oop result" where
  "uint64offset subscript obj = byte_access (subscript + 7) obj (peek_bytes 8 (unat subscript) (body obj))"

definition uint64offset_put :: "32 word \<Rightarrow> oop \<Rightarrow> heap_object \<Rightarrow> heap_object result" where
  "uint64offset_put subscript v obj = byte_access (subscript + 7) obj (poke_body 8 (unat subscript) v obj)"

text \<open>The one-based variants.\<close>

definition slotAt :: "32 word \<Rightarrow> heap_object \<Rightarrow> oop result" where
  "slotAt index = slot (index - 1)"
definition slotAt_put :: "32 word \<Rightarrow> oop \<Rightarrow> heap_object \<Rightarrow> heap_object result" where
  "slotAt_put index = slot_put (index - 1)"
definition untypedSlotAt :: "32 word \<Rightarrow> heap_object \<Rightarrow> oop result" where
  "untypedSlotAt index = untypedSlot (index - 1)"
definition untypedSlotAt_put :: "32 word \<Rightarrow> oop \<Rightarrow> heap_object \<Rightarrow> heap_object result" where
  "untypedSlotAt_put index = untypedSlot_put (index - 1)"
definition byteAt :: "32 word \<Rightarrow> heap_object \<Rightarrow> byte result" where
  "byteAt index = byte_at (index - 1)"
definition byteAt_put :: "32 word \<Rightarrow> byte \<Rightarrow> heap_object \<Rightarrow> heap_object result" where
  "byteAt_put index = byte_put (index - 1)"
definition unsafeByteAt :: "32 word \<Rightarrow> heap_object \<Rightarrow> byte result" where
  "unsafeByteAt index = unsafeByte (index - 1)"
definition unsafeByteAt_put :: "32 word \<Rightarrow> byte \<Rightarrow> heap_object \<Rightarrow> heap_object result" where
  "unsafeByteAt_put index = unsafeByte_put (index - 1)"
definition unsignedShortAt :: "32 word \<Rightarrow> heap_object \<Rightarrow> 16 word result" where
  "unsignedShortAt index = uint16offset ((index - 1) * 2)"
definition unsignedLongAt :: "32 word \<Rightarrow> heap_object \<Rightarrow> 32 word result" where
  "unsignedLongAt index = uint32offset ((index - 1) * 4)"
definition unsignedLargeAt :: "32 word \<Rightarrow> heap_object \<Rightarrow> oop result" where
  "unsignedLargeAt index = uint64offset ((index - 1) * 8)"


section \<open>Runs of bytes\<close>

definition body_bytes :: "nat \<Rightarrow> nat \<Rightarrow> heap_object \<Rightarrow> byte list result" where
  "body_bytes k n obj = (if k + n \<le> length (body obj) then Inr (take n (drop k (body obj))) else Inl Undefined)"

definition stringVal :: "heap_object \<Rightarrow> byte list result" where
  "stringVal obj = assert_that (isBytes obj) (bind_result (object_size obj) (\<lambda>n. body_bytes 0 (unat n) obj))"

text \<open>A String of the image ends with a zero byte, which the C++ string leaves out.\<close>

definition asLocalString :: "heap_object \<Rightarrow> byte list result" where
  "asLocalString obj = bind_result (object_size obj) (\<lambda>n. body_bytes 0 (unat (n - 1)) obj)"

definition sameBytesThan_string :: "byte list \<Rightarrow> heap_object \<Rightarrow> bool result" where
  "sameBytesThan_string string obj = bind_result (object_size obj) (\<lambda>n.
     if length string \<noteq> unat (n - 1) then Inr False
     else bind_result (body_bytes 0 (length string) obj) (\<lambda>bs. Inr (string = bs)))"

definition sameBytesThan :: "heap_object \<Rightarrow> heap_object \<Rightarrow> bool result" where
  "sameBytesThan obj other = bind_result (object_size obj) (\<lambda>n. bind_result (object_size other) (\<lambda>n'.
     if n \<noteq> n' then Inr False
     else bind_result (body_bytes 0 (unat n) obj) (\<lambda>bs.
       bind_result (body_bytes 0 (unat n) other) (\<lambda>bs'. Inr (bs = bs')))))"

section \<open>Memory\<close>

definition object_at :: "memory \<Rightarrow> oop \<Rightarrow> heap_object result" where
  "object_at m p = (case m p of None \<Rightarrow> Inl Undefined | Some obj \<Rightarrow> Inr obj)"

definition memory_slot :: "oop \<times> 32 word \<Rightarrow> memory \<Rightarrow> oop result" where
  "memory_slot = (\<lambda>(p, i) m. bind_result (object_at m p) (slot i))"

definition memory_slot_put :: "oop \<times> 32 word \<Rightarrow> oop \<Rightarrow> memory \<Rightarrow> memory result" where
  "memory_slot_put = (\<lambda>(p, i) v m. bind_result (object_at m p) (\<lambda>obj.
     bind_result (slot_put i v obj) (\<lambda>obj'. Inr (m(p \<mapsto> obj')))))"

text \<open>
  \<open>replaceBytesFrom_to_with_startingAt_\<close> copies with \<open>std::copy\<close>, which is undefined when the
  destination starts inside the source; the source may be the receiver.  \<open>to - from + 1\<close> and the
  offsets are \<open>uintptr_t\<close>.
\<close>

definition replaceBytes :: "oop \<Rightarrow> oop \<Rightarrow> oop \<Rightarrow> oop \<Rightarrow> oop \<Rightarrow> memory \<Rightarrow> memory result" where
  "replaceBytes receiver from to anObject startingAt m =
     (if to < from then Inr m
      else bind_result (object_at m receiver) (\<lambda>dst. bind_result (object_at m anObject) (\<lambda>src.
        let n = unat (to - from + 1); d = unat (from - 1); s = unat (startingAt - 1) in
        if receiver = anObject \<and> s \<le> d \<and> d < s + n then Inl Undefined
        else bind_result (body_bytes s n src) (\<lambda>bs.
          if d + n \<le> length (body dst)
          then Inr (m(receiver \<mapsto> dst\<lparr>body := take d (body dst) @ bs @ drop (d + n) (body dst)\<rparr>))
          else Inl Undefined))))"

text \<open>\<open>klass\<close> follows the behaviors of the object until one has a class.\<close>

definition klass :: "oop \<Rightarrow> memory \<Rightarrow> oop \<Rightarrow> oop result" where
  "klass nil m p = bind_result (object_at m p) (\<lambda>obj.
     bind_result (memory_slot (behavior obj, 0) m) (\<lambda>k0.
     bind_result (while_result (\<lambda>(current, k). k = nil)
         (\<lambda>(current, k). bind_result (memory_slot (current, 2) m) (\<lambda>next.
            bind_result (memory_slot (next, 0) m) (\<lambda>k'. Inr (next, k'))))
         (behavior obj, k0))
       (\<lambda>(current, k). Inr k)))"

section \<open>Little-endian words\<close>

lemma le_bytes_Suc: "le_bytes (Suc n) w = ucast w # le_bytes n (drop_bit 8 w)"
  by (simp add: le_bytes_def upt_conv_Cons add.commute del: upt_Suc flip: map_Suc_upt)

lemma length_le_bytes [simp]: "length (le_bytes n w) = n"
  by (simp add: le_bytes_def)

lemma le_value_le_bytes: "le_value (le_bytes n w) = unat w mod 256 ^ n"
proof (induction n arbitrary: w)
  case 0
  then show ?case
    by (simp add: le_bytes_def)
next
  case (Suc n)
  have "unat (ucast w :: byte) = unat w mod 256"
    by (simp add: unsigned_ucast_eq take_bit_eq_mod)
  moreover have "unat (drop_bit 8 w) = unat w div 256"
    unfolding unat_drop_bit_eq by (simp add: drop_bit_eq_div)
  ultimately show ?case
    using Suc [of "drop_bit 8 w"] by (simp only: le_bytes_Suc le_value_simps) (simp add: mod_mult2_eq)
qed

lemma le_bytes_le_value:
  assumes "length bs = n" "8 * n = LENGTH('a::len)"
  shows "le_bytes n (word_of_nat (le_value bs) :: 'a word) = bs"
proof (rule le_value_inject)
  have "(256::nat) ^ n = 2 ^ LENGTH('a)"
    by (simp add: power_mult flip: assms(2))
  then show "le_value (le_bytes n (word_of_nat (le_value bs) :: 'a word)) = le_value bs"
    using le_value_less [of bs] assms(1) by (simp add: le_value_le_bytes unsigned_of_nat take_bit_eq_mod)
qed (simp add: assms)

section \<open>Laws of the accesses\<close>

definition apart :: "nat \<Rightarrow> nat \<Rightarrow> nat \<Rightarrow> nat \<Rightarrow> bool" where
  "apart n k n' k' \<longleftrightarrow> k + n \<le> k' \<or> k' + n' \<le> k"

lemma poke_length: "poke_bytes n k w bs = Inr bs' \<Longrightarrow> length bs' = length bs"
  by (auto simp: poke_bytes_def split: if_splits)

lemma peek_poke_same:
  fixes w :: "'a::len word"
  assumes "poke_bytes n k w bs = Inr bs'" "8 * n = LENGTH('a)"
  shows "peek_bytes n k bs' = Inr w"
proof -
  have "(256::nat) ^ n = 2 ^ LENGTH('a)"
    by (simp add: power_mult flip: assms(2))
  then have "word_of_nat (le_value (le_bytes n w)) = w"
    by (simp add: le_value_le_bytes)
  then show ?thesis
    using assms(1) by (auto simp: poke_bytes_def peek_bytes_def split: if_splits)
qed

lemma peek_poke_other:
  assumes "poke_bytes n k w bs = Inr bs'" "apart n k n' k'"
  shows "peek_bytes n' k' bs' = (peek_bytes n' k' bs :: 'b::len word result)"
proof -
  have "take n' (drop k' bs') = take n' (drop k' bs)" if "k' + n' \<le> length bs"
    using assms that
    by (intro nth_equalityI) (auto simp: poke_bytes_def apart_def nth_append split: if_splits)
  then show ?thesis
    using poke_length [OF assms(1)] by (simp add: peek_bytes_def)
qed

lemma poke_defined: "peek_bytes n k bs = Inr (v :: 'a::len word) \<Longrightarrow> \<exists>bs'. poke_bytes n k w bs = Inr bs'"
  by (auto simp: peek_bytes_def poke_bytes_def split: if_splits)

lemma poke_peek:
  fixes w :: "'a::len word"
  assumes "peek_bytes n k bs = Inr w" "8 * n = LENGTH('a)"
  shows "poke_bytes n k w bs = Inr bs"
proof -
  have "k + n \<le> length bs" and w: "w = word_of_nat (le_value (take n (drop k bs)))"
    using assms(1) by (auto simp: peek_bytes_def split: if_splits)
  then have "le_bytes n w = take n (drop k bs)"
    using le_bytes_le_value [of "take n (drop k bs)" n, where 'a = 'a] assms(2) by simp
  then show ?thesis
    using \<open>k + n \<le> length bs\<close> by (simp add: poke_bytes_def flip: drop_drop)
      (metis add.commute append_take_drop_id drop_drop)
qed

section \<open>Allocation of objects\<close>

text \<open>
  \<open>GCHeap::allocateSlots_\<close> and \<open>allocateBytes_\<close>.  \<open>allocate\<close> is \<open>GCHeap::allocate_\<close>: the address of a
  free buffer of that many bytes, or a null pointer.  It takes a \<open>uint32_t\<close>, while the total is
  computed with 64 bits: writing more than was asked for is undefined.
\<close>

definition small_request :: "32 word \<Rightarrow> bool" where
  "small_request n \<longleftrightarrow> n \<le> MAX_SMALL_SIZE"

definition request_header :: "32 word \<Rightarrow> oop" where
  "request_header n = (if small_request n then 8 else 16)"

definition fresh_object :: "32 word \<Rightarrow> byte list \<Rightarrow> heap_object" where
  "fresh_object n bs =
     (let blank = \<lparr>header_hash = 0, header_size = 0, header_flags = 0, header_behavior = 0, large_header = None, body = bs\<rparr>
      in if small_request n then smallSize_put (ucast n) (beSmall blank)
         else (beLarge blank)\<lparr>large_header := Some n\<rparr>)"

definition place_object ::
  "(32 word \<Rightarrow> oop) \<Rightarrow> oop \<Rightarrow> oop \<Rightarrow> heap_object \<Rightarrow> memory \<Rightarrow> (oop \<times> memory) result" where
  "place_object allocate headerSize totalSize obj m =
     (let asked = ucast totalSize; buffer = allocate asked in
      if buffer = 0 \<or> unat asked < unat totalSize then Inl Undefined
      else Inr (buffer + headerSize, m(buffer + headerSize \<mapsto> obj)))"

definition allocateSlots :: "(32 word \<Rightarrow> oop) \<Rightarrow> oop \<Rightarrow> 32 word \<Rightarrow> memory \<Rightarrow> (oop \<times> memory) result" where
  "allocateSlots allocate nil n =
     place_object allocate (request_header n) (request_header n + ucast n * 8)
       (fresh_object n (concat (replicate (unat n) (le_bytes 8 nil))))"

definition align :: "oop \<Rightarrow> oop \<Rightarrow> oop" where
  "align value alignment = (value + (alignment - 1)) AND NOT (alignment - 1)"

definition allocateBytes :: "(32 word \<Rightarrow> oop) \<Rightarrow> 32 word \<Rightarrow> memory \<Rightarrow> (oop \<times> memory) result" where
  "allocateBytes allocate n =
     place_object allocate (request_header n) (request_header n + align (ucast n) 8)
       (beArrayed (beBytes (fresh_object n (replicate (unat (align (ucast n) 8)) 0))))"

end
