(* ===== verification/ObjectAccess.thy ===== *)
theory ObjectAccess
  imports ObjectMemory
begin

text \<open>
  Laws of the object accesses.  The locale \<open>cells\<close> is the contract of an indexed access; the
  slots, bytes and wider integers of one object and the slots of a whole memory interpret it.  Then
  the flags, the sizes, the accesses of well-formed objects, \<open>replaceBytesFrom_to_with_startingAt_\<close>
  and the allocation of objects.
\<close>

section \<open>The contract of an indexed access\<close>

text \<open>
  The contract of an indexed access: what was stored is read back, a store leaves the cells apart
  from it as they were, stores are possible exactly where reads are, and storing what is there
  already changes nothing.
\<close>

locale cells =
  fixes get :: "'i \<Rightarrow> 's \<Rightarrow> 'v result"
    and put :: "'i \<Rightarrow> 'v \<Rightarrow> 's \<Rightarrow> 's result"
    and separate :: "'i \<Rightarrow> 'i \<Rightarrow> bool"
  assumes get_put: "put i v s = Inr s' \<Longrightarrow> get i s' = Inr v"
    and get_put_separate: "put i v s = Inr s' \<Longrightarrow> separate i j \<Longrightarrow> get j s' = get j s"
    and put_defined: "(\<exists>s'. put i v s = Inr s') \<longleftrightarrow> (\<exists>u. get i s = Inr u)"
    and put_get: "get i s = Inr v \<Longrightarrow> put i v s = Inr s"

fun store_all :: "('i \<Rightarrow> 'v \<Rightarrow> 's \<Rightarrow> 's result) \<Rightarrow> ('i \<times> 'v) list \<Rightarrow> 's \<Rightarrow> 's result" where
  "store_all put [] s = Inr s"
| "store_all put ((i, v) # ivs) s = bind_result (put i v s) (store_all put ivs)"

context cells
begin

lemma store_all_separate:
  assumes "store_all put ivs s = Inr s'" "\<And>i. i \<in> fst ` set ivs \<Longrightarrow> separate i j"
  shows "get j s' = get j s"
  using assms
proof (induction ivs arbitrary: s)
  case (Cons iv ivs)
  then obtain s1 where "put (fst iv) (snd iv) s = Inr s1" "store_all put ivs s1 = Inr s'"
    by (cases iv) (auto simp: bind_result_eq_Inr)
  then show ?case
    using Cons get_put_separate [of "fst iv" "snd iv" s s1 j] by simp
qed simp

lemma store_all_get:
  assumes "store_all put ivs s = Inr s'" "sorted_wrt (\<lambda>x y. separate (fst y) (fst x)) ivs"
    and "(i, v) \<in> set ivs"
  shows "get i s' = Inr v"
  using assms
proof (induction ivs arbitrary: s)
  case (Cons iv ivs)
  then obtain s1 where s1: "put (fst iv) (snd iv) s = Inr s1" "store_all put ivs s1 = Inr s'"
    by (cases iv) (auto simp: bind_result_eq_Inr)
  show ?case
  proof (cases "(i, v) \<in> set ivs")
    case True
    then show ?thesis
      using Cons s1 by simp
  next
    case False
    then have "iv = (i, v)"
      using Cons.prems by simp
    then show ?thesis
      using Cons.prems(2) s1 store_all_separate [OF s1(2), of i] get_put [OF s1(1)] by fastforce
  qed
qed simp

lemma put_keeps_defined: "put i v s = Inr s' \<Longrightarrow> separate i j \<Longrightarrow> (\<exists>u. get j s' = Inr u) \<longleftrightarrow> (\<exists>u. get j s = Inr u)"
  by (simp add: get_put_separate)

lemma store_all_defined:
  "sorted_wrt (\<lambda>x y. separate (fst x) (fst y)) ivs \<Longrightarrow> (\<And>i. i \<in> fst ` set ivs \<Longrightarrow> \<exists>u. get i s = Inr u) \<Longrightarrow>
   \<exists>s'. store_all put ivs s = Inr s'"
proof (induction ivs arbitrary: s)
  case (Cons iv ivs)
  obtain i v where iv: "iv = (i, v)"
    by fastforce
  obtain s1 where s1: "put i v s = Inr s1"
    using Cons.prems(2) [of i] put_defined iv by force
  moreover have "\<exists>u. get j s1 = Inr u" if "j \<in> fst ` set ivs" for j
    using that Cons.prems iv get_put_separate [OF s1, of j] by fastforce
  ultimately show ?case
    using Cons iv by simp
qed simp

end


section \<open>The accessors keep the contract\<close>

text \<open>
  Every accessor checks the header and then reads or writes \<open>n\<close> bytes at an offset; a write changes
  the body only.
\<close>

definition checked_peek ::
  "('i \<Rightarrow> heap_object \<Rightarrow> unit result) \<Rightarrow> nat \<Rightarrow> ('i \<Rightarrow> nat) \<Rightarrow> 'i \<Rightarrow> heap_object \<Rightarrow> 'a::len word result" where
  "checked_peek check n offset i obj = bind_result (check i obj) (\<lambda>_. peek_bytes n (offset i) (body obj))"

definition checked_poke ::
  "('i \<Rightarrow> heap_object \<Rightarrow> unit result) \<Rightarrow> nat \<Rightarrow> ('i \<Rightarrow> nat) \<Rightarrow> 'i \<Rightarrow> 'a::len word \<Rightarrow> heap_object \<Rightarrow> heap_object result" where
  "checked_poke check n offset i v obj = bind_result (check i obj) (\<lambda>_. poke_body n (offset i) v obj)"

lemma checked_cells:
  assumes width: "8 * n = LENGTH('a::len)"
    and check: "\<And>i obj bs. check i (obj\<lparr>body := bs\<rparr>) = check i obj"
  shows "cells (checked_peek check n offset :: 'i \<Rightarrow> heap_object \<Rightarrow> 'a word result) (checked_poke check n offset)
    (\<lambda>i j. apart n (offset i) n (offset j))"
proof
  fix i j and v :: "'a word" and s s'
  assume put: "checked_poke check n offset i v s = Inr s'"
  then obtain bs where bs: "check i s = Inr ()" "poke_bytes n (offset i) v (body s) = Inr bs" "s' = s\<lparr>body := bs\<rparr>"
    by (auto simp: checked_poke_def poke_body_def bind_result_eq_Inr)
  show "checked_peek check n offset i s' = Inr v"
    using bs peek_poke_same [OF bs(2) width] by (simp add: checked_peek_def check)
  assume "apart n (offset i) n (offset j)"
  then show "checked_peek check n offset j s' = (checked_peek check n offset j s :: 'a word result)"
    using bs peek_poke_other [OF bs(2), where 'b = 'a] by (simp add: checked_peek_def check)
next
  fix i and v :: "'a word" and s
  show "(\<exists>s'. checked_poke check n offset i v s = Inr s') \<longleftrightarrow>
    (\<exists>u. checked_peek check n offset i s = Inr (u :: 'a word))"
    by (auto simp: checked_peek_def checked_poke_def poke_body_def peek_bytes_def poke_bytes_def
        bind_result_eq_Inr split: if_splits)
  assume "checked_peek check n offset i s = Inr v"
  then show "checked_poke check n offset i v s = Inr s"
    using poke_peek [OF _ width] by (auto simp: checked_peek_def checked_poke_def poke_body_def bind_result_eq_Inr)
qed

lemma assert_that_unit: "assert_that b r = bind_result (assert_that b (Inr ())) (\<lambda>_. r)"
  by (cases b) simp_all

lemma bind_result_assoc: "bind_result (bind_result r k) k' = bind_result r (\<lambda>x. bind_result (k x) k')"
  by (cases r) simp_all

lemma slot_access_unit: "slot_access i obj r = bind_result (slot_access i obj (Inr ())) (\<lambda>_. r)"
  by (simp add: slot_access_def assert_that_def bind_result_def split: sum.splits)

lemma untypedSlot_access_unit:
  "untypedSlot_access i obj r = bind_result (untypedSlot_access i obj (Inr ())) (\<lambda>_. r)"
  by (simp add: untypedSlot_access_def assert_that_def bind_result_def split: sum.splits)

lemma byte_access_unit: "byte_access i obj r = bind_result (byte_access i obj (Inr ())) (\<lambda>_. r)"
  by (simp add: byte_access_def assert_that_def bind_result_def split: sum.splits)

lemma reads_header [simp]:
  "testFlags f (obj\<lparr>body := bs\<rparr>) = testFlags f obj"
  "isBytes (obj\<lparr>body := bs\<rparr>) = isBytes obj" "isPointers (obj\<lparr>body := bs\<rparr>) = isPointers obj"
  "isSmall (obj\<lparr>body := bs\<rparr>) = isSmall obj" "isNamed (obj\<lparr>body := bs\<rparr>) = isNamed obj"
  "isSpecial (obj\<lparr>body := bs\<rparr>) = isSpecial obj" "isArrayed (obj\<lparr>body := bs\<rparr>) = isArrayed obj"
  "behavior (obj\<lparr>body := bs\<rparr>) = behavior obj"
  "object_size (obj\<lparr>body := bs\<rparr>) = object_size obj"
  by (simp_all add: flag_reader_defs testFlags_def behavior_def object_size_def largeSize_def)

lemma reads_header_access [simp]:
  "slot_access i (obj\<lparr>body := bs\<rparr>) r = slot_access i obj r"
  "untypedSlot_access i (obj\<lparr>body := bs\<rparr>) r = untypedSlot_access i obj r"
  "byte_access i (obj\<lparr>body := bs\<rparr>) r = byte_access i obj r"
  by (simp_all add: slot_access_def untypedSlot_access_def byte_access_def)

lemma accessors_checked:
  "slot = checked_peek (\<lambda>i obj. slot_access i obj (Inr ())) 8 (\<lambda>i. 8 * unat i)"
  "slot_put = checked_poke (\<lambda>i obj. slot_access i obj (Inr ())) 8 (\<lambda>i. 8 * unat i)"
  "untypedSlot = checked_peek (\<lambda>i obj. untypedSlot_access i obj (Inr ())) 8 (\<lambda>i. 8 * unat i)"
  "untypedSlot_put = checked_poke (\<lambda>i obj. untypedSlot_access i obj (Inr ())) 8 (\<lambda>i. 8 * unat i)"
  "byte_at = checked_peek (\<lambda>i obj. byte_access i obj (Inr ())) 1 unat"
  "byte_put = checked_poke (\<lambda>i obj. byte_access i obj (Inr ())) 1 unat"
  "unsafeByte = checked_peek (\<lambda>i obj. Inr ()) 1 unat"
  "unsafeByte_put = checked_poke (\<lambda>i obj. Inr ()) 1 unat"
  "uint16offset = checked_peek (\<lambda>i obj. byte_access (i + 1) obj (Inr ())) 2 unat"
  "uint16offset_put = checked_poke (\<lambda>i obj. byte_access (i + 1) obj (Inr ())) 2 unat"
  "uint32offset = checked_peek (\<lambda>i obj. byte_access (i * 4 + 3) obj (Inr ())) 4 unat"
  "uint32offset_put = checked_poke (\<lambda>i obj. byte_access (i * 4 + 3) obj (Inr ())) 4 unat"
  "uint64offset = checked_peek (\<lambda>i obj. byte_access (i + 7) obj (Inr ())) 8 unat"
  "uint64offset_put = checked_poke (\<lambda>i obj. byte_access (i + 7) obj (Inr ())) 8 unat"
  by (intro ext; simp only: checked_peek_def checked_poke_def slot_def slot_put_def untypedSlot_def
      untypedSlot_put_def byte_at_def byte_put_def unsafeByte_def unsafeByte_put_def uint16offset_def
      uint16offset_put_def uint32offset_def uint32offset_put_def uint64offset_def uint64offset_put_def
      slot_access_unit [symmetric] untypedSlot_access_unit [symmetric] byte_access_unit [symmetric] bind_result_simps)+

lemma cells_mono:
  assumes "cells get put separate" "\<And>i j. separate' i j \<Longrightarrow> separate i j"
  shows "cells get put separate'"
  using assms unfolding cells_def by blast

lemma slots_apart: "i \<noteq> j \<Longrightarrow> apart 8 (8 * unat i) 8 (8 * unat j)"
  for i j :: "32 word"
  by (cases "unat i < unat j") (auto simp: apart_def not_less le_less word_unat_eq_iff)

lemma bytes_apart: "i \<noteq> j \<Longrightarrow> apart 1 (unat i) 1 (unat j)"
  for i j :: "32 word"
  by (cases "unat i < unat j") (auto simp: apart_def not_less le_less word_unat_eq_iff)

interpretation slots: cells slot slot_put "(\<noteq>)"
  unfolding accessors_checked by (rule cells_mono [OF checked_cells]) (simp_all add: slots_apart)

interpretation untyped_slots: cells untypedSlot untypedSlot_put "(\<noteq>)"
  unfolding accessors_checked by (rule cells_mono [OF checked_cells]) (simp_all add: slots_apart)

interpretation checked_bytes: cells byte_at byte_put "(\<noteq>)"
  unfolding accessors_checked by (rule cells_mono [OF checked_cells]) (simp_all add: bytes_apart [simplified])

interpretation unchecked_bytes: cells unsafeByte unsafeByte_put "(\<noteq>)"
  unfolding accessors_checked by (rule cells_mono [OF checked_cells]) (simp_all add: bytes_apart [simplified])

interpretation shorts: cells uint16offset uint16offset_put "\<lambda>i j. apart 2 (unat i) 2 (unat j)"
  unfolding accessors_checked by (rule checked_cells) simp_all

interpretation longs: cells uint32offset uint32offset_put "\<lambda>i j. apart 4 (unat i) 4 (unat j)"
  unfolding accessors_checked by (rule checked_cells) simp_all

interpretation larges: cells uint64offset uint64offset_put "\<lambda>i j. apart 8 (unat i) 8 (unat j)"
  unfolding accessors_checked by (rule checked_cells) simp_all

text \<open>The slots of all the objects of a memory are cells too.\<close>

interpretation memory_slots: cells memory_slot memory_slot_put "(\<noteq>)"
proof
  fix x y v s s'
  assume "memory_slot_put x v s = Inr s'"
  then obtain p i obj obj' where x: "x = (p, i)" "s p = Some obj" "slot_put i v obj = Inr obj'" "s' = s(p \<mapsto> obj')"
    by (cases x) (auto simp: memory_slot_put_def object_at_def bind_result_eq_Inr split: option.splits)
  show "memory_slot x s' = Inr v"
    using x slots.get_put by (simp add: memory_slot_def object_at_def)
  assume "x \<noteq> y"
  then show "memory_slot y s' = memory_slot y s"
    using x slots.get_put_separate [of i v obj obj']
    by (cases y) (auto simp: memory_slot_def object_at_def)
next
  fix x v s
  show "(\<exists>s'. memory_slot_put x v s = Inr s') \<longleftrightarrow> (\<exists>u. memory_slot x s = Inr u)"
    using slots.put_defined [of "snd x" v]
    by (cases x; cases "object_at s (fst x)") (auto simp: memory_slot_def memory_slot_put_def bind_result_eq_Inr)
  assume "memory_slot x s = Inr v"
  then show "memory_slot_put x v s = Inr s"
    using slots.put_get
    by (cases x) (auto simp: memory_slot_def memory_slot_put_def object_at_def bind_result_eq_Inr
        split: option.splits intro!: ext)
qed

section \<open>Flags\<close>

primrec flag_index :: "header_flag \<Rightarrow> nat" where
  "flag_index IsBytes = 0"
| "flag_index IsArrayed = 1"
| "flag_index IsNamed = 2"
| "flag_index IsRemembered = 3"
| "flag_index IsSpecial = 4"
| "flag_index HasBeenSeen = 5"
| "flag_index IsSecondGen = 6"
| "flag_index IsSmall = 7"

lemma flag_mask_bit: "bit (flag_mask f) i \<longleftrightarrow> i = flag_index f"
  by (cases f) (auto simp: bit_1_iff bit_numeral_rec bit_0_eq less_Suc_eq split: nat.splits)

lemma flag_index_less: "flag_index f < 8"
  by (cases f) simp_all

lemma testFlags_bit: "testFlags (flag_mask f) obj \<longleftrightarrow> bit (header_flags obj) (flag_index f)"
proof
  assume "testFlags (flag_mask f) obj"
  then have "bit (header_flags obj AND flag_mask f) (flag_index f)"
    unfolding testFlags_def by (simp only: flag_mask_bit)
  then show "bit (header_flags obj) (flag_index f)"
    by (simp only: bit_and_iff)
next
  assume set: "bit (header_flags obj) (flag_index f)"
  show "testFlags (flag_mask f) obj"
    unfolding testFlags_def
  proof (rule bit_word_eqI)
    fix i
    show "bit (header_flags obj AND flag_mask f) i \<longleftrightarrow> bit (flag_mask f) i"
      unfolding bit_and_iff flag_mask_bit using set by fast
  qed
qed

lemma flag_index_inject: "flag_index f = flag_index g \<longleftrightarrow> f = g"
  by (cases f; cases g) simp_all

lemma bit_AllOn: "bit AllOn i \<longleftrightarrow> i < 8"
proof -
  have "AllOn = - 1"
    by (simp add: AllOn_def)
  show ?thesis
    unfolding \<open>AllOn = - 1\<close> by simp
qed

lemma flags_independent:
  "testFlags (flag_mask f) (setFlags (flag_mask g) obj) \<longleftrightarrow> f = g \<or> testFlags (flag_mask f) obj"
  "testFlags (flag_mask f) (unsetFlags (flag_mask g) obj) \<longleftrightarrow> f \<noteq> g \<and> testFlags (flag_mask f) obj"
  using flag_index_inject [of f g] flag_index_less [of f]
  by (auto simp: testFlags_bit setFlags_def unsetFlags_def bit_or_iff bit_and_iff bit_xor_iff flag_mask_bit bit_AllOn)

section \<open>Sizes\<close>

text \<open>
  A well-formed object has the body its size asks for: whole words for its bytes, a word for each
  of its slots.
\<close>

definition body_length :: "bool \<Rightarrow> 32 word \<Rightarrow> nat" where
  "body_length bytes n = (if bytes then (unat n + 7) div 8 * 8 else 8 * unat n)"

definition well_formed :: "heap_object \<Rightarrow> bool" where
  "well_formed obj = (case object_size obj of Inl _ \<Rightarrow> False | Inr n \<Rightarrow> length (body obj) = body_length (isBytes obj) n)"

lemma well_formed_size:
  assumes "well_formed obj"
  obtains n where "object_size obj = Inr n" "length (body obj) = body_length (isBytes obj) n"
  using assms by (auto simp: well_formed_def split: sum.splits)

lemma unat_less_32: "unat (n :: 32 word) < 4294967296"
  using unsigned_less [of n] by simp

lemma unat_ucast_64: "unat (ucast (n :: 32 word) :: oop) = unat n"
  using unat_less_32 [of n] by (simp add: unsigned_ucast_eq take_bit_eq_mod)

lemma unat_plus_7: "unat (ucast (n :: 32 word) + WORD_SIZE - 1 :: oop) = unat n + 7"
proof -
  have "unat (ucast n + 7 :: oop) = unat n + 7"
    using unat_less_32 [of n] by (simp add: unat_word_ariths unat_ucast_64)
  moreover have "(ucast n + WORD_SIZE - 1 :: oop) = ucast n + 7"
    by (simp add: WORD_SIZE_def)
  ultimately show ?thesis
    by (simp only:)
qed

lemma and_minus_8: "(w AND - 8 :: oop) = push_bit 3 (drop_bit 3 w)"
proof -
  have "(- 8 :: oop) = NOT (mask 3)"
    by (simp add: not_eq_complement mask_eq_exp_minus_1)
  then show ?thesis
    by (intro bit_word_eqI)
      (simp only: bit_and_iff bit_not_iff bit_mask_iff bit_push_bit_iff bit_drop_bit_eq, auto)
qed

lemma unat_round_up:
  assumes "unat w < 2 ^ 63"
  shows "unat (w AND - 8 :: oop) = unat w div 8 * 8"
proof -
  have "unat (drop_bit 3 w) = unat w div 8"
    unfolding unat_drop_bit_eq by (simp add: drop_bit_eq_div)
  then have "unat (push_bit 3 (drop_bit 3 w)) = unat w div 8 * 8"
    unfolding push_bit_eq_mult using assms by (simp add: unat_word_ariths mult.commute)
  then show ?thesis
    by (simp only: and_minus_8)
qed

lemma bodySizeInBytes_wrap:
  assumes "object_size obj = Inr n"
  shows "bodySizeInBytes obj = Inr (word_of_nat (body_length (isBytes obj) n))"
proof (cases "isBytes obj")
  case True
  have "(- WORD_SIZE) = - 8" "unat (ucast n + WORD_SIZE - 1 :: oop) < 2 ^ 63"
    using unat_less_32 [of n] unat_plus_7 [of n] by (simp_all add: WORD_SIZE_def)
  then have "unat ((ucast n + WORD_SIZE - 1 :: oop) AND (- WORD_SIZE)) = body_length True n"
    using unat_round_up [of "ucast n + WORD_SIZE - 1"] by (simp only: unat_plus_7 body_length_def if_True)
  then show ?thesis
    using True assms by (simp add: bodySizeInBytes_def) (metis of_nat_unat)
next
  case False
  have "unat (ucast n * WORD_SIZE :: oop) = body_length False n"
    using unat_less_32 [of n] by (simp add: WORD_SIZE_def unat_word_ariths unat_ucast_64 body_length_def)
  then show ?thesis
    using False assms by (simp add: bodySizeInBytes_def) (metis of_nat_unat)
qed

lemma bodySizeInSlots_words:
  assumes "object_size obj = Inr n"
  shows "bodySizeInSlots obj = Inr (word_of_nat (body_length (isBytes obj) n div 8))"
proof (cases "isBytes obj")
  case True
  have "unat (drop_bit WORD_SIZE_SHIFT (ucast n + WORD_SIZE - 1 :: oop)) = body_length True n div 8"
    unfolding unat_drop_bit_eq unat_plus_7 by (simp add: WORD_SIZE_SHIFT_def drop_bit_eq_div body_length_def)
  then show ?thesis
    using True assms by (simp add: bodySizeInSlots_def) (metis of_nat_unat)
qed (simp add: bodySizeInSlots_def assms body_length_def)

text \<open>
  The size functions agree with the body of a well-formed object modulo \<open>2 ^ 32\<close>: an object with
  \<open>2 ^ 29\<close> slots, which a large header can describe, has a \<open>bodySizeInBytes\<close> of zero.
\<close>

lemma body_sizes:
  assumes "well_formed obj"
  shows "bodySizeInBytes obj = Inr (word_of_nat (length (body obj)))"
    and "bodySizeInSlots obj = Inr (word_of_nat (length (body obj) div 8))"
    and "8 dvd length (body obj)"
  using assms
  by (auto elim!: well_formed_size simp: bodySizeInBytes_wrap bodySizeInSlots_words body_length_def)

section \<open>Accesses to well-formed objects\<close>

lemma slot_well_formed:
  assumes "well_formed obj" "object_size obj = Inr n"
  shows "isPointers obj \<Longrightarrow> i < n \<Longrightarrow> \<exists>v. slot i obj = Inr v"
    and "isBytes obj \<or> n \<le> i \<Longrightarrow> slot i obj = Inl AssertionFailed"
proof -
  assume obj: "isPointers obj" "i < n"
  then have "8 * unat i + 8 \<le> length (body obj)"
    using assms word_less_nat_alt [of i n] by (auto elim: well_formed_size simp: body_length_def isPointers_def)
  then show "\<exists>v. slot i obj = Inr v"
    using assms obj by (simp add: slot_def slot_access_def peek_bytes_def)
qed (use assms in \<open>auto simp: slot_def slot_access_def isPointers_def assert_that_def\<close>)

lemma byte_well_formed:
  assumes "well_formed obj" "object_size obj = Inr n"
  shows "isBytes obj \<Longrightarrow> i < n \<Longrightarrow> byte_at i obj = Inr (body obj ! unat i)"
    and "isPointers obj \<or> n \<le> i \<Longrightarrow> byte_at i obj = Inl AssertionFailed"
proof -
  assume obj: "isBytes obj" "i < n"
  then have i: "unat i < length (body obj)"
    using assms word_less_nat_alt [of i n] by (auto elim: well_formed_size simp: body_length_def)
  then have "take (Suc 0) (drop (unat i) (body obj)) = [body obj ! unat i]"
    by (simp add: take_Suc hd_drop_conv_nth)
  then show "byte_at i obj = Inr (body obj ! unat i)"
    using assms obj i by (simp add: byte_at_def byte_access_def peek_bytes_def)
qed (use assms in \<open>auto simp: byte_at_def byte_access_def isPointers_def assert_that_def\<close>)

lemma byte_put_well_formed:
  assumes "well_formed obj" "object_size obj = Inr n" "isBytes obj" "i < n"
  shows "byte_put i v obj = Inr (obj\<lparr>body := (body obj)[unat i := v]\<rparr>)"
proof -
  have "unat i < length (body obj)"
    using assms word_less_nat_alt [of i n] by (auto elim: well_formed_size simp: body_length_def)
  then show ?thesis
    using assms
    by (simp add: byte_put_def byte_access_def poke_body_def poke_bytes_def le_bytes_def upd_conv_take_nth_drop)
qed

lemma put_well_formed:
  assumes "well_formed obj" "poke_body n k v obj = Inr obj'"
  shows "well_formed obj'"
  using assms
  by (auto simp: well_formed_def poke_body_def bind_result_eq_Inr poke_length split: sum.splits)

lemma slot_put_well_formed: "well_formed obj \<Longrightarrow> slot_put i v obj = Inr obj' \<Longrightarrow> well_formed obj'"
  unfolding slot_put_def slot_access_unit [of _ _ "poke_body _ _ _ _"]
  by (auto simp: bind_result_eq_Inr dest: put_well_formed)

lemma unat_minus_32: "m \<le> n \<Longrightarrow> unat (n - m) = unat n - unat m" for m n :: "32 word"
  by (simp add: unat_sub)

lemma unat_less_64: "unat (w :: oop) < 18446744073709551616"
  using unsigned_less [of w] by simp

lemma unat_times_4: "unat k < 1073741823 \<Longrightarrow> unat (k * 4 + 3) = unat k * 4 + 3" for k :: "32 word"
  by (simp add: unat_word_ariths)

lemma offset_assertions_facts:
  assumes "well_formed obj" "object_size obj = Inr n" "isBytes obj" "7 < n" "n < 0x40000000"
  shows "uint16offset 0xFFFFFFFF obj = Inl Undefined" "uint64offset 0xFFFFFFFF obj = Inl Undefined"
    "uint32offset 0x40000000 obj = Inl Undefined" "uint32offset (n - 4) obj = Inl AssertionFailed"
    "\<exists>v. uint64offset (n - 8) obj = Inr v" "\<exists>v. uint16offset (n - 2) obj = Inr v"
proof -
  have n: "7 < unat n" "unat n < 1073741824"
    using assms(4,5) by (simp_all add: word_less_nat_alt)
  have "length (body obj) = (unat n + 7) div 8 * 8"
    using assms by (auto elim!: well_formed_size simp: body_length_def)
  then have body: "unat n \<le> length (body obj)" "length (body obj) \<le> 1073741824"
    using n by simp_all
  show "uint16offset 0xFFFFFFFF obj = Inl Undefined" "uint64offset 0xFFFFFFFF obj = Inl Undefined"
    "uint32offset 0x40000000 obj = Inl Undefined"
    using assms body n by (simp_all add: uint16offset_def uint64offset_def uint32offset_def byte_access_def
        peek_bytes_def word_less_nat_alt)
  have "8 \<le> n" "4 \<le> n" "2 \<le> n" "1 \<le> n"
    using n by (simp_all add: word_le_nat_alt)
  then have minus: "unat (n - 8) = unat n - 8" "unat (n - 4) = unat n - 4" "unat (n - 2) = unat n - 2"
    "unat (n - 1) = unat n - 1"
    by (simp_all only: unat_minus_32) simp_all
  have "unat ((n - 4) * 4 + 3) = (unat n - 4) * 4 + 3"
    using unat_times_4 [of "n - 4"] n minus(2) by linarith
  then have "\<not> unat ((n - 4) * 4 + 3) < unat n"
    using n by linarith
  then show "uint32offset (n - 4) obj = Inl AssertionFailed"
    using assms n unfolding uint32offset_def byte_access_def word_less_nat_alt by simp
  have "n - 8 + 7 < n" "n - 2 + 1 < n"
    using n minus by (simp_all add: word_less_nat_alt unat_word_ariths)
  then show "\<exists>v. uint64offset (n - 8) obj = Inr v" "\<exists>v. uint16offset (n - 2) obj = Inr v"
    using assms body n minus by (simp_all add: uint64offset_def uint16offset_def byte_access_def peek_bytes_def)
qed

text \<open>
  C33: What the assertions of the wider accessors catch and what they miss, for an object of \<open>n\<close>
  bytes.  A subscript of -1, which the underprimitives pass on as 4294967295, wraps the sum that is
  compared with the size, so it reads outside the body; \<open>uint32offset\<close> multiplies a subscript that is
  already in bytes by four, so it rejects the last four bytes of every object and lets a subscript
  of \<open>2 ^ 30\<close> through.  The last 8 and the last 2 bytes are read as they should.
\<close>

theorem offset_assertions:
  assumes "well_formed obj" "object_size obj = Inr n" "isBytes obj" "7 < n" "n < 0x40000000"
  shows "uint16offset 0xFFFFFFFF obj = Inl Undefined \<and> uint64offset 0xFFFFFFFF obj = Inl Undefined \<and>
    uint32offset 0x40000000 obj = Inl Undefined \<and> uint32offset (n - 4) obj = Inl AssertionFailed \<and>
    (\<exists>v. uint64offset (n - 8) obj = Inr v) \<and> (\<exists>v. uint16offset (n - 2) obj = Inr v)"
  by (intro conjI offset_assertions_facts [OF assms])

section \<open>Copies of bytes\<close>

text \<open>
  \<open>replaceBytes\<close> on ranges inside both bodies: the bytes \<open>from\<close> to \<open>to\<close> become those of the source
  from \<open>startingAt\<close> on, the others and the header stay.
\<close>

lemma replaceBytes_copies:
  assumes objects: "m receiver = Some dst" "m anObject = Some src"
    and range: "1 \<le> unat from" "unat from \<le> unat to" "unat to \<le> length (body dst)"
    and start: "1 \<le> unat startingAt" "unat startingAt + (unat to - unat from) \<le> length (body src)"
    and overlap: "receiver = anObject \<Longrightarrow> unat from < unat startingAt \<or> unat startingAt + (unat to - unat from) < unat from"
  shows "\<exists>bs. replaceBytes receiver from to anObject startingAt m = Inr (m(receiver \<mapsto> dst\<lparr>body := bs\<rparr>)) \<and>
    length bs = length (body dst) \<and>
    (\<forall>i < length bs. bs ! i = (if unat from - 1 \<le> i \<and> i < unat to
       then body src ! (unat startingAt - 1 + (i - (unat from - 1))) else body dst ! i))"
proof -
  have le: "from \<le> to" "1 \<le> from" "1 \<le> startingAt"
    using range start by (simp_all add: word_le_nat_alt)
  have "unat (to - from) < unat to - unat from + 1"
    using le by (simp add: unat_sub)
  moreover note unat_less_64 [of to]
  ultimately have n: "unat (to - from + 1) = unat to - unat from + 1"
    using le range by (simp add: unat_word_ariths unat_sub)
  have d: "unat (from - 1) = unat from - 1" "unat (startingAt - 1) = unat startingAt - 1"
    using le by (simp_all add: unat_sub)
  define copied where "copied = take (unat to - unat from + 1) (drop (unat startingAt - 1) (body src))"
  define bs where "bs = take (unat from - 1) (body dst) @ copied @ drop (unat to) (body dst)"
  have copied: "length copied = unat to - (unat from - 1)"
    "\<And>i. i < unat to - (unat from - 1) \<Longrightarrow> copied ! i = body src ! (unat startingAt - 1 + i)"
    using range start by (simp_all add: copied_def)
  have "\<not> to < from"
    using le by simp
  moreover have "\<not> (receiver = anObject \<and> unat startingAt - 1 \<le> unat from - 1 \<and>
      unat from - 1 < unat startingAt - 1 + (unat to - unat from + 1))"
    using overlap start range by force
  moreover have "unat startingAt - 1 + (unat to - unat from + 1) \<le> length (body src)"
    using start by simp
  moreover have "unat from - 1 + (unat to - unat from + 1) = unat to"
    using range by simp
  ultimately have "replaceBytes receiver from to anObject startingAt m = Inr (m(receiver \<mapsto> dst\<lparr>body := bs\<rparr>))"
    using objects range by (simp add: replaceBytes_def Let_def object_at_def body_bytes_def n d bs_def copied_def)
  moreover have "length bs = length (body dst)"
    using range by (simp add: bs_def copied)
  moreover have "bs ! i = (if unat from - 1 \<le> i \<and> i < unat to
       then body src ! (unat startingAt - 1 + (i - (unat from - 1))) else body dst ! i)" if "i < length bs" for i
    using that range by (auto simp: bs_def nth_append copied)
  ultimately show ?thesis
    by blast
qed

section \<open>Allocated objects\<close>

lemma take_drop_concat_replicate:
  "i < n \<Longrightarrow> take (length xs) (drop (length xs * i) (concat (replicate n xs))) = xs"
proof (induction n arbitrary: i)
  case (Suc n)
  then show ?case
    by (cases i) (simp_all add: drop_append)
qed simp

lemma fresh_object_reads [simp]:
  "object_size (fresh_object n bs) = Inr n" "isBytes (fresh_object n bs) = False"
  "isNamed (fresh_object n bs) = False" "isArrayed (fresh_object n bs) = False"
  "isSpecial (fresh_object n bs) = False" "hasBeenSeen (fresh_object n bs) = False"
  "isSmall (fresh_object n bs) = small_request n" "body (fresh_object n bs) = bs"
proof -
  have small: "ucast (ucast n :: byte) = n" if "small_request n"
    using that unat_less_32 [of n]
    by (simp add: small_request_def MAX_SMALL_SIZE_def word_le_nat_alt unsigned_ucast_eq word_unat_eq_iff
        unsigned_take_bit_eq take_bit_nat_eq_self)
  show "object_size (fresh_object n bs) = Inr n" "isBytes (fresh_object n bs) = False"
    "isNamed (fresh_object n bs) = False" "isArrayed (fresh_object n bs) = False"
    "isSpecial (fresh_object n bs) = False" "hasBeenSeen (fresh_object n bs) = False"
    "isSmall (fresh_object n bs) = small_request n" "body (fresh_object n bs) = bs"
    using small by (auto simp: fresh_object_def Let_def object_size_def largeSize_def smallSize_put_def
        flag_reader_defs flag_writer_defs setFlags_def unsetFlags_def testFlags_def)
qed

lemma place_object_eq:
  assumes "unat totalSize < 2 ^ 32" "allocate (ucast totalSize) \<noteq> 0"
  shows "place_object allocate headerSize totalSize obj m =
    Inr (allocate (ucast totalSize) + headerSize, m(allocate (ucast totalSize) + headerSize \<mapsto> obj))"
proof -
  have "unat (ucast totalSize :: 32 word) = unat totalSize"
    using assms(1) by (simp add: unsigned_ucast_eq take_bit_nat_eq_self)
  then show ?thesis
    using assms(2) by (simp add: place_object_def Let_def)
qed

lemma unat_request:
  "unat (request_header n + ucast n * 8) = unat (request_header n) + 8 * unat n"
  using unat_less_32 [of n] by (simp add: request_header_def unat_word_ariths unat_ucast_64)

lemma place_object_short:
  assumes "2 ^ 32 \<le> unat totalSize"
  shows "place_object allocate headerSize totalSize obj m = Inl Undefined"
proof -
  have "unat (ucast totalSize :: 32 word) < unat totalSize"
    using assms unat_less_32 [of "ucast totalSize"] by simp
  then show ?thesis
    by (simp add: place_object_def Let_def)
qed

text \<open>The object \<open>allocateSlots_\<close> makes and the address it has.\<close>

definition nil_slots :: "oop \<Rightarrow> 32 word \<Rightarrow> heap_object" where
  "nil_slots nil n = fresh_object n (concat (replicate (unat n) (le_bytes 8 nil)))"

definition slots_address :: "(32 word \<Rightarrow> oop) \<Rightarrow> 32 word \<Rightarrow> oop" where
  "slots_address allocate n = allocate (ucast (request_header n + ucast n * 8)) + request_header n"

definition slots_fit :: "(32 word \<Rightarrow> oop) \<Rightarrow> 32 word \<Rightarrow> bool" where
  "slots_fit allocate n \<longleftrightarrow>
     unat (request_header n) + 8 * unat n < 2 ^ 32 \<and> allocate (ucast (request_header n + ucast n * 8)) \<noteq> 0"

lemma nil_slots_reads [simp]:
  "object_size (nil_slots nil n) = Inr n" "isBytes (nil_slots nil n) = False" "isPointers (nil_slots nil n)"
  "isNamed (nil_slots nil n) = False" "isArrayed (nil_slots nil n) = False" "isSpecial (nil_slots nil n) = False"
  "isSmall (nil_slots nil n) \<longleftrightarrow> n \<le> 255" "well_formed (nil_slots nil n)" "length (body (nil_slots nil n)) = 8 * unat n"
  by (simp_all add: nil_slots_def isPointers_def small_request_def MAX_SMALL_SIZE_def well_formed_def body_length_def
      length_concat sum_list_replicate)

lemma nil_slots_slot:
  assumes "i < n"
  shows "slot i (nil_slots nil n) = Inr nil"
proof -
  have i: "unat i < unat n"
    using assms by (simp add: word_less_nat_alt)
  have "take 8 (drop (8 * unat i) (body (nil_slots nil n))) = le_bytes 8 nil"
    using take_drop_concat_replicate [OF i, of "le_bytes 8 nil"] by (simp add: nil_slots_def)
  moreover have "word_of_nat (le_value (le_bytes 8 nil)) = nil"
    using unat_less_64 [of nil] by (simp add: le_value_le_bytes)
  ultimately show ?thesis
    using assms i by (simp add: slot_def slot_access_def peek_bytes_def)
qed

lemma allocateSlots_fits:
  "slots_fit allocate n \<Longrightarrow>
   allocateSlots allocate nil n m = Inr (slots_address allocate n, m(slots_address allocate n \<mapsto> nil_slots nil n))"
  unfolding allocateSlots_def slots_address_def nil_slots_def slots_fit_def
  by (rule place_object_eq) (simp_all add: unat_request)

text \<open>
  C34: \<open>allocateSlots_\<close> answers a new well-formed object of pointers, of the size asked for and all
  its slots nil, with a small header exactly up to 255 slots, and changes no other object; if
  header and body reach 4 GB the request is truncated to 32 bits and filling the slots overruns the
  buffer.
\<close>

theorem allocated_slots:
  assumes "allocate (ucast (request_header n + ucast n * 8)) \<noteq> 0"
  shows "if unat (request_header n) + 8 * unat n < 2 ^ 32
    then \<exists>p obj. allocateSlots allocate nil n m = Inr (p, m(p \<mapsto> obj)) \<and>
      p = allocate (ucast (request_header n + ucast n * 8)) + request_header n \<and>
      well_formed obj \<and> isPointers obj \<and> object_size obj = Inr n \<and> (isSmall obj \<longleftrightarrow> n \<le> 255) \<and>
      (\<forall>i < n. slot i obj = Inr nil)
    else allocateSlots allocate nil n m = Inl Undefined"
proof (cases "unat (request_header n) + 8 * unat n < 2 ^ 32")
  case True
  then have "slots_fit allocate n"
    using assms by (simp add: slots_fit_def)
  then show ?thesis
    using True allocateSlots_fits [of allocate n nil m] nil_slots_slot [of _ n nil]
    by (simp, intro exI [of _ "nil_slots nil n"]) (simp add: slots_address_def)
next
  case False
  then show ?thesis
    by (simp add: allocateSlots_def place_object_short unat_request)
qed

definition eight_bytes :: heap_object where
  "eight_bytes = beBytes (fresh_object 8 [1, 2, 3, 4, 5, 6, 7, 8])"

theorem offset_assertions_witness:
  "uint32offset 4 eight_bytes = Inl AssertionFailed \<and> uint16offset 0xFFFFFFFF eight_bytes = Inl Undefined"
proof -
  have "well_formed eight_bytes" "object_size eight_bytes = Inr 8" "isBytes eight_bytes"
    by (simp_all add: eight_bytes_def well_formed_def body_length_def object_size_def flag_reader_defs flag_writer_defs
        testFlags_def setFlags_def fresh_object_def Let_def small_request_def MAX_SMALL_SIZE_def smallSize_put_def)
  then show ?thesis
    using offset_assertions [of eight_bytes 8] by simp
qed

theorem allocated_slots_witness:
  "\<exists>p obj. allocateSlots (\<lambda>_. 0x1000) 0x20 2 Map.empty = Inr (p, [p \<mapsto> obj]) \<and> p = 0x1008 \<and> slot 1 obj = Inr 0x20"
  using allocated_slots [of "\<lambda>_. 0x1000" 2 "0x20" Map.empty]
  by (auto simp: request_header_def small_request_def MAX_SMALL_SIZE_def)

end
