(* ===== verification/RuntimeObjects.thy ===== *)
theory RuntimeObjects
  imports ObjectAccess Underprimitives CompiledMethod
begin

text \<open>
  The runtime's view of the objects (\<open>Runtime.h\<close>, \<open>Runtime.cpp\<close>, \<open>KnownConstants.h\<close>): the offsets of
  the fields the virtual machine knows and their accessors, species and behaviors, identity hashes
  and the creation of objects.
\<close>

section \<open>Fields\<close>

definition AssociationKey :: "32 word" where "AssociationKey = 0"
definition AssociationValue :: "32 word" where "AssociationValue = 1"
definition BehaviorClass :: "32 word" where "BehaviorClass = 0"
definition BehaviorMethodDictionary :: "32 word" where "BehaviorMethodDictionary = 1"
definition BehaviorNext :: "32 word" where "BehaviorNext = 2"
definition BlockMethod :: "32 word" where "BlockMethod = 2"
definition ClosureBlock :: "32 word" where "ClosureBlock = 0"
definition ClosureHome :: "32 word" where "ClosureHome = 1"
definition DictionaryTable :: "32 word" where "DictionaryTable = 1"
definition MethodFormat :: "32 word" where "MethodFormat = 0"
definition CompiledCodeExecutableCode :: "32 word" where "CompiledCodeExecutableCode = 1"
definition MethodTreecodes :: "32 word" where "MethodTreecodes = 2"
definition MethodClassBinding :: "32 word" where "MethodClassBinding = 3"
definition MethodSelector :: "32 word" where "MethodSelector = 4"
definition MethodInstSize :: "32 word" where "MethodInstSize = 6"
definition FFIMethodDescriptor :: "32 word" where "FFIMethodDescriptor = 6"
definition FFIMethodSymbol :: "32 word" where "FFIMethodSymbol = 7"
definition FFIMethodAddress :: "32 word" where "FFIMethodAddress = 8"
definition ModuleName :: "32 word" where "ModuleName = 0"
definition ModuleNamespace :: "32 word" where "ModuleNamespace = 3"
definition SpeciesSuperclass :: "32 word" where "SpeciesSuperclass = 0"
definition SpeciesInstanceBehavior :: "32 word" where "SpeciesInstanceBehavior = 1"
definition SpeciesFormat :: "32 word" where "SpeciesFormat = 2"
definition SpeciesInstanceVariables :: "32 word" where "SpeciesInstanceVariables = 4"
definition ClassName :: "32 word" where "ClassName = 5"
definition ClassNamespaces :: "32 word" where "ClassNamespaces = 7"
definition ClassModule :: "32 word" where "ClassModule = 8"
definition MetaclassClass :: "32 word" where "MetaclassClass = 5"
definition ExecutableCodePlatformCode :: "32 word" where "ExecutableCodePlatformCode = 0"
definition ExecutableCodeCompiledCode :: "32 word" where "ExecutableCodeCompiledCode = 1"
definition ProcessNativeStack :: "32 word" where "ProcessNativeStack = 1"
definition ProcessTopContext :: "32 word" where "ProcessTopContext = 2"
definition ProcessStackProcess :: "32 word" where "ProcessStackProcess = 0"
definition ProcessStackSP :: "32 word" where "ProcessStackSP = 1"
definition ProcessStackBP :: "32 word" where "ProcessStackBP = 2"
definition ProcessStackEnv :: "32 word" where "ProcessStackEnv = 3"
definition ProcessVMStackBuffer :: "32 word" where "ProcessVMStackBuffer = 4"
definition ProcessVMStackBufferSize :: "32 word" where "ProcessVMStackBufferSize = 5"

lemmas offset_defs = AssociationKey_def AssociationValue_def BehaviorClass_def BehaviorMethodDictionary_def BehaviorNext_def BlockMethod_def ClosureBlock_def ClosureHome_def DictionaryTable_def MethodFormat_def
  CompiledCodeExecutableCode_def MethodTreecodes_def MethodClassBinding_def MethodSelector_def MethodInstSize_def FFIMethodDescriptor_def FFIMethodSymbol_def FFIMethodAddress_def
  ModuleName_def ModuleNamespace_def SpeciesSuperclass_def SpeciesInstanceBehavior_def SpeciesFormat_def SpeciesInstanceVariables_def
  ClassName_def ClassNamespaces_def ClassModule_def MetaclassClass_def ExecutableCodePlatformCode_def ExecutableCodeCompiledCode_def
  ProcessNativeStack_def ProcessTopContext_def ProcessStackProcess_def ProcessStackSP_def ProcessStackBP_def ProcessStackEnv_def ProcessVMStackBuffer_def ProcessVMStackBufferSize_def

definition associationKey :: "oop \<Rightarrow> memory \<Rightarrow> oop result" where
  "associationKey p = memory_slot (p, AssociationKey)"
definition associationValue :: "oop \<Rightarrow> memory \<Rightarrow> oop result" where
  "associationValue p = memory_slot (p, AssociationValue)"
definition behaviorClass :: "oop \<Rightarrow> memory \<Rightarrow> oop result" where
  "behaviorClass p = memory_slot (p, BehaviorClass)"
definition behaviorNext :: "oop \<Rightarrow> memory \<Rightarrow> oop result" where
  "behaviorNext p = memory_slot (p, BehaviorNext)"
definition behaviorMethodDictionary :: "oop \<Rightarrow> memory \<Rightarrow> oop result" where
  "behaviorMethodDictionary p = memory_slot (p, BehaviorMethodDictionary)"
definition blockMethod :: "oop \<Rightarrow> memory \<Rightarrow> oop result" where
  "blockMethod p = memory_slot (p, BlockMethod)"
definition closureBlock :: "oop \<Rightarrow> memory \<Rightarrow> oop result" where
  "closureBlock p = memory_slot (p, ClosureBlock)"
definition closureHome :: "oop \<Rightarrow> memory \<Rightarrow> oop result" where
  "closureHome p = memory_slot (p, ClosureHome)"
definition compiledCodeExecutableCode :: "oop \<Rightarrow> memory \<Rightarrow> oop result" where
  "compiledCodeExecutableCode p = memory_slot (p, CompiledCodeExecutableCode)"
definition methodExecutableCode :: "oop \<Rightarrow> memory \<Rightarrow> oop result" where
  "methodExecutableCode p = memory_slot (p, CompiledCodeExecutableCode)"
definition executableCodePlatformCode :: "oop \<Rightarrow> memory \<Rightarrow> oop result" where
  "executableCodePlatformCode p = memory_slot (p, ExecutableCodePlatformCode)"
definition executableCodeCompiledCode :: "oop \<Rightarrow> memory \<Rightarrow> oop result" where
  "executableCodeCompiledCode p = memory_slot (p, ExecutableCodeCompiledCode)"
definition dictionaryTable :: "oop \<Rightarrow> memory \<Rightarrow> oop result" where
  "dictionaryTable p = memory_slot (p, DictionaryTable)"
definition methodTreecodes :: "oop \<Rightarrow> memory \<Rightarrow> oop result" where
  "methodTreecodes p = memory_slot (p, MethodTreecodes)"
definition methodClassBinding :: "oop \<Rightarrow> memory \<Rightarrow> oop result" where
  "methodClassBinding p = memory_slot (p, MethodClassBinding)"
definition methodSelector :: "oop \<Rightarrow> memory \<Rightarrow> oop result" where
  "methodSelector p = memory_slot (p, MethodSelector)"
definition ffiMethodAddress :: "oop \<Rightarrow> memory \<Rightarrow> oop result" where
  "ffiMethodAddress p = memory_slot (p, FFIMethodAddress)"
definition ffiMethodDescriptor :: "oop \<Rightarrow> memory \<Rightarrow> oop result" where
  "ffiMethodDescriptor p = memory_slot (p, FFIMethodDescriptor)"
definition ffiMethodSymbol :: "oop \<Rightarrow> memory \<Rightarrow> oop result" where
  "ffiMethodSymbol p = memory_slot (p, FFIMethodSymbol)"
definition moduleNamespace :: "oop \<Rightarrow> memory \<Rightarrow> oop result" where
  "moduleNamespace p = memory_slot (p, ModuleNamespace)"
definition moduleName :: "oop \<Rightarrow> memory \<Rightarrow> oop result" where
  "moduleName p = memory_slot (p, ModuleName)"
definition classModule :: "oop \<Rightarrow> memory \<Rightarrow> oop result" where
  "classModule p = memory_slot (p, ClassModule)"
definition className :: "oop \<Rightarrow> memory \<Rightarrow> oop result" where
  "className p = memory_slot (p, ClassName)"
definition classNamespaces :: "oop \<Rightarrow> memory \<Rightarrow> oop result" where
  "classNamespaces p = memory_slot (p, ClassNamespaces)"
definition metaclassInstanceClass :: "oop \<Rightarrow> memory \<Rightarrow> oop result" where
  "metaclassInstanceClass p = memory_slot (p, MetaclassClass)"
definition speciesInstanceVariables :: "oop \<Rightarrow> memory \<Rightarrow> oop result" where
  "speciesInstanceVariables p = memory_slot (p, SpeciesInstanceVariables)"
definition speciesInstanceBehavior :: "oop \<Rightarrow> memory \<Rightarrow> oop result" where
  "speciesInstanceBehavior p = memory_slot (p, SpeciesInstanceBehavior)"
definition speciesSuperclass :: "oop \<Rightarrow> memory \<Rightarrow> oop result" where
  "speciesSuperclass p = memory_slot (p, SpeciesSuperclass)"
definition speciesFormat :: "oop \<Rightarrow> memory \<Rightarrow> oop result" where
  "speciesFormat p = memory_slot (p, SpeciesFormat)"
definition processStack :: "oop \<Rightarrow> memory \<Rightarrow> oop result" where
  "processStack p = memory_slot (p, ProcessNativeStack)"
definition processStackProcess :: "oop \<Rightarrow> memory \<Rightarrow> oop result" where
  "processStackProcess p = memory_slot (p, ProcessStackProcess)"
definition processStackEnv :: "oop \<Rightarrow> memory \<Rightarrow> oop result" where
  "processStackEnv p = memory_slot (p, ProcessStackEnv)"

definition associationKey_put :: "oop \<Rightarrow> oop \<Rightarrow> memory \<Rightarrow> memory result" where
  "associationKey_put p = memory_slot_put (p, AssociationKey)"
definition associationValue_put :: "oop \<Rightarrow> oop \<Rightarrow> memory \<Rightarrow> memory result" where
  "associationValue_put p = memory_slot_put (p, AssociationValue)"
definition closureHome_put :: "oop \<Rightarrow> oop \<Rightarrow> memory \<Rightarrow> memory result" where
  "closureHome_put p = memory_slot_put (p, ClosureHome)"
definition methodExecutableCode_put :: "oop \<Rightarrow> oop \<Rightarrow> memory \<Rightarrow> memory result" where
  "methodExecutableCode_put p = memory_slot_put (p, CompiledCodeExecutableCode)"
definition executableCodeCompiledCode_put :: "oop \<Rightarrow> oop \<Rightarrow> memory \<Rightarrow> memory result" where
  "executableCodeCompiledCode_put p = memory_slot_put (p, ExecutableCodeCompiledCode)"
definition ffiMethodAddress_put :: "oop \<Rightarrow> oop \<Rightarrow> memory \<Rightarrow> memory result" where
  "ffiMethodAddress_put p = memory_slot_put (p, FFIMethodAddress)"
definition processStackProcess_put :: "oop \<Rightarrow> oop \<Rightarrow> memory \<Rightarrow> memory result" where
  "processStackProcess_put p = memory_slot_put (p, ProcessStackProcess)"
definition processStackEnv_put :: "oop \<Rightarrow> oop \<Rightarrow> memory \<Rightarrow> memory result" where
  "processStackEnv_put p = memory_slot_put (p, ProcessStackEnv)"

text \<open>Fields that hold a small integer are untagged on the way out and tagged on the way in.\<close>

definition integer_slot :: "oop \<times> 32 word \<Rightarrow> memory \<Rightarrow> int result" where
  "integer_slot x m = bind_result (memory_slot x m) asNative"

definition integer_slot_put :: "oop \<times> 32 word \<Rightarrow> int \<Rightarrow> memory \<Rightarrow> memory result" where
  "integer_slot_put x n m = bind_result (smi_from n) (\<lambda>v. memory_slot_put x v m)"

definition processStackIsValid :: "oop \<Rightarrow> oop \<Rightarrow> memory \<Rightarrow> bool result" where
  "processStackIsValid nil p m = bind_result (memory_slot (p, ProcessTopContext) m) (\<lambda>c. Inr (c \<noteq> nil))"
definition processStackSP :: "oop \<Rightarrow> memory \<Rightarrow> int result" where
  "processStackSP p = integer_slot (p, ProcessStackSP)"
definition processStackSP_put :: "oop \<Rightarrow> int \<Rightarrow> memory \<Rightarrow> memory result" where
  "processStackSP_put p = integer_slot_put (p, ProcessStackSP)"
definition processStackBP :: "oop \<Rightarrow> memory \<Rightarrow> int result" where
  "processStackBP p = integer_slot (p, ProcessStackBP)"
definition processStackBP_put :: "oop \<Rightarrow> int \<Rightarrow> memory \<Rightarrow> memory result" where
  "processStackBP_put p = integer_slot_put (p, ProcessStackBP)"

text \<open>The buffer of a process stack is an address kept as a small integer; nil stands for none.\<close>

definition processVMStackBuffer :: "oop \<Rightarrow> oop \<Rightarrow> memory \<Rightarrow> int result" where
  "processVMStackBuffer nil p m = bind_result (memory_slot (p, ProcessVMStackBuffer) m) (\<lambda>smi.
     if smi = nil then Inr 0 else asNative smi)"
definition processVMStackBuffer_put :: "oop \<Rightarrow> int \<Rightarrow> memory \<Rightarrow> memory result" where
  "processVMStackBuffer_put p = integer_slot_put (p, ProcessVMStackBuffer)"
definition processVMStackBufferSize :: "oop \<Rightarrow> memory \<Rightarrow> int result" where
  "processVMStackBufferSize p = integer_slot (p, ProcessVMStackBufferSize)"
definition processVMStackBufferSize_put :: "oop \<Rightarrow> int \<Rightarrow> memory \<Rightarrow> memory result" where
  "processVMStackBufferSize_put p = integer_slot_put (p, ProcessVMStackBufferSize)"

section \<open>Species and behaviors\<close>

text \<open>The kernel objects the runtime looks up by name when it starts.\<close>

record known_objects =
  nilObj :: oop
  trueObj :: oop
  falseObj :: oop
  arrayClass :: oop
  metaclassClass :: oop
  methodClass :: oop
  ffiMethodClass :: oop
  floatClass :: oop
  blockClass :: oop
  stringClass :: oop
  closureClass :: oop
  closureInstSize :: int
  openHashTableClass :: oop
  ephemeronClass :: oop
  processStackClass :: oop
  smallIntegerBehavior :: oop

definition booleanFor :: "known_objects \<Rightarrow> bool \<Rightarrow> oop" where
  "booleanFor k b = (if b then trueObj k else falseObj k)"

definition behaviorOf :: "known_objects \<Rightarrow> oop \<Rightarrow> memory \<Rightarrow> oop result" where
  "behaviorOf k p m =
     (if isSmallInteger p then Inr (smallIntegerBehavior k)
      else bind_result (object_at m p) (\<lambda>obj. Inr (behavior obj)))"

definition speciesOf :: "known_objects \<Rightarrow> oop \<Rightarrow> memory \<Rightarrow> oop result" where
  "speciesOf k p m = bind_result (behaviorOf k p m) (\<lambda>b. behaviorClass b m)"

text \<open>\<open>speciesInstanceSize_\<close> answers a \<open>uint8_t\<close>.\<close>

definition speciesInstanceSize :: "oop \<Rightarrow> memory \<Rightarrow> int result" where
  "speciesInstanceSize species m = bind_result (speciesFormat species m) (\<lambda>f.
     bind_result (asNative f) (\<lambda>n. Inr (n AND 0x7F)))"

definition speciesIsBytes :: "oop \<Rightarrow> memory \<Rightarrow> bool result" where
  "speciesIsBytes species m = bind_result (speciesFormat species m) (\<lambda>f.
     bind_result (asNative f) (\<lambda>n. Inr (n AND 0x4000 = 0)))"

definition speciesIsMetaclass :: "known_objects \<Rightarrow> oop \<Rightarrow> memory \<Rightarrow> bool result" where
  "speciesIsMetaclass k species m = bind_result (speciesOf k species m) (\<lambda>c. Inr (c = metaclassClass k))"

definition speciesInstanceClass :: "known_objects \<Rightarrow> oop \<Rightarrow> memory \<Rightarrow> oop result" where
  "speciesInstanceClass k species m = bind_result (speciesIsMetaclass k species m) (\<lambda>b.
     if b then metaclassInstanceClass species m else Inr species)"

definition speciesModule :: "known_objects \<Rightarrow> oop \<Rightarrow> memory \<Rightarrow> oop result" where
  "speciesModule k species m = bind_result (speciesInstanceClass k species m) (\<lambda>c. classModule c m)"

definition speciesNamespaces :: "known_objects \<Rightarrow> oop \<Rightarrow> memory \<Rightarrow> oop result" where
  "speciesNamespaces k species m = bind_result (speciesInstanceClass k species m) (\<lambda>c. classNamespaces c m)"

definition superBehaviorOf :: "oop \<Rightarrow> memory \<Rightarrow> oop result" where
  "superBehaviorOf species m = bind_result (speciesSuperclass species m) (\<lambda>c. speciesInstanceBehavior c m)"

definition local_name :: "oop \<Rightarrow> memory \<Rightarrow> byte list result" where
  "local_name class m = bind_result (className class m) (\<lambda>s. bind_result (object_at m s) asLocalString)"

definition speciesLocalName :: "known_objects \<Rightarrow> oop \<Rightarrow> memory \<Rightarrow> byte list result" where
  "speciesLocalName k species m = bind_result (speciesIsMetaclass k species m) (\<lambda>b.
     if \<not> b then local_name species m
     else bind_result (metaclassInstanceClass species m) (\<lambda>class.
       bind_result (local_name class m) (\<lambda>s. Inr (s @ map of_char '' class''))))"

text \<open>\<open>size() - ivars\<close> is computed with 32 bits, without a sign.\<close>

definition arrayedSizeOf :: "known_objects \<Rightarrow> oop \<Rightarrow> memory \<Rightarrow> int result" where
  "arrayedSizeOf k p m =
     (if isSmallInteger p then Inr 0
      else bind_result (speciesOf k p m) (\<lambda>species.
        bind_result (speciesInstanceSize species m) (\<lambda>ivars.
          bind_result (object_at m p) (\<lambda>obj. bind_result (object_size obj) (\<lambda>n.
            Inr (uint (n - word_of_int ivars)))))))"

section \<open>Compiled code\<close>

definition isBlock :: "known_objects \<Rightarrow> oop \<Rightarrow> memory \<Rightarrow> bool result" where
  "isBlock k code m = bind_result (object_at m code) (\<lambda>obj.
     bind_result (behaviorClass (behavior obj) m) (\<lambda>c. Inr (c = blockClass k)))"

definition format_field :: "(oop \<Rightarrow> 'a result) \<Rightarrow> oop \<Rightarrow> memory \<Rightarrow> 'a result" where
  "format_field read code m = bind_result (memory_slot (code, MethodFormat) m) read"

definition argumentCountOf :: "known_objects \<Rightarrow> oop \<Rightarrow> memory \<Rightarrow> int result" where
  "argumentCountOf k code m = bind_result (isBlock k code m) (\<lambda>b.
     if b then format_field blockArgumentCount code m else format_field methodArgumentCount code m)"

definition temporaryCountOf :: "known_objects \<Rightarrow> oop \<Rightarrow> memory \<Rightarrow> int result" where
  "temporaryCountOf k code m = bind_result (isBlock k code m) (\<lambda>b.
     if b then format_field blockTempCount code m else format_field methodTempCount code m)"

definition methodExtensionModule :: "oop \<Rightarrow> memory \<Rightarrow> oop result" where
  "methodExtensionModule method m = bind_result (object_at m method) (\<lambda>obj.
     bind_result (object_size obj) (\<lambda>n. bind_result (slotAt n obj) (\<lambda>association. associationValue association m)))"

definition methodModule :: "known_objects \<Rightarrow> oop \<Rightarrow> memory \<Rightarrow> oop result" where
  "methodModule k method m = bind_result (format_field methodIsExtension method m) (\<lambda>b.
     if b then methodExtensionModule method m
     else bind_result (methodClassBinding method m) (\<lambda>species. speciesModule k species m))"

definition methodIsFFI :: "known_objects \<Rightarrow> oop \<Rightarrow> memory \<Rightarrow> bool result" where
  "methodIsFFI k method m = bind_result (speciesOf k method m) (\<lambda>c. Inr (c = ffiMethodClass k))"

text \<open>The literals follow the named fields of the method; positions count from 1.\<close>

definition method_literalAt :: "oop \<Rightarrow> int \<Rightarrow> memory \<Rightarrow> oop result" where
  "method_literalAt method i = memory_slot (method, word_of_int (uint MethodInstSize + i - 1))"

section \<open>Indexed variables\<close>

text \<open>
  Positions are \<open>int\<close>; a sum outside the 32-bit range is undefined.  \<open>slotAt_\<close> takes a \<open>uint32_t\<close>,
  so a negative position becomes a large one.
\<close>

definition c_int :: "int \<Rightarrow> int result" where
  "c_int i = (if - (2 ^ 31) \<le> i \<and> i < 2 ^ 31 then Inr i else Inl Undefined)"

definition slot_position :: "oop \<Rightarrow> int \<Rightarrow> oop \<times> 32 word" where
  "slot_position p i = (p, word_of_int i - 1)"

definition instanceVarOf_at :: "oop \<Rightarrow> int \<Rightarrow> memory \<Rightarrow> oop result" where
  "instanceVarOf_at p i = memory_slot (slot_position p i)"

definition instanceVarOf_at_put :: "oop \<Rightarrow> int \<Rightarrow> oop \<Rightarrow> memory \<Rightarrow> memory result" where
  "instanceVarOf_at_put p i = memory_slot_put (slot_position p i)"

definition closureIndexedSlot :: "known_objects \<Rightarrow> oop \<Rightarrow> int \<Rightarrow> (oop \<times> 32 word) result" where
  "closureIndexedSlot k closure i = bind_result (c_int (closureInstSize k + i)) (\<lambda>j. Inr (slot_position closure j))"

definition environmentIndexedSlot :: "known_objects \<Rightarrow> oop \<Rightarrow> int \<Rightarrow> memory \<Rightarrow> (oop \<times> 32 word) result" where
  "environmentIndexedSlot k p i m = bind_result (object_at m p) (\<lambda>obj.
     if isNamed obj then closureIndexedSlot k p i else Inr (slot_position p i))"

definition indexedSlot :: "known_objects \<Rightarrow> oop \<Rightarrow> int \<Rightarrow> memory \<Rightarrow> (oop \<times> 32 word) result" where
  "indexedSlot k p i m = bind_result (object_at m p) (\<lambda>obj.
     if isNamed obj
     then bind_result (speciesOf k p m) (\<lambda>species. bind_result (speciesInstanceSize species m) (\<lambda>n.
       bind_result (c_int (i + n)) (\<lambda>j. Inr (slot_position p j))))
     else Inr (slot_position p i))"

section \<open>Identity hashes\<close>

text \<open>The objects, and the last hash the runtime gave out.\<close>

record object_space =
  objects :: memory
  lastHash :: "16 word"

definition hashFor :: "oop \<Rightarrow> object_space \<Rightarrow> (int \<times> object_space) result" where
  "hashFor p s =
     (if isSmallInteger p then bind_result (asNative p) (\<lambda>n. Inr (n, s))
      else bind_result (object_at (objects s) p) (\<lambda>obj.
        if header_hash obj \<noteq> 0 then Inr (uint (header_hash obj), s)
        else let h = nextHash (lastHash s) in
          Inr (uint h, s\<lparr>objects := (objects s)(p \<mapsto> hash_put h obj), lastHash := h\<rparr>)))"

section \<open>Creation of objects\<close>

text \<open>
  \<open>allocate\<close> stands for \<open>GCHeap::allocate_\<close>.  The stack slot that protects the behavior while the
  collector may run is pushed and popped again, and is left out.
\<close>

type_synonym allocator = "32 word \<Rightarrow> oop"

definition change_object :: "oop \<Rightarrow> (heap_object \<Rightarrow> heap_object result) \<Rightarrow> memory \<Rightarrow> memory result" where
  "change_object p f m = bind_result (object_at m p) (\<lambda>obj. bind_result (f obj) (\<lambda>obj'. Inr (m(p \<mapsto> obj'))))"

definition newBytes :: "allocator \<Rightarrow> oop \<Rightarrow> 32 word \<Rightarrow> memory \<Rightarrow> (oop \<times> memory) result" where
  "newBytes allocate species n m = bind_result (speciesInstanceBehavior species m) (\<lambda>b.
     bind_result (allocateBytes allocate n m) (\<lambda>(p, m).
       bind_result (change_object p (behavior_put b) m) (\<lambda>m. Inr (p, m))))"

definition newSlots :: "known_objects \<Rightarrow> allocator \<Rightarrow> oop \<Rightarrow> 32 word \<Rightarrow> memory \<Rightarrow> (oop \<times> memory) result" where
  "newSlots k allocate species n m = bind_result (speciesInstanceSize species m) (\<lambda>ivars.
     bind_result (speciesInstanceBehavior species m) (\<lambda>b.
       bind_result (allocateSlots allocate (nilObj k) (word_of_int ivars + n) m) (\<lambda>(p, m).
         bind_result (change_object p (behavior_put b) m) (\<lambda>m.
           bind_result (change_object p (\<lambda>obj. Inr ((if ivars > 0 then beNamed else id) ((if n > 0 then beArrayed else id) obj))) m)
             (\<lambda>m. Inr (p, m))))))"

definition newSlotsOf :: "known_objects \<Rightarrow> allocator \<Rightarrow> oop \<Rightarrow> memory \<Rightarrow> (oop \<times> memory) result" where
  "newSlotsOf k allocate species = newSlots k allocate species 0"

definition newOf_sized :: "known_objects \<Rightarrow> allocator \<Rightarrow> oop \<Rightarrow> 32 word \<Rightarrow> memory \<Rightarrow> (oop \<times> memory) result" where
  "newOf_sized k allocate species n m = bind_result (speciesIsBytes species m) (\<lambda>b.
     if b then newBytes allocate species n m else newSlots k allocate species n m)"

definition newArraySized :: "known_objects \<Rightarrow> allocator \<Rightarrow> 32 word \<Rightarrow> memory \<Rightarrow> (oop \<times> memory) result" where
  "newArraySized k allocate n m = bind_result (speciesInstanceBehavior (arrayClass k) m) (\<lambda>b.
     bind_result (allocateSlots allocate (nilObj k) n m) (\<lambda>(p, m).
       bind_result (change_object p (behavior_put b) m) (\<lambda>m.
         bind_result (change_object p (\<lambda>obj. Inr (beArrayed obj)) m) (\<lambda>m. Inr (p, m)))))"

definition newArray :: "known_objects \<Rightarrow> allocator \<Rightarrow> oop list \<Rightarrow> memory \<Rightarrow> (oop \<times> memory) result" where
  "newArray k allocate elems m = bind_result (newArraySized k allocate (word_of_nat (length elems)) m) (\<lambda>(p, m).
     bind_result (store_all memory_slot_put (zip (map (\<lambda>i. (p, word_of_nat i)) [0..<length elems]) elems) m)
       (\<lambda>m. Inr (p, m)))"

definition newEnvironmentSized :: "known_objects \<Rightarrow> allocator \<Rightarrow> 32 word \<Rightarrow> memory \<Rightarrow> (oop \<times> memory) result" where
  "newEnvironmentSized = newArraySized"

definition newClosureFor :: "known_objects \<Rightarrow> allocator \<Rightarrow> oop \<Rightarrow> memory \<Rightarrow> (oop \<times> memory) result" where
  "newClosureFor k allocate block m = bind_result (format_field blockEnvironmentCount block m) (\<lambda>n.
     bind_result (newSlots k allocate (closureClass k) (word_of_int n) m) (\<lambda>(p, m).
       bind_result (memory_slot_put (p, ClosureBlock) block m) (\<lambda>m. Inr (p, m))))"

definition newCompiledMethod :: "known_objects \<Rightarrow> allocator \<Rightarrow> memory \<Rightarrow> (oop \<times> memory) result" where
  "newCompiledMethod k allocate m = bind_result (newSlots k allocate (methodClass k) 0 m) (\<lambda>(p, m).
     bind_result (integer_slot_put (p, MethodFormat) 0 m) (\<lambda>m. Inr (p, m)))"

definition newExecutableCodeFor :: "known_objects \<Rightarrow> allocator \<Rightarrow> oop \<Rightarrow> oop \<Rightarrow> memory \<Rightarrow> (oop \<times> memory) result" where
  "newExecutableCodeFor k allocate compiledCode platformCode m =
     bind_result (newSlots k allocate (arrayClass k) 2 m) (\<lambda>(p, m).
       bind_result (smallpointerFrom platformCode) (\<lambda>smi.
         bind_result (memory_slot_put (p, ExecutableCodePlatformCode) smi m) (\<lambda>m.
           bind_result (executableCodeCompiledCode_put p compiledCode m) (\<lambda>m. Inr (p, m)))))"

definition executableCodeWork :: "oop \<Rightarrow> memory \<Rightarrow> oop result" where
  "executableCodeWork code m = bind_result (executableCodePlatformCode code m) (\<lambda>slot. Inr (asObject slot))"

text \<open>A new String holds the characters and a zero byte after them.\<close>

definition copy_into :: "byte list \<Rightarrow> heap_object \<Rightarrow> heap_object result" where
  "copy_into bs obj = (if length bs \<le> length (body obj)
     then Inr (obj\<lparr>body := bs @ drop (length bs) (body obj)\<rparr>) else Inl Undefined)"

definition newString :: "known_objects \<Rightarrow> allocator \<Rightarrow> byte list \<Rightarrow> memory \<Rightarrow> (oop \<times> memory) result" where
  "newString k allocate str m =
     bind_result (newBytes allocate (stringClass k) (word_of_nat (length str + 1)) m) (\<lambda>(p, m).
       bind_result (change_object p (copy_into str) m) (\<lambda>m. Inr (p, m)))"

definition newDouble :: "known_objects \<Rightarrow> allocator \<Rightarrow> double \<Rightarrow> memory \<Rightarrow> (oop \<times> memory) result" where
  "newDouble k allocate v m = bind_result (newBytes allocate (floatClass k) 8 m) (\<lambda>(p, m).
     bind_result (change_object p (poke_body 8 0 v) m) (\<lambda>m. Inr (p, m)))"

section \<open>Hashes\<close>

lemma nextHash_nonzero: "h \<noteq> 0 \<Longrightarrow> nextHash h \<noteq> 0"
  using nextHash_inject [of h 0] by (simp add: nextHash_zero)

lemma hash_assigned_once_facts:
  assumes "hashFor p s = Inr (h, s')" "lastHash s \<noteq> 0"
  shows "hashFor p s' = Inr (h, s')" "lastHash s' \<noteq> 0" "isSmallInteger p \<or> 0 < h \<and> h < 65536"
    "objects s' = objects s \<or>
      (\<exists>obj. objects s p = Some obj \<and> objects s' = (objects s)(p \<mapsto> hash_put (word_of_int h) obj))"
proof -
  have small: "uint w < 65536" for w :: "16 word"
    using unsigned_less [of w] by simp
  have positive: "w \<noteq> 0 \<Longrightarrow> 0 < uint w" for w :: "16 word"
    using unsigned_eq_0_iff [of w] unsigned_greater_eq [of w] by (simp add: order_less_le)
  consider n where "isSmallInteger p" "h = n" "asNative p = Inr n" "s' = s"
    | obj where "\<not> isSmallInteger p" "objects s p = Some obj" "header_hash obj \<noteq> 0" "h = uint (header_hash obj)" "s' = s"
    | obj where "\<not> isSmallInteger p" "objects s p = Some obj" "header_hash obj = 0" "h = uint (nextHash (lastHash s))"
        "s' = s\<lparr>objects := (objects s)(p \<mapsto> hash_put (nextHash (lastHash s)) obj), lastHash := nextHash (lastHash s)\<rparr>"
    using assms(1) by (auto simp: hashFor_def object_at_def bind_result_eq_Inr Let_def split: if_splits option.splits) blast
  then show "hashFor p s' = Inr (h, s')" "lastHash s' \<noteq> 0" "isSmallInteger p \<or> 0 < h \<and> h < 65536"
    "objects s' = objects s \<or>
      (\<exists>obj. objects s p = Some obj \<and> objects s' = (objects s)(p \<mapsto> hash_put (word_of_int h) obj))"
    using assms small positive nextHash_nonzero
    by (cases; simp add: hashFor_def object_at_def hash_put_def)+
qed

text \<open>
  C16: The identity hash of an object never changes once it was asked for, it is never 0 for a heap
  object and fits its 16 bits, asking for it touches nothing but the hash of that object, and the
  generator never falls into its fixed point 0.
\<close>

theorem hash_assigned_once:
  assumes "hashFor p s = Inr (h, s')" "lastHash s \<noteq> 0"
  shows "hashFor p s' = Inr (h, s') \<and> lastHash s' \<noteq> 0 \<and> (isSmallInteger p \<or> 0 < h \<and> h < 65536) \<and>
    (objects s' = objects s \<or>
      (\<exists>obj. objects s p = Some obj \<and> objects s' = (objects s)(p \<mapsto> hash_put (word_of_int h) obj)))"
  by (intro conjI hash_assigned_once_facts [OF assms])

definition hash_space :: object_space where
  "hash_space = \<lparr>objects = [0x1000 \<mapsto> fresh_object 0 []], lastHash = 1\<rparr>"

theorem hash_assigned_once_witness:
  "\<exists>s. hashFor 0x1000 hash_space = Inr (47560, s) \<and> hashFor 0x1000 s = Inr (47560, s)"
proof -
  have first: "\<exists>s. hashFor 0x1000 hash_space = Inr (47560, s)"
    by (simp add: hashFor_def hash_space_def isSmallInteger_def object_at_def fresh_object_def small_request_def
        MAX_SMALL_SIZE_def smallSize_put_def beSmall_def setFlags_def nextHash_def)
  moreover have "lastHash hash_space \<noteq> 0"
    by (simp add: hash_space_def)
  ultimately show ?thesis
    using hash_assigned_once by blast
qed

section \<open>New objects\<close>

lemma change_object_at:
  "m p = Some obj \<Longrightarrow> change_object p f m = bind_result (f obj) (\<lambda>obj'. Inr (m(p \<mapsto> obj')))"
  by (simp add: change_object_def object_at_def)

lemma memory_slot_other: "q \<noteq> p \<Longrightarrow> memory_slot (q, i) (m(p \<mapsto> obj)) = memory_slot (q, i) m"
  by (simp add: memory_slot_def object_at_def)

text \<open>
  The laws of the slots, read for the stores of \<open>newArray_\<close>: all the elements are there afterwards
  and every other slot of the memory is as it was.
\<close>

lemma store_elements:
  assumes "store_all memory_slot_put (zip (map (\<lambda>i. (p, word_of_nat i)) [0..<length elems]) elems) m = Inr m'"
    and "length elems < 2 ^ 32"
  shows "i < length elems \<Longrightarrow> memory_slot (p, word_of_nat i) m' = Inr (elems ! i)"
    and "q \<noteq> p \<Longrightarrow> memory_slot (q, j) m' = memory_slot (q, j) m"
proof -
  have inject: "(word_of_nat i :: 32 word) = word_of_nat j \<longleftrightarrow> i = j" if "i < length elems" "j < length elems" for i j
    using that assms(2) by (simp add: of_nat_eq_iff word_of_nat_eq_iff take_bit_nat_eq_self)
  let ?ivs = "zip (map (\<lambda>i. (p, word_of_nat i :: 32 word)) [0..<length elems]) elems"
  assume i: "i < length elems"
  have "sorted_wrt (\<lambda>x y. fst y \<noteq> fst x) ?ivs"
    by (simp add: sorted_wrt_iff_nth_less inject)
  moreover have "((p, word_of_nat i), elems ! i) \<in> set ?ivs"
    using i by (force simp: in_set_conv_nth)
  ultimately show "memory_slot (p, word_of_nat i) m' = Inr (elems ! i)"
    using memory_slots.store_all_get [OF assms(1)] by simp
next
  assume "q \<noteq> p"
  then show "memory_slot (q, j) m' = memory_slot (q, j) m"
    by (intro memory_slots.store_all_separate [OF assms(1)]) (simp_all flip: set_map, auto)
qed

lemma in_behavior_space: "p AND 0xFFFFFFFF00000000 = 0 \<Longrightarrow> ucast (ucast p :: 32 word) = p" for p :: oop
proof -
  assume high: "p AND 0xFFFFFFFF00000000 = 0"
  have bits: "bit (0xFFFFFFFF00000000 :: oop) i \<longleftrightarrow> 32 \<le> i" if "i < 64" for i
  proof -
    have "(0xFFFFFFFF00000000 :: oop) = NOT (mask 32)"
      by (simp add: not_eq_complement mask_eq_exp_minus_1)
    then show ?thesis
      using that by (simp only: bit_not_iff bit_mask_iff) auto
  qed
  show "ucast (ucast p :: 32 word) = p"
  proof (rule bit_word_eqI)
    fix i
    assume "i < LENGTH(64)"
    moreover from this have "bit p i \<longrightarrow> i < 32"
      using bits [of i] arg_cong [OF high, of "\<lambda>w. bit w i"]
      by (cases "i < 32"; simp only: bit_and_iff bit_0_eq) auto
    ultimately show "bit (ucast (ucast p :: 32 word) :: oop) i \<longleftrightarrow> bit p i"
      by (auto simp: bit_ucast_iff dest: bit_imp_le_length)
  qed
qed

definition behavior_space :: "oop \<Rightarrow> bool" where
  "behavior_space p \<longleftrightarrow> p AND 0xFFFFFFFF00000000 = BEHAVIOR_ADDRESS_SPACE"

lemma behavior_put_space [simp]:
  "behavior_space b \<Longrightarrow> behavior_put b obj = Inr (obj\<lparr>header_behavior := ucast b\<rparr>)"
  "\<not> behavior_space b \<Longrightarrow> behavior_put b obj = Inl AssertionFailed"
  by (simp_all add: behavior_put_def behavior_space_def)

lemma behavior_after_put [simp]: "behavior_space b \<Longrightarrow> behavior (obj\<lparr>header_behavior := ucast b\<rparr>) = b"
  by (simp add: behavior_def behavior_space_def BEHAVIOR_ADDRESS_SPACE_def in_behavior_space)

declare flag_mask.simps [simp del]

lemma flags_keep_size [simp]:
  "object_size (setFlags (flag_mask f) obj) = (if f = IsSmall then object_size (beSmall obj) else object_size obj)"
  "body (setFlags g obj) = body obj" "header_behavior (setFlags g obj) = header_behavior obj"
  "behavior (setFlags g obj) = behavior obj" "header_hash (setFlags g obj) = header_hash obj"
proof -
  have "object_size (setFlags (flag_mask f) obj) = object_size obj" if "f \<noteq> IsSmall"
    using that flags_independent(1) [of IsSmall f obj]
    by (simp add: object_size_def largeSize_def isSmall_def isLarge_def) (simp add: setFlags_def)
  then show "object_size (setFlags (flag_mask f) obj) = (if f = IsSmall then object_size (beSmall obj) else object_size obj)"
    by (simp add: beSmall_def)
  show "body (setFlags g obj) = body obj" "header_behavior (setFlags g obj) = header_behavior obj"
    "behavior (setFlags g obj) = behavior obj" "header_hash (setFlags g obj) = header_hash obj"
    by (simp_all add: setFlags_def behavior_def)
qed

text \<open>What \<open>newSlots_size_\<close> makes: nil slots, with the behavior and the flags of its kind.\<close>

definition behaving :: "oop \<Rightarrow> bool \<Rightarrow> bool \<Rightarrow> heap_object \<Rightarrow> heap_object" where
  "behaving b named arrayed obj =
     (if named then beNamed else id) ((if arrayed then beArrayed else id) (obj\<lparr>header_behavior := ucast b\<rparr>))"

lemma behaving_reads [simp]:
  "object_size (behaving b named arrayed obj) = object_size obj"
  "isBytes (behaving b named arrayed obj) = isBytes obj" "isPointers (behaving b named arrayed obj) = isPointers obj"
  "isNamed (behaving b named arrayed obj) \<longleftrightarrow> named \<or> isNamed obj"
  "isArrayed (behaving b named arrayed obj) \<longleftrightarrow> arrayed \<or> isArrayed obj"
  "isSpecial (behaving b named arrayed obj) = isSpecial obj"
  "body (behaving b named arrayed obj) = body obj"
  "behavior_space b \<Longrightarrow> behavior (behaving b named arrayed obj) = b"
  "well_formed (behaving b named arrayed obj) = well_formed obj"
  "slot i (behaving b named arrayed obj) = slot i obj"
proof -
  have same: "object_size (obj\<lparr>header_behavior := ucast b\<rparr>) = object_size obj"
    "testFlags f (obj\<lparr>header_behavior := ucast b\<rparr>) = testFlags f obj" for f
    by (simp_all add: object_size_def largeSize_def isSmall_def isLarge_def testFlags_def)
  show size: "object_size (behaving b named arrayed obj) = object_size obj"
    and bytes: "isBytes (behaving b named arrayed obj) = isBytes obj"
    and pointers: "isPointers (behaving b named arrayed obj) = isPointers obj"
    and "isNamed (behaving b named arrayed obj) \<longleftrightarrow> named \<or> isNamed obj"
    and "isArrayed (behaving b named arrayed obj) \<longleftrightarrow> arrayed \<or> isArrayed obj"
    and "isSpecial (behaving b named arrayed obj) = isSpecial obj"
    and body: "body (behaving b named arrayed obj) = body obj"
    by (cases named; cases arrayed; simp add: behaving_def beNamed_def beArrayed_def same flag_reader_defs
        flags_independent)+
  show "well_formed (behaving b named arrayed obj) = well_formed obj"
    by (simp add: well_formed_def size bytes body split: sum.splits)
  show "slot i (behaving b named arrayed obj) = slot i obj"
    by (simp add: slot_def slot_access_def size pointers body)
  assume "behavior_space b"
  then show "behavior (behaving b named arrayed obj) = b"
    by (simp add: behaving_def beNamed_def beArrayed_def)
qed

lemma newSlots_eq:
  assumes "speciesInstanceSize species m = Inr ivars" "speciesInstanceBehavior species m = Inr b" "behavior_space b"
    and "slots_fit allocate (word_of_int ivars + n)"
  shows "newSlots k allocate species n m =
    Inr (slots_address allocate (word_of_int ivars + n), m(slots_address allocate (word_of_int ivars + n) \<mapsto>
      behaving b (ivars > 0) (n > 0) (nil_slots (nilObj k) (word_of_int ivars + n))))"
  using assms by (simp add: newSlots_def allocateSlots_fits change_object_at behaving_def)

lemma newArraySized_eq:
  assumes "speciesInstanceBehavior (arrayClass k) m = Inr b" "behavior_space b" "slots_fit allocate n"
  shows "newArraySized k allocate n m =
    Inr (slots_address allocate n, m(slots_address allocate n \<mapsto> behaving b False True (nil_slots (nilObj k) n)))"
  using assms by (simp add: newArraySized_def allocateSlots_fits change_object_at behaving_def)

text \<open>Stores into slots change bodies only.\<close>

lemma slot_put_body: "slot_put i v obj = Inr obj' \<Longrightarrow> \<exists>bs. obj' = obj\<lparr>body := bs\<rparr>"
  by (auto simp: accessors_checked checked_poke_def poke_body_def bind_result_eq_Inr)

lemma memory_slot_put_body:
  assumes "memory_slot_put x v m = Inr m'" "m p = Some obj"
  shows "\<exists>bs. m' p = Some (obj\<lparr>body := bs\<rparr>)"
proof -
  obtain q i where x: "x = (q, i)"
    by (cases x)
  show ?thesis
  proof (cases "q = p")
    case True
    then show ?thesis
      using assms x by (auto simp: memory_slot_put_def object_at_def bind_result_eq_Inr dest: slot_put_body)
  next
    case False
    then have "m' p = Some (obj\<lparr>body := body obj\<rparr>)"
      using assms x by (auto simp: memory_slot_put_def bind_result_eq_Inr)
    then show ?thesis
      by blast
  qed
qed

lemma store_all_body:
  "store_all memory_slot_put ivs m = Inr m' \<Longrightarrow> m p = Some obj \<Longrightarrow> \<exists>bs. m' p = Some (obj\<lparr>body := bs\<rparr>)"
proof (induction ivs arbitrary: m obj)
  case Nil
  then have "m' p = Some (obj\<lparr>body := body obj\<rparr>)"
    by simp
  then show ?case
    by blast
next
  case (Cons iv ivs)
  then obtain m1 where m1: "memory_slot_put (fst iv) (snd iv) m = Inr m1" "store_all memory_slot_put ivs m1 = Inr m'"
    by (cases iv) (auto simp: bind_result_eq_Inr)
  then obtain bs where "m1 p = Some (obj\<lparr>body := bs\<rparr>)"
    using Cons.prems(2) memory_slot_put_body by blast
  then show ?case
    using Cons.IH [OF m1(2)] by auto
qed

text \<open>
  C35: \<open>newArray_\<close> answers a new Array whose slots are the given elements in order; no slot of an object
  that was there before changes.
\<close>

theorem new_array_elements:
  assumes "speciesInstanceBehavior (arrayClass k) m = Inr b" "behavior_space b"
    and fits: "slots_fit allocate (word_of_nat (length elems))" "length elems < 2 ^ 32"
    and fresh: "m (slots_address allocate (word_of_nat (length elems))) = None"
  shows "\<exists>p m'. newArray k allocate elems m = Inr (p, m') \<and> m p = None \<and>
    bind_result (object_at m' p) object_size = Inr (word_of_nat (length elems)) \<and>
    bind_result (object_at m' p) (\<lambda>obj. Inr (behavior obj)) = Inr b \<and>
    (\<forall>i < length elems. memory_slot (p, word_of_nat i) m' = Inr (elems ! i)) \<and>
    (\<forall>q j. q \<noteq> p \<longrightarrow> memory_slot (q, j) m' = memory_slot (q, j) m)"
proof -
  define p where "p = slots_address allocate (word_of_nat (length elems))"
  define m1 where "m1 = m(p \<mapsto> behaving b False True (nil_slots (nilObj k) (word_of_nat (length elems))))"
  let ?ivs = "zip (map (\<lambda>i. (p, word_of_nat i :: 32 word)) [0..<length elems]) elems"
  have sized: "newArraySized k allocate (word_of_nat (length elems)) m = Inr (p, m1)"
    using newArraySized_eq [OF assms(1,2) fits(1)] by (simp add: p_def m1_def)
  have less: "(word_of_nat i :: 32 word) < word_of_nat (length elems)" if "i < length elems" for i
    using that fits(2) by (simp add: word_less_nat_alt unsigned_of_nat take_bit_nat_eq_self)
  have defined: "memory_slot (p, word_of_nat i) m1 = Inr (nilObj k)" if "i < length elems" for i
    using nil_slots_slot [OF less [OF that]] by (simp add: m1_def memory_slot_def object_at_def)
  have "\<exists>m'. store_all memory_slot_put ?ivs m1 = Inr m'"
  proof (rule memory_slots.store_all_defined)
    show "sorted_wrt (\<lambda>x y. fst x \<noteq> fst y) ?ivs"
      using fits(2) by (simp add: sorted_wrt_iff_nth_less word_of_nat_eq_iff take_bit_nat_eq_self)
    show "\<exists>u. memory_slot x m1 = Inr u" if "x \<in> fst ` set ?ivs" for x
      using that defined by (auto simp: set_zip)
  qed
  then obtain m' where m': "store_all memory_slot_put ?ivs m1 = Inr m'" ..
  have "newArray k allocate elems m = Inr (p, m')"
    by (simp add: newArray_def sized m')
  moreover obtain bs where "m' p = Some (behaving b False True (nil_slots (nilObj k) (word_of_nat (length elems)))\<lparr>body := bs\<rparr>)"
    using store_all_body [OF m', of p] by (auto simp: m1_def)
  moreover have "memory_slot (q, j) m' = memory_slot (q, j) m" if "q \<noteq> p" for q j
    using store_elements(2) [OF m' fits(2) that] memory_slot_other [OF that] by (simp add: m1_def)
  moreover note store_elements(1) [OF m' fits(2)] fresh
  ultimately show ?thesis
    using assms(2) by (intro exI [of _ p] exI [of _ m']) (simp add: object_at_def p_def)
qed
text \<open>An object with given slots, for examples.\<close>

definition pointers :: "oop list \<Rightarrow> heap_object" where
  "pointers vs = (nil_slots 0 (word_of_nat (length vs)))\<lparr>body := concat (map (le_bytes 8) vs)\<rparr>"

lemma take_drop_concat_map:
  "i < length vs \<Longrightarrow> (\<And>v. length (f v) = k) \<Longrightarrow> take k (drop (k * i) (concat (map f vs))) = f (vs ! i)"
proof (induction vs arbitrary: i)
  case (Cons v vs)
  then show ?case
    by (cases i) (simp_all add: drop_append)
qed simp

lemma pointers_reads [simp]:
  "object_size (pointers vs) = Inr (word_of_nat (length vs))" "isBytes (pointers vs) = False" "isPointers (pointers vs)"
  "isNamed (pointers vs) = False" "isArrayed (pointers vs) = False" "isSpecial (pointers vs) = False"
  by (simp_all add: pointers_def)

lemma slot_pointers:
  assumes "unat i < length vs" "length vs < 2 ^ 32"
  shows "slot i (pointers vs) = Inr (vs ! unat i)"
proof -
  have "i < word_of_nat (length vs)"
    using assms by (simp add: word_less_nat_alt unsigned_of_nat take_bit_nat_eq_self)
  moreover have "word_of_nat (le_value (le_bytes 8 (vs ! unat i))) = vs ! unat i"
    using unat_less_64 [of "vs ! unat i"] by (simp add: le_value_le_bytes)
  moreover have "take 8 (drop (8 * unat i) (concat (map (le_bytes 8) vs))) = le_bytes 8 (vs ! unat i)"
    using take_drop_concat_map [OF assms(1), of "le_bytes 8" 8] by simp
  moreover have "length (concat (map (le_bytes 8) vs)) = 8 * length vs"
    by (simp add: length_concat comp_def sum_list_triv)
  ultimately show ?thesis
    using assms(1) by (simp add: slot_def slot_access_def peek_bytes_def pointers_def)
qed

definition example_kernel :: known_objects where
  "example_kernel = \<lparr>nilObj = 0x20, trueObj = 0x30, falseObj = 0x40, arrayClass = 0x100, metaclassClass = 0x200,
     methodClass = 0x300, ffiMethodClass = 0, floatClass = 0x400, blockClass = 0x500, stringClass = 0x600,
     closureClass = 0x700, closureInstSize = 2, openHashTableClass = 0x800, ephemeronClass = 0x900,
     processStackClass = 0xA00, smallIntegerBehavior = 0xB00\<rparr>"

text \<open>A class with a superclass, a behavior and a format, as \<open>Array\<close> has.\<close>

definition example_memory :: memory where
  "example_memory = [0x100 \<mapsto> pointers [0x20, 0x1000, smi_tag 0x4000], 0x1000 \<mapsto> pointers [0x100, 0x20, 0x20]]"

theorem new_array_elements_witness:
  "\<exists>p m'. newArray example_kernel (\<lambda>_. 0x5000) [0x30, 0x40] example_memory = Inr (p, m') \<and> memory_slot (p, 1) m' = Inr 0x40"
proof -
  have array: "speciesInstanceBehavior (arrayClass example_kernel) example_memory = Inr 0x1000"
    by (simp add: speciesInstanceBehavior_def SpeciesInstanceBehavior_def memory_slot_def object_at_def
        example_memory_def example_kernel_def slot_pointers)
  have space: "behavior_space 0x1000" "slots_fit (\<lambda>_. 0x5000) 2" "example_memory (slots_address (\<lambda>_. 0x5000) 2) = None"
    by (simp_all add: behavior_space_def BEHAVIOR_ADDRESS_SPACE_def slots_fit_def slots_address_def request_header_def
        small_request_def MAX_SMALL_SIZE_def example_memory_def)
  have "\<exists>p m'. newArray example_kernel (\<lambda>_. 0x5000) [0x30, 0x40] example_memory = Inr (p, m') \<and>
      (\<forall>i < length [0x30, 0x40 :: oop]. memory_slot (p, word_of_nat i) m' = Inr ([0x30, 0x40] ! i))"
    using new_array_elements [OF array space(1), of "\<lambda>_. 0x5000" "[0x30, 0x40]"] space by auto
  then obtain p m' where "newArray example_kernel (\<lambda>_. 0x5000) [0x30, 0x40] example_memory = Inr (p, m')"
    and elements: "\<forall>i < 2. memory_slot (p, word_of_nat i) m' = Inr ([0x30, 0x40] ! i)"
    by (auto simp: numeral_2_eq_2)
  moreover have "memory_slot (p, 1) m' = Inr 0x40"
    using elements [rule_format, of 1] by simp
  ultimately show ?thesis
    by blast
qed

end
