(* ===== verification/MethodLookup.thy ===== *)
theory MethodLookup
  imports RuntimeObjects
begin

text \<open>
  Method lookup and its caches (\<open>Runtime.cpp\<close>, \<open>GCedRef.h\<close>, \<open>SAbstractMessage.h\<close> and the dispatch of
  \<open>Evaluator.cpp\<close>): the two layouts of a method dictionary, the walk up the behaviors, the global
  cache with the comparator it is ordered by, the inline cache of each send and the flushes.  The
  locale \<open>memo_table\<close> is what a lookup asks of a cache; both caches interpret it.
\<close>

section \<open>Method dictionaries\<close>

text \<open>Selectors and methods alternate; a nil selector ends an array.\<close>

function scan_array :: "oop \<Rightarrow> oop \<Rightarrow> heap_object \<Rightarrow> nat \<Rightarrow> nat \<Rightarrow> oop option result" where
  "scan_array nil symbol md n i =
     (if i + 1 < n
      then bind_result (slot (word_of_nat i) md) (\<lambda>key.
        if key = nil then Inr None
        else if key = symbol then bind_result (slot (word_of_nat (i + 1)) md) (\<lambda>method. Inr (Some method))
        else scan_array nil symbol md n (i + 2))
      else Inr None)"
  by pat_completeness auto
termination
  by (relation "measure (\<lambda>(nil, symbol, md, n, i). n - i)") auto

function scan_table :: "oop \<Rightarrow> heap_object \<Rightarrow> nat \<Rightarrow> nat \<Rightarrow> oop option result" where
  "scan_table symbol table n index =
     (if index < n
      then bind_result (slotAt (word_of_nat index) table) (\<lambda>key.
        if key = symbol then bind_result (slotAt (word_of_nat (index + 1)) table) (\<lambda>method. Inr (Some method))
        else scan_table symbol table n (index + 2))
      else Inr None)"
  by pat_completeness auto
termination
  by (relation "measure (\<lambda>(symbol, table, n, index). n - index)") auto

declare scan_array.simps [simp del] scan_table.simps [simp del]

definition methodFor_in :: "known_objects \<Rightarrow> oop \<Rightarrow> memory \<Rightarrow> oop \<Rightarrow> oop option result" where
  "methodFor_in k symbol m beh = bind_result (behaviorMethodDictionary beh m) (\<lambda>md.
     bind_result (speciesOf k md m) (\<lambda>species.
       if species = arrayClass k
       then bind_result (object_at m md) (\<lambda>obj. bind_result (object_size obj) (\<lambda>n.
         scan_array (nilObj k) symbol obj (unat n) 0))
       else bind_result (dictionaryTable md m) (\<lambda>table. bind_result (object_at m table) (\<lambda>obj.
         bind_result (object_size obj) (\<lambda>n. scan_table symbol obj (unat n) 2)))))"

text \<open>\<open>lookupAssociationFor_in_\<close> walks the table of a dictionary of associations.\<close>

function scan_associations :: "oop \<Rightarrow> oop \<Rightarrow> heap_object \<Rightarrow> nat \<Rightarrow> memory \<Rightarrow> nat \<Rightarrow> oop option result" where
  "scan_associations nil symbol table n m index =
     (if index \<le> n
      then bind_result (slotAt (word_of_nat index) table) (\<lambda>assoc.
        if assoc \<noteq> nil
        then bind_result (bind_result (object_at m assoc) (slotAt 1)) (\<lambda>key.
          if key = symbol then Inr (Some assoc) else scan_associations nil symbol table n m (index + 1))
        else scan_associations nil symbol table n m (index + 1))
      else Inr None)"
  by pat_completeness auto
termination
  by (relation "measure (\<lambda>(nil, symbol, table, n, m, index). Suc n - index)") auto

declare scan_associations.simps [simp del]

definition lookupAssociationFor_in :: "known_objects \<Rightarrow> oop \<Rightarrow> oop \<Rightarrow> memory \<Rightarrow> oop option result" where
  "lookupAssociationFor_in k symbol dictionary m = bind_result (dictionaryTable dictionary m) (\<lambda>table.
     bind_result (object_at m table) (\<lambda>obj. bind_result (object_size obj) (\<lambda>n.
       scan_associations (nilObj k) symbol obj (unat n) m 2)))"

section \<open>The walk up the behaviors\<close>

datatype search = Searching oop | Found oop | Missed

fun searching :: "search \<Rightarrow> bool" where
  "searching (Searching b) = True"
| "searching _ = False"

fun search_step :: "known_objects \<Rightarrow> oop \<Rightarrow> memory \<Rightarrow> search \<Rightarrow> search result" where
  "search_step k symbol m (Searching b) = bind_result (methodFor_in k symbol m b) (\<lambda>found.
     case found of
       Some method \<Rightarrow> Inr (Found method)
     | None \<Rightarrow> bind_result (behaviorNext b m) (\<lambda>next. Inr (if next = nilObj k then Missed else Searching next)))"
| "search_step k symbol m s = Inr s"

fun search_answer :: "search \<Rightarrow> oop option" where
  "search_answer (Found method) = Some method"
| "search_answer _ = None"

definition doLookup :: "known_objects \<Rightarrow> oop \<Rightarrow> memory \<Rightarrow> oop \<Rightarrow> oop option result" where
  "doLookup k symbol m startBehavior =
     bind_result (while_result searching (search_step k symbol m) (Searching startBehavior)) (\<lambda>s. Inr (search_answer s))"

section \<open>Ordered maps\<close>

text \<open>
  \<open>std::map\<close> with a comparator: the keys \<open>a\<close> and \<open>b\<close> are the same key when neither orders before the
  other.  The caches hold references to objects and are searched with objects; the comparator looks
  at their identity hashes only, so a key is the object here.  \<open>hash\<close> is the hash each object has or
  is given when it is first compared; it does not change afterwards.
\<close>

definition equivalent :: "('k \<Rightarrow> 'k \<Rightarrow> bool) \<Rightarrow> 'k \<Rightarrow> 'k \<Rightarrow> bool" where
  "equivalent before a b \<longleftrightarrow> \<not> before a b \<and> \<not> before b a"

definition map_find :: "('k \<Rightarrow> 'k \<Rightarrow> bool) \<Rightarrow> ('k \<times> 'v) list \<Rightarrow> 'k \<Rightarrow> 'v option" where
  "map_find before entries key = map_option snd (find (\<lambda>(key', v). equivalent before key' key) entries)"

definition map_insert :: "('k \<Rightarrow> 'k \<Rightarrow> bool) \<Rightarrow> ('k \<times> 'v) list \<Rightarrow> 'k \<Rightarrow> 'v \<Rightarrow> ('k \<times> 'v) list" where
  "map_insert before entries key v = (if map_find before entries key = None then entries @ [(key, v)] else entries)"

definition map_erase :: "('k \<Rightarrow> 'k \<Rightarrow> bool) \<Rightarrow> ('k \<times> 'v) list \<Rightarrow> 'k \<Rightarrow> ('k \<times> 'v) list" where
  "map_erase before entries key = filter (\<lambda>(key', v). \<not> equivalent before key' key) entries"

definition hash_comparator :: "(oop \<Rightarrow> int) \<Rightarrow> oop \<Rightarrow> oop \<Rightarrow> bool" where
  "hash_comparator hash lhs rhs \<longleftrightarrow> hash lhs \<le> hash rhs"

definition pair_comparator :: "(oop \<Rightarrow> int) \<Rightarrow> oop \<times> oop \<Rightarrow> oop \<times> oop \<Rightarrow> bool" where
  "pair_comparator hash = (\<lambda>(lhs1, lhs2) (rhs1, rhs2).
     hash lhs1 < hash rhs1 \<or> hash lhs1 = hash rhs1 \<and> hash lhs2 \<le> hash rhs2)"

section \<open>Inline caches\<close>

text \<open>
  The cache of a send holds an undermessage alone, or pairs of a behavior and a method.  Reading an
  undermessage as a reference, or past the end, is undefined.
\<close>

datatype 'u cache_item = Ref oop | Wrapped 'u

definition cachedUndermessage :: "'u cache_item list \<Rightarrow> 'u option result" where
  "cachedUndermessage cache =
     (if length cache \<noteq> 1 then Inr None
      else case cache ! 0 of Wrapped u \<Rightarrow> Inr (Some u) | Ref _ \<Rightarrow> Inl Undefined)"

definition cacheUndermessage :: "'u \<Rightarrow> 'u cache_item list \<Rightarrow> 'u cache_item list" where
  "cacheUndermessage u cache = cache @ [Wrapped u]"

definition cache_when :: "oop \<Rightarrow> oop \<Rightarrow> 'u cache_item list \<Rightarrow> 'u cache_item list" where
  "cache_when method type cache = cache @ [Ref type, Ref method]"

fun cached_methodFor :: "oop \<Rightarrow> 'u cache_item list \<Rightarrow> oop option result" where
  "cached_methodFor beh [] = Inr None"
| "cached_methodFor beh (Wrapped u # _) = Inl Undefined"
| "cached_methodFor beh (Ref b # rest) =
     (if b = beh
      then case rest of Ref method # _ \<Rightarrow> Inr (Some method) | _ \<Rightarrow> Inl Undefined
      else cached_methodFor beh (drop 1 rest))"

section \<open>Dispatch\<close>

text \<open>
  The state of the caches: the global one, the sends registered under a selector, and the cache of
  each send, by the number of the send.
\<close>

record 'u dispatch_state =
  globalCache :: "((oop \<times> oop) \<times> oop) list"
  inlineCaches :: "(oop \<times> nat list) list"
  send_caches :: "nat \<Rightarrow> 'u cache_item list"

definition flush_send :: "nat \<Rightarrow> 'u dispatch_state \<Rightarrow> 'u dispatch_state" where
  "flush_send message s = s\<lparr>send_caches := (send_caches s)(message := [])\<rparr>"

definition checkCache :: "memory \<Rightarrow> ((oop \<times> oop) \<times> oop) list \<Rightarrow> unit result" where
  "checkCache m entries = fold (\<lambda>((symbol, beh), method) r. bind_result r (\<lambda>_.
     bind_result (methodSelector method m) (\<lambda>selector. assert_that (symbol = selector) (Inr ())))) entries (Inr ())"

definition lookup_startingAt ::
  "known_objects \<Rightarrow> (oop \<Rightarrow> int) \<Rightarrow> memory \<Rightarrow> oop \<Rightarrow> oop \<Rightarrow> 'u dispatch_state \<Rightarrow> (oop option \<times> 'u dispatch_state) result" where
  "lookup_startingAt k hash m symbol beh s = bind_result (checkCache m (globalCache s)) (\<lambda>_.
     case map_find (pair_comparator hash) (globalCache s) (symbol, beh) of
       Some method \<Rightarrow> Inr (Some method, s)
     | None \<Rightarrow> bind_result (doLookup k symbol m beh) (\<lambda>found. case found of
           None \<Rightarrow> Inr (None, s)
         | Some method \<Rightarrow>
             let s' = s\<lparr>globalCache := map_insert (pair_comparator hash) (globalCache s) (symbol, beh) method\<rparr>
             in bind_result (checkCache m (globalCache s')) (\<lambda>_. Inr (Some method, s'))))"

text \<open>A send is registered for flushing when its cache is filled for the first time.\<close>

definition registerCache_for :: "(oop \<Rightarrow> int) \<Rightarrow> nat \<Rightarrow> oop \<Rightarrow> 'u dispatch_state \<Rightarrow> 'u dispatch_state" where
  "registerCache_for hash message symbol s =
     (if map_find (hash_comparator hash) (inlineCaches s) symbol = None
      then s\<lparr>inlineCaches := map_insert (hash_comparator hash) (inlineCaches s) symbol [message]\<rparr>
      else s\<lparr>inlineCaches := map (\<lambda>(key, messages).
        if equivalent (hash_comparator hash) key symbol then (key, messages @ [message]) else (key, messages)) (inlineCaches s)\<rparr>)"

definition registerCacheWith :: "(oop \<Rightarrow> int) \<Rightarrow> nat \<Rightarrow> oop \<Rightarrow> 'u dispatch_state \<Rightarrow> 'u dispatch_state" where
  "registerCacheWith hash message symbol s =
     (if send_caches s message = [] then registerCache_for hash message symbol s else s)"

definition lookup_sendSite ::
  "known_objects \<Rightarrow> (oop \<Rightarrow> int) \<Rightarrow> memory \<Rightarrow> oop \<Rightarrow> oop \<Rightarrow> nat \<Rightarrow> 'u dispatch_state \<Rightarrow> (oop option \<times> 'u dispatch_state) result" where
  "lookup_sendSite k hash m symbol beh message s =
     bind_result (lookup_startingAt k hash m symbol beh s) (\<lambda>(found, s). case found of
       None \<Rightarrow> Inr (None, s)
     | Some method \<Rightarrow> let s = registerCacheWith hash message symbol s in
         Inr (Some method, s\<lparr>send_caches := (send_caches s)(message := cache_when method beh (send_caches s message))\<rparr>))"

datatype 'u decision = RunUndermessage 'u | Invoke oop | NotUnderstood

text \<open>\<open>visitOpDispatchMessage\<close> up to what it runs.\<close>

definition dispatch_message ::
  "known_objects \<Rightarrow> (oop \<Rightarrow> int) \<Rightarrow> (oop \<Rightarrow> 'u option) \<Rightarrow> memory \<Rightarrow> oop \<Rightarrow> oop \<Rightarrow> nat \<Rightarrow> 'u dispatch_state \<Rightarrow>
     ('u decision \<times> 'u dispatch_state) result" where
  "dispatch_message k hash undermessages m symbol beh message s =
     bind_result (cachedUndermessage (send_caches s message)) (\<lambda>cached. case cached of
       Some u \<Rightarrow> Inr (RunUndermessage u, s)
     | None \<Rightarrow> bind_result (cached_methodFor beh (send_caches s message)) (\<lambda>method. case method of
         Some method \<Rightarrow> Inr (Invoke method, s)
       | None \<Rightarrow> (case undermessages symbol of
           Some u \<Rightarrow> Inr (RunUndermessage u,
             s\<lparr>send_caches := (send_caches s)(message := cacheUndermessage u (send_caches s message))\<rparr>)
         | None \<Rightarrow> bind_result (lookup_sendSite k hash m symbol beh message s) (\<lambda>(found, s).
             Inr (case found of None \<Rightarrow> NotUnderstood | Some method \<Rightarrow> Invoke method, s)))))"

text \<open>The behavior a send starts at: above the class of the method for \<open>super\<close>.\<close>

definition dispatch_behavior :: "known_objects \<Rightarrow> memory \<Rightarrow> bool \<Rightarrow> oop \<Rightarrow> oop \<Rightarrow> oop result" where
  "dispatch_behavior k m to_super classBinding receiver =
     (if to_super then superBehaviorOf classBinding m else behaviorOf k receiver m)"

section \<open>Flushes\<close>

definition flushDispatchCache :: "(oop \<Rightarrow> int) \<Rightarrow> oop \<Rightarrow> 'u dispatch_state \<Rightarrow> 'u dispatch_state" where
  "flushDispatchCache hash symbol s =
     (let s = (case map_find (hash_comparator hash) (inlineCaches s) symbol of
                 Some messages \<Rightarrow> fold flush_send messages s
               | None \<Rightarrow> s);
          cached = filter (\<lambda>key. fst key = symbol) (map fst (globalCache s))
      in s\<lparr>globalCache := fold (\<lambda>key entries. map_erase (pair_comparator hash) entries key) cached (globalCache s)\<rparr>)"

definition flushDispatchCache_in ::
  "(oop \<Rightarrow> int) \<Rightarrow> memory \<Rightarrow> oop \<Rightarrow> oop \<Rightarrow> 'u dispatch_state \<Rightarrow> 'u dispatch_state result" where
  "flushDispatchCache_in hash m symbol class s = bind_result (speciesInstanceBehavior class m) (\<lambda>beh.
     let s = (case map_find (hash_comparator hash) (inlineCaches s) symbol of
                 Some messages \<Rightarrow> fold flush_send messages s
               | None \<Rightarrow> s)
     in Inr (case find (\<lambda>(key, method). equivalent (pair_comparator hash) key (symbol, beh)) (globalCache s) of
          Some entry \<Rightarrow> s\<lparr>globalCache := remove1 entry (globalCache s)\<rparr>
        | None \<Rightarrow> s))"

section \<open>Dictionaries\<close>

fun pairs :: "'a list \<Rightarrow> ('a \<times> 'a) list" where
  "pairs (x # y # zs) = (x, y) # pairs zs"
| "pairs _ = []"

lemma pairs_drop: "i + 1 < length xs \<Longrightarrow> pairs (drop i xs) = (xs ! i, xs ! (i + 1)) # pairs (drop (i + 2) xs)"
  by (simp add: Cons_nth_drop_Suc [symmetric])

lemma pairs_short: "\<not> i + 1 < length xs \<Longrightarrow> pairs (drop i xs) = []"
  by (cases "drop i xs" rule: pairs.cases) (auto dest: arg_cong [where f = length])

lemma scan_array_map_of:
  assumes "\<And>j. j < length xs \<Longrightarrow> slot (word_of_nat j) md = Inr (xs ! j)"
  shows "scan_array nil symbol md (length xs) i =
    Inr (map_of (takeWhile (\<lambda>(key, method). key \<noteq> nil) (pairs (drop i xs))) symbol)"
  using assms
proof (induction nil symbol md "length xs" i rule: scan_array.induct)
  case (1 nil symbol md i)
  have "Suc i < length xs \<Longrightarrow> slot (1 + word_of_nat i) md = Inr (xs ! Suc i)"
    using 1(2) [of "Suc i"] by simp
  then show ?case
    using 1 by (subst scan_array.simps) (auto simp: pairs_drop pairs_short)
qed

lemma scan_table_map_of:
  assumes "\<And>j. j < length xs \<Longrightarrow> slot (word_of_nat j) table = Inr (xs ! j)"
  shows "scan_table symbol table (length xs) (Suc i) = Inr (map_of (pairs (drop i xs)) symbol)"
  using assms
proof (induction symbol table "length xs" "Suc i" arbitrary: i rule: scan_table.induct)
  case (1 symbol table i)
  have "slotAt (word_of_nat (Suc i)) table = slot (word_of_nat i) table"
    "slotAt (word_of_nat (Suc i + 1)) table = slot (word_of_nat (i + 1)) table"
    by (simp_all add: slotAt_def)
  moreover have "Suc i < length xs \<Longrightarrow> slot (1 + word_of_nat i) table = Inr (xs ! Suc i)"
    using 1(2) [of "Suc i"] by simp
  ultimately show ?case
    using 1 by (subst scan_table.simps) (auto simp: pairs_drop pairs_short)
qed

section \<open>Chains of behaviors\<close>

inductive behavior_chain :: "oop \<Rightarrow> memory \<Rightarrow> oop \<Rightarrow> oop list \<Rightarrow> bool" for nil :: oop and m :: memory where
  last: "behaviorNext b m = Inr nil \<Longrightarrow> behavior_chain nil m b [b]"
| link: "behaviorNext b m = Inr b' \<Longrightarrow> b' \<noteq> nil \<Longrightarrow> behavior_chain nil m b' bs \<Longrightarrow> behavior_chain nil m b (b # bs)"

text \<open>The method of the first behavior that has one.\<close>

fun nearest :: "(oop \<Rightarrow> oop option) \<Rightarrow> oop list \<Rightarrow> oop option" where
  "nearest methods [] = None"
| "nearest methods (b # bs) = (case methods b of Some method \<Rightarrow> Some method | None \<Rightarrow> nearest methods bs)"

text \<open>
  C15: Along a chain of behaviors that ends in nil, \<open>doLookup_startingAt_\<close> returns, and its answer is
  the method of the nearest behavior whose dictionary has the selector, or none.
\<close>

theorem lookup_nearest:
  assumes "behavior_chain (nilObj k) m b bs" "\<And>c. c \<in> set bs \<Longrightarrow> methodFor_in k symbol m c = Inr (methods c)"
  shows "doLookup k symbol m b = Inr (nearest methods bs)"
proof -
  have "bind_result (while_result searching (search_step k symbol m) (Searching b)) (\<lambda>s. Inr (search_answer s)) =
      Inr (nearest methods bs)"
    using assms
  proof (induction rule: behavior_chain.induct)
    case (last b)
    show ?case
      using last by (cases "methods b") (simp_all add: while_result_unfold)
  next
    case (link b b' bs)
    then show ?case
      by (cases "methods b"; subst while_result_unfold) (simp_all add: while_result_unfold [where s = "Found _"])
  qed
  then show ?thesis
    by (simp add: doLookup_def)
qed

section \<open>Caches as memo tables\<close>

text \<open>
  What a lookup needs of a cache: after an insertion it answers what was inserted or what it
  answered before.  It may forget.
\<close>

locale memo_table =
  fixes find_in :: "'t \<Rightarrow> 'k \<Rightarrow> 'v option"
    and insert_in :: "'t \<Rightarrow> 'k \<Rightarrow> 'v \<Rightarrow> 't"
  assumes find_insert: "find_in (insert_in t k v) k' = Some v' \<Longrightarrow> find_in t k' = Some v' \<or> k' = k \<and> v' = v"
begin

definition coherent :: "('k \<Rightarrow> 'v option result) \<Rightarrow> 't \<Rightarrow> bool" where
  "coherent compute t \<longleftrightarrow> (\<forall>k v. find_in t k = Some v \<longrightarrow> compute k = Inr (Some v))"

lemma coherent_find: "coherent compute t \<Longrightarrow> find_in t k = Some v \<Longrightarrow> compute k = Inr (Some v)"
  by (simp add: coherent_def)

lemma coherent_insert: "coherent compute t \<Longrightarrow> compute k = Inr (Some v) \<Longrightarrow> coherent compute (insert_in t k v)"
  unfolding coherent_def using find_insert by blast

lemma coherent_empty: "(\<And>k. find_in t k = None) \<Longrightarrow> coherent compute t"
  by (simp add: coherent_def)

end

text \<open>The comparators answer \<open><=\<close>, so no key is the same as another one or as itself.\<close>

lemma hash_comparator_never: "\<not> equivalent (hash_comparator hash) a b"
  by (auto simp: equivalent_def hash_comparator_def)

lemma pair_comparator_never: "\<not> equivalent (pair_comparator hash) a b"
  by (cases a; cases b) (auto simp: equivalent_def pair_comparator_def)

lemma map_find_never: "(\<And>a b. \<not> equivalent before a b) \<Longrightarrow> map_find before entries key = None"
  by (auto simp: map_find_def find_None_iff)

lemma map_erase_never: "(\<And>a b. \<not> equivalent before a b) \<Longrightarrow> map_erase before entries key = entries"
  by (auto simp: map_erase_def intro!: filter_True)

lemmas cache_misses = map_find_never [OF hash_comparator_never] map_find_never [OF pair_comparator_never]
  map_erase_never [OF pair_comparator_never]

interpretation global_cache: memo_table "map_find (pair_comparator hash)" "map_insert (pair_comparator hash)"
  for hash
  by unfold_locales (simp add: cache_misses)

text \<open>The pairs of an inline cache, and what it answers when it holds nothing else.\<close>

fun inline_find :: "(oop \<times> oop) list \<Rightarrow> oop \<Rightarrow> oop option" where
  "inline_find [] beh = None"
| "inline_find ((b, method) # ps) beh = (if b = beh then Some method else inline_find ps beh)"

definition inline_items :: "(oop \<times> oop) list \<Rightarrow> 'u cache_item list" where
  "inline_items ps = concat (map (\<lambda>(b, method). [Ref b, Ref method]) ps)"

lemma cached_methodFor_items: "cached_methodFor beh (inline_items ps) = Inr (inline_find ps beh)"
  by (induction ps) (auto simp: inline_items_def)

lemma cache_when_items: "cache_when method type (inline_items ps) = inline_items (ps @ [(type, method)])"
  by (simp add: cache_when_def inline_items_def)

lemma inline_find_append: "inline_find (ps @ qs) beh = (case inline_find ps beh of Some m \<Rightarrow> Some m | None \<Rightarrow> inline_find qs beh)"
  by (induction ps) auto

interpretation inline_cache: memo_table inline_find "\<lambda>ps type method. ps @ [(type, method)]"
  by unfold_locales (auto simp: inline_find_append split: option.splits if_splits)

lemma cachedUndermessage_items: "cachedUndermessage (inline_items ps) = Inr None"
  by (cases ps) (auto simp: cachedUndermessage_def inline_items_def)

section \<open>Dispatch\<close>

text \<open>What a send should run, with no caches: the undermessage of the selector, or the method the
  lookup finds.\<close>

definition dispatch_reference ::
  "known_objects \<Rightarrow> (oop \<Rightarrow> 'u option) \<Rightarrow> memory \<Rightarrow> oop \<Rightarrow> oop \<Rightarrow> 'u decision result" where
  "dispatch_reference k undermessages m symbol beh =
     (case undermessages symbol of
        Some u \<Rightarrow> Inr (RunUndermessage u)
      | None \<Rightarrow> bind_result (doLookup k symbol m beh) (\<lambda>found.
          Inr (case found of None \<Rightarrow> NotUnderstood | Some method \<Rightarrow> Invoke method)))"

text \<open>The cache of a send is empty, or holds the undermessage of its selector, or pairs the lookup agrees with.\<close>

definition send_cache_ok ::
  "known_objects \<Rightarrow> (oop \<Rightarrow> 'u option) \<Rightarrow> memory \<Rightarrow> oop \<Rightarrow> 'u cache_item list \<Rightarrow> bool" where
  "send_cache_ok k undermessages m symbol cache \<longleftrightarrow>
     cache = [] \<or>
     (\<exists>u. cache = [Wrapped u] \<and> undermessages symbol = Some u) \<or>
     (\<exists>ps. cache = inline_items ps \<and> undermessages symbol = None \<and> inline_cache.coherent (doLookup k symbol m) ps)"

lemma checkCache_append:
  "checkCache m (entries @ [((symbol, beh), method)]) = bind_result (checkCache m entries) (\<lambda>_.
     bind_result (methodSelector method m) (\<lambda>selector. assert_that (symbol = selector) (Inr ())))"
  by (simp add: checkCache_def)

lemma lookup_startingAt_miss:
  assumes "checkCache m (globalCache s) = Inr ()" "doLookup k symbol m beh = Inr found"
    and "\<And>method. found = Some method \<Longrightarrow> methodSelector method m = Inr symbol"
  shows "lookup_startingAt k hash m symbol beh s = Inr (found, case found of None \<Rightarrow> s
    | Some method \<Rightarrow> s\<lparr>globalCache := globalCache s @ [((symbol, beh), method)]\<rparr>)"
  using assms
  by (cases found) (simp_all add: lookup_startingAt_def cache_misses map_insert_def checkCache_append Let_def)

lemma registerCacheWith_fields [simp]:
  "send_caches (registerCacheWith hash message symbol s) = send_caches s"
  "globalCache (registerCacheWith hash message symbol s) = globalCache s"
  by (simp_all add: registerCacheWith_def registerCache_for_def)

text \<open>
  C8: The caches are transparent.  As long as the cache of the send agrees with the lookup and the
  global cache passes its check, a dispatch runs what the undermessages and the lookup alone
  decide, and it leaves the cache of the send in agreement, the global cache checked and the caches
  of the other sends alone.
\<close>

theorem dispatch_transparent:
  assumes "dispatch_reference k undermessages m symbol beh = Inr d"
    and cache: "send_cache_ok k undermessages m symbol (send_caches s message)"
    and global: "checkCache m (globalCache s) = Inr ()"
    and selectors: "\<And>method. doLookup k symbol m beh = Inr (Some method) \<Longrightarrow> methodSelector method m = Inr symbol"
  shows "\<exists>s'. dispatch_message k hash undermessages m symbol beh message s = Inr (d, s') \<and>
    send_cache_ok k undermessages m symbol (send_caches s' message) \<and>
    checkCache m (globalCache s') = Inr () \<and>
    (\<forall>other. other \<noteq> message \<longrightarrow> send_caches s' other = send_caches s other)"
proof -
  have "inline_items [] = ([] :: 'a cache_item list)" "inline_cache.coherent (doLookup k symbol m) []"
    by (simp_all add: inline_items_def inline_cache.coherent_empty)
  then consider u where "send_caches s message = [Wrapped u]" "undermessages symbol = Some u"
    | u where "send_caches s message = []" "undermessages symbol = Some u"
    | ps where "send_caches s message = inline_items ps" "undermessages symbol = None"
        "inline_cache.coherent (doLookup k symbol m) ps"
    using cache unfolding send_cache_ok_def by (cases "undermessages symbol") (metis, metis)
  then show ?thesis
  proof cases
    case (1 u)
    then show ?thesis
      using assms by (auto simp: dispatch_message_def cachedUndermessage_def dispatch_reference_def)
  next
    case (2 u)
    then show ?thesis
      using assms by (auto simp: dispatch_message_def cachedUndermessage_def dispatch_reference_def
          cacheUndermessage_def send_cache_ok_def)
  next
    case (3 ps)
    show ?thesis
    proof (cases "inline_find ps beh")
      case (Some invoked)
      then have "doLookup k symbol m beh = Inr (Some invoked)"
        using inline_cache.coherent_find [OF 3(3)] by simp
      then show ?thesis
        using 3 Some assms by (auto simp: dispatch_message_def cachedUndermessage_items cached_methodFor_items dispatch_reference_def)
    next
      case None
      obtain found where found: "doLookup k symbol m beh = Inr found"
          "d = (case found of None \<Rightarrow> NotUnderstood | Some invoked \<Rightarrow> Invoke invoked)"
        using assms(1) 3(2) by (auto simp: dispatch_reference_def bind_result_eq_Inr)
      show ?thesis
      proof (cases found)
        case None
        then show ?thesis
          using 3 found assms \<open>inline_find ps beh = None\<close> lookup_startingAt_miss [OF global found(1)]
          by (auto simp: dispatch_message_def cachedUndermessage_items cached_methodFor_items lookup_sendSite_def)
      next
        case (Some invoked)
        have "inline_cache.coherent (doLookup k symbol m) (ps @ [(beh, invoked)])"
          using inline_cache.coherent_insert [OF 3(3)] found Some by simp
        then have "send_cache_ok k undermessages m symbol (cache_when invoked beh (inline_items ps))"
          using 3(2) by (auto simp: send_cache_ok_def cache_when_items)
        then show ?thesis
          using 3 found assms Some \<open>inline_find ps beh = None\<close> lookup_startingAt_miss [OF global found(1)]
          by (simp add: dispatch_message_def cachedUndermessage_items cached_methodFor_items lookup_sendSite_def
              Let_def checkCache_append)
      qed
    qed
  qed
qed

section \<open>Flushes\<close>

lemma lookup_grows:
  assumes "lookup_startingAt k hash m symbol beh s = Inr (Some method, s')"
  shows "globalCache s' = globalCache s @ [((symbol, beh), method)]"
proof -
  let ?s = "\<lambda>invoked. s\<lparr>globalCache := globalCache s @ [((symbol, beh), invoked)]\<rparr>"
  have same: "globalCache (?s invoked) = globalCache s @ [((symbol, beh), invoked)]" for invoked
    by simp
  have "bind_result (doLookup k symbol m beh) (\<lambda>found. case found of None \<Rightarrow> Inr (None, s)
      | Some method \<Rightarrow> bind_result (checkCache m (globalCache s @ [((symbol, beh), method)])) (\<lambda>_. Inr (Some method, ?s method))) =
      Inr (Some method, s')"
    using assms unfolding lookup_startingAt_def cache_misses map_insert_def Let_def
    by (cases "checkCache m (globalCache s)") (simp_all add: same cong: option.case_cong)
  then obtain found where "(case found of None \<Rightarrow> Inr (None, s)
      | Some method \<Rightarrow> bind_result (checkCache m (globalCache s @ [((symbol, beh), method)])) (\<lambda>_. Inr (Some method, ?s method))) =
      Inr (Some method, s')"
    unfolding bind_result_eq_Inr by blast
  then have "?s method = s'"
    by (cases found; cases "checkCache m (globalCache s @ [((symbol, beh), the found)])") simp_all
  then show ?thesis
    by auto
qed

lemma flush_keeps_stale_methods_facts:
  assumes "send_caches s message = inline_items ps" "inline_find ps beh = Some old"
  shows "flushDispatchCache hash symbol s = s"
    "speciesInstanceBehavior class m = Inr b \<Longrightarrow> flushDispatchCache_in hash m symbol class s = Inr s"
    "dispatch_message k hash undermessages m symbol beh message (flushDispatchCache hash symbol s) = Inr (Invoke old, s)"
    "lookup_startingAt k hash m symbol beh s = Inr (Some method, s') \<Longrightarrow>
       globalCache s' = globalCache s @ [((symbol, beh), method)]"
proof -
  have fold_same: "fold (\<lambda>key entries. entries) ks es = es"
    for ks :: "(oop \<times> oop) list" and es :: "((oop \<times> oop) \<times> oop) list"
    by (induction ks) simp_all
  show flush: "flushDispatchCache hash symbol s = s"
    by (simp add: flushDispatchCache_def cache_misses Let_def fold_same)
  show "flushDispatchCache_in hash m symbol class s = Inr s" if "speciesInstanceBehavior class m = Inr b"
  proof -
    have "find (\<lambda>(key, method). equivalent (pair_comparator hash) key (symbol, b)) (globalCache s) = None"
      by (auto simp: find_None_iff pair_comparator_never)
    then show ?thesis
      using that by (simp add: flushDispatchCache_in_def cache_misses Let_def)
  qed
  show "dispatch_message k hash undermessages m symbol beh message (flushDispatchCache hash symbol s) = Inr (Invoke old, s)"
    using assms by (simp add: flush dispatch_message_def cachedUndermessage_items cached_methodFor_items)
  assume "lookup_startingAt k hash m symbol beh s = Inr (Some method, s')"
  then show "globalCache s' = globalCache s @ [((symbol, beh), method)]"
    by (rule lookup_grows)
qed

text \<open>
  C36: The comparator of the caches answers \<open><=\<close>, and \<open>std::map\<close> takes two keys for the same when
  neither orders before the other: no key is ever found.  So the global cache never answers and
  every lookup that succeeds adds an entry to it, a flush of a selector changes no cache, and a send
  that has cached a method for a behavior runs it after the flush, whatever the dictionaries hold by
  then.
\<close>

theorem flush_keeps_stale_methods:
  assumes "send_caches s message = inline_items ps" "inline_find ps beh = Some old"
  shows "flushDispatchCache hash symbol s = s \<and>
    (\<forall>class b. speciesInstanceBehavior class m = Inr b \<longrightarrow> flushDispatchCache_in hash m symbol class s = Inr s) \<and>
    dispatch_message k hash undermessages m symbol beh message (flushDispatchCache hash symbol s) = Inr (Invoke old, s) \<and>
    (\<forall>method s'. lookup_startingAt k hash m symbol beh s = Inr (Some method, s') \<longrightarrow>
       globalCache s' = globalCache s @ [((symbol, beh), method)])"
  using flush_keeps_stale_methods_facts [OF assms] by blast

section \<open>An example\<close>

text \<open>Two behaviors: the dictionary of the first is empty, that of the second has one method.\<close>

definition lookup_memory :: memory where
  "lookup_memory = [0x1000 \<mapsto> pointers [0x100, 0x2000, 0x1100], 0x1100 \<mapsto> pointers [0x100, 0x2100, 0x20],
     0x2000 \<mapsto> behaving 0x1000 False True (pointers []),
     0x2100 \<mapsto> behaving 0x1000 False True (pointers [0x3000, 0x4000]),
     0x4000 \<mapsto> pointers [0x20, 0x20, 0x20, 0x20, 0x3000, 0x20]]"

lemma space_1000: "behavior_space 0x1000"
  by (simp add: behavior_space_def BEHAVIOR_ADDRESS_SPACE_def)

lemmas lookup_evaluation = lookup_memory_def example_kernel_def memory_slot_def object_at_def slot_pointers space_1000
  behaviorNext_def behaviorClass_def behaviorMethodDictionary_def methodSelector_def offset_defs

lemma lookup_chain: "behavior_chain 0x20 lookup_memory 0x1000 [0x1000, 0x1100]"
  by (rule behavior_chain.link [of _ _ "0x1100"], simp_all add: lookup_evaluation)
    (rule behavior_chain.last, simp add: lookup_evaluation)

lemma lookup_methods:
  "methodFor_in example_kernel 0x3000 lookup_memory 0x1000 = Inr None"
  "methodFor_in example_kernel 0x3000 lookup_memory 0x1100 = Inr (Some 0x4000)"
  by (simp_all add: methodFor_in_def speciesOf_def behaviorOf_def isSmallInteger_def lookup_evaluation scan_array.simps)

theorem lookup_nearest_witness:
  "doLookup example_kernel 0x3000 lookup_memory 0x1000 = Inr (Some 0x4000)"
proof -
  have "behavior_chain (nilObj example_kernel) lookup_memory 0x1000 [0x1000, 0x1100]"
    using lookup_chain by (simp add: example_kernel_def)
  moreover have "methodFor_in example_kernel 0x3000 lookup_memory c = Inr (if c = 0x1100 then Some 0x4000 else None)"
    if "c \<in> set [0x1000, 0x1100]" for c
    using that lookup_methods by auto
  ultimately show ?thesis
    using lookup_nearest [of example_kernel lookup_memory "0x1000" "[0x1000, 0x1100]" "0x3000"
        "\<lambda>c. if c = 0x1100 then Some 0x4000 else None"] by simp
qed

text \<open>The same lookup, found without the theorem, for the examples of a dispatch.\<close>

lemma example_lookup: "doLookup example_kernel 0x3000 lookup_memory 0x1000 = Inr (Some 0x4000)"
proof -
  have "behaviorNext 0x1000 lookup_memory = Inr 0x1100"
    by (simp add: lookup_evaluation)
  then show ?thesis
    using lookup_methods by (simp add: doLookup_def while_result_unfold example_kernel_def)
qed

definition empty_caches :: "unit dispatch_state" where
  "empty_caches = \<lparr>globalCache = [], inlineCaches = [], send_caches = \<lambda>_. []\<rparr>"

theorem dispatch_transparent_witness:
  "\<exists>s'. dispatch_message example_kernel (\<lambda>p. uint p) (\<lambda>_. None) lookup_memory 0x3000 0x1000 7 empty_caches = Inr (Invoke 0x4000, s')"
proof -
  have "methodSelector 0x4000 lookup_memory = Inr 0x3000"
    by (simp add: lookup_evaluation)
  moreover have "dispatch_reference example_kernel (\<lambda>_. None) lookup_memory 0x3000 0x1000 = Inr (Invoke 0x4000 :: unit decision)"
    by (simp add: dispatch_reference_def example_lookup)
  ultimately show ?thesis
    using dispatch_transparent [of example_kernel "\<lambda>_. None" lookup_memory "0x3000" "0x1000" "Invoke 0x4000" empty_caches 7]
    by (auto simp: example_lookup empty_caches_def send_cache_ok_def checkCache_def)
qed

text \<open>The method 0x5000 is gone from every dictionary, and still runs.\<close>

theorem flush_keeps_stale_methods_witness:
  "dispatch_message example_kernel (\<lambda>p. uint p) (\<lambda>_. None) lookup_memory 0x3000 0x1000 7
     (flushDispatchCache (\<lambda>p. uint p) 0x3000 (empty_caches\<lparr>send_caches := \<lambda>_. [Ref 0x1000, Ref 0x5000]\<rparr>)) =
   Inr (Invoke 0x5000, empty_caches\<lparr>send_caches := \<lambda>_. [Ref 0x1000, Ref 0x5000]\<rparr>)"
proof -
  let ?s = "empty_caches\<lparr>send_caches := \<lambda>_. [Ref 0x1000, Ref 0x5000]\<rparr>"
  have "send_caches ?s 7 = inline_items [(0x1000, 0x5000)]" "inline_find [(0x1000, 0x5000)] 0x1000 = Some 0x5000"
    by (simp_all add: inline_items_def)
  from flush_keeps_stale_methods [OF this, of "\<lambda>p. uint p" "0x3000" lookup_memory example_kernel "\<lambda>_. None"]
  show ?thesis
    by blast
qed

end
