(* ===== verification/ObjectPrimitives.thy ===== *)
theory ObjectPrimitives
  imports RuntimeObjects
begin

text \<open>
  The primitives and underprimitives of \<open>Evaluator.cpp\<close> that read, write and make objects.  A
  primitive answers an object or falls back to the Smalltalk code after it; the receiver and the
  arguments are parameters, and one that writes answers the new memory too.
\<close>

section \<open>Reading and writing elements\<close>

text \<open>\<open>c_narrow\<close> is the conversion of an \<open>intptr_t\<close> to \<open>int\<close>; \<open>c_unsigned\<close> the one to \<open>unsigned\<close>.\<close>

definition c_narrow :: "int \<Rightarrow> int" where
  "c_narrow i = signed_take_bit 31 i"

definition c_unsigned :: "int \<Rightarrow> 32 word" where
  "c_unsigned i = word_of_int i"

definition primitiveAt :: "known_objects \<Rightarrow> oop \<Rightarrow> oop \<Rightarrow> memory \<Rightarrow> prim_answer result" where
  "primitiveAt k receiver index m =
     (if isSmallInteger receiver then Inr FallBack
      else if \<not> isSmallInteger index then Inr FallBack
      else bind_result (asNative index) (\<lambda>i. bind_result (object_at m receiver) (\<lambda>obj.
        if isBytes obj
        then bind_result (object_size obj) (\<lambda>n.
          if i < 1 \<or> n \<le> c_unsigned (i - 1) then Inr FallBack
          else bind_result (byteAt (c_unsigned i) obj) (\<lambda>b. newIntObject (uint b)))
        else bind_result
          (if isNamed obj
           then bind_result (speciesOf k receiver m) (\<lambda>species. speciesInstanceSize species m)
           else Inr 0) (\<lambda>instSize.
          let rawSlot = (if isNamed obj then i + instSize else i) in
          bind_result (object_size obj) (\<lambda>n.
            if rawSlot < 1 \<or> n \<le> c_unsigned (rawSlot - 1) then Inr FallBack
            else bind_result (indexedSlot k receiver (c_narrow i) m) (\<lambda>x.
              bind_result (memory_slot x m) (\<lambda>v. Inr (Answer v))))))))"

definition primitiveAtPut :: "known_objects \<Rightarrow> oop \<Rightarrow> oop \<Rightarrow> oop \<Rightarrow> memory \<Rightarrow> (prim_answer \<times> memory) result" where
  "primitiveAtPut k receiver index v m =
     (if isSmallInteger receiver then Inl (FatalError ''primitiveAtPut: receiver must not be an integer'')
      else if \<not> isSmallInteger index then Inl (FatalError ''primitiveAtPut: index must be an integer'')
      else bind_result (asNative index) (\<lambda>i. bind_result (object_at m receiver) (\<lambda>obj.
        if isBytes obj
        then bind_result (asNative v) (\<lambda>native.
          assert_that (native < 256 \<and> - 128 \<le> native)
            (bind_result (byteAt_put (c_unsigned i) (word_of_int native) obj) (\<lambda>obj'.
              Inr (Answer receiver, m(receiver \<mapsto> obj')))))
        else bind_result (indexedSlot k receiver (c_narrow i) m) (\<lambda>x.
          bind_result (memory_slot_put x v m) (\<lambda>m'. Inr (Answer receiver, m'))))))"

section \<open>Classes, sizes and hashes\<close>

definition primitiveBehavior :: "known_objects \<Rightarrow> oop \<Rightarrow> memory \<Rightarrow> prim_answer result" where
  "primitiveBehavior k receiver m = bind_result (behaviorOf k receiver m) (\<lambda>b. Inr (Answer b))"

definition primitiveClass :: "known_objects \<Rightarrow> oop \<Rightarrow> memory \<Rightarrow> prim_answer result" where
  "primitiveClass k receiver m = bind_result (speciesOf k receiver m) (\<lambda>c. Inr (Answer c))"

definition primitiveSetBehavior :: "oop \<Rightarrow> oop \<Rightarrow> memory \<Rightarrow> (prim_answer \<times> memory) result" where
  "primitiveSetBehavior receiver b m =
     bind_result (change_object receiver (behavior_put b) m) (\<lambda>m. Inr (Answer receiver, m))"

definition primitiveSize :: "known_objects \<Rightarrow> oop \<Rightarrow> memory \<Rightarrow> prim_answer result" where
  "primitiveSize k receiver m = bind_result (arrayedSizeOf k receiver m) newIntObject"

definition primitiveHash :: "oop \<Rightarrow> object_space \<Rightarrow> (prim_answer \<times> object_space) result" where
  "primitiveHash receiver s = bind_result (hashFor receiver s) (\<lambda>(h, s).
     bind_result (newIntObject h) (\<lambda>a. Inr (a, s)))"

definition primitiveUnderHash :: "oop \<Rightarrow> memory \<Rightarrow> prim_answer result" where
  "primitiveUnderHash receiver m = bind_result (object_at m receiver) (\<lambda>obj. newIntObject (uint (header_hash obj)))"

definition primitiveUnderIsBytes :: "known_objects \<Rightarrow> oop \<Rightarrow> memory \<Rightarrow> prim_answer result" where
  "primitiveUnderIsBytes k receiver m = bind_result (object_at m receiver) (\<lambda>obj. Inr (Answer (booleanFor k (isBytes obj))))"

definition primitiveUnderPointersSize :: "oop \<Rightarrow> memory \<Rightarrow> prim_answer result" where
  "primitiveUnderPointersSize receiver m = bind_result (object_at m receiver) (\<lambda>obj.
     bind_result (pointersSize obj) (\<lambda>n. newIntObject (uint n)))"

definition primitiveUnderSize :: "oop \<Rightarrow> memory \<Rightarrow> prim_answer result" where
  "primitiveUnderSize receiver m = bind_result (object_at m receiver) (\<lambda>obj.
     bind_result (object_size obj) (\<lambda>n. newIntObject (uint n)))"

definition primitiveUnderBeSpecial :: "oop \<Rightarrow> memory \<Rightarrow> (prim_answer \<times> memory) result" where
  "primitiveUnderBeSpecial receiver m =
     (if isSmallInteger receiver then Inr (Answer receiver, m)
      else bind_result (change_object receiver (\<lambda>obj. Inr (beSpecial obj)) m) (\<lambda>m. Inr (Answer receiver, m)))"

definition primitiveEqual :: "known_objects \<Rightarrow> oop \<Rightarrow> oop \<Rightarrow> prim_answer result" where
  "primitiveEqual k receiver arg = Inr (Answer (booleanFor k (receiver = arg)))"

definition primitiveClosureArgumentCount :: "oop \<Rightarrow> memory \<Rightarrow> prim_answer result" where
  "primitiveClosureArgumentCount receiver m = bind_result (closureBlock receiver m) (\<lambda>block.
     bind_result (format_field blockArgumentCount block m) newIntObject)"

section \<open>New objects\<close>

definition answer_new :: "(oop \<times> memory) result \<Rightarrow> (prim_answer \<times> memory) result" where
  "answer_new r = bind_result r (\<lambda>(p, m). Inr (Answer p, m))"

definition primitiveNew :: "known_objects \<Rightarrow> allocator \<Rightarrow> oop \<Rightarrow> memory \<Rightarrow> (prim_answer \<times> memory) result" where
  "primitiveNew k allocate receiver m = answer_new (newSlotsOf k allocate receiver m)"

definition primitiveNewBytes :: "allocator \<Rightarrow> oop \<Rightarrow> oop \<Rightarrow> memory \<Rightarrow> (prim_answer \<times> memory) result" where
  "primitiveNewBytes allocate receiver arg m =
     (if \<not> isSmallInteger arg then Inr (FallBack, m)
      else bind_result (asNative arg) (\<lambda>n. answer_new (newBytes allocate receiver (c_unsigned n) m)))"

definition primitiveNewSized :: "known_objects \<Rightarrow> allocator \<Rightarrow> oop \<Rightarrow> oop \<Rightarrow> memory \<Rightarrow> (prim_answer \<times> memory) result" where
  "primitiveNewSized k allocate receiver arg m =
     (if \<not> isSmallInteger arg then Inr (FallBack, m)
      else bind_result (asNative arg) (\<lambda>n. answer_new (newOf_sized k allocate receiver (c_unsigned n) m)))"

definition primitiveFloatNew :: "allocator \<Rightarrow> oop \<Rightarrow> memory \<Rightarrow> (prim_answer \<times> memory) result" where
  "primitiveFloatNew allocate receiver m = answer_new (newBytes allocate receiver 8 m)"

text \<open>A new dictionary has a table of seven slots, whose policy is the dictionary.\<close>

definition primitiveDictionaryNew :: "known_objects \<Rightarrow> allocator \<Rightarrow> allocator \<Rightarrow> oop \<Rightarrow> memory \<Rightarrow> (prim_answer \<times> memory) result" where
  "primitiveDictionaryNew k allocate allocate' species m =
     bind_result (newSlots k allocate (openHashTableClass k) 7 m) (\<lambda>(table, m).
       bind_result (newSlotsOf k allocate' species m) (\<lambda>(dictionary, m).
         bind_result (integer_slot_put (dictionary, 0) 0 m) (\<lambda>m.
           bind_result (memory_slot_put (dictionary, 1) table m) (\<lambda>m.
             bind_result (memory_slot_put (table, 0) dictionary m) (\<lambda>m. Inr (Answer dictionary, m))))))"

section \<open>Bytes of strings\<close>

definition primitiveStringReplace ::
  "known_objects \<Rightarrow> oop \<Rightarrow> oop \<Rightarrow> oop \<Rightarrow> oop \<Rightarrow> oop \<Rightarrow> memory \<Rightarrow> (prim_answer \<times> memory) result" where
  "primitiveStringReplace k receiver from to source starting m =
     (if \<not> isSmallInteger from \<or> \<not> isSmallInteger to \<or> \<not> isSmallInteger starting then Inr (FallBack, m)
      else if isSmallInteger source then Inr (FallBack, m)
      else bind_result (speciesOf k receiver m) (\<lambda>c. bind_result (speciesOf k source m) (\<lambda>c'.
        if c \<noteq> c' then Inr (FallBack, m)
        else bind_result (asNative from) (\<lambda>f. bind_result (asNative to) (\<lambda>t. bind_result (asNative starting) (\<lambda>s.
          if t < f then Inr (Answer receiver, m)
          else bind_result (bind_result (object_at m receiver) object_size) (\<lambda>n.
            if f < 1 \<or> uint n < t then Inr (FallBack, m)
            else bind_result (bind_result (object_at m source) object_size) (\<lambda>n'.
              if s < 1 \<or> uint n' < s + (t - f + 1) - 1 then Inr (FallBack, m)
              else bind_result (replaceBytes receiver (word_of_int f) (word_of_int t) source (word_of_int s) m) (\<lambda>m.
                Inr (Answer receiver, m))))))))))"

section \<open>Underprimitives\<close>

text \<open>They check nothing beyond what the accessors assert; indices are narrowed to 32 bits.\<close>

definition read_under :: "oop \<Rightarrow> oop \<Rightarrow> memory \<Rightarrow> (32 word \<Rightarrow> heap_object \<Rightarrow> 'a result) \<Rightarrow> 'a result" where
  "read_under receiver index m read = bind_result (object_at m receiver) (\<lambda>obj.
     bind_result (asNative index) (\<lambda>i. read (c_unsigned i) obj))"

definition write_under :: "oop \<Rightarrow> oop \<Rightarrow> memory \<Rightarrow> (32 word \<Rightarrow> heap_object \<Rightarrow> heap_object result) \<Rightarrow> memory result" where
  "write_under receiver index m put = bind_result (asNative index) (\<lambda>i. change_object receiver (put (c_unsigned i)) m)"

definition underprimitiveBasicAt :: "oop \<Rightarrow> oop \<Rightarrow> memory \<Rightarrow> oop result" where
  "underprimitiveBasicAt receiver index m = read_under receiver index m untypedSlotAt"

definition underprimitiveBasicAtPut :: "oop \<Rightarrow> oop \<Rightarrow> oop \<Rightarrow> memory \<Rightarrow> (oop \<times> memory) result" where
  "underprimitiveBasicAtPut receiver index v m =
     bind_result (write_under receiver index m (\<lambda>i. untypedSlotAt_put i v)) (\<lambda>m. Inr (v, m))"

definition underprimitiveBasicFlags :: "oop \<Rightarrow> memory \<Rightarrow> oop result" where
  "underprimitiveBasicFlags receiver m = bind_result (object_at m receiver) (\<lambda>obj. new_int (uint (header_flags obj)))"

definition underprimitiveBasicHash :: "oop \<Rightarrow> memory \<Rightarrow> oop result" where
  "underprimitiveBasicHash receiver m = bind_result (object_at m receiver) (\<lambda>obj. new_int (uint (header_hash obj)))"

text \<open>\<open>_basicHash:\<close> answers the receiver of the running method, not of the message.\<close>

definition underprimitiveBasicHashPut :: "oop \<Rightarrow> oop \<Rightarrow> oop \<Rightarrow> memory \<Rightarrow> (oop \<times> memory) result" where
  "underprimitiveBasicHashPut running_self receiver arg m = bind_result (asNative arg) (\<lambda>h.
     bind_result (change_object receiver (\<lambda>obj. Inr (hash_put (word_of_int h) obj)) m) (\<lambda>m. Inr (running_self, m)))"

definition underprimitiveByteAt :: "oop \<Rightarrow> oop \<Rightarrow> memory \<Rightarrow> oop result" where
  "underprimitiveByteAt receiver index m = bind_result (read_under receiver index m unsafeByteAt) (\<lambda>b. new_int (uint b))"

definition underprimitiveByteAtPut :: "oop \<Rightarrow> oop \<Rightarrow> oop \<Rightarrow> memory \<Rightarrow> (oop \<times> memory) result" where
  "underprimitiveByteAtPut receiver index v m = bind_result (asNative v) (\<lambda>n.
     bind_result (write_under receiver index m (\<lambda>i. unsafeByteAt_put i (word_of_int n))) (\<lambda>m. Inr (v, m)))"

definition underprimitiveIsLarge :: "known_objects \<Rightarrow> oop \<Rightarrow> memory \<Rightarrow> oop result" where
  "underprimitiveIsLarge k receiver m = bind_result (object_at m receiver) (\<lambda>obj. Inr (booleanFor k (\<not> isSmall obj)))"

definition underprimitiveLargeSize :: "oop \<Rightarrow> memory \<Rightarrow> oop result" where
  "underprimitiveLargeSize receiver m = bind_result (object_at m receiver) (\<lambda>obj.
     if isSmall obj then Inl (FatalError ''underprimitiveLargeSize: receiver must be large'')
     else bind_result (object_size obj) (\<lambda>n. new_int (uint n)))"

definition underprimitiveSmallSize :: "oop \<Rightarrow> memory \<Rightarrow> oop result" where
  "underprimitiveSmallSize receiver m = bind_result (object_at m receiver) (\<lambda>obj.
     if \<not> isSmall obj then Inl (FatalError ''underprimitiveSmallSize: object must be small'')
     else bind_result (object_size obj) (\<lambda>n. new_int (uint n)))"

text \<open>A 64-bit value becomes an \<open>intptr_t\<close> before it is tagged.\<close>

definition underprimitiveULargeAtOffset :: "oop \<Rightarrow> oop \<Rightarrow> memory \<Rightarrow> oop result" where
  "underprimitiveULargeAtOffset receiver offset m = bind_result (read_under receiver offset m uint64offset) (\<lambda>w. new_int (sint w))"

definition underprimitiveULargeAtOffsetPut :: "oop \<Rightarrow> oop \<Rightarrow> oop \<Rightarrow> memory \<Rightarrow> (oop \<times> memory) result" where
  "underprimitiveULargeAtOffsetPut receiver offset v m = bind_result (asNative v) (\<lambda>n.
     bind_result (write_under receiver offset m (\<lambda>i. uint64offset_put i (word_of_int n))) (\<lambda>m. Inr (v, m)))"

definition underprimitiveULongAtOffset :: "oop \<Rightarrow> oop \<Rightarrow> memory \<Rightarrow> oop result" where
  "underprimitiveULongAtOffset receiver offset m = bind_result (read_under receiver offset m uint32offset) (\<lambda>w. new_int (uint w))"

definition underprimitiveULongAtOffsetPut :: "oop \<Rightarrow> oop \<Rightarrow> oop \<Rightarrow> memory \<Rightarrow> (oop \<times> memory) result" where
  "underprimitiveULongAtOffsetPut receiver offset v m = bind_result (asNative v) (\<lambda>n.
     bind_result (write_under receiver offset m (\<lambda>i. uint32offset_put i (word_of_int n))) (\<lambda>m. Inr (v, m)))"

definition underprimitiveUShortAtOffset :: "oop \<Rightarrow> oop \<Rightarrow> memory \<Rightarrow> oop result" where
  "underprimitiveUShortAtOffset receiver offset m = bind_result (read_under receiver offset m uint16offset) (\<lambda>w. new_int (uint w))"

definition underprimitiveUShortAtOffsetPut :: "oop \<Rightarrow> oop \<Rightarrow> oop \<Rightarrow> memory \<Rightarrow> (oop \<times> memory) result" where
  "underprimitiveUShortAtOffsetPut receiver offset v m = bind_result (asNative v) (\<lambda>n.
     bind_result (write_under receiver offset m (\<lambda>i. uint16offset_put i (word_of_int n))) (\<lambda>m. Inr (v, m)))"

lemma uint_c_unsigned: "uint (c_unsigned i) = i mod 2 ^ 32"
  by (simp add: c_unsigned_def uint_word_of_int)

lemma unat_c_unsigned: "unat (c_unsigned i) = nat (i mod 2 ^ 32)"
  using uint_c_unsigned [of i] by (simp flip: nat_uint_eq)

lemma unat_word_of_int: "0 \<le> i \<Longrightarrow> i < 2 ^ 62 \<Longrightarrow> unat (word_of_int i :: oop) = nat i"
  by (simp add: uint_word_of_int flip: nat_uint_eq)

lemma newIntObject_small: "0 \<le> i \<Longrightarrow> i < 2 ^ 62 \<Longrightarrow> newIntObject i = Inr (Answer (smi_tag i))"
  by (simp add: newIntObject_def smi_range_eq)

lemma uint_byte_small: "newIntObject (uint (b :: byte)) = Inr (Answer (smi_tag (uint b)))"
proof -
  have "uint b < 256"
    using unsigned_less [of b] by simp
  then show ?thesis
    by (intro newIntObject_small) simp_all
qed

section \<open>Bounds of \<open>at:\<close>\<close>

text \<open>
  \<open>at:\<close> on a byte object never faults.  It answers a byte or falls back; the test converts
  \<open>index - 1\<close> to 32 bits, so it accepts each index from 1 to the size, and also these indices plus
  multiples of \<open>2 ^ 32\<close>, where it answers the byte of the truncated index.
\<close>

lemma primitiveAt_bytes_eq:
  assumes "m receiver = Some obj" "\<not> isSmallInteger receiver" "well_formed obj" "isBytes obj" "object_size obj = Inr n"
    and "smi_range i"
  shows "primitiveAt k receiver (smi_tag i) m =
    Inr (if 1 \<le> i \<and> (i - 1) mod 2 ^ 32 < uint n
         then Answer (smi_tag (uint (body obj ! nat ((i - 1) mod 2 ^ 32)))) else FallBack)"
proof (cases "1 \<le> i \<and> (i - 1) mod 2 ^ 32 < uint n")
  case True
  then have less: "c_unsigned (i - 1) < n"
    by (simp add: word_less_def uint_c_unsigned)
  have "c_unsigned i - 1 = c_unsigned (i - 1)"
    by (simp add: c_unsigned_def)
  then have "byteAt (c_unsigned i) obj = Inr (body obj ! nat ((i - 1) mod 2 ^ 32))"
    using byte_well_formed(1) [OF assms(3,5,4) less] by (simp add: byteAt_def unat_c_unsigned)
  then show ?thesis
    using True assms less by (simp add: primitiveAt_def object_at_def uint_byte_small not_le)
next
  case False
  then have "i < 1 \<or> n \<le> c_unsigned (i - 1)"
    by (auto simp: word_le_def uint_c_unsigned)
  then show ?thesis
    using False assms by (auto simp: primitiveAt_def object_at_def)
qed

lemma indexedSlot_unnamed:
  "m p = Some obj \<Longrightarrow> \<not> isNamed obj \<Longrightarrow> indexedSlot k p i m = Inr (slot_position p i)"
  by (simp add: indexedSlot_def object_at_def)

lemma c_narrow_same: "- (2 ^ 31) \<le> i \<Longrightarrow> i < 2 ^ 31 \<Longrightarrow> c_narrow i = i"
  by (simp add: c_narrow_def signed_take_bit_int_eq_self)

text \<open>How many named slots come before the indexed ones.\<close>

definition named_slots :: "known_objects \<Rightarrow> oop \<Rightarrow> heap_object \<Rightarrow> memory \<Rightarrow> int result" where
  "named_slots k p obj m =
     (if isNamed obj then bind_result (speciesOf k p m) (\<lambda>species. speciesInstanceSize species m) else Inr 0)"


section \<open>Stores and loads\<close>

lemma at_after_atPut_facts:
  assumes obj: "m receiver = Some obj" "well_formed obj" "\<not> isNamed obj" "object_size obj = Inr n"
    and i: "1 \<le> i" "i \<le> uint n" "i < 2 ^ 31"
    and stored: "primitiveAtPut k receiver (smi_tag i) v m = Inr (a, m')"
  shows "a = Answer receiver"
    "primitiveAt k receiver (smi_tag i) m' = Inr (Answer (if isBytes obj then smi_tag (smi_untag v mod 256) else v))"
proof -
  have range: "smi_range i" "(i - 1) mod 2 ^ 32 = i - 1" "i - 1 < uint n"
    using i by (simp_all add: smi_range_eq)
  have less: "c_unsigned (i - 1) < n"
    using range by (simp add: word_less_def uint_c_unsigned)
  have "a = Answer receiver \<and>
    primitiveAt k receiver (smi_tag i) m' = Inr (Answer (if isBytes obj then smi_tag (smi_untag v mod 256) else v))"
  proof (cases "isBytes obj")
    case True
    have pred: "c_unsigned i - 1 = c_unsigned (i - 1)"
      by (simp add: c_unsigned_def)
    obtain native obj' where native: "asNative v = Inr native" "byteAt_put (c_unsigned i) (word_of_int native) obj = Inr obj'"
        "a = Answer receiver" "m' = m(receiver \<mapsto> obj')" and "\<not> isSmallInteger receiver"
      using stored True obj(1) range(1)
      by (auto simp: primitiveAtPut_def object_at_def bind_result_eq_Inr assert_that_def split: if_splits)
    have obj': "obj' = obj\<lparr>body := (body obj)[unat (c_unsigned (i - 1)) := word_of_int native]\<rparr>"
      using native(2) byte_put_well_formed [OF obj(2,4) True less] by (simp add: byteAt_put_def pred)
    have "unat (c_unsigned (i - 1)) < unat n"
      using less by (simp add: word_less_nat_alt)
    then have inside: "nat (i - 1) < length (body obj)"
      using obj True range by (auto elim!: well_formed_size simp: body_length_def unat_c_unsigned)
    have "primitiveAt k receiver (smi_tag i) m' =
      Inr (Answer (smi_tag (uint (body obj' ! nat (i - 1)))))"
    proof -
      have "m' receiver = Some obj'" "well_formed obj'" "isBytes obj'" "object_size obj' = Inr n"
        using native(4) obj(2,4) True by (auto simp: obj' well_formed_def)
      then show ?thesis
        using primitiveAt_bytes_eq [of m' receiver obj' n i k] range i \<open>\<not> isSmallInteger receiver\<close> by simp
    qed
    moreover have "body obj' ! nat (i - 1) = word_of_int native"
      using inside range by (simp add: obj' unat_c_unsigned)
    moreover have "native = smi_untag v"
      using native(1) by (simp add: asNative_def assert_that_def split: if_splits)
    ultimately show ?thesis
      using True native(3) by (simp add: uint_word_of_int)
  next
    case False
    then obtain x where x: "indexedSlot k receiver (c_narrow i) m = Inr x" "memory_slot_put x v m = Inr m'"
        "a = Answer receiver" "\<not> isSmallInteger receiver"
      using stored obj(1) range(1)
      by (auto simp: primitiveAtPut_def object_at_def bind_result_eq_Inr split: if_splits)
    have position: "x = (receiver, c_unsigned (i - 1))"
      using x(1) i obj(1,3) indexedSlot_unnamed [of m receiver obj k "c_narrow i"]
      by (simp add: c_narrow_same slot_position_def c_unsigned_def)
    obtain bs where bs: "m' receiver = Some (obj\<lparr>body := bs\<rparr>)"
      using memory_slot_put_body [OF x(2) obj(1)] by blast
    have "memory_slot (receiver, c_unsigned (i - 1)) m' = Inr v"
      using memory_slots.get_put [OF x(2)] position by simp
    moreover have "indexedSlot k receiver (c_narrow i) m' = Inr (receiver, c_unsigned (i - 1))"
      using indexedSlot_unnamed [of m' receiver "obj\<lparr>body := bs\<rparr>" k "c_narrow i"] bs obj(3) i
      by (simp add: c_narrow_same slot_position_def c_unsigned_def)
    ultimately show ?thesis
      using False x(3,4) bs obj(3,4) i less range
      by (simp add: primitiveAt_def object_at_def not_le)
  qed
  then show "a = Answer receiver"
    "primitiveAt k receiver (smi_tag i) m' = Inr (Answer (if isBytes obj then smi_tag (smi_untag v mod 256) else v))"
    by simp_all
qed

text \<open>
  C38: What \<open>at:put:\<close> stores in an object without named slots, \<open>at:\<close> answers at the same index: the
  value itself, or for a byte object its low eight bits.
\<close>

theorem at_after_atPut:
  assumes obj: "m receiver = Some obj" "well_formed obj" "\<not> isNamed obj" "object_size obj = Inr n"
    and i: "1 \<le> i" "i \<le> uint n" "i < 2 ^ 31"
    and stored: "primitiveAtPut k receiver (smi_tag i) v m = Inr (a, m')"
  shows "a = Answer receiver \<and>
    primitiveAt k receiver (smi_tag i) m' = Inr (Answer (if isBytes obj then smi_tag (smi_untag v mod 256) else v))"
  by (intro conjI at_after_atPut_facts [OF assms])

section \<open>Replacing bytes\<close>

text \<open>
  C11: \<open>replaceFrom:to:with:startingAt:\<close> on byte objects of one class with integer bounds never goes
  out of bounds: it answers the receiver unchanged for an empty range, falls back when either range
  leaves its object, and otherwise makes the bytes \<open>from\<close> to \<open>to\<close> those of the source from the
  starting position on, leaving the others and the header alone.  (Inside one object the copy is
  defined only when it moves bytes down or between disjoint ranges.)
\<close>

theorem string_replace_safe:
  assumes objects: "m receiver = Some dst" "m source = Some src" "\<not> isSmallInteger source"
    and forms: "well_formed dst" "well_formed src" "isBytes dst" "isBytes src"
    and sizes: "object_size dst = Inr n" "object_size src = Inr n'"
    and species: "speciesOf k receiver m = Inr c" "speciesOf k source m = Inr c"
    and ranges: "smi_range f" "smi_range t" "smi_range s"
    and overlap: "receiver = source \<Longrightarrow> f < s \<or> s + (t - f) < f"
  shows "let r = primitiveStringReplace k receiver (smi_tag f) (smi_tag t) source (smi_tag s) m in
    if t < f then r = Inr (Answer receiver, m)
    else if f < 1 \<or> uint n < t \<or> s < 1 \<or> uint n' < s + (t - f) then r = Inr (FallBack, m)
    else \<exists>bs. r = Inr (Answer receiver, m(receiver \<mapsto> dst\<lparr>body := bs\<rparr>)) \<and> length bs = length (body dst) \<and>
      (\<forall>i < length bs. bs ! i = (if nat f - 1 \<le> i \<and> i < nat t then body src ! (nat s - 1 + (i - (nat f - 1))) else body dst ! i))"
proof -
  have replace: "primitiveStringReplace k receiver (smi_tag f) (smi_tag t) source (smi_tag s) m =
    (if t < f then Inr (Answer receiver, m)
     else if f < 1 \<or> uint n < t then Inr (FallBack, m)
     else if s < 1 \<or> uint n' < s + (t - f) then Inr (FallBack, m)
     else bind_result (replaceBytes receiver (word_of_int f) (word_of_int t) source (word_of_int s) m) (\<lambda>m. Inr (Answer receiver, m)))"
  proof -
    have natives: "asNative (smi_tag f) = Inr f" "asNative (smi_tag t) = Inr t" "asNative (smi_tag s) = Inr s"
      using ranges by simp_all
    have at: "object_at m receiver = Inr dst" "object_at m source = Inr src"
      using objects by (simp_all add: object_at_def)
    have last: "s + (t - f + 1) - 1 = s + (t - f)"
      by simp
    show ?thesis
      by (simp only: primitiveStringReplace_def isSmallInteger_tag objects(3) species natives at sizes last
          bind_result_simps not_True_eq_False simp_thms if_False)
  qed
  have size: "int (length (body dst)) \<ge> uint n" "int (length (body src)) \<ge> uint n'"
  proof -
    have "unat n \<le> length (body dst)" "unat n' \<le> length (body src)"
      using forms sizes by (auto elim!: well_formed_size simp: body_length_def)
    then show "int (length (body dst)) \<ge> uint n" "int (length (body src)) \<ge> uint n'"
      by (simp_all only: uint_nat of_nat_le_iff)
  qed
  have "\<exists>bs. replaceBytes receiver (word_of_int f) (word_of_int t) source (word_of_int s) m =
        Inr (m(receiver \<mapsto> dst\<lparr>body := bs\<rparr>)) \<and> length bs = length (body dst) \<and>
      (\<forall>i < length bs. bs ! i = (if nat f - 1 \<le> i \<and> i < nat t then body src ! (nat s - 1 + (i - (nat f - 1))) else body dst ! i))"
    if inside: "\<not> t < f" "\<not> f < 1" "\<not> uint n < t" "\<not> s < 1" "\<not> uint n' < s + (t - f)"
  proof -
    have unat: "unat (word_of_int f :: oop) = nat f" "unat (word_of_int t :: oop) = nat t" "unat (word_of_int s :: oop) = nat s"
      using inside ranges by (simp_all add: unat_word_of_int smi_range_eq)
    show ?thesis
    proof (rule replaceBytes_copies [of m receiver dst source src "word_of_int f" "word_of_int t" "word_of_int s", unfolded unat])
      show "nat s + (nat t - nat f) \<le> length (body src)" "nat t \<le> length (body dst)"
        using inside size by linarith+
      show "nat f < nat s \<or> nat s + (nat t - nat f) < nat f" if "receiver = source"
        using overlap [OF that] inside by linarith
    qed (use objects inside in simp_all)
  qed
  note copied = this
  consider "t < f" | "\<not> t < f" "f < 1 \<or> uint n < t \<or> s < 1 \<or> uint n' < s + (t - f)"
    | "\<not> t < f" "\<not> f < 1" "\<not> uint n < t" "\<not> s < 1" "\<not> uint n' < s + (t - f)"
    by blast
  then show ?thesis
  proof cases
    case 3
    then obtain bs where bs: "replaceBytes receiver (word_of_int f) (word_of_int t) source (word_of_int s) m =
        Inr (m(receiver \<mapsto> dst\<lparr>body := bs\<rparr>))" "length bs = length (body dst)"
      "\<forall>i < length bs. bs ! i = (if nat f - 1 \<le> i \<and> i < nat t then body src ! (nat s - 1 + (i - (nat f - 1))) else body dst ! i)"
      using copied by blast
    have r: "primitiveStringReplace k receiver (smi_tag f) (smi_tag t) source (smi_tag s) m =
        Inr (Answer receiver, m(receiver \<mapsto> dst\<lparr>body := bs\<rparr>))"
      by (simp only: replace 3 simp_thms if_False bs(1) bind_result_simps)
    have outside: "\<not> (f < 1 \<or> uint n < t \<or> s < 1 \<or> uint n' < s + (t - f))"
      using 3 by blast
    show ?thesis
      unfolding Let_def r if_not_P [OF 3(1)] if_not_P [OF outside]
      by (intro exI [of _ bs] conjI refl bs(2,3))
  qed (auto simp: replace Let_def)
qed

section \<open>Requests too large\<close>

lemma oversized_requests_facts:
  assumes "speciesInstanceBehavior species m = Inr b"
  shows "primitiveNewBytes allocate species (smi_tag (- 1)) m = Inl Undefined"
    "speciesInstanceSize species m = Inr 0 \<Longrightarrow> speciesIsBytes species m = Inr False \<Longrightarrow>
       primitiveNewSized k allocate species (smi_tag 536870912) m = Inl Undefined"
proof -
  have "allocateBytes allocate 0xFFFFFFFF m = Inl Undefined"
    unfolding allocateBytes_def by (rule place_object_short)
      (simp add: request_header_def small_request_def MAX_SMALL_SIZE_def align_def)
  moreover have "c_unsigned (- 1) = 0xFFFFFFFF"
    by (simp add: c_unsigned_def)
  ultimately show "primitiveNewBytes allocate species (smi_tag (- 1)) m = Inl Undefined"
    using assms by (simp add: primitiveNewBytes_def newBytes_def answer_new_def smi_range_eq)
  assume "speciesInstanceSize species m = Inr 0" "speciesIsBytes species m = Inr False"
  moreover have "allocateSlots allocate (nilObj k) 0x20000000 m = Inl Undefined"
    unfolding allocateSlots_def by (rule place_object_short)
      (simp add: request_header_def small_request_def MAX_SMALL_SIZE_def)
  ultimately show "primitiveNewSized k allocate species (smi_tag 536870912) m = Inl Undefined"
    using assms by (simp add: primitiveNewSized_def c_unsigned_def newOf_sized_def newSlots_def answer_new_def smi_range_eq)
qed

text \<open>
  A request for a negative number of bytes, or for \<open>2 ^ 29\<close> or more slots, is not refused: the
  count becomes a 32-bit one and the total of header and body is truncated, so the object is
  written over a buffer of a few bytes.
\<close>

theorem oversized_requests:
  assumes "speciesInstanceBehavior species m = Inr b"
  shows "primitiveNewBytes allocate species (smi_tag (- 1)) m = Inl Undefined \<and>
    (speciesInstanceSize species m = Inr 0 \<longrightarrow> speciesIsBytes species m = Inr False \<longrightarrow>
       primitiveNewSized k allocate species (smi_tag 536870912) m = Inl Undefined)"
  using oversized_requests_facts [OF assms] by blast

section \<open>Examples\<close>

lemma eight_bytes_reads [simp]:
  "object_size eight_bytes = Inr 8" "isBytes eight_bytes" "well_formed eight_bytes" "isNamed eight_bytes = False"
  "body eight_bytes = [1, 2, 3, 4, 5, 6, 7, 8]"
proof -
  show size: "object_size eight_bytes = Inr 8"
    by (simp add: eight_bytes_def beBytes_def)
  show bytes: "isBytes eight_bytes" and "isNamed eight_bytes = False"
    by (simp_all add: eight_bytes_def beBytes_def flag_reader_defs flags_independent)
      (simp add: isNamed_def [symmetric])
  show body: "body eight_bytes = [1, 2, 3, 4, 5, 6, 7, 8]"
    by (simp add: eight_bytes_def beBytes_def)
  show "well_formed eight_bytes"
    by (simp add: well_formed_def size bytes body body_length_def)
qed

definition object_memory :: memory where
  "object_memory = example_memory(0x3000 \<mapsto> behaving 0x1000 False True eight_bytes,
     0x3100 \<mapsto> behaving 0x1000 False True eight_bytes, 0x3200 \<mapsto> behaving 0x1000 False True (pointers [0x30, 0x40]))"

lemma object_space_1000: "behavior_space 0x1000"
  by (simp add: behavior_space_def BEHAVIOR_ADDRESS_SPACE_def)

lemma object_memory_species: "p \<in> {0x3000, 0x3100, 0x3200} \<Longrightarrow> speciesOf k p object_memory = Inr 0x100"
  by (auto simp: speciesOf_def behaviorOf_def isSmallInteger_def object_memory_def object_at_def object_space_1000
      behaviorClass_def BehaviorClass_def memory_slot_def example_memory_def slot_pointers)


theorem at_after_atPut_witness:
  "\<exists>m'. primitiveAtPut example_kernel 0x3000 (smi_tag 3) (smi_tag (- 1)) object_memory = Inr (Answer 0x3000, m') \<and>
     primitiveAt example_kernel 0x3000 (smi_tag 3) m' = Inr (Answer (smi_tag 255))"
proof -
  let ?obj = "behaving 0x1000 False True eight_bytes"
  have obj: "object_memory 0x3000 = Some ?obj" "well_formed ?obj" "\<not> isNamed ?obj" "object_size ?obj = Inr 8"
    by (simp_all add: object_memory_def)
  have "byte_put 2 (- 1) ?obj = Inr (?obj\<lparr>body := (body ?obj)[2 := - 1]\<rparr>)"
    using byte_put_well_formed [OF obj(2,4), of 2 "- 1"] by simp
  then obtain m' where stored: "primitiveAtPut example_kernel 0x3000 (smi_tag 3) (smi_tag (- 1)) object_memory = Inr (Answer 0x3000, m')"
    using obj(1) by (simp add: primitiveAtPut_def isSmallInteger_def [of "0x3000"] object_at_def smi_range_eq c_unsigned_def byteAt_put_def)
  have "primitiveAt example_kernel 0x3000 (smi_tag 3) m' = Inr (Answer (smi_tag 255))"
    using at_after_atPut [OF obj _ _ _ stored] by (simp add: smi_range_eq)
  then show ?thesis
    using stored by blast
qed

theorem string_replace_safe_witness:
  "\<exists>bs. primitiveStringReplace example_kernel 0x3000 (smi_tag 2) (smi_tag 4) 0x3100 (smi_tag 6) object_memory =
     Inr (Answer 0x3000, object_memory(0x3000 \<mapsto> behaving 0x1000 False True eight_bytes\<lparr>body := bs\<rparr>)) \<and> bs ! 1 = 6"
proof -
  let ?obj = "behaving 0x1000 False True eight_bytes"
  have "object_memory 0x3000 = Some ?obj" "object_memory 0x3100 = Some ?obj" "\<not> isSmallInteger 0x3100"
    by (simp_all add: object_memory_def isSmallInteger_def)
  from string_replace_safe [OF this, of 8 8 example_kernel "0x100" 2 4 6] object_memory_species [of _ example_kernel]
  show ?thesis
    by (auto simp: smi_range_eq Let_def)
qed

theorem oversized_requests_witness:
  "primitiveNewBytes (\<lambda>_. 0x8000) 0x100 (smi_tag (- 1)) example_memory = Inl Undefined"
  using oversized_requests [of "0x100" example_memory "0x1000" "\<lambda>_. 0x8000"]
  by (simp add: speciesInstanceBehavior_def SpeciesInstanceBehavior_def memory_slot_def object_at_def example_memory_def slot_pointers)

end
