(* ===== verification/Spaces.thy ===== *)
theory Spaces
  imports ObjectMemory
begin

text \<open>
  Where objects are allocated: the reservation of address ranges (\<open>Posix/Memory.cpp\<close>), the spaces of
  \<open>Allocator/GCSpace.cpp\<close>, the zone of fixed-size regions of \<open>Allocator/AllocationZone.cpp\<close> and the
  allocation of \<open>Allocator/GCHeap.cpp\<close>.  A \<open>GCSpace*\<close> is an index into the list of the spaces
  created so far, since the heap and its zone share spaces through their vectors.
\<close>

section \<open>Reserving and committing memory\<close>

text \<open>
  \<open>mmap\<close> is the operating system's: \<open>accepts maps base size\<close> says whether it maps the range at
  the given base next to the mappings that exist; an answer at another base counts as a refusal,
  since the code unmaps it again.  \<open>mprotect\<close> and \<open>munmap\<close> are recorded as calls.
\<close>

datatype os_call = Commit oop oop | Decommit oop oop | Free oop oop

record gc_space =
  space_base :: oop
  space_next :: oop
  softLimit :: oop
  committedLimit :: oop
  reservedLimit :: oop

record gc_heap =
  page_size :: oop
  accepts :: "(oop \<times> oop) list \<Rightarrow> oop \<Rightarrow> oop \<Rightarrow> bool"
  os_nextFree :: oop
  os_limit :: oop
  mappings :: "(oop \<times> oop) list"
  os_calls :: "os_call list"
  gc_spaces :: "gc_space list"
  heap_spaces :: "nat list"
  largeSpaces :: "nat option list"
  eden :: "nat option"
  zone_base :: oop
  zone_nextFree :: oop
  zone_limit :: oop
  current_space :: "nat option"
  next_space :: "nat option"
  zone_spaces :: "nat list"
  emptySpaces :: "nat list"
  occupancy :: "oop list"
  atGCSafepoint :: bool
  atGCUnsafepoint :: bool
  gcNeeded :: bool
  countdown :: oop
  evacuated :: "bool list"
  largeSize_seen :: "32 word"

definition MB :: oop where "MB = 1024 * 1024"
definition SPACE_SIZE_SHIFT :: nat where "SPACE_SIZE_SHIFT = 18"
definition SPACE_SIZE :: oop where "SPACE_SIZE = push_bit SPACE_SIZE_SHIFT 1"
definition LargeThreshold :: oop where "LargeThreshold = 64 * 1024"

text \<open>A heap operation answers a value and the heap it leaves; a fault ends the program.\<close>

type_synonym ('a, 'h) heap_op = "'h \<Rightarrow> ('a \<times> 'h) result"

definition pagealign :: "oop \<Rightarrow> 'h gc_heap_scheme \<Rightarrow> oop" where
  "pagealign address h = align address (page_size h)"

definition reserve_start :: "oop \<Rightarrow> 'h gc_heap_scheme \<Rightarrow> oop" where
  "reserve_start base h =
     (if base = 0 \<or> base < BEHAVIOR_ADDRESS_SPACE \<or> os_limit h < base then os_nextFree h else base)"

definition ReserveMemory :: "oop \<Rightarrow> oop \<Rightarrow> (oop, 'h gc_heap_scheme) heap_op" where
  "ReserveMemory base n h =
     (let asked = pagealign n h in
      bind_result (while_result (\<lambda>b. \<not> accepts h (mappings h) b asked)
          (\<lambda>b. if os_limit h \<le> b + 0x10000 then Inl (FatalError ''Memory allocation failed'') else Inr (b + 0x10000))
          (reserve_start base h))
        (\<lambda>b. Inr (b, h\<lparr>os_nextFree := pagealign (b + n) h, mappings := (b, asked) # mappings h\<rparr>)))"

definition os_call :: "os_call \<Rightarrow> 'h gc_heap_scheme \<Rightarrow> 'h gc_heap_scheme" where
  "os_call c h = h\<lparr>os_calls := os_calls h @ [c]\<rparr>"

definition space_at :: "nat option \<Rightarrow> 'h gc_heap_scheme \<Rightarrow> gc_space result" where
  "space_at p h = (case p of None \<Rightarrow> Inl Undefined
     | Some i \<Rightarrow> if i < length (gc_spaces h) then Inr (gc_spaces h ! i) else Inl Undefined)"

definition put_space :: "nat option \<Rightarrow> gc_space \<Rightarrow> 'h gc_heap_scheme \<Rightarrow> 'h gc_heap_scheme" where
  "put_space p s h = (case p of None \<Rightarrow> h | Some i \<Rightarrow> h\<lparr>gc_spaces := (gc_spaces h)[i := s]\<rparr>)"

section \<open>Spaces\<close>

definition committedSize :: "gc_space \<Rightarrow> oop" where
  "committedSize s = committedLimit s - space_base s"
definition usedSize :: "gc_space \<Rightarrow> oop" where "usedSize s = space_next s - space_base s"
definition softAvailable :: "gc_space \<Rightarrow> oop" where "softAvailable s = softLimit s - space_next s"
definition reservedSize :: "gc_space \<Rightarrow> oop" where "reservedSize s = reservedLimit s - space_base s"
definition isFree :: "gc_space \<Rightarrow> bool" where "isFree s \<longleftrightarrow> committedSize s = 0"
definition space_includes :: "oop \<Rightarrow> gc_space \<Rightarrow> bool" where
  "space_includes object s \<longleftrightarrow> space_base s < object \<and> object < space_next s"

definition allocatedAt_limit :: "oop \<Rightarrow> oop \<Rightarrow> bool \<Rightarrow> gc_space" where
  "allocatedAt_limit b limit vacant = (let stop = if vacant then b else limit in
     \<lparr>space_base = b, space_next = stop, softLimit = stop, committedLimit = stop, reservedLimit = limit\<rparr>)"

definition allocatedAt_size :: "oop \<Rightarrow> oop \<Rightarrow> bool \<Rightarrow> gc_space" where
  "allocatedAt_size b n vacant = allocatedAt_limit b (b + n) vacant"

text \<open>The constructor with an \<open>int\<close> size.\<close>

definition new_space :: "32 word \<Rightarrow> (gc_space, 'h gc_heap_scheme) heap_op" where
  "new_space n h = bind_result (ReserveMemory 0 (scast n) h) (\<lambda>(b, h').
     if b = 0 then Inl (FatalError ''Failed to reserve memory.'')
     else Inr (allocatedAt_limit b (b + scast n) True, h'))"

definition commitMemoryUpTo :: "oop \<Rightarrow> nat option \<Rightarrow> (bool, 'h gc_heap_scheme) heap_op" where
  "commitMemoryUpTo address p h = bind_result (space_at p h) (\<lambda>s.
     let newLimit = min (pagealign address h) (reservedLimit s) in
     if newLimit < address then Inr (False, h)
     else Inr (True, put_space p (s\<lparr>committedLimit := newLimit\<rparr>)
            (os_call (Commit (committedLimit s) (newLimit - committedLimit s)) h)))"

definition commitMemory :: "32 word \<Rightarrow> nat option \<Rightarrow> (bool, 'h gc_heap_scheme) heap_op" where
  "commitMemory delta p h = bind_result (space_at p h) (\<lambda>s. commitMemoryUpTo (committedLimit s + ucast delta) p h)"

definition allocateIfPossible :: "32 word \<Rightarrow> nat option \<Rightarrow> (oop, 'h gc_heap_scheme) heap_op" where
  "allocateIfPossible n p h = bind_result (space_at p h) (\<lambda>s.
     let stop = space_next s + ucast n in
     if stop < softLimit s then Inr (space_next s, put_space p (s\<lparr>space_next := stop\<rparr>) h) else Inr (0, h))"

definition allocateCommittingIfNeeded :: "32 word \<Rightarrow> nat option \<Rightarrow> (oop, 'h gc_heap_scheme) heap_op" where
  "allocateCommittingIfNeeded n p h = bind_result (space_at p h) (\<lambda>s.
     let answer = space_next s; stop = answer + ucast n in
     if stop \<le> softLimit s then Inr (answer, put_space p (s\<lparr>space_next := stop\<rparr>) h)
     else bind_result (commitMemoryUpTo stop p h) (\<lambda>(ok, h').
       if ok then bind_result (space_at p h') (\<lambda>s'.
         Inr (answer, put_space p (s'\<lparr>softLimit := committedLimit s', space_next := stop\<rparr>) h'))
       else Inr (0, h')))"

text \<open>\<open>available\<close> is an \<open>int32_t\<close>.\<close>

definition increaseSoftLimit :: "32 word \<Rightarrow> gc_space \<Rightarrow> bool \<times> gc_space" where
  "increaseSoftLimit delta s =
     (let available = (ucast (committedLimit s - softLimit s) :: 32 word) in
      if sint available < 0 then (False, s)
      else (True, s\<lparr>softLimit := softLimit s + ucast (min delta available)\<rparr>))"

section \<open>The zone of old spaces\<close>

definition indexOfPointer :: "oop \<Rightarrow> 'h gc_heap_scheme \<Rightarrow> oop" where
  "indexOfPointer address h = drop_bit SPACE_SIZE_SHIFT (address - zone_base h) div 2 + 1"

definition put_occupancy :: "oop \<Rightarrow> oop \<Rightarrow> 'h gc_heap_scheme \<Rightarrow> 'h gc_heap_scheme result" where
  "put_occupancy index bytes h =
     (if unat (index - 1) < length (occupancy h)
      then Inr (h\<lparr>occupancy := (occupancy h)[unat (index - 1) := bytes]\<rparr>) else Inl Undefined)"

definition markAsFull :: "nat option \<Rightarrow> 'h gc_heap_scheme \<Rightarrow> 'h gc_heap_scheme result" where
  "markAsFull p h = bind_result (space_at p h) (\<lambda>s.
     put_occupancy (indexOfPointer (space_base s) h) SPACE_SIZE h)"

definition createEmptySpace :: "'h gc_heap_scheme \<Rightarrow> 'h gc_heap_scheme result" where
  "createEmptySpace h =
     (if zone_nextFree h = zone_limit h then Inl (FatalError ''Out of space in old zone'')
      else let start = zone_nextFree h; stop = start + SPACE_SIZE; i = length (gc_spaces h) in
        Inr (h\<lparr>zone_nextFree := stop + SPACE_SIZE, gc_spaces := gc_spaces h @ [allocatedAt_limit start stop True],
               zone_spaces := zone_spaces h @ [i], emptySpaces := emptySpaces h @ [i],
               heap_spaces := heap_spaces h @ [i]\<rparr>))"

definition bumpSpace :: "'h gc_heap_scheme \<Rightarrow> 'h gc_heap_scheme result" where
  "bumpSpace h =
     (let h1 = h\<lparr>current_space := next_space h\<rparr> in
      bind_result (if emptySpaces h1 = [] then createEmptySpace h1 else Inr h1) (\<lambda>h2.
      let n = Some (last (emptySpaces h2)); h3 = h2\<lparr>next_space := n, emptySpaces := butlast (emptySpaces h2)\<rparr> in
      bind_result (space_at n h3) (\<lambda>s.
      bind_result (commitMemory (ucast (reservedSize s)) n h3) (\<lambda>(ok, h4).
      bind_result (space_at n h4) (\<lambda>s'.
      markAsFull n (put_space n (s'\<lparr>softLimit := committedLimit s'\<rparr>) h4))))))"

text \<open>The constructor leaves \<open>_current\<close> and \<open>_next\<close> undefined; the two bumps of \<open>build\<close> set them.\<close>

definition build_zone :: "'h gc_heap_scheme \<Rightarrow> 'h gc_heap_scheme result" where
  "build_zone h =
     (let n = unat (indexOfPointer (zone_limit h - 1) h) in
      bind_result (bumpSpace (h\<lparr>occupancy := take n (occupancy h @ replicate n 0)\<rparr>)) bumpSpace)"

definition allocateIfPossibleCurrent :: "oop \<Rightarrow> (oop, 'h gc_heap_scheme) heap_op" where
  "allocateIfPossibleCurrent n h = allocateIfPossible (ucast n) (current_space h) h"

definition allocateIfPossibleBumping :: "oop \<Rightarrow> (oop, 'h gc_heap_scheme) heap_op" where
  "allocateIfPossibleBumping n h =
     bind_result (allocateIfPossible (ucast n) (current_space h) h) (\<lambda>(oop, h').
       if oop \<noteq> 0 then Inr (oop, h')
       else bind_result (bumpSpace h') (\<lambda>h''. allocateIfPossible (ucast n) (current_space h'') h''))"

definition zone_allocate :: "oop \<Rightarrow> (oop, 'h gc_heap_scheme) heap_op" where
  "zone_allocate n h = bind_result (allocateIfPossibleBumping n h) (\<lambda>(oop, h').
     if oop = 0 then Inl (FatalError ''Out of memory in old space'') else Inr (oop, h'))"

definition assureFree :: "oop \<Rightarrow> 'h gc_heap_scheme \<Rightarrow> 'h gc_heap_scheme result" where
  "assureFree n h = bind_result (space_at (current_space h) h) (\<lambda>s.
     if softAvailable s < n then bumpSpace h else Inr h)"

text \<open>The counters are declared with \<open>auto sum = 0\<close>, an \<open>int\<close>, and so cut to 32 bits at each step.\<close>

definition add_to_int :: "oop \<Rightarrow> 32 word \<Rightarrow> 32 word" where
  "add_to_int n acc = ucast ((scast acc :: oop) + n)"

definition sum_of_spaces :: "(nat \<Rightarrow> gc_space \<Rightarrow> oop) \<Rightarrow> 'h gc_heap_scheme \<Rightarrow> oop result" where
  "sum_of_spaces f h = bind_result
     (fold (\<lambda>k r. bind_result r (\<lambda>acc. bind_result (space_at (Some (zone_spaces h ! k)) h) (\<lambda>s.
         Inr (add_to_int (f k s) acc)))) [0..<length (zone_spaces h)] (Inr 0))
     (\<lambda>acc. Inr (scast acc))"

definition committedBytes :: "'h gc_heap_scheme \<Rightarrow> oop result" where
  "committedBytes = sum_of_spaces (\<lambda>k. committedSize)"
definition usedBytes :: "'h gc_heap_scheme \<Rightarrow> oop result" where
  "usedBytes = sum_of_spaces (\<lambda>k. usedSize)"
definition occupiedBytes :: "'h gc_heap_scheme \<Rightarrow> oop result" where
  "occupiedBytes h = sum_of_spaces (\<lambda>k s. if isFree s then 0 else occupancy h ! k) h"

definition reservedBytes :: "'h gc_heap_scheme \<Rightarrow> oop" where "reservedBytes h = zone_limit h - zone_base h"
definition usableBytes :: "'h gc_heap_scheme \<Rightarrow> oop" where "usableBytes h = reservedBytes h div 2"
definition availableBytes :: "'h gc_heap_scheme \<Rightarrow> oop result" where
  "availableBytes h = bind_result (committedBytes h) (\<lambda>n. Inr (usableBytes h - n))"

definition regionCount :: "'h gc_heap_scheme \<Rightarrow> oop" where
  "regionCount h = indexOfPointer (zone_nextFree h - 1) h"

definition regionIndexOf :: "oop \<Rightarrow> 'h gc_heap_scheme \<Rightarrow> oop" where
  "regionIndexOf object h =
     (if object < zone_base h \<or> zone_limit h \<le> object then - 1 else indexOfPointer object h)"

definition recycleSpace :: "nat \<Rightarrow> 'h gc_heap_scheme \<Rightarrow> 'h gc_heap_scheme" where
  "recycleSpace i h = h\<lparr>emptySpaces := emptySpaces h @ [i]\<rparr>"

definition relocate_zone :: "oop \<Rightarrow> 'h gc_heap_scheme \<Rightarrow> 'h gc_heap_scheme" where
  "relocate_zone delta h = h\<lparr>zone_base := zone_base h + delta, zone_nextFree := zone_nextFree h + delta,
     zone_limit := zone_limit h + delta\<rparr>"

definition resetOccupancy :: "'h gc_heap_scheme \<Rightarrow> 'h gc_heap_scheme result" where
  "resetOccupancy h = bind_result (markAsFull (current_space h) (h\<lparr>occupancy := map (\<lambda>_. 0) (occupancy h)\<rparr>))
     (markAsFull (next_space h))"

text \<open>The bytes of the body are added to the occupancy of the region of an object.\<close>

definition updateRegionOccupancy :: "oop \<Rightarrow> 32 word \<Rightarrow> 'h gc_heap_scheme \<Rightarrow> 'h gc_heap_scheme result" where
  "updateRegionOccupancy object bytes h =
     (let index = regionIndexOf object h in
      if sint index < 0 then Inr h
      else if unat (index - 1) < length (occupancy h)
        then put_occupancy index (occupancy h ! unat (index - 1) + ucast bytes) h
        else Inl Undefined)"

section \<open>The heap\<close>

definition addSpace :: "gc_space \<Rightarrow> (nat, 'h gc_heap_scheme) heap_op" where
  "addSpace s h = (let i = length (gc_spaces h) in
     Inr (i, h\<lparr>gc_spaces := gc_spaces h @ [s], heap_spaces := heap_spaces h @ [i]\<rparr>))"

definition addNewSpaceSized :: "32 word \<Rightarrow> (nat, 'h gc_heap_scheme) heap_op" where
  "addNewSpaceSized n h = bind_result (new_space n h) (\<lambda>(s, h'). addSpace s h')"

definition createLargeSpace :: "oop \<Rightarrow> (nat, 'h gc_heap_scheme) heap_op" where
  "createLargeSpace n h = bind_result (ReserveMemory 0 n h) (\<lambda>(address, h1).
     if address = 0 then Inl (FatalError ''Not enough memory to allocate'')
     else bind_result (addSpace (allocatedAt_limit address (address + n) True) h1) (\<lambda>(i, h2).
       Inr (i, h2\<lparr>largeSpaces := largeSpaces h2 @ [Some i]\<rparr>)))"

definition allocateLarge :: "32 word \<Rightarrow> (oop, 'h gc_heap_scheme) heap_op" where
  "allocateLarge n h = bind_result (addNewSpaceSized n h) (\<lambda>(i, h').
     allocateCommittingIfNeeded n (Some i) h')"

definition isGCAllowed :: "'h gc_heap_scheme \<Rightarrow> bool" where
  "isGCAllowed h \<longleftrightarrow> atGCSafepoint h \<and> \<not> atGCUnsafepoint h"

definition tenured :: "oop \<Rightarrow> 'h gc_heap_scheme \<Rightarrow> 'h gc_heap_scheme" where
  "tenured n h = h\<lparr>countdown := countdown h - n\<rparr>"

definition hasReachedCountdown :: "'h gc_heap_scheme \<Rightarrow> bool" where
  "hasReachedCountdown h \<longleftrightarrow> sint (countdown h) \<le> 0"

text \<open>\<open>collect\<close> is \<open>collectOld\<close>, which the theory of the collector defines.\<close>

definition collectIfTime :: "('h gc_heap_scheme \<Rightarrow> 'h gc_heap_scheme result) \<Rightarrow> 'h gc_heap_scheme \<Rightarrow> 'h gc_heap_scheme result" where
  "collectIfTime collect h = (if gcNeeded h \<or> hasReachedCountdown h then collect h else Inr h)"

definition heap_allocate ::
  "('h gc_heap_scheme \<Rightarrow> 'h gc_heap_scheme result) \<Rightarrow> 32 word \<Rightarrow> (oop, 'h gc_heap_scheme) heap_op" where
  "heap_allocate collect n h =
     bind_result (allocateIfPossibleCurrent (ucast n) h) (\<lambda>(oop, h1).
     if oop \<noteq> 0 then Inr (oop, tenured (ucast n) h1)
     else if LargeThreshold < ucast n then allocateLarge n h1
     else bind_result (if isGCAllowed h1 then collectIfTime collect h1 else Inr (h1\<lparr>gcNeeded := True\<rparr>)) (\<lambda>h2.
       allocateIfPossibleBumping (ucast n) (tenured (ucast n) h2)))"

definition new_heap :: "oop \<Rightarrow> ((oop \<times> oop) list \<Rightarrow> oop \<Rightarrow> oop \<Rightarrow> bool) \<Rightarrow> oop \<Rightarrow> oop \<Rightarrow> gc_heap result" where
  "new_heap page accept free limit =
     (let h = \<lparr>page_size = page, accepts = accept, os_nextFree = free, os_limit = limit, mappings = [], os_calls = [],
        gc_spaces = [], heap_spaces = [], largeSpaces = [], eden = None, zone_base = 0, zone_nextFree = 0, zone_limit = 0,
        current_space = None, next_space = None, zone_spaces = [], emptySpaces = [], occupancy = [],
        atGCSafepoint = False, atGCUnsafepoint = False, gcNeeded = False, countdown = 0, evacuated = [],
        largeSize_seen = 0\<rparr> in
      bind_result (addNewSpaceSized (ucast (16 * MB)) h) (\<lambda>(i, h1).
      bind_result (ReserveMemory 0x100000000 (128 * MB) (h1\<lparr>eden := Some i\<rparr>)) (\<lambda>(address, h2).
      bind_result (build_zone (h2\<lparr>zone_base := address, zone_nextFree := address, zone_limit := address + 128 * MB\<rparr>)) (\<lambda>h3.
      Inr (h3\<lparr>countdown := MB\<rparr>)))))"

text \<open>\<open>InitializeMemory\<close>, where the address space of behaviors starts at 0.\<close>

definition InitializeMemory :: "oop \<times> oop" where
  "InitializeMemory =
     (if BEHAVIOR_ADDRESS_SPACE = 0 then 0x100000 else BEHAVIOR_ADDRESS_SPACE, BEHAVIOR_ADDRESS_SPACE + 0x100000000)"


end
