(* ===== verification/Collector.thy ===== *)
theory Collector
  imports Spaces RuntimeObjects
begin

text \<open>
  The collector of the old zone (\<open>Allocator/GarbageCollector.cpp\<close>, \<open>Allocator/G1GC.cpp\<close>): which
  regions are evacuated, the tracing of the object graph with its forwarders, ephemerons, weak
  containers and native stacks, and the sweep.  \<open>tracer\<close> extends the heap of the spaces with the
  memory of objects and with what the collector keeps; \<open>native_words\<close> are the words outside objects:
  the frames of native stacks, and the forwarders in the upper half of an evacuated region.
\<close>

section \<open>State\<close>

record tracer = gc_heap +
  mem :: memory
  native_words :: "oop \<Rightarrow> oop option"
  mark_stack :: "(oop \<times> 32 word \<times> 32 word) list"
  weakContainers :: "oop list"
  uncheckedEphemerons :: "oop list"
  unreachedEphemerons :: "oop list"
  rescuedEphemerons :: "oop list"
  pending_stacks :: "oop list"
  gced_refs :: "oop option list"
  root_R :: oop
  root_S :: oop
  root_E :: oop
  root_M :: oop
  live_stack :: oop
  live_sp :: oop
  live_bp :: oop
  tombstone :: oop

text \<open>A root is a place that holds an object: a registered reference (a released one is null), a
  register of the evaluator, or a word of a native stack.\<close>

datatype root = RefRoot nat | RegisterR | RegisterS | RegisterE | RegisterM | WordRoot oop

definition native_word :: "oop \<Rightarrow> tracer \<Rightarrow> oop result" where
  "native_word a s = (case native_words s a of None \<Rightarrow> Inl Undefined | Some w \<Rightarrow> Inr w)"

fun root_value :: "root \<Rightarrow> tracer \<Rightarrow> oop result" where
  "root_value (RefRoot i) s = (case gced_refs s ! i of None \<Rightarrow> Inl Undefined | Some v \<Rightarrow> Inr v)"
| "root_value RegisterR s = Inr (root_R s)"
| "root_value RegisterS s = Inr (root_S s)"
| "root_value RegisterE s = Inr (root_E s)"
| "root_value RegisterM s = Inr (root_M s)"
| "root_value (WordRoot a) s = native_word a s"

fun root_put :: "root \<Rightarrow> oop \<Rightarrow> tracer \<Rightarrow> tracer" where
  "root_put (RefRoot i) v s = s\<lparr>gced_refs := (gced_refs s)[i := Some v]\<rparr>"
| "root_put RegisterR v s = s\<lparr>root_R := v\<rparr>"
| "root_put RegisterS v s = s\<lparr>root_S := v\<rparr>"
| "root_put RegisterE v s = s\<lparr>root_E := v\<rparr>"
| "root_put RegisterM v s = s\<lparr>root_M := v\<rparr>"
| "root_put (WordRoot a) v s = s\<lparr>native_words := (native_words s)(a \<mapsto> v)\<rparr>"

section \<open>Walking a space\<close>

text \<open>
  \<open>ObjectHeader::object\<close> tells a small header from a large one by the flag byte behind the hash and
  the size; for a large header that byte is the top byte of the 32-bit size.
\<close>

definition header_object :: "oop \<Rightarrow> memory \<Rightarrow> oop result" where
  "header_object a m = (case m (a + 8) of
      Some obj \<Rightarrow> if isSmall obj then Inr (a + 8) else Inl Undefined
    | None \<Rightarrow> (case m (a + 16) of
        Some obj \<Rightarrow> (case large_header obj of
            Some n \<Rightarrow> if isLarge obj \<and> \<not> bit n 31 then Inr (a + 16) else Inl Undefined
          | None \<Rightarrow> Inl Undefined)
      | None \<Rightarrow> Inl Undefined))"

definition nextHeader :: "oop \<Rightarrow> memory \<Rightarrow> oop result" where
  "nextHeader p m = bind_result (object_at m p) (\<lambda>obj. bind_result (bodySizeInBytes obj) (\<lambda>n. Inr (p + ucast n)))"

definition firstObject :: "gc_space \<Rightarrow> memory \<Rightarrow> oop result" where
  "firstObject s = header_object (space_base s)"

definition objectsDo :: "(oop \<Rightarrow> memory \<Rightarrow> memory result) \<Rightarrow> gc_space \<Rightarrow> memory \<Rightarrow> memory result" where
  "objectsDo f s m = bind_result (while_result (\<lambda>(header, m). header < space_next s)
      (\<lambda>(header, m). bind_result (header_object header m) (\<lambda>object.
        bind_result (nextHeader object m) (\<lambda>header'. bind_result (f object m) (\<lambda>m'. Inr (header', m')))))
      (space_base s, m)) (\<lambda>(header, m). Inr m)"

definition unmark :: "oop \<Rightarrow> memory \<Rightarrow> memory result" where
  "unmark p m = bind_result (object_at m p) (\<lambda>obj. Inr (m(p \<mapsto> beUnseen obj)))"

definition unmarkAll :: "gc_space \<Rightarrow> memory \<Rightarrow> memory result" where
  "unmarkAll = objectsDo unmark"

section \<open>Evacuation\<close>

text \<open>0.8 times the size of a region, cut to an integer.\<close>

definition evacuation_threshold :: oop where "evacuation_threshold = 209715"

definition evacuation_step :: "nat \<Rightarrow> oop \<times> 'h gc_heap_scheme \<Rightarrow> (oop \<times> 'h gc_heap_scheme) result" where
  "evacuation_step i = (\<lambda>(headroom, h).
     if i < length (occupancy h) \<and> i < length (zone_spaces h) then
       let spaceOccup = occupancy h ! i; p = Some (zone_spaces h ! i) in
       if 0 < spaceOccup \<and> spaceOccup < evacuation_threshold then
         bind_result (space_at p h) (\<lambda>s.
           if p \<noteq> current_space h \<and> usedSize s < headroom then
             Inr (headroom - usedSize s,
               os_call (Commit (space_base s + reservedSize s) (reservedSize s)) h\<lparr>evacuated := (evacuated h)[i := True]\<rparr>)
           else Inr (headroom, h))
       else Inr (headroom, h)
     else Inl Undefined)"

definition determineEvacuatedSpaces :: "'h gc_heap_scheme \<Rightarrow> 'h gc_heap_scheme result" where
  "determineEvacuatedSpaces h = bind_result (availableBytes h) (\<lambda>available.
     let flags = take (length (occupancy h)) (evacuated h @ replicate (length (occupancy h)) False) in
     bind_result (fold (\<lambda>i r. bind_result r (evacuation_step i)) [0..<unat (regionCount h)]
         (Inr (available * 9 div 10, h\<lparr>evacuated := flags\<rparr>)))
       (\<lambda>(headroom, h'). resetOccupancy h'))"

definition hasToEvacuate :: "oop \<Rightarrow> 'h gc_heap_scheme \<Rightarrow> bool result" where
  "hasToEvacuate p h = (let index = regionIndexOf p h in
     if sint index \<le> 0 then Inr False
     else if unat (index - 1) < length (evacuated h) then Inr (evacuated h ! unat (index - 1)) else Inl Undefined)"

definition copyOf :: "oop \<Rightarrow> tracer \<Rightarrow> oop result" where
  "copyOf p = native_word (p + SPACE_SIZE)"

text \<open>The copy of an object into a space; a null pointer when the space has no room for it.\<close>

definition shallowCopy_with ::
  "(32 word \<Rightarrow> nat option \<Rightarrow> (oop, tracer) heap_op) \<Rightarrow> oop \<Rightarrow> nat option \<Rightarrow> (oop, tracer) heap_op" where
  "shallowCopy_with allocator p i s = bind_result (object_at (mem s) p) (\<lambda>obj.
     bind_result (bodySizeInBytes obj) (\<lambda>n.
     let extra = headerSizeInBytes obj in
     bind_result (allocator (extra + n) i s) (\<lambda>(allocation, s').
       if allocation = 0 then Inr (0, s')
       else let copy = allocation + ucast extra in
         Inr (copy, s'\<lparr>mem := (mem s')(copy \<mapsto> beNotRemembered obj)\<rparr>))))"

definition shallowCopy :: "oop \<Rightarrow> nat option \<Rightarrow> (oop, tracer) heap_op" where
  "shallowCopy = shallowCopy_with allocateIfPossible"
definition shallowCopyCommitting :: "oop \<Rightarrow> nat option \<Rightarrow> (oop, tracer) heap_op" where
  "shallowCopyCommitting = shallowCopy_with allocateCommittingIfNeeded"

definition zone_shallowCopy :: "oop \<Rightarrow> (oop, tracer) heap_op" where
  "zone_shallowCopy p s = bind_result (shallowCopyCommitting p (current_space s) s) (\<lambda>(copy, s1).
     if copy \<noteq> 0 then Inr (copy, s1)
     else bind_result (object_at (mem s1) p) (\<lambda>obj. bind_result (totalSizeInBytes obj) (\<lambda>n.
       if LargeThreshold < ucast n
       then bind_result (createLargeSpace (ucast n) s1) (\<lambda>(i, s2). shallowCopyCommitting p (Some i) s2)
       else bind_result (bumpSpace s1) (\<lambda>s2. shallowCopyCommitting p (current_space s2) s2))))"

definition evacuate :: "oop \<Rightarrow> (oop, tracer) heap_op" where
  "evacuate p s = bind_result (zone_shallowCopy p s) (\<lambda>(copy, s1).
     bind_result (object_at (mem s1) p) (\<lambda>obj.
     bind_result (if isRemembered obj
         then bind_result (object_at (mem s1) copy) (\<lambda>c. Inr (s1\<lparr>mem := (mem s1)(copy \<mapsto> beRemembered c)\<rparr>))
         else Inr s1) (\<lambda>s2.
     Inr (copy, s2\<lparr>native_words := (native_words s2)(p + SPACE_SIZE \<mapsto> copy)\<rparr>))))"

section \<open>Tracing\<close>

definition rememberSpecial :: "known_objects \<Rightarrow> oop \<Rightarrow> tracer \<Rightarrow> tracer result" where
  "rememberSpecial k p s = bind_result (speciesOf k p (mem s)) (\<lambda>klass. Inr (
     if klass = ephemeronClass k then s\<lparr>uncheckedEphemerons := uncheckedEphemerons s @ [p]\<rparr>
     else if klass = processStackClass k then s\<lparr>pending_stacks := pending_stacks s @ [p]\<rparr>
     else s\<lparr>weakContainers := weakContainers s @ [p]\<rparr>))"

definition resolveObject :: "known_objects \<Rightarrow> oop \<Rightarrow> (oop, tracer) heap_op" where
  "resolveObject k p s = bind_result (hasToEvacuate p s) (\<lambda>evac.
     bind_result (object_at (mem s) p) (\<lambda>obj.
     if hasBeenSeen obj then (if evac then bind_result (copyOf p s) (\<lambda>c. Inr (c, s)) else Inr (p, s))
     else
       let s1 = s\<lparr>mem := (mem s)(p \<mapsto> beSeen obj)\<rparr> in
       bind_result (if evac then evacuate p s1
           else bind_result (bodySizeInBytes obj) (\<lambda>n. bind_result (updateRegionOccupancy p n s1) (\<lambda>s2. Inr (p, s2))))
         (\<lambda>(q, s2). bind_result (object_at (mem s2) q) (\<lambda>new.
           if isSpecial new then bind_result (rememberSpecial k q s2) (\<lambda>s3. Inr (q, s3)) else Inr (q, s2)))))"

definition scan_from_to :: "oop \<Rightarrow> 32 word \<Rightarrow> 32 word \<Rightarrow> tracer \<Rightarrow> tracer" where
  "scan_from_to p start stop s = s\<lparr>mark_stack := (p, start, stop) # mark_stack s\<rparr>"

definition seen_at :: "oop \<Rightarrow> tracer \<Rightarrow> bool result" where
  "seen_at p s = bind_result (object_at (mem s) p) (\<lambda>obj. Inr (hasBeenSeen obj))"

definition strong_size_at :: "oop \<Rightarrow> tracer \<Rightarrow> (32 word) result" where
  "strong_size_at p s = bind_result (object_at (mem s) p) strongPointersSize"

definition scanRoot :: "known_objects \<Rightarrow> root \<Rightarrow> tracer \<Rightarrow> tracer result" where
  "scanRoot k r s = bind_result (root_value r s) (\<lambda>target.
     if isSmallInteger target then Inr s
     else bind_result (seen_at target s) (\<lambda>wasSeen.
       bind_result (resolveObject k target s) (\<lambda>(q, s1).
       let s2 = root_put r q s1 in
       if wasSeen then Inr s2
       else bind_result (strong_size_at q s2) (\<lambda>n. Inr (scan_from_to q 0 n s2)))))"

text \<open>
  \<open>scanBehavior\<close> and \<open>scanSlot\<close> work on the range \<open>_scanned\<close>, \<open>_index\<close>, \<open>_limit\<close>.  Both leave a seen
  object and go on with the next index, or queue what is left of the range and turn to the object
  they have just reached.
\<close>

type_synonym scan_state = "tracer \<times> oop \<times> 32 word \<times> 32 word"

definition scan_reached :: "known_objects \<Rightarrow> oop \<Rightarrow> (oop \<Rightarrow> tracer \<Rightarrow> tracer result) \<Rightarrow> scan_state \<Rightarrow> scan_state result" where
  "scan_reached k target store = (\<lambda>(s, scanned, index, limit).
     bind_result (seen_at target s) (\<lambda>wasSeen.
     bind_result (resolveObject k target s) (\<lambda>(q, s1).
     bind_result (store q s1) (\<lambda>s2.
     if wasSeen then Inr (s2, scanned, index + 1, limit)
     else let s3 = (if index < limit then scan_from_to scanned (index + 1) limit s2 else s2) in
       bind_result (strong_size_at q s3) (\<lambda>n. Inr (s3, q, 0, n))))))"

definition store_behavior :: "oop \<Rightarrow> oop \<Rightarrow> tracer \<Rightarrow> tracer result" where
  "store_behavior p q s = bind_result (object_at (mem s) p) (\<lambda>obj.
     bind_result (behavior_put q obj) (\<lambda>obj'. Inr (s\<lparr>mem := (mem s)(p \<mapsto> obj')\<rparr>)))"

definition store_slot :: "oop \<Rightarrow> 32 word \<Rightarrow> oop \<Rightarrow> tracer \<Rightarrow> tracer result" where
  "store_slot p i q s = bind_result (object_at (mem s) p) (\<lambda>obj.
     bind_result (slotAt_put i q obj) (\<lambda>obj'. Inr (s\<lparr>mem := (mem s)(p \<mapsto> obj')\<rparr>)))"

definition scanBehavior :: "known_objects \<Rightarrow> scan_state \<Rightarrow> scan_state result" where
  "scanBehavior k = (\<lambda>(s, scanned, index, limit). bind_result (object_at (mem s) scanned) (\<lambda>obj.
     let target = behavior obj in
     if isSmallInteger target then Inr (s, scanned, index + 1, limit)
     else scan_reached k target (store_behavior scanned) (s, scanned, index, limit)))"

definition scanSlot :: "known_objects \<Rightarrow> scan_state \<Rightarrow> scan_state result" where
  "scanSlot k = (\<lambda>(s, scanned, index, limit). bind_result (object_at (mem s) scanned) (\<lambda>obj.
     bind_result (slotAt index obj) (\<lambda>target.
     if target = 0 \<or> isSmallInteger target then Inr (s, scanned, index + 1, limit)
     else scan_reached k target (store_slot scanned index) (s, scanned, index, limit))))"

definition scan_field :: "known_objects \<Rightarrow> scan_state \<Rightarrow> scan_state result" where
  "scan_field k = (\<lambda>(s, scanned, index, limit).
     if index = 0 then scanBehavior k (s, scanned, index, limit) else scanSlot k (s, scanned, index, limit))"

definition scan_range :: "known_objects \<Rightarrow> scan_state \<Rightarrow> tracer result" where
  "scan_range k c = bind_result (while_result (\<lambda>(s, scanned, index, limit). index \<le> limit) (scan_field k) c)
     (\<lambda>(s, scanned, index, limit). Inr s)"

definition pop_range :: "tracer \<Rightarrow> scan_state" where
  "pop_range s = (case mark_stack s of
      [] \<Rightarrow> (s, 0, 1, 0)
    | (p, start, stop) # rest \<Rightarrow> (s\<lparr>mark_stack := rest\<rparr>, p, start, stop))"

definition followObjects :: "known_objects \<Rightarrow> tracer \<Rightarrow> tracer result" where
  "followObjects k = while_result (\<lambda>s. mark_stack s \<noteq> []) (\<lambda>s. scan_range k (pop_range s))"

definition scan_each_root :: "known_objects \<Rightarrow> root list \<Rightarrow> tracer \<Rightarrow> tracer result" where
  "scan_each_root k rs s = fold (\<lambda>r acc. bind_result acc (scanRoot k r)) rs (Inr s)"

text \<open>Released references are null pointers in the list.\<close>

definition ref_roots :: "tracer \<Rightarrow> root list" where
  "ref_roots s = map RefRoot (filter (\<lambda>i. gced_refs s ! i \<noteq> None) [0..<length (gced_refs s)])"

definition followGCedRefs :: "known_objects \<Rightarrow> tracer \<Rightarrow> tracer result" where
  "followGCedRefs k s = scan_each_root k (ref_roots s) s"

section \<open>Native stacks\<close>

definition scanStackFrameObjects :: "known_objects \<Rightarrow> oop \<Rightarrow> oop \<Rightarrow> tracer \<Rightarrow> tracer result" where
  "scanStackFrameObjects k framePointer n = scan_each_root k (map (\<lambda>i. WordRoot (framePointer + of_nat (8 * i))) [0..<unat n])"

text \<open>The frames go from the stack pointer to the saved base pointer; the base pointer and the
  return address after it are skipped.  Stack indices count from 1.\<close>

definition nativeFramesDo ::
  "oop \<Rightarrow> oop \<Rightarrow> oop \<Rightarrow> (oop \<Rightarrow> oop \<Rightarrow> tracer \<Rightarrow> tracer result) \<Rightarrow> tracer \<Rightarrow> tracer result" where
  "nativeFramesDo stack sp bp f s = bind_result (while_result (\<lambda>(start, stop, s). stop \<noteq> 0)
      (\<lambda>(start, stop, s). bind_result (f (stack + (start - 1) * 8) (stop - start) s) (\<lambda>s'.
        bind_result (native_word (stack + (stop - 1) * 8) s') (\<lambda>stop'. Inr (stop + 2, stop', s'))))
      (sp, bp, s)) (\<lambda>(start, stop, s). Inr s)"

definition scanStack_sp_bp :: "known_objects \<Rightarrow> oop \<Rightarrow> oop \<Rightarrow> oop \<Rightarrow> tracer \<Rightarrow> tracer result" where
  "scanStack_sp_bp k stack sp bp = nativeFramesDo stack sp bp (scanStackFrameObjects k)"

definition scanSuspendedProcessStack :: "known_objects \<Rightarrow> oop \<Rightarrow> tracer \<Rightarrow> tracer result" where
  "scanSuspendedProcessStack k p s =
     bind_result (processStackSP p (mem s)) (\<lambda>sp. bind_result (processStackBP p (mem s)) (\<lambda>bp.
     bind_result (processVMStackBuffer (nilObj k) p (mem s)) (\<lambda>stack.
     scanStack_sp_bp k (word_of_int stack) (word_of_int sp + 1) (word_of_int bp) s)))"

definition scanCurrentContext :: "known_objects \<Rightarrow> tracer \<Rightarrow> tracer result" where
  "scanCurrentContext k s = bind_result (scan_each_root k [RegisterR, RegisterS, RegisterE, RegisterM] s) (\<lambda>s1.
     scanStack_sp_bp k (live_stack s1) (live_sp s1) (live_bp s1) s1)"

text \<open>The active process is skipped: its stack is the one of the evaluator.  \<open>processStackIsValid_\<close>
  is asked about the process, not about its stack.\<close>

definition scanStack :: "known_objects \<Rightarrow> oop \<Rightarrow> tracer \<Rightarrow> tracer result" where
  "scanStack k p s = bind_result (processVMStackBuffer (nilObj k) p (mem s)) (\<lambda>buffer.
     if word_of_int buffer = live_stack s then Inr s
     else bind_result (processStackProcess p (mem s)) (\<lambda>process.
       bind_result (processStackIsValid (nilObj k) process (mem s)) (\<lambda>valid.
       if valid then scanSuspendedProcessStack k p s else Inr s)))"

definition size_at :: "oop \<Rightarrow> tracer \<Rightarrow> (32 word) result" where
  "size_at p s = bind_result (object_at (mem s) p) object_size"

definition scanSpecialSlots :: "oop \<Rightarrow> tracer \<Rightarrow> tracer result" where
  "scanSpecialSlots p s = bind_result (size_at p s) (\<lambda>n. Inr (scan_from_to p 1 n s))"

definition scanStacks :: "known_objects \<Rightarrow> tracer \<Rightarrow> tracer result" where
  "scanStacks k = while_result (\<lambda>s. pending_stacks s \<noteq> [])
     (\<lambda>s. let p = last (pending_stacks s) in
        bind_result (scanSpecialSlots p (s\<lparr>pending_stacks := butlast (pending_stacks s)\<rparr>)) (scanStack k p))"

definition followClosure :: "known_objects \<Rightarrow> tracer \<Rightarrow> tracer result" where
  "followClosure k s = bind_result (followGCedRefs k s)
     (while_result (\<lambda>s. mark_stack s \<noteq> [] \<or> pending_stacks s \<noteq> [])
       (\<lambda>s. bind_result (followObjects k s) (scanStacks k)))"

section \<open>Ephemerons and weak containers\<close>

definition checkReachableProperty :: "oop \<Rightarrow> tracer \<Rightarrow> bool result" where
  "checkReachableProperty ephemeron s = bind_result (object_at (mem s) ephemeron) (\<lambda>obj.
     bind_result (slotAt 1 obj) (\<lambda>key. if isSmallInteger key then Inr True else seen_at key s))"

definition followEphemeronWeaks :: "known_objects \<Rightarrow> oop \<Rightarrow> tracer \<Rightarrow> tracer result" where
  "followEphemeronWeaks k ephemeron s = bind_result (scanSpecialSlots ephemeron s) (followClosure k)"

definition checkEphemerons :: "known_objects \<Rightarrow> (bool, tracer) heap_op" where
  "checkEphemerons k s = while_result (\<lambda>(done, s). uncheckedEphemerons s \<noteq> [])
     (\<lambda>(done, s). let ephemeron = last (uncheckedEphemerons s);
          s1 = s\<lparr>uncheckedEphemerons := butlast (uncheckedEphemerons s)\<rparr> in
        bind_result (checkReachableProperty ephemeron s1) (\<lambda>reached.
        if reached then bind_result (followEphemeronWeaks k ephemeron s1) (\<lambda>s2. Inr (False, s2))
        else Inr (done, s1\<lparr>unreachedEphemerons := unreachedEphemerons s1 @ [ephemeron]\<rparr>)))
     (True, s)"

definition swapUncheckedWithUnreached :: "tracer \<Rightarrow> tracer" where
  "swapUncheckedWithUnreached s =
     s\<lparr>uncheckedEphemerons := unreachedEphemerons s, unreachedEphemerons := uncheckedEphemerons s\<rparr>"

definition followLiveEphemerons :: "known_objects \<Rightarrow> tracer \<Rightarrow> tracer result" where
  "followLiveEphemerons k s = bind_result (while_result (\<lambda>(done, s). \<not> done)
      (\<lambda>(done, s). bind_result (checkEphemerons k s) (\<lambda>(done', s').
        Inr (done', if done' then s' else swapUncheckedWithUnreached s')))
      (False, s)) (\<lambda>(done, s'). Inr s')"

definition rescueEphemeron :: "known_objects \<Rightarrow> oop \<Rightarrow> tracer \<Rightarrow> tracer result" where
  "rescueEphemeron k ephemeron s = bind_result (followEphemeronWeaks k ephemeron s) (\<lambda>s'.
     Inr (s'\<lparr>rescuedEphemerons := rescuedEphemerons s' @ [ephemeron]\<rparr>))"

text \<open>The loop runs over the vector of the unreached ephemerons, to which nothing is added meanwhile.\<close>

definition rescueUnreachableEphemerons :: "known_objects \<Rightarrow> (bool, tracer) heap_op" where
  "rescueUnreachableEphemerons k s =
     bind_result (fold (\<lambda>e acc. bind_result acc (rescueEphemeron k e)) (unreachedEphemerons s) (Inr s)) (\<lambda>s'.
       Inr (unreachedEphemerons s = [], s'\<lparr>unreachedEphemerons := []\<rparr>))"

definition followEphemerons :: "known_objects \<Rightarrow> tracer \<Rightarrow> tracer result" where
  "followEphemerons k s = bind_result (while_result (\<lambda>(done, s). \<not> done)
      (\<lambda>(done, s). bind_result (followLiveEphemerons k s) (rescueUnreachableEphemerons k)) (False, s))
      (\<lambda>(done, s'). Inr s')"

definition followRoots :: "known_objects \<Rightarrow> tracer \<Rightarrow> tracer result" where
  "followRoots k s = bind_result (scanCurrentContext k s) (\<lambda>s1. bind_result (followClosure k s1) (followEphemerons k))"

definition strengthenAndMigrateEphemerons :: "tracer \<Rightarrow> tracer result" where
  "strengthenAndMigrateEphemerons s = fold (\<lambda>e acc. bind_result acc (\<lambda>s. bind_result (object_at (mem s) e) (\<lambda>obj.
     Inr (s\<lparr>mem := (mem s)(e \<mapsto> beNotSpecial obj)\<rparr>)))) (rescuedEphemerons s) (Inr s)"

definition updateWeak :: "oop \<Rightarrow> oop \<Rightarrow> tracer \<Rightarrow> tracer result" where
  "updateWeak weakContainer i s = bind_result (object_at (mem s) weakContainer) (\<lambda>obj.
     bind_result (slotAt (ucast i) obj) (\<lambda>object.
     if isSmallInteger object then Inr s
     else bind_result (seen_at object s) (\<lambda>seen.
       bind_result (if seen then Inr s else store_slot weakContainer (ucast i) (tombstone s) s) (\<lambda>s1.
       bind_result (hasToEvacuate object s1) (\<lambda>evac.
       if evac then bind_result (copyOf object s1) (\<lambda>updated. store_slot weakContainer (ucast i) updated s1)
       else Inr s1)))))"

text \<open>The loop asks for the slots 0 to size - 1 of an accessor that counts from 1.\<close>

definition updateWeakReferencesOf :: "oop \<Rightarrow> tracer \<Rightarrow> tracer result" where
  "updateWeakReferencesOf weakContainer s = bind_result (while_result
      (\<lambda>(i :: 32 word, s). case size_at weakContainer s of Inl e \<Rightarrow> True | Inr n \<Rightarrow> i < n)
      (\<lambda>(i, s). bind_result (size_at weakContainer s) (\<lambda>n.
         bind_result (updateWeak weakContainer (ucast i) s) (\<lambda>s'. Inr (i + 1, s'))))
      (0, s)) (\<lambda>(i, s'). Inr s')"

definition scanWeakContainers :: "tracer \<Rightarrow> tracer result" where
  "scanWeakContainers s = bind_result
     (fold (\<lambda>w acc. bind_result acc (updateWeakReferencesOf w)) (weakContainers s) (Inr s))
     (\<lambda>s'. Inr (s'\<lparr>weakContainers := []\<rparr>))"

definition doCollect :: "known_objects \<Rightarrow> tracer \<Rightarrow> tracer result" where
  "doCollect k s = bind_result (followRoots k s) (\<lambda>s1.
     bind_result (strengthenAndMigrateEphemerons s1) scanWeakContainers)"

section \<open>Collections\<close>

text \<open>Decommitted and freed ranges hold no objects any more.\<close>

definition wipe :: "oop \<Rightarrow> oop \<Rightarrow> memory \<Rightarrow> memory" where
  "wipe base n m = (\<lambda>p. if base \<le> p \<and> p < base + n then None else m p)"

definition initializeLocals :: "tracer \<Rightarrow> tracer result" where
  "initializeLocals s = bind_result (determineEvacuatedSpaces s) (\<lambda>s1.
     Inr (s1\<lparr>largeSize_seen := of_nat (length (largeSpaces s1)), weakContainers := [], uncheckedEphemerons := [],
       unreachedEphemerons := [], rescuedEphemerons := [], pending_stacks := []\<rparr>))"

text \<open>The loop counts from 1 to below the number of spaces: the last space is never released.\<close>

definition release_step :: "nat \<Rightarrow> tracer \<Rightarrow> tracer result" where
  "release_step i s =
     (if i < length (occupancy s) \<and> i < length (evacuated s) then
        bind_result (space_at (Some (zone_spaces s ! i)) s) (\<lambda>sp.
        if evacuated s ! i \<or> occupancy s ! i = 0 \<and> 0 < committedSize sp then
          let b = space_base sp; n = reservedSize sp; n' = (if evacuated s ! i then n * 2 else n);
            sp' = sp\<lparr>space_next := b, committedLimit := b, softLimit := b\<rparr> in
          Inr (recycleSpace (zone_spaces s ! i) (os_call (Decommit b n') (put_space (Some (zone_spaces s ! i)) sp' s))
            \<lparr>mem := wipe b n' (mem s)\<rparr>)
        else Inr s)
      else Inl Undefined)"

definition releaseEvacuated :: "tracer \<Rightarrow> tracer result" where
  "releaseEvacuated s = fold (\<lambda>i acc. bind_result acc (release_step i)) [0..<length (zone_spaces s) - 1] (Inr s)"

text \<open>
  A \<open>uintptr_t\<close> times 0.25, cut to an integer: the value is rounded to the nearest double first,
  half to even.
\<close>

definition round_to_double :: "nat \<Rightarrow> nat" where
  "round_to_double n =
     (if n < 2 ^ 53 then n
      else let e = hd (filter (\<lambda>e. n div 2 ^ e < 2 ^ 53) [0..<12]); m = n div 2 ^ e; r = n mod 2 ^ e in
        (if 2 * r < 2 ^ e \<or> 2 * r = 2 ^ e \<and> even m then m else m + 1) * 2 ^ e)"

definition quarter :: "oop \<Rightarrow> oop" where "quarter n = of_nat (round_to_double (unat n) div 4)"

definition max_signed :: "oop \<Rightarrow> oop \<Rightarrow> oop" where "max_signed a b = (if sint a < sint b then b else a)"
definition min_signed :: "oop \<Rightarrow> oop \<Rightarrow> oop" where "min_signed a b = (if sint b < sint a then b else a)"

definition resetCountdown :: "'h gc_heap_scheme \<Rightarrow> 'h gc_heap_scheme result" where
  "resetCountdown h = bind_result (committedBytes h) (\<lambda>committed. bind_result (occupiedBytes h) (\<lambda>occupied.
     bind_result (usedBytes h) (\<lambda>bytes. bind_result (availableBytes h) (\<lambda>free.
     Inr (h\<lparr>countdown := max_signed (SPACE_SIZE * 3)
       (min_signed (quarter bytes - (committed - occupied)) (free * 9 div 10))\<rparr>)))))"

text \<open>
  A large space in use is stored at the index \<open>used\<close> after \<open>used\<close> was incremented, one further than
  its place; storing behind the end of the vector is undefined.
\<close>

definition sweep_step :: "nat \<Rightarrow> nat \<times> tracer \<Rightarrow> (nat \<times> tracer) result" where
  "sweep_step i = (\<lambda>(in_use, s).
     if i < length (largeSpaces s) then
       bind_result (space_at (largeSpaces s ! i) s) (\<lambda>sp. bind_result (firstObject sp (mem s)) (\<lambda>p.
       bind_result (seen_at p s) (\<lambda>seen.
       if seen then
         if in_use + 1 < length (largeSpaces s)
         then Inr (in_use + 1, s\<lparr>largeSpaces := (largeSpaces s)[in_use + 1 := largeSpaces s ! i]\<rparr>)
         else Inl Undefined
       else Inr (in_use, os_call (Free (space_base sp) (reservedSize sp)) s
         \<lparr>mem := wipe (space_base sp) (reservedSize sp) (mem s),
          heap_spaces := filter (\<lambda>j. Some j \<noteq> largeSpaces s ! i) (heap_spaces s)\<rparr>))))
     else Inl Undefined)"

definition sweepLargeSpaces :: "tracer \<Rightarrow> tracer result" where
  "sweepLargeSpaces s = bind_result
     (fold (\<lambda>i acc. bind_result acc (sweep_step i)) [0..<unat (largeSize_seen s)] (Inr (0, s)))
     (\<lambda>(in_use, s1). let kept = fold (\<lambda>i (u, large). (u + 1, large[u := large ! i]))
          [unat (largeSize_seen s)..<length (largeSpaces s1)] (in_use, largeSpaces s1) in
        Inr (s1\<lparr>largeSpaces := take (fst kept) (snd kept)\<rparr>))"

definition releaseLocals :: "tracer \<Rightarrow> tracer result" where
  "releaseLocals s = bind_result (releaseEvacuated s) (\<lambda>s1.
     bind_result (resetCountdown (s1\<lparr>evacuated := []\<rparr>)) (\<lambda>s2.
     bind_result (sweepLargeSpaces s2) (\<lambda>s3. Inr (s3\<lparr>mark_stack := [], weakContainers := [], uncheckedEphemerons := [],
       unreachedEphemerons := [], rescuedEphemerons := [], pending_stacks := []\<rparr>))))"

definition collect :: "known_objects \<Rightarrow> tracer \<Rightarrow> tracer result" where
  "collect k s = bind_result (initializeLocals s) (\<lambda>s1. bind_result (doCollect k s1) releaseLocals)"

definition collectOld :: "known_objects \<Rightarrow> tracer \<Rightarrow> tracer result" where
  "collectOld k s = bind_result
     (fold (\<lambda>i acc. bind_result acc (\<lambda>s. bind_result (space_at (Some i) s) (\<lambda>sp.
        bind_result (unmarkAll sp (mem s)) (\<lambda>m. Inr (s\<lparr>mem := m\<rparr>))))) (heap_spaces s) (Inr s))
     (\<lambda>s1. bind_result (collect k s1) (\<lambda>s2. Inr (s2\<lparr>gcNeeded := False\<rparr>)))"

end
