(* ===== verification/SpaceInvariant.thy ===== *)
theory SpaceInvariant
  imports Spaces ObjectAccess
begin

text \<open>
  The invariant of the spaces: the regions of the zone follow each other from its base, every space
  has its limits in order, and the spaces and mappings are apart from each other.  Every step of the
  zone keeps it; allocation extends exactly one space by the block it answers.
\<close>

section \<open>Ranges of addresses\<close>

definition between :: "oop \<Rightarrow> oop \<Rightarrow> nat set" where "between a b = {unat a..<unat b}"

lemma unat_plus_below: "unat (a :: oop) + unat b < 2 ^ 64 \<Longrightarrow> unat (a + b) = unat a + unat b"
  by (subst unat_plus_simple [THEN iffD1]) (auto simp: no_olen_add_nat)

lemma unat_ucast_up: "unat (ucast (n :: 32 word) :: oop) = unat n"
  by (rule unat_ucast_64)

lemma narrow_widened [simp]: "ucast (ucast n :: oop) = (n :: 32 word)"
  by (rule bit_word_eqI) (simp add: bit_ucast_iff)

lemma and_not_low: "unat (v AND NOT (2 ^ k - 1) :: oop) = unat v div 2 ^ k * 2 ^ k"
proof -
  have "v AND NOT (2 ^ k - 1) = push_bit k (drop_bit k v)"
    by (rule bit_word_eqI) (auto simp: bit_and_iff bit_not_iff bit_push_bit_iff bit_drop_bit_eq bit_mask_iff simp flip: mask_eq_decr_exp)
  moreover have "unat (push_bit k (drop_bit k v)) = take_bit 64 (push_bit k (drop_bit k (unat v)))"
    using unat_less_64 [of v] by (simp add: unsigned_push_bit_eq unsigned_drop_bit_eq take_bit_nat_eq_self)
  moreover have "take_bit 64 (push_bit k (drop_bit k (unat v))) = push_bit k (drop_bit k (unat v))"
    using unat_less_64 [of v] by (simp add: take_bit_nat_eq_self_iff push_bit_eq_mult drop_bit_eq_div le_less_trans [OF div_times_less_eq_dividend])
  ultimately show ?thesis
    by (simp add: push_bit_eq_mult drop_bit_eq_div)
qed

lemma align_bounds:
  assumes "page = 2 ^ k" "k < 32" "unat a < 2 ^ 63"
  shows "unat a \<le> unat (align a page)" "unat (align a page) < unat a + 2 ^ k"
proof -
  have k: "(2::nat) ^ k \<le> 2 ^ 32"
    using assms(2) by (intro power_increasing) auto
  have "(2 ^ k :: nat) < 2 ^ 64"
    using assms(2) by (intro power_strict_increasing) auto
  then have u: "unat (2 ^ k :: oop) = 2 ^ k"
    using unat_of_nat [where x = "2 ^ k" and 'a = 64] by simp
  have "unat (2 ^ k - 1 :: oop) = 2 ^ k - 1"
    using u by (subst unat_sub) (auto simp: word_le_nat_alt)
  then have plus: "unat (a + (2 ^ k - 1)) = unat a + (2 ^ k - 1)"
    using assms(3) k by (subst unat_plus_below) auto
  have e: "unat (align a page) = (unat a + (2 ^ k - 1)) div 2 ^ k * 2 ^ k"
    unfolding align_def assms(1) and_not_low plus ..
  define m :: nat where "m = 2 ^ k"
  have m: "0 < m" by (simp add: m_def)
  have "(unat a + (m - 1)) div m * m + (unat a + (m - 1)) mod m = unat a + (m - 1)" "(unat a + (m - 1)) mod m < m"
    using m by auto
  then show "unat a \<le> unat (align a page)" "unat (align a page) < unat a + 2 ^ k"
    unfolding e m_def [symmetric] using m by linarith+
qed

section \<open>The invariant of the zone\<close>

definition region_bytes :: nat where "region_bytes = 0x80000"

lemma region_numerals:
  "unat SPACE_SIZE = 0x40000" "region_bytes = 2 * unat SPACE_SIZE" "region_bytes = 0x80000" "0 < region_bytes"
  by (simp_all add: SPACE_SIZE_def SPACE_SIZE_SHIFT_def region_bytes_def)

definition region_ok :: "nat \<Rightarrow> 'h gc_heap_scheme \<Rightarrow> gc_space \<Rightarrow> bool" where
  "region_ok k h s \<longleftrightarrow>
     unat (space_base s) = unat (zone_base h) + k * region_bytes \<and>
     unat (reservedLimit s) = unat (space_base s) + unat SPACE_SIZE \<and>
     space_base s \<le> space_next s \<and> space_next s \<le> softLimit s \<and>
     softLimit s = committedLimit s \<and> committedLimit s \<le> reservedLimit s"

definition vacant :: "gc_space \<Rightarrow> bool" where
  "vacant s \<longleftrightarrow> space_next s = space_base s \<and> softLimit s = space_base s \<and> committedLimit s = space_base s"

definition opened :: "gc_space \<Rightarrow> bool" where
  "opened s \<longleftrightarrow> softLimit s = reservedLimit s"

abbreviation zone_room :: "'h gc_heap_scheme \<Rightarrow> bool" where
  "zone_room h \<equiv> emptySpaces h \<noteq> [] \<or> zone_nextFree h \<noteq> zone_limit h"

definition regions_ok :: "'h gc_heap_scheme \<Rightarrow> bool" where
  "regions_ok h \<longleftrightarrow>
     (\<exists>k<32. page_size h = 2 ^ k) \<and> 0 < unat (zone_base h) \<and> unat (zone_limit h) < 2 ^ 62 \<and>
     unat (zone_limit h) = unat (zone_base h) + length (occupancy h) * region_bytes \<and>
     unat (zone_nextFree h) = unat (zone_base h) + length (zone_spaces h) * region_bytes \<and>
     length (zone_spaces h) \<le> length (occupancy h) \<and>
     distinct (zone_spaces h) \<and>
     (\<forall>k<length (zone_spaces h). zone_spaces h ! k < length (gc_spaces h) \<and>
        region_ok k h (gc_spaces h ! (zone_spaces h ! k))) \<and>
     distinct (emptySpaces h) \<and> set (emptySpaces h) \<subseteq> set (zone_spaces h) \<and>
     (\<forall>i\<in>set (emptySpaces h). vacant (gc_spaces h ! i))"

definition zone_ok :: "'h gc_heap_scheme \<Rightarrow> bool" where
  "zone_ok h \<longleftrightarrow> regions_ok h \<and> (\<exists>c n. current_space h = Some c \<and> next_space h = Some n \<and> c \<noteq> n \<and>
     {c, n} \<subseteq> set (zone_spaces h) - set (emptySpaces h) \<and>
     opened (gc_spaces h ! c) \<and> opened (gc_spaces h ! n) \<and> space_next (gc_spaces h ! n) = space_base (gc_spaces h ! n))"

lemma space_at_Some [simp]: "i < length (gc_spaces h) \<Longrightarrow> space_at (Some i) h = Inr (gc_spaces h ! i)"
  by (simp add: space_at_def)

lemma put_space_Some [simp]: "put_space (Some i) s h = h\<lparr>gc_spaces := (gc_spaces h)[i := s]\<rparr>"
  by (simp add: put_space_def)

lemma region_index:
  assumes "regions_ok h" "k < length (occupancy h)" "unat p = unat (zone_base h) + k * region_bytes + r" "r < region_bytes"
  shows "indexOfPointer p h = word_of_nat k + 1" "unat (word_of_nat k :: oop) = k" "unat (indexOfPointer p h - 1) = k"
proof -
  have k: "k * region_bytes + region_bytes \<le> length (occupancy h) * region_bytes"
    using assms(2) by (metis Suc_leI add.commute mult_Suc mult_le_mono1)
  then have k64: "k < 2 ^ 62"
    using assms(1) unfolding regions_ok_def region_numerals by auto
  then show u: "unat (word_of_nat k :: oop) = k"
    by (simp add: unat_of_nat)
  have "unat (p - zone_base h) = k * region_bytes + r"
    using assms(3) by (subst unat_sub) (auto simp: word_le_nat_alt)
  then have "unat (drop_bit SPACE_SIZE_SHIFT (p - zone_base h) div 2) = k"
    using assms(4) by (simp add: unat_div unsigned_drop_bit_eq drop_bit_eq_div SPACE_SIZE_SHIFT_def region_numerals flip: div_mult2_eq)
  then have "drop_bit SPACE_SIZE_SHIFT (p - zone_base h) div 2 = word_of_nat k"
    using u by (simp add: word_unat_eq_iff)
  then show "indexOfPointer p h = word_of_nat k + 1" "unat (indexOfPointer p h - 1) = k"
    using u by (simp_all add: indexOfPointer_def)
qed

lemma region_ok_cong:
  "zone_base h' = zone_base h \<Longrightarrow> region_ok k h' s = region_ok k h s"
  by (simp add: region_ok_def)

lemma region_ok_spaces [simp]: "region_ok k (h\<lparr>gc_spaces := x\<rparr>) s = region_ok k h s"
  by (rule region_ok_cong) simp

lemma regionsD:
  assumes "regions_ok h" "i \<in> set (zone_spaces h)"
  obtains k where "k < length (zone_spaces h)" "zone_spaces h ! k = i" "i < length (gc_spaces h)"
    "region_ok k h (gc_spaces h ! i)" "k < length (occupancy h)"
  using assms unfolding regions_ok_def in_set_conv_nth by (metis order_less_le_trans)

lemma zone_position:
  "regions_ok h \<Longrightarrow> k < length (zone_spaces h) \<Longrightarrow> j < length (zone_spaces h) \<Longrightarrow>
     zone_spaces h ! k = zone_spaces h ! j \<longleftrightarrow> k = j"
  unfolding regions_ok_def by (simp add: nth_eq_iff_index_eq)

lemma region_room:
  assumes "regions_ok h" "zone_nextFree h \<noteq> zone_limit h"
  shows "length (zone_spaces h) < length (occupancy h)"
    "unat (zone_nextFree h) + region_bytes \<le> unat (zone_limit h)"
proof -
  show less: "length (zone_spaces h) < length (occupancy h)"
    using assms unfolding regions_ok_def by (metis nat_less_le word_unat_eq_iff)
  then have "length (zone_spaces h) * region_bytes + region_bytes \<le> length (occupancy h) * region_bytes"
    by (metis Suc_leI add.commute mult_Suc mult_le_mono1)
  then show "unat (zone_nextFree h) + region_bytes \<le> unat (zone_limit h)"
    using assms(1) unfolding regions_ok_def by linarith
qed

text \<open>Replacing a space by one that satisfies its conditions keeps the regions.\<close>

lemma regions_put:
  assumes "regions_ok h" "i \<in> set (zone_spaces h)" "i \<notin> set (emptySpaces h) \<or> vacant s"
    and "\<And>k. k < length (zone_spaces h) \<Longrightarrow> zone_spaces h ! k = i \<Longrightarrow> region_ok k h s"
  shows "regions_ok (h\<lparr>gc_spaces := (gc_spaces h)[i := s]\<rparr>)"
proof -
  have i: "i < length (gc_spaces h)"
    using regionsD [OF assms(1,2)] by blast
  have "region_ok k (h\<lparr>gc_spaces := (gc_spaces h)[i := s]\<rparr>) ((gc_spaces h)[i := s] ! (zone_spaces h ! k))"
    if "k < length (zone_spaces h)" for k
    using assms(1,4) that unfolding regions_ok_def
    by (cases "zone_spaces h ! k = i") (auto simp: nth_list_update)
  moreover have "vacant ((gc_spaces h)[i := s] ! j)" if "j \<in> set (emptySpaces h)" for j
    using assms(1,3) that i unfolding regions_ok_def by (cases "j = i") auto
  ultimately show ?thesis
    using assms(1) unfolding regions_ok_def by auto
qed

lemma regions_cong:
  "page_size h' = page_size h \<Longrightarrow> zone_base h' = zone_base h \<Longrightarrow> zone_limit h' = zone_limit h \<Longrightarrow>
   zone_nextFree h' = zone_nextFree h \<Longrightarrow> zone_spaces h' = zone_spaces h \<Longrightarrow>
   emptySpaces h' = emptySpaces h \<Longrightarrow> length (occupancy h') = length (occupancy h) \<Longrightarrow>
   gc_spaces h' = gc_spaces h \<Longrightarrow> regions_ok h' = regions_ok h"
  unfolding regions_ok_def by (simp add: region_ok_def)

lemma createEmptySpace_ok:
  assumes "regions_ok h" "zone_nextFree h \<noteq> zone_limit h"
  obtains h' where "createEmptySpace h = Inr h'" "regions_ok h'"
    "h' = h\<lparr>zone_nextFree := zone_nextFree h + SPACE_SIZE + SPACE_SIZE,
      gc_spaces := gc_spaces h @ [allocatedAt_limit (zone_nextFree h) (zone_nextFree h + SPACE_SIZE) True],
      zone_spaces := zone_spaces h @ [length (gc_spaces h)], emptySpaces := emptySpaces h @ [length (gc_spaces h)],
      heap_spaces := heap_spaces h @ [length (gc_spaces h)]\<rparr>"
proof -
  let ?n = "length (gc_spaces h)" and ?s = "allocatedAt_limit (zone_nextFree h) (zone_nextFree h + SPACE_SIZE) True"
  let ?h = "h\<lparr>zone_nextFree := zone_nextFree h + SPACE_SIZE + SPACE_SIZE, gc_spaces := gc_spaces h @ [?s],
      zone_spaces := zone_spaces h @ [?n], emptySpaces := emptySpaces h @ [?n], heap_spaces := heap_spaces h @ [?n]\<rparr>"
  note room = region_room [OF assms]
  have lim: "unat (zone_limit h) < 2 ^ 62"
    using assms(1) by (simp add: regions_ok_def)
  have stop: "unat (zone_nextFree h + SPACE_SIZE) = unat (zone_nextFree h) + unat SPACE_SIZE"
    using room(2) lim region_numerals by (subst unat_plus_below) auto
  then have next_free: "unat (zone_nextFree h + SPACE_SIZE + SPACE_SIZE) = unat (zone_nextFree h) + region_bytes"
    using room(2) lim region_numerals by (subst unat_plus_below) auto
  have old: "k < ?n" if "k \<in> set (zone_spaces h)" for k
    using regionsD [OF assms(1) that] by blast
  have region: "region_ok (length (zone_spaces h)) ?h ?s"
    using assms(1) stop unfolding regions_ok_def
    by (auto simp: region_ok_def allocatedAt_limit_def Let_def word_le_nat_alt)
  have "regions_ok ?h"
    unfolding regions_ok_def
  proof (intro conjI allI impI ballI)
    fix k
    assume k: "k < length (zone_spaces ?h)"
    show "zone_spaces ?h ! k < length (gc_spaces ?h)"
      using k old by (auto simp: nth_append less_Suc_eq)
    show "region_ok k ?h (gc_spaces ?h ! (zone_spaces ?h ! k))"
    proof (cases "k = length (zone_spaces h)")
      case True
      then show ?thesis
        using region by simp
    next
      case False
      then have "k < length (zone_spaces h)" using k by simp
      then show ?thesis
        using assms(1) old [OF nth_mem] region_ok_cong [of ?h h] by (simp add: regions_ok_def nth_append)
    qed
  next
    fix i
    assume "i \<in> set (emptySpaces ?h)"
    then show "vacant (gc_spaces ?h ! i)"
      using assms(1) old by (auto simp: regions_ok_def nth_append vacant_def allocatedAt_limit_def Let_def subset_iff)
  qed (use assms(1) room old next_free in \<open>auto simp: regions_ok_def subset_iff\<close>)
  then show thesis
    using that assms(2) by (simp add: createEmptySpace_def Let_def)
qed

text \<open>What a step of the zone leaves alone: the objects of all spaces, their ranges and everything else.\<close>

definition zone_frame :: "'h gc_heap_scheme \<Rightarrow> 'h gc_heap_scheme" where
  "zone_frame h = h\<lparr>os_calls := [], gc_spaces := [], heap_spaces := [], zone_nextFree := 0, current_space := None,
     next_space := None, zone_spaces := [], emptySpaces := [], occupancy := []\<rparr>"

definition zone_step :: "'h gc_heap_scheme \<Rightarrow> 'h gc_heap_scheme \<Rightarrow> bool" where
  "zone_step h h' \<longleftrightarrow>
     length (gc_spaces h) \<le> length (gc_spaces h') \<and>
     (\<forall>i<length (gc_spaces h). space_base (gc_spaces h' ! i) = space_base (gc_spaces h ! i) \<and>
        reservedLimit (gc_spaces h' ! i) = reservedLimit (gc_spaces h ! i) \<and>
        space_next (gc_spaces h' ! i) = space_next (gc_spaces h ! i) \<and>
        (i \<notin> set (emptySpaces h) \<longrightarrow> gc_spaces h' ! i = gc_spaces h ! i)) \<and>
     (\<forall>i<length (gc_spaces h'). length (gc_spaces h) \<le> i \<longrightarrow>
        space_next (gc_spaces h' ! i) = space_base (gc_spaces h' ! i)) \<and>
     set (zone_spaces h') = set (zone_spaces h) \<union> {length (gc_spaces h)..<length (gc_spaces h')} \<and>
     set (emptySpaces h') \<subseteq> set (emptySpaces h) \<union> {length (gc_spaces h)..<length (gc_spaces h')} \<and>
     length (occupancy h') = length (occupancy h) \<and> zone_frame h' = zone_frame h"

lemma zone_step_refl [simp]: "zone_step h h"
  by (simp add: zone_step_def)

lemma createEmptySpace_step:
  "createEmptySpace h = Inr h' \<Longrightarrow> zone_step h h'"
  by (auto simp: createEmptySpace_def zone_step_def zone_frame_def Let_def nth_append allocatedAt_limit_def less_Suc_eq split: if_splits)

lemma commitMemory_all:
  assumes "regions_ok h" "i \<in> set (zone_spaces h)" "vacant (gc_spaces h ! i)"
  shows "commitMemory (ucast (reservedSize (gc_spaces h ! i))) (Some i) h =
     Inr (True, h\<lparr>os_calls := os_calls h @ [Commit (space_base (gc_spaces h ! i)) SPACE_SIZE],
       gc_spaces := (gc_spaces h)[i := (gc_spaces h ! i)\<lparr>committedLimit := reservedLimit (gc_spaces h ! i)\<rparr>]\<rparr>)"
proof -
  let ?s = "gc_spaces h ! i"
  obtain k where k: "k < length (zone_spaces h)" "zone_spaces h ! k = i" "i < length (gc_spaces h)" "region_ok k h ?s"
      "k < length (occupancy h)"
    using regionsD [OF assms(1,2)] .
  obtain b where b: "b < 32" "page_size h = 2 ^ b"
    using assms(1) by (auto simp: regions_ok_def)
  have "k * region_bytes + region_bytes \<le> length (occupancy h) * region_bytes"
    using k(5) by (metis Suc_leI add.commute mult_Suc mult_le_mono1)
  then have top: "unat (reservedLimit ?s) < 2 ^ 62"
    using assms(1) k(4) region_numerals unfolding regions_ok_def region_ok_def by linarith
  have "unat (reservedSize ?s) = unat SPACE_SIZE"
    using k(4) unfolding reservedSize_def region_ok_def by (subst unat_sub) (auto simp: word_le_nat_alt)
  then have size: "reservedSize ?s = SPACE_SIZE"
    by (simp only: word_unat_eq_iff)
  then have limit: "committedLimit ?s + ucast (ucast (reservedSize ?s) :: 32 word) = reservedLimit ?s"
    using assms(3) by (simp add: vacant_def reservedSize_def SPACE_SIZE_def SPACE_SIZE_SHIFT_def) (metis add.commute diff_add_cancel)
  have "unat (reservedLimit ?s) \<le> unat (align (reservedLimit ?s) (page_size h))"
    using top by (intro align_bounds [OF b(2,1)]) auto
  then have "min (pagealign (reservedLimit ?s) h) (reservedLimit ?s) = reservedLimit ?s"
    by (simp add: pagealign_def min_absorb2 flip: word_le_nat_alt)
  then show ?thesis
    using k(3) size assms(3) limit
    by (simp add: commitMemory_def commitMemoryUpTo_def os_call_def vacant_def reservedSize_def)
qed

lemma markAsFull_ok:
  assumes "regions_ok h" "i \<in> set (zone_spaces h)"
  obtains k where "k < length (occupancy h)" "markAsFull (Some i) h = Inr (h\<lparr>occupancy := (occupancy h)[k := SPACE_SIZE]\<rparr>)"
    "zone_spaces h ! k = i" "k < length (zone_spaces h)"
proof -
  obtain k where k: "k < length (zone_spaces h)" "zone_spaces h ! k = i" "i < length (gc_spaces h)"
      "region_ok k h (gc_spaces h ! i)" "k < length (occupancy h)"
    using regionsD [OF assms] .
  have "unat (indexOfPointer (space_base (gc_spaces h ! i)) h - 1) = k"
    using k(4) by (intro region_index(3) [OF assms(1) k(5), where r = 0]) (auto simp: region_ok_def region_numerals)
  then show thesis
    using that k by (simp add: markAsFull_def put_occupancy_def)
qed

lemma bumpSpace_ok:
  assumes "regions_ok h" "zone_room h"
  obtains h' n where "bumpSpace h = Inr h'" "regions_ok h'" "zone_step h h'"
    "current_space h' = next_space h" "next_space h' = Some n"
    "n \<in> set (zone_spaces h')" "n \<notin> set (emptySpaces h')" "n \<in> set (emptySpaces h) \<or> n \<notin> set (zone_spaces h)"
    "opened (gc_spaces h' ! n)" "space_next (gc_spaces h' ! n) = space_base (gc_spaces h' ! n)"
    "length (zone_spaces h') \<le> Suc (length (zone_spaces h))"
proof -
  let ?h1 = "h\<lparr>current_space := next_space h\<rparr>"
  have r1: "regions_ok ?h1"
    using assms(1) by (subst regions_cong [of _ h]) auto
  obtain h2 where h2: "(if emptySpaces ?h1 = [] then createEmptySpace ?h1 else Inr ?h1) = Inr h2" "regions_ok h2"
      "emptySpaces h2 \<noteq> []" "zone_step ?h1 h2" "current_space h2 = next_space h"
      "last (emptySpaces h2) \<in> set (emptySpaces h) \<or> last (emptySpaces h2) \<notin> set (zone_spaces h)"
      "length (zone_spaces h2) \<le> Suc (length (zone_spaces h))"
  proof (cases "emptySpaces h = []")
    case True
    let ?b = "zone_nextFree h" and ?i = "length (gc_spaces h)"
    let ?e = "?h1\<lparr>zone_nextFree := ?b + SPACE_SIZE + SPACE_SIZE,
      gc_spaces := gc_spaces h @ [allocatedAt_limit ?b (?b + SPACE_SIZE) True],
      zone_spaces := zone_spaces h @ [?i], emptySpaces := emptySpaces h @ [?i], heap_spaces := heap_spaces h @ [?i]\<rparr>"
    have e: "createEmptySpace ?h1 = Inr ?e" "regions_ok ?e"
      using True assms(2) by (auto intro: createEmptySpace_ok [OF r1])
    have "?i \<notin> set (zone_spaces h)"
      using regionsD [OF assms(1)] by blast
    then show thesis
      using that [of ?e] True e createEmptySpace_step [OF e(1)] by simp
  next
    case False
    then show thesis
      using that [of ?h1] r1 by simp
  qed
  define n where "n = last (emptySpaces h2)"
  have n: "n \<in> set (emptySpaces h2)" "n \<in> set (zone_spaces h2)" "vacant (gc_spaces h2 ! n)"
      "n \<notin> set (butlast (emptySpaces h2))" "set (butlast (emptySpaces h2)) \<subseteq> set (emptySpaces h2)"
  proof -
    have split: "emptySpaces h2 = butlast (emptySpaces h2) @ [n]"
      using h2(3) by (simp add: n_def)
    have "distinct (emptySpaces h2)" "set (emptySpaces h2) \<subseteq> set (zone_spaces h2)" "\<forall>i\<in>set (emptySpaces h2). vacant (gc_spaces h2 ! i)"
      using h2(2) by (simp_all add: regions_ok_def)
    then show "n \<in> set (emptySpaces h2)" "n \<in> set (zone_spaces h2)" "vacant (gc_spaces h2 ! n)"
      "n \<notin> set (butlast (emptySpaces h2))" "set (butlast (emptySpaces h2)) \<subseteq> set (emptySpaces h2)"
      using split by (metis distinct_append disjoint_iff in_set_conv_decomp list.set_intros(1) in_set_butlastD subsetI subsetD)+
  qed
  let ?h3 = "h2\<lparr>next_space := Some n, emptySpaces := butlast (emptySpaces h2)\<rparr>" and ?s = "gc_spaces h2 ! n"
  have r3: "regions_ok ?h3"
    using h2(2) n(5) distinct_butlast [of "emptySpaces h2"] unfolding regions_ok_def
    by (auto simp: region_ok_def dest: in_set_butlastD)
  obtain kn where kn: "n < length (gc_spaces h2)" "region_ok kn h2 ?s" "kn < length (zone_spaces h2)" "zone_spaces h2 ! kn = n"
    using regionsD [OF h2(2) n(2)] by blast
  let ?s' = "?s\<lparr>committedLimit := reservedLimit ?s, softLimit := reservedLimit ?s\<rparr>"
  let ?h4 = "h2\<lparr>next_space := Some n, emptySpaces := butlast (emptySpaces h2),
     os_calls := os_calls h2 @ [Commit (space_base ?s) SPACE_SIZE], gc_spaces := (gc_spaces h2)[n := ?s']\<rparr>"
  have commit: "commitMemory (ucast (reservedSize ?s)) (Some n) ?h3 = Inr (True, ?h3\<lparr>os_calls := os_calls ?h3 @
      [Commit (space_base ?s) SPACE_SIZE], gc_spaces := (gc_spaces ?h3)[n := ?s\<lparr>committedLimit := reservedLimit ?s\<rparr>]\<rparr>)"
    using commitMemory_all [OF r3, of n] n by simp
  have "regions_ok (?h3\<lparr>gc_spaces := (gc_spaces ?h3)[n := ?s']\<rparr>)"
  proof (rule regions_put [OF r3])
    fix k
    assume "k < length (zone_spaces ?h3)" "zone_spaces ?h3 ! k = n"
    then have "k = kn"
      using zone_position [OF h2(2)] kn by auto
    then show "region_ok k ?h3 ?s'"
      using kn(2) n(3) by (auto simp: region_ok_def vacant_def word_le_nat_alt)
  qed (use n in auto)
  then have r4: "regions_ok ?h4"
    by (subst (asm) regions_cong [of _ ?h4]) auto
  obtain k where full: "k < length (occupancy ?h4)" "markAsFull (Some n) ?h4 = Inr (?h4\<lparr>occupancy := (occupancy ?h4)[k := SPACE_SIZE]\<rparr>)"
    using markAsFull_ok [OF r4, of n] n(2) by auto
  let ?h5 = "?h4\<lparr>occupancy := (occupancy ?h4)[k := SPACE_SIZE]\<rparr>"
  have "bumpSpace h = Inr ?h5"
    unfolding bumpSpace_def Let_def h2(1) using kn(1) commit full(2) by (simp flip: n_def)
  moreover have "regions_ok ?h5"
    using r4 by (subst regions_cong [of _ ?h4]) auto
  moreover have "zone_step h ?h5"
    using h2(4) n(1,3,5) kn(1) unfolding zone_step_def vacant_def
    by (auto simp: nth_list_update zone_frame_def)
  ultimately show thesis
    using that [of ?h5 n] h2(5-7) n kn(1) by (auto simp: opened_def vacant_def n_def)
qed

section \<open>The invariant of the heap\<close>

lemma zone_frameD:
  assumes "zone_frame h' = zone_frame h"
  shows "page_size h' = page_size h" "accepts h' = accepts h" "os_nextFree h' = os_nextFree h" "os_limit h' = os_limit h"
    "mappings h' = mappings h" "zone_base h' = zone_base h" "zone_limit h' = zone_limit h" "evacuated h' = evacuated h"
    "atGCSafepoint h' = atGCSafepoint h" "atGCUnsafepoint h' = atGCUnsafepoint h" "gc_heap.more h' = gc_heap.more h"
  using assms by (cases h; cases h'; simp add: zone_frame_def)+

text \<open>What the operating system promises: a range it accepts is not empty, lies in the user part
  of the address space and is apart from the ranges mapped before.\<close>

definition mapped_range :: "oop \<times> oop \<Rightarrow> nat set" where
  "mapped_range = (\<lambda>(a, n). {unat a..<unat a + unat n})"

definition honest_os :: "((oop \<times> oop) list \<Rightarrow> oop \<Rightarrow> oop \<Rightarrow> bool) \<Rightarrow> bool" where
  "honest_os accept \<longleftrightarrow> (\<forall>maps b n. accept maps b n \<longrightarrow>
     0 < unat b \<and> 0 < unat n \<and> unat b + unat n \<le> 2 ^ 61 \<and>
     (\<forall>r\<in>set maps. mapped_range (b, n) \<inter> mapped_range r = {}))"

definition mapped :: "'h gc_heap_scheme \<Rightarrow> nat set" where
  "mapped h = (\<Union>r\<in>set (mappings h). mapped_range r)"

definition space_ok :: "gc_space \<Rightarrow> bool" where
  "space_ok s \<longleftrightarrow> space_base s \<le> space_next s \<and> space_next s \<le> softLimit s \<and>
     softLimit s = committedLimit s \<and> committedLimit s \<le> reservedLimit s \<and> unat (reservedLimit s) < 2 ^ 62"

lemma space_okD:
  assumes "space_ok s"
  shows "unat (space_base s) \<le> unat (space_next s)" "unat (space_next s) \<le> unat (softLimit s)"
    "unat (softLimit s) \<le> unat (reservedLimit s)" "unat (reservedLimit s) < 2 ^ 62" "committedLimit s = softLimit s"
  using assms by (auto simp: space_ok_def word_le_nat_alt)

definition span :: "gc_space \<Rightarrow> nat set" where "span s = between (space_base s) (reservedLimit s)"
definition taken :: "gc_space \<Rightarrow> nat set" where "taken s = between (space_base s) (space_next s)"

definition used :: "'h gc_heap_scheme \<Rightarrow> nat set" where
  "used h = (\<Union>i<length (gc_spaces h). taken (gc_spaces h ! i))"

definition zone_range :: "'h gc_heap_scheme \<Rightarrow> nat set" where
  "zone_range h = between (zone_base h) (zone_limit h)"

definition outside_ok :: "'h gc_heap_scheme \<Rightarrow> bool" where
  "outside_ok h \<longleftrightarrow>
     (\<forall>i<length (gc_spaces h). i \<notin> set (zone_spaces h) \<longrightarrow>
        space_ok (gc_spaces h ! i) \<and> span (gc_spaces h ! i) \<subseteq> mapped h - zone_range h \<and>
        (\<forall>j<length (gc_spaces h). j \<notin> set (zone_spaces h) \<longrightarrow> i \<noteq> j \<longrightarrow>
           span (gc_spaces h ! i) \<inter> span (gc_spaces h ! j) = {}))"

definition heap_ok :: "'h gc_heap_scheme \<Rightarrow> bool" where
  "heap_ok h \<longleftrightarrow> zone_ok h \<and> honest_os (accepts h) \<and> unat (os_nextFree h) < 2 ^ 62 \<and> unat (os_limit h) < 2 ^ 62 \<and>
     zone_range h \<subseteq> mapped h \<and> outside_ok h"

lemma in_between [simp]: "x \<in> between a b \<longleftrightarrow> unat a \<le> x \<and> x < unat b"
  by (simp add: between_def)

lemma region_span:
  assumes "regions_ok h" "k < length (zone_spaces h)"
  shows "span (gc_spaces h ! (zone_spaces h ! k)) =
      {unat (zone_base h) + k * region_bytes..<unat (zone_base h) + k * region_bytes + unat SPACE_SIZE}"
    "span (gc_spaces h ! (zone_spaces h ! k)) \<subseteq> zone_range h"
    "space_ok (gc_spaces h ! (zone_spaces h ! k))"
proof -
  have r: "region_ok k h (gc_spaces h ! (zone_spaces h ! k))" and k: "k < length (occupancy h)"
    using assms unfolding regions_ok_def by auto
  show e: "span (gc_spaces h ! (zone_spaces h ! k)) =
      {unat (zone_base h) + k * region_bytes..<unat (zone_base h) + k * region_bytes + unat SPACE_SIZE}"
    using r by (auto simp: span_def between_def region_ok_def)
  have "k * region_bytes + region_bytes \<le> length (occupancy h) * region_bytes"
    using k by (metis Suc_leI add.commute mult_Suc mult_le_mono1)
  then have top: "unat (zone_base h) + k * region_bytes + unat SPACE_SIZE \<le> unat (zone_limit h)" "unat (zone_limit h) < 2 ^ 62"
    using assms(1) region_numerals unfolding regions_ok_def by linarith+
  then show "span (gc_spaces h ! (zone_spaces h ! k)) \<subseteq> zone_range h"
    unfolding e by (auto simp: zone_range_def between_def)
  show "space_ok (gc_spaces h ! (zone_spaces h ! k))"
    using r top by (auto simp: space_ok_def region_ok_def)
qed

lemma regions_apart:
  assumes "regions_ok h" "i \<in> set (zone_spaces h)" "j \<in> set (zone_spaces h)" "i \<noteq> j"
  shows "span (gc_spaces h ! i) \<inter> span (gc_spaces h ! j) = {}"
proof -
  obtain k l where "k < length (zone_spaces h)" "zone_spaces h ! k = i" "l < length (zone_spaces h)" "zone_spaces h ! l = j"
    using assms(2,3) by (auto simp: in_set_conv_nth)
  moreover have "k < l \<and> k * region_bytes + region_bytes \<le> l * region_bytes \<or> l < k \<and> l * region_bytes + region_bytes \<le> k * region_bytes"
    using assms(4) calculation by (metis Suc_leI add.commute linorder_neqE_nat mult_Suc mult_le_mono1)
  ultimately show ?thesis
    using region_span(1) [OF assms(1), of k] region_span(1) [OF assms(1), of l] region_numerals by auto
qed

lemma heap_spaces_ok:
  assumes "heap_ok h" "i < length (gc_spaces h)"
  shows "space_ok (gc_spaces h ! i)"
    and "j < length (gc_spaces h) \<Longrightarrow> i \<noteq> j \<Longrightarrow> span (gc_spaces h ! i) \<inter> span (gc_spaces h ! j) = {}"
proof -
  have r: "regions_ok h" and out: "outside_ok h"
    using assms(1) by (simp_all add: heap_ok_def zone_ok_def)
  have zone: "span (gc_spaces h ! k) \<subseteq> zone_range h \<and> space_ok (gc_spaces h ! k)" if "k \<in> set (zone_spaces h)" for k
    using that region_span(2,3) [OF r] by (auto simp: in_set_conv_nth)
  show "space_ok (gc_spaces h ! i)"
    using zone out assms(2) unfolding outside_ok_def by blast
  show "span (gc_spaces h ! i) \<inter> span (gc_spaces h ! j) = {}" if "j < length (gc_spaces h)" "i \<noteq> j"
    using that assms(2) zone [of i] zone [of j] out regions_apart [OF r, of i j] unfolding outside_ok_def by blast
qed

lemma zone_step_used:
  assumes "zone_step h h'"
  shows "used h' = used h"
proof -
  have old: "taken (gc_spaces h' ! i) = taken (gc_spaces h ! i)" if "i < length (gc_spaces h)" for i
    using assms that by (simp add: zone_step_def taken_def)
  have new: "taken (gc_spaces h' ! i) = {}" if "i < length (gc_spaces h')" "\<not> i < length (gc_spaces h)" for i
    using assms that by (simp add: zone_step_def taken_def between_def)
  have "length (gc_spaces h) \<le> length (gc_spaces h')"
    using assms by (simp add: zone_step_def)
  then have split: "{..<length (gc_spaces h')} = {..<length (gc_spaces h)} \<union> {length (gc_spaces h)..<length (gc_spaces h')}"
    by auto
  show ?thesis
    unfolding used_def split using old new by simp
qed

lemma zone_step_heap:
  assumes "heap_ok h" "zone_step h h'" "zone_ok h'"
  shows "heap_ok h'"
proof -
  note frame = zone_frameD [of h' h]
  have f: "zone_frame h' = zone_frame h"
    using assms(2) by (simp add: zone_step_def)
  have empties: "set (emptySpaces h) \<subseteq> set (zone_spaces h)"
    using assms(1) by (simp add: heap_ok_def zone_ok_def regions_ok_def)
  have old: "i < length (gc_spaces h) \<and> i \<notin> set (zone_spaces h) \<and> gc_spaces h' ! i = gc_spaces h ! i"
    if "i < length (gc_spaces h')" "i \<notin> set (zone_spaces h')" for i
  proof -
    have "i < length (gc_spaces h)" "i \<notin> set (zone_spaces h)"
      using that assms(2) by (auto simp: zone_step_def)
    then show ?thesis
      using assms(2) empties by (auto simp: zone_step_def)
  qed
  have "mapped h' = mapped h" "zone_range h' = zone_range h"
    using frame(5-7) [OF f] by (simp_all add: mapped_def zone_range_def)
  then have "outside_ok h'"
    using assms(1) old unfolding heap_ok_def outside_ok_def by (metis (no_types, lifting))
  then show ?thesis
    using assms(1,3) frame(2-4) [OF f] \<open>mapped h' = mapped h\<close> \<open>zone_range h' = zone_range h\<close>
    by (simp add: heap_ok_def)
qed

section \<open>Allocation\<close>

lemma advance_ok:
  assumes "heap_ok h" "i < length (gc_spaces h)" "space_base s' = space_base (gc_spaces h ! i)"
    "reservedLimit s' = reservedLimit (gc_spaces h ! i)" "space_next (gc_spaces h ! i) \<le> space_next s'" "space_ok s'"
    "i \<notin> set (emptySpaces h)" "next_space h \<noteq> Some i"
    "i \<in> set (zone_spaces h) \<Longrightarrow> softLimit s' = softLimit (gc_spaces h ! i)"
  defines "h' \<equiv> h\<lparr>gc_spaces := (gc_spaces h)[i := s']\<rparr>"
  shows "heap_ok h'" "used h' = used h \<union> between (space_next (gc_spaces h ! i)) (space_next s')"
    "between (space_next (gc_spaces h ! i)) (space_next s') \<inter> used h = {}"
proof -
  let ?s = "gc_spaces h ! i"
  have ok: "space_ok ?s"
    by (rule heap_spaces_ok(1) [OF assms(1,2)])
  have zone: "zone_ok h" and regions: "regions_ok h"
    using assms(1) by (simp_all add: heap_ok_def zone_ok_def)
  have "regions_ok h'"
  proof (cases "i \<in> set (zone_spaces h)")
    case True
    show ?thesis
      unfolding h'_def
    proof (rule regions_put [OF regions True])
      fix k
      assume "k < length (zone_spaces h)" "zone_spaces h ! k = i"
      then have "region_ok k h ?s"
        using regions by (auto simp: regions_ok_def)
      then show "region_ok k h s'"
        using assms(3,4) assms(9) [OF True] space_okD [OF assms(6)] by (simp add: region_ok_def word_le_nat_alt)
    qed (use assms(7) in simp)
  next
    case False
    have "(gc_spaces h)[i := s'] ! (zone_spaces h ! k) = gc_spaces h ! (zone_spaces h ! k)" if "k < length (zone_spaces h)" for k
      using False nth_mem [OF that] by (metis nth_list_update_neq)
    moreover have "(gc_spaces h)[i := s'] ! j = gc_spaces h ! j" if "j \<in> set (emptySpaces h)" for j
      using that assms(7) by (metis nth_list_update_neq)
    ultimately show ?thesis
      using regions unfolding h'_def regions_ok_def by simp
  qed
  moreover have "opened (gc_spaces h' ! c)" if "c \<in> set (zone_spaces h)" "opened (gc_spaces h ! c)" for c
    using that assms(2,4,9) by (cases "c = i") (auto simp: h'_def opened_def)
  ultimately have "zone_ok h'"
    using zone assms(8) unfolding zone_ok_def by (auto simp: h'_def)
  moreover have "outside_ok h'"
  proof -
    have spans: "span (gc_spaces h' ! j) = span (gc_spaces h ! j)" if "j < length (gc_spaces h)" for j
      using that assms(3,4) by (cases "j = i") (simp_all add: h'_def span_def)
    have oks: "space_ok (gc_spaces h' ! j)" if "j < length (gc_spaces h)" for j
      using that assms(6) heap_spaces_ok(1) [OF assms(1) that] by (cases "j = i") (simp_all add: h'_def)
    have same: "mapped h' = mapped h" "zone_range h' = zone_range h" "length (gc_spaces h') = length (gc_spaces h)"
        "zone_spaces h' = zone_spaces h"
      by (simp_all add: h'_def mapped_def zone_range_def)
    show ?thesis
      using assms(1) spans oks unfolding heap_ok_def outside_ok_def same by auto
  qed
  ultimately show "heap_ok h'"
    using assms(1) unfolding heap_ok_def by (simp add: h'_def mapped_def zone_range_def)
  have "taken s' = taken ?s \<union> between (space_next ?s) (space_next s')"
    using assms(3,5) ok unfolding taken_def space_ok_def word_le_nat_alt by auto
  then have grown: "taken (gc_spaces h' ! j) = taken (gc_spaces h ! j) \<union>
      (if j = i then between (space_next ?s) (space_next s') else {})" if "j < length (gc_spaces h)" for j
    using that by (simp add: h'_def)
  have "used h' = (\<Union>j<length (gc_spaces h). taken (gc_spaces h ! j) \<union>
      (if j = i then between (space_next ?s) (space_next s') else {}))"
    unfolding used_def using grown by (simp add: h'_def)
  also have "\<dots> = used h \<union> between (space_next ?s) (space_next s')"
    using assms(2) by (auto simp: used_def simp del: in_between split: if_splits)
  finally show "used h' = used h \<union> between (space_next ?s) (space_next s')" .
  have "between (space_next ?s) (space_next s') \<subseteq> span ?s"
    using assms(4,6) ok unfolding span_def space_ok_def word_le_nat_alt by auto
  moreover have "taken (gc_spaces h ! j) \<subseteq> span (gc_spaces h ! j)" if "j < length (gc_spaces h)" for j
    using heap_spaces_ok(1) [OF assms(1) that] unfolding span_def taken_def space_ok_def word_le_nat_alt by auto
  moreover have "between (space_next ?s) (space_next s') \<inter> taken ?s = {}"
    by (auto simp: taken_def)
  ultimately show "between (space_next ?s) (space_next s') \<inter> used h = {}"
    using heap_spaces_ok(2) [OF assms(1,2)] unfolding used_def by blast
qed

definition granted :: "oop \<Rightarrow> nat \<Rightarrow> 'h gc_heap_scheme \<Rightarrow> 'h gc_heap_scheme \<Rightarrow> bool" where
  "granted p n h h' \<longleftrightarrow> p \<noteq> 0 \<and> heap_ok h' \<and> used h' = used h \<union> {unat p..<unat p + n} \<and>
     {unat p..<unat p + n} \<inter> used h = {} \<and> isGCAllowed h' = isGCAllowed h"

lemma zone_base_le:
  assumes "heap_ok h" "i \<in> set (zone_spaces h)"
  shows "space_next (gc_spaces h ! i) \<noteq> 0"
proof -
  obtain k where "region_ok k h (gc_spaces h ! i)"
    using regionsD [of h i] assms by (auto simp: heap_ok_def zone_ok_def)
  moreover have "0 < unat (zone_base h)"
    using assms(1) by (simp add: heap_ok_def zone_ok_def regions_ok_def)
  ultimately have "0 < unat (space_next (gc_spaces h ! i))"
    by (simp add: region_ok_def word_le_nat_alt)
  then show ?thesis
    by auto
qed

lemma current_allocation:
  assumes "heap_ok h"
  obtains (full) c where "allocateIfPossible n (current_space h) h = Inr (0, h)" "current_space h = Some c"
      "unat (softLimit (gc_spaces h ! c)) \<le> unat (space_next (gc_spaces h ! c)) + unat n"
  | (fits) p h' where "allocateIfPossible n (current_space h) h = Inr (p, h')" "granted p (unat n) h h'"
proof -
  obtain c m where c: "current_space h = Some c" "next_space h = Some m" "c \<noteq> m" "c \<in> set (zone_spaces h)"
      "c \<notin> set (emptySpaces h)"
    using assms unfolding heap_ok_def zone_ok_def by auto
  then have len: "c < length (gc_spaces h)"
    using assms regionsD [of h c] by (auto simp: heap_ok_def zone_ok_def)
  let ?s = "gc_spaces h ! c"
  let ?s' = "?s\<lparr>space_next := space_next ?s + ucast n\<rparr>"
  have ok: "space_ok ?s"
    by (rule heap_spaces_ok(1) [OF assms len])
  then have "unat (space_next ?s) < 2 ^ 62"
    using space_okD [OF ok] by linarith
  then have stop: "unat (space_next ?s + ucast n) = unat (space_next ?s) + unat n"
    using unat_less_32 [of n] by (subst unat_plus_below) (auto simp: unat_ucast_64)
  show thesis
  proof (cases "space_next ?s + ucast n < softLimit ?s")
    case False
    then show thesis
      using full c(1) len stop by (simp add: allocateIfPossible_def word_less_nat_alt)
  next
    case True
    have "space_ok ?s'" "space_next ?s \<le> space_next ?s'"
      using ok True stop unfolding space_ok_def word_le_nat_alt word_less_nat_alt by auto
    have "granted (space_next ?s) (unat n) h (h\<lparr>gc_spaces := (gc_spaces h)[c := ?s']\<rparr>)"
      using advance_ok [OF assms len _ _ \<open>space_next ?s \<le> space_next ?s'\<close> \<open>space_ok ?s'\<close> c(5)] c(2,3) zone_base_le [OF assms c(4)] stop
      by (simp add: granted_def between_def isGCAllowed_def)
    then show thesis
      using fits c(1) len True by (simp add: allocateIfPossible_def)
  qed
qed

lemma heap_bump:
  assumes "heap_ok h" "zone_room h"
  obtains h' c where "bumpSpace h = Inr h'" "heap_ok h'" "used h' = used h" "zone_step h h'"
    "next_space h = Some c" "current_space h' = Some c"
    "softLimit (gc_spaces h' ! c) = reservedLimit (gc_spaces h' ! c)" "space_next (gc_spaces h' ! c) = space_base (gc_spaces h' ! c)"
    "unat (reservedLimit (gc_spaces h' ! c)) = unat (space_base (gc_spaces h' ! c)) + unat SPACE_SIZE"
proof -
  obtain c where c: "next_space h = Some c" "c \<in> set (zone_spaces h)" "c \<notin> set (emptySpaces h)" "opened (gc_spaces h ! c)"
      "space_next (gc_spaces h ! c) = space_base (gc_spaces h ! c)" and regions: "regions_ok h"
    using assms(1) unfolding heap_ok_def zone_ok_def by auto
  obtain k where k: "c < length (gc_spaces h)" "region_ok k h (gc_spaces h ! c)"
    using regionsD [OF regions c(2)] by blast
  obtain h' n where h': "bumpSpace h = Inr h'" "regions_ok h'" "zone_step h h'"
    "current_space h' = next_space h" "next_space h' = Some n"
    "n \<in> set (zone_spaces h')" "n \<notin> set (emptySpaces h')" "n \<in> set (emptySpaces h) \<or> n \<notin> set (zone_spaces h)"
    "opened (gc_spaces h' ! n)" "space_next (gc_spaces h' ! n) = space_base (gc_spaces h' ! n)"
    using bumpSpace_ok [OF regions assms(2)] .
  have same: "gc_spaces h' ! c = gc_spaces h ! c" "c \<in> set (zone_spaces h')" "c \<notin> set (emptySpaces h')"
    using h'(3) c k(1) unfolding zone_step_def by auto
  then have "zone_ok h'"
    using h' c by (auto simp: zone_ok_def)
  then show thesis
  proof (rule that [OF h'(1) zone_step_heap [OF assms(1) h'(3)] zone_step_used [OF h'(3)] h'(3) c(1)])
    show "unat (reservedLimit (gc_spaces h' ! c)) = unat (space_base (gc_spaces h' ! c)) + unat SPACE_SIZE"
      using k(2) by (simp add: same(1) region_ok_def)
  qed (use h' c same in \<open>simp_all add: opened_def\<close>)
qed

lemma zone_step_allowed: "zone_step h h' \<Longrightarrow> isGCAllowed h' = isGCAllowed h"
  unfolding zone_step_def isGCAllowed_def using zone_frameD(9,10) by metis

lemma bump_full: "\<not> zone_room h \<Longrightarrow> bumpSpace h = Inl (FatalError ''Out of space in old zone'')"
  by (simp add: bumpSpace_def createEmptySpace_def)

definition zone_full :: fault where "zone_full = FatalError ''Out of space in old zone''"
definition mapping_refused :: fault where "mapping_refused = FatalError ''Memory allocation failed''"

lemma bumping_allocation:
  fixes n :: "32 word"
  assumes "heap_ok h" "unat n \<le> unat LargeThreshold"
  shows "(\<exists>p h'. allocateIfPossibleBumping (ucast n) h = Inr (p, h') \<and> granted p (unat n) h h') \<or>
    allocateIfPossibleBumping (ucast n) h = Inl zone_full \<and> \<not> zone_room h"
proof (cases rule: current_allocation [OF assms(1), of n, case_names full fits])
  case (fits p h')
  then show ?thesis
    by (auto simp: allocateIfPossibleBumping_def granted_def)
next
  case (full c)
  show ?thesis
  proof (cases "zone_room h")
    case False
    then show ?thesis
      using full bump_full [OF False] by (auto simp: allocateIfPossibleBumping_def zone_full_def)
  next
    case True
    obtain h' c where b: "bumpSpace h = Inr h'" "heap_ok h'" "used h' = used h" "zone_step h h'"
        "next_space h = Some c" "current_space h' = Some c"
        "softLimit (gc_spaces h' ! c) = reservedLimit (gc_spaces h' ! c)" "space_next (gc_spaces h' ! c) = space_base (gc_spaces h' ! c)"
        "unat (reservedLimit (gc_spaces h' ! c)) = unat (space_base (gc_spaces h' ! c)) + unat SPACE_SIZE"
      using heap_bump [OF assms(1) True] .
    show ?thesis
    proof (cases rule: current_allocation [OF b(2), of n, case_names full fits])
      case (full c')
      then show ?thesis
        using b(6-9) assms(2) region_numerals(1) by (simp add: LargeThreshold_def)
    next
      case (fits p h'')
      then show ?thesis
        using full b zone_step_allowed [OF b(4)] by (auto simp: allocateIfPossibleBumping_def granted_def)
    qed
  qed
qed

lemma reserve_loop:
  fixes P :: "oop \<Rightarrow> bool"
  assumes "unat limit < 2 ^ 62" "unat b < 2 ^ 62"
  defines "loop \<equiv> while_result (\<lambda>b. \<not> P b)
    (\<lambda>b. if limit \<le> b + 0x10000 then Inl mapping_refused else Inr (b + 0x10000))"
  shows "(\<exists>b'. loop b = Inr b' \<and> P b') \<or> loop b = Inl mapping_refused"
  using assms(2)
proof (induction "unat limit - unat b" arbitrary: b rule: less_induct)
  case less
  have step: "unat (b + 0x10000) = unat b + 0x10000"
    using less.prems by (subst unat_plus_below) auto
  have unfold: "loop b = (if \<not> P b then bind_result (if limit \<le> b + 0x10000 then Inl mapping_refused else Inr (b + 0x10000)) loop else Inr b)"
    unfolding loop_def by (subst while_result_unfold) simp
  show ?case
  proof (cases "P b \<or> limit \<le> b + 0x10000")
    case True
    then show ?thesis
      unfolding unfold by auto
  next
    case False
    then have "unat b + 0x10000 < unat limit"
      using step by (simp add: word_le_nat_alt)
    then show ?thesis
      using less.hyps [of "b + 0x10000"] False step assms(1) unfolding unfold by simp
  qed
qed

lemma ReserveMemory_cases:
  assumes "unat (os_limit h) < 2 ^ 62" "unat (os_nextFree h) < 2 ^ 62"
  obtains (refused) "ReserveMemory base v h = Inl mapping_refused"
  | (mapped) b where "accepts h (mappings h) b (pagealign v h)" "ReserveMemory base v h = Inr (b,
      h\<lparr>os_nextFree := pagealign (b + v) h, mappings := (b, pagealign v h) # mappings h\<rparr>)"
proof -
  have "unat (reserve_start base h) < 2 ^ 62"
    using assms by (auto simp: reserve_start_def word_less_nat_alt)
  note loop = reserve_loop [OF assms(1) this, of "\<lambda>b. accepts h (mappings h) b (pagealign v h)", unfolded mapping_refused_def]
  from loop show thesis
  proof (elim disjE exE conjE)
    fix b
    assume "while_result (\<lambda>b. \<not> accepts h (mappings h) b (pagealign v h)) (\<lambda>b. if os_limit h \<le> b + 0x10000
        then Inl (FatalError ''Memory allocation failed'') else Inr (b + 0x10000)) (reserve_start base h) = Inr b"
      "accepts h (mappings h) b (pagealign v h)"
    then show thesis
      by (intro mapped [of b]) (simp_all add: ReserveMemory_def Let_def)
  next
    assume "while_result (\<lambda>b. \<not> accepts h (mappings h) b (pagealign v h)) (\<lambda>b. if os_limit h \<le> b + 0x10000
        then Inl (FatalError ''Memory allocation failed'') else Inr (b + 0x10000)) (reserve_start base h) =
        Inl (FatalError ''Memory allocation failed'')"
    then show thesis
      by (intro refused) (simp add: ReserveMemory_def Let_def mapping_refused_def)
  qed
qed

lemma heap_ok_os: "heap_ok h \<Longrightarrow> unat (os_limit h) < 2 ^ 62" "heap_ok h \<Longrightarrow> unat (os_nextFree h) < 2 ^ 62"
  by (simp_all add: heap_ok_def)

lemma align_accepted:
  assumes "page = 2 ^ k" "k < 32" "0 < unat (align a page)"
  shows "unat a \<le> unat (align a page)"
proof (cases "unat a < 2 ^ 63")
  case True
  then show ?thesis
    by (rule align_bounds [OF assms(1,2)])
next
  case False
  have "(2 ^ k :: nat) < 2 ^ 64" "(2 ^ k :: nat) \<le> 2 ^ 32"
    using power_strict_increasing [of k 64 "2 :: nat"] power_increasing [of k 32 "2 :: nat"] assms(2) by simp_all
  then have u: "unat (2 ^ k :: oop) = 2 ^ k"
    using unat_of_nat [where x = "2 ^ k" and 'a = 64] by simp
  then have m: "unat (2 ^ k - 1 :: oop) = 2 ^ k - 1"
    by (subst unat_sub) (auto simp: word_le_nat_alt)
  have e: "unat (align a page) = unat (a + (2 ^ k - 1)) div 2 ^ k * 2 ^ k"
    unfolding align_def assms(1) and_not_low ..
  have "unat a + (2 ^ k - 1) < 2 ^ 64"
  proof (rule ccontr)
    assume over: "\<not> ?thesis"
    then have "unat (a + (2 ^ k - 1)) = unat a + (2 ^ k - 1) - 2 ^ 64"
      using unat_less_64 [of a] \<open>(2 ^ k :: nat) < 2 ^ 64\<close> by (simp add: unat_plus_if' m)
    moreover have "(2 :: nat) ^ 64 = 18446744073709551616" "0 < (2 :: nat) ^ k"
      by simp_all
    ultimately have "unat (a + (2 ^ k - 1)) < 2 ^ k"
      using unat_less_64 [of a] over by linarith
    then show False
      using assms(3) e by simp
  qed
  then have plus: "unat (a + (2 ^ k - 1)) = unat a + (2 ^ k - 1)"
    by (subst unat_plus_below) (auto simp: m)
  have "(unat a + (2 ^ k - 1)) div 2 ^ k * 2 ^ k + (unat a + (2 ^ k - 1)) mod 2 ^ k = unat a + (2 ^ k - 1)"
    by (rule div_mult_mod_eq)
  moreover have "(unat a + (2 ^ k - 1)) mod 2 ^ k < (2 ^ k :: nat)"
    by (rule mod_less_divisor) simp
  ultimately show ?thesis
    unfolding e plus by linarith
qed

text \<open>A range the system accepts makes a new space that is apart from everything mapped before.\<close>

lemma reserved_space:
  assumes "heap_ok h" "accepts h (mappings h) b (pagealign v h)"
  defines "h' \<equiv> h\<lparr>os_nextFree := pagealign (b + v) h, mappings := (b, pagealign v h) # mappings h,
      gc_spaces := gc_spaces h @ [allocatedAt_limit b (b + v) True], heap_spaces := heap_spaces h @ [length (gc_spaces h)]\<rparr>"
  shows "heap_ok h'" "used h' = used h" "unat (b + v) = unat b + unat v" "0 < unat b" "unat b + unat v \<le> 2 ^ 61"
    "length (gc_spaces h) \<notin> set (zone_spaces h')" "length (gc_spaces h) \<notin> set (emptySpaces h')"
    "next_space h' \<noteq> Some (length (gc_spaces h))"
proof -
  let ?i = "length (gc_spaces h)" and ?s = "allocatedAt_limit b (b + v) True"
  have zone: "zone_ok h" and regions: "regions_ok h" and honest: "honest_os (accepts h)" and out: "outside_ok h"
      and zmap: "zone_range h \<subseteq> mapped h"
    using assms(1) by (simp_all add: heap_ok_def zone_ok_def)
  obtain k where k: "page_size h = 2 ^ k" "k < 32"
    using regions by (auto simp: regions_ok_def)
  have page: "0 < unat b" "0 < unat (pagealign v h)" "unat b + unat (pagealign v h) \<le> 2 ^ 61"
      "mapped_range (b, pagealign v h) \<inter> mapped h = {}"
    using honest assms(2) unfolding honest_os_def mapped_def by blast+
  then have v: "unat v \<le> unat (pagealign v h)"
    by (simp add: pagealign_def align_accepted [OF k])
  then show plus: "unat (b + v) = unat b + unat v" and small: "unat b + unat v \<le> 2 ^ 61" and "0 < unat b"
    using page by (auto intro: unat_plus_below)
  have span: "span ?s \<subseteq> mapped_range (b, pagealign v h)"
    using v plus by (auto simp: span_def allocatedAt_limit_def Let_def mapped_range_def)
  have fresh: "space_ok ?s"
    using plus small by (simp add: space_ok_def allocatedAt_limit_def Let_def word_le_nat_alt)
  have old: "j < ?i" if "j \<in> set (zone_spaces h)" for j
    using regionsD [OF regions that] by blast
  have empties: "set (emptySpaces h) \<subseteq> set (zone_spaces h)"
    using regions by (simp add: regions_ok_def)
  show "?i \<notin> set (zone_spaces h')" "?i \<notin> set (emptySpaces h')"
    using old empties by (auto simp: h'_def)
  show "next_space h' \<noteq> Some ?i"
    using zone old [of ?i] by (auto simp: zone_ok_def h'_def)
  have nth: "gc_spaces h' ! j = gc_spaces h ! j" if "j < ?i" for j
    using that by (simp add: h'_def nth_append)
  have regions': "regions_ok h'"
    using regions old [OF nth_mem] old nth empties region_ok_cong [of h' h]
    unfolding regions_ok_def by (auto simp: h'_def nth_append less_Suc_eq subset_iff)
  have "zone_ok h'"
    using zone regions' old nth unfolding zone_ok_def by (auto simp: h'_def nth_append)
  moreover have "outside_ok h'"
  proof -
    have m: "mapped h' = mapped_range (b, pagealign v h) \<union> mapped h" and z: "zone_range h' = zone_range h"
        and l: "length (gc_spaces h') = Suc ?i" "zone_spaces h' = zone_spaces h" "gc_spaces h' ! ?i = ?s"
      by (simp_all add: h'_def mapped_def zone_range_def)
    have sub: "span (gc_spaces h ! j) \<subseteq> mapped h" if "j < ?i" "j \<notin> set (zone_spaces h)" for j
      using out that by (auto simp: outside_ok_def)
    show ?thesis
      unfolding outside_ok_def m z l
    proof (intro allI impI)
      fix i
      assume i: "i < Suc ?i" "i \<notin> set (zone_spaces h)"
      show "space_ok (gc_spaces h' ! i) \<and> span (gc_spaces h' ! i) \<subseteq> mapped_range (b, pagealign v h) \<union> mapped h - zone_range h \<and>
        (\<forall>j<Suc ?i. j \<notin> set (zone_spaces h) \<longrightarrow> i \<noteq> j \<longrightarrow> span (gc_spaces h' ! i) \<inter> span (gc_spaces h' ! j) = {})"
      proof (cases "i = ?i")
        case True
        then show ?thesis
          using fresh span page(4) zmap l(3) sub nth by (auto simp: less_Suc_eq; blast)
      next
        case False
        then have "i < ?i" using i by simp
        then show ?thesis
          using out i nth sub [of i] span page(4) l(3) unfolding outside_ok_def by (auto simp: less_Suc_eq; blast)
      qed
    qed
  qed
  moreover have "unat (os_nextFree h') < 2 ^ 62"
  proof -
    have "(2::nat) ^ k \<le> 2 ^ 32"
      using k by (intro power_increasing) auto
    then show ?thesis
      using align_bounds(2) [OF k, of "b + v"] plus small by (simp add: h'_def pagealign_def)
  qed
  ultimately show "heap_ok h'"
    using assms(1) zmap unfolding heap_ok_def by (auto simp: h'_def mapped_def zone_range_def)
  show "used h' = used h"
  proof -
    have "used h' = taken ?s \<union> (\<Union>j<?i. taken (gc_spaces h' ! j))"
      by (simp add: used_def h'_def lessThan_Suc)
    then show ?thesis
      using nth by (simp add: used_def taken_def between_def allocatedAt_limit_def Let_def cong: SUP_cong_simp)
  qed
qed

lemma uint_below: "unat (w :: oop) < 2 ^ 63 \<Longrightarrow> uint w < 2 ^ 63"
  using of_nat_less_iff [of "unat w" "2 ^ 63", where 'a = int] by simp

lemma scast_small:
  assumes "unat (scast (n :: 32 word) :: oop) < 2 ^ 63"
  shows "(scast n :: oop) = ucast n"
proof -
  have "\<not> sint n < 0"
  proof
    assume neg: "sint n < 0"
    have low: "- (2 ^ 31) \<le> sint n"
      using sint_greater_eq [of n] by simp
    have "uint (scast n :: oop) = sint n mod 2 ^ 64"
      unfolding scast_eq uint_word_of_int by simp
    also have "\<dots> = (sint n + 2 ^ 64) mod 2 ^ 64"
      by simp
    also have "\<dots> = sint n + 2 ^ 64"
      using neg low by (intro mod_pos_pos_trivial) auto
    finally have "uint (scast n :: oop) = sint n + 2 ^ 64" .
    moreover have "uint (scast n :: oop) < 2 ^ 63"
      using assms by (rule uint_below)
    ultimately show False
      using low by simp
  qed
  moreover have "sint n < 2 ^ 32"
    using sint_less [of n] by simp
  ultimately have "take_bit LENGTH(32) (sint n) = sint n"
    by (intro take_bit_int_eq_self) auto
  then have "sint n = uint n"
    using uint_sint [of n] by (simp only:)
  then show ?thesis
    unfolding scast_eq ucast_eq by simp
qed

lemma os_calls_heap_ok [simp]:
  "heap_ok (h\<lparr>os_calls := c\<rparr>) = heap_ok h" "used (h\<lparr>os_calls := c\<rparr>) = used h" "isGCAllowed (h\<lparr>os_calls := c\<rparr>) = isGCAllowed h"
  by (simp_all add: heap_ok_def zone_ok_def regions_ok_def region_ok_def outside_ok_def mapped_def zone_range_def
      used_def isGCAllowed_def)

lemma tenured_heap_ok [simp]:
  "heap_ok (tenured n h) = heap_ok h" "used (tenured n h) = used h" "isGCAllowed (tenured n h) = isGCAllowed h"
  "heap_ok (h\<lparr>gcNeeded := b\<rparr>) = heap_ok h" "used (h\<lparr>gcNeeded := b\<rparr>) = used h" "isGCAllowed (h\<lparr>gcNeeded := b\<rparr>) = isGCAllowed h"
  by (simp_all add: tenured_def heap_ok_def zone_ok_def regions_ok_def region_ok_def outside_ok_def mapped_def zone_range_def
      used_def isGCAllowed_def)

text \<open>The first allocation of a space that was made for it takes all of it.\<close>

lemma fill_space:
  assumes "heap_ok h" "i < length (gc_spaces h)" "gc_spaces h ! i = allocatedAt_limit b (b + ucast n) True"
    "i \<notin> set (zone_spaces h)" "i \<notin> set (emptySpaces h)" "next_space h \<noteq> Some i"
    "0 < unat n" "unat (b + ucast n) = unat b + unat n" "unat b + unat n \<le> 2 ^ 61" "0 < unat b"
  obtains h' where "allocateCommittingIfNeeded n (Some i) h = Inr (b, h')" "granted b (unat n) h h'"
    "h' = h\<lparr>os_calls := os_calls h', gc_spaces := gc_spaces h'\<rparr>"
proof -
  let ?s = "\<lparr>space_base = b, space_next = b + ucast n, softLimit = b + ucast n, committedLimit = b + ucast n,
      reservedLimit = b + ucast n\<rparr>"
  let ?h1 = "h\<lparr>os_calls := os_calls h @ [Commit b (ucast n)]\<rparr>"
  let ?h' = "?h1\<lparr>gc_spaces := (gc_spaces h)[i := ?s]\<rparr>"
  obtain k where k: "page_size h = 2 ^ k" "k < 32"
    using assms(1) by (auto simp: heap_ok_def zone_ok_def regions_ok_def)
  have "unat (b + ucast n) \<le> unat (align (b + ucast n) (page_size h))"
    using assms(8,9) by (intro align_bounds [OF k]) simp
  then have page: "min (pagealign (b + ucast n) h) (b + ucast n) = b + ucast n"
    by (simp add: pagealign_def min_absorb2 flip: word_le_nat_alt)
  have above: "\<not> b + ucast n \<le> b" and le: "b \<le> b + ucast n"
    using assms(7,8) by (simp_all add: word_le_nat_alt)
  have "space_ok ?s"
    using assms(8,9) by (simp add: space_ok_def word_le_nat_alt)
  have fields: "space_base (gc_spaces ?h1 ! i) = b" "space_next (gc_spaces ?h1 ! i) = b" "reservedLimit (gc_spaces ?h1 ! i) = b + ucast n"
    by (simp_all add: assms(3) allocatedAt_limit_def Let_def)
  have h1: "heap_ok ?h1" "i < length (gc_spaces ?h1)" "i \<notin> set (emptySpaces ?h1)" "next_space ?h1 \<noteq> Some i"
    using assms(1,2,5,6) by simp_all
  have "softLimit ?s = softLimit (gc_spaces ?h1 ! i)" if "i \<in> set (zone_spaces ?h1)"
    using assms(4) that by simp
  note advanced = advance_ok [OF h1(1,2), of ?s, unfolded fields, simplified gc_space.simps, OF refl refl le \<open>space_ok ?s\<close> h1(3,4),
      simplified gc_space.simps, OF this [simplified gc_space.simps]]
  have h': "?h1\<lparr>gc_spaces := (gc_spaces ?h1)[i := ?s]\<rparr> = ?h'" and same: "used ?h1 = used h"
    by simp_all
  have "granted b (unat n) h ?h'"
    using advanced assms(10) unfolding h' same granted_def between_def assms(8)
    by (auto simp: isGCAllowed_def)
  moreover have "allocateCommittingIfNeeded n (Some i) h = Inr (b, ?h')"
    using assms(2,3) above page
    by (simp add: allocateCommittingIfNeeded_def allocatedAt_limit_def Let_def commitMemoryUpTo_def os_call_def)
  ultimately show thesis
    using that [of ?h'] by simp
qed

lemma granted_cong:
  "granted p n h1 h' \<Longrightarrow> used h1 = used h \<Longrightarrow> isGCAllowed h1 = isGCAllowed h \<Longrightarrow> granted p n h h'"
  by (simp add: granted_def)

lemma large_allocation:
  assumes "heap_ok h" "0 < unat n"
  shows "(\<exists>p h'. allocateLarge n h = Inr (p, h') \<and> granted p (unat n) h h') \<or> allocateLarge n h = Inl mapping_refused"
proof (cases rule: ReserveMemory_cases [OF heap_ok_os [OF assms(1)], of 0 "scast n", case_names refused mapped])
  case refused
  then show ?thesis
    by (simp add: allocateLarge_def addNewSpaceSized_def new_space_def)
next
  case (mapped b)
  let ?h = "h\<lparr>os_nextFree := pagealign (b + scast n) h, mappings := (b, pagealign (scast n) h) # mappings h,
      gc_spaces := gc_spaces h @ [allocatedAt_limit b (b + scast n) True], heap_spaces := heap_spaces h @ [length (gc_spaces h)]\<rparr>"
  note new = reserved_space [OF assms(1) mapped(1)]
  have c: "(scast n :: oop) = ucast n"
    using new(5) by (intro scast_small) simp
  obtain h' where "allocateCommittingIfNeeded n (Some (length (gc_spaces h))) ?h = Inr (b, h')" "granted b (unat n) ?h h'"
    by (rule fill_space [OF new(1) _ _ new(6,7,8) assms(2) new(3) [unfolded c unat_ucast_64] new(5) [unfolded c unat_ucast_64] new(4), unfolded c])
      (simp_all add: c)
  then show ?thesis
    using new(2,4) mapped(2)
    by (auto simp: allocateLarge_def addNewSpaceSized_def new_space_def addSpace_def Let_def c isGCAllowed_def intro: granted_cong)
qed

definition allocation_outcome ::
  "nat \<Rightarrow> 'h gc_heap_scheme \<Rightarrow> (oop \<times> 'h gc_heap_scheme) result \<Rightarrow> bool" where
  "allocation_outcome n h r = (case r of
       Inr (p, h') \<Rightarrow> granted p n h h'
     | Inl e \<Rightarrow> e = mapping_refused \<and> unat LargeThreshold < n \<or> e = zone_full \<and> \<not> zone_room h)"

lemma allocation_safe_facts:
  fixes n :: "32 word"
  assumes "heap_ok h" "isGCAllowed h \<Longrightarrow> \<not> gcNeeded h \<and> \<not> hasReachedCountdown h"
  shows "allocation_outcome (unat n) h (heap_allocate collect n h)"
proof (cases rule: current_allocation [OF assms(1), of n, case_names full fits])
  case (fits p h')
  then show ?thesis
    by (auto simp: heap_allocate_def allocateIfPossibleCurrent_def allocation_outcome_def granted_def)
next
  case (full c)
  have threshold: "LargeThreshold < ucast n \<longleftrightarrow> unat LargeThreshold < unat n"
    by (simp add: word_less_nat_alt unat_ucast_64)
  show ?thesis
  proof (cases "LargeThreshold < ucast n")
    case True
    then have "0 < unat n"
      using threshold by linarith
    then show ?thesis
      using large_allocation [OF assms(1), of n] full True threshold
      by (auto simp: heap_allocate_def allocateIfPossibleCurrent_def allocation_outcome_def)
  next
    case False
    define h1 where "h1 = tenured (ucast n) (if isGCAllowed h then h else h\<lparr>gcNeeded := True\<rparr>)"
    have h1: "heap_ok h1" "used h1 = used h" "isGCAllowed h1 = isGCAllowed h" "zone_room h1 = zone_room h"
      using assms(1) by (simp_all add: h1_def) (simp add: tenured_def)
    have "heap_allocate collect n h = allocateIfPossibleBumping (ucast n) h1"
      using full False assms(2) by (auto simp: heap_allocate_def allocateIfPossibleCurrent_def collectIfTime_def h1_def)
    moreover have "unat n \<le> unat LargeThreshold"
      using False threshold by simp
    ultimately show ?thesis
      using bumping_allocation [OF h1(1), of n] h1 by (auto simp: allocation_outcome_def granted_def)
  qed
qed

text \<open>A run of requests between two collections.\<close>

fun allocate_all ::
  "('h gc_heap_scheme \<Rightarrow> 'h gc_heap_scheme result) \<Rightarrow> 32 word list \<Rightarrow> ((oop \<times> nat) list, 'h gc_heap_scheme) heap_op" where
  "allocate_all collect [] h = Inr ([], h)"
| "allocate_all collect (n # ns) h = bind_result (heap_allocate collect n h) (\<lambda>(p, h1).
     bind_result (allocate_all collect ns h1) (\<lambda>(bs, h2). Inr ((p, unat n) # bs, h2)))"

definition cells_of :: "oop \<times> nat \<Rightarrow> nat set" where "cells_of = (\<lambda>(p, n). {unat p..<unat p + n})"

fun all_apart :: "(oop \<times> nat) list \<Rightarrow> bool" where
  "all_apart [] = True"
| "all_apart (b # bs) \<longleftrightarrow> (\<forall>c\<in>set bs. cells_of b \<inter> cells_of c = {}) \<and> all_apart bs"

lemma allocate_all_apart:
  assumes "heap_ok h" "\<not> isGCAllowed h" "allocate_all collect ns h = Inr (bs, h')"
  shows "heap_ok h' \<and> map snd bs = map unat ns \<and> all_apart bs \<and>
    used h' = used h \<union> (\<Union>b\<in>set bs. cells_of b) \<and> used h \<inter> (\<Union>b\<in>set bs. cells_of b) = {}"
  using assms
proof (induction ns arbitrary: h bs)
  case (Cons n ns)
  obtain p h1 bs' where step: "heap_allocate collect n h = Inr (p, h1)" "allocate_all collect ns h1 = Inr (bs', h')"
      "bs = (p, unat n) # bs'"
    using Cons.prems(3) by (auto simp: bind_result_eq_Inr)
  have g: "granted p (unat n) h h1"
    using allocation_safe_facts [OF Cons.prems(1), of n collect] Cons.prems(2) step(1) by (simp add: allocation_outcome_def)
  have c: "cells_of (p, unat n) = {unat p..<unat p + unat n}"
    by (simp add: cells_of_def)
  have "heap_ok h' \<and> map snd bs' = map unat ns \<and> all_apart bs' \<and>
    used h' = used h1 \<union> (\<Union>b\<in>set bs'. cells_of b) \<and> used h1 \<inter> (\<Union>b\<in>set bs'. cells_of b) = {}"
    using Cons.IH [OF _ _ step(2)] g Cons.prems(2) by (simp add: granted_def)
  then show ?case
    using g unfolding granted_def step(3) c [symmetric] by (auto simp del: in_between)
qed simp

section \<open>The heap at the start\<close>

lemma zone_step_trans:
  assumes "zone_step h h1" "zone_step h1 h2"
  shows "zone_step h h2"
proof -
  have len: "length (gc_spaces h) \<le> length (gc_spaces h1)" "length (gc_spaces h1) \<le> length (gc_spaces h2)"
    using assms by (simp_all add: zone_step_def)
  have empties: "i \<notin> set (emptySpaces h1)" if "i < length (gc_spaces h)" "i \<notin> set (emptySpaces h)" for i
    using assms(1) that unfolding zone_step_def by auto
  have old: "space_base (gc_spaces h2 ! i) = space_base (gc_spaces h ! i) \<and>
        reservedLimit (gc_spaces h2 ! i) = reservedLimit (gc_spaces h ! i) \<and>
        space_next (gc_spaces h2 ! i) = space_next (gc_spaces h ! i) \<and>
        (i \<notin> set (emptySpaces h) \<longrightarrow> gc_spaces h2 ! i = gc_spaces h ! i)" if "i < length (gc_spaces h)" for i
    using that assms empties [OF that] len unfolding zone_step_def by simp
  have new: "space_next (gc_spaces h2 ! i) = space_base (gc_spaces h2 ! i)"
    if "i < length (gc_spaces h2)" "length (gc_spaces h) \<le> i" for i
    using that assms len unfolding zone_step_def by (cases "i < length (gc_spaces h1)") simp_all
  have split: "{length (gc_spaces h)..<length (gc_spaces h2)} =
      {length (gc_spaces h)..<length (gc_spaces h1)} \<union> {length (gc_spaces h1)..<length (gc_spaces h2)}"
    using len by auto
  have "set (zone_spaces h2) = set (zone_spaces h) \<union> {length (gc_spaces h)..<length (gc_spaces h2)}"
    using assms unfolding split zone_step_def by (simp only: Un_assoc)
  moreover have "set (emptySpaces h2) \<subseteq> set (emptySpaces h) \<union> {length (gc_spaces h)..<length (gc_spaces h2)}"
    using assms unfolding split zone_step_def by blast
  ultimately show ?thesis
    using assms old new len unfolding zone_step_def by simp
qed

lemma build_zone_ok:
  assumes page: "k < 32" "page_size h = 2 ^ k" and base: "0 < unat (zone_base h)"
    and limit: "unat (zone_limit h) = unat (zone_base h) + 256 * region_bytes" "unat (zone_limit h) < 2 ^ 62"
    and empty: "zone_nextFree h = zone_base h" "zone_spaces h = []" "emptySpaces h = []" "occupancy h = []"
  obtains h' where "build_zone h = Inr h'" "zone_ok h'" "zone_step (h\<lparr>occupancy := replicate 256 0\<rparr>) h'"
proof -
  let ?h = "h\<lparr>occupancy := replicate 256 0\<rparr>"
  have "unat (zone_limit h - 1) = unat (zone_base h) + 255 * region_bytes + (region_bytes - 1)"
    using limit base by (subst unat_sub) (auto simp: word_le_nat_alt region_bytes_def)
  moreover have regions: "regions_ok ?h"
    using assms by (auto simp: regions_ok_def)
  ultimately have "indexOfPointer (zone_limit h - 1) ?h = word_of_nat 255 + 1"
    by (intro region_index(1)) (auto simp: region_bytes_def)
  then have size: "unat (indexOfPointer (zone_limit h - 1) h) = 256"
    by (simp add: indexOfPointer_def)
  have room: "zone_room ?h"
    using limit(1) empty by (auto simp: region_bytes_def)
  obtain h1 n1 where h1: "bumpSpace ?h = Inr h1" "regions_ok h1" "zone_step ?h h1" "next_space h1 = Some n1"
    "n1 \<in> set (zone_spaces h1)" "n1 \<notin> set (emptySpaces h1)" "opened (gc_spaces h1 ! n1)" "length (zone_spaces h1) \<le> 1"
    proof (rule bumpSpace_ok [OF regions room])
    fix h' n
    assume "bumpSpace ?h = Inr h'" "regions_ok h'" "zone_step ?h h'" "next_space h' = Some n" "n \<in> set (zone_spaces h')"
      "n \<notin> set (emptySpaces h')" "opened (gc_spaces h' ! n)" "length (zone_spaces h') \<le> Suc (length (zone_spaces ?h))"
    then show thesis
      using that empty by simp
  qed
  have room1: "zone_room h1"
  proof (rule ccontr)
    assume "\<not> zone_room h1"
    then have "length (zone_spaces h1) = length (occupancy h1)"
      using h1(2) region_numerals(4) by (auto simp: regions_ok_def)
    then show False
      using h1(3,8) by (simp add: zone_step_def)
  qed
  obtain h2 n2 where h2: "bumpSpace h1 = Inr h2" "regions_ok h2" "zone_step h1 h2" "current_space h2 = next_space h1"
    "next_space h2 = Some n2" "n2 \<in> set (zone_spaces h2)" "n2 \<notin> set (emptySpaces h2)"
    "n2 \<in> set (emptySpaces h1) \<or> n2 \<notin> set (zone_spaces h1)"
    "opened (gc_spaces h2 ! n2)" "space_next (gc_spaces h2 ! n2) = space_base (gc_spaces h2 ! n2)"
    using bumpSpace_ok [OF h1(2) room1] by metis
  have n1: "n1 < length (gc_spaces h1)"
    using regionsD [OF h1(2,5)] by blast
  have "gc_spaces h2 ! n1 = gc_spaces h1 ! n1" "n1 \<in> set (zone_spaces h2)" "n1 \<notin> set (emptySpaces h2)" "n1 \<noteq> n2"
    using h2(3,8) h1(5,6) n1 unfolding zone_step_def by auto
  then have "zone_ok h2"
    using h2 h1(4,7) by (auto simp: zone_ok_def)
  moreover have "zone_step ?h h2"
    by (rule zone_step_trans [OF h1(3) h2(3)])
  moreover have "build_zone h = Inr h2"
    using size h1(1) h2(1) empty by (simp add: build_zone_def)
  ultimately show thesis
    using that by blast
qed

definition new_heap_outcome :: "gc_heap result \<Rightarrow> bool" where
  "new_heap_outcome r = (case r of Inr h \<Rightarrow> heap_ok h \<and> used h = {} \<and> \<not> isGCAllowed h
     | Inl e \<Rightarrow> e = mapping_refused)"

lemma new_heap_ok_facts:
  assumes "honest_os accept" "k < 32" "unat free < 2 ^ 62" "unat limit < 2 ^ 62"
  shows "new_heap_outcome (new_heap (2 ^ k) accept free limit)"
proof -
  let ?h0 = "\<lparr>page_size = 2 ^ k, accepts = accept, os_nextFree = free, os_limit = limit, mappings = [], os_calls = [],
        gc_spaces = [], heap_spaces = [], largeSpaces = [], eden = None, zone_base = 0, zone_nextFree = 0, zone_limit = 0,
        current_space = None, next_space = None, zone_spaces = [], emptySpaces = [], occupancy = [],
        atGCSafepoint = False, atGCUnsafepoint = False, gcNeeded = False, countdown = 0, evacuated = [],
        largeSize_seen = 0\<rparr> :: gc_heap"
  have mb: "(scast (ucast (16 * MB) :: 32 word) :: oop) = 0x1000000" "(128 * MB) = (0x8000000 :: oop)"
    by (simp_all add: MB_def)
  have accepted: "0 < unat b \<and> unat b + unat v \<le> 2 ^ 61 \<and> unat v \<le> unat (align v (2 ^ k)) \<and> unat (b + v) = unat b + unat v \<and>
      unat (align (b + v) (2 ^ k)) < 2 ^ 62"
    if "accept maps b (align v (2 ^ k))" for maps b v
  proof -
    have a: "0 < unat b" "0 < unat (align v (2 ^ k))" "unat b + unat (align v (2 ^ k)) \<le> 2 ^ 61"
      using assms(1) that unfolding honest_os_def by blast+
    have v: "unat v \<le> unat (align v (2 ^ k))"
      by (rule align_accepted [OF refl assms(2) a(2)])
    then have plus: "unat (b + v) = unat b + unat v"
      using a by (intro unat_plus_below) auto
    have "(2 :: nat) ^ k \<le> 2 ^ 32"
      using power_increasing [of k 32 "2 :: nat"] assms(2) by simp
    then show ?thesis
      using a v plus align_bounds(2) [OF refl assms(2), of "b + v"] by auto
  qed
  show ?thesis
  proof (cases rule: ReserveMemory_cases [of ?h0 0 "0x1000000", case_names limit free refused mapped])
    case refused
    then show ?thesis
      by (simp add: new_heap_def addNewSpaceSized_def new_space_def mb new_heap_outcome_def)
  next
    case (mapped b)
    let ?e = "allocatedAt_limit b (b + 0x1000000) True"
    let ?h1 = "?h0\<lparr>os_nextFree := align (b + 0x1000000) (2 ^ k), mappings := [(b, align 0x1000000 (2 ^ k))],
       gc_spaces := [?e], heap_spaces := [0], eden := Some 0\<rparr>"
    note b = accepted [OF mapped(1) [simplified, unfolded pagealign_def, simplified]]
    have eden: "b \<noteq> 0" "addNewSpaceSized (ucast (16 * MB)) ?h0 = Inr (0, ?h1\<lparr>eden := None\<rparr>)"
      using b mapped(2) by (auto simp: addNewSpaceSized_def new_space_def mb addSpace_def pagealign_def)
    show ?thesis
    proof (cases rule: ReserveMemory_cases [of ?h1 "0x100000000" "0x8000000", case_names limit free refused mapped])
      case refused
      then show ?thesis
        by (simp add: new_heap_def eden(2) mb new_heap_outcome_def)
    next
      case (mapped z)
      let ?h2 = "?h1\<lparr>os_nextFree := align (z + 0x8000000) (2 ^ k), mappings := [(z, align 0x8000000 (2 ^ k)), (b, align 0x1000000 (2 ^ k))],
         zone_base := z, zone_nextFree := z, zone_limit := z + 0x8000000\<rparr>"
      note z = accepted [OF mapped(1) [simplified, unfolded pagealign_def, simplified]]
      have apart: "mapped_range (z, align 0x8000000 (2 ^ k)) \<inter> mapped_range (b, align 0x1000000 (2 ^ k)) = {}"
        using assms(1) mapped(1) unfolding honest_os_def by (simp add: pagealign_def)
      obtain h3 where h3: "build_zone ?h2 = Inr h3" "zone_ok h3" "zone_step (?h2\<lparr>occupancy := replicate 256 0\<rparr>) h3"
      proof (rule build_zone_ok [OF assms(2), of ?h2])
        show "unat (zone_limit ?h2) = unat (zone_base ?h2) + 256 * region_bytes"
          using z by (simp add: region_bytes_def)
        show "unat (zone_limit ?h2) < 2 ^ 62" "0 < unat (zone_base ?h2)"
          using z by simp_all
      qed simp_all
      have new: "new_heap (2 ^ k) accept free limit = Inr (h3\<lparr>countdown := MB\<rparr>)"
        using eden(2) mapped(2) h3(1) by (simp add: new_heap_def mb pagealign_def)
      have frame: "zone_frame h3 = zone_frame ?h2"
        using h3(3) by (simp add: zone_step_def zone_frame_def)
      have maps: "mapped h3 = mapped_range (z, align 0x8000000 (2 ^ k)) \<union> mapped_range (b, align 0x1000000 (2 ^ k))"
        using zone_frameD(5) [OF frame] by (simp add: mapped_def)
      have range: "zone_range h3 \<subseteq> mapped_range (z, align 0x8000000 (2 ^ k))"
        using zone_frameD(6,7) [OF frame] z by (auto simp: zone_range_def mapped_range_def)
      have first: "gc_spaces h3 ! 0 = ?e" "set (zone_spaces h3) = {1..<length (gc_spaces h3)}" "0 < length (gc_spaces h3)"
        using h3(3) by (auto simp: zone_step_def)
      have span: "span ?e \<subseteq> mapped_range (b, align 0x1000000 (2 ^ k))" "space_ok ?e" "taken ?e = {}"
        using b by (auto simp: span_def taken_def between_def mapped_range_def space_ok_def allocatedAt_limit_def Let_def word_le_nat_alt)
      have "outside_ok h3"
        unfolding outside_ok_def
      proof (intro allI impI)
        fix i
        assume "i < length (gc_spaces h3)" "i \<notin> set (zone_spaces h3)"
        then have "i = 0"
          using first(2) by auto
        then show "space_ok (gc_spaces h3 ! i) \<and> span (gc_spaces h3 ! i) \<subseteq> mapped h3 - zone_range h3 \<and>
          (\<forall>j<length (gc_spaces h3). j \<notin> set (zone_spaces h3) \<longrightarrow> i \<noteq> j \<longrightarrow> span (gc_spaces h3 ! i) \<inter> span (gc_spaces h3 ! j) = {})"
          using span first apart range unfolding maps by auto
      qed
      then have "heap_ok h3"
        using h3(2) assms(1,4) z range zone_frameD(2-4) [OF frame] unfolding heap_ok_def maps by auto
      moreover have "used h3 = {}"
      proof -
        have "used h3 = used (?h2\<lparr>occupancy := replicate 256 0\<rparr>)"
          by (rule zone_step_used [OF h3(3)])
        then show ?thesis
          using span(3) by (simp add: used_def)
      qed
      moreover have "\<not> isGCAllowed h3"
        using zone_frameD(9,10) [OF frame] by (simp add: isGCAllowed_def)
      moreover have "heap_ok (h3\<lparr>countdown := MB\<rparr>) = heap_ok h3" "used (h3\<lparr>countdown := MB\<rparr>) = used h3"
          "isGCAllowed (h3\<lparr>countdown := MB\<rparr>) = isGCAllowed h3"
        by (simp_all add: heap_ok_def zone_ok_def regions_ok_def region_ok_def outside_ok_def mapped_def zone_range_def
            used_def isGCAllowed_def)
      ultimately show ?thesis
        unfolding new by (simp add: new_heap_outcome_def)
    qed (use assms b in simp_all)
  qed (use assms in simp_all)
qed

section \<open>Properties\<close>

text \<open>
  C7: The heap hands out memory once: between two collections the blocks of any run of requests
  are pairwise apart, apart from everything allocated before, and the invariant of the heap (its
  spaces are apart, each inside a mapping, the regions of the zone in step with its occupancy
  table) is kept.  A run can only stop because the operating system refuses a mapping or the zone
  has no region left.
\<close>

theorem allocations_apart:
  assumes "heap_ok h" "\<not> isGCAllowed h"
  shows "case allocate_all collect ns h of
      Inr (bs, h') \<Rightarrow> heap_ok h' \<and> map snd bs = map unat ns \<and> all_apart bs \<and>
        used h' = used h \<union> (\<Union>b\<in>set bs. cells_of b) \<and> used h \<inter> (\<Union>b\<in>set bs. cells_of b) = {}
    | Inl e \<Rightarrow> e = mapping_refused \<or> e = zone_full"
proof -
  have "e = mapping_refused \<or> e = zone_full" if "allocate_all collect ns h = Inl e" for e
    using assms that
  proof (induction ns arbitrary: h)
    case (Cons n ns)
    have out: "allocation_outcome (unat n) h (heap_allocate collect n h)"
      using Cons.prems(1,2) by (intro allocation_safe_facts) auto
    show ?case
    proof (cases "heap_allocate collect n h")
      case (Inl e')
      then show ?thesis
        using Cons.prems(3) out by (auto simp: allocation_outcome_def)
    next
      case (Inr r)
      obtain p h1 where r: "r = (p, h1)" by (cases r)
      then have "granted p (unat n) h h1"
        using out Inr by (simp add: allocation_outcome_def)
      then show ?thesis
        using Cons.IH [of h1] Cons.prems(2,3) Inr r
        by (cases "allocate_all collect ns h1") (auto simp: granted_def)
    qed
  qed simp
  then show ?thesis
    using allocate_all_apart [OF assms] by (auto split: sum.splits)
qed

text \<open>
  C17: A new heap satisfies the invariant: the eden and the zone lie in ranges of their own, the
  first two regions of the zone are open and nothing is allocated; the only other outcome is that
  the operating system refuses a mapping.
\<close>

theorem new_heap_ok:
  assumes "honest_os accept" "k < 32" "unat free < 2 ^ 62" "unat limit < 2 ^ 62"
  shows "case new_heap (2 ^ k) accept free limit of
      Inr h \<Rightarrow> heap_ok h \<and> used h = {} \<and> \<not> isGCAllowed h
    | Inl e \<Rightarrow> e = mapping_refused"
  using new_heap_ok_facts [OF assms] unfolding new_heap_outcome_def .

text \<open>An operating system that accepts every range that is free.\<close>

definition accepts_free :: "(oop \<times> oop) list \<Rightarrow> oop \<Rightarrow> oop \<Rightarrow> bool" where
  "accepts_free maps b n \<longleftrightarrow> 0 < unat b \<and> 0 < unat n \<and> unat b + unat n \<le> 2 ^ 61 \<and>
     list_all (\<lambda>(a, m). unat b + unat n \<le> unat a \<or> unat a + unat m \<le> unat b) maps"

lemma accepts_free_honest: "honest_os accepts_free"
  unfolding honest_os_def
proof (intro allI impI conjI ballI)
  fix maps :: "(oop \<times> oop) list" and b n :: oop and r :: "oop \<times> oop"
  assume a: "accepts_free maps b n" and r: "r \<in> set maps"
  obtain a m where "r = (a, m)" by (cases r)
  then show "mapped_range (b, n) \<inter> mapped_range r = {}"
    using a r by (auto simp: accepts_free_def list_all_iff mapped_range_def)
qed (simp_all add: accepts_free_def)

lemma new_heap_ok_witness:
  "case new_heap (2 ^ 12) accepts_free (fst InitializeMemory) (snd InitializeMemory) of
      Inr h \<Rightarrow> heap_ok h \<and> used h = {} \<and> \<not> isGCAllowed h
    | Inl e \<Rightarrow> e = mapping_refused"
  by (rule new_heap_ok [OF accepts_free_honest]) (simp_all add: InitializeMemory_def BEHAVIOR_ADDRESS_SPACE_def)

lemma ReserveMemory_first:
  "accepts h (mappings h) (reserve_start base h) (pagealign v h) \<Longrightarrow> ReserveMemory base v h =
     Inr (reserve_start base h, h\<lparr>os_nextFree := pagealign (reserve_start base h + v) h,
       mappings := (reserve_start base h, pagealign v h) # mappings h\<rparr>)"
  by (simp add: ReserveMemory_def Let_def) (subst while_result_unfold, simp)

lemma new_heap_starts:
  obtains h where "new_heap (2 ^ 12) accepts_free 0x100000 0x100000000 = Inr h" "heap_ok h" "\<not> isGCAllowed h"
    "os_limit h = 0x100000000" "os_nextFree h = 0x108000000" "accepts h = accepts_free" "page_size h = 2 ^ 12"
    "mappings h = [(0x100000000, 0x8000000), (0x100000, 0x1000000)]"
proof -
  let ?h1 = "\<lparr>page_size = 4096, accepts = accepts_free, os_nextFree = 0x1100000, os_limit = 0x100000000,
        mappings = [(0x100000, 0x1000000)], os_calls = [],
        gc_spaces = [allocatedAt_limit 0x100000 0x1100000 True], heap_spaces = [0], largeSpaces = [], eden = Some 0,
        zone_base = 0, zone_nextFree = 0, zone_limit = 0,
        current_space = None, next_space = None, zone_spaces = [], emptySpaces = [], occupancy = [],
        atGCSafepoint = False, atGCUnsafepoint = False, gcNeeded = False, countdown = 0, evacuated = [],
        largeSize_seen = 0\<rparr> :: gc_heap"
  let ?h2 = "?h1\<lparr>os_nextFree := 0x108000000, mappings := [(0x100000000, 0x8000000), (0x100000, 0x1000000)],
       zone_base := 0x100000000, zone_nextFree := 0x100000000, zone_limit := 0x108000000\<rparr>"
  have mb: "(scast (ucast (16 * MB) :: 32 word) :: oop) = 0x1000000" "(128 * MB) = (0x8000000 :: oop)"
    by (simp_all add: MB_def)
  obtain h3 where h3: "build_zone ?h2 = Inr h3" "zone_step (?h2\<lparr>occupancy := replicate 256 0\<rparr>) h3"
    by (rule build_zone_ok [where k = 12 and h = ?h2]) (simp_all add: region_bytes_def)
  have "new_heap (2 ^ 12) accepts_free 0x100000 0x100000000 = Inr (h3\<lparr>countdown := MB\<rparr>)"
    using h3(1) unfolding new_heap_def mb Let_def addNewSpaceSized_def new_space_def addSpace_def
    by (simp add: mb ReserveMemory_first reserve_start_def pagealign_def align_def accepts_free_def BEHAVIOR_ADDRESS_SPACE_def)
  moreover have "zone_frame h3 = zone_frame ?h2"
    using h3(2) by (simp add: zone_step_def zone_frame_def)
  note zone_frameD(1-5) [OF this]
  ultimately show thesis
    using that [of "h3\<lparr>countdown := MB\<rparr>"] new_heap_ok_facts [OF accepts_free_honest, where k = 12 and free = "0x100000" and limit = "0x100000000"]
    by (simp add: new_heap_outcome_def)
qed

lemma allocations_apart_witness:
  "\<exists>h :: gc_heap. heap_ok h \<and> \<not> isGCAllowed h \<and> (case allocate_all Inr [64, 0x20000, 64] h of
      Inr (bs, h') \<Rightarrow> heap_ok h' \<and> map snd bs = map unat [64, 0x20000, 64 :: 32 word] \<and> all_apart bs \<and>
        used h' = used h \<union> (\<Union>b\<in>set bs. cells_of b) \<and> used h \<inter> (\<Union>b\<in>set bs. cells_of b) = {}
    | Inl e \<Rightarrow> e = mapping_refused \<or> e = zone_full)"
proof -
  obtain h :: gc_heap where h: "heap_ok h" "\<not> isGCAllowed h"
    using new_heap_starts by blast
  show ?thesis
    using allocations_apart [OF h, where collect = Inr and ns = "[64, 0x20000, 64]"] h by blast
qed

text \<open>
  \<open>InitializeMemory\<close> sets a limit of 4 GB for reservations, but the zone is asked for at that
  very limit and moves the next free address above it, so that every later reservation, such as
  the space of a large object, lies above the limit.
\<close>

theorem limit_not_enforced:
  "\<exists>h p h'. new_heap (2 ^ 12) accepts_free (fst InitializeMemory) (snd InitializeMemory) = Inr h \<and>
     allocateLarge 0x20000 h = Inr (p, h') \<and> os_limit h' < p"
proof -
  obtain h :: gc_heap where h: "new_heap (2 ^ 12) accepts_free 0x100000 0x100000000 = Inr h" "heap_ok h"
    "os_limit h = 0x100000000" "os_nextFree h = 0x108000000" "accepts h = accepts_free" "page_size h = 2 ^ 12"
    "mappings h = [(0x100000000, 0x8000000), (0x100000, 0x1000000)]"
    using new_heap_starts by metis
  have "\<exists>h'. allocateLarge 0x20000 h = Inr (0x108000000, h') \<and> os_limit h' = 0x100000000"
    using h(3-7) by (simp add: allocateLarge_def addNewSpaceSized_def new_space_def addSpace_def ReserveMemory_first
        reserve_start_def pagealign_def align_def accepts_free_def BEHAVIOR_ADDRESS_SPACE_def allocatedAt_limit_def
        allocateCommittingIfNeeded_def commitMemoryUpTo_def os_call_def Let_def)
  then show ?thesis
    using h(1) by (fastforce simp: InitializeMemory_def BEHAVIOR_ADDRESS_SPACE_def)
qed

end
