(* ===== verification/TraceInvariant.thy ===== *)
theory TraceInvariant
  imports Collector SpaceInvariant ObjectAccess
begin

text \<open>
  Lemmas for the tracing of \<open>Collector\<close>: the fields of an object and what the marks of
  the collector leave alone, the regions that are evacuated, and what one call of \<open>resolveObject\<close> does
  to an object that was not seen: it stays, or it is copied to fresh memory of a region that is not
  evacuated and leaves a forwarder.
\<close>

declare flag_mask.simps [simp del]

section \<open>Fields of an object\<close>

text \<open>The fields the tracer visits: the behavior at index 0, then the slots.\<close>

definition field :: "32 word \<Rightarrow> heap_object \<Rightarrow> oop result" where
  "field i obj = (if i = 0 then Inr (behavior obj) else slotAt i obj)"

definition field_put :: "32 word \<Rightarrow> oop \<Rightarrow> heap_object \<Rightarrow> heap_object result" where
  "field_put i v obj = (if i = 0 then behavior_put v obj else slotAt_put i v obj)"

definition is_pointer :: "32 word \<Rightarrow> oop \<Rightarrow> bool" where
  "is_pointer i v \<longleftrightarrow> \<not> isSmallInteger v \<and> (i = 0 \<or> v \<noteq> 0)"

definition strong :: "heap_object \<Rightarrow> 32 word" where
  "strong obj = (case strongPointersSize obj of Inr n \<Rightarrow> n | Inl _ \<Rightarrow> 0)"

text \<open>An object that differs only in its fields and in the marks of the collector.\<close>

definition similar :: "heap_object \<Rightarrow> heap_object \<Rightarrow> bool" where
  "similar o0 obj \<longleftrightarrow> header_hash obj = header_hash o0 \<and> header_size obj = header_size o0 \<and>
     large_header obj = large_header o0 \<and> length (body obj) = length (body o0) \<and>
     (isBytes o0 \<longrightarrow> body obj = body o0) \<and>
     (\<forall>f. f \<noteq> HasBeenSeen \<longrightarrow> f \<noteq> IsRemembered \<longrightarrow> testFlags (flag_mask f) obj = testFlags (flag_mask f) o0)"

lemma similar_refl [simp]: "similar obj obj"
  by (simp add: similar_def)

lemma similar_flags:
  assumes "similar o0 obj"
  shows "isBytes obj = isBytes o0" "isSpecial obj = isSpecial o0" "isSmall obj = isSmall o0" "isPointers obj = isPointers o0"
  using assms by (simp_all add: similar_def isBytes_def isSpecial_def isSmall_def isPointers_def)

lemma similar_sizes:
  assumes "similar o0 obj"
  shows "object_size obj = object_size o0" "strongPointersSize obj = strongPointersSize o0" "strong obj = strong o0"
    "headerSizeInBytes obj = headerSizeInBytes o0" "bodySizeInBytes obj = bodySizeInBytes o0" "well_formed obj = well_formed o0"
proof -
  note flags = similar_flags [OF assms]
  show size: "object_size obj = object_size o0"
    using assms flags by (simp add: object_size_def largeSize_def isLarge_def similar_def)
  show s: "strongPointersSize obj = strongPointersSize o0"
    using size flags by (simp add: strongPointersSize_def)
  then show "strong obj = strong o0"
    by (simp add: strong_def)
  show "headerSizeInBytes obj = headerSizeInBytes o0" "bodySizeInBytes obj = bodySizeInBytes o0"
    using size flags by (simp_all add: headerSizeInBytes_def bodySizeInBytes_def)
  show "well_formed obj = well_formed o0"
    using size flags assms by (cases "object_size o0") (simp_all add: well_formed_def similar_def)
qed

lemma similar_trans: "similar a b \<Longrightarrow> similar b c \<Longrightarrow> similar a c"
  using similar_flags(1) [of a b] by (auto simp: similar_def)

text \<open>The marks: an object with the same fields that is seen or remembered differently.\<close>

definition remarked :: "heap_object \<Rightarrow> heap_object \<Rightarrow> bool" where
  "remarked o0 obj \<longleftrightarrow> similar o0 obj \<and> body obj = body o0 \<and> header_behavior obj = header_behavior o0"

lemma remarked_marks:
  "remarked obj (beSeen obj)" "remarked obj (beRemembered obj)" "remarked obj (beNotRemembered obj)" "remarked obj obj"
proof -
  have "testFlags (flag_mask f) (setFlags (flag_mask g) obj) = testFlags (flag_mask f) obj"
      "testFlags (flag_mask f) (unsetFlags (flag_mask g) obj) = testFlags (flag_mask f) obj" if "f \<noteq> g" for f g
    using that by (simp_all add: flags_independent)
  then show "remarked obj (beSeen obj)" "remarked obj (beRemembered obj)" "remarked obj (beNotRemembered obj)" "remarked obj obj"
    by (auto simp: remarked_def similar_def beSeen_def beRemembered_def beNotRemembered_def setFlags_def unsetFlags_def)
qed

lemma seen_marks [simp]:
  "hasBeenSeen (beSeen obj)" "hasBeenSeen (beRemembered obj) = hasBeenSeen obj" "hasBeenSeen (beNotRemembered obj) = hasBeenSeen obj"
  by (simp_all add: hasBeenSeen_def beSeen_def beRemembered_def beNotRemembered_def flags_independent)

lemma remarked_trans: "remarked a b \<Longrightarrow> remarked b c \<Longrightarrow> remarked a c"
  unfolding remarked_def by (auto intro: similar_trans)

lemma remarked_field:
  assumes "remarked o0 obj"
  shows "field i obj = field i o0"
proof -
  have s: "similar o0 obj" "body obj = body o0" "header_behavior obj = header_behavior o0"
    using assms by (simp_all add: remarked_def)
  show ?thesis
    by (simp add: field_def behavior_def slotAt_def slot_def slot_access_def s similar_flags(4) [OF s(1)] similar_sizes(1) [OF s(1)])
qed

lemma field_total:
  assumes "well_formed obj" "i \<le> strong obj"
  obtains v where "field i obj = Inr v"
proof (cases "i = 0")
  case False
  obtain n where n: "object_size obj = Inr n" "length (body obj) = body_length (isBytes obj) n"
    using well_formed_size [OF assms(1)] .
  have pointers: "isPointers obj" "i \<le> n"
    using False assms(2) n(1) by (auto simp: strong_def strongPointersSize_def isPointers_def split: if_splits)
  have "unat (i - 1) = unat i - 1"
    using False by (simp add: unat_minus_one)
  then have "i - 1 < n"
    using pointers(2) False by (simp add: word_less_nat_alt word_le_nat_alt) (metis Suc_pred le_less_trans lessI less_le_trans nat_less_le neq0_conv unat_eq_zero)
  then show thesis
    using slot_well_formed(1) [OF assms(1) n(1) pointers(1)] that False by (auto simp: field_def slotAt_def)
qed (simp add: field_def that)

lemma low_half: "(v :: oop) AND 0xFFFFFFFF00000000 = 0 \<Longrightarrow> ucast (ucast v :: 32 word) = v"
proof (rule bit_word_eqI)
  fix n
  assume v: "v AND 0xFFFFFFFF00000000 = 0" and n: "n < LENGTH(64)"
  have mask: "(0xFFFFFFFF00000000 :: oop) = push_bit 32 (mask 32)"
    by (simp add: mask_eq_exp_minus_1)
  have "\<not> bit v n" if "32 \<le> n"
    using n that arg_cong [OF v, of "\<lambda>w. bit w n"] unfolding mask
    by (auto simp: bit_and_iff bit_push_bit_iff bit_mask_iff)
  then show "bit (ucast (ucast v :: 32 word) :: oop) n = bit v n"
    using n by (cases "32 \<le> n") (auto simp: bit_ucast_iff)
qed

lemma field_put_total:
  assumes "well_formed obj" "i \<le> strong obj" "i = 0 \<Longrightarrow> v AND 0xFFFFFFFF00000000 = 0"
  obtains obj' where "field_put i v obj = Inr obj'" "field i obj' = Inr v" "similar obj obj'" "hasBeenSeen obj' = hasBeenSeen obj"
    "\<And>j. j \<noteq> i \<Longrightarrow> field j obj' = field j obj"
proof (cases "i = 0")
  case True
  let ?obj = "obj\<lparr>header_behavior := ucast v\<rparr>"
  have "behavior ?obj = v"
    using low_half [OF assms(3) [OF True]] by (simp add: behavior_def BEHAVIOR_ADDRESS_SPACE_def)
  moreover have "similar obj ?obj" "hasBeenSeen ?obj = hasBeenSeen obj"
    by (simp_all add: similar_def hasBeenSeen_def testFlags_def)
  moreover have "field j ?obj = field j obj" if "j \<noteq> i" for j
    using that True by (simp add: field_def slotAt_def slot_def slot_access_def flag_reader_defs testFlags_def object_size_def largeSize_def)
  moreover have "field_put i v obj = Inr ?obj"
    using True assms(3) by (simp add: field_put_def behavior_put_def BEHAVIOR_ADDRESS_SPACE_def)
  ultimately show thesis
    using that [of ?obj] True by (simp add: field_def)
next
  case False
  obtain u where "field i obj = Inr u"
    using field_total [OF assms(1,2)] .
  then obtain obj' where put: "slot_put (i - 1) v obj = Inr obj'"
    using slots.put_defined [of "i - 1" v obj] False by (auto simp: field_def slotAt_def)
  then obtain bs where bs: "poke_bytes 8 (8 * unat (i - 1)) v (body obj) = Inr bs" "obj' = obj\<lparr>body := bs\<rparr>" "isPointers obj"
    by (auto simp: slot_put_def slot_access_def poke_body_def bind_result_eq_Inr assert_that_def split: if_splits)
  have "similar obj obj'" "hasBeenSeen obj' = hasBeenSeen obj"
    using poke_length [OF bs(1)] bs(2,3) by (simp_all add: similar_def hasBeenSeen_def testFlags_def isPointers_def isBytes_def)
  moreover have "field j obj' = field j obj" if "j \<noteq> i" for j
    using slots.get_put_separate [OF put, of "j - 1"] that bs(2) by (auto simp: field_def slotAt_def behavior_def)
  ultimately show thesis
    using that [of obj'] put slots.get_put [OF put] False by (auto simp: field_def field_put_def slotAt_def slotAt_put_def)
qed

section \<open>Regions that are evacuated\<close>

definition moving :: "'h gc_heap_scheme \<Rightarrow> oop \<Rightarrow> bool" where
  "moving h p \<longleftrightarrow> zone_base h \<le> p \<and> p < zone_limit h \<and>
     evacuated h ! ((unat p - unat (zone_base h)) div region_bytes)"

text \<open>No region that objects can be copied into is evacuated.\<close>

definition targets_ok :: "'h gc_heap_scheme \<Rightarrow> bool" where
  "targets_ok h \<longleftrightarrow> length (evacuated h) = length (occupancy h) \<and>
     (\<forall>k<length (occupancy h). evacuated h ! k \<longrightarrow> k < length (zone_spaces h) \<and>
        zone_spaces h ! k \<notin> set (emptySpaces h) \<and>
        Some (zone_spaces h ! k) \<noteq> current_space h \<and> Some (zone_spaces h ! k) \<noteq> next_space h)"

lemma region_of:
  assumes "regions_ok h" "zone_base h \<le> p" "p < zone_limit h"
  defines "k \<equiv> (unat p - unat (zone_base h)) div region_bytes"
  shows "k < length (occupancy h)" "unat p = unat (zone_base h) + k * region_bytes + (unat p - unat (zone_base h)) mod region_bytes"
proof -
  have "unat p - unat (zone_base h) < length (occupancy h) * region_bytes"
    using assms(1-3) by (auto simp: regions_ok_def word_le_nat_alt word_less_nat_alt)
  then show "k < length (occupancy h)"
    by (simp add: k_def div_less_iff_less_mult region_numerals)
  show "unat p = unat (zone_base h) + k * region_bytes + (unat p - unat (zone_base h)) mod region_bytes"
    using assms(2) by (simp add: k_def word_le_nat_alt)
qed

lemma small_sint: "m < 2 ^ 62 \<Longrightarrow> sint (word_of_nat m :: oop) = int m"
  by (simp add: signed_of_nat signed_take_bit_int_eq_self)

lemma hasToEvacuate_eq:
  assumes "regions_ok h" "length (evacuated h) = length (occupancy h)"
  shows "hasToEvacuate p h = Inr (moving h p)"
proof (cases "zone_base h \<le> p \<and> p < zone_limit h")
  case False
  then show ?thesis
    by (auto simp: hasToEvacuate_def regionIndexOf_def moving_def Let_def)
next
  case True
  let ?k = "(unat p - unat (zone_base h)) div region_bytes"
  note k = region_of [OF assms(1), of p]
  note index = region_index [OF assms(1) k(1) k(2)]
  have "length (occupancy h) * 1 \<le> length (occupancy h) * region_bytes"
    using region_numerals(4) by (intro mult_le_mono) auto
  then have "length (occupancy h) < 2 ^ 62"
    using assms(1) unfolding regions_ok_def by linarith
  then have small: "?k + 1 < 2 ^ 62"
    using k(1) True by simp
  have i: "indexOfPointer p h = word_of_nat ?k + 1"
    using index(1) True region_numerals by simp
  then have "sint (indexOfPointer p h) = int (?k + 1)"
    using small_sint [OF small] by (simp add: add.commute)
  then show ?thesis
    using True assms(2) k(1) index(3) region_numerals by (auto simp: hasToEvacuate_def regionIndexOf_def moving_def Let_def)
qed

text \<open>Addresses of a region that is not evacuated, its end included, do not move.\<close>

lemma still_region:
  assumes "regions_ok h" "targets_ok h" "k < length (zone_spaces h)" "\<not> evacuated h ! k"
    "unat (zone_base h) + k * region_bytes \<le> unat p" "unat p \<le> unat (zone_base h) + k * region_bytes + unat SPACE_SIZE"
  shows "\<not> moving h p"
proof -
  have "(unat p - unat (zone_base h)) div region_bytes = k"
    using assms(5,6) region_numerals(1) by (intro div_nat_eqI) (auto simp: region_bytes_def)
  then show ?thesis
    using assms(4) by (simp add: moving_def)
qed

lemma target_region:
  assumes "regions_ok h" "targets_ok h" "c \<in> set (zone_spaces h)" "current_space h = Some c \<or> next_space h = Some c \<or> c \<in> set (emptySpaces h)"
  obtains k where "k < length (zone_spaces h)" "zone_spaces h ! k = c" "\<not> evacuated h ! k" "region_ok k h (gc_spaces h ! c)"
    "c < length (gc_spaces h)"
proof -
  obtain k where k: "k < length (zone_spaces h)" "zone_spaces h ! k = c" "c < length (gc_spaces h)"
    "region_ok k h (gc_spaces h ! c)" "k < length (occupancy h)"
    using regionsD [OF assms(1,3)] .
  then have "\<not> evacuated h ! k"
    using assms(2,4) unfolding targets_ok_def by metis
  then show thesis
    using that k by blast
qed

text \<open>A block for a copy in the current space.\<close>

definition same_outside :: "'h gc_heap_scheme \<Rightarrow> 'h gc_heap_scheme \<Rightarrow> bool" where
  "same_outside h h' \<longleftrightarrow> zone_base h' = zone_base h \<and> zone_limit h' = zone_limit h \<and> evacuated h' = evacuated h \<and>
     length (occupancy h') = length (occupancy h) \<and> gc_heap.more h' = gc_heap.more h"

lemma same_outside_moving: "same_outside h h' \<Longrightarrow> moving h' = moving h"
  by (simp add: same_outside_def moving_def fun_eq_iff)

lemma same_outside_trans: "same_outside a b \<Longrightarrow> same_outside b c \<Longrightarrow> same_outside a c"
  by (simp add: same_outside_def)

lemma current_copy:
  assumes "heap_ok h" "targets_ok h" "0 < unat n"
  obtains (full) c where "allocateCommittingIfNeeded n (current_space h) h = Inr (0, h)" "current_space h = Some c"
      "unat (softLimit (gc_spaces h ! c)) < unat (space_next (gc_spaces h ! c)) + unat n"
  | (fits) p h' where "allocateCommittingIfNeeded n (current_space h) h = Inr (p, h')" "granted p (unat n) h h'"
      "targets_ok h'" "same_outside h h'" "\<And>a. unat p \<le> unat a \<Longrightarrow> unat a \<le> unat p + unat n \<Longrightarrow> \<not> moving h a"
proof -
  have regions: "regions_ok h"
    using assms(1) by (simp add: heap_ok_def zone_ok_def)
  obtain c m where c: "current_space h = Some c" "next_space h = Some m" "c \<noteq> m" "c \<in> set (zone_spaces h)"
      "c \<notin> set (emptySpaces h)" "opened (gc_spaces h ! c)"
    using assms(1) unfolding heap_ok_def zone_ok_def by auto
  obtain k where k: "k < length (zone_spaces h)" "zone_spaces h ! k = c" "\<not> evacuated h ! k" "region_ok k h (gc_spaces h ! c)"
      "c < length (gc_spaces h)"
    using target_region [OF regions assms(2) c(4)] c(1) by blast
  let ?s = "gc_spaces h ! c"
  have ok: "space_ok ?s"
    by (rule heap_spaces_ok(1) [OF assms(1) k(5)])
  note nat = space_okD [OF ok]
  have stop: "unat (space_next ?s + ucast n) = unat (space_next ?s) + unat n"
    using unat_less_32 [of n] nat by (subst unat_plus_below) (auto simp: unat_ucast_64)
  show thesis
  proof (cases "space_next ?s + ucast n \<le> softLimit ?s")
    case False
    then have "\<not> space_next ?s + ucast n \<le> reservedLimit ?s"
      using c(6) by (simp add: opened_def)
    then have "min (pagealign (space_next ?s + ucast n) h) (reservedLimit ?s) < space_next ?s + ucast n"
      by (simp add: min_less_iff_disj not_le)
    then have "allocateCommittingIfNeeded n (current_space h) h = Inr (0, h)"
      using False c(1) k(5) by (simp add: allocateCommittingIfNeeded_def commitMemoryUpTo_def Let_def)
    then show thesis
      using full c(1) False stop by (simp add: word_le_nat_alt)
  next
    case True
    let ?s' = "?s\<lparr>space_next := space_next ?s + ucast n\<rparr>" and ?h' = "h\<lparr>gc_spaces := (gc_spaces h)[c := ?s\<lparr>space_next := space_next ?s + ucast n\<rparr>]\<rparr>"
    have s': "space_next ?s \<le> space_next ?s'" "space_ok ?s'"
      using ok True stop nat unfolding space_ok_def word_le_nat_alt by auto
    have "granted (space_next ?s) (unat n) h ?h'"
      using advance_ok [OF assms(1) k(5) _ _ s' c(5)] c(2,3) zone_base_le [OF assms(1) c(4)] stop
      by (simp add: granted_def between_def isGCAllowed_def)
    moreover have "targets_ok ?h'"
      using assms(2) by (simp add: targets_ok_def)
    moreover have "same_outside h ?h'"
      by (simp add: same_outside_def)
    moreover have "\<not> moving h a" if "unat (space_next ?s) \<le> unat a" "unat a \<le> unat (space_next ?s) + unat n" for a
    proof (rule still_region [OF regions assms(2) k(1,3)])
      show "unat (zone_base h) + k * region_bytes \<le> unat a"
        using k(4) nat that by (simp add: region_ok_def)
      have "unat (softLimit ?s) \<le> unat (zone_base h) + k * region_bytes + unat SPACE_SIZE"
        using k(4) nat(3) by (simp add: region_ok_def)
      then show "unat a \<le> unat (zone_base h) + k * region_bytes + unat SPACE_SIZE"
        using True stop that by (simp add: word_le_nat_alt)
    qed
    moreover have "allocateCommittingIfNeeded n (current_space h) h = Inr (space_next ?s, ?h')"
      using True c(1) k(5) by (simp add: allocateCommittingIfNeeded_def Let_def)
    ultimately show thesis
      using fits by blast
  qed
qed

section \<open>Copies\<close>

definition refusal :: "fault \<Rightarrow> bool" where "refusal e \<longleftrightarrow> e = mapping_refused \<or> e = zone_full"

definition block_of :: "oop \<Rightarrow> heap_object \<Rightarrow> nat set" where
  "block_of p obj = {unat p - unat (headerSizeInBytes obj)..<unat p + length (body obj)}"

text \<open>Every object lies, header included, in the used part of a space.\<close>

definition inside :: "tracer \<Rightarrow> bool" where
  "inside s \<longleftrightarrow> (\<forall>p obj. mem s p = Some obj \<longrightarrow> unat (headerSizeInBytes obj) \<le> unat p \<and> block_of p obj \<subseteq> used s)"

definition fits_header :: "heap_object \<Rightarrow> bool" where
  "fits_header obj \<longleftrightarrow> well_formed obj \<and> length (body obj) + 16 < 2 ^ 32"

definition copied :: "heap_object \<Rightarrow> tracer \<Rightarrow> oop \<Rightarrow> tracer \<Rightarrow> bool" where
  "copied obj s c s' \<longleftrightarrow> c \<noteq> 0 \<and> heap_ok s' \<and> targets_ok s' \<and> inside s' \<and> mem s c = None \<and> \<not> moving s c \<and>
     same_outside (s\<lparr>mem := (mem s)(c \<mapsto> beNotRemembered obj)\<rparr>) s'"

lemma header_sizes: "unat (headerSizeInBytes obj) = 8 \<or> unat (headerSizeInBytes obj) = 16"
  by (simp add: headerSizeInBytes_def)

lemma used_small: "heap_ok h \<Longrightarrow> x \<in> used h \<Longrightarrow> x < 2 ^ 62"
  unfolding used_def taken_def using heap_spaces_ok(1) [of h] space_okD by fastforce

lemma block_inhabited: "unat p - 1 \<in> block_of p obj" if "unat (headerSizeInBytes obj) \<le> unat p"
  using that header_sizes [of obj] by (auto simp: block_of_def)

lemma mem_heap_ok [simp]:
  "heap_ok (s\<lparr>mem := m\<rparr>) = heap_ok s" "used (s\<lparr>mem := m\<rparr>) = used s" "targets_ok (s\<lparr>mem := m\<rparr>) = targets_ok s"
  "isGCAllowed (s\<lparr>mem := m\<rparr>) = isGCAllowed s" "moving (s\<lparr>mem := m\<rparr>) = moving s"
  by (simp_all add: heap_ok_def zone_ok_def regions_ok_def region_ok_def outside_ok_def mapped_def zone_range_def
      used_def isGCAllowed_def targets_ok_def moving_def fun_eq_iff)

lemma inside_fresh:
  assumes "inside s" "A \<inter> used s = {}" "unat c - 1 \<in> A" "0 < unat c"
  shows "mem s c = None"
proof (rule ccontr)
  assume "mem s c \<noteq> None"
  then obtain obj where "mem s c = Some obj" by auto
  then have "unat (headerSizeInBytes obj) \<le> unat c" "block_of c obj \<subseteq> used s"
    using assms(1) by (auto simp: inside_def)
  then show False
    using block_inhabited [of obj c] assms(2,3) by blast
qed

lemma same_outside_fields:
  assumes "same_outside s s'"
  shows "mem s' = mem s" "native_words s' = native_words s" "mark_stack s' = mark_stack s" "gced_refs s' = gced_refs s"
    "root_R s' = root_R s" "root_S s' = root_S s" "root_E s' = root_E s" "root_M s' = root_M s"
    "live_stack s' = live_stack s" "live_sp s' = live_sp s" "live_bp s' = live_bp s"
    "pending_stacks s' = pending_stacks s" "weakContainers s' = weakContainers s"
    "uncheckedEphemerons s' = uncheckedEphemerons s" "unreachedEphemerons s' = unreachedEphemerons s"
    "rescuedEphemerons s' = rescuedEphemerons s" "tombstone s' = tombstone s"
  using assms by (cases s; cases s'; simp add: same_outside_def)+

lemma shallow_block:
  assumes "heap_ok s" "inside s" "fits_header obj" "mem s p = Some obj"
    and alloc: "allocateCommittingIfNeeded (headerSizeInBytes obj + word_of_nat (length (body obj))) i s = Inr (a, s1)"
      "granted a (unat (headerSizeInBytes obj) + length (body obj)) s s1" "targets_ok s1" "same_outside s s1"
    and still: "\<And>x. unat x = unat a + unat (headerSizeInBytes obj) \<Longrightarrow> \<not> moving s x"
  shows "\<exists>c s'. shallowCopyCommitting p i s = Inr (c, s') \<and> copied obj s c s'"
proof -
  let ?h = "headerSizeInBytes obj" and ?n = "length (body obj)"
  let ?c = "a + ucast ?h"
  have g: "a \<noteq> 0" "heap_ok s1" "used s1 = used s \<union> {unat a..<unat a + (unat ?h + ?n)}"
      "{unat a..<unat a + (unat ?h + ?n)} \<inter> used s = {}"
    using alloc(2) by (simp_all add: granted_def)
  have "unat a + unat ?h + ?n - 1 \<in> used s1"
    using g(3) header_sizes [of obj] by auto
  then have top: "unat a + unat ?h + ?n - 1 < 2 ^ 62"
    by (rule used_small [OF g(2)])
  then have c: "unat ?c = unat a + unat ?h"
    using header_sizes [of obj] by (subst unat_plus_below) (auto simp: unat_ucast_64)
  let ?s' = "s1\<lparr>mem := (mem s1)(?c \<mapsto> beNotRemembered obj)\<rparr>"
  have similar: "similar obj (beNotRemembered obj)"
    using remarked_marks(3) [of obj] by (simp add: remarked_def)
  have fresh: "mem s ?c = None"
    using c header_sizes [of obj] by (intro inside_fresh [OF assms(2) g(4)]) auto
  note fields = same_outside_fields [OF alloc(4)]
  have block: "block_of ?c (beNotRemembered obj) = {unat a..<unat a + (unat ?h + ?n)}"
    using similar similar_sizes(4) [OF similar] c by (simp add: block_of_def similar_def add.assoc)
  have "inside ?s'"
    unfolding inside_def
  proof (intro allI impI)
    fix q x
    assume "mem ?s' q = Some x"
    then show "unat (headerSizeInBytes x) \<le> unat q \<and> block_of q x \<subseteq> used ?s'"
      using assms(2) fields(1) block c g(3) similar_sizes(4) [OF similar]
      by (cases "q = ?c") (auto simp: inside_def)
  qed
  moreover have "?c \<noteq> 0"
    using c header_sizes [of obj] by (metis add_is_0 unat_0 zero_neq_numeral)
  moreover have "\<not> moving s ?c"
    by (rule still [OF c])
  moreover have "same_outside (s\<lparr>mem := (mem s)(?c \<mapsto> beNotRemembered obj)\<rparr>) ?s'"
    using alloc(4) fields(1) by (cases s; cases s1; simp add: same_outside_def)
  ultimately have "copied obj s ?c ?s'"
    using g(2) alloc(3) fresh by (simp add: copied_def)
  moreover have "shallowCopyCommitting p i s = Inr (?c, ?s')"
    using assms(3,4) alloc(1) g(1) body_sizes(1) [of obj]
    by (simp add: shallowCopyCommitting_def shallowCopy_with_def object_at_def fits_header_def Let_def)
  ultimately show ?thesis
    by blast
qed

lemma zone_step_prefix:
  assumes "regions_ok h" "regions_ok h'" "zone_step h h'" "k < length (zone_spaces h)"
  shows "k < length (zone_spaces h') \<and> zone_spaces h' ! k = zone_spaces h ! k"
proof -
  let ?i = "zone_spaces h ! k"
  have zb: "zone_base h' = zone_base h"
    using assms(3) zone_frameD(6) by (auto simp: zone_step_def)
  have i: "?i \<in> set (zone_spaces h')" "?i < length (gc_spaces h)"
    using assms(1,3,4) unfolding zone_step_def regions_ok_def by auto
  obtain j where j: "j < length (zone_spaces h')" "zone_spaces h' ! j = ?i" "region_ok j h' (gc_spaces h' ! ?i)"
    using regionsD [OF assms(2) i(1)] by blast
  have "region_ok k h (gc_spaces h ! ?i)" "space_base (gc_spaces h' ! ?i) = space_base (gc_spaces h ! ?i)"
    using assms(1,3,4) i(2) by (simp_all add: regions_ok_def zone_step_def)
  then have "k * region_bytes = j * region_bytes"
    using j(3) zb by (simp add: region_ok_def)
  then show ?thesis
    using j region_numerals(4) by simp
qed

lemma bump_targets:
  assumes "heap_ok h" "targets_ok h" "zone_room h" "bumpSpace h = Inr h'"
  shows "targets_ok h'" "same_outside h h'"
proof -
  have regions: "regions_ok h"
    using assms(1) by (simp add: heap_ok_def zone_ok_def)
  obtain h'' n where h'': "bumpSpace h = Inr h''" "regions_ok h''" "zone_step h h''"
    "current_space h'' = next_space h" "next_space h'' = Some n" "n \<in> set (emptySpaces h) \<or> n \<notin> set (zone_spaces h)"
    using bumpSpace_ok [OF regions assms(3)] by metis
  then have h': "regions_ok h'" "zone_step h h'" "current_space h' = next_space h" "next_space h' = Some n"
    using assms(4) by simp_all
  show same: "same_outside h h'"
    using h'(2) zone_frameD(6,7,8,11) [of h' h] by (simp add: same_outside_def zone_step_def)
  have "k < length (zone_spaces h') \<and> zone_spaces h' ! k \<notin> set (emptySpaces h') \<and>
      Some (zone_spaces h' ! k) \<noteq> current_space h' \<and> Some (zone_spaces h' ! k) \<noteq> next_space h'"
    if "k < length (occupancy h)" "evacuated h ! k" for k
  proof -
    have k: "k < length (zone_spaces h)" "zone_spaces h ! k \<notin> set (emptySpaces h)" "Some (zone_spaces h ! k) \<noteq> next_space h"
      using assms(2) that by (auto simp: targets_ok_def)
    moreover have "zone_spaces h ! k < length (gc_spaces h)"
      using regions k(1) by (simp add: regions_ok_def)
    ultimately show ?thesis
      using zone_step_prefix [OF regions h'(1,2) k(1)] h'(2-4) h''(6) nth_mem [OF k(1)] by (auto simp: zone_step_def)
  qed
  then show "targets_ok h'"
    using assms(2) same by (simp add: targets_ok_def same_outside_def)
qed

lemma copied_cong:
  assumes "copied obj s1 c s'" "same_outside s s1"
  shows "copied obj s c s'"
proof -
  have "same_outside (s\<lparr>mem := (mem s)(c \<mapsto> beNotRemembered obj)\<rparr>) (s1\<lparr>mem := (mem s1)(c \<mapsto> beNotRemembered obj)\<rparr>)"
    using assms(2) same_outside_fields(1) [OF assms(2)] by (cases s; cases s1; simp add: same_outside_def)
  then show ?thesis
    using assms same_outside_trans same_outside_fields(1) [OF assms(2)] same_outside_moving [OF assms(2)]
    unfolding copied_def by metis
qed

lemma largeSpaces_heap_ok [simp]:
  "heap_ok (h\<lparr>largeSpaces := l\<rparr>) = heap_ok h" "used (h\<lparr>largeSpaces := l\<rparr>) = used h"
  by (simp_all add: heap_ok_def zone_ok_def regions_ok_def region_ok_def outside_ok_def mapped_def zone_range_def used_def)

lemma outside_apart:
  assumes "heap_ok h" "i < length (gc_spaces h)" "i \<notin> set (zone_spaces h)"
  shows "span (gc_spaces h ! i) \<inter> zone_range h = {}"
  using assms unfolding heap_ok_def outside_ok_def by blast

lemma zone_copy:
  assumes "heap_ok s" "targets_ok s" "inside s" "fits_header obj" "mem s p = Some obj"
  shows "outcome refusal (\<lambda>(c, s'). copied obj s c s') (zone_shallowCopy p s)"
proof -
  let ?h = "headerSizeInBytes obj" and ?m = "length (body obj)"
  let ?n = "?h + word_of_nat ?m :: 32 word"
  have m: "unat (word_of_nat ?m :: 32 word) = ?m"
    using assms(4) by (simp add: fits_header_def unsigned_of_nat take_bit_nat_eq_self)
  then have n: "unat ?n = unat ?h + ?m"
    using assms(4) header_sizes [of obj] by (subst unat_plus_simple [THEN iffD1]) (auto simp: no_olen_add_nat fits_header_def)
  then have pos: "0 < unat ?n"
    using header_sizes [of obj] by auto
  note shallow = shallow_block [OF _ _ assms(4)]
  show ?thesis
  proof (cases rule: current_copy [OF assms(1,2) pos, case_names full fits])
    case (fits a s1)
    have "\<exists>c s'. shallowCopyCommitting p (current_space s) s = Inr (c, s') \<and> copied obj s c s'"
      using fits n by (intro shallow [OF assms(1,3,5) fits(1)]) auto
    then show ?thesis
      by (auto simp: zone_shallowCopy_def copied_def)
  next
    case (full c)
    have none: "shallowCopyCommitting p (current_space s) s = Inr (0, s)"
      using full(1) assms(4,5) body_sizes(1) [of obj]
      by (simp add: shallowCopyCommitting_def shallowCopy_with_def object_at_def fits_header_def Let_def)
    have total: "totalSizeInBytes obj = Inr ?n"
      using assms(4) body_sizes(1) [of obj] by (simp add: totalSizeInBytes_def fits_header_def)
    have reduce: "zone_shallowCopy p s = (if LargeThreshold < ucast ?n
       then bind_result (createLargeSpace (ucast ?n) s) (\<lambda>(i, s2). shallowCopyCommitting p (Some i) s2)
       else bind_result (bumpSpace s) (\<lambda>s2. shallowCopyCommitting p (current_space s2) s2))"
      using none total assms(5) by (simp add: zone_shallowCopy_def object_at_def)
    show ?thesis
    proof (cases "LargeThreshold < ucast ?n")
      case False
      then have small: "unat ?n \<le> unat LargeThreshold"
        by (simp add: word_less_nat_alt unat_ucast_64 not_less)
      show ?thesis
      proof (cases "zone_room s")
        case False
        then show ?thesis
          using reduce \<open>\<not> LargeThreshold < ucast ?n\<close> bump_full [OF False] by (simp add: refusal_def zone_full_def)
      next
        case True
        obtain s2 c where b: "bumpSpace s = Inr s2" "heap_ok s2" "used s2 = used s" "current_space s2 = Some c"
            "softLimit (gc_spaces s2 ! c) = reservedLimit (gc_spaces s2 ! c)" "space_next (gc_spaces s2 ! c) = space_base (gc_spaces s2 ! c)"
            "unat (reservedLimit (gc_spaces s2 ! c)) = unat (space_base (gc_spaces s2 ! c)) + unat SPACE_SIZE"
          using heap_bump [OF assms(1) True] by metis
        note t = bump_targets [OF assms(1,2) True b(1)]
        note mem2 = same_outside_fields(1) [OF t(2)]
        have "inside s2"
          using assms(3) mem2 b(3) by (simp add: inside_def)
        have "\<exists>c s'. shallowCopyCommitting p (current_space s2) s2 = Inr (c, s') \<and> copied obj s2 c s'"
        proof (cases rule: current_copy [OF b(2) t(1) pos, case_names full fits])
          case (full c')
          then show ?thesis
            using b(4-7) small region_numerals(1) by (simp add: LargeThreshold_def)
        next
          case (fits a s3)
          then show ?thesis
            using n assms(5) mem2 by (intro shallow [OF b(2) \<open>inside s2\<close> _ fits(1)]) auto
        qed
        then show ?thesis
          using reduce \<open>\<not> LargeThreshold < ucast ?n\<close> b(1) copied_cong [OF _ t(2)] by auto
      qed
    next
      case True
      have "fits_header obj" by fact
      show ?thesis
      proof (cases rule: ReserveMemory_cases [OF heap_ok_os [OF assms(1)], of 0 "ucast ?n", case_names refused mapped])
        case refused
        then show ?thesis
          using True reduce by (simp add: createLargeSpace_def refusal_def)
      next
        case (mapped b)
        let ?i = "length (gc_spaces s)"
        let ?s1 = "s\<lparr>os_nextFree := pagealign (b + ucast ?n) s, mappings := (b, pagealign (ucast ?n) s) # mappings s,
            gc_spaces := gc_spaces s @ [allocatedAt_limit b (b + ucast ?n) True], heap_spaces := heap_spaces s @ [?i]\<rparr>"
        let ?s2 = "?s1\<lparr>largeSpaces := largeSpaces s @ [Some ?i]\<rparr>"
        note new = reserved_space [OF assms(1) mapped(1)]
        have new2: "heap_ok ?s2" "used ?s2 = used s"
          using new(1,2) by simp_all
        obtain s3 where s3: "allocateCommittingIfNeeded ?n (Some ?i) ?s2 = Inr (b, s3)" "granted b (unat ?n) ?s2 s3"
            "s3 = ?s2\<lparr>os_calls := os_calls s3, gc_spaces := gc_spaces s3\<rparr>"
          by (rule fill_space [OF new2(1), of ?i b ?n]) (use new pos in \<open>simp_all add: unat_ucast_64\<close>)
        have "span (gc_spaces ?s1 ! ?i) \<inter> zone_range ?s1 = {}"
          by (rule outside_apart [OF new(1) _ new(6)]) simp
        then have zone: "{unat b..<unat b + unat ?n} \<inter> zone_range s = {}"
          using new(3) by (simp add: span_def between_def allocatedAt_limit_def Let_def zone_range_def unat_ucast_64)
        have "unat LargeThreshold < unat ?n"
          using True by (simp add: word_less_nat_alt unat_ucast_64)
        then have "0 < ?m"
          using n header_sizes [of obj] by (auto simp: LargeThreshold_def)
        have still: "\<not> moving ?s2 x" if "unat x = unat b + unat ?h" for x
        proof -
          have "unat x \<in> {unat b..<unat b + unat ?n}"
            using that n \<open>0 < ?m\<close> by simp
          then have "unat x \<notin> zone_range s"
            using zone by blast
          then show ?thesis
            by (auto simp: moving_def zone_range_def between_def word_le_nat_alt word_less_nat_alt)
        qed
        have copy: "\<exists>c s'. shallowCopyCommitting p (Some ?i) ?s2 = Inr (c, s') \<and> copied obj ?s2 c s'"
        proof (rule shallow [OF new2(1) _ _ s3(1) s3(2) [unfolded n] _ _ still])
          show "inside ?s2"
            using assms(3) new2(2) by (simp add: inside_def)
          show "targets_ok s3"
            using assms(2) by (subst s3(3)) (simp add: targets_ok_def)
          show "same_outside ?s2 s3"
            by (subst s3(3)) (simp add: same_outside_def)
        qed (use assms(5) in simp_all)
        have "createLargeSpace (ucast ?n) s = Inr (?i, ?s2)"
          using new(4) mapped(2) by (auto simp: createLargeSpace_def addSpace_def Let_def)
        moreover have "same_outside s ?s2"
          by (simp add: same_outside_def)
        ultimately show ?thesis
          using True reduce copy copied_cong by fastforce
      qed
    qed
  qed
qed

section \<open>Reaching an object\<close>

definition same_trace :: "tracer \<Rightarrow> tracer \<Rightarrow> bool" where
  "same_trace s s' \<longleftrightarrow> same_outside (s\<lparr>mem := mem s', native_words := native_words s'\<rparr>) s'"

lemma same_trace_refl [simp]: "same_trace s s"
  by (cases s) (simp add: same_trace_def same_outside_def)

lemma same_trace_trans: "same_trace a b \<Longrightarrow> same_trace b c \<Longrightarrow> same_trace a c"
  by (cases a; cases b; cases c) (simp add: same_trace_def same_outside_def)

lemma same_trace_moving: "same_trace s s' \<Longrightarrow> moving s' = moving s"
  using same_outside_moving [of "s\<lparr>mem := mem s', native_words := native_words s'\<rparr>" s']
  by (simp add: same_trace_def moving_def fun_eq_iff)

lemma words_heap_ok [simp]:
  "heap_ok (s\<lparr>native_words := m\<rparr>) = heap_ok s" "used (s\<lparr>native_words := m\<rparr>) = used s"
  "targets_ok (s\<lparr>native_words := m\<rparr>) = targets_ok s" "moving (s\<lparr>native_words := m\<rparr>) = moving s"
  by (simp_all add: heap_ok_def zone_ok_def regions_ok_def region_ok_def outside_ok_def mapped_def zone_range_def
      used_def isGCAllowed_def targets_ok_def moving_def fun_eq_iff)

lemma occupancy_heap_ok:
  assumes "length oc = length (occupancy s)"
  shows "heap_ok (s\<lparr>occupancy := oc\<rparr>) = heap_ok s" "used (s\<lparr>occupancy := oc\<rparr>) = used s"
    "targets_ok (s\<lparr>occupancy := oc\<rparr>) = targets_ok s"
  using assms by (simp_all add: heap_ok_def zone_ok_def regions_ok_def region_ok_def outside_ok_def mapped_def zone_range_def
      used_def targets_ok_def)

lemma updateRegionOccupancy_total:
  assumes "regions_ok h"
  obtains oc where "updateRegionOccupancy p n h = Inr (h\<lparr>occupancy := oc\<rparr>)" "length oc = length (occupancy h)"
proof (cases "sint (regionIndexOf p h) < 0")
  case True
  then show thesis
    using that [of "occupancy h"] by (simp add: updateRegionOccupancy_def)
next
  case False
  then have range: "zone_base h \<le> p" "p < zone_limit h"
    by (auto simp: regionIndexOf_def split: if_splits)
  note k = region_of [OF assms range]
  have "unat (indexOfPointer p h - 1) < length (occupancy h)"
    using region_index(3) [OF assms k] k(1) region_numerals(4) by simp
  moreover have "regionIndexOf p h = indexOfPointer p h"
    using range by (auto simp: regionIndexOf_def)
  ultimately show thesis
    using that [of "(occupancy h)[unat (indexOfPointer p h - 1) := occupancy h ! unat (indexOfPointer p h - 1) + ucast n]"] False
    by (simp add: updateRegionOccupancy_def put_occupancy_def Let_def)
qed

lemma inside_put:
  assumes "inside s" "mem s p = Some obj" "similar obj x"
  shows "inside (s\<lparr>mem := (mem s)(p \<mapsto> x)\<rparr>)"
proof -
  have "headerSizeInBytes x = headerSizeInBytes obj" "length (body x) = length (body obj)"
    using similar_sizes(4) [OF assms(3)] assms(3) by (simp_all add: similar_def)
  then show ?thesis
    using assms(1,2) by (auto simp: inside_def block_of_def)
qed

text \<open>What \<open>resolveObject\<close> does to an object that was not seen yet.\<close>

definition reached :: "heap_object \<Rightarrow> oop \<Rightarrow> tracer \<Rightarrow> oop \<Rightarrow> tracer \<Rightarrow> bool" where
  "reached obj v s q s' \<longleftrightarrow> heap_ok s' \<and> targets_ok s' \<and> inside s' \<and> same_trace s s' \<and>
     (\<exists>x. mem s' = (mem s)(v \<mapsto> beSeen obj, q \<mapsto> x) \<and> remarked obj x \<and> hasBeenSeen x) \<and>
     (if moving s v then mem s q = None \<and> \<not> moving s q \<and> native_words s' = (native_words s)(v + SPACE_SIZE \<mapsto> q)
      else q = v \<and> native_words s' = native_words s)"

lemma resolve_fresh:
  assumes "heap_ok s" "targets_ok s" "inside s" "mem s v = Some obj" "fits_header obj" "\<not> isSpecial obj" "\<not> hasBeenSeen obj"
  shows "outcome refusal (\<lambda>(q, s'). reached obj v s q s') (resolveObject k v s)"
proof -
  have regions: "regions_ok s" and len: "length (evacuated s) = length (occupancy s)"
    using assms(1,2) by (simp_all add: heap_ok_def zone_ok_def targets_ok_def)
  let ?o = "beSeen obj" and ?s1 = "s\<lparr>mem := (mem s)(v \<mapsto> beSeen obj)\<rparr>"
  have mark: "remarked obj ?o" "similar obj ?o"
    using remarked_marks(1) [of obj] by (simp_all add: remarked_def)
  have fits: "fits_header ?o"
    using assms(5) similar_sizes(6) [OF mark(2)] mark(2) by (simp add: fits_header_def similar_def)
  have inside1: "inside ?s1"
    by (rule inside_put [OF assms(3,4) mark(2)])
  have plain: "\<not> isSpecial x" if "remarked obj x" for x
    using similar_flags(2) [of obj x] that assms(6) by (simp add: remarked_def)
  show ?thesis
  proof (cases "moving s v")
    case False
    have "regions_ok ?s1"
      using regions by (subst regions_cong [of _ s]) auto
    from updateRegionOccupancy_total [OF this, of v "word_of_nat (length (body obj))"]
    obtain oc where oc: "updateRegionOccupancy v (word_of_nat (length (body obj))) ?s1 = Inr (?s1\<lparr>occupancy := oc\<rparr>)"
        "length oc = length (occupancy s)"
      by auto
    let ?s2 = "?s1\<lparr>occupancy := oc\<rparr>"
    have "resolveObject k v s = Inr (v, ?s2)"
      using assms(4,5,7) False oc(1) hasToEvacuate_eq [OF regions len, of v] plain [OF mark(1)] body_sizes(1) [of obj]
      by (simp add: resolveObject_def object_at_def fits_header_def Let_def)
    moreover have "reached obj v s v ?s2"
      using occupancy_heap_ok [of oc ?s1] oc(2) assms(1,2) inside1 False mark(1)
      by (simp add: reached_def same_trace_def same_outside_def inside_def) (rule exI [of _ "beSeen obj"], simp)
    ultimately show ?thesis
      by simp
  next
    case True
    have "outcome refusal (\<lambda>(c, s'). copied ?o ?s1 c s') (zone_shallowCopy v ?s1)"
      using assms(1,2) inside1 fits by (intro zone_copy) simp_all
    then show ?thesis
    proof (cases "zone_shallowCopy v ?s1")
      case (Inl e)
      then show ?thesis
        using \<open>outcome refusal _ _\<close> assms(4,7) True hasToEvacuate_eq [OF regions len, of v]
        by (simp add: resolveObject_def object_at_def evacuate_def Let_def)
    next
      case (Inr r)
      obtain c s2 where r: "r = (c, s2)" by (cases r)
      then have copied: "copied ?o ?s1 c s2"
        using \<open>outcome refusal _ _\<close> Inr by simp
      then have c: "c \<noteq> 0" "heap_ok s2" "targets_ok s2" "inside s2" "\<not> moving s c" "mem s c = None" "c \<noteq> v"
          and same: "same_outside (?s1\<lparr>mem := (mem ?s1)(c \<mapsto> beNotRemembered ?o)\<rparr>) s2"
        using assms(4) by (auto simp: copied_def split: if_splits)
      note fields = same_outside_fields(1,2) [OF same]
      define x where "x = (if isRemembered ?o then beRemembered (beNotRemembered ?o) else beNotRemembered ?o)"
      have x: "remarked obj x" "hasBeenSeen x" "similar (beNotRemembered ?o) x"
      proof -
        have n: "remarked (beNotRemembered ?o) x"
          unfolding x_def using remarked_marks(2,4) by (cases "isRemembered ?o") simp_all
        have "remarked obj (beNotRemembered ?o)"
          by (rule remarked_trans [OF mark(1) remarked_marks(3)])
        then show "remarked obj x"
          using n by (rule remarked_trans)
        show "hasBeenSeen x"
          by (simp add: x_def)
        show "similar (beNotRemembered ?o) x"
          using n by (simp add: remarked_def)
      qed
      let ?s3 = "s2\<lparr>mem := (mem s2)(c \<mapsto> x), native_words := (native_words s2)(v + SPACE_SIZE \<mapsto> c)\<rparr>"
      have "evacuate v ?s1 = Inr (c, ?s3)"
        using Inr r fields c(7) by (simp add: evacuate_def object_at_def x_def)
      then have "resolveObject k v s = Inr (c, ?s3)"
        using assms(4,7) True hasToEvacuate_eq [OF regions len, of v] plain [OF x(1)]
        by (simp add: resolveObject_def object_at_def Let_def)
      moreover have "inside (s2\<lparr>mem := (mem s2)(c \<mapsto> x)\<rparr>)"
        using fields(1) by (intro inside_put [OF c(4) _ x(3)]) simp
      then have "inside ?s3"
        by (simp add: inside_def)
      moreover have "same_trace s ?s3"
        using same by (cases s; cases s2; simp add: same_trace_def same_outside_def)
      ultimately show ?thesis
        using c x fields True by (auto simp: reached_def)
    qed
  qed
qed

end
