(* ===== verification/Tracing.thy ===== *)
theory Tracing
  imports TraceInvariant
begin

text \<open>
  The invariant of the tracing loops of \<open>GarbageCollector.cpp\<close>: every seen object has an image, whose
  fields either hold the new place of what they held or lie in a range that is still to be scanned.
\<close>

section \<open>The invariant of the tracer\<close>

text \<open>Where an object is after the collection: its forwarder leads there when its region is evacuated.\<close>

definition place :: "tracer \<Rightarrow> oop \<Rightarrow> oop" where
  "place s p = (if moving s p then (case native_words s (p + SPACE_SIZE) of None \<Rightarrow> 0 | Some c \<Rightarrow> c) else p)"

definition seen_objects :: "memory \<Rightarrow> tracer \<Rightarrow> oop set" where
  "seen_objects m0 s = {p. m0 p \<noteq> None \<and> (\<exists>obj. mem s p = Some obj \<and> hasBeenSeen obj)}"

definition covers :: "(oop \<times> 32 word \<times> 32 word) list \<Rightarrow> oop \<Rightarrow> 32 word \<Rightarrow> bool" where
  "covers ps q i \<longleftrightarrow> (\<exists>a l. (q, a, l) \<in> set ps \<and> a \<le> i \<and> i \<le> l)"

text \<open>A field holds the place of what it held before, or it is still waiting to be scanned.\<close>

definition field_ok :: "oop set \<Rightarrow> (oop \<Rightarrow> oop) \<Rightarrow> bool \<Rightarrow> 32 word \<Rightarrow> oop \<Rightarrow> oop \<Rightarrow> bool" where
  "field_ok seen pl waiting i v u \<longleftrightarrow>
     (if is_pointer i v then v \<in> seen \<and> u = pl v \<or> waiting \<and> u = v else u = v)"

definition image_ok :: "memory \<Rightarrow> tracer \<Rightarrow> (oop \<times> 32 word \<times> 32 word) list \<Rightarrow> oop \<Rightarrow> bool" where
  "image_ok m0 s ps p \<longleftrightarrow> (\<exists>o0 obj. m0 p = Some o0 \<and> mem s (place s p) = Some obj \<and> similar o0 obj \<and> hasBeenSeen obj \<and>
     (\<forall>i\<le> strong o0. \<exists>v u. field i o0 = Inr v \<and> field i obj = Inr u \<and>
        field_ok (seen_objects m0 s) (place s) (covers ps (place s p) i) i v u))"

text \<open>
  The graph before the collection: objects with the size their header says, unmarked and not
  special, whose behaviors are not evacuated and whose pointers lead to objects.
\<close>

definition graph_ok :: "memory \<Rightarrow> (oop \<Rightarrow> bool) \<Rightarrow> bool" where
  "graph_ok m0 mv \<longleftrightarrow> finite (dom m0) \<and> (\<forall>p obj. m0 p = Some obj \<longrightarrow>
     fits_header obj \<and> \<not> hasBeenSeen obj \<and> \<not> isSpecial obj \<and> (is_pointer 0 (behavior obj) \<longrightarrow> \<not> mv (behavior obj)) \<and>
     (\<forall>i\<le> strong obj. \<forall>v. field i obj = Inr v \<longrightarrow> is_pointer i v \<longrightarrow> m0 v \<noteq> None))"

definition points_to :: "memory \<Rightarrow> oop \<Rightarrow> oop \<Rightarrow> bool" where
  "points_to m0 p v \<longleftrightarrow> (\<exists>obj i. m0 p = Some obj \<and> i \<le> strong obj \<and> field i obj = Inr v \<and> is_pointer i v)"

definition ranges_ok :: "memory \<Rightarrow> tracer \<Rightarrow> (oop \<times> 32 word \<times> 32 word) list \<Rightarrow> bool" where
  "ranges_ok m0 s ps \<longleftrightarrow> (\<forall>(q, a, l)\<in>set ps. \<exists>p\<in>seen_objects m0 s. \<exists>o0. m0 p = Some o0 \<and> q = place s p \<and> l = strong o0)"

definition traced :: "memory \<Rightarrow> (oop \<Rightarrow> bool) \<Rightarrow> oop set \<Rightarrow> tracer \<Rightarrow> (oop \<times> 32 word \<times> 32 word) list \<Rightarrow> bool" where
  "traced m0 mv reach s ps \<longleftrightarrow> moving s = mv \<and> heap_ok s \<and> targets_ok s \<and> inside s \<and>
     (\<forall>p obj. m0 p = Some obj \<longrightarrow> p \<notin> seen_objects m0 s \<longrightarrow> mem s p = Some obj) \<and>
     (\<forall>p\<in>seen_objects m0 s. image_ok m0 s ps p \<and> \<not> mv (place s p) \<and> (m0 (place s p) \<noteq> None \<longrightarrow> place s p = p) \<and>
        (mv p \<longrightarrow> native_words s (p + SPACE_SIZE) \<noteq> None)) \<and>
     inj_on (place s) (seen_objects m0 s) \<and> seen_objects m0 s \<subseteq> reach \<and> ranges_ok m0 s ps"

lemma tracedD:
  assumes "traced m0 mv reach s ps"
  shows "moving s = mv" "heap_ok s" "targets_ok s" "inside s"
    "\<And>p obj. m0 p = Some obj \<Longrightarrow> p \<notin> seen_objects m0 s \<Longrightarrow> mem s p = Some obj"
    "\<And>p. p \<in> seen_objects m0 s \<Longrightarrow> image_ok m0 s ps p"
    "\<And>p. p \<in> seen_objects m0 s \<Longrightarrow> \<not> mv (place s p)"
    "\<And>p. p \<in> seen_objects m0 s \<Longrightarrow> m0 (place s p) \<noteq> None \<Longrightarrow> place s p = p"
    "inj_on (place s) (seen_objects m0 s)" "seen_objects m0 s \<subseteq> reach" "ranges_ok m0 s ps"
    "\<And>p. p \<in> seen_objects m0 s \<Longrightarrow> mv p \<Longrightarrow> native_words s (p + SPACE_SIZE) \<noteq> None"
  using assms by (simp_all add: traced_def)

lemma traced_present: "traced m0 mv reach s ps \<Longrightarrow> m0 p \<noteq> None \<Longrightarrow> mem s p \<noteq> None"
  using tracedD(5) [of m0 mv reach s ps p] by (cases "p \<in> seen_objects m0 s") (auto simp: seen_objects_def)

lemma image_okE:
  assumes "image_ok m0 s ps p"
  obtains o0 obj where "m0 p = Some o0" "mem s (place s p) = Some obj" "similar o0 obj" "hasBeenSeen obj"
    "\<forall>i\<le> strong o0. \<exists>v u. field i o0 = Inr v \<and> field i obj = Inr u \<and>
       field_ok (seen_objects m0 s) (place s) (covers ps (place s p) i) i v u"
  using assms unfolding image_ok_def by blast

lemma field_ok_mono:
  "field_ok seen pl w i v u \<Longrightarrow> seen \<subseteq> seen' \<Longrightarrow> (\<And>p. p \<in> seen \<Longrightarrow> pl' p = pl p) \<Longrightarrow> (w \<Longrightarrow> w') \<Longrightarrow> field_ok seen' pl' w' i v u"
  by (auto simp: field_ok_def split: if_splits)

text \<open>Reaching a new object.\<close>

lemma reached_traced:
  assumes graph: "graph_ok m0 mv" and t: "traced m0 mv reach s ps"
    and v: "m0 v = Some obj" "v \<notin> seen_objects m0 s" "v \<in> reach" and r: "reached obj v s q s'"
  shows "traced m0 mv reach s' ((q, 0, strong obj) # ps)" "seen_objects m0 s' = insert v (seen_objects m0 s)"
    "place s' v = q" "\<And>p. p \<in> seen_objects m0 s \<Longrightarrow> place s' p = place s p"
    "\<And>p. p \<in> seen_objects m0 s \<Longrightarrow> mem s' (place s p) = mem s (place s p)"
proof -
  obtain x where x: "mem s' = (mem s)(v \<mapsto> beSeen obj, q \<mapsto> x)" "remarked obj x" "hasBeenSeen x"
    using r by (auto simp: reached_def)
  have s': "heap_ok s'" "targets_ok s'" "inside s'" "same_trace s s'"
    using r by (simp_all add: reached_def)
  have mv: "moving s' = mv" "moving s = mv"
    using same_trace_moving [OF s'(4)] tracedD(1) [OF t] by simp_all
  have q: "mv v \<Longrightarrow> mem s q = None \<and> native_words s' = (native_words s)(v + SPACE_SIZE \<mapsto> q)"
      "\<not> mv v \<Longrightarrow> q = v \<and> native_words s' = native_words s" "\<not> mv q"
    using r mv(2) by (auto simp: reached_def split: if_splits)
  have q0: "mv v \<Longrightarrow> m0 q = None"
    using q(1) traced_present [OF t, of q] by (cases "m0 q") auto
  show seen: "seen_objects m0 s' = insert v (seen_objects m0 s)"
    using v(1) x q(2) q0 by (cases "mv v") (auto simp: seen_objects_def)
  show pv: "place s' v = q"
    using q mv by (auto simp: place_def)
  show old: "place s' p = place s p" if "p \<in> seen_objects m0 s" for p
    using that v(2) q mv by (cases "mv v") (auto simp: place_def)
  have apart: "place s p \<noteq> v \<and> place s p \<noteq> q" if "p \<in> seen_objects m0 s" for p
  proof -
    have "place s p \<noteq> v"
      using tracedD(8) [OF t that] v(1,2) that by auto
    moreover have "mem s (place s p) \<noteq> None"
      using tracedD(6) [OF t that] by (auto elim: image_okE)
    ultimately show ?thesis
      using q by (cases "mv v") auto
  qed
  then show same: "mem s' (place s p) = mem s (place s p)" if "p \<in> seen_objects m0 s" for p
    using that x(1) by simp
  let ?ps = "(q, 0, strong obj) # ps"
  have "image_ok m0 s' ?ps p" if p: "p \<in> seen_objects m0 s" for p
  proof -
    obtain o0 o1 where i: "m0 p = Some o0" "mem s (place s p) = Some o1" "similar o0 o1" "hasBeenSeen o1"
      "\<forall>i\<le> strong o0. \<exists>v u. field i o0 = Inr v \<and> field i o1 = Inr u \<and>
         field_ok (seen_objects m0 s) (place s) (covers ps (place s p) i) i v u"
      by (rule image_okE [OF tracedD(6) [OF t p]])
    have "\<exists>v u. field i o0 = Inr v \<and> field i o1 = Inr u \<and>
         field_ok (seen_objects m0 s') (place s') (covers ?ps (place s' p) i) i v u" if bound: "i \<le> strong o0" for i
    proof -
      obtain v u where vu: "field i o0 = Inr v" "field i o1 = Inr u" "field_ok (seen_objects m0 s) (place s) (covers ps (place s p) i) i v u"
        using i(5) bound by blast
      have "field_ok (seen_objects m0 s') (place s') (covers ?ps (place s' p) i) i v u"
        using vu(3) by (rule field_ok_mono) (use seen old p in \<open>auto simp: covers_def\<close>)
      then show ?thesis
        using vu by blast
    qed
    then show ?thesis
      using i same [OF p] old [OF p] unfolding image_ok_def by auto
  qed
  moreover have "image_ok m0 s' ?ps v"
  proof -
    have "\<exists>w u. field i obj = Inr w \<and> field i x = Inr u \<and>
        field_ok (seen_objects m0 s') (place s') (covers ?ps (place s' v) i) i w u" if bound: "i \<le> strong obj" for i
    proof -
      have "well_formed obj"
        using v(1) graph by (auto simp: graph_ok_def fits_header_def)
      then obtain w where "field i obj = Inr w"
        using bound by (rule field_total)
      moreover have "covers ?ps q i"
        using bound unfolding covers_def by (intro exI [of _ 0] exI [of _ "strong obj"]) simp
      ultimately show ?thesis
        using remarked_field [OF x(2), of i] pv by (auto simp: field_ok_def)
    qed
    then show ?thesis
      using v(1) x pv by (auto simp: image_ok_def remarked_def)
  qed
  moreover have "inj_on (place s') (insert v (seen_objects m0 s))"
  proof -
    have "inj_on (place s') (seen_objects m0 s)"
      using inj_on_cong [of "seen_objects m0 s" "place s'" "place s"] tracedD(9) [OF t] old by blast
    moreover have "place s' v \<notin> place s' ` seen_objects m0 s"
      using apart old pv by (metis imageE)
    ultimately show ?thesis
      using v(2) by simp
  qed
  moreover have "ranges_ok m0 s' ?ps"
  proof -
    have "\<exists>p\<in>seen_objects m0 s'. \<exists>o0. m0 p = Some o0 \<and> y = place s' p \<and> l = strong o0"
      if range: "(y, a, l) \<in> set ?ps" for y a l
    proof (cases "(y, a, l) \<in> set ps")
      case True
      then obtain p o0 where "p \<in> seen_objects m0 s" "m0 p = Some o0" "y = place s p" "l = strong o0"
        using tracedD(11) [OF t] unfolding ranges_ok_def by fast
      then show ?thesis
        using seen old by auto
    next
      case False
      then show ?thesis
        using range seen pv v(1) by auto
    qed
    then show ?thesis
      unfolding ranges_ok_def by blast
  qed
  moreover have "mem s' p = Some o0" if fresh: "m0 p = Some o0" "p \<notin> seen_objects m0 s'" for p o0
  proof -
    have "p \<noteq> v" "p \<notin> seen_objects m0 s"
      using fresh(2) seen by blast+
    moreover have "p \<noteq> q"
      using fresh(1) q(2) q0 \<open>p \<noteq> v\<close> by (cases "mv v") auto
    ultimately show ?thesis
      using tracedD(5) [OF t fresh(1)] x(1) by simp
  qed
  moreover have "\<not> mv (place s' p) \<and> (m0 (place s' p) \<noteq> None \<longrightarrow> place s' p = p) \<and>
      (mv p \<longrightarrow> native_words s' (p + SPACE_SIZE) \<noteq> None)" if member: "p \<in> seen_objects m0 s'" for p
  proof (cases "p \<in> seen_objects m0 s")
    case True
    then show ?thesis
      using tracedD(7,8,12) [OF t True] old [OF True] q(1,2) by (cases "mv v") auto
  next
    case False
    then have "p = v"
      using member seen by blast
    then show ?thesis
      using pv q q0 by (cases "mv v") auto
  qed
  ultimately show "traced m0 mv reach s' ?ps"
    using s' mv tracedD(10) [OF t] v(3) unfolding traced_def seen by simp
qed

text \<open>A field that needs no visit any more.\<close>

definition field_done :: "memory \<Rightarrow> tracer \<Rightarrow> oop \<Rightarrow> 32 word \<Rightarrow> bool" where
  "field_done m0 s p i \<longleftrightarrow> (\<forall>o0 obj v u. m0 p = Some o0 \<longrightarrow> mem s (place s p) = Some obj \<longrightarrow> field i o0 = Inr v \<longrightarrow>
     field i obj = Inr u \<longrightarrow> field_ok (seen_objects m0 s) (place s) False i v u)"

lemma advance_traced:
  assumes t: "traced m0 mv reach s ps" and ranges: "ranges_ok m0 s ps'"
    and cover: "\<And>x j. covers ps x j \<Longrightarrow> covers ps' x j \<or> (\<exists>p\<in>seen_objects m0 s. x = place s p \<and> field_done m0 s p j)"
  shows "traced m0 mv reach s ps'"
proof -
  have "image_ok m0 s ps' r" if r: "r \<in> seen_objects m0 s" for r
  proof -
    obtain o0 o1 where i: "m0 r = Some o0" "mem s (place s r) = Some o1" "similar o0 o1" "hasBeenSeen o1"
      "\<forall>j\<le> strong o0. \<exists>v u. field j o0 = Inr v \<and> field j o1 = Inr u \<and>
         field_ok (seen_objects m0 s) (place s) (covers ps (place s r) j) j v u"
      by (rule image_okE [OF tracedD(6) [OF t r]])
    have "\<exists>v u. field j o0 = Inr v \<and> field j o1 = Inr u \<and>
         field_ok (seen_objects m0 s) (place s) (covers ps' (place s r) j) j v u" if bound: "j \<le> strong o0" for j
    proof -
      obtain v u where vu: "field j o0 = Inr v" "field j o1 = Inr u" "field_ok (seen_objects m0 s) (place s) (covers ps (place s r) j) j v u"
        using i(5) bound by blast
      have "field_ok (seen_objects m0 s) (place s) (covers ps' (place s r) j) j v u"
      proof (cases "covers ps (place s r) j \<longrightarrow> covers ps' (place s r) j")
        case False
        then obtain p where p: "p \<in> seen_objects m0 s" "place s r = place s p" "field_done m0 s p j"
          using cover by blast
        then have "r = p"
          using tracedD(9) [OF t] r by (auto simp: inj_on_def)
        then have "field_ok (seen_objects m0 s) (place s) False j v u"
          using p(3) i(1,2) vu by (auto simp: field_done_def)
        then show ?thesis
          by (rule field_ok_mono) auto
      next
        case True
        then show ?thesis
          using vu(3) by (auto intro: field_ok_mono)
      qed
      then show ?thesis
        using vu by blast
    qed
    then show ?thesis
      using i unfolding image_ok_def by blast
  qed
  then show ?thesis
    using t ranges unfolding traced_def by blast
qed

lemma high_half_ucast: "ucast (w :: 32 word) AND 0xFFFFFFFF00000000 = (0 :: oop)"
proof -
  have mask: "(0xFFFFFFFF00000000 :: oop) = push_bit 32 (mask 32)"
    by (simp add: mask_eq_exp_minus_1)
  show ?thesis
    unfolding mask by (rule bit_word_eqI) (auto simp: bit_and_iff bit_push_bit_iff bit_mask_iff bit_ucast_iff dest: bit_imp_le_length)
qed

text \<open>Storing the place of an object into a field of a seen object.\<close>

definition store_field :: "oop \<Rightarrow> 32 word \<Rightarrow> oop \<Rightarrow> tracer \<Rightarrow> tracer result" where
  "store_field q i = (if i = 0 then store_behavior q else store_slot q i)"

lemma store_traced:
  assumes graph: "graph_ok m0 mv" and t: "traced m0 mv reach s ps" and p: "p \<in> seen_objects m0 s" "m0 p = Some o0"
    and i: "i \<le> strong o0" "field i o0 = Inr w" "is_pointer i w" and w: "w \<in> seen_objects m0 s"
  obtains s' where "store_field (place s p) i (place s w) s = Inr s'" "traced m0 mv reach s' ps" "field_done m0 s' p i"
    "seen_objects m0 s' = seen_objects m0 s" "place s' = place s" "same_trace s s'" "native_words s' = native_words s"
proof -
  let ?q = "place s p" and ?v = "place s w"
  obtain obj where im: "mem s ?q = Some obj" "similar o0 obj" "hasBeenSeen obj"
      "\<forall>j\<le> strong o0. \<exists>v u. field j o0 = Inr v \<and> field j obj = Inr u \<and>
         field_ok (seen_objects m0 s) (place s) (covers ps ?q j) j v u"
    using tracedD(6) [OF t p(1)] p(2) by (auto elim!: image_okE)
  note ok = graph [unfolded graph_ok_def]
  have wf: "well_formed obj" "i \<le> strong obj"
    using ok p(2) similar_sizes(3,6) [OF im(2)] i(1) by (auto simp: fits_header_def)
  have low: "?v AND 0xFFFFFFFF00000000 = 0" if "i = 0"
  proof -
    have b: "w = behavior o0"
      using i(2) that by (simp add: field_def)
    have "\<not> mv w"
      using ok p(2) i(3) that b by blast
    then have "?v = w"
      using tracedD(1) [OF t] by (simp add: place_def)
    then show ?thesis
      using b by (simp add: high_half_ucast behavior_def BEHAVIOR_ADDRESS_SPACE_def)
  qed
  obtain obj' where put: "field_put i ?v obj = Inr obj'" "field i obj' = Inr ?v" "similar obj obj'" "hasBeenSeen obj' = hasBeenSeen obj"
      "\<And>j. j \<noteq> i \<Longrightarrow> field j obj' = field j obj"
    using field_put_total [OF wf low] by metis
  let ?s = "s\<lparr>mem := (mem s)(?q \<mapsto> obj')\<rparr>"
  have store: "store_field ?q i ?v s = Inr ?s"
    using im(1) put(1) by (auto simp: store_field_def store_behavior_def store_slot_def field_put_def object_at_def split: if_splits)
  have seen: "seen_objects m0 ?s = seen_objects m0 s"
    using im(1,3) put(4) by (auto simp: seen_objects_def)
  have pl: "place ?s = place s"
    by (simp add: place_def fun_eq_iff)
  have "image_ok m0 ?s ps r" if r: "r \<in> seen_objects m0 s" for r
  proof (cases "r = p")
    case False
    then have "place s r \<noteq> ?q"
      using tracedD(9) [OF t] r p(1) by (auto simp: inj_on_def)
    then show ?thesis
      using tracedD(6) [OF t r] unfolding image_ok_def seen pl by simp
  next
    case True
    have "\<exists>v u. field j o0 = Inr v \<and> field j obj' = Inr u \<and>
        field_ok (seen_objects m0 s) (place s) (covers ps ?q j) j v u" if "j \<le> strong o0" for j
      using im(4) [rule_format, OF that] put(2,5) i w by (cases "j = i") (auto simp: field_ok_def)
    then show ?thesis
      using True p(2) im(2,3) put(3,4) similar_trans unfolding image_ok_def seen pl by auto
  qed
  moreover have "inside ?s"
    by (rule inside_put [OF tracedD(4) [OF t] im(1) put(3)])
  moreover have "mem ?s r = Some x" if "m0 r = Some x" "r \<notin> seen_objects m0 s" for r x
  proof -
    have "r \<noteq> ?q"
      using tracedD(8) [OF t p(1)] p(1) that by auto
    then show ?thesis
      using tracedD(5) [OF t that] by simp
  qed
  ultimately have "traced m0 mv reach ?s ps"
    using t unfolding traced_def seen pl ranges_ok_def by auto
  moreover have "field_done m0 ?s p i"
    using p(2) i(2,3) w put(2) by (auto simp: field_done_def seen pl field_ok_def)
  moreover have "same_trace s ?s"
    by (cases s) (simp add: same_trace_def same_outside_def)
  ultimately show thesis
    using that [OF store] seen pl by simp
qed

end
