(* ===== verification/TraceTotal.thy ===== *)
theory TraceTotal
  imports Tracing
begin

text \<open>
  The tracing loops of \<open>G1GC.cpp\<close> end and keep the invariant: one field, one range, the mark stack,
  the registered references and the closure.  \<open>work\<close> is the measure: reaching an object costs more
  than scanning any range.
\<close>

section \<open>The mark stack and the amount of work left\<close>

lemma stack_fields [simp]:
  "heap_ok (s\<lparr>mark_stack := x\<rparr>) = heap_ok s" "targets_ok (s\<lparr>mark_stack := x\<rparr>) = targets_ok s"
  "moving (s\<lparr>mark_stack := x\<rparr>) = moving s" "inside (s\<lparr>mark_stack := x\<rparr>) = inside s"
  "seen_objects m0 (s\<lparr>mark_stack := x\<rparr>) = seen_objects m0 s" "place (s\<lparr>mark_stack := x\<rparr>) = place s"
  by (simp_all add: heap_ok_def zone_ok_def regions_ok_def region_ok_def outside_ok_def mapped_def zone_range_def
      used_def isGCAllowed_def targets_ok_def moving_def fun_eq_iff inside_def seen_objects_def place_def)

lemma stack_traced [simp]: "traced m0 mv reach (s\<lparr>mark_stack := x\<rparr>) ps = traced m0 mv reach s ps"
  by (simp add: traced_def image_ok_def ranges_ok_def)

lemma refs_fields [simp]:
  "heap_ok (s\<lparr>gced_refs := x\<rparr>) = heap_ok s" "targets_ok (s\<lparr>gced_refs := x\<rparr>) = targets_ok s"
  "moving (s\<lparr>gced_refs := x\<rparr>) = moving s" "inside (s\<lparr>gced_refs := x\<rparr>) = inside s"
  "seen_objects m0 (s\<lparr>gced_refs := x\<rparr>) = seen_objects m0 s" "place (s\<lparr>gced_refs := x\<rparr>) = place s"
  by (simp_all add: heap_ok_def zone_ok_def regions_ok_def region_ok_def outside_ok_def mapped_def zone_range_def
      used_def isGCAllowed_def targets_ok_def moving_def fun_eq_iff inside_def seen_objects_def place_def)

lemma refs_traced [simp]: "traced m0 mv reach (s\<lparr>gced_refs := x\<rparr>) ps = traced m0 mv reach s ps"
  by (simp add: traced_def image_ok_def ranges_ok_def)

definition range_work :: "oop \<times> 32 word \<times> 32 word \<Rightarrow> nat" where
  "range_work = (\<lambda>(q, a, l). 1 + (unat l + 1 - unat a))"

definition work :: "memory \<Rightarrow> tracer \<Rightarrow> (oop \<times> 32 word \<times> 32 word) list \<Rightarrow> nat" where
  "work m0 s ps = card (dom m0 - seen_objects m0 s) * (2 ^ 32 + 2) + sum_list (map range_work ps)"

lemma work_more: "work m0 s (r # ps) = range_work r + work m0 s ps"
  by (simp add: work_def)

lemma work_fewer:
  assumes "finite (dom m0)" "m0 v \<noteq> None" "v \<notin> seen_objects m0 s" "seen_objects m0 s' = insert v (seen_objects m0 s)"
  shows "work m0 s' ps + (2 ^ 32 + 2) = work m0 s ps"
proof -
  have "dom m0 - seen_objects m0 s = insert v (dom m0 - seen_objects m0 s')"
    using assms(2-4) by auto
  then have "card (dom m0 - seen_objects m0 s) = Suc (card (dom m0 - seen_objects m0 s'))"
    using assms(1,4) by simp
  then show ?thesis
    by (simp add: work_def)
qed

text \<open>What tracing keeps of a state: the objects that were seen, their places, and all that is not traced.\<close>

definition grown :: "memory \<Rightarrow> tracer \<Rightarrow> tracer \<Rightarrow> bool" where
  "grown m0 s s' \<longleftrightarrow> seen_objects m0 s \<subseteq> seen_objects m0 s' \<and>
     (\<forall>p\<in>seen_objects m0 s. place s' p = place s p) \<and> same_trace (s\<lparr>mark_stack := mark_stack s'\<rparr>) s'"

lemma same_trace_stack: "same_trace s s' \<Longrightarrow> mark_stack s' = mark_stack s"
  by (cases s; cases s') (simp add: same_trace_def same_outside_def)

lemma same_trace_put_stack: "same_trace s s' \<Longrightarrow> same_trace (s\<lparr>mark_stack := x\<rparr>) (s'\<lparr>mark_stack := x\<rparr>)"
  by (cases s; cases s') (simp add: same_trace_def same_outside_def)

lemma grown_refl [simp]: "grown m0 s s"
  by (simp add: grown_def)

lemma grown_trans: "grown m0 a b \<Longrightarrow> grown m0 b c \<Longrightarrow> grown m0 a c"
  unfolding grown_def
  using same_trace_put_stack [of "a\<lparr>mark_stack := mark_stack b\<rparr>" b "mark_stack c"] same_trace_trans
  by (auto simp: subset_iff)

lemma grown_stack: "grown m0 s (s\<lparr>mark_stack := x\<rparr>)"
  by (simp add: grown_def)

lemma grown_traceI:
  assumes "same_trace s s'" "seen_objects m0 s \<subseteq> seen_objects m0 s'" "\<And>p. p \<in> seen_objects m0 s \<Longrightarrow> place s' p = place s p"
  shows "grown m0 s s'"
proof -
  have "s\<lparr>mark_stack := mark_stack s'\<rparr> = s"
    using same_trace_stack [OF assms(1)] by simp
  then show ?thesis
    using assms by (simp add: grown_def)
qed

lemma same_trace_fields: "same_trace s s' \<Longrightarrow> gced_refs s' = gced_refs s \<and> pending_stacks s' = pending_stacks s"
  by (cases s; cases s') (simp add: same_trace_def same_outside_def)

lemma grown_fields:
  assumes "grown m0 s s'"
  shows "gced_refs s' = gced_refs s" "pending_stacks s' = pending_stacks s" "moving s' = moving s"
proof -
  have same: "same_trace (s\<lparr>mark_stack := mark_stack s'\<rparr>) s'"
    using assms by (simp add: grown_def)
  show "gced_refs s' = gced_refs s" "pending_stacks s' = pending_stacks s"
    using same_trace_fields [OF same] by simp_all
  show "moving s' = moving s"
    using same_trace_moving [OF same] by simp
qed

section \<open>One object of a pointer\<close>

text \<open>An object that was seen is already where it belongs.\<close>

lemma resolve_seen:
  assumes t: "traced m0 mv reach s ps" and v: "v \<in> seen_objects m0 s"
  shows "resolveObject k v s = Inr (place s v, s)" "seen_at v s = Inr True"
    "resolveObject k (place s v) s = Inr (place s v, s)" "seen_at (place s v) s = Inr True"
proof -
  have regions: "regions_ok s" and len: "length (evacuated s) = length (occupancy s)"
    using tracedD(2,3) [OF t] by (simp_all add: heap_ok_def zone_ok_def targets_ok_def)
  note evac = hasToEvacuate_eq [OF regions len]
  obtain obj where obj: "mem s v = Some obj" "hasBeenSeen obj"
    using v by (auto simp: seen_objects_def)
  then show "seen_at v s = Inr True"
    by (simp add: seen_at_def object_at_def)
  show "resolveObject k v s = Inr (place s v, s)"
  proof (cases "moving s v")
    case True
    then obtain c where "native_words s (v + SPACE_SIZE) = Some c"
      using tracedD(1) [OF t] tracedD(12) [OF t v] by auto
    then show ?thesis
      using True obj by (simp add: resolveObject_def evac object_at_def place_def copyOf_def native_word_def)
  next
    case False
    then show ?thesis
      using obj by (simp add: resolveObject_def evac object_at_def place_def)
  qed
  obtain x where x: "mem s (place s v) = Some x" "hasBeenSeen x"
    using tracedD(6) [OF t v] by (auto elim: image_okE)
  then show "seen_at (place s v) s = Inr True"
    by (simp add: seen_at_def object_at_def)
  show "resolveObject k (place s v) s = Inr (place s v, s)"
    using x tracedD(1) [OF t] tracedD(7) [OF t v] by (simp add: resolveObject_def evac object_at_def)
qed

lemma strong_total:
  assumes "well_formed obj"
  shows "strongPointersSize obj = Inr (strong obj)"
proof -
  obtain n where "object_size obj = Inr n"
    by (rule well_formed_size [OF assms])
  then show ?thesis
    by (simp add: strong_def strongPointersSize_def)
qed

lemma seen_strong_size:
  assumes graph: "graph_ok m0 mv" and t: "traced m0 mv reach s ps" and v: "v \<in> seen_objects m0 s" "m0 v = Some obj"
  shows "strong_size_at (place s v) s = Inr (strong obj)"
proof -
  obtain x where x: "mem s (place s v) = Some x" "similar obj x"
    using tracedD(6) [OF t v(1)] v(2) by (auto elim: image_okE)
  moreover have "strongPointersSize obj = Inr (strong obj)"
    using graph v(2) by (intro strong_total) (auto simp: graph_ok_def fits_header_def)
  ultimately show ?thesis
    using similar_sizes(2) [OF x(2)] by (simp add: strong_size_at_def object_at_def)
qed

text \<open>Resolving any object of the graph.\<close>

lemma resolve_outcome:
  assumes graph: "graph_ok m0 mv" and t: "traced m0 mv reach s ps" and v: "m0 v = Some obj" "v \<in> reach" "v \<notin> seen_objects m0 s"
  shows "seen_at v s = Inr False" "outcome refusal (\<lambda>(q, s'). q = place s' v \<and> traced m0 mv reach s' ((q, 0, strong obj) # ps) \<and>
      seen_objects m0 s' = insert v (seen_objects m0 s) \<and> grown m0 s s' \<and> mark_stack s' = mark_stack s) (resolveObject k v s)"
proof -
  have m: "mem s v = Some obj"
    by (rule tracedD(5) [OF t v(1,3)])
  have obj: "fits_header obj" "\<not> isSpecial obj" "\<not> hasBeenSeen obj"
    using graph v(1) by (auto simp: graph_ok_def)
  show "seen_at v s = Inr False"
    using m obj by (simp add: seen_at_def object_at_def)
  have "outcome refusal (\<lambda>(q, s'). reached obj v s q s') (resolveObject k v s)"
    by (rule resolve_fresh [OF tracedD(2-4) [OF t] m obj])
  then show "outcome refusal (\<lambda>(q, s'). q = place s' v \<and> traced m0 mv reach s' ((q, 0, strong obj) # ps) \<and>
      seen_objects m0 s' = insert v (seen_objects m0 s) \<and> grown m0 s s' \<and> mark_stack s' = mark_stack s) (resolveObject k v s)"
  proof (rule outcome_mono, clarify)
    fix q s'
    assume r: "reached obj v s q s'"
    note new = reached_traced [OF graph t v(1,3,2) r]
    have same: "same_trace s s'"
      using r by (simp add: reached_def)
    show "q = place s' v \<and> traced m0 mv reach s' ((q, 0, strong obj) # ps) \<and>
      seen_objects m0 s' = insert v (seen_objects m0 s) \<and> grown m0 s s' \<and> mark_stack s' = mark_stack s"
    proof (intro conjI)
      show "grown m0 s s'"
        by (rule grown_traceI [OF same]) (use new(2,4) in blast)+
    qed (use new(1-3) same_trace_stack [OF same] in simp_all)
  qed
qed

text \<open>Going on to the next field, or to the end of the range.\<close>

lemma strong_bound:
  assumes "graph_ok m0 mv" "m0 p = Some obj"
  shows "unat (strong obj) + 1 < 2 ^ 32"
proof -
  have wf: "well_formed obj" "length (body obj) < 2 ^ 32 - 16"
    using assms by (auto simp: graph_ok_def fits_header_def)
  obtain n where n: "object_size obj = Inr n" "length (body obj) = body_length (isBytes obj) n"
    by (rule well_formed_size [OF wf(1)])
  have "8 * unat n < 2 ^ 32 - 16" if "\<not> isBytes obj"
    using that n(2) wf(2) by (simp add: body_length_def)
  then show ?thesis
    using n(1) by (auto simp: strong_def strongPointersSize_def)
qed

lemma advance_range:
  assumes t: "traced m0 mv reach s ps" and p: "p \<in> seen_objects m0 s" "place s p = q" and d: "field_done m0 s p i"
    and sets: "set ps \<subseteq> insert (q, i, l) (set ps')" "set ps' \<subseteq> insert (q, i + 1, l) (set ps)" "i < l \<Longrightarrow> (q, i + 1, l) \<in> set ps'"
    and range: "(q, i, l) \<in> set ps"
  shows "traced m0 mv reach s ps'"
proof (rule advance_traced [OF t])
  have "ranges_ok m0 s ps"
    by (rule tracedD(11) [OF t])
  then show "ranges_ok m0 s ps'"
    using sets(2) range unfolding ranges_ok_def by fast
  fix x j
  assume "covers ps x j"
  then obtain a b where ab: "(x, a, b) \<in> set ps" "a \<le> j" "j \<le> b"
    by (auto simp: covers_def)
  show "covers ps' x j \<or> (\<exists>p\<in>seen_objects m0 s. x = place s p \<and> field_done m0 s p j)"
  proof (cases "(x, a, b) \<in> set ps' \<or> x = q \<and> j = i")
    case True
    then show ?thesis
      using ab p d by (auto simp: covers_def)
  next
    case False
    then have "x = q" "a = i" "b = l" "i < j"
      using sets(1) ab by auto
    then show ?thesis
      using ab(3) sets(3) inc_le [of i j] unfolding covers_def by (meson less_le_trans)
  qed
qed

section \<open>One step of the scan\<close>

lemma scan_field_eq:
  assumes "mem s q = Some obj" "field i obj = Inr u"
  shows "scan_field k (s, q, i, l) =
    (if is_pointer i u then scan_reached k u (store_field q i) (s, q, i, l) else Inr (s, q, i + 1, l))"
  using assms by (auto simp: scan_field_def scanBehavior_def scanSlot_def object_at_def field_def is_pointer_def
      store_field_def split: if_splits)

definition scanning :: "memory \<Rightarrow> (oop \<Rightarrow> bool) \<Rightarrow> oop set \<Rightarrow> tracer \<Rightarrow> nat \<Rightarrow> scan_state \<Rightarrow> bool" where
  "scanning m0 mv reach s n = (\<lambda>(s', q, i, l). traced m0 mv reach s' ((q, i, l) # mark_stack s') \<and> grown m0 s s' \<and>
     work m0 s' ((q, i, l) # mark_stack s') \<le> n)"

lemma range_advance:
  assumes "i \<le> l" "unat l + 1 < 2 ^ 32"
  shows "range_work (q, i + 1, l) < range_work (q, i, l)"
proof -
  have "unat (i + 1) = unat i + 1"
    using assms by (simp add: unat_word_ariths word_le_nat_alt)
  then show ?thesis
    using assms(1) by (simp add: range_work_def word_le_nat_alt)
qed

lemma range_new: "unat n + 1 < 2 ^ 32 \<Longrightarrow> range_work (q, 0, n) \<le> 2 ^ 32"
  by (simp add: range_work_def)

text \<open>A field that was visited, or holds no pointer: only the index moves.\<close>

lemma step_over:
  assumes t: "traced m0 mv reach s ((q, i, l) # mark_stack s)" and p: "p \<in> seen_objects m0 s" "place s p = q"
    and d: "field_done m0 s p i" and i: "i \<le> l" "unat l + 1 < 2 ^ 32"
  shows "scanning m0 mv reach s (work m0 s ((q, i, l) # mark_stack s) - 1) (s, q, i + 1, l)"
proof -
  have "traced m0 mv reach s ((q, i + 1, l) # mark_stack s)"
    by (rule advance_range [OF t p d]) auto
  then show ?thesis
    using range_advance [OF i, of q] by (simp add: scanning_def work_more)
qed

lemma scan_step:
  assumes graph: "graph_ok m0 mv" and closed: "\<And>p v. p \<in> reach \<Longrightarrow> points_to m0 p v \<Longrightarrow> v \<in> reach"
    and t: "traced m0 mv reach s ((q, i, l) # mark_stack s)" and i: "i \<le> l"
  shows "outcome refusal (scanning m0 mv reach s (work m0 s ((q, i, l) # mark_stack s) - 1)) (scan_field k (s, q, i, l))"
proof -
  let ?ps = "(q, i, l) # mark_stack s" and ?n = "work m0 s ((q, i, l) # mark_stack s) - 1"
  obtain p o0 where p: "p \<in> seen_objects m0 s" "m0 p = Some o0" "place s p = q" "l = strong o0"
    using tracedD(11) [OF t] unfolding ranges_ok_def by fastforce
  obtain o1 obj where "m0 p = Some o1" and im: "mem s (place s p) = Some obj" "similar o1 obj" "hasBeenSeen obj"
      "\<forall>i\<le> strong o1. \<exists>v u. field i o1 = Inr v \<and> field i obj = Inr u \<and>
         field_ok (seen_objects m0 s) (place s) (covers ?ps (place s p) i) i v u"
    by (rule image_okE [OF tracedD(6) [OF t p(1)]])
  then obtain v u where vu: "field i o0 = Inr v" "field i obj = Inr u"
      "field_ok (seen_objects m0 s) (place s) (covers ?ps q i) i v u"
    using i p by auto
  have l: "unat l + 1 < 2 ^ 32"
    using strong_bound [OF graph p(2)] p(4) by simp
  have scan: "scan_field k (s, q, i, l) =
      (if is_pointer i u then scan_reached k u (store_field q i) (s, q, i, l) else Inr (s, q, i + 1, l))"
    using scan_field_eq im(1) p(3) vu(2) by blast
  show ?thesis
  proof (cases "is_pointer i u")
    case False
    then have "field_ok (seen_objects m0 s) (place s) False i v u"
      using vu(3) by (auto simp: field_ok_def split: if_splits)
    then have "field_done m0 s p i"
      using p(2) im(1) vu by (auto simp: field_done_def)
    then show ?thesis
      using scan False step_over [OF t p(1,3) _ i l] by simp
  next
    case True
    then have pv: "is_pointer i v"
      using vu(3) by (auto simp: field_ok_def split: if_splits)
    note store = store_traced [OF graph _ _ p(2) i [unfolded p(4)] vu(1) pv]
    show ?thesis
    proof (cases "v \<in> seen_objects m0 s")
      case seen: True
      have "u = place s v \<or> u = v"
        using vu(3) pv by (auto simp: field_ok_def)
      then have resolve: "seen_at u s = Inr True" "resolveObject k u s = Inr (place s v, s)"
        using resolve_seen [OF t seen] by auto
      obtain s' where s': "store_field (place s p) i (place s v) s = Inr s'" "traced m0 mv reach s' ?ps" "field_done m0 s' p i"
          "seen_objects m0 s' = seen_objects m0 s" "place s' = place s" "same_trace s s'"
        by (rule store [OF t p(1) seen])
      have stack: "mark_stack s' = mark_stack s"
        by (rule same_trace_stack [OF s'(6)])
      have "scanning m0 mv reach s' (work m0 s' ((q, i, l) # mark_stack s') - 1) (s', q, i + 1, l)"
        using s'(2-5) p stack by (intro step_over [OF _ _ _ _ i l]) simp_all
      moreover have "grown m0 s s'"
        using s'(4,5) by (intro grown_traceI [OF s'(6)]) simp_all
      ultimately have "scanning m0 mv reach s ?n (s', q, i + 1, l)"
        using s'(4) stack by (auto simp: scanning_def work_def elim: grown_trans)
      then show ?thesis
        using scan True resolve s'(1) p(3) by (simp add: scan_reached_def)
    next
      case fresh: False
      then have u: "u = v"
        using vu(3) pv by (auto simp: field_ok_def)
      have "points_to m0 p v"
        using p(2,4) i vu(1) pv by (auto simp: points_to_def)
      then have reach: "v \<in> reach"
        using closed tracedD(10) [OF t] p(1) by blast
      obtain o2 where o2: "m0 v = Some o2"
        using graph p(2,4) i vu(1) pv unfolding graph_ok_def by blast
      note resolve = resolve_outcome [OF graph t o2 reach fresh]
      show ?thesis
      proof (cases "resolveObject k v s")
        case (Inl e)
        then show ?thesis
          using resolve(1) resolve(2) [of k] scan True u by (simp add: scan_reached_def)
      next
        case (Inr r)
        obtain q' s1 where r: "r = (q', s1)"
          by (cases r)
        then have s1: "q' = place s1 v" "traced m0 mv reach s1 ((q', 0, strong o2) # ?ps)"
            "seen_objects m0 s1 = insert v (seen_objects m0 s)" "grown m0 s s1" "mark_stack s1 = mark_stack s"
          using resolve(2) [of k] Inr by auto
        have p1: "p \<in> seen_objects m0 s1" "place s1 p = q" "v \<in> seen_objects m0 s1"
          using s1(3,4) p(1,3) by (auto simp: grown_def)
        obtain s2 where s2: "store_field (place s1 p) i (place s1 v) s1 = Inr s2" "traced m0 mv reach s2 ((q', 0, strong o2) # ?ps)"
            "field_done m0 s2 p i" "seen_objects m0 s2 = seen_objects m0 s1" "place s2 = place s1" "same_trace s1 s2"
          by (rule store [OF s1(2) p1(1,3)])
        have stack: "mark_stack s2 = mark_stack s"
          using same_trace_stack [OF s2(6)] s1(5) by simp
        have "grown m0 s1 s2"
          using s2(4,5) by (intro grown_traceI [OF s2(6)]) simp_all
        then have grown: "grown m0 s s2"
          using s1(4) by (rule grown_trans [rotated])
        let ?s3 = "if i < l then scan_from_to q (i + 1) l s2 else s2"
        have s3: "?s3 = s2\<lparr>mark_stack := mark_stack ?s3\<rparr>" "mark_stack ?s3 = (if i < l then [(q, i + 1, l)] else []) @ mark_stack s"
          using stack by (simp_all add: scan_from_to_def)
        have "traced m0 mv reach s2 ((q', 0, strong o2) # mark_stack ?s3)"
          unfolding s3(2) by (rule advance_range [OF s2(2) _ _ s2(3), where l = l]) (use p1 s2(4,5) in auto)
        then have t3: "traced m0 mv reach ?s3 ((q', 0, strong o2) # mark_stack ?s3)"
          by (subst s3(1)) simp
        have "seen_objects m0 ?s3 = seen_objects m0 s2" "place ?s3 = place s2"
          by (simp_all add: scan_from_to_def)
        then have size: "strong_size_at q' ?s3 = Inr (strong o2)"
          using seen_strong_size [OF graph t3, of v o2] o2 s1(1) s2(4,5) p1(3) by metis
        have g3: "grown m0 s ?s3"
          by (subst s3(1)) (rule grown_trans [OF grown grown_stack])
        have "work m0 ?s3 ((q', 0, strong o2) # mark_stack ?s3) \<le> ?n"
        proof -
          have q: "work m0 ?s3 ps = work m0 s1 ps" for ps
            using s2(4) by (simp add: work_def scan_from_to_def)
          have new: "range_work (q', 0, strong o2) \<le> 2 ^ 32"
            by (rule range_new [OF strong_bound [OF graph o2]])
          have rest: "work m0 s1 (mark_stack ?s3) \<le> work m0 s1 ((q, i, l) # mark_stack s)"
            using range_advance [OF i l, of q] unfolding s3(2) by (simp add: work_def)
          have "work m0 s1 ((q, i, l) # mark_stack s) + (2 ^ 32 + 2) = work m0 s ((q, i, l) # mark_stack s)"
            using graph o2 fresh s1(3) by (intro work_fewer [where v = v]) (auto simp: graph_ok_def)
          then show ?thesis
            using q [of "(q', 0, strong o2) # mark_stack ?s3"] new rest work_more [of m0 s1 "(q', 0, strong o2)" "mark_stack ?s3"] by linarith
        qed
        then have "scanning m0 mv reach s ?n (?s3, q', 0, strong o2)"
          using t3 g3 by (simp add: scanning_def)
        then show ?thesis
          using scan True u resolve(1) Inr r s2(1) p1(2) s1(1) size by (simp add: scan_reached_def Let_def)
      qed
    qed
  qed
qed

section \<open>The loops\<close>

lemma traced_drop:
  assumes t: "traced m0 mv reach s ((q, i, l) # ps)" and "\<not> i \<le> l"
  shows "traced m0 mv reach s ps"
proof (rule advance_traced [OF t])
  show "ranges_ok m0 s ps"
    using tracedD(11) [OF t] by (simp add: ranges_ok_def)
qed (use assms(2) in \<open>auto simp: covers_def\<close>)

lemma scan_range_outcome:
  assumes graph: "graph_ok m0 mv" and closed: "\<And>p v. p \<in> reach \<Longrightarrow> points_to m0 p v \<Longrightarrow> v \<in> reach"
    and t: "traced m0 mv reach s ((q, i, l) # mark_stack s)"
  shows "outcome refusal (\<lambda>s'. traced m0 mv reach s' (mark_stack s') \<and> grown m0 s s' \<and>
      work m0 s' (mark_stack s') < work m0 s ((q, i, l) # mark_stack s)) (scan_range k (s, q, i, l))"
proof -
  let ?n = "work m0 s ((q, i, l) # mark_stack s)"
  let ?left = "\<lambda>(s, q, i, l). work m0 s ((q, i, l) # mark_stack s)"
  have "outcome refusal (\<lambda>c. scanning m0 mv reach s ?n c \<and> \<not> (case c of (s, q, i, l) \<Rightarrow> i \<le> l))
      (while_result (\<lambda>(s, scanned, index, limit). index \<le> limit) (scan_field k) (s, q, i, l))"
  proof (rule while_result_total [OF wf_measure [of ?left]])
    show "scanning m0 mv reach s ?n (s, q, i, l)"
      using t by (simp add: scanning_def)
    fix c
    assume inv: "scanning m0 mv reach s ?n c" and more: "case c of (s, scanned, index, limit) \<Rightarrow> index \<le> limit"
    obtain s1 q1 i1 l1 where c: "c = (s1, q1, i1, l1)"
      by (cases c)
    have t1: "traced m0 mv reach s1 ((q1, i1, l1) # mark_stack s1)" and g1: "grown m0 s s1" and n1: "?left c \<le> ?n" and i1: "i1 \<le> l1"
      using inv more c by (simp_all add: scanning_def)
    have pos: "0 < ?left c"
      by (simp add: c work_def range_work_def)
    have step: "outcome refusal (scanning m0 mv reach s1 (?left c - 1)) (scan_field k c)"
      using scan_step [OF graph closed t1 i1, where k = k] by (simp add: c)
    then show "outcome refusal (\<lambda>c'. scanning m0 mv reach s ?n c' \<and> (c', c) \<in> measure ?left) (scan_field k c)"
    proof (rule outcome_mono)
      fix c'
      assume "scanning m0 mv reach s1 (?left c - 1) c'"
      then show "scanning m0 mv reach s ?n c' \<and> (c', c) \<in> measure ?left"
        using n1 pos grown_trans [OF g1] by (cases c') (auto simp: scanning_def)
    qed
  qed
  then show ?thesis
    unfolding scan_range_def
  proof (rule outcome_bind)
    fix c
    assume c: "scanning m0 mv reach s ?n c \<and> \<not> (case c of (s, q, i, l) \<Rightarrow> i \<le> l)"
    obtain s1 q1 i1 l1 where c1: "c = (s1, q1, i1, l1)"
      by (cases c)
    then have "traced m0 mv reach s1 (mark_stack s1)" "grown m0 s s1" "range_work (q1, i1, l1) + work m0 s1 (mark_stack s1) \<le> ?n"
      using c traced_drop by (auto simp: scanning_def work_more)
    then show "outcome refusal (\<lambda>s'. traced m0 mv reach s' (mark_stack s') \<and> grown m0 s s' \<and> work m0 s' (mark_stack s') < ?n)
        (case c of (s, scanned, index, limit) \<Rightarrow> Inr s)"
      using c1 by (simp add: range_work_def)
  qed
qed

lemma followObjects_outcome:
  assumes graph: "graph_ok m0 mv" and closed: "\<And>p v. p \<in> reach \<Longrightarrow> points_to m0 p v \<Longrightarrow> v \<in> reach"
    and t: "traced m0 mv reach s (mark_stack s)"
  shows "outcome refusal (\<lambda>s'. traced m0 mv reach s' [] \<and> grown m0 s s' \<and> mark_stack s' = []) (followObjects k s)"
proof -
  have "outcome refusal (\<lambda>s'. (traced m0 mv reach s' (mark_stack s') \<and> grown m0 s s') \<and> \<not> mark_stack s' \<noteq> []) (followObjects k s)"
    unfolding followObjects_def
  proof (rule while_result_total [OF wf_measure [of "\<lambda>s. work m0 s (mark_stack s)"]])
    show "traced m0 mv reach s (mark_stack s) \<and> grown m0 s s"
      using t by simp
    fix s1
    assume inv: "traced m0 mv reach s1 (mark_stack s1) \<and> grown m0 s s1" and "mark_stack s1 \<noteq> []"
    then obtain q i l rest where stack: "mark_stack s1 = (q, i, l) # rest"
      by (cases "mark_stack s1") auto
    let ?s = "s1\<lparr>mark_stack := rest\<rparr>"
    have "outcome refusal (\<lambda>s'. traced m0 mv reach s' (mark_stack s') \<and> grown m0 ?s s' \<and>
        work m0 s' (mark_stack s') < work m0 ?s ((q, i, l) # mark_stack ?s)) (scan_range k (?s, q, i, l))"
      by (rule scan_range_outcome [OF graph closed]) (use inv stack in simp_all)
    then have "outcome refusal (\<lambda>s'. (traced m0 mv reach s' (mark_stack s') \<and> grown m0 s s') \<and> (s', s1) \<in> measure (\<lambda>s. work m0 s (mark_stack s))) (scan_range k (?s, q, i, l))"
      by (rule outcome_mono) (use inv grown_trans [OF _ grown_trans [OF grown_stack]] stack in \<open>auto simp: work_def\<close>)
    then show "outcome refusal (\<lambda>s'. (traced m0 mv reach s' (mark_stack s') \<and> grown m0 s s') \<and> (s', s1) \<in> measure (\<lambda>s. work m0 s (mark_stack s))) (scan_range k (pop_range s1))"
      using stack by (simp add: pop_range_def)
  qed
  then show ?thesis
    by (rule outcome_mono) auto
qed

section \<open>Roots\<close>

text \<open>Where a reference leads after the collection.\<close>

definition moved :: "tracer \<Rightarrow> oop \<Rightarrow> oop" where
  "moved s v = (if isSmallInteger v then v else place s v)"

definition extends :: "memory \<Rightarrow> tracer \<Rightarrow> tracer \<Rightarrow> bool" where
  "extends m0 s s' \<longleftrightarrow> seen_objects m0 s \<subseteq> seen_objects m0 s' \<and> (\<forall>p\<in>seen_objects m0 s. place s' p = place s p) \<and>
     pending_stacks s' = pending_stacks s \<and> moving s' = moving s"

lemma extends_refl [simp]: "extends m0 s s"
  by (simp add: extends_def)

lemma extends_trans: "extends m0 a b \<Longrightarrow> extends m0 b c \<Longrightarrow> extends m0 a c"
  by (auto simp: extends_def subset_iff)

lemma grown_extends: "grown m0 s s' \<Longrightarrow> extends m0 s s'"
  using grown_fields [of m0 s s'] by (simp add: grown_def extends_def)

lemma extends_refs [simp]:
  "extends m0 s (s'\<lparr>gced_refs := x\<rparr>) = extends m0 s s'" "extends m0 s (s'\<lparr>mark_stack := y\<rparr>) = extends m0 s s'"
  by (simp_all add: extends_def)

definition root_done :: "memory \<Rightarrow> tracer \<Rightarrow> oop \<Rightarrow> bool" where
  "root_done m0 s v \<longleftrightarrow> isSmallInteger v \<or> v \<in> seen_objects m0 s"

lemma root_done_extends: "root_done m0 s v \<Longrightarrow> extends m0 s s' \<Longrightarrow> root_done m0 s' v \<and> moved s' v = moved s v"
  by (auto simp: root_done_def extends_def moved_def)

lemma scanRoot_outcome:
  assumes graph: "graph_ok m0 mv" and t: "traced m0 mv reach s (mark_stack s)"
    and i: "i < length (gced_refs s)" "gced_refs s ! i = Some v" and v: "isSmallInteger v \<or> v \<in> reach \<and> m0 v \<noteq> None"
  shows "outcome refusal (\<lambda>s'. traced m0 mv reach s' (mark_stack s') \<and> extends m0 s s' \<and> root_done m0 s' v \<and>
      gced_refs s' = (gced_refs s)[i := Some (moved s' v)]) (scanRoot k (RefRoot i) s)"
proof (cases "isSmallInteger v")
  case True
  then show ?thesis
    using i t list_update_id [of "gced_refs s" i] by (simp add: scanRoot_def root_done_def moved_def)
next
  case False
  then obtain obj where obj: "m0 v = Some obj" "v \<in> reach"
    using v by auto
  let ?refs = "(gced_refs s)[i := Some (place s v)]"
  show ?thesis
  proof (cases "v \<in> seen_objects m0 s")
    case seen: True
    have "scanRoot k (RefRoot i) s = Inr (s\<lparr>gced_refs := ?refs\<rparr>)"
      using False i resolve_seen(1,2) [OF t seen] by (simp add: scanRoot_def)
    then show ?thesis
      using t seen False by (simp add: root_done_def moved_def)
  next
    case fresh: False
    note resolve = resolve_outcome [OF graph t obj fresh]
    show ?thesis
    proof (cases "resolveObject k v s")
      case (Inl e)
      then show ?thesis
        using resolve(1) resolve(2) [of k] False i by (simp add: scanRoot_def)
    next
      case (Inr r)
      obtain q s1 where r: "r = (q, s1)"
        by (cases r)
      have s1: "q = place s1 v" "traced m0 mv reach s1 ((q, 0, strong obj) # mark_stack s)"
          "seen_objects m0 s1 = insert v (seen_objects m0 s)" "grown m0 s s1" "mark_stack s1 = mark_stack s"
        using resolve(2) [of k] Inr r by auto
      let ?refs = "(gced_refs s)[i := Some q]"
      let ?s2 = "s1\<lparr>gced_refs := ?refs\<rparr>"
      have refs: "gced_refs s1 = gced_refs s"
        by (rule grown_fields(1) [OF s1(4)])
      have "traced m0 mv reach ?s2 ((q, 0, strong obj) # mark_stack s)"
        using s1(2) by simp
      from seen_strong_size [OF graph this, of v] obj(1) s1(1,3)
      have size: "strong_size_at q ?s2 = Inr (strong obj)"
        by simp
      have "scanRoot k (RefRoot i) s = Inr (?s2\<lparr>mark_stack := (q, 0, strong obj) # mark_stack s\<rparr>)"
        using resolve(1) Inr r False i size s1(5) refs by (simp add: scanRoot_def scan_from_to_def Let_def)
      moreover have "moved (?s2\<lparr>mark_stack := (q, 0, strong obj) # mark_stack s\<rparr>) v = q"
        using False s1(1) by (simp add: moved_def)
      ultimately show ?thesis
        using s1(2,3) grown_extends [OF s1(4)] by (simp add: root_done_def)
    qed
  qed
qed

lemma scan_each_root_Cons:
  "scan_each_root k (r # rs) s = bind_result (scanRoot k r s) (scan_each_root k rs)"
proof -
  have "fold (\<lambda>r acc. bind_result acc (scanRoot k r)) rs (Inl e) = Inl e" for e
    by (induction rs) auto
  then show ?thesis
    by (cases "scanRoot k r s") (simp_all add: scan_each_root_def)
qed

text \<open>The references of the list are relocated one after the other; no other reference changes.\<close>

lemma scan_refs_outcome:
  assumes graph: "graph_ok m0 mv" and t: "traced m0 mv reach s (mark_stack s)"
    and "distinct is" "\<And>i. i \<in> set is \<Longrightarrow> i < length (gced_refs s) \<and> (\<exists>v. gced_refs s ! i = Some v \<and>
        (isSmallInteger v \<or> v \<in> reach \<and> m0 v \<noteq> None))"
  shows "outcome refusal (\<lambda>s'. traced m0 mv reach s' (mark_stack s') \<and> extends m0 s s' \<and>
      length (gced_refs s') = length (gced_refs s) \<and> (\<forall>j. j \<notin> set is \<longrightarrow> gced_refs s' ! j = gced_refs s ! j) \<and>
      (\<forall>i\<in>set is. \<exists>v. gced_refs s ! i = Some v \<and> root_done m0 s' v \<and> gced_refs s' ! i = Some (moved s' v)))
    (scan_each_root k (map RefRoot is) s)"
  using assms(2-4)
proof (induction "is" arbitrary: s)
  case Nil
  then show ?case
    by (simp add: scan_each_root_def)
next
  case (Cons i rest)
  obtain v where v: "i < length (gced_refs s)" "gced_refs s ! i = Some v" "isSmallInteger v \<or> v \<in> reach \<and> m0 v \<noteq> None"
    using Cons.prems(3) [of i] by auto
  have "outcome refusal (\<lambda>s'. traced m0 mv reach s' (mark_stack s') \<and> extends m0 s s' \<and>
      length (gced_refs s') = length (gced_refs s) \<and> (\<forall>j. j \<notin> set (i # rest) \<longrightarrow> gced_refs s' ! j = gced_refs s ! j) \<and>
      (\<forall>i\<in>set (i # rest). \<exists>v. gced_refs s ! i = Some v \<and> root_done m0 s' v \<and> gced_refs s' ! i = Some (moved s' v)))
    (bind_result (scanRoot k (RefRoot i) s) (scan_each_root k (map RefRoot rest)))"
  proof (rule outcome_bind [OF scanRoot_outcome [OF graph Cons.prems(1) v]])
    fix s1
    assume s1: "traced m0 mv reach s1 (mark_stack s1) \<and> extends m0 s s1 \<and> root_done m0 s1 v \<and>
        gced_refs s1 = (gced_refs s)[i := Some (moved s1 v)]"
    have others: "gced_refs s1 ! j = gced_refs s ! j" if "j \<in> set rest" for j
      using Cons.prems(2) s1 that by (cases "i = j") auto
    have "outcome refusal (\<lambda>s'. traced m0 mv reach s' (mark_stack s') \<and> extends m0 s1 s' \<and>
        length (gced_refs s') = length (gced_refs s1) \<and> (\<forall>j. j \<notin> set rest \<longrightarrow> gced_refs s' ! j = gced_refs s1 ! j) \<and>
        (\<forall>i\<in>set rest. \<exists>v. gced_refs s1 ! i = Some v \<and> root_done m0 s' v \<and> gced_refs s' ! i = Some (moved s' v)))
      (scan_each_root k (map RefRoot rest) s1)"
    proof (rule Cons.IH)
      show "j < length (gced_refs s1) \<and> (\<exists>v. gced_refs s1 ! j = Some v \<and> (isSmallInteger v \<or> v \<in> reach \<and> m0 v \<noteq> None))"
        if "j \<in> set rest" for j
        using Cons.prems(3) [of j] others [OF that] s1 that by auto
    qed (use s1 Cons.prems(2) in auto)
    then show "outcome refusal (\<lambda>s'. traced m0 mv reach s' (mark_stack s') \<and> extends m0 s s' \<and>
        length (gced_refs s') = length (gced_refs s) \<and> (\<forall>j. j \<notin> set (i # rest) \<longrightarrow> gced_refs s' ! j = gced_refs s ! j) \<and>
        (\<forall>i\<in>set (i # rest). \<exists>v. gced_refs s ! i = Some v \<and> root_done m0 s' v \<and> gced_refs s' ! i = Some (moved s' v)))
      (scan_each_root k (map RefRoot rest) s1)"
    proof (rule outcome_mono, elim conjE, intro conjI)
      fix s'
      assume s': "traced m0 mv reach s' (mark_stack s')" "extends m0 s1 s'" "length (gced_refs s') = length (gced_refs s1)"
        "\<forall>j. j \<notin> set rest \<longrightarrow> gced_refs s' ! j = gced_refs s1 ! j"
        "\<forall>i\<in>set rest. \<exists>v. gced_refs s1 ! i = Some v \<and> root_done m0 s' v \<and> gced_refs s' ! i = Some (moved s' v)"
      show "traced m0 mv reach s' (mark_stack s')"
        by (rule s'(1))
      show "extends m0 s s'"
        using s1 s'(2) by (blast intro: extends_trans)
      show "length (gced_refs s') = length (gced_refs s)"
        using s1 s'(3) by simp
      show "\<forall>j. j \<notin> set (i # rest) \<longrightarrow> gced_refs s' ! j = gced_refs s ! j"
        using s1 s'(4) by simp
      have "gced_refs s' ! i = Some (moved s1 v)"
        using s1 s'(4) Cons.prems(2) v(1) by simp
      then have "\<exists>v. gced_refs s ! i = Some v \<and> root_done m0 s' v \<and> gced_refs s' ! i = Some (moved s' v)"
        using v(2) root_done_extends [OF _ s'(2)] s1 by auto
      then show "\<forall>i\<in>set (i # rest). \<exists>v. gced_refs s ! i = Some v \<and> root_done m0 s' v \<and> gced_refs s' ! i = Some (moved s' v)"
        using s'(5) others by auto
    qed
  qed
  then show ?case
    by (simp add: scan_each_root_Cons)
qed

lemma followGCedRefs_outcome:
  assumes graph: "graph_ok m0 mv" and t: "traced m0 mv reach s (mark_stack s)"
    and roots: "\<And>v. Some v \<in> set (gced_refs s) \<Longrightarrow> isSmallInteger v \<or> v \<in> reach \<and> m0 v \<noteq> None"
  shows "outcome refusal (\<lambda>s'. traced m0 mv reach s' (mark_stack s') \<and> extends m0 s s' \<and>
      gced_refs s' = map (map_option (moved s')) (gced_refs s) \<and>
      (\<forall>v. Some v \<in> set (gced_refs s) \<longrightarrow> root_done m0 s' v)) (followGCedRefs k s)"
proof -
  let ?is = "filter (\<lambda>i. gced_refs s ! i \<noteq> None) [0..<length (gced_refs s)]"
  have index: "i < length (gced_refs s) \<and> (\<exists>v. gced_refs s ! i = Some v \<and> (isSmallInteger v \<or> v \<in> reach \<and> m0 v \<noteq> None))"
    if "i \<in> set ?is" for i
  proof -
    obtain v where v: "i < length (gced_refs s)" "gced_refs s ! i = Some v"
      using \<open>i \<in> set ?is\<close> by auto
    then have "Some v \<in> set (gced_refs s)"
      by (metis nth_mem)
    then show ?thesis
      using v roots [of v] by blast
  qed
  have "outcome refusal (\<lambda>s'. traced m0 mv reach s' (mark_stack s') \<and> extends m0 s s' \<and>
      length (gced_refs s') = length (gced_refs s) \<and> (\<forall>j. j \<notin> set ?is \<longrightarrow> gced_refs s' ! j = gced_refs s ! j) \<and>
      (\<forall>i\<in>set ?is. \<exists>v. gced_refs s ! i = Some v \<and> root_done m0 s' v \<and> gced_refs s' ! i = Some (moved s' v)))
    (followGCedRefs k s)"
    unfolding followGCedRefs_def ref_roots_def by (rule scan_refs_outcome [OF graph t _ index]) auto
  then show ?thesis
  proof (rule outcome_mono)
    fix s'
    assume 2: "traced m0 mv reach s' (mark_stack s') \<and> extends m0 s s' \<and>
      length (gced_refs s') = length (gced_refs s) \<and> (\<forall>j. j \<notin> set ?is \<longrightarrow> gced_refs s' ! j = gced_refs s ! j) \<and>
      (\<forall>i\<in>set ?is. \<exists>v. gced_refs s ! i = Some v \<and> root_done m0 s' v \<and> gced_refs s' ! i = Some (moved s' v))"
    have "gced_refs s' ! j = map_option (moved s') (gced_refs s ! j)" if "j < length (gced_refs s)" for j
      using 2 that by (cases "gced_refs s ! j") auto
    then have "gced_refs s' = map (map_option (moved s')) (gced_refs s)"
      using 2 by (intro nth_equalityI) auto
    moreover have "root_done m0 s' v" if root: "Some v \<in> set (gced_refs s)" for v
    proof -
      obtain j where "j < length (gced_refs s)" "gced_refs s ! j = Some v"
        using root by (auto simp: in_set_conv_nth)
      then show ?thesis
        using 2 by auto
    qed
    ultimately show "traced m0 mv reach s' (mark_stack s') \<and> extends m0 s s' \<and>
      gced_refs s' = map (map_option (moved s')) (gced_refs s) \<and> (\<forall>v. Some v \<in> set (gced_refs s) \<longrightarrow> root_done m0 s' v)"
      using 2 by blast
  qed
qed

section \<open>The closure\<close>

lemma scanStacks_none: "pending_stacks s = [] \<Longrightarrow> scanStacks k s = Inr s"
  by (simp add: scanStacks_def while_result_unfold)

lemma followClosure_outcome:
  assumes graph: "graph_ok m0 mv" and closed: "\<And>p v. p \<in> reach \<Longrightarrow> points_to m0 p v \<Longrightarrow> v \<in> reach"
    and t: "traced m0 mv reach s (mark_stack s)" and pending: "pending_stacks s = []"
    and roots: "\<And>v. Some v \<in> set (gced_refs s) \<Longrightarrow> isSmallInteger v \<or> v \<in> reach \<and> m0 v \<noteq> None"
  shows "outcome refusal (\<lambda>s'. traced m0 mv reach s' [] \<and> extends m0 s s' \<and> mark_stack s' = [] \<and>
      gced_refs s' = map (map_option (moved s')) (gced_refs s) \<and>
      (\<forall>v. Some v \<in> set (gced_refs s) \<longrightarrow> root_done m0 s' v)) (followClosure k s)"
  unfolding followClosure_def
proof (rule outcome_bind [OF followGCedRefs_outcome [OF graph t roots]])
  let ?more = "\<lambda>s. mark_stack s \<noteq> [] \<or> pending_stacks s \<noteq> []"
  let ?body = "\<lambda>s. bind_result (followObjects k s) (scanStacks k)"
  fix s1
  assume s1: "traced m0 mv reach s1 (mark_stack s1) \<and> extends m0 s s1 \<and>
      gced_refs s1 = map (map_option (moved s1)) (gced_refs s) \<and> (\<forall>v. Some v \<in> set (gced_refs s) \<longrightarrow> root_done m0 s1 v)"
  have none: "pending_stacks s1 = []"
    using s1 pending by (simp add: extends_def)
  have "outcome refusal (\<lambda>s'. traced m0 mv reach s' [] \<and> grown m0 s1 s' \<and> mark_stack s' = []) (while_result ?more ?body s1)"
  proof (cases "mark_stack s1 = []")
    case True
    then show ?thesis
      using s1 none by (simp add: while_result_unfold)
  next
    case False
    have "outcome refusal (\<lambda>s'. traced m0 mv reach s' [] \<and> grown m0 s1 s' \<and> mark_stack s' = [])
        (bind_result (?body s1) (while_result ?more ?body))"
    proof (cases "followObjects k s1")
      case (Inr s2)
      then have s2: "traced m0 mv reach s2 [] \<and> grown m0 s1 s2 \<and> mark_stack s2 = []"
        using followObjects_outcome [OF graph closed, where s = s1 and k = k] s1 by simp
      moreover have "pending_stacks s2 = []"
        using grown_fields(2) [of m0 s1 s2] s2 none by simp
      ultimately show ?thesis
        using Inr by (simp add: scanStacks_none while_result_unfold)
    qed (use followObjects_outcome [OF graph closed, where s = s1 and k = k] s1 in simp)
    then show ?thesis
      using False by (subst while_result_unfold) simp
  qed
  then show "outcome refusal (\<lambda>s'. traced m0 mv reach s' [] \<and> extends m0 s s' \<and> mark_stack s' = [] \<and>
      gced_refs s' = map (map_option (moved s')) (gced_refs s) \<and>
      (\<forall>v. Some v \<in> set (gced_refs s) \<longrightarrow> root_done m0 s' v)) (while_result ?more ?body s1)"
  proof (rule outcome_mono)
    fix s'
    assume s': "traced m0 mv reach s' [] \<and> grown m0 s1 s' \<and> mark_stack s' = []"
    have e: "extends m0 s1 s'"
      using s' grown_extends by blast
    have "map_option (moved s') r = map_option (moved s1) r" if "r \<in> set (gced_refs s)" for r
    proof (cases r)
      case (Some v)
      then have "root_done m0 s1 v"
        using that s1 by blast
      then show ?thesis
        using Some root_done_extends [OF _ e] by simp
    qed simp
    then have "map (map_option (moved s')) (gced_refs s) = map (map_option (moved s1)) (gced_refs s)"
      by simp
    then show "traced m0 mv reach s' [] \<and> extends m0 s s' \<and> mark_stack s' = [] \<and>
      gced_refs s' = map (map_option (moved s')) (gced_refs s) \<and>
      (\<forall>v. Some v \<in> set (gced_refs s) \<longrightarrow> root_done m0 s' v)"
      using s' s1 e root_done_extends [OF _ e] grown_fields(1) [of m0 s1 s'] extends_trans by metis
  qed
qed

end
