(* ===== verification/TraceCorrect.thy ===== *)
theory TraceCorrect
  imports TraceTotal
begin

text \<open>
  What a closure of the collector achieves on a graph without special objects: the objects that the
  registered references reach, and no others, are copied or left in place, one place for each, with
  the pointers of every field leading to the new places.
\<close>

section \<open>The specification\<close>

inductive reachable :: "memory \<Rightarrow> oop option list \<Rightarrow> oop \<Rightarrow> bool" for m0 refs where
  root: "Some v \<in> set refs \<Longrightarrow> \<not> isSmallInteger v \<Longrightarrow> reachable m0 refs v"
| step: "reachable m0 refs p \<Longrightarrow> points_to m0 p v \<Longrightarrow> reachable m0 refs v"

text \<open>The live objects are seen and have a place each, outside the evacuated regions, where an object of the
  same header holds the fields of the original with its pointers moved; all other objects are as before.\<close>

definition relocated :: "memory \<Rightarrow> (oop \<Rightarrow> bool) \<Rightarrow> tracer \<Rightarrow> bool" where
  "relocated m0 live s' \<longleftrightarrow> inj_on (place s') (Collect live) \<and>
     (\<forall>p. live p \<longrightarrow> (\<exists>o0 obj. m0 p = Some o0 \<and> mem s' (place s' p) = Some obj \<and> similar o0 obj \<and> hasBeenSeen obj \<and>
        \<not> moving s' (place s' p) \<and>
        (\<forall>i\<le> strong o0. \<exists>v. field i o0 = Inr v \<and> field i obj = Inr (if is_pointer i v then place s' v else v)))) \<and>
     (\<forall>p. m0 p \<noteq> None \<longrightarrow> \<not> live p \<longrightarrow> mem s' p = m0 p)"

definition closure_ready :: "tracer \<Rightarrow> bool" where
  "closure_ready s \<longleftrightarrow> heap_ok s \<and> targets_ok s \<and> inside s \<and> graph_ok (mem s) (moving s) \<and>
     mark_stack s = [] \<and> pending_stacks s = [] \<and>
     (\<forall>v. Some v \<in> set (gced_refs s) \<longrightarrow> isSmallInteger v \<or> mem s v \<noteq> None)"

lemma traced_image:
  assumes t: "traced m0 mv reach s []" and p: "p \<in> seen_objects m0 s"
  shows "\<exists>o0 obj. m0 p = Some o0 \<and> mem s (place s p) = Some obj \<and> similar o0 obj \<and> hasBeenSeen obj \<and>
    (\<forall>i\<le> strong o0. \<exists>v. field i o0 = Inr v \<and> field i obj = Inr (if is_pointer i v then place s v else v) \<and>
      (is_pointer i v \<longrightarrow> v \<in> seen_objects m0 s))"
proof -
  obtain o0 obj where o0: "m0 p = Some o0" "mem s (place s p) = Some obj" "similar o0 obj" "hasBeenSeen obj"
    "\<forall>i\<le> strong o0. \<exists>v u. field i o0 = Inr v \<and> field i obj = Inr u \<and>
       field_ok (seen_objects m0 s) (place s) (covers [] (place s p) i) i v u"
    by (rule image_okE [OF tracedD(6) [OF t p]])
  have "\<exists>v. field i o0 = Inr v \<and> field i obj = Inr (if is_pointer i v then place s v else v) \<and>
      (is_pointer i v \<longrightarrow> v \<in> seen_objects m0 s)" if bound: "i \<le> strong o0" for i
  proof -
    obtain v u where "field i o0 = Inr v" "field i obj = Inr u" "field_ok (seen_objects m0 s) (place s) (covers [] (place s p) i) i v u"
      using o0(5) bound by blast
    then show ?thesis
      by (auto simp: field_ok_def covers_def split: if_splits)
  qed
  then show ?thesis
    using o0 by blast
qed

lemma traced_all_seen:
  assumes t: "traced m0 mv (Collect (reachable m0 refs)) s []" and roots: "\<And>v. Some v \<in> set refs \<Longrightarrow> root_done m0 s v"
  shows "seen_objects m0 s = Collect (reachable m0 refs)"
proof -
  have "p \<in> seen_objects m0 s" if "reachable m0 refs p" for p
    using that
  proof induction
    case (root v)
    then show ?case
      using roots by (auto simp: root_done_def)
  next
    case (step p v)
    then show ?case
      using traced_image [OF t step.IH] by (auto simp: points_to_def)
  qed
  then show ?thesis
    using tracedD(10) [OF t] by blast
qed

lemma traced_relocated:
  assumes t: "traced m0 mv (Collect (reachable m0 refs)) s []" and roots: "\<And>v. Some v \<in> set refs \<Longrightarrow> root_done m0 s v"
  shows "relocated m0 (reachable m0 refs) s"
proof -
  note seen = traced_all_seen [OF t roots]
  show ?thesis
    unfolding relocated_def
  proof (intro conjI allI impI)
    show "inj_on (place s) (Collect (reachable m0 refs))"
      using tracedD(9) [OF t] seen by simp
  next
    fix p
    assume "reachable m0 refs p"
    then have p: "p \<in> seen_objects m0 s"
      using seen by simp
    then show "\<exists>o0 obj. m0 p = Some o0 \<and> mem s (place s p) = Some obj \<and> similar o0 obj \<and> hasBeenSeen obj \<and>
        \<not> moving s (place s p) \<and>
        (\<forall>i\<le> strong o0. \<exists>v. field i o0 = Inr v \<and> field i obj = Inr (if is_pointer i v then place s v else v))"
      using traced_image [OF t p] tracedD(1) [OF t] tracedD(7) [OF t p] by metis
  next
    fix p
    assume "m0 p \<noteq> None" "\<not> reachable m0 refs p"
    then show "mem s p = m0 p"
      using tracedD(5) [OF t, of p] seen by auto
  qed
qed

text \<open>
  The closure ends, unless the operating system refuses a mapping or the zone is full, with the
  reachable objects relocated: each has one place, distinct objects have distinct places outside the
  evacuated regions, every field and every registered reference leads to the new place of what it
  led to, and all other objects are left alone.
\<close>

lemma closure_outcome:
  assumes "closure_ready s"
  shows "case followClosure k s of
      Inr s' \<Rightarrow> relocated (mem s) (reachable (mem s) (gced_refs s)) s' \<and>
        gced_refs s' = map (map_option (moved s')) (gced_refs s) \<and> mark_stack s' = [] \<and> heap_ok s'
    | Inl e \<Rightarrow> e = mapping_refused \<or> e = zone_full"
proof -
  let ?reach = "Collect (reachable (mem s) (gced_refs s))"
  note ready = assms [unfolded closure_ready_def]
  have none: "seen_objects (mem s) s = {}"
    using ready by (auto simp: graph_ok_def seen_objects_def)
  have "traced (mem s) (moving s) ?reach s (mark_stack s)"
    using ready none by (simp add: traced_def ranges_ok_def)
  then have "outcome refusal (\<lambda>s'. traced (mem s) (moving s) ?reach s' [] \<and> extends (mem s) s s' \<and> mark_stack s' = [] \<and>
      gced_refs s' = map (map_option (moved s')) (gced_refs s) \<and>
      (\<forall>v. Some v \<in> set (gced_refs s) \<longrightarrow> root_done (mem s) s' v)) (followClosure k s)"
    using ready by (intro followClosure_outcome) (auto intro: reachable.intros)
  then show ?thesis
    using traced_relocated tracedD(2) by (auto simp: outcome_def refusal_def split: sum.splits)
qed

end
