(* ===== verification/Evacuation.thy ===== *)
theory Evacuation
  imports TraceCorrect
begin

text \<open>
  The start of a collection: the choice of the regions to evacuate never picks a region that copies
  go to, and leaves a heap that the closure can trace.
\<close>

section \<open>Choosing regions\<close>

text \<open>What a collection leaves in the occupancy: nothing for the empty regions, and the next region counts as full.\<close>

definition occupancy_ok :: "'h gc_heap_scheme \<Rightarrow> bool" where
  "occupancy_ok h \<longleftrightarrow> (\<forall>k<length (zone_spaces h).
     zone_spaces h ! k \<in> set (emptySpaces h) \<or> Some (zone_spaces h ! k) = next_space h \<longrightarrow>
       occupancy h ! k = 0 \<or> evacuation_threshold \<le> occupancy h ! k)"

definition chosen :: "'h gc_heap_scheme \<Rightarrow> bool list \<Rightarrow> bool" where
  "chosen h ev \<longleftrightarrow> length ev = length (occupancy h) \<and>
     (\<forall>k<length ev. ev ! k \<longrightarrow> k < length (zone_spaces h) \<and> 0 < occupancy h ! k \<and>
        occupancy h ! k < evacuation_threshold \<and> Some (zone_spaces h ! k) \<noteq> current_space h)"

text \<open>The heap changes in the flags, the calls to the operating system and the numbers of the occupancy only.\<close>

definition re_counted :: "'h gc_heap_scheme \<Rightarrow> bool list \<Rightarrow> os_call list \<Rightarrow> oop list \<Rightarrow> 'h gc_heap_scheme" where
  "re_counted h ev cs oc = h\<lparr>evacuated := ev, os_calls := cs, occupancy := oc\<rparr>"

lemma re_counted_fields [simp]:
  "occupancy (re_counted h ev cs oc) = oc" "evacuated (re_counted h ev cs oc) = ev" "zone_spaces (re_counted h ev cs oc) = zone_spaces h"
  "current_space (re_counted h ev cs oc) = current_space h" "next_space (re_counted h ev cs oc) = next_space h"
  "gc_spaces (re_counted h ev cs oc) = gc_spaces h" "emptySpaces (re_counted h ev cs oc) = emptySpaces h"
  "zone_base (re_counted h ev cs oc) = zone_base h" "zone_limit (re_counted h ev cs oc) = zone_limit h"
  "gc_heap.more (re_counted h ev cs oc) = gc_heap.more h" "used (re_counted h ev cs oc) = used h"
  "largeSpaces (re_counted h ev cs oc) = largeSpaces h"
  by (simp_all add: re_counted_def used_def)

lemma re_counted_update [simp]:
  "re_counted h ev cs oc\<lparr>occupancy := oc'\<rparr> = re_counted h ev cs oc'"
  "re_counted h ev cs oc\<lparr>evacuated := ev'\<rparr> = re_counted h ev' cs oc"
  "os_call c (re_counted h ev cs oc) = re_counted h ev (cs @ [c]) oc"
  by (simp_all add: re_counted_def os_call_def)

lemma re_counted_ok:
  assumes "length oc = length (occupancy h)"
  shows "heap_ok (re_counted h ev cs oc) = heap_ok h" "regions_ok (re_counted h ev cs oc) = regions_ok h"
  using assms by (simp_all add: re_counted_def heap_ok_def zone_ok_def regions_ok_def region_ok_def outside_ok_def
      mapped_def zone_range_def)

lemma sum_of_spaces_total:
  assumes "\<And>i. i \<in> set (zone_spaces h) \<Longrightarrow> i < length (gc_spaces h)"
  obtains n where "sum_of_spaces f h = Inr n"
proof -
  have "\<exists>acc'. fold (\<lambda>k r. bind_result r (\<lambda>acc. bind_result (space_at (Some (zone_spaces h ! k)) h) (\<lambda>s.
      Inr (add_to_int (f k s) acc)))) ks (Inr acc) = Inr acc'" if "set ks \<subseteq> {..<length (zone_spaces h)}" for ks acc
    using that
  proof (induction ks arbitrary: acc)
    case (Cons k ks)
    then have "zone_spaces h ! k < length (gc_spaces h)"
      using assms by simp
    then show ?case
      using Cons by simp
  qed simp
  from this [of "[0..<length (zone_spaces h)]" 0] obtain acc where "fold (\<lambda>k r. bind_result r (\<lambda>acc.
      bind_result (space_at (Some (zone_spaces h ! k)) h) (\<lambda>s. Inr (add_to_int (f k s) acc)))) [0..<length (zone_spaces h)] (Inr 0) = Inr acc"
    by (auto simp: atLeast0LessThan)
  then show thesis
    using that by (simp add: sum_of_spaces_def)
qed

lemma zone_space_bound: "regions_ok h \<Longrightarrow> i \<in> set (zone_spaces h) \<Longrightarrow> i < length (gc_spaces h)"
  by (metis regionsD)

lemma availableBytes_total:
  assumes "regions_ok h"
  obtains n where "availableBytes h = Inr n"
proof -
  obtain n where "committedBytes h = Inr n"
    unfolding committedBytes_def using sum_of_spaces_total zone_space_bound [OF assms] by metis
  then show thesis
    using that by (simp add: availableBytes_def)
qed

lemma regionCount_eq:
  assumes "regions_ok h" "zone_spaces h \<noteq> []"
  shows "unat (regionCount h) = length (zone_spaces h)"
proof -
  obtain m where m: "length (zone_spaces h) = Suc m"
    using assms(2) by (cases "length (zone_spaces h)") auto
  have count: "m < length (occupancy h)" and free: "unat (zone_nextFree h) = unat (zone_base h) + Suc m * region_bytes"
    using assms m by (auto simp: regions_ok_def)
  have "zone_nextFree h \<noteq> 0"
    using free region_numerals(4) by (auto simp: unat_eq_0 [symmetric])
  then have last: "unat (zone_nextFree h - 1) = unat (zone_base h) + m * region_bytes + (region_bytes - 1)"
    using free region_numerals(4) by (simp add: unat_minus_one)
  have "region_bytes - 1 < region_bytes"
    using region_numerals(4) by simp
  note index = region_index(1,2) [OF assms(1) count last this]
  have "Suc m * 1 \<le> Suc m * region_bytes"
    using region_numerals(4) by (intro mult_le_mono) auto
  then have "Suc m \<le> unat (zone_nextFree h)"
    unfolding free by (intro trans_le_add2) simp
  then have "Suc m < 2 ^ 64"
    using unat_less_64 [of "zone_nextFree h"] by simp
  then show ?thesis
    using index m by (simp add: regionCount_def unat_word_ariths)
qed

section \<open>Every step of the choice\<close>

lemma evacuation_step_ok:
  assumes regions: "regions_ok h" and ev: "chosen h ev" and i: "i < length (zone_spaces h)"
  obtains head' ev' cs' where "evacuation_step i (head, re_counted h ev cs (occupancy h)) = Inr (head', re_counted h ev' cs' (occupancy h))"
    "chosen h ev'"
proof -
  have n: "i < length (occupancy h)" and space: "zone_spaces h ! i < length (gc_spaces h)"
    using regions i zone_space_bound [OF regions] by (auto simp: regions_ok_def)
  have more: "chosen h (ev[i := True])" if "0 < occupancy h ! i" "occupancy h ! i < evacuation_threshold" "Some (zone_spaces h ! i) \<noteq> current_space h"
    using ev that i n by (auto simp: chosen_def nth_list_update split: if_splits)
  let ?s = "gc_spaces h ! (zone_spaces h ! i)"
  let ?taken = "0 < occupancy h ! i \<and> occupancy h ! i < evacuation_threshold \<and> Some (zone_spaces h ! i) \<noteq> current_space h \<and>
      usedSize ?s < head"
  have step: "evacuation_step i (head, re_counted h ev cs (occupancy h)) = Inr (if ?taken
      then (head - usedSize ?s, re_counted h (ev[i := True]) (cs @ [Commit (space_base ?s + reservedSize ?s) (reservedSize ?s)]) (occupancy h))
      else (head, re_counted h ev cs (occupancy h)))"
    using n i space by (auto simp: evacuation_step_def Let_def)
  show thesis
  proof (cases ?taken)
    case True
    then show thesis
      using step more that [of _ "ev[i := True]"] by simp
  next
    case False
    then show thesis
      using step ev by (intro that [of head ev cs]) (simp_all only: if_False)
  qed
qed

lemma evacuation_steps_ok:
  assumes regions: "regions_ok h" and "chosen h ev" "set is \<subseteq> {..<length (zone_spaces h)}"
  shows "\<exists>head' ev' cs'. fold (\<lambda>i r. bind_result r (evacuation_step i)) is (Inr (head, re_counted h ev cs (occupancy h))) =
    Inr (head', re_counted h ev' cs' (occupancy h)) \<and> chosen h ev'"
  using assms(2,3)
proof (induction "is" arbitrary: head ev cs)
  case (Cons i rest)
  obtain head' ev' cs' where "evacuation_step i (head, re_counted h ev cs (occupancy h)) = Inr (head', re_counted h ev' cs' (occupancy h))"
      "chosen h ev'"
    by (rule evacuation_step_ok [OF regions Cons.prems(1)]) (use Cons.prems(2) in auto)
  then show ?case
    using Cons by simp
qed auto

lemma re_counted_init: "h\<lparr>evacuated := ev\<rparr> = re_counted h ev (os_calls h) (occupancy h)"
  by (simp add: re_counted_def)

lemma resetOccupancy_ok:
  assumes "heap_ok h"
  obtains oc where "resetOccupancy h = Inr (h\<lparr>occupancy := oc\<rparr>)" "length oc = length (occupancy h)"
proof -
  have zone: "zone_ok h" and regions: "regions_ok h"
    using assms by (simp_all add: heap_ok_def zone_ok_def)
  obtain c n where cn: "current_space h = Some c" "next_space h = Some n" "c \<in> set (zone_spaces h)" "n \<in> set (zone_spaces h)"
    using zone by (auto simp: zone_ok_def)
  let ?h1 = "h\<lparr>occupancy := map (\<lambda>_. 0) (occupancy h)\<rparr>"
  have "regions_ok ?h1"
    using regions regions_cong [of ?h1 h] by simp
  then obtain k where k: "markAsFull (Some c) ?h1 = Inr (?h1\<lparr>occupancy := (occupancy ?h1)[k := SPACE_SIZE]\<rparr>)"
    using markAsFull_ok [of ?h1 c] cn(3) by auto
  let ?h2 = "h\<lparr>occupancy := (map (\<lambda>_. 0) (occupancy h))[k := SPACE_SIZE]\<rparr>"
  have "regions_ok ?h2"
    using regions regions_cong [of ?h2 h] by simp
  then obtain j where "markAsFull (Some n) ?h2 = Inr (?h2\<lparr>occupancy := (occupancy ?h2)[j := SPACE_SIZE]\<rparr>)"
    using markAsFull_ok [of ?h2 n] cn(4) by auto
  then show thesis
    using that [of "(map (\<lambda>_. 0) (occupancy h))[k := SPACE_SIZE, j := SPACE_SIZE]"] k cn(1,2) by (simp add: resetOccupancy_def)
qed

lemma chosen_targets:
  assumes regions: "regions_ok h" and occ: "occupancy_ok h" and ev: "chosen h ev" and len: "length oc = length (occupancy h)"
  shows "targets_ok (re_counted h ev cs oc)"
  unfolding targets_ok_def
proof (intro conjI allI impI)
  show "length (evacuated (re_counted h ev cs oc)) = length (occupancy (re_counted h ev cs oc))"
    using ev len by (simp add: chosen_def)
  fix k
  assume "k < length (occupancy (re_counted h ev cs oc))" and "evacuated (re_counted h ev cs oc) ! k"
  then have k: "k < length (zone_spaces h)" "0 < occupancy h ! k" "occupancy h ! k < evacuation_threshold"
      "Some (zone_spaces h ! k) \<noteq> current_space h"
    using ev len by (auto simp: chosen_def)
  then have "zone_spaces h ! k \<notin> set (emptySpaces h)" "Some (zone_spaces h ! k) \<noteq> next_space h"
    using occ unfolding occupancy_ok_def by (auto simp: leD)
  then show "k < length (zone_spaces (re_counted h ev cs oc))"
      "zone_spaces (re_counted h ev cs oc) ! k \<notin> set (emptySpaces (re_counted h ev cs oc))"
      "Some (zone_spaces (re_counted h ev cs oc) ! k) \<noteq> current_space (re_counted h ev cs oc)"
      "Some (zone_spaces (re_counted h ev cs oc) ! k) \<noteq> next_space (re_counted h ev cs oc)"
    using k by simp_all
qed

lemma determineEvacuatedSpaces_ok:
  assumes ok: "heap_ok h" and occ: "occupancy_ok h" and none: "evacuated h = []"
  obtains ev cs oc where "determineEvacuatedSpaces h = Inr (re_counted h ev cs oc)" "chosen h ev" "length oc = length (occupancy h)"
    "heap_ok (re_counted h ev cs oc)" "targets_ok (re_counted h ev cs oc)"
proof -
  have regions: "regions_ok h" and spaces: "zone_spaces h \<noteq> []"
    using ok by (auto simp: heap_ok_def zone_ok_def)
  obtain available where available: "availableBytes h = Inr available"
    by (rule availableBytes_total [OF regions])
  let ?flags = "take (length (occupancy h)) (evacuated h @ replicate (length (occupancy h)) False)"
  have flags: "?flags = replicate (length (occupancy h)) False"
    using none by simp
  have "chosen h ?flags"
    unfolding flags by (simp add: chosen_def)
  then obtain head' ev cs where steps: "fold (\<lambda>i r. bind_result r (evacuation_step i)) [0..<unat (regionCount h)]
      (Inr (available * 9 div 10, re_counted h ?flags (os_calls h) (occupancy h))) = Inr (head', re_counted h ev cs (occupancy h))"
      "chosen h ev"
    using evacuation_steps_ok [OF regions, of ?flags "[0..<unat (regionCount h)]"] regionCount_eq [OF regions spaces]
    by (metis atLeast0LessThan atLeastLessThan_upt order_refl)
  have "heap_ok (re_counted h ev cs (occupancy h))"
    using ok re_counted_ok(1) by blast
  then obtain oc where oc: "resetOccupancy (re_counted h ev cs (occupancy h)) = Inr (re_counted h ev cs oc)" "length oc = length (occupancy h)"
    using resetOccupancy_ok by (metis re_counted_update(1) re_counted_fields(1))
  have "determineEvacuatedSpaces h = Inr (re_counted h ev cs oc)"
    using available steps(1) oc(1) by (simp add: determineEvacuatedSpaces_def Let_def re_counted_init)
  then show thesis
    using that steps(2) oc(2) re_counted_ok(1) [OF oc(2)] ok chosen_targets [OF regions occ steps(2) oc(2)] by blast
qed

section \<open>From the start of a collection to its closure\<close>

text \<open>
  Between collections no object is marked; the zone lies above the address space of the behaviors,
  which are therefore never evacuated.
\<close>

definition collection_ready :: "tracer \<Rightarrow> bool" where
  "collection_ready s \<longleftrightarrow> heap_ok s \<and> occupancy_ok s \<and> evacuated s = [] \<and> inside s \<and> 2 ^ 32 \<le> unat (zone_base s) \<and>
     finite (dom (mem s)) \<and> mark_stack s = [] \<and>
     (\<forall>p obj. mem s p = Some obj \<longrightarrow> fits_header obj \<and> \<not> hasBeenSeen obj \<and> \<not> isSpecial obj \<and>
        (\<forall>i\<le> strong obj. \<forall>v. field i obj = Inr v \<longrightarrow> is_pointer i v \<longrightarrow> mem s v \<noteq> None)) \<and>
     (\<forall>v. Some v \<in> set (gced_refs s) \<longrightarrow> isSmallInteger v \<or> mem s v \<noteq> None)"

lemma behavior_still: "2 ^ 32 \<le> unat (zone_base h) \<Longrightarrow> \<not> moving h (behavior obj)"
proof -
  assume base: "2 ^ 32 \<le> unat (zone_base h)"
  have "unat (behavior obj) < 2 ^ 32"
    using unat_less_32 [of "header_behavior obj"] by (simp add: behavior_def BEHAVIOR_ADDRESS_SPACE_def unat_ucast_64)
  then show ?thesis
    using base by (simp add: moving_def word_le_nat_alt)
qed

lemma re_counted_tracer [simp]:
  "mem (re_counted s ev cs oc) = mem s" "gced_refs (re_counted s ev cs oc) = gced_refs s"
  "mark_stack (re_counted s ev cs oc) = mark_stack s" "inside (re_counted s ev cs oc) = inside s"
  by (simp_all add: re_counted_def inside_def used_def)

lemma initializeLocals_ready:
  assumes "collection_ready s"
  obtains s' where "initializeLocals s = Inr s'" "closure_ready s'" "mem s' = mem s" "gced_refs s' = gced_refs s"
proof -
  note ready = assms [unfolded collection_ready_def]
  obtain ev cs oc where d: "determineEvacuatedSpaces s = Inr (re_counted s ev cs oc)" "heap_ok (re_counted s ev cs oc)"
      "targets_ok (re_counted s ev cs oc)"
    using determineEvacuatedSpaces_ok [of s] ready by metis
  let ?s1 = "re_counted s ev cs oc"
  let ?s = "?s1\<lparr>largeSize_seen := of_nat (length (largeSpaces ?s1)), weakContainers := [], uncheckedEphemerons := [],
       unreachedEphemerons := [], rescuedEphemerons := [], pending_stacks := []\<rparr>"
  have same: "heap_ok ?s = heap_ok ?s1" "targets_ok ?s = targets_ok ?s1" "inside ?s = inside ?s1" "moving ?s = moving ?s1"
    by (simp_all add: heap_ok_def zone_ok_def regions_ok_def region_ok_def outside_ok_def mapped_def zone_range_def
        used_def targets_ok_def inside_def moving_def fun_eq_iff)
  have "\<not> moving ?s1 (behavior obj)" for obj
    using behavior_still [of ?s1 obj] ready by simp
  then have "graph_ok (mem s) (moving ?s)"
    using ready unfolding graph_ok_def same by blast
  then have "closure_ready ?s"
    using ready d(2,3) same by (simp add: closure_ready_def)
  moreover have "initializeLocals s = Inr ?s"
    using d(1) by (simp add: initializeLocals_def)
  ultimately show thesis
    using that [of ?s] by simp
qed

text \<open>
  C4: From the start of a collection, whichever regions it chooses to evacuate, the closure relocates
  the reachable objects or ends with a refusal of the operating system or a full zone: it never ends
  in an assertion or in undefined behaviour and always ends.
\<close>

theorem collection_relocates:
  assumes "collection_ready s"
  shows "case bind_result (initializeLocals s) (followClosure k) of
      Inr s' \<Rightarrow> relocated (mem s) (reachable (mem s) (gced_refs s)) s' \<and>
        gced_refs s' = map (map_option (moved s')) (gced_refs s) \<and> heap_ok s'
    | Inl e \<Rightarrow> e = mapping_refused \<or> e = zone_full"
proof -
  obtain s1 where s1: "initializeLocals s = Inr s1" "closure_ready s1" "mem s1 = mem s" "gced_refs s1 = gced_refs s"
    by (rule initializeLocals_ready [OF assms])
  then show ?thesis
    using closure_outcome [OF s1(2), of k] by (cases "followClosure k s1") simp_all
qed

section \<open>An example\<close>

text \<open>
  Three regions of which the first has little in use: it holds two objects that point to each other
  and a third one that nothing points to; their class lies in a space below the zone.
\<close>

definition example_object :: "oop \<Rightarrow> heap_object" where
  "example_object v = \<lparr>header_hash = 0, header_size = 1, header_flags = 0x84, header_behavior = 0x100008,
     large_header = None, body = le_bytes 8 v\<rparr>"

definition example_space :: "oop \<Rightarrow> oop \<Rightarrow> oop \<Rightarrow> gc_space" where
  "example_space b n l = \<lparr>space_base = b, space_next = n, softLimit = l, committedLimit = l, reservedLimit = l\<rparr>"

definition example_tracer :: tracer where
  "example_tracer = \<lparr>page_size = 0x1000, accepts = accepts_free, os_nextFree = 0x100200000, os_limit = 0x100000000,
     mappings = [(0x100000000, 0x200000), (0x100000, 0x100000)], os_calls = [],
     gc_spaces = [example_space 0x100000000 0x100000030 0x100040000, example_space 0x100080000 0x100080000 0x1000C0000,
       example_space 0x100100000 0x100100000 0x100140000, example_space 0x100000 0x100010 0x200000],
     heap_spaces = [3, 0, 1, 2], largeSpaces = [], eden = Some 3, zone_base = 0x100000000, zone_nextFree = 0x100180000,
     zone_limit = 0x100200000, current_space = Some 1, next_space = Some 2, zone_spaces = [0, 1, 2], emptySpaces = [],
     occupancy = [0x40, 0x40000, 0x40000, 0], atGCSafepoint = True, atGCUnsafepoint = False, gcNeeded = False, countdown = 0,
     evacuated = [], largeSize_seen = 0,
     mem = [0x100000008 \<mapsto> example_object 0x100000018, 0x100000018 \<mapsto> example_object 0x100000008,
       0x100000028 \<mapsto> example_object 0x100000018, 0x100008 \<mapsto> example_object 0x100008],
     native_words = (\<lambda>_. None), mark_stack = [], weakContainers = [], uncheckedEphemerons = [], unreachedEphemerons = [],
     rescuedEphemerons = [], pending_stacks = [], gced_refs = [None, Some 0x100000008, Some 7], root_R = 0, root_S = 0,
     root_E = 0, root_M = 0, live_stack = 0, live_sp = 0, live_bp = 0, tombstone = 0\<rparr>"

lemma example_flags:
  "isSmall (example_object v)" "\<not> isBytes (example_object v)" "\<not> isSpecial (example_object v)" "\<not> hasBeenSeen (example_object v)"
  by (simp_all add: example_object_def testFlags_def flag_mask.simps isSmall_def isBytes_def isSpecial_def hasBeenSeen_def)

lemma example_sizes:
  "object_size (example_object v) = Inr 1" "strong (example_object v) = 1" "length (body (example_object v)) = 8"
  "headerSizeInBytes (example_object v) = 8" "fits_header (example_object v)" "behavior (example_object v) = 0x100008"
proof -
  show n: "object_size (example_object v) = Inr 1"
    using example_flags(1) by (simp add: object_size_def) (simp add: example_object_def)
  show l: "length (body (example_object v)) = 8"
    by (simp add: example_object_def)
  show "strong (example_object v) = 1" "headerSizeInBytes (example_object v) = 8" "fits_header (example_object v)"
    using n l example_flags
    by (simp_all add: strong_def strongPointersSize_def headerSizeInBytes_def fits_header_def well_formed_def body_length_def)
  show "behavior (example_object v) = 0x100008"
    by (simp add: behavior_def example_object_def BEHAVIOR_ADDRESS_SPACE_def)
qed

lemma example_slot: "field 1 (example_object v) = Inr v"
proof -
  have "body (example_object v) = le_bytes 8 v"
    by (simp add: example_object_def)
  then show ?thesis
    using unat_less_64 [of v] example_flags example_sizes(1)
    by (simp add: field_def slotAt_def slot_def slot_access_def peek_bytes_def isPointers_def le_value_le_bytes)
qed

lemma one_or_zero: "(i :: 32 word) \<le> 1 \<Longrightarrow> i = 0 \<or> i = 1"
  by unat_arith

lemma example_fields:
  "gc_spaces example_tracer = [example_space 0x100000000 0x100000030 0x100040000, example_space 0x100080000 0x100080000 0x1000C0000,
       example_space 0x100100000 0x100100000 0x100140000, example_space 0x100000 0x100010 0x200000]"
  "zone_base example_tracer = 0x100000000" "zone_limit example_tracer = 0x100200000" "zone_nextFree example_tracer = 0x100180000"
  "zone_spaces example_tracer = [0, 1, 2]" "emptySpaces example_tracer = []" "occupancy example_tracer = [0x40, 0x40000, 0x40000, 0]"
  "current_space example_tracer = Some 1" "next_space example_tracer = Some 2" "evacuated example_tracer = []"
  "page_size example_tracer = 2 ^ 12" "mappings example_tracer = [(0x100000000, 0x200000), (0x100000, 0x100000)]"
  "accepts example_tracer = accepts_free" "os_nextFree example_tracer = 0x100200000" "os_limit example_tracer = 0x100000000"
  "mark_stack example_tracer = []" "gced_refs example_tracer = [None, Some 0x100000008, Some 7]"
  by (simp_all add: example_tracer_def)

lemma less_three: "(k :: nat) < 3 \<Longrightarrow> k = 0 \<or> k = 1 \<or> k = 2"
  by auto

lemma example_regions: "regions_ok example_tracer"
proof -
  have "region_ok k example_tracer (gc_spaces example_tracer ! k)" if "k < 3" for k
    using less_three [OF that] by (auto simp: region_ok_def example_fields example_space_def region_numerals)
  moreover have "[0, 1, 2 :: nat] ! k = k" if "k < 3" for k
    using less_three [OF that] by auto
  ultimately show ?thesis
    unfolding regions_ok_def by (auto simp: example_fields region_numerals intro: exI [of _ 12])
qed

lemma example_outside: "outside_ok example_tracer"
proof -
  have "i = 3" if "i < length (gc_spaces example_tracer)" "i \<notin> set (zone_spaces example_tracer)" for i
    using that by (auto simp: example_fields)
  moreover have "space_ok (gc_spaces example_tracer ! 3)"
    by (simp add: example_fields example_space_def space_ok_def)
  moreover have "span (gc_spaces example_tracer ! 3) \<subseteq> mapped example_tracer - zone_range example_tracer"
    by (auto simp: span_def mapped_def mapped_range_def zone_range_def example_fields example_space_def)
  ultimately show ?thesis
    unfolding outside_ok_def by blast
qed

lemma example_heap: "heap_ok example_tracer" "occupancy_ok example_tracer"
proof -
  have "zone_ok example_tracer"
    using example_regions by (simp add: zone_ok_def example_fields opened_def example_space_def)
  moreover have "zone_range example_tracer \<subseteq> mapped example_tracer"
    by (auto simp: zone_range_def mapped_def mapped_range_def example_fields)
  ultimately show "heap_ok example_tracer"
    using accepts_free_honest example_outside by (simp add: heap_ok_def example_fields)
  show "occupancy_ok example_tracer"
    unfolding occupancy_ok_def
  proof (intro allI impI)
    fix k
    assume "k < length (zone_spaces example_tracer)" and
      target: "zone_spaces example_tracer ! k \<in> set (emptySpaces example_tracer) \<or> Some (zone_spaces example_tracer ! k) = next_space example_tracer"
    then have "k < 3"
      by (simp add: example_fields)
    then have "k = 2"
      using less_three [of k] target by (auto simp: example_fields)
    then show "occupancy example_tracer ! k = 0 \<or> evacuation_threshold \<le> occupancy example_tracer ! k"
      by (simp add: example_fields evacuation_threshold_def)
  qed
qed

lemma example_objects:
  assumes "mem example_tracer p = Some obj"
  obtains v where "obj = example_object v" "p \<in> {0x100000008, 0x100000018, 0x100000028, 0x100008}"
    "v \<in> {0x100000008, 0x100000018, 0x100008}"
  using assms that by (auto simp: example_tracer_def split: if_splits)

lemma example_mem: "v \<in> {0x100000008, 0x100000018, 0x100008} \<Longrightarrow> mem example_tracer v \<noteq> None"
  by (auto simp: example_tracer_def)

lemma example_closed:
  assumes "mem example_tracer p = Some obj" "i \<le> strong obj" "field i obj = Inr v"
  shows "mem example_tracer v \<noteq> None"
proof -
  obtain w where w: "obj = example_object w" "w \<in> {0x100000008, 0x100000018, 0x100008}"
    using assms(1) by (metis example_objects)
  then have "i = 0 \<or> i = 1"
    using assms(2) example_sizes(2) one_or_zero by simp
  then have "v \<in> {0x100000008, 0x100000018, 0x100008}"
    using assms(3) w example_slot example_sizes(6) by (auto simp: field_def)
  then show ?thesis
    by (rule example_mem)
qed

lemma example_inside: "inside example_tracer"
  unfolding inside_def
proof (intro allI impI)
  fix p obj
  assume "mem example_tracer p = Some obj"
  then obtain v where p: "obj = example_object v" "p \<in> {0x100000008, 0x100000018, 0x100000028, 0x100008}"
    by (rule example_objects)
  have "{..<length (gc_spaces example_tracer)} = {0, 1, 2, 3}"
    by (auto simp: example_fields)
  then have "used example_tracer = {0x100000000..<0x100000030} \<union> {0x100000..<0x100010}"
    by (simp add: used_def taken_def between_def example_fields example_space_def)
  then show "unat (headerSizeInBytes obj) \<le> unat p \<and> block_of p obj \<subseteq> used example_tracer"
    using p(2) unfolding block_of_def p(1) example_sizes by (elim insertE) (simp_all add: subset_iff)
qed

lemma example_ready: "collection_ready example_tracer"
  unfolding collection_ready_def
proof (intro conjI allI impI)
  show "finite (dom (mem example_tracer))"
    by (simp add: example_tracer_def)
  show "isSmallInteger v \<or> mem example_tracer v \<noteq> None" if "Some v \<in> set (gced_refs example_tracer)" for v
    using that example_mem by (auto simp: example_fields isSmallInteger_def)
qed (use example_heap example_inside example_closed in
    \<open>auto elim!: example_objects simp: example_fields example_sizes example_flags\<close>)

lemma collection_relocates_witness:
  "case bind_result (initializeLocals example_tracer) (followClosure example_kernel) of
      Inr s' \<Rightarrow> relocated (mem example_tracer) (reachable (mem example_tracer) (gced_refs example_tracer)) s' \<and>
        gced_refs s' = map (map_option (moved s')) (gced_refs example_tracer) \<and> heap_ok s'
    | Inl e \<Rightarrow> e = mapping_refused \<or> e = zone_full"
  by (rule collection_relocates [OF example_ready])

end
