(* ===== verification/CollectorFaults.thy ===== *)
theory CollectorFaults
  imports Evacuation
begin

text \<open>
  Where the collector goes wrong: the update of weak containers fails an assertion, and the sweep of
  large spaces writes behind its vector.
\<close>

section \<open>Weak containers\<close>

lemma slotAt_zero: "object_size obj = Inr n \<Longrightarrow> slotAt 0 obj = Inl AssertionFailed"
  using word_order.extremum [of n] by (simp add: slotAt_def slot_def slot_access_def assert_that_def leD)

text \<open>
  C39: The update of a weak container that is not empty fails the assertion of the accessor: its loop
  asks for slot 0, and slots count from 1.
\<close>

theorem weak_update_fails:
  assumes "mem s w = Some obj" "object_size obj = Inr n" "0 < n"
  shows "updateWeakReferencesOf w s = Inl AssertionFailed"
  using assms slotAt_zero [OF assms(2)]
  by (simp add: updateWeakReferencesOf_def while_result_unfold size_at_def object_at_def updateWeak_def)

lemma weak_update_fails_witness: "updateWeakReferencesOf 0x100000008 example_tracer = Inl AssertionFailed"
proof (rule weak_update_fails)
  show "mem example_tracer 0x100000008 = Some (example_object 0x100000018)"
    by (simp add: example_tracer_def)
  show "object_size (example_object 0x100000018) = Inr 1"
    by (rule example_sizes(1))
qed (simp add: word_less_nat_alt)

section \<open>The sweep\<close>

lemma large_fields [simp]:
  "space_at x (s\<lparr>largeSpaces := ls\<rparr>) = space_at x s" "seen_at p (s\<lparr>largeSpaces := ls\<rparr>) = seen_at p s"
  by (simp_all add: space_at_def seen_at_def split: option.split)

lemma copies_nth [simp]: "(x # replicate n x @ ys) ! n = x" "(x # replicate n x) ! n = x"
  by (simp_all add: nth_append nth_Cons')

lemma sweep_prefix:
  assumes "largeSpaces s = x # xs" "i \<le> length xs" "space_at x s = Inr sp" "firstObject sp (mem s) = Inr p" "seen_at p s = Inr True"
  shows "fold (\<lambda>i acc. bind_result acc (sweep_step i)) [0..<i] (Inr (0, s)) =
    Inr (i, s\<lparr>largeSpaces := replicate (Suc i) x @ drop i xs\<rparr>)"
  using assms(2)
proof (induction i)
  case 0
  then show ?case
    using assms(1) by simp
next
  case (Suc i)
  let ?s = "s\<lparr>largeSpaces := replicate (Suc i) x @ drop i xs\<rparr>"
  have "drop i xs = xs ! i # drop (Suc i) xs"
    using Suc.prems by (simp add: Cons_nth_drop_Suc)
  then show ?case
    using Suc assms(3-5) by (simp add: sweep_step_def list_update_append replicate_append_same)
qed

text \<open>
  C40: When no large space was added since the collection began and the object of the first one is
  in use, the sweep writes behind the end of the vector of large spaces.
\<close>

theorem sweep_overruns:
  assumes "largeSpaces s = x # xs" "unat (largeSize_seen s) = length (largeSpaces s)"
    and "space_at x s = Inr sp" "firstObject sp (mem s) = Inr p" "seen_at p s = Inr True"
  shows "sweepLargeSpaces s = Inl Undefined"
proof -
  let ?s = "s\<lparr>largeSpaces := replicate (Suc (length xs)) x\<rparr>"
  have "sweep_step (length xs) (length xs, ?s) = Inl Undefined"
    using assms(3-5) by (simp add: sweep_step_def)
  then show ?thesis
    using sweep_prefix [OF assms(1) order_refl assms(3-5)] assms(1,2) by (simp add: sweepLargeSpaces_def)
qed

text \<open>A large array in use, in a space of its own.\<close>

definition example_large :: tracer where
  "example_large = example_tracer\<lparr>largeSpaces := [Some 0], largeSize_seen := 1,
     gc_spaces := [allocatedAt_limit 0x2000000 0x2020010 False],
     mem := [0x2000010 \<mapsto> \<lparr>header_hash = 0, header_size = 0, header_flags = 0x20, header_behavior = 0x100008,
       large_header = Some 0x4000, body = replicate 0x20000 0\<rparr>]\<rparr>"

lemma sweep_overruns_witness: "sweepLargeSpaces example_large = Inl Undefined"
proof (rule sweep_overruns)
  show "largeSpaces example_large = Some 0 # []" "unat (largeSize_seen example_large) = length (largeSpaces example_large)"
    by (simp_all add: example_large_def)
  show "space_at (Some 0) example_large = Inr (allocatedAt_limit 0x2000000 0x2020010 False)"
    by (simp add: example_large_def)
  have "isLarge obj" if "header_flags obj = 0x20" for obj
    using that by (simp add: isLarge_def isSmall_def testFlags_def flag_mask.simps)
  then show "firstObject (allocatedAt_limit 0x2000000 0x2020010 False) (mem example_large) = Inr 0x2000010"
    by (simp add: firstObject_def header_object_def allocatedAt_limit_def example_large_def)
  show "seen_at 0x2000010 example_large = Inr True"
    by (simp add: seen_at_def object_at_def example_large_def hasBeenSeen_def testFlags_def flag_mask.simps)
qed

end
