(* ===== verification/Spec2Isabelle.thy ===== *)
theory Spec2Isabelle
  imports Underprimitives CompiledMethod TreecodeRoundTrip LinearizerTotal EvaluationContext ParserErrors Compilation MethodLookup ObjectPrimitives CollectorFaults
begin

text \<open>
  A verification development for the C++ runtime of Egg, a Smalltalk (\<open>src/runtime/cpp\<close>).

  The runtime compiles the source of a method to treecodes, decodes the treecodes into a tree,
  linearizes the tree into operations and runs these on a stack.  Objects live in the regions of a
  zone and are collected by tracing.  The parts and the theories that model them, in the order of
  that pipeline:

  \<^item> \<open>Prelude\<close>: faults as values (\<open>'a result\<close>), \<open>outcome\<close>, loops of fallible code.
  \<^item> \<open>SmallIntegers\<close>, \<open>Underprimitives\<close>: tagged integers (\<open>SmallInteger.*\<close>, \<open>Object.h\<close>), their
    primitives in \<open>Evaluator.cpp\<close> and the generator of identity hashes (\<open>Runtime.h\<close>).
  \<^item> \<open>EggString\<close>, \<open>Literals\<close>: \<open>Utils/egg_string.h\<close> with UTF-8, \<open>Compiler/LiteralValue.h\<close> with its
    large integers.
  \<^item> \<open>Scanner\<close>, \<open>Parser\<close> and their properties in \<open>ScannerProgress\<close>, \<open>ScannerText\<close>,
    \<open>ParserLiterals\<close>, \<open>ParserTotal\<close>, \<open>ParserRoundTrip\<close>, \<open>MethodRoundTrip\<close>, \<open>ParserErrors\<close>
    (\<open>SSmalltalkScanner.cpp\<close>, \<open>SSmalltalkParser.cpp\<close>): the parser terminates on every source and
    inverts a printer of methods, literals included.
  \<^item> \<open>Ast\<close>, \<open>Scopes\<close>, \<open>MessageInliner\<close>, \<open>SemanticVisitor\<close> with \<open>LexicalScoping\<close>,
    \<open>ScopeInvariant\<close>, \<open>NameResolution\<close>, \<open>SemanticPass\<close> (\<open>Compiler/AST\<close>, \<open>Compiler/Binding\<close>,
    \<open>MessageInliner.cpp\<close>, \<open>SemanticVisitor.cpp\<close>): identifiers are bound to the variable lexical
    scoping gives them, and the assertions of the captures hold.
  \<^item> \<open>CompiledMethod\<close>, \<open>Treecode\<close>, \<open>TreecodeRoundTrip\<close>, \<open>Compilation\<close> (\<open>SMethodNode.cpp\<close>,
    \<open>SSmalltalkCompiler.cpp\<close>, \<open>TreecodeEncoder.cpp\<close>, \<open>Evaluator/TreecodeDecoder.*\<close>): the packing of
    formats, the encoding, its inverse, and the composition of parser, semantic pass and encoder.
  \<^item> \<open>SExpressions\<close>, \<open>Linearizer\<close>, \<open>Machine\<close>, \<open>LinearizerCorrect\<close>, \<open>InlinedMessages\<close>,
    \<open>CompiledTrees\<close>, \<open>LinearizerTotal\<close> (\<open>SExpressionLinearizer.cpp\<close> and the operations of
    \<open>Evaluator.cpp\<close>): the linearized operations compute what the statements of the tree mean.
  \<^item> \<open>EvaluationContext\<close> (\<open>Evaluator/EvaluationContext.*\<close>): frames on the stack refine the lists of
    slots the machine works on.
  \<^item> \<open>ObjectMemory\<close>, \<open>ObjectAccess\<close>, \<open>RuntimeObjects\<close>, \<open>MethodLookup\<close>, \<open>ObjectPrimitives\<close>
    (\<open>HeapObject.*\<close>, \<open>Evaluator/Runtime.*\<close>, \<open>GCedRef.h\<close>, primitives of \<open>Evaluator.cpp\<close>): headers
    and bodies, allocation and fields of objects, dictionaries and caches of methods, the primitives
    on objects.
  \<^item> \<open>Spaces\<close>, \<open>SpaceInvariant\<close> (\<open>Posix/Memory.cpp\<close>, \<open>Allocator/GCSpace.cpp\<close>,
    \<open>AllocationZone.cpp\<close>, \<open>GCHeap.cpp\<close>): reservation, spaces and regions; every allocation is
    apart from the memory in use.
  \<^item> \<open>Collector\<close> (\<open>Allocator/GarbageCollector.cpp\<close>, \<open>G1GC.cpp\<close>): evacuation, tracing, ephemerons,
    weak containers, native stacks and the sweep.  \<open>TraceInvariant\<close>, \<open>Tracing\<close>, \<open>TraceTotal\<close>,
    \<open>TraceCorrect\<close> and \<open>Evacuation\<close> show that from the start of a collection the closure over the
    registered references ends with every reachable object in its place, for graphs without special
    objects; native frames, ephemerons and the sweep are modelled without such a theorem.
    \<open>CollectorFaults\<close>: the update of weak containers and the sweep of large spaces fail.

  How code corresponds to definitions.  Classes are records, enumerations datatypes; machine integers
  are words of their width, so that sums wrap as in the code, and addresses are 64-bit words.  A
  failed \<open>ASSERT\<close>, undefined behaviour, \<open>error_\<close> and exceptions are the values of \<open>fault\<close>; every
  early return is a branch.  Shared mutable nodes of the parse tree are stores keyed by the place of
  the node; the memory of objects is a map from addresses; spaces are indices into one list.

  Loops and fuel.  The scanning loops recurse on a measure.  The parser takes fuel, the length of the
  source plus 3, which bounds the nesting: each level consumes a token, and \<open>ParserTotal\<close> shows that
  it never runs out.  Other loops are \<open>while_result\<close>, whose value is \<open>OutOfFuel\<close> when they do not
  end; \<open>while_result_total\<close> rules that out from a measure.  The machine of \<open>Machine\<close> takes fuel for
  loops of the program it runs, whose termination is up to that program.

  Parameters.  What the operating system answers to \<open>mmap\<close> is \<open>accepts\<close>, assumed only to answer
  ranges that overlap no others (\<open>honest_os\<close>).  Sends are a parameter of the machine, so that its
  theorems hold whatever a send does; buffers of allocated objects are a parameter of the object
  primitives, which \<open>Spaces\<close> provides.

  Not modelled: the bootstrapper and its readers (\<open>Bootstrap/\<close>: Tonel files, class specifications
  and the building of a kernel from them), image segments and their loader (file formats and pointer
  relocation over raw memory), host primitives, floats and foreign calls (operating system and
  \<open>libffi\<close>), process switching, printing for debugging, the platform layers for Windows, tests, the
  launcher, the Smalltalk modules and the JavaScript and Pharo runtimes.  They are mostly input and
  output, or data that the modelled parts consume.
\<close>

end
